(* ===== verification/Ait_Prelude.thy ===== *)
theory Ait_Prelude
  imports Main "HOL-Library.Word"
begin

text \<open>
  Shared vocabulary of the development: the machine types of the sources, the result type of
  fallible code, the state-and-error combinators in which the stateful operations are written,
  the little-endian codec of 32-bit integers, and the generic facts on byte lists (splicing,
  windows, truncation) that the storage proofs share.

  Conventions.  \<open>usize\<close> and \<open>u64\<close> quantities that only count bytes or
  elements of a list held in memory are \<^typ>\<open>nat\<close>; every checked operation of the source on
  them keeps its check (\<open>\<dots> < 2 ^ 64\<close>, \<open>\<dots> < 2 ^ 32\<close>).  Values that are
  stored (\<open>u8\<close>, \<open>u32\<close>) are words.
\<close>

section \<open>Machine types\<close>

type_synonym u8 = "8 word"
type_synonym u32 = "32 word"
type_synonym u64 = "64 word"
type_synonym bytes = "u8 list"

named_theorems io_simps \<open>unfolding of the state-and-error combinators\<close>
named_theorems io_elims \<open>inversion of successful runs\<close>
named_theorems splice_simps \<open>windows of byte lists under overwriting\<close>

section \<open>Fallible and stateful computations\<close>

text \<open>
  \<open>Result<T, E>\<close> is \<^typ>\<open>'e + 'a\<close> with \<^term>\<open>Inl\<close> for the error.  A stateful
  operation takes the world and returns its result together with the new world: an operation that
  fails may have changed the world, and the callers see that change.
\<close>

type_synonym ('w, 'e, 'a) io = "'w \<Rightarrow> ('e + 'a) \<times> 'w"

definition io_return :: "'a \<Rightarrow> ('w, 'e, 'a) io" where
  "io_return x = (\<lambda>w. (Inr x, w))"

definition io_fail :: "'e \<Rightarrow> ('w, 'e, 'a) io" where
  "io_fail e = (\<lambda>w. (Inl e, w))"

definition io_bind :: "('w, 'e, 'a) io \<Rightarrow> ('a \<Rightarrow> ('w, 'e, 'b) io) \<Rightarrow> ('w, 'e, 'b) io" where
  "io_bind m f = (\<lambda>w. case m w of (Inl e, w') \<Rightarrow> (Inl e, w') | (Inr x, w') \<Rightarrow> f x w')"

definition io_map_err :: "('e \<Rightarrow> 'f) \<Rightarrow> ('w, 'e, 'a) io \<Rightarrow> ('w, 'f, 'a) io" where
  "io_map_err g m = (\<lambda>w. case m w of (Inl e, w') \<Rightarrow> (Inl (g e), w') | (Inr x, w') \<Rightarrow> (Inr x, w'))"

definition io_lift :: "'e + 'a \<Rightarrow> ('w, 'e, 'a) io" where
  "io_lift r = (\<lambda>w. (r, w))"

definition io_guard :: "bool \<Rightarrow> 'e \<Rightarrow> ('w, 'e, unit) io" where
  "io_guard b e = (\<lambda>w. (if b then Inr () else Inl e, w))"

text \<open>
  A method that mutates its receiver runs on a pair of the receiver and the world: operations on
  the world alone are lifted, and the receiver is read and updated in place.
\<close>

definition io_over :: "('w, 'e, 'a) io \<Rightarrow> ('s \<times> 'w, 'e, 'a) io" where
  "io_over m = (\<lambda>(s, w). case m w of (r, w') \<Rightarrow> (r, (s, w')))"

definition io_get :: "('s \<times> 'w, 'e, 's) io" where
  "io_get = (\<lambda>(s, w). (Inr s, (s, w)))"

definition io_update :: "('s \<Rightarrow> 's) \<Rightarrow> ('s \<times> 'w, 'e, unit) io" where
  "io_update f = (\<lambda>(s, w). (Inr (), (f s, w)))"

definition res_bind :: "'e + 'a \<Rightarrow> ('a \<Rightarrow> 'e + 'b) \<Rightarrow> 'e + 'b" where
  "res_bind r f = (case r of Inl e \<Rightarrow> Inl e | Inr x \<Rightarrow> f x)"

definition is_ok :: "'e + 'a \<Rightarrow> bool" where
  "is_ok r = (case r of Inl _ \<Rightarrow> False | Inr _ \<Rightarrow> True)"

lemma is_ok_simps [simp]: "is_ok (Inr x)" "\<not> is_ok (Inl e)"
  by (simp_all add: is_ok_def)

lemma is_ok_iff: "is_ok r \<longleftrightarrow> (\<exists>x. r = Inr x)"
  by (cases r) simp_all

lemma res_bind_simps [simp]: "res_bind (Inl e) f = Inl e" "res_bind (Inr x) f = f x"
  by (simp_all add: res_bind_def)

lemma res_bind_Inr: "res_bind r f = Inr y \<longleftrightarrow> (\<exists>x. r = Inr x \<and> f x = Inr y)"
  by (cases r) simp_all

lemma io_return_apply [simp, io_simps]: "io_return x w = (Inr x, w)"
  by (simp add: io_return_def)

lemma io_fail_apply [simp, io_simps]: "io_fail e w = (Inl e, w)"
  by (simp add: io_fail_def)

lemma io_lift_apply [simp, io_simps]: "io_lift r w = (r, w)"
  by (simp add: io_lift_def)

lemma io_guard_apply [simp, io_simps]: "io_guard b e w = (if b then Inr () else Inl e, w)"
  by (simp add: io_guard_def)

lemma io_get_apply [simp, io_simps]: "io_get (s, w) = (Inr s, (s, w))"
  by (simp add: io_get_def)

lemma io_update_apply [simp, io_simps]: "io_update f (s, w) = (Inr (), (f s, w))"
  by (simp add: io_update_def)

lemma io_over_apply [io_simps]: "io_over m (s, w) = (case m w of (r, w') \<Rightarrow> (r, (s, w')))"
  by (simp add: io_over_def)

lemma io_over_run: "io_over m (s, w) = (r, x) \<longleftrightarrow> (\<exists>w'. m w = (r, w') \<and> x = (s, w'))"
  by (auto simp: io_over_def split: prod.splits)

lemma io_over_eq [simp]: "m w = (r, w') \<Longrightarrow> io_over m (s, w) = (r, (s, w'))"
  by (simp add: io_over_def)

lemma io_bind_Inl [simp]: "m w = (Inl e, w') \<Longrightarrow> io_bind m f w = (Inl e, w')"
  by (simp add: io_bind_def)

lemma io_bind_Inr [simp]: "m w = (Inr x, w') \<Longrightarrow> io_bind m f w = f x w'"
  by (simp add: io_bind_def)

lemma io_bind_apply [io_simps]:
  "io_bind m f w = (case m w of (Inl e, w') \<Rightarrow> (Inl e, w') | (Inr x, w') \<Rightarrow> f x w')"
  by (simp add: io_bind_def)

lemma io_map_err_apply [io_simps]:
  "io_map_err g m w = (case m w of (Inl e, w') \<Rightarrow> (Inl (g e), w') | (Inr x, w') \<Rightarrow> (Inr x, w'))"
  by (simp add: io_map_err_def)

lemma io_bind_ok:
  "io_bind m f w = (Inr y, w') \<longleftrightarrow> (\<exists>x v. m w = (Inr x, v) \<and> f x v = (Inr y, w'))"
  by (auto simp: io_bind_def split: prod.splits sum.splits)

lemma io_bind_err:
  "io_bind m f w = (Inl e, w') \<longleftrightarrow>
     m w = (Inl e, w') \<or> (\<exists>x v. m w = (Inr x, v) \<and> f x v = (Inl e, w'))"
  by (auto simp: io_bind_def split: prod.splits sum.splits)

lemma io_bind_assoc: "io_bind (io_bind m f) g = io_bind m (\<lambda>x. io_bind (f x) g)"
  by (auto simp: io_bind_def fun_eq_iff split: prod.splits sum.splits)

lemma io_map_err_ok: "io_map_err g m w = (Inr y, w') \<longleftrightarrow> m w = (Inr y, w')"
  by (auto simp: io_map_err_def split: prod.splits sum.splits)

lemma io_map_err_err:
  "io_map_err g m w = (Inl e, w') \<longleftrightarrow> (\<exists>d. m w = (Inl d, w') \<and> e = g d)"
  by (auto simp: io_map_err_def split: prod.splits sum.splits)

lemma io_lift_ok: "io_lift r w = (Inr y, w') \<longleftrightarrow> r = Inr y \<and> w' = w"
  by auto

lemma io_guard_ok: "io_guard b e w = (Inr y, w') \<longleftrightarrow> b \<and> w' = w"
  by (auto split: if_splits)

lemma io_return_ok: "io_return x w = (Inr y, w') \<longleftrightarrow> y = x \<and> w' = w"
  by auto

lemma io_fail_ok [simp]: "io_fail e w = (Inr y, w') \<longleftrightarrow> False"
  by simp

lemma io_if_fail_ok: "(if b then io_fail e else m) w = (Inr y, w') \<longleftrightarrow> \<not> b \<and> m w = (Inr y, w')"
  by simp

lemmas io_ok = io_if_fail_ok io_bind_ok io_map_err_ok io_lift_ok io_guard_ok io_return_ok io_fail_ok

text \<open>
  An operation keeps a relation between the world before and after it, whatever its result: the
  frame rules for the combinators.  \<open>io_keeps R m\<close> is used with the relation that a
  component's operations promise (same lock table, same contents outside one path, and so on).
\<close>

definition io_keeps :: "('w \<Rightarrow> 'w \<Rightarrow> bool) \<Rightarrow> ('w, 'e, 'a) io \<Rightarrow> bool" where
  "io_keeps R m \<longleftrightarrow> (\<forall>w. R w (snd (m w)))"

lemma io_keepsD: "io_keeps R m \<Longrightarrow> m w = (r, w') \<Longrightarrow> R w w'"
  unfolding io_keeps_def by (metis snd_conv)

lemma io_keepsI: "(\<And>w r w'. m w = (r, w') \<Longrightarrow> R w w') \<Longrightarrow> io_keeps R m"
  unfolding io_keeps_def by (metis prod.collapse)

lemma io_keeps_pure:
  assumes "reflp R"
  shows "io_keeps R (io_return x)" "io_keeps R (io_fail e)" "io_keeps R (io_lift r)"
    "io_keeps R (io_guard b e)"
  using assms by (auto simp: io_keeps_def reflp_def)

lemma io_keeps_bind:
  assumes "transp R" and "io_keeps R m" and "\<And>x. io_keeps R (f x)"
  shows "io_keeps R (io_bind m f)"
proof (rule io_keepsI)
  fix w r w'
  assume run: "io_bind m f w = (r, w')"
  obtain q v where m: "m w = (q, v)" by (cases "m w")
  have step: "R w v" using assms(2) m by (rule io_keepsD)
  show "R w w'"
  proof (cases q)
    case (Inl e)
    with run m step show ?thesis by (simp add: io_bind_def)
  next
    case (Inr x)
    with run m have "f x v = (r, w')" by (simp add: io_bind_def)
    with assms(3) have "R v w'" by (rule io_keepsD)
    with assms(1) step show ?thesis by (blast dest: transpD)
  qed
qed

lemma io_keeps_map_err: "io_keeps R m \<Longrightarrow> io_keeps R (io_map_err g m)"
  by (rule io_keepsI) (auto simp: io_map_err_def split: prod.splits sum.splits dest: io_keepsD)

section \<open>Little-endian integers\<close>

definition to_le_bytes :: "u32 \<Rightarrow> bytes" where
  "to_le_bytes n = [ucast n, ucast (drop_bit 8 n), ucast (drop_bit 16 n), ucast (drop_bit 24 n)]"

definition from_le_bytes :: "bytes \<Rightarrow> u32" where
  "from_le_bytes bs =
     (case bs of [a, b, c, d] \<Rightarrow>
        or (ucast a) (or (push_bit 8 (ucast b)) (or (push_bit 16 (ucast c)) (push_bit 24 (ucast d))))
      | _ \<Rightarrow> 0)"

lemma length_to_le_bytes [simp]: "length (to_le_bytes n) = 4"
  by (simp add: to_le_bytes_def)

lemma from_to_le_bytes [simp]: "from_le_bytes (to_le_bytes n) = n"
proof (rule bit_word_eqI)
  fix i assume "i < LENGTH(32)"
  then show "bit (from_le_bytes (to_le_bytes n)) i = bit n i"
    by (cases "i < 8"; cases "i < 16"; cases "i < 24")
      (simp_all add: from_le_bytes_def to_le_bytes_def bit_simps, linarith+)
qed

lemma to_from_le_bytes: "length bs = 4 \<Longrightarrow> to_le_bytes (from_le_bytes bs) = bs"
proof -
  assume "length bs = 4"
  then obtain a b c d where bs: "bs = [a, b, c, d]"
    by (auto simp: length_Suc_conv eval_nat_numeral)
  have high: "\<not> bit (x :: u8) (8 + n)" "\<not> bit x (16 + n)" "\<not> bit x (24 + n)" for x n
    by (auto dest: bit_imp_le_length)
  show ?thesis
    unfolding bs to_le_bytes_def from_le_bytes_def
    by (auto intro!: bit_word_eqI simp: bit_simps high)
qed

definition to_le_bytes64 :: "u64 \<Rightarrow> bytes" where
  "to_le_bytes64 n = to_le_bytes (ucast n) @ to_le_bytes (ucast (drop_bit 32 n))"

definition from_le_bytes64 :: "bytes \<Rightarrow> u64" where
  "from_le_bytes64 bs = or (ucast (from_le_bytes (take 4 bs))) (push_bit 32 (ucast (from_le_bytes (drop 4 bs))))"

lemma length_to_le_bytes64 [simp]: "length (to_le_bytes64 n) = 8"
  by (simp add: to_le_bytes64_def)

lemma from_to_le_bytes64 [simp]: "from_le_bytes64 (to_le_bytes64 n) = n"
proof (rule bit_word_eqI)
  fix i
  show "bit (from_le_bytes64 (to_le_bytes64 n)) i = bit n i"
    by (cases "i < 32") (auto simp: from_le_bytes64_def to_le_bytes64_def bit_simps dest: bit_imp_le_length)
qed

lemma to_from_le_bytes64: "length bs = 8 \<Longrightarrow> to_le_bytes64 (from_le_bytes64 bs) = bs"
proof -
  assume len: "length bs = 8"
  define a b :: u32 where "a = from_le_bytes (take 4 bs)" and "b = from_le_bytes (drop 4 bs)"
  have high: "\<not> bit (x :: u32) (32 + n)" for x n by (auto dest: bit_imp_le_length)
  have "ucast (from_le_bytes64 bs) = a" "ucast (drop_bit 32 (from_le_bytes64 bs)) = b"
    unfolding from_le_bytes64_def a_def [symmetric] b_def [symmetric]
    by (auto intro!: bit_word_eqI simp: bit_simps high)
  then show ?thesis
    using len by (simp add: to_le_bytes64_def a_def b_def to_from_le_bytes)
qed

end
