(* ===== verification/Store_Path.thy ===== *)
theory Store_Path
  imports Ait_Prelude
begin

text \<open>
  Paths as the standard library compares them.  \<open>PathBuf\<close> equality, hashing,
  \<open>parent\<close>, \<open>file_name\<close> and \<open>extension\<close> are all defined on the
  component sequence of a path, so a path is that sequence (\<open>std::path::Component\<close>).  The
  text of a path is its normal spelling: components separated by one slash.  Joining, parents and
  extensions follow the documentation of \<open>std::path\<close>.
\<close>

section \<open>Components\<close>

datatype path_component =
    Prefix string
  | RootDir
  | CurDir
  | ParentDir
  | Normal string

type_synonym path = "path_component list"

definition path_has_root :: "path \<Rightarrow> bool" where
  "path_has_root p = (case p of RootDir # _ \<Rightarrow> True | Prefix _ # RootDir # _ \<Rightarrow> True | _ \<Rightarrow> False)"

definition path_starts_with_prefix :: "path \<Rightarrow> bool" where
  "path_starts_with_prefix p = (case p of Prefix _ # _ \<Rightarrow> True | _ \<Rightarrow> False)"

definition path_join :: "path \<Rightarrow> path \<Rightarrow> path" where
  "path_join a b =
     (if path_has_root b \<or> path_starts_with_prefix b \<or> a = [] then b
      else a @ filter (\<lambda>c. c \<noteq> CurDir) b)"

definition path_file_name :: "path \<Rightarrow> string option" where
  "path_file_name p =
     (if p = [] then None else case last p of Normal s \<Rightarrow> Some s | _ \<Rightarrow> None)"

definition path_parent :: "path \<Rightarrow> path option" where
  "path_parent p =
     (if p = [] then None
      else case last p of RootDir \<Rightarrow> None | Prefix _ \<Rightarrow> None | _ \<Rightarrow> Some (butlast p))"

text \<open>The part of a file name after its last dot, unless that dot is the first character.\<close>

definition name_extension :: "string \<Rightarrow> string option" where
  "name_extension s =
     (if CHR ''.'' \<notin> set s then None
      else let ext = rev (takeWhile (\<lambda>c. c \<noteq> CHR ''.'') (rev s))
           in if length s = Suc (length ext) then None else Some ext)"

definition path_extension :: "path \<Rightarrow> string option" where
  "path_extension p = Option.bind (path_file_name p) name_extension"

fun component_text :: "path_component \<Rightarrow> string" where
  "component_text (Prefix s) = s"
| "component_text RootDir = []"
| "component_text CurDir = ''.''"
| "component_text ParentDir = ''..''"
| "component_text (Normal s) = s"

fun path_text :: "path \<Rightarrow> string" where
  "path_text [] = []"
| "path_text [RootDir] = ''/''"
| "path_text [c] = component_text c"
| "path_text (c # cs) = component_text c @ ''/'' @ path_text cs"

section \<open>Facts\<close>

definition path_relative :: "path \<Rightarrow> bool" where
  "path_relative p \<longleftrightarrow> \<not> path_has_root p \<and> \<not> path_starts_with_prefix p"

lemma path_join_relative:
  "path_relative b \<Longrightarrow> a \<noteq> [] \<Longrightarrow> path_join a b = a @ filter (\<lambda>c. c \<noteq> CurDir) b"
  by (simp add: path_join_def path_relative_def)

lemma path_join_inj:
  assumes "path_relative b" "path_relative c" "CurDir \<notin> set b" "CurDir \<notin> set c" "a \<noteq> []"
  shows "path_join a b = path_join a c \<longleftrightarrow> b = c"
proof -
  have "filter (\<lambda>c. c \<noteq> CurDir) b = b" "filter (\<lambda>c. c \<noteq> CurDir) c = c"
    using assms(3,4) by (auto simp: filter_id_conv)
  with assms show ?thesis by (simp add: path_join_relative)
qed

end
