(* ===== verification/File_Io.thy ===== *)
theory File_Io
  imports Store_Path
begin

text \<open>
  The injected file boundary (\<open>ait-core/src/file_io/mod.rs\<close>): the filesystem adapter
  \<open>FilesystemFileIoStore\<close> with its byte, durability and lock operations.

  The world holds the current contents of every file (\<open>files\<close>), the contents known to be
  on stable storage (\<open>durable\<close>, updated by \<open>fsync\<close>), the advisory lock table with
  the text of the lock files (\<open>lock_cells\<close>), and a schedule of operating-system failures
  (\<open>faults\<close>).  Every operating-system call takes the next entry of the schedule:
  \<^term>\<open>None\<close> lets it succeed, a fault makes it fail, either before it had any effect or, for a
  write, after a prefix of the bytes reached the file.  An exhausted schedule means no further
  failures.  Directories are not part of the world: creating one can fail but changes nothing.
\<close>

section \<open>Error kinds\<close>

datatype io_error_kind =
    IoNotFound | IoPermissionDenied | IoAlreadyExists | IoInvalidInput | IoInvalidData
  | IoInterrupted | IoWouldBlock | IoUnexpectedEof | IoWriteZero | IoUnsupported | IoOtherKind

datatype FileIoErrorKind =
    NotFound | PermissionDenied | AlreadyExists | InvalidInput | InvalidData | Interrupted
  | WouldBlock | UnexpectedEof | WriteZero | Unsupported | Lock | Durability | Utf8 | Other

fun file_io_error_kind :: "io_error_kind \<Rightarrow> FileIoErrorKind" where
  "file_io_error_kind IoNotFound = NotFound"
| "file_io_error_kind IoPermissionDenied = PermissionDenied"
| "file_io_error_kind IoAlreadyExists = AlreadyExists"
| "file_io_error_kind IoInvalidInput = InvalidInput"
| "file_io_error_kind IoInvalidData = InvalidData"
| "file_io_error_kind IoInterrupted = Interrupted"
| "file_io_error_kind IoWouldBlock = WouldBlock"
| "file_io_error_kind IoUnexpectedEof = UnexpectedEof"
| "file_io_error_kind IoWriteZero = WriteZero"
| "file_io_error_kind IoUnsupported = Unsupported"
| "file_io_error_kind IoOtherKind = Other"

section \<open>The world\<close>

datatype io_fault = FailBefore io_error_kind | FailAfter nat io_error_kind

datatype FileIoLockMode = Shared | Exclusive

datatype FileIoLockWait = Blocking | Nonblocking

record lock_cell =
  lock_holders :: "(nat \<times> FileIoLockMode) list"
  lock_contents :: bytes

record io_world =
  files :: "path \<Rightarrow> bytes option"
  durable :: "path \<Rightarrow> bytes option"
  lock_cells :: "path \<Rightarrow> lock_cell"
  faults :: "io_fault option list"

type_synonym 'a file_io = "(io_world, FileIoErrorKind, 'a) io"

text \<open>
  Whether a file exists is decided by the world, so an injected failure is never
  \<open>NotFound\<close>: that kind in the schedule stands for an unclassified failure.
\<close>

definition os_error :: "io_error_kind \<Rightarrow> FileIoErrorKind" where
  "os_error k = file_io_error_kind (if k = IoNotFound then IoOtherKind else k)"

definition take_fault :: "io_world \<Rightarrow> io_fault option \<times> io_world" where
  "take_fault w = (case faults w of [] \<Rightarrow> (None, w) | f # fs \<Rightarrow> (f, w\<lparr>faults := fs\<rparr>))"

definition os_call :: "'a file_io \<Rightarrow> (nat \<Rightarrow> io_world \<Rightarrow> io_world) \<Rightarrow> 'a file_io" where
  "os_call effect torn w =
     (case take_fault w of
        (None, w') \<Rightarrow> effect w'
      | (Some (FailBefore k), w') \<Rightarrow> (Inl (os_error k), w')
      | (Some (FailAfter n k), w') \<Rightarrow> (Inl (os_error k), torn n w'))"

definition os_query :: "'a file_io \<Rightarrow> 'a file_io" where
  "os_query effect = os_call effect (\<lambda>_ w. w)"

definition set_file :: "path \<Rightarrow> bytes \<Rightarrow> io_world \<Rightarrow> io_world" where
  "set_file p b w = w\<lparr>files := (files w)(p \<mapsto> b)\<rparr>"

text \<open>Overwriting a window of a byte list, the rest unchanged.\<close>

definition splice_bytes :: "nat \<Rightarrow> bytes \<Rightarrow> bytes \<Rightarrow> bytes" where
  "splice_bytes off bs b = take off b @ bs @ drop (off + length bs) b"

section \<open>Byte operations of the filesystem store\<close>

definition metadata_len :: "path \<Rightarrow> nat option file_io" where
  "metadata_len p = os_query (\<lambda>w. (Inr (map_option length (files w p)), w))"

definition read_bytes :: "path \<Rightarrow> bytes file_io" where
  "read_bytes p = os_query (\<lambda>w. case files w p of None \<Rightarrow> (Inl NotFound, w) | Some b \<Rightarrow> (Inr b, w))"

definition read_range :: "path \<Rightarrow> nat \<Rightarrow> u32 \<Rightarrow> bytes file_io" where
  "read_range p off len = os_query (\<lambda>w. case files w p of
      None \<Rightarrow> (Inl NotFound, w)
    | Some b \<Rightarrow>
        if 0 < unat len \<and> length b < off + unat len then (Inl UnexpectedEof, w)
        else (Inr (take (unat len) (drop off b)), w))"

definition create_parent_dirs :: "path \<Rightarrow> unit file_io" where
  "create_parent_dirs p =
     (case path_parent p of None \<Rightarrow> io_return () | Some _ \<Rightarrow> os_query (\<lambda>w. (Inr (), w)))"

definition file_or_empty :: "io_world \<Rightarrow> path \<Rightarrow> bytes" where
  "file_or_empty w p = (case files w p of None \<Rightarrow> [] | Some b \<Rightarrow> b)"

definition append_bytes :: "path \<Rightarrow> bytes \<Rightarrow> nat file_io" where
  "append_bytes p bs =
     io_bind (create_parent_dirs p) (\<lambda>_.
       os_call
         (\<lambda>w. (Inr (length (file_or_empty w p)), set_file p (file_or_empty w p @ bs) w))
         (\<lambda>n w. set_file p (file_or_empty w p @ take n bs) w))"

definition overwrite_range :: "path \<Rightarrow> nat \<Rightarrow> bytes \<Rightarrow> unit file_io" where
  "overwrite_range p off bs =
     io_bind (os_query (\<lambda>w. case files w p of None \<Rightarrow> (Inl NotFound, w) | Some b \<Rightarrow> (Inr b, w))) (\<lambda>b.
     io_bind (io_guard (off + length bs < 2 ^ 64) InvalidInput) (\<lambda>_.
     io_bind (io_guard (off + length bs \<le> length b) InvalidInput) (\<lambda>_.
       os_call (\<lambda>w. (Inr (), set_file p (splice_bytes off bs b) w))
         (\<lambda>n w. set_file p (splice_bytes off (take n bs) b) w))))"

definition truncate_file :: "path \<Rightarrow> nat \<Rightarrow> unit file_io" where
  "truncate_file p len = os_query (\<lambda>w. case files w p of
      None \<Rightarrow> (Inl NotFound, w)
    | Some b \<Rightarrow> (Inr (), set_file p (take len b @ replicate (len - length b) 0) w))"

definition remove_file_if_exists :: "path \<Rightarrow> unit file_io" where
  "remove_file_if_exists p = os_query (\<lambda>w. (Inr (), w\<lparr>files := (files w)(p := None)\<rparr>))"

section \<open>Durability\<close>

definition sync_file :: "path \<Rightarrow> unit file_io" where
  "sync_file p = io_map_err (\<lambda>_. Durability)
     (os_query (\<lambda>w. case files w p of
        None \<Rightarrow> (Inl NotFound, w)
      | Some b \<Rightarrow> (Inr (), w\<lparr>durable := (durable w)(p \<mapsto> b)\<rparr>)))"

definition sync_dir :: "path \<Rightarrow> unit file_io" where
  "sync_dir p = io_map_err (\<lambda>_. Durability) (os_query (\<lambda>w. (Inr (), w)))"

section \<open>Atomic replacement\<close>

text \<open>
  The temporary file is named after the target, the process and the clock; the last two are the
  argument \<open>tag\<close>.  The
  replacement is created and written in the staging directory, flushed, and renamed over the
  target; any failure on the way removes the temporary file on a best-effort basis.
\<close>

definition rename_file :: "path \<Rightarrow> path \<Rightarrow> unit file_io" where
  "rename_file src dst = os_query (\<lambda>w. case files w src of
      None \<Rightarrow> (Inl NotFound, w)
    | Some b \<Rightarrow> (Inr (), w\<lparr>files := ((files w)(src := None))(dst \<mapsto> b),
                           durable := ((durable w)(src := None))(dst := durable w src)\<rparr>))"

definition write_temp_and_rename :: "path \<Rightarrow> path \<Rightarrow> bytes \<Rightarrow> unit file_io" where
  "write_temp_and_rename temp p bs =
     io_bind (os_query (\<lambda>w. (Inr (), set_file temp [] w))) (\<lambda>_.
     io_bind (os_call (\<lambda>w. (Inr (), set_file temp bs w)) (\<lambda>n w. set_file temp (take n bs) w)) (\<lambda>_.
     io_bind (sync_file temp) (\<lambda>_.
       rename_file temp p)))"

definition atomic_temp_path :: "path \<Rightarrow> string \<Rightarrow> path \<Rightarrow> path" where
  "atomic_temp_path staging_directory tag p =
     path_join staging_directory
       [Normal (''.'' @ (case path_file_name p of None \<Rightarrow> ''file'' | Some n \<Rightarrow> n) @ ''.tmp-'' @ tag)]"

definition write_bytes_atomically_from_directory :: "path \<Rightarrow> path \<Rightarrow> string \<Rightarrow> bytes \<Rightarrow> unit file_io" where
  "write_bytes_atomically_from_directory p staging_directory tag bs =
     io_bind (os_query (\<lambda>w. (Inr (), w))) (\<lambda>_ w.
       let temp = atomic_temp_path staging_directory tag p in
       case write_temp_and_rename temp p bs w of
         (Inl e, w') \<Rightarrow> (Inl e, snd (remove_file_if_exists temp w'))
       | (Inr u, w') \<Rightarrow> (Inr u, w'))"

section \<open>Process locks\<close>

record lock_guard =
  guard_path :: path
  guard_owner :: nat
  guard_mode :: FileIoLockMode
  guard_released :: bool

definition lock_compatible :: "FileIoLockMode \<Rightarrow> (nat \<times> FileIoLockMode) list \<Rightarrow> bool" where
  "lock_compatible mode holders =
     (case mode of Exclusive \<Rightarrow> holders = [] | Shared \<Rightarrow> (\<forall>h \<in> set holders. snd h = Shared))"

definition set_cell :: "path \<Rightarrow> lock_cell \<Rightarrow> io_world \<Rightarrow> io_world" where
  "set_cell p c w = w\<lparr>lock_cells := (lock_cells w)(p := c)\<rparr>"

text \<open>
  Opening the lock file and asking the system for the lock.  A request that cannot be granted
  answers \<^term>\<open>Inr None\<close> when it is non-blocking; a blocking one does not return, which is the
  outer \<^term>\<open>None\<close>.
\<close>

definition acquire_process_lock ::
    "nat \<Rightarrow> path \<Rightarrow> FileIoLockMode \<Rightarrow> FileIoLockWait \<Rightarrow> io_world \<Rightarrow>
     ((FileIoErrorKind + lock_guard option) \<times> io_world) option" where
  "acquire_process_lock owner p mode wait w =
     (case io_bind (create_parent_dirs p) (\<lambda>_. os_query (\<lambda>w. (Inr (), w))) w of
        (Inl e, w1) \<Rightarrow> Some (Inl e, w1)
      | (Inr _, w1) \<Rightarrow>
          (case take_fault w1 of
             (Some _, w2) \<Rightarrow> Some (Inl Lock, w2)
           | (None, w2) \<Rightarrow>
               let c = lock_cells w2 p in
               if lock_compatible mode (lock_holders c) then
                 Some (Inr (Some \<lparr>guard_path = p, guard_owner = owner, guard_mode = mode,
                                  guard_released = False\<rparr>),
                       set_cell p (c\<lparr>lock_holders := (owner, mode) # lock_holders c\<rparr>) w2)
               else (case wait of Nonblocking \<Rightarrow> Some (Inr None, w2) | Blocking \<Rightarrow> None)))"

definition replace_contents_and_flush :: "lock_guard \<Rightarrow> bytes \<Rightarrow> unit file_io" where
  "replace_contents_and_flush g bs =
     (let p = guard_path g;
          put = \<lambda>b w. set_cell p ((lock_cells w p)\<lparr>lock_contents := b\<rparr>) w
      in io_bind (os_query (\<lambda>w. (Inr (), put [] w))) (\<lambda>_.
           os_call (\<lambda>w. (Inr (), put bs w)) (\<lambda>n w. put (take n bs) w)))"

definition clear_contents_and_flush :: "lock_guard \<Rightarrow> unit file_io" where
  "clear_contents_and_flush g = replace_contents_and_flush g []"

text \<open>Releasing returns the guard with its flag set; a released guard is left alone.\<close>

definition release_guard :: "lock_guard \<Rightarrow> lock_guard file_io" where
  "release_guard g =
     (if guard_released g then io_return g
      else io_map_err (\<lambda>_. Lock) (os_query (\<lambda>w.
        let p = guard_path g; c = lock_cells w p in
        (Inr (g\<lparr>guard_released := True\<rparr>),
         set_cell p (c\<lparr>lock_holders := remove1 (guard_owner g, guard_mode g) (lock_holders c)\<rparr>) w))))"

section \<open>Windows of byte lists\<close>

lemma length_splice [simp]: "off + length bs \<le> length b \<Longrightarrow> length (splice_bytes off bs b) = length b"
  by (simp add: splice_bytes_def)

lemma splice_window [splice_simps]:
  "off + length bs \<le> length b \<Longrightarrow> take (length bs) (drop off (splice_bytes off bs b)) = bs"
  by (simp add: splice_bytes_def)

lemma splice_nth:
  assumes "off + length bs \<le> length b" and "i < length b"
  shows "splice_bytes off bs b ! i = (if off \<le> i \<and> i < off + length bs then bs ! (i - off) else b ! i)"
proof (cases "i < off")
  case True
  then show ?thesis using assms by (simp add: splice_bytes_def nth_append)
next
  case False
  show ?thesis
  proof (cases "i < off + length bs")
    case True
    then show ?thesis using assms False by (auto simp: splice_bytes_def nth_append)
  next
    case 2: False
    then have "off + length bs + (i - (off + length bs)) = i" by simp
    with 2 False show ?thesis using assms by (auto simp: splice_bytes_def nth_append)
  qed
qed

lemma splice_same [splice_simps]:
  "off + n \<le> length b \<Longrightarrow> splice_bytes off (take n (drop off b)) b = b"
proof -
  assume "off + n \<le> length b"
  then have "splice_bytes off (take n (drop off b)) b = take off b @ take n (drop off b) @ drop n (drop off b)"
    by (simp add: splice_bytes_def add.commute)
  then show ?thesis by (simp only: append_take_drop_id)
qed

lemma splice_splice [splice_simps]:
  assumes "length bs = length cs" and "off + length bs \<le> length b"
  shows "splice_bytes off bs (splice_bytes off cs b) = splice_bytes off bs b"
  by (rule nth_equalityI) (use assms in \<open>auto simp: splice_nth\<close>)

lemma splice_other_window:
  assumes "off + length bs \<le> length b"
    and "i + n \<le> off \<or> off + length bs \<le> i"
  shows "take n (drop i (splice_bytes off bs b)) = take n (drop i b)"
  by (rule nth_equalityI) (use assms in \<open>auto simp: splice_nth\<close>)

section \<open>What each operation does to the world\<close>

text \<open>
  \<open>quiet\<close>: only the fault schedule advanced.  \<open>touches p\<close>: only the contents of
  \<open>p\<close> (and the schedule) changed.  \<open>calm\<close>: no failure is pending.
\<close>

definition quiet :: "io_world \<Rightarrow> io_world \<Rightarrow> bool" where
  "quiet w w' \<longleftrightarrow> files w' = files w \<and> durable w' = durable w \<and> lock_cells w' = lock_cells w"

definition touches :: "path \<Rightarrow> io_world \<Rightarrow> io_world \<Rightarrow> bool" where
  "touches p w w' \<longleftrightarrow> (\<forall>q. q \<noteq> p \<longrightarrow> files w' q = files w q) \<and>
     durable w' = durable w \<and> lock_cells w' = lock_cells w"

definition calm :: "io_world \<Rightarrow> bool" where
  "calm w \<longleftrightarrow> list_all (\<lambda>f. f = None) (faults w)"

lemma quiet_refl [simp]: "quiet w w"
  by (simp add: quiet_def)

lemma quiet_reflp: "reflp quiet"
  by (simp add: reflp_def)

lemma quiet_transp: "transp quiet"
  by (auto simp: transp_def quiet_def)

lemma touches_reflp: "reflp (touches p)"
  by (simp add: reflp_def touches_def)

lemma touches_transp: "transp (touches p)"
  by (auto simp: transp_def touches_def)

lemma quiet_touches: "quiet w w' \<Longrightarrow> touches p w w'"
  by (simp add: quiet_def touches_def)

lemma take_fault_quiet: "take_fault w = (f, w') \<Longrightarrow> quiet w w'"
  by (auto simp: take_fault_def quiet_def split: list.splits)

lemma take_fault_calm: "calm w \<Longrightarrow> \<exists>w'. take_fault w = (None, w') \<and> quiet w w' \<and> calm w'"
  by (auto simp: take_fault_def quiet_def calm_def split: list.splits)

lemma os_query_quiet:
  assumes "\<And>w. quiet w (snd (eff w))"
  shows "io_keeps quiet (os_query eff)"
proof (rule io_keepsI)
  fix w r w'
  assume run: "os_query eff w = (r, w')"
  obtain f v where f: "take_fault w = (f, v)" by (cases "take_fault w")
  have "quiet w v" using f by (rule take_fault_quiet)
  moreover have "quiet v w'"
    using run f assms [of v] by (cases f) (auto simp: os_query_def os_call_def split: io_fault.splits)
  ultimately show "quiet w w'" using quiet_transp by (blast dest: transpD)
qed

lemma os_call_ok:
  assumes "os_call eff torn w = (Inr x, w')"
  obtains v where "quiet w v" "eff v = (Inr x, w')"
  using assms take_fault_quiet [of w]
  by (auto simp: os_call_def split: prod.splits option.splits io_fault.splits)

lemma os_call_calm:
  assumes "calm w"
  obtains v where "quiet w v" "calm v" "os_call eff torn w = eff v"
  using take_fault_calm [OF assms] by (auto simp: os_call_def)

lemmas io_keeps_quiet_rules =
  io_keeps_pure [OF quiet_reflp] io_keeps_bind [OF quiet_transp] io_keeps_map_err os_query_quiet

lemma metadata_len_quiet: "io_keeps quiet (metadata_len p)"
  unfolding metadata_len_def by (rule os_query_quiet) simp

lemma read_bytes_quiet: "io_keeps quiet (read_bytes p)"
  unfolding read_bytes_def by (rule os_query_quiet) (simp split: option.splits)

lemma read_range_quiet: "io_keeps quiet (read_range p off len)"
  unfolding read_range_def by (rule os_query_quiet) (simp split: option.splits)

lemma create_parent_dirs_quiet: "io_keeps quiet (create_parent_dirs p)"
  unfolding create_parent_dirs_def
  by (auto split: option.splits intro!: io_keeps_quiet_rules)

lemma sync_dir_quiet: "io_keeps quiet (sync_dir p)"
  unfolding sync_dir_def by (intro io_keeps_quiet_rules) simp

lemma metadata_len_ok:
  "metadata_len p w = (Inr r, w') \<Longrightarrow> r = map_option length (files w p) \<and> quiet w w'"
  by (auto simp: metadata_len_def os_query_def quiet_def elim!: os_call_ok)

lemma read_bytes_ok:
  "read_bytes p w = (Inr r, w') \<Longrightarrow> files w p = Some r \<and> quiet w w'"
  by (auto simp: read_bytes_def os_query_def quiet_def elim!: os_call_ok split: option.splits)

lemma read_range_ok:
  "read_range p off len w = (Inr r, w') \<Longrightarrow>
     \<exists>b. files w p = Some b \<and> r = take (unat len) (drop off b) \<and>
       (0 < unat len \<longrightarrow> off + unat len \<le> length b) \<and> quiet w w'"
  by (auto simp: read_range_def os_query_def quiet_def elim!: os_call_ok
      split: option.splits if_splits)

lemma append_bytes_ok:
  assumes "append_bytes p bs w = (Inr off, w')"
  shows "off = length (file_or_empty w p)"
    and "files w' = (files w)(p \<mapsto> file_or_empty w p @ bs)"
    and "touches p w w'"
proof -
  from assms obtain u v where v: "create_parent_dirs p w = (Inr u, v)"
    and call: "os_call (\<lambda>w. (Inr (length (file_or_empty w p)), set_file p (file_or_empty w p @ bs) w))
         (\<lambda>n w. set_file p (file_or_empty w p @ take n bs) w) v = (Inr off, w')"
    by (auto simp: append_bytes_def io_bind_ok)
  from v have "quiet w v" by (rule io_keepsD [OF create_parent_dirs_quiet])
  with call show "off = length (file_or_empty w p)"
    "files w' = (files w)(p \<mapsto> file_or_empty w p @ bs)" "touches p w w'"
    by (auto simp: quiet_def touches_def file_or_empty_def set_file_def elim!: os_call_ok)
qed

lemma append_bytes_err:
  assumes "append_bytes p bs w = (Inl e, w')"
  shows "quiet w w' \<or> (\<exists>n. files w' = (files w)(p \<mapsto> file_or_empty w p @ take n bs) \<and> touches p w w')"
proof -
  obtain r v where v: "create_parent_dirs p w = (r, v)" by (cases "create_parent_dirs p w")
  then have q: "quiet w v" by (rule io_keepsD [OF create_parent_dirs_quiet])
  show ?thesis
  proof (cases r)
    case (Inl d)
    with assms v q show ?thesis by (simp add: append_bytes_def io_bind_def)
  next
    case (Inr u)
    with assms v q show ?thesis
      using take_fault_quiet [of v]
      by (auto simp: append_bytes_def io_bind_def os_call_def quiet_def touches_def set_file_def
          file_or_empty_def split: prod.splits option.splits io_fault.splits)
  qed
qed

lemma overwrite_range_ok:
  assumes "overwrite_range p off bs w = (Inr u, w')"
  obtains b where "files w p = Some b" "off + length bs \<le> length b"
    "files w' = (files w)(p \<mapsto> splice_bytes off bs b)" "touches p w w'"
  using assms
  by (auto simp: overwrite_range_def io_bind_ok io_guard_ok os_query_def quiet_def touches_def
      set_file_def elim!: os_call_ok split: option.splits if_splits)

lemma overwrite_range_err:
  assumes "overwrite_range p off bs w = (Inl e, w')"
  shows "quiet w w' \<or> (\<exists>n b. files w p = Some b \<and> off + length bs \<le> length b \<and>
    files w' = (files w)(p \<mapsto> splice_bytes off (take n bs) b) \<and> touches p w w')"
proof -
  obtain r v where v: "os_query (\<lambda>w. case files w p of None \<Rightarrow> (Inl NotFound, w)
      | Some b \<Rightarrow> (Inr b, w)) w = (r, v)" by fastforce
  have q: "quiet w v"
    by (rule io_keepsD [OF os_query_quiet v]) (simp split: option.splits)
  show ?thesis
  proof (cases r)
    case (Inl d)
    with assms v q show ?thesis by (simp add: overwrite_range_def io_bind_def)
  next
    case (Inr b)
    with v have b: "files w p = Some b"
      by (auto simp: os_query_def quiet_def elim!: os_call_ok split: option.splits)
    let ?call = "os_call (\<lambda>w. (Inr (), set_file p (splice_bytes off bs b) w))
      (\<lambda>n w. set_file p (splice_bytes off (take n bs) b) w) v"
    consider "quiet w w'" | "?call = (Inl e, w')" "off + length bs \<le> length b"
      using assms v Inr q by (auto simp: overwrite_range_def io_bind_def split: if_splits)
    then show ?thesis
    proof cases
      case 2
      obtain f u where f: "take_fault v = (f, u)" by fastforce
      with 2 q b take_fault_quiet [OF f] show ?thesis
        by (auto simp: os_call_def quiet_def touches_def set_file_def
            split: option.splits io_fault.splits)
    qed simp
  qed
qed

lemma truncate_file_ok:
  assumes "truncate_file p len w = (Inr u, w')"
  obtains b where "files w p = Some b"
    "files w' = (files w)(p \<mapsto> take len b @ replicate (len - length b) 0)" "touches p w w'"
  using assms
  by (auto simp: truncate_file_def os_query_def quiet_def touches_def set_file_def
      elim!: os_call_ok split: option.splits)

lemma remove_file_ok:
  assumes "remove_file_if_exists p w = (Inr u, w')"
  shows "files w' = (files w)(p := None)" "touches p w w'"
  using assms
  by (auto simp: remove_file_if_exists_def os_query_def quiet_def touches_def elim!: os_call_ok)

lemma sync_file_ok:
  assumes "sync_file p w = (Inr u, w')"
  obtains b where "files w p = Some b" "files w' = files w" "lock_cells w' = lock_cells w"
    "durable w' = (durable w)(p \<mapsto> b)"
  using assms
  by (auto simp: sync_file_def io_map_err_ok os_query_def quiet_def elim!: os_call_ok
      split: option.splits)

end
