(* ===== verification/Io_Reads.thy ===== *)
theory Io_Reads
  imports File_Io
begin

text \<open>
  A calculus for operations that only read the store.  \<open>reads m v\<close> says that the operation
  \<open>m\<close> leaves the store unchanged, that a successful run returned the value \<open>v\<close>
  computes from the store, and that without pending failures \<open>m\<close> returns exactly
  \<open>v\<close>, errors included.  The rules follow the combinators, so the value of a composed
  operation is obtained by the structure of its definition.
\<close>

definition quiet_inv :: "(io_world \<Rightarrow> 'a) \<Rightarrow> bool" where
  "quiet_inv v \<longleftrightarrow> (\<forall>w w'. quiet w w' \<longrightarrow> v w' = v w)"

definition reads :: "(io_world, 'e, 'a) io \<Rightarrow> (io_world \<Rightarrow> 'e + 'a) \<Rightarrow> bool" where
  "reads m v \<longleftrightarrow> quiet_inv v \<and>
     (\<forall>w r w'. m w = (r, w') \<longrightarrow>
        quiet w w' \<and> (\<forall>x. r = Inr x \<longrightarrow> v w = Inr x) \<and> (calm w \<longrightarrow> r = v w \<and> calm w'))"

lemma quiet_invI: "(\<And>w w'. quiet w w' \<Longrightarrow> v w' = v w) \<Longrightarrow> quiet_inv v"
  by (simp add: quiet_inv_def)

lemma quiet_invD: "quiet_inv v \<Longrightarrow> quiet w w' \<Longrightarrow> v w' = v w"
  by (simp add: quiet_inv_def)

lemma quiet_inv_files [intro]: "quiet_inv (\<lambda>w. f (files w))"
  by (rule quiet_invI) (simp add: quiet_def)

lemma quiet_inv_const [intro]: "quiet_inv (\<lambda>w. c)"
  by (rule quiet_invI) simp

lemma readsD_quiet: "reads m v \<Longrightarrow> m w = (r, w') \<Longrightarrow> quiet w w'"
  by (simp add: reads_def)

lemma readsD_keeps: "reads m v \<Longrightarrow> io_keeps quiet m"
  by (rule io_keepsI) (rule readsD_quiet)

lemma readsD_ok: "reads m v \<Longrightarrow> m w = (Inr x, w') \<Longrightarrow> v w = Inr x"
  by (simp add: reads_def)

lemma readsD_inv: "reads m v \<Longrightarrow> quiet w w' \<Longrightarrow> v w' = v w"
  by (simp add: reads_def quiet_inv_def)

lemma reads_calm:
  assumes "reads m v" and "calm w"
  obtains w' where "m w = (v w, w')" "quiet w w'" "calm w'"
proof -
  obtain r w' where "m w = (r, w')" by (cases "m w")
  with assms have "m w = (v w, w')" "quiet w w'" "calm w'"
    by (auto simp: reads_def)
  then show ?thesis by (rule that)
qed

lemma reads_return [intro]: "reads (io_return x) (\<lambda>w. Inr x)"
  by (auto simp: reads_def)

lemma reads_fail [intro]: "reads (io_fail e) (\<lambda>w. Inl e)"
  by (auto simp: reads_def)

lemma reads_lift [intro]: "reads (io_lift r) (\<lambda>w. r)"
  by (auto simp: reads_def)

lemma reads_bind [intro]:
  assumes m: "reads m v" and f: "\<And>x. reads (f x) (u x)"
  shows "reads (io_bind m f) (\<lambda>w. res_bind (v w) (\<lambda>x. u x w))"
  unfolding reads_def
proof (intro conjI allI impI)
  show "quiet_inv (\<lambda>w. res_bind (v w) (\<lambda>x. u x w))"
    by (rule quiet_invI) (use readsD_inv [OF m] readsD_inv [OF f] in simp)
next
  fix w r w'
  assume run: "io_bind m f w = (r, w')"
  obtain q v' where q: "m w = (q, v')" by (cases "m w")
  note qv = readsD_quiet [OF m q]
  show "quiet w w'"
  proof (cases q)
    case (Inl e)
    with run q qv show ?thesis by (simp add: io_bind_def)
  next
    case (Inr x)
    with run q have "f x v' = (r, w')" by (simp add: io_bind_def)
    with qv show ?thesis using readsD_quiet [OF f] quiet_transp by (blast dest: transpD)
  qed
  {
    fix y assume "r = Inr y"
    with run q obtain x where x: "q = Inr x" "f x v' = (Inr y, w')"
      by (auto simp: io_bind_ok)
    then show "res_bind (v w) (\<lambda>x. u x w) = Inr y"
      using readsD_ok [OF m, of w x] q readsD_ok [OF f x(2)] readsD_inv [OF f qv] by simp
  }
  {
    assume c: "calm w"
    with m q have qe: "q = v w" and c': "calm v'" by (auto simp: reads_def)
    show "r = res_bind (v w) (\<lambda>x. u x w)"
    proof (cases q)
      case (Inl e)
      with run q have "r = Inl e" by (simp add: io_bind_def)
      moreover from Inl qe have "v w = Inl e" by simp
      ultimately show ?thesis by simp
    next
      case (Inr x)
      with run q have "f x v' = (r, w')" by (simp add: io_bind_def)
      with f c' have "r = u x v'" by (auto simp: reads_def)
      with Inr qe readsD_inv [OF f qv] show ?thesis by (metis res_bind_simps(2))
    qed
    show "calm w'"
    proof (cases q)
      case (Inl e)
      with run q c' show ?thesis by (simp add: io_bind_def)
    next
      case (Inr x)
      with run q have "f x v' = (r, w')" by (simp add: io_bind_def)
      with f c' show ?thesis by (auto simp: reads_def)
    qed
  }
qed

lemma reads_if [intro]:
  "(b \<Longrightarrow> reads m v) \<Longrightarrow> (\<not> b \<Longrightarrow> reads n u) \<Longrightarrow>
     reads (if b then m else n) (\<lambda>w. if b then v w else u w)"
  by (cases b) simp_all

lemma reads_case_option [intro]:
  "(\<And>x. a = Some x \<Longrightarrow> reads (f x) (v x)) \<Longrightarrow> (a = None \<Longrightarrow> reads n u) \<Longrightarrow>
     reads (case a of None \<Rightarrow> n | Some x \<Rightarrow> f x) (\<lambda>w. case a of None \<Rightarrow> u w | Some x \<Rightarrow> v x w)"
  by (cases a) simp_all

lemma reads_map_err [intro]:
  "reads m v \<Longrightarrow> reads (io_map_err g m) (\<lambda>w. case v w of Inl e \<Rightarrow> Inl (g e) | Inr x \<Rightarrow> Inr x)"
  unfolding reads_def quiet_inv_def
  by (fastforce simp: io_map_err_def split: sum.splits prod.splits)

lemma reads_pure_query:
  assumes "quiet_inv v" and "\<And>w. eff w = (v w, w)"
  shows "reads (os_query eff) v"
  unfolding reads_def
proof (intro conjI allI impI)
  show "quiet_inv v" by (rule assms(1))
next
  fix w r w'
  assume run: "os_query eff w = (r, w')"
  obtain f u where f: "take_fault w = (f, u)" by (cases "take_fault w")
  have q: "quiet w u" using f by (rule take_fault_quiet)
  have cases: "(f = None \<longrightarrow> r = v u \<and> w' = u) \<and> (f \<noteq> None \<longrightarrow> (\<exists>e. r = Inl e) \<and> w' = u)"
    using run f assms(2) by (auto simp: os_query_def os_call_def split: option.splits io_fault.splits)
  with q show "quiet w w'" by (cases f) auto
  show "v w = Inr x" if "r = Inr x" for x
    using that cases quiet_invD [OF assms(1) q] by (cases f) auto
  assume "calm w"
  with f have "f = None" "calm u" using take_fault_calm [of w] by auto
  with cases quiet_invD [OF assms(1) q] show "r = v w" "calm w'" by auto
qed

lemma metadata_len_reads: "reads (metadata_len p) (\<lambda>w. Inr (map_option length (files w p)))"
  unfolding metadata_len_def by (rule reads_pure_query) auto

lemma read_bytes_reads:
  "reads (read_bytes p) (\<lambda>w. case files w p of None \<Rightarrow> Inl NotFound | Some b \<Rightarrow> Inr b)"
  unfolding read_bytes_def by (rule reads_pure_query) (auto split: option.splits)

lemma read_range_reads:
  "reads (read_range p off len) (\<lambda>w. case files w p of None \<Rightarrow> Inl NotFound
     | Some b \<Rightarrow> if 0 < unat len \<and> length b < off + unat len then Inl UnexpectedEof
                 else Inr (take (unat len) (drop off b)))"
  unfolding read_range_def by (rule reads_pure_query) (auto split: option.splits)

lemma create_parent_dirs_reads: "reads (create_parent_dirs p) (\<lambda>w. Inr ())"
proof (cases "path_parent p")
  case None
  then show ?thesis by (simp add: create_parent_dirs_def reads_return)
next
  case (Some q)
  have "reads (os_query (\<lambda>w. (Inr (), w)) :: unit file_io) (\<lambda>w. Inr ())"
    by (rule reads_pure_query) auto
  with Some show ?thesis by (simp add: create_parent_dirs_def)
qed

text \<open>The write primitives when no failure is pending.\<close>

lemma append_bytes_calm:
  assumes "calm w"
  obtains w' where "append_bytes p bs w = (Inr (length (file_or_empty w p)), w')"
    "files w' = (files w)(p \<mapsto> file_or_empty w p @ bs)" "touches p w w'" "calm w'"
proof -
  obtain v where v: "create_parent_dirs p w = (Inr (), v)" "quiet w v" "calm v"
    using create_parent_dirs_reads assms by (rule reads_calm) auto
  obtain u where u: "quiet v u" "calm u" "append_bytes p bs w =
      (Inr (length (file_or_empty u p)), set_file p (file_or_empty u p @ bs) u)"
    using v by (auto simp: append_bytes_def elim!: os_call_calm [of v])
  have "quiet w u" using v(2) u(1) quiet_transp by (blast dest: transpD)
  then have f: "files u = files w" "file_or_empty u p = file_or_empty w p"
    by (auto simp: quiet_def file_or_empty_def)
  show ?thesis
  proof (rule that)
    show "append_bytes p bs w =
        (Inr (length (file_or_empty w p)), set_file p (file_or_empty w p @ bs) u)"
      using u(3) f by simp
    show "files (set_file p (file_or_empty w p @ bs) u) = (files w)(p \<mapsto> file_or_empty w p @ bs)"
      using f by (simp add: set_file_def)
    show "touches p w (set_file p (file_or_empty w p @ bs) u)"
      using \<open>quiet w u\<close> by (simp add: touches_def set_file_def quiet_def)
    show "calm (set_file p (file_or_empty w p @ bs) u)"
      using u(2) by (simp add: calm_def set_file_def)
  qed
qed

lemma overwrite_range_calm:
  assumes "calm w" and "files w p = Some b" and "off + length bs \<le> length b" and "off + length bs < 2 ^ 64"
  obtains w' where "overwrite_range p off bs w = (Inr (), w')" "calm w'"
proof -
  obtain v where v: "os_query (\<lambda>w. case files w p of None \<Rightarrow> (Inl NotFound, w) | Some b \<Rightarrow> (Inr b, w)) w = (Inr b, v)"
      "quiet w v" "calm v"
    using read_bytes_reads [of p] assms(1,2) by (auto simp: read_bytes_def elim!: reads_calm [of _ _ w])
  obtain u where u: "quiet v u" "calm u"
      "os_call (\<lambda>w. (Inr (), set_file p (splice_bytes off bs b) w))
         (\<lambda>n w. set_file p (splice_bytes off (take n bs) b) w) v = (Inr (), set_file p (splice_bytes off bs b) u)"
    using v(3) by (rule os_call_calm)
  show ?thesis
  proof (rule that)
    show "overwrite_range p off bs w = (Inr (), set_file p (splice_bytes off bs b) u)"
      unfolding overwrite_range_def using v(1) u(3) assms(3,4) by simp
    show "calm (set_file p (splice_bytes off bs b) u)" using u(2) by (simp add: calm_def set_file_def)
  qed
qed

end
