(* ===== verification/Binary_Db.thy ===== *)
theory Binary_Db
  imports Io_Reads "HOL-Library.Char_ord" "HOL-Library.List_Lexorder"
begin

text \<open>
  The vocabulary of the Binary DB (\<open>ait-core/src/binary_db\<close>): error kinds, the identities
  of record, payload and index files, the command and read scopes with the lock families they
  cover, the write capability of a transaction, path admission, and the schema registry.  An error
  is represented by its kind; the diagnostic text that accompanies it is not modelled.
\<close>

section \<open>Errors (errors.rs)\<close>

datatype BinaryDbErrorKind =
    RetryableBusy | Corruption | LayoutMismatch | MissingData | InvalidDomainData
  | DbIo | DbUnsupported | DbOther

type_synonym 'a store_result = "BinaryDbErrorKind + 'a"
type_synonym 'a store_io = "(io_world, BinaryDbErrorKind, 'a) io"

fun file_io_error_to_binary :: "FileIoErrorKind \<Rightarrow> BinaryDbErrorKind" where
  "file_io_error_to_binary Unsupported = DbUnsupported"
| "file_io_error_to_binary InvalidData = Corruption"
| "file_io_error_to_binary WouldBlock = RetryableBusy"
| "file_io_error_to_binary _ = DbIo"

definition store_io :: "'a file_io \<Rightarrow> 'a store_io" where
  "store_io m = io_map_err file_io_error_to_binary m"

section \<open>File identities (file\_ids.rs)\<close>

record BinaryFileId =
  file_relative_path :: path
  file_record_size :: u32
  file_layout_id :: u32

record BinaryPayloadFileId =
  payload_relative_path :: path
  payload_layout_id :: u32

record BinaryIndexId =
  index_relative_path :: path
  index_layout_id :: u32
  fixed_key_size :: "u32 option"
  stores_record_index_plus_one :: bool

record PayloadRange =
  payload_offset :: nat
  payload_len :: u32

definition BIN_FILE_HEADER_BYTES :: nat where
  "BIN_FILE_HEADER_BYTES = 4"

section \<open>Scopes and lock families (identities.rs)\<close>

datatype LocalStateScope = Repository | Line | Task | RemoteCache

datatype BinaryDbFileFamily = Content | Plan

definition starts_with :: "string \<Rightarrow> string \<Rightarrow> bool" where
  "starts_with pre s \<longleftrightarrow> take (length pre) s = pre"

definition family_for_relative_path :: "path \<Rightarrow> BinaryDbFileFamily" where
  "family_for_relative_path p =
     (let file_name = (case path_file_name p of None \<Rightarrow> [] | Some n \<Rightarrow> n)
      in if file_name = ''plan.bin'' \<or> starts_with ''plan_'' file_name then Plan else Content)"

datatype BinaryDbReadScope = ReadAll | ReadContent | ReadPlan | ReadContentAndPlan

datatype BinaryDbCommandScope =
    General | PlanSyncLocal | PlanSyncLocalPlan | PlanSyncRemote | RemoteSyncLocalImport
  | PlanImport | SnapshotWrite | ContentWrite | Gc

definition all_write_lock_file_names :: "string list" where
  "all_write_lock_file_names =
     [''content.write.lock'', ''gc.write.lock'', ''global.write.lock'', ''plan.write.lock'',
      ''remote-content.write.lock'', ''remote-plan.write.lock'', ''snapshot.write.lock'']"

fun lock_file_names :: "BinaryDbCommandScope \<Rightarrow> string list" where
  "lock_file_names General = all_write_lock_file_names"
| "lock_file_names PlanSyncLocal = [''content.write.lock'', ''plan.write.lock'']"
| "lock_file_names PlanSyncLocalPlan = [''plan.write.lock'']"
| "lock_file_names PlanSyncRemote = [''remote-content.write.lock'', ''remote-plan.write.lock'']"
| "lock_file_names RemoteSyncLocalImport = [''content.write.lock'']"
| "lock_file_names PlanImport = [''content.write.lock'', ''plan.write.lock'']"
| "lock_file_names SnapshotWrite = [''content.write.lock'', ''snapshot.write.lock'']"
| "lock_file_names ContentWrite = [''content.write.lock'']"
| "lock_file_names Gc = [''content.write.lock'', ''gc.write.lock'', ''plan.write.lock'', ''snapshot.write.lock'']"

fun read_lock_file_names :: "BinaryDbReadScope \<Rightarrow> string list" where
  "read_lock_file_names ReadAll = all_write_lock_file_names"
| "read_lock_file_names ReadContent = [''content.write.lock'', ''remote-content.write.lock'']"
| "read_lock_file_names ReadPlan = [''plan.write.lock'', ''remote-plan.write.lock'']"
| "read_lock_file_names ReadContentAndPlan =
     [''content.write.lock'', ''plan.write.lock'', ''remote-content.write.lock'', ''remote-plan.write.lock'']"

definition conflicts_with :: "BinaryDbCommandScope \<Rightarrow> BinaryDbCommandScope \<Rightarrow> bool" where
  "conflicts_with a b = (\<exists>left \<in> set (lock_file_names a). left \<in> set (lock_file_names b))"

fun authorizes_file_family :: "BinaryDbCommandScope \<Rightarrow> BinaryDbFileFamily \<Rightarrow> bool" where
  "authorizes_file_family General family = True"
| "authorizes_file_family Gc family = (family = Content \<or> family = Plan)"
| "authorizes_file_family PlanSyncLocal family = True"
| "authorizes_file_family PlanImport family = True"
| "authorizes_file_family PlanSyncRemote family = True"
| "authorizes_file_family PlanSyncLocalPlan family = (family = Plan)"
| "authorizes_file_family RemoteSyncLocalImport family = (family = Content)"
| "authorizes_file_family SnapshotWrite family = (family = Content)"
| "authorizes_file_family ContentWrite family = (family = Content)"

section \<open>The write capability (identities.rs)\<close>

record BinaryWriteContext =
  transaction_id :: nat
  command_scope :: BinaryDbCommandScope
  active :: bool

definition ensure_active :: "BinaryWriteContext \<Rightarrow> unit store_result" where
  "ensure_active wc = (if active wc then Inr () else Inl InvalidDomainData)"

definition ensure_authorized_family :: "BinaryWriteContext \<Rightarrow> BinaryDbFileFamily \<Rightarrow> unit store_result" where
  "ensure_authorized_family wc family =
     res_bind (ensure_active wc) (\<lambda>_.
       if authorizes_file_family (command_scope wc) family then Inr () else Inl InvalidDomainData)"

definition ensure_authorized_path :: "BinaryWriteContext \<Rightarrow> path \<Rightarrow> unit store_result" where
  "ensure_authorized_path wc p = ensure_authorized_family wc (family_for_relative_path p)"

definition finish_context :: "BinaryWriteContext \<Rightarrow> BinaryWriteContext" where
  "finish_context wc = wc\<lparr>active := False\<rparr>"

section \<open>Path admission (identities.rs)\<close>

definition validate_store_relative_path :: "path \<Rightarrow> path store_result" where
  "validate_store_relative_path p =
     (if path_has_root p \<or> path_starts_with_prefix p then Inl InvalidDomainData
      else if ParentDir \<in> set p then Inl InvalidDomainData
      else Inr p)"

definition store_path_for :: "path \<Rightarrow> path \<Rightarrow> path store_result" where
  "store_path_for authority_root p =
     res_bind (validate_store_relative_path p) (\<lambda>rel. Inr (path_join authority_root rel))"

section \<open>Schema registry (schema\_registry.rs)\<close>

definition REPOSITORY_BINARY_DB_BIN_PATHS :: "string list" where
  "REPOSITORY_BINARY_DB_BIN_PATHS =
    [''plan.bin'', ''plan_payload.bin'', ''plan_revision.bin'', ''plan_revision_payload.bin'',
     ''plan_item.bin'', ''plan_item_payload.bin'', ''task.bin'', ''task_payload.bin'',
     ''task_change_index.bin'', ''task_land_index.bin'', ''change.bin'', ''change_payload.bin'',
     ''change_land_index.bin'', ''land.bin'', ''snapshot_link.bin'', ''task_snapshot_index.bin'',
     ''change_snapshot_index.bin'', ''blob.bin'', ''snapshot.bin'', ''snapshot_payload.bin'',
     ''object_pack.bin'', ''object_pack_member.bin'', ''tree_pack.bin'', ''tree.bin'',
     ''line.bin'', ''line_name_payload.bin'', ''stash.bin'', ''tag.bin'', ''tag_payload.bin'',
     ''agents.bin'', ''agents_payload.bin'', ''agent_roles.bin'', ''agent_teams.bin'',
     ''agent_teams_payload.bin'', ''agent_team_membership.bin'']"

definition REPOSITORY_BINARY_DB_INDEX_PATHS :: "string list" where
  "REPOSITORY_BINARY_DB_INDEX_PATHS =
    [''blob_id.idx'', ''snapshot_id.idx'', ''object_pack_id.idx'', ''tree_id.idx'',
     ''tree_pack_id.idx'', ''line_name.idx'', ''tag_name.idx'']"

section \<open>Facts\<close>

lemma store_io_ok [io_elims]: "store_io m w = (Inr y, w') \<longleftrightarrow> m w = (Inr y, w')"
  by (simp add: store_io_def io_map_err_ok)

lemma store_io_err: "store_io m w = (Inl e, w') \<longleftrightarrow> (\<exists>d. m w = (Inl d, w') \<and> e = file_io_error_to_binary d)"
  by (simp add: store_io_def io_map_err_err)

lemma store_io_keeps: "io_keeps R m \<Longrightarrow> io_keeps R (store_io m)"
  unfolding store_io_def by (rule io_keeps_map_err)

lemma ensure_authorized_path_ok:
  "ensure_authorized_path wc p = Inr u \<longleftrightarrow>
     active wc \<and> authorizes_file_family (command_scope wc) (family_for_relative_path p)"
  by (auto simp: ensure_authorized_path_def ensure_authorized_family_def ensure_active_def)

lemma validate_store_relative_path_ok:
  "validate_store_relative_path p = Inr q \<longleftrightarrow> q = p \<and> path_relative p \<and> ParentDir \<notin> set p"
  by (auto simp: validate_store_relative_path_def path_relative_def)

lemma store_path_for_ok:
  "store_path_for root p = Inr q \<longleftrightarrow>
     q = path_join root p \<and> path_relative p \<and> ParentDir \<notin> set p"
  by (auto simp: store_path_for_def res_bind_Inr validate_store_relative_path_ok)

lemma store_path_under_root:
  assumes "store_path_for root p = Inr q" and "root \<noteq> []"
  shows "\<exists>rest. q = root @ rest \<and> ParentDir \<notin> set rest"
  using assms by (auto simp: store_path_for_ok path_join_relative)

end
