(* ===== verification/Binary_Db_Index.thy ===== *)
theory Binary_Db_Index
  imports Binary_Db
begin

text \<open>
  The index file format of the Binary DB (\<open>binary_db/filesystem_db.rs\<close>): the body of an
  index file is a sequence of entries, either fixed-width (key bytes and a 32-bit record index,
  optionally stored plus one) or length-prefixed.  The file is read in two ways: a scan that
  collects the candidates of one key, and a parse of the whole file into a key map that a
  transaction caches.  The cursor of the source loops is the unread suffix of the file here.
\<close>

section \<open>Reading and writing entries\<close>

definition read_u32_le :: "bytes \<Rightarrow> u32 store_result" where
  "read_u32_le data = (if length data \<noteq> 4 then Inl Corruption else Inr (from_le_bytes data))"

definition validate_index_file_bytes :: "u32 \<Rightarrow> bytes \<Rightarrow> unit store_result" where
  "validate_index_file_bytes expected_layout_id data =
     (if data = [] then Inl Corruption
      else if length data < 4 then Inl Corruption
      else res_bind (read_u32_le (take 4 data)) (\<lambda>header.
        if header \<noteq> expected_layout_id then Inl LayoutMismatch else Inr ()))"

definition decode_stored_index :: "bool \<Rightarrow> u32 \<Rightarrow> u32 store_result" where
  "decode_stored_index plus_one stored =
     (if plus_one then (if stored = 0 then Inl Corruption else Inr (stored - 1)) else Inr stored)"

function fixed_index_scan :: "nat \<Rightarrow> bool \<Rightarrow> bytes \<Rightarrow> bytes \<Rightarrow> u32 list store_result" where
  "fixed_index_scan key_size plus_one key rest =
     (if rest = [] then Inr []
      else
        res_bind (read_u32_le (take 4 (drop key_size rest))) (\<lambda>stored_index.
        res_bind (if take key_size rest = key
                  then res_bind (decode_stored_index plus_one stored_index) (\<lambda>i. Inr [i])
                  else Inr []) (\<lambda>hits.
        res_bind (fixed_index_scan key_size plus_one key (drop (key_size + 4) rest)) (\<lambda>more.
          Inr (hits @ more)))))"
  by pat_completeness auto
termination
  by (relation "measure (\<lambda>(key_size, plus_one, key, rest). length rest)") auto

function variable_index_scan :: "bytes \<Rightarrow> bytes \<Rightarrow> u32 list store_result" where
  "variable_index_scan key rest =
     (if rest = [] then Inr []
      else if length rest < 4 then Inl Corruption
      else res_bind (read_u32_le (take 4 rest)) (\<lambda>key_len.
        let body = drop 4 rest; n = unat key_len in
        if length body < n then Inl Corruption
        else if length (drop n body) < 4 then Inl Corruption
        else res_bind (read_u32_le (take 4 (drop n body))) (\<lambda>record_index.
          res_bind (variable_index_scan key (drop 4 (drop n body))) (\<lambda>more.
            Inr (if take n body = key then record_index # more else more)))))"
  by pat_completeness auto
termination
  by (relation "measure (\<lambda>(key, rest). length rest)") auto

declare fixed_index_scan.simps [simp del] variable_index_scan.simps [simp del]

definition index_candidates_from_file_bytes ::
    "BinaryIndexId \<Rightarrow> bytes \<Rightarrow> bytes option \<Rightarrow> u32 list store_result" where
  "index_candidates_from_file_bytes index key file =
     (case file of None \<Rightarrow> Inr []
      | Some bytes \<Rightarrow>
          if length bytes = BIN_FILE_HEADER_BYTES then Inr []
          else let body = drop BIN_FILE_HEADER_BYTES bytes in
          (case fixed_key_size index of
             Some key_size \<Rightarrow>
               if length key \<noteq> unat key_size then Inl InvalidDomainData
               else if length body mod (unat key_size + 4) \<noteq> 0 then Inl Corruption
               else fixed_index_scan (unat key_size) (stores_record_index_plus_one index) key body
           | None \<Rightarrow> variable_index_scan key body))"

type_synonym candidate_map = "bytes \<rightharpoonup> u32 list"

text \<open>\<open>entry(key).or_default().push(v)\<close>\<close>

definition push_candidate :: "candidate_map \<Rightarrow> bytes \<Rightarrow> u32 \<Rightarrow> candidate_map" where
  "push_candidate m key v = m(key \<mapsto> (case m key of None \<Rightarrow> [v] | Some vs \<Rightarrow> vs @ [v]))"

function fixed_index_map :: "nat \<Rightarrow> bool \<Rightarrow> bytes \<Rightarrow> candidate_map \<Rightarrow> candidate_map store_result" where
  "fixed_index_map key_size plus_one rest m =
     (if rest = [] then Inr m
      else
        res_bind (read_u32_le (take 4 (drop key_size rest))) (\<lambda>stored_index.
        res_bind (decode_stored_index plus_one stored_index) (\<lambda>record_index.
          fixed_index_map key_size plus_one (drop (key_size + 4) rest)
            (push_candidate m (take key_size rest) record_index))))"
  by pat_completeness auto
termination
  by (relation "measure (\<lambda>(key_size, plus_one, rest, m). length rest)") auto

function variable_index_map :: "bytes \<Rightarrow> candidate_map \<Rightarrow> candidate_map store_result" where
  "variable_index_map rest m =
     (if rest = [] then Inr m
      else if length rest < 4 then Inl Corruption
      else res_bind (read_u32_le (take 4 rest)) (\<lambda>key_len.
        let body = drop 4 rest; n = unat key_len in
        if length body < n + 4 then Inl Corruption
        else res_bind (read_u32_le (take 4 (drop n body))) (\<lambda>record_index.
          variable_index_map (drop (n + 4) body) (push_candidate m (take n body) record_index))))"
  by pat_completeness auto
termination
  by (relation "measure (\<lambda>(rest, m). length rest)") auto

declare fixed_index_map.simps [simp del] variable_index_map.simps [simp del]

definition index_candidate_map_from_file_bytes ::
    "BinaryIndexId \<Rightarrow> bytes option \<Rightarrow> candidate_map store_result" where
  "index_candidate_map_from_file_bytes index file =
     (case file of None \<Rightarrow> Inr Map.empty
      | Some bytes \<Rightarrow>
          if length bytes = BIN_FILE_HEADER_BYTES then Inr Map.empty
          else let body = drop BIN_FILE_HEADER_BYTES bytes in
          (case fixed_key_size index of
             Some key_size \<Rightarrow>
               if length bytes < BIN_FILE_HEADER_BYTES \<or> length body mod (unat key_size + 4) \<noteq> 0
               then Inl Corruption
               else fixed_index_map (unat key_size) (stores_record_index_plus_one index) body Map.empty
           | None \<Rightarrow> variable_index_map body Map.empty))"

text \<open>The bytes one index candidate is written as.\<close>

definition encode_index_entry :: "BinaryIndexId \<Rightarrow> bytes \<Rightarrow> u32 \<Rightarrow> bytes store_result" where
  "encode_index_entry index key record_index =
     (case fixed_key_size index of
        Some key_size \<Rightarrow>
          if length key \<noteq> unat key_size then Inl InvalidDomainData
          else res_bind
            (if stores_record_index_plus_one index
             then (if unat record_index + 1 < 2 ^ 32 then Inr (record_index + 1) else Inl InvalidDomainData)
             else Inr record_index)
            (\<lambda>stored_index. Inr (key @ to_le_bytes stored_index))
      | None \<Rightarrow>
          if length key < 2 ^ 32
          then Inr (to_le_bytes (of_nat (length key)) @ key @ to_le_bytes record_index)
          else Inl DbOther)"

section \<open>Scanning\<close>

definition candidates_of :: "candidate_map \<Rightarrow> bytes \<Rightarrow> u32 list" where
  "candidates_of m key = (case m key of None \<Rightarrow> [] | Some vs \<Rightarrow> vs)"

lemma candidates_of_empty [simp]: "candidates_of Map.empty key = []"
  by (simp add: candidates_of_def)

lemma candidates_of_push:
  "candidates_of (push_candidate m k v) key = candidates_of m key @ (if k = key then [v] else [])"
  by (auto simp: candidates_of_def push_candidate_def split: option.splits)

lemma read_u32_le_to_le_bytes [simp]: "read_u32_le (to_le_bytes n) = Inr n"
  by (simp add: read_u32_le_def)

lemma read_u32_le_length: "length d = 4 \<Longrightarrow> read_u32_le d = Inr (from_le_bytes d)"
  by (simp add: read_u32_le_def)

lemma read_u32_le_ok: "read_u32_le d = Inr v \<longleftrightarrow> length d = 4 \<and> v = from_le_bytes d"
  by (auto simp: read_u32_le_def)

lemma variable_scan_Nil [simp]: "variable_index_scan key [] = Inr []"
  by (simp add: variable_index_scan.simps)

lemma fixed_scan_Nil [simp]: "fixed_index_scan ks po key [] = Inr []"
  by (simp add: fixed_index_scan.simps)

text \<open>One step of each loop, with the window arithmetic done once.\<close>

lemma variable_scan_step:
  assumes "n = unat (from_le_bytes (take 4 rest))" and "n + 8 \<le> length rest"
  shows "variable_index_scan key rest =
    res_bind (variable_index_scan key (drop (n + 8) rest)) (\<lambda>more.
      Inr (if take n (drop 4 rest) = key then from_le_bytes (take 4 (drop (n + 4) rest)) # more else more))"
proof -
  have "rest \<noteq> []" "\<not> length rest < 4" "length (take 4 rest) = 4"
    "length (take 4 (drop n (drop 4 rest))) = 4" "\<not> length (drop n (drop 4 rest)) < 4"
    "\<not> length (drop 4 rest) < n"
    using assms(2) by auto
  moreover have "drop 4 (drop n (drop 4 rest)) = drop (n + 8) rest" "drop n (drop 4 rest) = drop (n + 4) rest"
    by (simp_all add: add.commute)
  ultimately show ?thesis
    by (subst variable_index_scan.simps)
      (simp only: read_u32_le_length res_bind_simps Let_def if_False assms(1) [symmetric])
qed

lemma variable_scan_inv:
  assumes "variable_index_scan key rest = Inr xs" and "rest \<noteq> []"
  shows "unat (from_le_bytes (take 4 rest)) + 8 \<le> length rest"
proof -
  have "\<not> length rest < 4"
    using assms by (subst (asm) variable_index_scan.simps) (auto split: if_splits)
  then have r: "read_u32_le (take 4 rest) = Inr (from_le_bytes (take 4 rest))"
    by (simp add: read_u32_le_length)
  show ?thesis
    using assms by (subst (asm) variable_index_scan.simps)
      (simp add: r Let_def split: if_splits)
qed

lemma fixed_scan_step:
  assumes "rest \<noteq> []" and "ks + 4 \<le> length rest"
  shows "fixed_index_scan ks po key rest =
    res_bind (if take ks rest = key
              then res_bind (decode_stored_index po (from_le_bytes (take 4 (drop ks rest)))) (\<lambda>i. Inr [i])
              else Inr []) (\<lambda>hits.
    res_bind (fixed_index_scan ks po key (drop (ks + 4) rest)) (\<lambda>more. Inr (hits @ more)))"
proof -
  have "read_u32_le (take 4 (drop ks rest)) = Inr (from_le_bytes (take 4 (drop ks rest)))"
    using assms(2) by (simp add: read_u32_le_length)
  with assms(1) show ?thesis
    by (subst fixed_index_scan.simps) (simp only: res_bind_simps if_False)
qed

lemma fixed_scan_inv:
  assumes "fixed_index_scan ks po key rest = Inr xs" and "rest \<noteq> []"
  shows "ks + 4 \<le> length rest"
  using assms by (subst (asm) fixed_index_scan.simps) (auto simp: res_bind_Inr read_u32_le_ok)

text \<open>A scan of a well-formed prefix followed by more entries continues with those entries.\<close>

lemma variable_scan_append:
  "variable_index_scan key a = Inr xs \<Longrightarrow>
   variable_index_scan key (a @ b) = res_bind (variable_index_scan key b) (\<lambda>ys. Inr (xs @ ys))"
proof (induction "length a" arbitrary: a xs rule: less_induct)
  case less
  show ?case
  proof (cases "a = []")
    case True
    with less.prems show ?thesis by (cases "variable_index_scan key b") auto
  next
    case False
    define n where "n = unat (from_le_bytes (take 4 a))"
    have len: "n + 8 \<le> length a"
      using variable_scan_inv [OF less.prems False] by (simp add: n_def)
    from less.prems variable_scan_step [OF n_def len, of key]
    obtain zs where rec: "variable_index_scan key (drop (n + 8) a) = Inr zs"
      and xs: "xs = (if take n (drop 4 a) = key then from_le_bytes (take 4 (drop (n + 4) a)) # zs else zs)"
      by (auto simp: res_bind_Inr)
    have IH: "variable_index_scan key (drop (n + 8) a @ b)
        = res_bind (variable_index_scan key b) (\<lambda>ys. Inr (zs @ ys))"
      using len rec by (intro less.hyps) auto
    have n': "n = unat (from_le_bytes (take 4 (a @ b)))" and len': "n + 8 \<le> length (a @ b)"
      using len by (auto simp: n_def)
    have win: "take 4 (drop (n + 4) (a @ b)) = take 4 (drop (n + 4) a)"
      "drop (n + 8) (a @ b) = drop (n + 8) a @ b" "take n (drop 4 (a @ b)) = take n (drop 4 a)"
      using len by auto
    have "variable_index_scan key (a @ b) =
        res_bind (variable_index_scan key (drop (n + 8) a @ b)) (\<lambda>more.
          Inr (if take n (drop 4 a) = key then from_le_bytes (take 4 (drop (n + 4) a)) # more else more))"
      unfolding variable_scan_step [OF n' len'] win ..
    with IH xs show ?thesis by (cases "variable_index_scan key b") auto
  qed
qed

lemma fixed_scan_append:
  "fixed_index_scan ks po key a = Inr xs \<Longrightarrow>
   fixed_index_scan ks po key (a @ b) = res_bind (fixed_index_scan ks po key b) (\<lambda>ys. Inr (xs @ ys))"
proof (induction "length a" arbitrary: a xs rule: less_induct)
  case less
  show ?case
  proof (cases "a = []")
    case True
    with less.prems show ?thesis by (cases "fixed_index_scan ks po key b") auto
  next
    case False
    have len: "ks + 4 \<le> length a" by (rule fixed_scan_inv [OF less.prems False])
    define hit where "hit = (if take ks a = key
      then res_bind (decode_stored_index po (from_le_bytes (take 4 (drop ks a)))) (\<lambda>i. Inr [i]) else Inr [])"
    from less.prems fixed_scan_step [OF False len, of po key]
    obtain hs zs where hs: "hit = Inr hs"
      and rec: "fixed_index_scan ks po key (drop (ks + 4) a) = Inr zs" and xs: "xs = hs @ zs"
      by (auto simp: res_bind_Inr hit_def)
    have IH: "fixed_index_scan ks po key (drop (ks + 4) a @ b)
        = res_bind (fixed_index_scan ks po key b) (\<lambda>ys. Inr (zs @ ys))"
      using len rec by (intro less.hyps) auto
    have "fixed_index_scan ks po key (a @ b) =
        res_bind hit (\<lambda>hits. res_bind (fixed_index_scan ks po key (drop (ks + 4) a @ b)) (\<lambda>more.
          Inr (hits @ more)))"
      using fixed_scan_step [of "a @ b" ks po key] False len by (simp add: hit_def)
    with IH xs hs show ?thesis by (cases "fixed_index_scan ks po key b") auto
  qed
qed

section \<open>Scan and cached map agree\<close>

lemma variable_map_step:
  assumes "n = unat (from_le_bytes (take 4 rest))" and "n + 8 \<le> length rest"
  shows "variable_index_map rest m = variable_index_map (drop (n + 8) rest)
    (push_candidate m (take n (drop 4 rest)) (from_le_bytes (take 4 (drop (n + 4) rest))))"
proof -
  have "rest \<noteq> []" "\<not> length rest < 4" "length (take 4 rest) = 4"
    "length (take 4 (drop n (drop 4 rest))) = 4" "\<not> length (drop 4 rest) < n + 4"
    using assms(2) by auto
  moreover have "drop (n + 4) (drop 4 rest) = drop (n + 8) rest" "drop n (drop 4 rest) = drop (n + 4) rest"
    by (simp_all add: add.commute)
  ultimately show ?thesis
    by (subst variable_index_map.simps)
      (simp only: read_u32_le_length res_bind_simps Let_def if_False assms(1) [symmetric])
qed

lemma variable_short:
  assumes "rest \<noteq> []" and "\<not> unat (from_le_bytes (take 4 rest)) + 8 \<le> length rest"
  shows "variable_index_scan key rest = Inl Corruption" "variable_index_map rest m = Inl Corruption"
proof -
  have r: "\<not> length rest < 4 \<Longrightarrow> read_u32_le (take 4 rest) = Inr (from_le_bytes (take 4 rest))"
    by (simp add: read_u32_le_length)
  show "variable_index_scan key rest = Inl Corruption"
    using assms r by (subst variable_index_scan.simps) (auto simp: Let_def)
  show "variable_index_map rest m = Inl Corruption"
    using assms r by (subst variable_index_map.simps) (auto simp: Let_def)
qed

lemma variable_map_scan:
  "(\<exists>m'. variable_index_map rest m = Inr m' \<and>
      (\<forall>key. variable_index_scan key rest = Inr (drop (length (candidates_of m key)) (candidates_of m' key)) \<and>
             take (length (candidates_of m key)) (candidates_of m' key) = candidates_of m key)) \<or>
   (variable_index_map rest m = Inl Corruption \<and> (\<forall>key. variable_index_scan key rest = Inl Corruption))"
proof (induction "length rest" arbitrary: rest m rule: less_induct)
  case less
  show ?case
  proof (cases "rest = []")
    case True
    then show ?thesis by (simp add: variable_index_map.simps)
  next
    case False
    define n where "n = unat (from_le_bytes (take 4 rest))"
    show ?thesis
    proof (cases "n + 8 \<le> length rest")
      case len: True
      let ?k = "take n (drop 4 rest)" and ?i = "from_le_bytes (take 4 (drop (n + 4) rest))"
      note scan = variable_scan_step [OF n_def len] and map = variable_map_step [OF n_def len, of m]
      have "length (drop (n + 8) rest) < length rest" using len by auto
      from less.hyps [OF this, of "push_candidate m ?k ?i"] show ?thesis
      proof (elim disjE exE conjE)
        fix m' assume m': "variable_index_map (drop (n + 8) rest) (push_candidate m ?k ?i) = Inr m'"
          and all: "\<forall>key. variable_index_scan key (drop (n + 8) rest) =
              Inr (drop (length (candidates_of (push_candidate m ?k ?i) key)) (candidates_of m' key)) \<and>
            take (length (candidates_of (push_candidate m ?k ?i) key)) (candidates_of m' key)
              = candidates_of (push_candidate m ?k ?i) key"
        have "variable_index_scan key rest = Inr (drop (length (candidates_of m key)) (candidates_of m' key)) \<and>
            take (length (candidates_of m key)) (candidates_of m' key) = candidates_of m key" for key
        proof -
          obtain ys where ys: "candidates_of m' key = candidates_of (push_candidate m ?k ?i) key @ ys"
            using all by (metis append_take_drop_id)
          with all have "variable_index_scan key (drop (n + 8) rest) = Inr ys" by simp
          with ys show ?thesis by (auto simp: scan candidates_of_push)
        qed
        with m' map show ?thesis by auto
      next
        assume "variable_index_map (drop (n + 8) rest) (push_candidate m ?k ?i) = Inl Corruption"
          and "\<forall>key. variable_index_scan key (drop (n + 8) rest) = Inl Corruption"
        with scan map show ?thesis by simp
      qed
    next
      case short: False
      then show ?thesis using variable_short [OF False] by (auto simp: n_def)
    qed
  qed
qed

lemma fixed_map_scan:
  assumes "fixed_index_map ks po rest m = Inr m'"
  shows "\<exists>xs. fixed_index_scan ks po key rest = Inr xs \<and> candidates_of m' key = candidates_of m key @ xs"
  using assms
proof (induction ks po rest m rule: fixed_index_map.induct)
  case (1 ks po rest m)
  show ?case
  proof (cases "rest = []")
    case True
    with "1.prems" show ?thesis by (simp add: fixed_index_map.simps)
  next
    case False
    from "1.prems" False obtain i where
      r: "length (take 4 (drop ks rest)) = 4"
      and i: "decode_stored_index po (from_le_bytes (take 4 (drop ks rest))) = Inr i"
      and rec: "fixed_index_map ks po (drop (ks + 4) rest) (push_candidate m (take ks rest) i) = Inr m'"
      by (subst (asm) fixed_index_map.simps) (auto simp: res_bind_Inr read_u32_le_ok)
    from r have len: "ks + 4 \<le> length rest" by simp
    from "1.IH" [OF False rec] obtain xs
      where xs: "fixed_index_scan ks po key (drop (ks + 4) rest) = Inr xs"
      and c: "candidates_of m' key = candidates_of (push_candidate m (take ks rest) i) key @ xs"
      by auto
    show ?thesis
      unfolding fixed_scan_step [OF False len] using i xs c by (auto simp: candidates_of_push)
  qed
qed

section \<open>Entries written are entries read\<close>

lemma variable_scan_entry:
  assumes "length k < 2 ^ 32"
  shows "variable_index_scan key (to_le_bytes (of_nat (length k)) @ k @ to_le_bytes i)
    = Inr (if k = key then [i] else [])"
proof -
  have n: "length k = unat (from_le_bytes (take 4 (to_le_bytes (of_nat (length k)) @ k @ to_le_bytes i)))"
    using assms by (simp add: unat_of_nat)
  show ?thesis
    by (subst variable_scan_step [OF n]) simp_all
qed

lemma fixed_scan_entry:
  assumes "length k = ks" and "decode_stored_index po s = Inr i"
  shows "fixed_index_scan ks po key (k @ to_le_bytes s) = Inr (if k = key then [i] else [])"
proof -
  have "k @ to_le_bytes s \<noteq> []" by (simp add: to_le_bytes_def)
  then show ?thesis
    by (subst fixed_scan_step) (use assms(2) in \<open>simp_all add: assms(1) [symmetric]\<close>)
qed

lemma encode_plus_one:
  assumes "unat (i :: u32) + 1 < 2 ^ 32"
  shows "decode_stored_index True (i + 1) = Inr i"
proof -
  have "unat (i + 1) = unat i + 1" using assms by (simp add: unat_word_ariths)
  then have "i + 1 \<noteq> 0" by (metis Suc_eq_plus1 nat.distinct(1) unat_0)
  then show ?thesis by (simp add: decode_stored_index_def)
qed

text \<open>
  The body of an index file seen by one key: what a lookup returns when the header is in place.
\<close>

definition index_body_candidates :: "BinaryIndexId \<Rightarrow> bytes \<Rightarrow> bytes \<Rightarrow> u32 list store_result" where
  "index_body_candidates index key body =
     (case fixed_key_size index of
        Some ks \<Rightarrow> fixed_index_scan (unat ks) (stores_record_index_plus_one index) key body
      | None \<Rightarrow> variable_index_scan key body)"

lemma index_entry_appended:
  assumes "encode_index_entry index k i = Inr entry"
    and "index_body_candidates index key body = Inr xs"
  shows "index_body_candidates index key (body @ entry) = Inr (xs @ (if k = key then [i] else []))"
proof (cases "fixed_key_size index")
  case None
  with assms have "entry = to_le_bytes (of_nat (length k)) @ k @ to_le_bytes i" "length k < 2 ^ 32"
    by (auto simp: encode_index_entry_def split: if_splits)
  with assms(2) None show ?thesis
    by (simp add: index_body_candidates_def variable_scan_append variable_scan_entry)
next
  case (Some ks)
  have "\<exists>s. entry = k @ to_le_bytes s \<and> length k = unat ks \<and>
      decode_stored_index (stores_record_index_plus_one index) s = Inr i"
  proof (cases "stores_record_index_plus_one index")
    case True
    with assms Some encode_plus_one [of i] show ?thesis
      by (auto simp: encode_index_entry_def split: if_splits)
  next
    case False
    with assms Some show ?thesis
      by (auto simp: encode_index_entry_def decode_stored_index_def split: if_splits)
  qed
  then obtain s where e: "entry = k @ to_le_bytes s" "length k = unat ks"
    and s: "decode_stored_index (stores_record_index_plus_one index) s = Inr i"
    by blast
  show ?thesis
    using assms(2) Some fixed_scan_entry [OF e(2) s, of key]
    by (simp add: index_body_candidates_def fixed_scan_append e(1))
qed

lemma index_entry_length:
  assumes "encode_index_entry index k i = Inr entry" and "fixed_key_size index = Some ks"
  shows "length entry = unat ks + 4"
  using assms by (auto simp: encode_index_entry_def res_bind_Inr split: if_splits)

end
