(* ===== verification/Binary_Db_Fs.thy ===== *)
theory Binary_Db_Fs
  imports Binary_Db_Index
begin

text \<open>
  The filesystem adapter \<open>LocalBinaryDbFs\<close> (\<open>binary_db/filesystem_db.rs\<close>):
  admission and schema gate, fixed-record files, payload files and index files, each operation
  with its checks in the order of the source.  A record file is a four-byte little-endian layout
  id followed by records of one size; a payload file is a layout id followed by bytes.
\<close>

section \<open>The adapter\<close>

text \<open>
  An optional outer container (\<open>BinaryDbDurableDirectory\<close>) is a trait object whose
  implementations live outside this crate: its three answers are parameters.
\<close>

record durable_directory =
  verify_authority :: "io_world \<Rightarrow> unit store_result"
  require_writable :: "io_world \<Rightarrow> unit store_result"
  checkpoint :: "io_world \<Rightarrow> unit store_result"

record LocalBinaryDbFs =
  authority_root :: path
  local_repo_root :: path
  local_authority_id :: string
  current_line_state_scope :: LocalStateScope
  declared_bin_paths :: "string list option"
  declared_index_paths :: "string list option"
  admission_error :: "string option"
  detached_generation_without_locks :: bool
  durable_directory :: "durable_directory option"

definition new_local_binary_db :: "path \<Rightarrow> path \<Rightarrow> string \<Rightarrow> LocalStateScope \<Rightarrow> LocalBinaryDbFs" where
  "new_local_binary_db root repo_root authority_id scope =
     \<lparr>authority_root = root, local_repo_root = repo_root, local_authority_id = authority_id,
      current_line_state_scope = scope, declared_bin_paths = None, declared_index_paths = None,
      admission_error = None, detached_generation_without_locks = False, durable_directory = None\<rparr>"

definition checkpoint_directory :: "LocalBinaryDbFs \<Rightarrow> unit store_io" where
  "checkpoint_directory db w =
     (case durable_directory db of None \<Rightarrow> (Inr (), w) | Some d \<Rightarrow> (checkpoint d w, w))"

definition ensure_admitted :: "LocalBinaryDbFs \<Rightarrow> unit store_io" where
  "ensure_admitted db w =
     (res_bind (case durable_directory db of None \<Rightarrow> Inr () | Some d \<Rightarrow> verify_authority d w) (\<lambda>_.
        case admission_error db of Some _ \<Rightarrow> Inl InvalidDomainData | None \<Rightarrow> Inr ()), w)"

definition resolve_relative_path :: "LocalBinaryDbFs \<Rightarrow> path \<Rightarrow> path store_io" where
  "resolve_relative_path db p =
     io_bind (ensure_admitted db) (\<lambda>_.
     io_bind (io_lift (validate_store_relative_path p)) (\<lambda>rel.
       let normalized = path_text rel;
           declared = (if path_extension rel = Some ''bin'' then declared_bin_paths db
                       else if path_extension rel = Some ''idx'' then declared_index_paths db
                       else None)
       in case declared of
            None \<Rightarrow> io_return rel
          | Some paths \<Rightarrow>
              if normalized \<in> set paths then io_return rel else io_fail InvalidDomainData))"

definition file_path_for :: "LocalBinaryDbFs \<Rightarrow> path \<Rightarrow> path store_io" where
  "file_path_for db p =
     io_bind (resolve_relative_path db p) (\<lambda>rel. io_return (path_join (authority_root db) rel))"

definition file_path_for_binary_record :: "LocalBinaryDbFs \<Rightarrow> BinaryFileId \<Rightarrow> path store_io" where
  "file_path_for_binary_record db file = file_path_for db (file_relative_path file)"

definition file_path_for_payload :: "LocalBinaryDbFs \<Rightarrow> BinaryPayloadFileId \<Rightarrow> path store_io" where
  "file_path_for_payload db file = file_path_for db (payload_relative_path file)"

definition file_path_for_index :: "LocalBinaryDbFs \<Rightarrow> BinaryIndexId \<Rightarrow> path store_io" where
  "file_path_for_index db index = file_path_for db (index_relative_path index)"

definition ensure_parent_directory :: "path \<Rightarrow> unit store_io" where
  "ensure_parent_directory p = store_io (create_parent_dirs p)"

definition db_metadata_len :: "path \<Rightarrow> nat option store_io" where
  "db_metadata_len p = store_io (metadata_len p)"

definition read_layout_id :: "path \<Rightarrow> u32 store_io" where
  "read_layout_id p = io_bind (store_io (read_range p 0 4)) (\<lambda>bytes. io_lift (read_u32_le bytes))"

section \<open>Fixed-record files\<close>

definition ensure_binary_file_valid :: "path \<Rightarrow> u32 \<Rightarrow> u32 \<Rightarrow> nat store_io" where
  "ensure_binary_file_valid p expected_layout_id record_size =
     io_bind (store_io (metadata_len p)) (\<lambda>meta. case meta of
       None \<Rightarrow> io_fail MissingData
     | Some len \<Rightarrow>
         if len < BIN_FILE_HEADER_BYTES then io_fail Corruption
         else if record_size = 0 then io_fail InvalidDomainData
         else io_bind (read_layout_id p) (\<lambda>layout.
           if layout \<noteq> expected_layout_id then io_fail LayoutMismatch
           else let payload_size = len - BIN_FILE_HEADER_BYTES in
             if payload_size mod unat record_size \<noteq> 0 then io_fail Corruption
             else io_return (payload_size div unat record_size)))"

definition layout_id :: "LocalBinaryDbFs \<Rightarrow> BinaryFileId \<Rightarrow> u32 store_io" where
  "layout_id db file =
     io_bind (file_path_for_binary_record db file) (\<lambda>p.
     io_bind (db_metadata_len p) (\<lambda>len. case len of
       None \<Rightarrow> io_fail MissingData
     | Some n \<Rightarrow> if n < BIN_FILE_HEADER_BYTES then io_fail Corruption else read_layout_id p))"

definition u32_try_from :: "nat \<Rightarrow> BinaryDbErrorKind \<Rightarrow> u32 store_io" where
  "u32_try_from n e = (if n < 2 ^ 32 then io_return (of_nat n) else io_fail e)"

definition record_count :: "LocalBinaryDbFs \<Rightarrow> BinaryFileId \<Rightarrow> u32 store_io" where
  "record_count db file =
     io_bind (file_path_for_binary_record db file) (\<lambda>p.
     io_bind (db_metadata_len p) (\<lambda>len. case len of
       None \<Rightarrow> io_return 0
     | Some _ \<Rightarrow>
         io_bind (ensure_binary_file_valid p (file_layout_id file) (file_record_size file)) (\<lambda>count.
           u32_try_from count Corruption)))"

definition record_offset :: "BinaryFileId \<Rightarrow> u32 \<Rightarrow> nat" where
  "record_offset file i = BIN_FILE_HEADER_BYTES + unat i * unat (file_record_size file)"

definition read_record :: "LocalBinaryDbFs \<Rightarrow> BinaryFileId \<Rightarrow> u32 \<Rightarrow> bytes store_io" where
  "read_record db file record_index =
     io_bind (file_path_for_binary_record db file) (\<lambda>p.
     io_bind (record_count db file) (\<lambda>count.
       if record_index \<ge> count then io_fail MissingData
       else store_io (read_range p (record_offset file record_index) (file_record_size file))))"

definition append_header :: "path \<Rightarrow> u32 \<Rightarrow> nat store_io" where
  "append_header p layout =
     io_bind (store_io (append_bytes p (to_le_bytes layout))) (\<lambda>header_offset.
       if header_offset \<noteq> 0 then io_fail Corruption else io_return BIN_FILE_HEADER_BYTES)"

definition append_at :: "path \<Rightarrow> bytes \<Rightarrow> nat \<Rightarrow> unit store_io" where
  "append_at p bytes append_offset =
     io_bind (store_io (append_bytes p bytes)) (\<lambda>actual_offset.
       if actual_offset \<noteq> append_offset then io_fail Corruption else io_return ())"

definition append_record :: "LocalBinaryDbFs \<Rightarrow> BinaryFileId \<Rightarrow> bytes \<Rightarrow> BinaryWriteContext \<Rightarrow> u32 store_io" where
  "append_record db file record wc =
     io_bind (io_lift (ensure_authorized_path wc (file_relative_path file))) (\<lambda>_.
     if length record \<noteq> unat (file_record_size file) then io_fail InvalidDomainData
     else
     io_bind (file_path_for_binary_record db file) (\<lambda>p.
     io_bind (ensure_parent_directory p) (\<lambda>_.
     io_bind (db_metadata_len p) (\<lambda>metadata_len.
     io_bind (case metadata_len of
                Some n \<Rightarrow> if n \<ge> BIN_FILE_HEADER_BYTES then record_count db file else io_return 0
              | None \<Rightarrow> io_return 0) (\<lambda>index.
     io_bind (if metadata_len = None \<or> metadata_len = Some 0
              then append_header p (file_layout_id file)
              else let len = the metadata_len in
                if len < BIN_FILE_HEADER_BYTES then io_fail Corruption
                else io_bind (ensure_binary_file_valid p (file_layout_id file) (file_record_size file))
                       (\<lambda>_. io_return len)) (\<lambda>append_offset.
     io_bind (append_at p record append_offset) (\<lambda>_.
       io_return index)))))))"

definition append_records ::
    "LocalBinaryDbFs \<Rightarrow> BinaryFileId \<Rightarrow> bytes \<Rightarrow> BinaryWriteContext \<Rightarrow> (u32 \<times> u32) store_io" where
  "append_records db file records wc =
     io_bind (io_lift (ensure_authorized_path wc (file_relative_path file))) (\<lambda>_.
     let record_size = unat (file_record_size file) in
     if record_size = 0 then io_fail InvalidDomainData
     else if length records mod record_size \<noteq> 0 then io_fail InvalidDomainData
     else
     io_bind (u32_try_from (length records div record_size) InvalidDomainData) (\<lambda>batch_count.
     if batch_count = 0 then io_bind (record_count db file) (\<lambda>count. io_return (count, 0))
     else
     io_bind (file_path_for_binary_record db file) (\<lambda>p.
     io_bind (ensure_parent_directory p) (\<lambda>_.
     io_bind (db_metadata_len p) (\<lambda>metadata_len.
     io_bind (if metadata_len = None \<or> metadata_len = Some 0
              then io_return (0, BIN_FILE_HEADER_BYTES, True)
              else let len = the metadata_len in
                if len < BIN_FILE_HEADER_BYTES then io_fail Corruption
                else io_bind (ensure_binary_file_valid p (file_layout_id file) (file_record_size file)) (\<lambda>count.
                     io_bind (u32_try_from count Corruption) (\<lambda>start_index.
                       io_return (start_index, len, False)))) (\<lambda>(start_index, append_offset, initialize).
     if 2 ^ 32 \<le> unat start_index + unat batch_count then io_fail InvalidDomainData
     else
     io_bind (if initialize then append_header p (file_layout_id file) else io_return 0) (\<lambda>_.
     io_bind (append_at p records append_offset) (\<lambda>_.
       io_return (start_index, batch_count)))))))))"

definition overwrite_record ::
    "LocalBinaryDbFs \<Rightarrow> BinaryFileId \<Rightarrow> u32 \<Rightarrow> bytes \<Rightarrow> BinaryWriteContext \<Rightarrow> unit store_io" where
  "overwrite_record db file record_index record wc =
     io_bind (io_lift (ensure_authorized_path wc (file_relative_path file))) (\<lambda>_.
     if length record \<noteq> unat (file_record_size file) then io_fail InvalidDomainData
     else
     io_bind (file_path_for_binary_record db file) (\<lambda>p.
     io_bind (record_count db file) (\<lambda>count.
     if record_index \<ge> count then io_fail MissingData
     else if 2 ^ 64 \<le> record_offset file record_index then io_fail InvalidDomainData
     else store_io (overwrite_range p (record_offset file record_index) record))))"

definition overwrite_record_marker ::
    "LocalBinaryDbFs \<Rightarrow> BinaryFileId \<Rightarrow> u32 \<Rightarrow> u8 \<Rightarrow> BinaryWriteContext \<Rightarrow> unit store_io" where
  "overwrite_record_marker db file record_index marker wc =
     io_bind (io_lift (ensure_authorized_path wc (file_relative_path file))) (\<lambda>_.
     io_bind (if file_record_size file = 0 then io_fail MissingData
              else io_bind (record_count db file) (\<lambda>count.
                if record_index \<ge> count then io_fail MissingData else io_return ())) (\<lambda>_.
     io_bind (file_path_for_binary_record db file) (\<lambda>p.
       store_io (overwrite_range p (record_offset file record_index) [marker]))))"

section \<open>Payload files\<close>

definition validate_payload_file_layout :: "path \<Rightarrow> u32 \<Rightarrow> nat store_io" where
  "validate_payload_file_layout p expected_layout_id =
     io_bind (store_io (metadata_len p)) (\<lambda>meta. case meta of
       None \<Rightarrow> io_fail MissingData
     | Some len \<Rightarrow>
         if len < BIN_FILE_HEADER_BYTES then io_fail Corruption
         else io_bind (read_layout_id p) (\<lambda>header.
           if header \<noteq> expected_layout_id then io_fail LayoutMismatch else io_return len))"

definition read_payload :: "LocalBinaryDbFs \<Rightarrow> BinaryPayloadFileId \<Rightarrow> nat \<Rightarrow> u32 \<Rightarrow> bytes store_io" where
  "read_payload db file offset len =
     io_bind (file_path_for_payload db file) (\<lambda>p.
     io_bind (validate_payload_file_layout p (payload_layout_id file)) (\<lambda>metadata_len.
       if offset < BIN_FILE_HEADER_BYTES \<or>
          \<not> (offset + unat len < 2 ^ 64 \<and> offset + unat len \<le> metadata_len)
       then io_fail MissingData
       else store_io (read_range p offset len)))"

definition append_payload ::
    "LocalBinaryDbFs \<Rightarrow> BinaryPayloadFileId \<Rightarrow> bytes \<Rightarrow> BinaryWriteContext \<Rightarrow> PayloadRange store_io" where
  "append_payload db file bytes wc =
     io_bind (io_lift (ensure_authorized_path wc (payload_relative_path file))) (\<lambda>_.
     if declared_bin_paths db \<noteq> None \<and> bytes = [] then io_fail InvalidDomainData
     else
     io_bind (file_path_for_payload db file) (\<lambda>p.
     io_bind (ensure_parent_directory p) (\<lambda>_.
     io_bind (db_metadata_len p) (\<lambda>metadata_len.
     io_bind (if metadata_len = None \<or> metadata_len = Some 0
              then append_header p (payload_layout_id file)
              else if the metadata_len < BIN_FILE_HEADER_BYTES then io_fail Corruption
              else validate_payload_file_layout p (payload_layout_id file)) (\<lambda>offset.
     io_bind (append_at p bytes offset) (\<lambda>_.
     io_bind (u32_try_from (length bytes) DbOther) (\<lambda>n.
       io_return \<lparr>payload_offset = offset, payload_len = n\<rparr>)))))))"

section \<open>Index files\<close>

definition validate_index_file_layout :: "path \<Rightarrow> u32 \<Rightarrow> nat \<Rightarrow> unit store_io" where
  "validate_index_file_layout p expected_layout_id len =
     io_bind (store_io (read_range p 0 (of_nat (min len 4)))) (\<lambda>data.
       io_lift (validate_index_file_bytes expected_layout_id data))"

definition append_index_candidate ::
    "LocalBinaryDbFs \<Rightarrow> BinaryIndexId \<Rightarrow> bytes \<Rightarrow> u32 \<Rightarrow> BinaryWriteContext \<Rightarrow> unit store_io" where
  "append_index_candidate db index key record_index wc =
     io_bind (io_lift (ensure_authorized_path wc (index_relative_path index))) (\<lambda>_.
     io_bind (file_path_for_index db index) (\<lambda>p.
     io_bind (ensure_parent_directory p) (\<lambda>_.
     io_bind (store_io (metadata_len p)) (\<lambda>metadata_len.
     io_bind (if metadata_len = None \<or> metadata_len = Some 0
              then append_header p (index_layout_id index)
              else let len = the metadata_len in
                io_bind (validate_index_file_layout p (index_layout_id index) len) (\<lambda>_. io_return len))
       (\<lambda>append_offset.
     io_bind (io_lift (encode_index_entry index key record_index)) (\<lambda>entry.
       append_at p entry append_offset))))))"

definition read_index_file_bytes :: "LocalBinaryDbFs \<Rightarrow> BinaryIndexId \<Rightarrow> bytes option store_io" where
  "read_index_file_bytes db index =
     io_bind (file_path_for_index db index) (\<lambda>p.
     io_bind (db_metadata_len p) (\<lambda>len.
       if len = None then io_return None
       else io_bind (store_io (read_bytes p)) (\<lambda>bytes.
            io_bind (io_lift (validate_index_file_bytes (index_layout_id index) bytes)) (\<lambda>_.
              io_return (Some bytes)))))"

definition lookup_index :: "LocalBinaryDbFs \<Rightarrow> BinaryIndexId \<Rightarrow> bytes \<Rightarrow> u32 list store_io" where
  "lookup_index db index key =
     io_bind (file_path_for_index db index) (\<lambda>_.
     io_bind (read_index_file_bytes db index) (\<lambda>file.
       io_lift (index_candidates_from_file_bytes index key file)))"

section \<open>Reads through a transaction's cache\<close>

record BinaryDbReadCache =
  layout_ids :: "BinaryFileId \<rightharpoonup> u32"
  record_files :: "BinaryFileId \<rightharpoonup> bytes option"
  index_files :: "BinaryIndexId \<rightharpoonup> bytes option"
  parsed_index_candidates :: "BinaryIndexId \<rightharpoonup> candidate_map"

definition empty_read_cache :: BinaryDbReadCache where
  "empty_read_cache = \<lparr>layout_ids = Map.empty, record_files = Map.empty, index_files = Map.empty,
     parsed_index_candidates = Map.empty\<rparr>"

definition read_record_file_bytes :: "LocalBinaryDbFs \<Rightarrow> BinaryFileId \<Rightarrow> bytes option store_io" where
  "read_record_file_bytes db file =
     io_bind (file_path_for_binary_record db file) (\<lambda>p.
     io_bind (db_metadata_len p) (\<lambda>len.
       if len = None then io_return None
       else io_bind (ensure_binary_file_valid p (file_layout_id file) (file_record_size file)) (\<lambda>_.
            io_bind (store_io (read_bytes p)) (\<lambda>bytes. io_return (Some bytes)))))"

definition record_from_file_bytes :: "BinaryFileId \<Rightarrow> u32 \<Rightarrow> bytes option \<Rightarrow> bytes store_result" where
  "record_from_file_bytes file record_index bytes =
     (case bytes of None \<Rightarrow> Inl MissingData
      | Some b \<Rightarrow>
          if length b < BIN_FILE_HEADER_BYTES then Inl Corruption
          else let payload = drop BIN_FILE_HEADER_BYTES b;
                   record_size = unat (file_record_size file);
                   offset = unat record_index * record_size
               in if offset + record_size \<le> length payload
                  then Inr (take record_size (drop offset payload)) else Inl MissingData)"

text \<open>The cached operations run on the cache and the world; a failed lookup keeps what it cached.\<close>

type_synonym 'a cached_io = "(BinaryDbReadCache \<times> io_world, BinaryDbErrorKind, 'a) io"

definition cache_record_file :: "LocalBinaryDbFs \<Rightarrow> BinaryFileId \<Rightarrow> unit cached_io" where
  "cache_record_file db file =
     io_bind io_get (\<lambda>cache.
     if record_files cache file \<noteq> None then io_return ()
     else io_bind (io_over (read_record_file_bytes db file)) (\<lambda>bytes.
          io_update (\<lambda>c. c\<lparr>record_files := (record_files c)(file \<mapsto> bytes)\<rparr>)))"

definition read_record_in_read_txn :: "LocalBinaryDbFs \<Rightarrow> BinaryFileId \<Rightarrow> u32 \<Rightarrow> bytes cached_io" where
  "read_record_in_read_txn db file record_index =
     io_bind (io_over (file_path_for_binary_record db file)) (\<lambda>_.
     io_bind (cache_record_file db file) (\<lambda>_.
     io_bind io_get (\<lambda>cache.
       io_lift (record_from_file_bytes file record_index
         (case record_files cache file of None \<Rightarrow> None | Some b \<Rightarrow> b)))))"

definition cache_index_file :: "LocalBinaryDbFs \<Rightarrow> BinaryIndexId \<Rightarrow> unit cached_io" where
  "cache_index_file db index =
     io_bind io_get (\<lambda>cache.
     if index_files cache index \<noteq> None then io_return ()
     else io_bind (io_over (read_index_file_bytes db index)) (\<lambda>bytes.
          io_update (\<lambda>c. c\<lparr>index_files := (index_files c)(index \<mapsto> bytes)\<rparr>)))"

definition cache_parsed_index :: "LocalBinaryDbFs \<Rightarrow> BinaryIndexId \<Rightarrow> unit cached_io" where
  "cache_parsed_index db index =
     io_bind io_get (\<lambda>cache.
     if parsed_index_candidates cache index \<noteq> None then io_return ()
     else
     io_bind (cache_index_file db index) (\<lambda>_.
     io_bind io_get (\<lambda>cache.
     io_bind (io_lift (index_candidate_map_from_file_bytes index
                (case index_files cache index of None \<Rightarrow> None | Some b \<Rightarrow> b))) (\<lambda>parsed.
       io_update (\<lambda>c. c\<lparr>parsed_index_candidates := (parsed_index_candidates c)(index \<mapsto> parsed)\<rparr>)))))"

definition lookup_index_in_read_txn :: "LocalBinaryDbFs \<Rightarrow> BinaryIndexId \<Rightarrow> bytes \<Rightarrow> u32 list cached_io" where
  "lookup_index_in_read_txn db index key =
     io_bind (io_over (file_path_for_index db index)) (\<lambda>_.
     if (case fixed_key_size index of Some ks \<Rightarrow> length key \<noteq> unat ks | None \<Rightarrow> False)
     then io_fail InvalidDomainData
     else
     io_bind (cache_parsed_index db index) (\<lambda>_.
     io_bind io_get (\<lambda>cache.
       io_return (case parsed_index_candidates cache index of
                    None \<Rightarrow> [] | Some rows \<Rightarrow> candidates_of rows key))))"

section \<open>Recovery and publication\<close>

definition recovery_truncate_file :: "path \<Rightarrow> nat \<Rightarrow> unit store_io" where
  "recovery_truncate_file p len = store_io (truncate_file p len)"

definition recovery_remove_file_if_exists :: "path \<Rightarrow> unit store_io" where
  "recovery_remove_file_if_exists p = store_io (remove_file_if_exists p)"

definition db_sync_file :: "LocalBinaryDbFs \<Rightarrow> path \<Rightarrow> unit store_io" where
  "db_sync_file db p =
     (if durable_directory db \<noteq> None \<and> path_parent p = Some (authority_root db)
      then io_return () else store_io (sync_file p))"

definition db_sync_directory :: "LocalBinaryDbFs \<Rightarrow> path \<Rightarrow> unit store_io" where
  "db_sync_directory db p =
     (if durable_directory db \<noteq> None \<and> p = authority_root db
      then io_return () else store_io (sync_dir p))"

definition atomic_staging_directory :: "path \<Rightarrow> path store_result" where
  "atomic_staging_directory root =
     (case path_parent root of
        None \<Rightarrow> Inl InvalidDomainData
      | Some authority_parent \<Rightarrow> Inr (path_join authority_parent [Normal ''binary-db-staging'']))"

definition replace_file_atomically :: "LocalBinaryDbFs \<Rightarrow> string \<Rightarrow> path \<Rightarrow> bytes \<Rightarrow> path store_io" where
  "replace_file_atomically db tag p bytes =
     io_bind (io_lift (atomic_staging_directory (authority_root db))) (\<lambda>staging_directory.
     io_bind (store_io (write_bytes_atomically_from_directory p staging_directory tag bytes)) (\<lambda>_.
       io_return staging_directory))"

end
