(* ===== verification/Record_Store.thy ===== *)
theory Record_Store
  imports Binary_Db_Fs
begin

text \<open>
  What the record operations of the adapter promise, stated on the decoded view of a record file:
  the list of its records.  Every operation that reads is given its value on the store
  (\<open>reads\<close>), every operation that writes its effect; the interface of an appendable
  store of fixed-size records is a locale, interpreted by the adapter, and the batch append that
  the trait derives from it is proved there once.
\<close>

section \<open>Values of the read operations\<close>

text \<open>
  An adapter is steady when its outer container, if it has one, keeps giving the same answer to
  the authority check.  An adapter without a container is steady.
\<close>

definition steady :: "LocalBinaryDbFs \<Rightarrow> bool" where
  "steady db \<longleftrightarrow> (case durable_directory db of None \<Rightarrow> True
     | Some d \<Rightarrow> (\<forall>w w'. verify_authority d w' = verify_authority d w))"

definition admission_value :: "LocalBinaryDbFs \<Rightarrow> io_world \<Rightarrow> unit store_result" where
  "admission_value db w = fst (ensure_admitted db w)"

definition schema_value :: "LocalBinaryDbFs \<Rightarrow> path \<Rightarrow> path store_result" where
  "schema_value db p =
     (case (if path_extension p = Some ''bin'' then declared_bin_paths db
            else if path_extension p = Some ''idx'' then declared_index_paths db else None)
      of None \<Rightarrow> Inr p
       | Some paths \<Rightarrow> if path_text p \<in> set paths then Inr p else Inl InvalidDomainData)"

definition path_value :: "LocalBinaryDbFs \<Rightarrow> path \<Rightarrow> io_world \<Rightarrow> path store_result" where
  "path_value db p w =
     res_bind (admission_value db w) (\<lambda>_.
     res_bind (validate_store_relative_path p) (\<lambda>rel.
     res_bind (schema_value db rel) (\<lambda>rel. Inr (path_join (authority_root db) rel))))"

definition valid_value :: "path \<Rightarrow> u32 \<Rightarrow> u32 \<Rightarrow> io_world \<Rightarrow> nat store_result" where
  "valid_value p layout rsize w =
     (case files w p of None \<Rightarrow> Inl MissingData
      | Some b \<Rightarrow>
          if length b < 4 then Inl Corruption
          else if rsize = 0 then Inl InvalidDomainData
          else if from_le_bytes (take 4 b) \<noteq> layout then Inl LayoutMismatch
          else if (length b - 4) mod unat rsize \<noteq> 0 then Inl Corruption
          else Inr ((length b - 4) div unat rsize))"

definition count_value :: "LocalBinaryDbFs \<Rightarrow> BinaryFileId \<Rightarrow> io_world \<Rightarrow> u32 store_result" where
  "count_value db f w =
     res_bind (path_value db (file_relative_path f) w) (\<lambda>p.
       if files w p = None then Inr 0
       else res_bind (valid_value p (file_layout_id f) (file_record_size f) w) (\<lambda>n.
         if n < 2 ^ 32 then Inr (of_nat n) else Inl Corruption))"

definition record_at :: "BinaryFileId \<Rightarrow> nat \<Rightarrow> bytes \<Rightarrow> bytes" where
  "record_at f i b = take (unat (file_record_size f)) (drop (4 + i * unat (file_record_size f)) b)"

definition read_value :: "LocalBinaryDbFs \<Rightarrow> BinaryFileId \<Rightarrow> u32 \<Rightarrow> io_world \<Rightarrow> bytes store_result" where
  "read_value db f i w =
     res_bind (path_value db (file_relative_path f) w) (\<lambda>p.
     res_bind (count_value db f w) (\<lambda>n.
       if i \<ge> n then Inl MissingData
       else case files w p of None \<Rightarrow> Inl MissingData | Some b \<Rightarrow> Inr (record_at f (unat i) b)))"

lemma admission_run: "ensure_admitted db w = (admission_value db w, w)"
  by (simp add: ensure_admitted_def admission_value_def)

lemma resolve_run:
  "resolve_relative_path db p w =
     (res_bind (admission_value db w) (\<lambda>_. res_bind (validate_store_relative_path p) (schema_value db)), w)"
  unfolding resolve_relative_path_def
  by (cases "admission_value db w"; cases "validate_store_relative_path p")
    (auto simp: io_bind_def admission_run schema_value_def Let_def split: option.splits)

lemma file_path_for_run: "file_path_for db p w = (path_value db p w, w)"
  unfolding file_path_for_def path_value_def
  by (cases "admission_value db w"; cases "validate_store_relative_path p")
    (auto simp: io_bind_def resolve_run res_bind_def split: sum.splits)

lemma schema_value_ok: "schema_value db p = Inr q \<Longrightarrow> q = p"
  by (auto simp: schema_value_def split: option.splits if_splits)

lemma path_value_ok:
  "path_value db p w = Inr q \<Longrightarrow> q = path_join (authority_root db) p \<and> path_relative p \<and> ParentDir \<notin> set p"
  by (auto simp: path_value_def res_bind_Inr validate_store_relative_path_ok dest: schema_value_ok)

lemma path_value_const: "steady db \<Longrightarrow> path_value db p w' = path_value db p w"
proof -
  assume "steady db"
  then have "admission_value db w' = admission_value db w"
    by (cases "durable_directory db")
      (auto simp: steady_def admission_value_def ensure_admitted_def intro!: arg_cong [where f = "\<lambda>r. res_bind r _"])
  then show ?thesis by (simp add: path_value_def)
qed

lemma path_value_quiet: "steady db \<Longrightarrow> quiet_inv (path_value db p)"
  by (rule quiet_invI) (rule path_value_const)

lemma file_path_reads: "steady db \<Longrightarrow> reads (file_path_for db p) (path_value db p)"
  by (auto simp: reads_def path_value_quiet file_path_for_run)

lemma reads_weaken: "reads m v \<Longrightarrow> (\<And>w. v w = v' w) \<Longrightarrow> reads m v'"
  by (subgoal_tac "v = v'") auto

lemma store_io_reads:
  "reads m v \<Longrightarrow> reads (store_io m) (\<lambda>w. case v w of Inl e \<Rightarrow> Inl (file_io_error_to_binary e) | Inr x \<Rightarrow> Inr x)"
  unfolding store_io_def by (rule reads_map_err)

lemma db_metadata_len_reads:
  "reads (db_metadata_len p) (\<lambda>w. Inr (map_option length (files w p)))"
  unfolding db_metadata_len_def by (rule reads_weaken [OF store_io_reads [OF metadata_len_reads]]) simp

lemma read_layout_id_reads:
  "reads (read_layout_id p) (\<lambda>w. case files w p of None \<Rightarrow> Inl DbIo
     | Some b \<Rightarrow> if length b < 4 then Inl DbIo else Inr (from_le_bytes (take 4 b)))"
  unfolding read_layout_id_def
  by (rule reads_weaken [OF reads_bind [OF store_io_reads [OF read_range_reads] reads_lift]])
    (auto split: option.splits simp: read_u32_le_length)

lemma ensure_binary_file_valid_reads:
  "reads (ensure_binary_file_valid p layout rsize) (valid_value p layout rsize)"
  unfolding ensure_binary_file_valid_def BIN_FILE_HEADER_BYTES_def Let_def
  by (rule reads_weaken, rule reads_bind, rule store_io_reads, rule metadata_len_reads,
      rule reads_case_option, rule reads_if, rule reads_fail, rule reads_if, rule reads_fail,
      rule reads_bind, rule read_layout_id_reads, rule reads_if, rule reads_fail, rule reads_if,
      rule reads_fail, rule reads_return, rule reads_fail)
    (auto simp: valid_value_def split: option.splits)

lemma u32_try_from_reads: "reads (u32_try_from n e) (\<lambda>w. if n < 2 ^ 32 then Inr (of_nat n) else Inl e)"
  unfolding u32_try_from_def by (intro reads_if reads_return reads_fail)

lemma record_count_reads: "steady db \<Longrightarrow> reads (record_count db f) (count_value db f)"
  unfolding record_count_def file_path_for_binary_record_def
  by (rule reads_weaken, rule reads_bind, erule file_path_reads, rule reads_bind,
      rule db_metadata_len_reads, rule reads_case_option, rule reads_bind,
      rule ensure_binary_file_valid_reads, rule u32_try_from_reads, rule reads_return)
    (auto simp: count_value_def split: option.splits intro!: arg_cong [where f = "res_bind _"])

lemma valid_value_ok:
  "valid_value p layout rsize w = Inr n \<longleftrightarrow>
     (\<exists>b. files w p = Some b \<and> 4 \<le> length b \<and> rsize \<noteq> 0 \<and> from_le_bytes (take 4 b) = layout \<and>
        length b = 4 + n * unat rsize)"
  by (auto simp: valid_value_def unat_eq_0 not_less mult.commute le_imp_diff_is_add elim!: dvdE
      split: option.splits if_splits)

lemma read_value_reads_aux:
  assumes "count_value db f w = Inr n" "path_value db (file_relative_path f) w = Inr p" "i < n"
    "files w p = Some b"
  shows "record_offset f i + unat (file_record_size f) \<le> length b"
proof -
  from assms obtain m where m: "length b = 4 + m * unat (file_record_size f)" "m < 2 ^ 32" "n = of_nat m"
    by (auto simp: count_value_def res_bind_Inr valid_value_ok split: if_splits)
  then have "unat n = m" by (simp add: unat_of_nat)
  with assms(3) have "Suc (unat i) \<le> m" by (simp add: word_less_nat_alt)
  then have "Suc (unat i) * unat (file_record_size f) \<le> m * unat (file_record_size f)"
    by (rule mult_le_mono1)
  with m(1) show ?thesis by (simp add: record_offset_def BIN_FILE_HEADER_BYTES_def)
qed

lemma read_record_reads: "steady db \<Longrightarrow> reads (read_record db f i) (read_value db f i)"
  unfolding read_record_def file_path_for_binary_record_def
proof (rule reads_weaken, rule reads_bind, erule file_path_reads, rule reads_bind,
      erule record_count_reads, rule reads_if, rule reads_fail, rule store_io_reads, rule read_range_reads)
  fix w
  assume "steady db"
  show "res_bind (path_value db (file_relative_path f) w) (\<lambda>p.
      res_bind (count_value db f w) (\<lambda>n. if n \<le> i then Inl MissingData
        else case case files w p of None \<Rightarrow> Inl NotFound
             | Some b \<Rightarrow> if 0 < unat (file_record_size f) \<and> length b < record_offset f i + unat (file_record_size f)
               then Inl UnexpectedEof else Inr (take (unat (file_record_size f)) (drop (record_offset f i) b))
           of Inl e \<Rightarrow> Inl (file_io_error_to_binary e) | Inr x \<Rightarrow> Inr x)) = read_value db f i w"
  proof (cases "path_value db (file_relative_path f) w")
    case (Inl e)
    then show ?thesis by (simp add: read_value_def)
  next
    case p: (Inr p)
    show ?thesis
    proof (cases "count_value db f w")
      case (Inl e)
      with p show ?thesis by (simp add: read_value_def)
    next
      case n: (Inr n)
      show ?thesis
      proof (cases "files w p")
        case None
        with p n have "n = 0" by (simp add: count_value_def)
        with p n None show ?thesis by (simp add: read_value_def)
      next
        case (Some b)
        with read_value_reads_aux [OF n p _ Some, of i] p n show ?thesis
          by (cases "i < n") (auto simp: not_less read_value_def record_at_def record_offset_def BIN_FILE_HEADER_BYTES_def)
      qed
    qed
  qed
qed

section \<open>Effects of the append operations\<close>

lemma file_or_empty_quiet: "quiet w w' \<Longrightarrow> file_or_empty w' p = file_or_empty w p"
  by (simp add: quiet_def file_or_empty_def)

lemma quiet_touches_trans: "quiet w v \<Longrightarrow> touches p v w' \<Longrightarrow> touches p w w'"
  by (auto simp: quiet_def touches_def)

lemma touches_trans: "touches p w v \<Longrightarrow> touches p v w' \<Longrightarrow> touches p w w'"
  using touches_transp by (blast dest: transpD)

lemma quiet_trans: "quiet w v \<Longrightarrow> quiet v u \<Longrightarrow> quiet w u"
  using quiet_transp by (blast dest: transpD)

lemma append_header_ok:
  assumes "append_header p layout w = (Inr n, w')"
  shows "n = 4" "file_or_empty w p = []" "files w' = (files w)(p \<mapsto> to_le_bytes layout)" "touches p w w'"
proof -
  have "n = 4 \<and> append_bytes p (to_le_bytes layout) w = (Inr 0, w')"
    using assms by (auto simp: append_header_def BIN_FILE_HEADER_BYTES_def io_ok store_io_ok)
  then have n: "n = 4" and run: "append_bytes p (to_le_bytes layout) w = (Inr 0, w')" by auto
  show "n = 4" by (rule n)
  show e: "file_or_empty w p = []" using append_bytes_ok(1) [OF run] by simp
  show "files w' = (files w)(p \<mapsto> to_le_bytes layout)" using append_bytes_ok(2) [OF run] e by simp
  show "touches p w w'" by (rule append_bytes_ok(3) [OF run])
qed

lemma append_at_ok:
  assumes "append_at p bs off w = (Inr u, w')"
  shows "off = length (file_or_empty w p)" "files w' = (files w)(p \<mapsto> file_or_empty w p @ bs)"
    "touches p w w'"
proof -
  have run: "append_bytes p bs w = (Inr off, w')"
    using assms by (auto simp: append_at_def io_ok store_io_ok)
  show "off = length (file_or_empty w p)" "files w' = (files w)(p \<mapsto> file_or_empty w p @ bs)"
    "touches p w w'" by (rule append_bytes_ok [OF run])+
qed

text \<open>
  Preparing a file for an append: a missing or empty file gets its header, any other file must
  already carry it.  The three append operations share this step.
\<close>

definition with_header :: "u32 \<Rightarrow> bytes \<Rightarrow> bytes" where
  "with_header layout old = (if old = [] then to_le_bytes layout else old)"

lemma prepare_append_ok:
  assumes run: "(if meta = None \<or> meta = Some 0 then append_header p layout else check) w = (Inr off, w')"
    and meta: "meta = map_option length (files w p)"
    and check: "quiet w (snd (check w))"
  shows "files w' p = Some (with_header layout (file_or_empty w p)) \<and> touches p w w' \<and>
    (file_or_empty w p = [] \<or> (check w = (Inr off, w') \<and> quiet w w'))"
proof (cases "meta = None \<or> meta = Some 0")
  case True
  with meta have "file_or_empty w p = []" by (auto simp: file_or_empty_def split: option.splits)
  with True run show ?thesis
    by (auto simp: with_header_def dest: append_header_ok)
next
  case False
  with meta obtain b where b: "files w p = Some b" "b \<noteq> []" by (cases "files w p") auto
  from False run have c: "check w = (Inr off, w')" by (simp only: if_False)
  with check have "quiet w w'" by simp
  with b c show ?thesis
    by (simp add: with_header_def file_or_empty_def quiet_touches) (simp add: quiet_def)
qed

lemma append_record_ok:
  assumes "steady db" and "append_record db f r wc w = (Inr i, w')"
  shows "\<exists>p. path_value db (file_relative_path f) w = Inr p \<and> length r = unat (file_record_size f) \<and>
    active wc \<and> authorizes_file_family (command_scope wc) (family_for_relative_path (file_relative_path f)) \<and>
    (if file_or_empty w p = [] then i = 0 else count_value db f w = Inr i) \<and>
    files w' p = Some (with_header (file_layout_id f) (file_or_empty w p) @ r) \<and> touches p w w'"
proof -
  let ?prep = "\<lambda>p m. if m = None \<or> m = Some 0 then append_header p (file_layout_id f)
              else let len = the m in
                if len < BIN_FILE_HEADER_BYTES then io_fail Corruption
                else io_bind (ensure_binary_file_valid p (file_layout_id f) (file_record_size f))
                       (\<lambda>_. io_return len)"
  from assms(2) obtain p v1 v2 v3 v4 m off u1 u2 where
    auth: "active wc" "authorizes_file_family (command_scope wc) (family_for_relative_path (file_relative_path f))"
    and len: "length r = unat (file_record_size f)"
    and p: "path_value db (file_relative_path f) w = Inr p"
    and dirs: "ensure_parent_directory p w = (Inr u1, v1)"
    and m: "db_metadata_len p v1 = (Inr m, v2)"
    and i: "(case m of Some n \<Rightarrow> if n \<ge> BIN_FILE_HEADER_BYTES then record_count db f else io_return 0
              | None \<Rightarrow> io_return 0) v2 = (Inr i, v3)"
    and off: "?prep p m v3 = (Inr off, v4)"
    and app: "append_at p r off v4 = (Inr u2, w')"
    unfolding append_record_def file_path_for_binary_record_def
    by (clarsimp simp: io_ok ensure_authorized_path_ok file_path_for_run simp del: if_split)
  have q1: "quiet w v1"
    using dirs unfolding ensure_parent_directory_def
    by (rule readsD_quiet [OF store_io_reads [OF create_parent_dirs_reads]])
  have q2: "quiet v1 v2" using m by (rule readsD_quiet [OF db_metadata_len_reads])
  note q12 = quiet_trans [OF q1 q2]
  have meta: "m = map_option length (files w p)"
    using readsD_ok [OF db_metadata_len_reads m] q1 by (simp add: quiet_def)
  have i': "quiet v2 v3 \<and> (if file_or_empty w p = [] then i = 0 else
      length (file_or_empty w p) < 4 \<or> count_value db f w = Inr i)"
  proof (cases "\<exists>n. m = Some n \<and> n \<ge> BIN_FILE_HEADER_BYTES")
    case True
    with i have c: "record_count db f v2 = (Inr i, v3)" by auto
    note rd = record_count_reads [OF assms(1), of f]
    from True meta have "file_or_empty w p \<noteq> []"
      by (auto simp: file_or_empty_def BIN_FILE_HEADER_BYTES_def)
    with readsD_quiet [OF rd c] readsD_ok [OF rd c] readsD_inv [OF rd q12] show ?thesis by simp
  next
    case False
    then have z: "io_return 0 v2 = (Inr i, v3)" using i by (auto split: option.splits if_splits)
    have "length (file_or_empty w p) < 4"
      using False meta by (auto simp: file_or_empty_def BIN_FILE_HEADER_BYTES_def split: option.splits)
    with z show ?thesis by auto
  qed
  have q3: "quiet w v3" using q12 i' quiet_trans by blast
  have meta3: "m = map_option length (files v3 p)" using meta q3 by (simp add: quiet_def)
  have prep: "files v4 p = Some (with_header (file_layout_id f) (file_or_empty v3 p)) \<and> touches p v3 v4 \<and>
    (file_or_empty v3 p = [] \<or> ((let len = the m in
                if len < BIN_FILE_HEADER_BYTES then io_fail Corruption
                else io_bind (ensure_binary_file_valid p (file_layout_id f) (file_record_size f))
                       (\<lambda>_. io_return len)) v3 = (Inr off, v4) \<and> quiet v3 v4))"
    by (rule prepare_append_ok [OF off meta3])
      (auto simp: Let_def io_bind_def split: if_splits prod.splits sum.splits
        dest: readsD_quiet [OF ensure_binary_file_valid_reads])
  have foe: "file_or_empty v3 p = file_or_empty w p" by (rule file_or_empty_quiet [OF q3])
  have long: "\<not> length (file_or_empty w p) < 4" if "file_or_empty w p \<noteq> []"
    using prep that foe meta
    by (auto simp: Let_def BIN_FILE_HEADER_BYTES_def file_or_empty_def split: if_splits option.splits)
  have "file_or_empty v4 p = with_header (file_layout_id f) (file_or_empty w p)"
    using prep foe by (simp add: file_or_empty_def)
  with append_at_ok [OF app] have "files w' p = Some (with_header (file_layout_id f) (file_or_empty w p) @ r)"
    by simp
  moreover have "touches p w w'"
    using quiet_touches_trans [OF q3] touches_trans prep append_at_ok(3) [OF app] by blast
  ultimately show ?thesis using auth len p i' long by auto
qed

section \<open>A record file as a list of records\<close>

definition record_path :: "LocalBinaryDbFs \<Rightarrow> BinaryFileId \<Rightarrow> path" where
  "record_path db f = path_join (authority_root db) (file_relative_path f)"

definition stored_records :: "LocalBinaryDbFs \<Rightarrow> BinaryFileId \<Rightarrow> io_world \<Rightarrow> bytes list option" where
  "stored_records db f w =
     (case count_value db f w of Inl _ \<Rightarrow> None
      | Inr n \<Rightarrow> Some (map (\<lambda>i. record_at f i (file_or_empty w (record_path db f))) [0..<unat n]))"

lemma count_value_eq:
  assumes "path_value db (file_relative_path f) w = Inr p"
  shows "p = record_path db f"
    "count_value db f w = (if files w p = None then Inr 0
      else res_bind (valid_value p (file_layout_id f) (file_record_size f) w) (\<lambda>n.
         if n < 2 ^ 32 then Inr (of_nat n) else Inl Corruption))"
  using assms path_value_ok [OF assms] by (simp_all add: count_value_def record_path_def)

lemma count_value_Some:
  assumes "path_value db (file_relative_path f) w = Inr p" and "files w p = Some b"
  shows "count_value db f w = Inr n \<longleftrightarrow>
    4 \<le> length b \<and> file_record_size f \<noteq> 0 \<and> from_le_bytes (take 4 b) = file_layout_id f \<and>
    length b = 4 + unat n * unat (file_record_size f)"
proof -
  have "count_value db f w = Inr n \<longleftrightarrow>
      (\<exists>m. valid_value p (file_layout_id f) (file_record_size f) w = Inr m \<and> m < 2 ^ 32 \<and> n = of_nat m)"
    using count_value_eq [OF assms(1)] assms(2) by (auto simp: res_bind_Inr)
  also have "\<dots> \<longleftrightarrow> valid_value p (file_layout_id f) (file_record_size f) w = Inr (unat n)"
    using unsigned_less [of n, where 'a = nat] by (auto simp: unat_of_nat)
  finally show ?thesis using assms(2) by (auto simp: valid_value_ok)
qed

lemma stored_records_missing:
  assumes "path_value db (file_relative_path f) w = Inr p" and "files w p = None"
  shows "stored_records db f w = Some []"
  using assms count_value_eq [OF assms(1)] by (simp add: stored_records_def)

lemma stored_records_length:
  "stored_records db f w = Some rs \<Longrightarrow> count_value db f w = Inr (of_nat (length rs)) \<and> length rs < 2 ^ 32"
  using unsigned_less [where 'a = nat and 'b = 32] by (auto simp: stored_records_def split: sum.splits)

lemma stored_records_nth:
  assumes "stored_records db f w = Some rs" and "i < length rs"
  shows "rs ! i = record_at f i (file_or_empty w (record_path db f))"
  using assms by (auto simp: stored_records_def split: sum.splits)

lemma record_at_append:
  "4 + Suc i * unat (file_record_size f) \<le> length b \<Longrightarrow> record_at f i (b @ c) = record_at f i b"
  by (simp add: record_at_def)

text \<open>
  Appending a record that is a multiple of the record size to a file that decodes to
  \<open>rs\<close> makes it decode to \<open>rs\<close> followed by the new records.
\<close>

lemma stored_records_extend:
  assumes p: "path_value db (file_relative_path f) w = Inr p" "path_value db (file_relative_path f) w' = Inr p"
    and sz: "file_record_size f \<noteq> 0"
    and rs: "stored_records db f w = Some rs \<or> (file_or_empty w p = [] \<and> rs = [])"
    and new: "files w' p = Some (with_header (file_layout_id f) (file_or_empty w p) @ body)"
    and body: "length body = k * unat (file_record_size f)" and bound: "length rs + k < 2 ^ 32"
  shows "stored_records db f w' = Some (rs @ map (\<lambda>i. take (unat (file_record_size f))
    (drop (i * unat (file_record_size f)) body)) [0..<k])"
proof -
  let ?s = "unat (file_record_size f)" and ?old = "file_or_empty w p"
  let ?b = "with_header (file_layout_id f) ?old"
  have pd: "p = record_path db f" by (rule count_value_eq(1) [OF p(1)])
  have old: "length ?b = 4 + length rs * ?s \<and> from_le_bytes (take 4 ?b) = file_layout_id f \<and>
      (\<forall>i < length rs. rs ! i = record_at f i ?b)"
  proof (cases "?old = []")
    case True
    have "stored_records db f w = Some rs \<Longrightarrow> rs = []"
    proof (cases "files w p")
      case None
      then show "stored_records db f w = Some rs \<Longrightarrow> rs = []" using stored_records_missing [OF p(1)] by simp
    next
      case (Some b)
      with True have "b = []" by (simp add: file_or_empty_def)
      then show "stored_records db f w = Some rs \<Longrightarrow> rs = []"
        using count_value_Some [OF p(1) Some] by (auto simp: stored_records_def split: sum.splits)
    qed
    with rs True show ?thesis by (auto simp: with_header_def)
  next
    case False
    with rs have st: "stored_records db f w = Some rs" by auto
    from False obtain b where b: "files w p = Some b" "?old = b"
      by (auto simp: file_or_empty_def split: option.splits)
    have "unat (of_nat (length rs) :: u32) = length rs"
      using stored_records_length [OF st] by (simp add: unat_of_nat)
    with count_value_Some [OF p(1) b(1), of "of_nat (length rs)"] stored_records_length [OF st]
    have "length b = 4 + length rs * ?s" "from_le_bytes (take 4 b) = file_layout_id f" by auto
    with False b st stored_records_nth [OF st] pd show ?thesis by (simp add: with_header_def)
  qed
  have n: "unat (of_nat (length rs + k) :: u32) = length rs + k"
    using bound by (simp only: unat_of_nat) simp
  have cv: "count_value db f w' = Inr (of_nat (length rs + k))"
    using old body sz n by (subst count_value_Some [OF p(2) new]) (auto simp: algebra_simps)
  have "record_at f i (?b @ body) = (rs @ map (\<lambda>i. take ?s (drop (i * ?s) body)) [0..<k]) ! i"
    if i: "i < length rs + k" for i
  proof (cases "i < length rs")
    case True
    then have "Suc i * ?s \<le> length rs * ?s" by (intro mult_le_mono1) simp
    with old True show ?thesis by (simp add: record_at_append nth_append)
  next
    case False
    then obtain j where j: "i = length rs + j" "j < k" using i by (metis add_less_cancel_left le_Suc_ex not_less)
    have "4 + i * ?s = length ?b + j * ?s" using old j by (simp add: algebra_simps)
    then have "record_at f i (?b @ body) = take ?s (drop (j * ?s) body)"
      by (simp add: record_at_def)
    with j show ?thesis by (simp add: nth_append)
  qed
  moreover have "file_or_empty w' (record_path db f) = ?b @ body" using new pd by (simp add: file_or_empty_def)
  ultimately show ?thesis
    unfolding stored_records_def cv sum.case n option.inject by (intro nth_equalityI) simp_all
qed

end
