(* ===== verification/Record_Batch.thy ===== *)
theory Record_Batch
  imports Record_Store
begin

text \<open>
  The record file as an appendable sequence.  The laws of one append (dense index, the records
  seen afterwards, nothing else touched, success when no failure is pending) are the interface
  \<open>fixed_record_store\<close>; the batch append that the trait \<open>BinaryDb\<close> derives from
  single appends is proved against that interface, the adapter interprets it, and the adapter's
  own one-write batch is proved equal to the derived one.
\<close>

section \<open>The derived batch (contracts.rs)\<close>

function chunks_exact :: "nat \<Rightarrow> bytes \<Rightarrow> bytes list" where
  "chunks_exact n bs = (if n = 0 \<or> length bs < n then [] else take n bs # chunks_exact n (drop n bs))"
  by pat_completeness auto
termination
  by (relation "measure (\<lambda>(n, bs). length bs)") auto

declare chunks_exact.simps [simp del]

fun append_each :: "(bytes \<Rightarrow> u32 store_io) \<Rightarrow> u32 \<Rightarrow> nat \<Rightarrow> bytes list \<Rightarrow> unit store_io" where
  "append_each append1 start offset [] = io_return ()"
| "append_each append1 start offset (record # records) =
     io_bind (u32_try_from offset InvalidDomainData) (\<lambda>off.
     if 2 ^ 32 \<le> unat start + unat off then io_fail InvalidDomainData
     else io_bind (append1 record) (\<lambda>actual_index.
       if actual_index \<noteq> start + off then io_fail Corruption
       else append_each append1 start (Suc offset) records))"

definition default_append_records ::
    "u32 store_io \<Rightarrow> (bytes \<Rightarrow> u32 store_io) \<Rightarrow> BinaryFileId \<Rightarrow> bytes \<Rightarrow> BinaryWriteContext \<Rightarrow> (u32 \<times> u32) store_io" where
  "default_append_records count append1 file records wc =
     io_bind (io_lift (ensure_authorized_path wc (file_relative_path file))) (\<lambda>_.
     let record_size = unat (file_record_size file) in
     if record_size = 0 then io_fail InvalidDomainData
     else if length records mod record_size \<noteq> 0 then io_fail InvalidDomainData
     else
     io_bind (u32_try_from (length records div record_size) InvalidDomainData) (\<lambda>batch_count.
     io_bind count (\<lambda>start_index.
     if 2 ^ 32 \<le> unat start_index + unat batch_count then io_fail InvalidDomainData
     else io_bind (append_each append1 start_index 0 (chunks_exact record_size records)) (\<lambda>_.
       io_return (start_index, batch_count)))))"

lemma chunks_exact_multiple:
  assumes "0 < n" and "length bs = k * n"
  shows "chunks_exact n bs = map (\<lambda>i. take n (drop (i * n) bs)) [0..<k]"
  using assms
proof (induction k arbitrary: bs)
  case 0
  then show ?case by (subst chunks_exact.simps) simp
next
  case (Suc k)
  have "chunks_exact n bs = take n bs # chunks_exact n (drop n bs)"
    using Suc.prems by (subst chunks_exact.simps) simp
  also have "chunks_exact n (drop n bs) = map (\<lambda>i. take n (drop (i * n) (drop n bs))) [0..<k]"
    using Suc by simp
  also have "take n bs # \<dots> = map (\<lambda>i. take n (drop (i * n) bs)) (0 # map Suc [0..<k])"
    by (simp add: add.commute)
  also have "0 # map Suc [0..<k] = [0..<Suc k]"
    by (simp add: map_Suc_upt upt_conv_Cons del: upt_Suc)
  finally show ?case .
qed

lemma chunks_exact_props:
  assumes "0 < n" and "length bs = k * n"
  shows "length (chunks_exact n bs) = k" "concat (chunks_exact n bs) = bs"
    "\<forall>r \<in> set (chunks_exact n bs). length r = n"
proof -
  show "length (chunks_exact n bs) = k" by (simp add: chunks_exact_multiple [OF assms])
  show "concat (chunks_exact n bs) = bs" using assms
  proof (induction k arbitrary: bs)
    case 0
    then show ?case by (subst chunks_exact.simps) simp
  next
    case (Suc k)
    then show ?case by (subst chunks_exact.simps) simp
  qed
  show "\<forall>r \<in> set (chunks_exact n bs). length r = n"
  proof -
    have "n \<le> length (drop (i * n) bs)" if "i < k" for i
      using mult_le_mono1 [of "Suc i" k n] that assms(2) by simp
    then show ?thesis unfolding chunks_exact_multiple [OF assms] by (simp add: min_absorb2)
  qed
qed

section \<open>The interface of an appendable record store\<close>

locale fixed_record_store =
  fixes view :: "io_world \<Rightarrow> bytes list option"
    and count :: "u32 store_io"
    and append1 :: "bytes \<Rightarrow> u32 store_io"
    and record_size :: nat
    and frame :: "io_world \<Rightarrow> io_world \<Rightarrow> bool"
    and live :: "io_world \<Rightarrow> bool"
  assumes frame_refl: "frame w w"
    and frame_trans: "frame w v \<Longrightarrow> frame v u \<Longrightarrow> frame w u"
    and view_bound: "view w = Some rs \<Longrightarrow> length rs < 2 ^ 32"
    and count_law: "view w = Some rs \<Longrightarrow> count w = (Inr n, w') \<Longrightarrow>
      n = of_nat (length rs) \<and> view w' = Some rs \<and> frame w w'"
    and append_law: "view w = Some rs \<Longrightarrow> Suc (length rs) < 2 ^ 32 \<Longrightarrow> append1 r w = (Inr i, w') \<Longrightarrow>
      i = of_nat (length rs) \<and> view w' = Some (rs @ [r]) \<and> frame w w'"
    and count_live: "live w \<Longrightarrow> view w = Some rs \<Longrightarrow>
      \<exists>w'. count w = (Inr (of_nat (length rs)), w') \<and> live w'"
    and append_live: "live w \<Longrightarrow> view w = Some rs \<Longrightarrow> length r = record_size \<Longrightarrow>
      \<exists>i w'. append1 r w = (Inr i, w') \<and> live w'"
begin

lemma append_each_ok:
  assumes "append_each append1 start k rs w = (Inr u, w')" and "view w = Some old"
    and "start + of_nat k = of_nat (length old)" and "length old + length rs < 2 ^ 32"
  shows "view w' = Some (old @ rs) \<and> frame w w'"
  using assms
proof (induction rs arbitrary: w k old)
  case Nil
  then show ?case by (simp add: frame_refl)
next
  case (Cons r rs)
  then obtain i v where i: "append1 r w = (Inr i, v)" "i = start + of_nat k"
    and rest: "append_each append1 start (Suc k) rs v = (Inr u, w')"
    by (auto simp: io_ok u32_try_from_def split: if_splits)
  have v: "view v = Some (old @ [r])" "frame w v"
    using append_law [OF Cons.prems(2) _ i(1)] Cons.prems(4) by auto
  have "start + of_nat (Suc k) = of_nat (length (old @ [r]))"
    using Cons.prems(3) by (simp add: algebra_simps)
  with Cons.IH [OF rest v(1)] Cons.prems(4) v(2) show ?case by (auto intro: frame_trans)
qed

lemma append_each_live:
  assumes "live w" and "view w = Some old" and "\<forall>r \<in> set rs. length r = record_size"
    and "unat start + k = length old" and "length old + length rs < 2 ^ 32"
  shows "\<exists>w'. append_each append1 start k rs w = (Inr (), w') \<and> live w'"
  using assms
proof (induction rs arbitrary: w k old)
  case Nil
  then show ?case by simp
next
  case (Cons r rs)
  obtain i v where i: "append1 r w = (Inr i, v)" "live v"
    using append_live [OF Cons.prems(1,2), of r] Cons.prems(3) by auto
  have v: "i = of_nat (length old)" "view v = Some (old @ [r])"
    using append_law [OF Cons.prems(2) _ i(1)] Cons.prems(5) by auto
  have k: "k < 2 ^ 32" "unat (of_nat k :: u32) = k" "start + of_nat k = of_nat (length old)"
    using Cons.prems(4,5) by (auto simp: unat_of_nat simp flip: Cons.prems(4))
  obtain w' where "append_each append1 start (Suc k) rs v = (Inr (), w')" "live w'"
    using Cons.IH [OF i(2) v(2), of "Suc k"] Cons.prems(3-5) by auto
  with i v k Cons.prems(4,5) show ?case
    by (auto simp: io_bind_apply u32_try_from_def)
qed

lemma default_batch_ok:
  assumes "default_append_records count append1 file bs wc w = (Inr (s, n), w')"
    and "view w = Some old"
  shows "s = of_nat (length old) \<and> unat n * unat (file_record_size file) = length bs \<and>
    view w' = Some (old @ chunks_exact (unat (file_record_size file)) bs) \<and> frame w w' \<and>
    length old + unat n < 2 ^ 32"
proof -
  let ?sz = "unat (file_record_size file)"
  from assms(1) obtain v u where sz: "0 < ?sz" "length bs mod ?sz = 0" "length bs div ?sz < 2 ^ 32"
      "n = of_nat (length bs div ?sz)"
    and cnt: "count w = (Inr s, v)" and fit: "unat s + unat n < 2 ^ 32"
    and each: "append_each append1 s 0 (chunks_exact ?sz bs) v = (Inr u, w')"
    by (auto simp: default_append_records_def Let_def io_ok u32_try_from_def split: if_splits)
  have len: "length bs = unat n * ?sz" using sz by (auto simp: unat_of_nat)
  note ch = chunks_exact_props [OF sz(1) len]
  have v: "s = of_nat (length old)" "view v = Some old" "frame w v"
    using count_law [OF assms(2) cnt] by auto
  have "unat s = length old" using v(1) view_bound [OF assms(2)] by (simp add: unat_of_nat)
  with append_each_ok [OF each v(2)] v fit ch(1) len show ?thesis
    by (auto intro: frame_trans)
qed

lemma default_batch_live:
  assumes "live w" and "view w = Some old" and "ensure_authorized_path wc (file_relative_path file) = Inr ()"
    and "unat (file_record_size file) = record_size" and "0 < record_size"
    and "length bs = k * record_size" and "length old + k < 2 ^ 32"
  shows "\<exists>w'. default_append_records count append1 file bs wc w =
    (Inr (of_nat (length old), of_nat k), w') \<and> live w'"
proof -
  obtain v where v: "count w = (Inr (of_nat (length old)), v)" "live v"
    using count_live [OF assms(1,2)] by auto
  have vv: "view v = Some old" using count_law [OF assms(2) v(1)] by simp
  have u: "unat (of_nat (length old) :: u32) = length old" "unat (of_nat k :: u32) = k"
    using assms(7) by (simp_all add: unat_of_nat)
  note ch = chunks_exact_props [OF assms(5,6)]
  obtain w' where "append_each append1 (of_nat (length old)) 0 (chunks_exact record_size bs) v = (Inr (), w')"
      "live w'"
    using append_each_live [OF v(2) vv ch(3), of "of_nat (length old)" 0] ch(1) u assms(7) by auto
  with v u assms(3-7) show ?thesis
    by (simp add: default_append_records_def io_bind_apply u32_try_from_def)
qed

end

section \<open>The adapter provides the interface\<close>

definition ready :: "LocalBinaryDbFs \<Rightarrow> BinaryFileId \<Rightarrow> BinaryWriteContext \<Rightarrow> bool" where
  "ready db f wc \<longleftrightarrow> steady db \<and> file_record_size f \<noteq> 0 \<and>
     ensure_authorized_path wc (file_relative_path f) = Inr ()"

definition adapter_view :: "LocalBinaryDbFs \<Rightarrow> BinaryFileId \<Rightarrow> BinaryWriteContext \<Rightarrow> io_world \<Rightarrow> bytes list option" where
  "adapter_view db f wc w = (if ready db f wc then stored_records db f w else None)"

lemma adapter_view_Some:
  "adapter_view db f wc w = Some rs \<longleftrightarrow> ready db f wc \<and> stored_records db f w = Some rs"
  by (simp add: adapter_view_def)

lemma stored_records_path:
  assumes "stored_records db f w = Some rs"
  shows "path_value db (file_relative_path f) w = Inr (record_path db f)"
proof -
  from assms obtain n where "count_value db f w = Inr n"
    by (auto simp: stored_records_def split: sum.splits)
  then obtain p where "path_value db (file_relative_path f) w = Inr p"
    by (auto simp: count_value_def res_bind_Inr)
  with count_value_eq(1) [OF this] show ?thesis by simp
qed

lemma stored_records_quiet:
  assumes "steady db" and "quiet w w'"
  shows "stored_records db f w' = stored_records db f w"
  using readsD_inv [OF record_count_reads [OF assms(1)] assms(2), of f] file_or_empty_quiet [OF assms(2)]
  by (simp add: stored_records_def split: sum.splits)

lemma stored_records_count:
  assumes "stored_records db f w = Some rs"
  shows "count_value db f w = Inr (of_nat (length rs))"
  using stored_records_length [OF assms] by simp

lemma append_record_view:
  assumes "ready db f wc" and "stored_records db f w = Some rs" and "Suc (length rs) < 2 ^ 32"
    and "append_record db f r wc w = (Inr i, w')"
  shows "i = of_nat (length rs)" "stored_records db f w' = Some (rs @ [r])"
    "touches (record_path db f) w w'"
proof -
  have st: "steady db" and sz: "file_record_size f \<noteq> 0" using assms(1) by (auto simp: ready_def)
  have p: "path_value db (file_relative_path f) v = Inr (record_path db f)" for v
    using stored_records_path [OF assms(2)] path_value_const [OF st] by metis
  from append_record_ok [OF st assms(4)] p
  have app: "length r = unat (file_record_size f)"
      "if file_or_empty w (record_path db f) = [] then i = 0 else count_value db f w = Inr i"
      "files w' (record_path db f) = Some (with_header (file_layout_id f) (file_or_empty w (record_path db f)) @ r)"
      "touches (record_path db f) w w'" by auto
  show "touches (record_path db f) w w'" by (rule app(4))
  show "i = of_nat (length rs)"
  proof (cases "file_or_empty w (record_path db f) = []")
    case True
    with app(2) have i0: "i = 0" by simp
    show ?thesis
    proof (cases "files w (record_path db f)")
      case None
      with i0 stored_records_missing [OF p None] assms(2) show ?thesis by simp
    next
      case (Some b)
      with True have "b = []" by (simp add: file_or_empty_def)
      with count_value_Some [OF p Some, of "of_nat (length rs)"] stored_records_count [OF assms(2)] show ?thesis by simp
    qed
  next
    case False
    with app(2) stored_records_count [OF assms(2)] show ?thesis by simp
  qed
  show "stored_records db f w' = Some (rs @ [r])"
    using stored_records_extend [OF p p sz disjI1 [OF assms(2)] app(3), of 1] app(1) assms(3) by simp
qed

lemma touches_file_or_empty:
  "touches p w w' \<Longrightarrow> q \<noteq> p \<Longrightarrow> file_or_empty w' q = file_or_empty w q"
  by (simp add: touches_def file_or_empty_def)

lemma append_header_calm:
  assumes "calm w" and "file_or_empty w p = []"
  obtains w' where "append_header p layout w = (Inr 4, w')" "files w' = (files w)(p \<mapsto> to_le_bytes layout)" "calm w'"
proof -
  obtain w' where w': "append_bytes p (to_le_bytes layout) w = (Inr 0, w')"
      "files w' = (files w)(p \<mapsto> to_le_bytes layout)" "calm w'"
    using assms by (auto elim!: append_bytes_calm [of w p "to_le_bytes layout"])
  then have "append_header p layout w = (Inr 4, w')"
    by (simp add: append_header_def io_bind_apply store_io_def io_map_err_apply BIN_FILE_HEADER_BYTES_def)
  then show ?thesis using w'(2,3) by (rule that)
qed

lemma append_at_calm:
  assumes "calm w" and "off = length (file_or_empty w p)"
  obtains w' where "append_at p bs off w = (Inr (), w')" "files w' = (files w)(p \<mapsto> file_or_empty w p @ bs)" "calm w'"
proof -
  obtain w' where w': "append_bytes p bs w = (Inr (length (file_or_empty w p)), w')"
      "files w' = (files w)(p \<mapsto> file_or_empty w p @ bs)" "calm w'"
    using assms(1) by (auto elim!: append_bytes_calm [of w p bs])
  then have "append_at p bs off w = (Inr (), w')"
    using assms(2) by (simp add: append_at_def io_bind_apply store_io_def io_map_err_apply)
  then show ?thesis using w'(2,3) by (rule that)
qed

lemma ensure_parent_directory_reads: "reads (ensure_parent_directory p) (\<lambda>w. Inr ())"
  unfolding ensure_parent_directory_def by (rule reads_weaken [OF store_io_reads [OF create_parent_dirs_reads]]) simp

lemma stored_records_file:
  assumes "stored_records db f w = Some rs" and "files w (record_path db f) = Some b"
  shows "valid_value (record_path db f) (file_layout_id f) (file_record_size f) w = Inr (length rs)"
    "4 \<le> length b" "file_or_empty w (record_path db f) = b"
proof -
  note len = stored_records_length [OF assms(1)]
  have "unat (of_nat (length rs) :: u32) = length rs" using len by (simp add: unat_of_nat)
  with count_value_Some [OF stored_records_path [OF assms(1)] assms(2), of "of_nat (length rs)"] len assms(2)
  show "valid_value (record_path db f) (file_layout_id f) (file_record_size f) w = Inr (length rs)"
    "4 \<le> length b" by (auto simp: valid_value_ok)
  show "file_or_empty w (record_path db f) = b" using assms(2) by (simp add: file_or_empty_def)
qed

lemma append_record_live:
  assumes "ready db f wc" and "calm w" and "stored_records db f w = Some rs"
    and "length r = unat (file_record_size f)"
  shows "\<exists>i w'. append_record db f r wc w = (Inr i, w') \<and> calm w'"
proof -
  let ?p = "record_path db f"
  have st: "steady db" and auth: "ensure_authorized_path wc (file_relative_path f) = Inr ()"
    using assms(1) by (auto simp: ready_def)
  have path: "file_path_for_binary_record db f w = (Inr ?p, w)"
    using stored_records_path [OF assms(3)] by (simp add: file_path_for_binary_record_def file_path_for_run)
  obtain v1 where v1: "ensure_parent_directory ?p w = (Inr (), v1)" "quiet w v1" "calm v1"
    using ensure_parent_directory_reads assms(2) by (rule reads_calm)
  obtain v2 where v2: "db_metadata_len ?p v1 = (Inr (map_option length (files w ?p)), v2)" "quiet v1 v2" "calm v2"
    using reads_calm [OF db_metadata_len_reads v1(3), of ?p] v1(2) by (auto simp: quiet_def)
  note q2 = quiet_trans [OF v1(2) v2(2)]
  show ?thesis
  proof (cases "files w ?p")
    case None
    with q2 have e: "file_or_empty v2 ?p = []" by (simp add: file_or_empty_def quiet_def)
    obtain v3 where v3: "append_header ?p (file_layout_id f) v2 = (Inr 4, v3)" "calm v3"
        "files v3 = (files v2)(?p \<mapsto> to_le_bytes (file_layout_id f))"
      using append_header_calm [OF v2(3) e] by metis
    have "4 = length (file_or_empty v3 ?p)" using v3(3) by (simp add: file_or_empty_def)
    from append_at_calm [OF v3(2) this, of r] obtain w' where "append_at ?p r 4 v3 = (Inr (), w')" "calm w'"
      by metis
    with None auth path v1 v2 v3 assms(4) show ?thesis
      by (auto simp: append_record_def)
  next
    case (Some b)
    note b = stored_records_file [OF assms(3) Some]
    obtain v3 where v3: "record_count db f v2 = (Inr (of_nat (length rs)), v3)" "quiet v2 v3" "calm v3"
      using reads_calm [OF record_count_reads [OF st] v2(3), of f] stored_records_count [OF assms(3)]
        readsD_inv [OF record_count_reads [OF st] q2, of f] by metis
    note q3 = quiet_trans [OF q2 v3(2)]
    obtain v4 where v4: "ensure_binary_file_valid ?p (file_layout_id f) (file_record_size f) v3 =
        (Inr (length rs), v4)" "quiet v3 v4" "calm v4"
      using reads_calm [OF ensure_binary_file_valid_reads v3(3)] b(1)
        readsD_inv [OF ensure_binary_file_valid_reads q3] by metis
    have "length b = length (file_or_empty v4 ?p)"
      using file_or_empty_quiet [OF quiet_trans [OF q3 v4(2)]] b(3) by simp
    from append_at_calm [OF v4(3) this, of r] obtain w' where "append_at ?p r (length b) v4 = (Inr (), w')" "calm w'"
      by metis
    with Some b(2) auth path v1 v2 v3 v4 assms(4) show ?thesis
      by (auto simp: append_record_def BIN_FILE_HEADER_BYTES_def)
  qed
qed

interpretation records: fixed_record_store "adapter_view db f wc" "record_count db f"
    "\<lambda>r. append_record db f r wc" "unat (file_record_size f)" "touches (record_path db f)" calm
  for db f wc
proof
  fix w v u :: io_world and rs r and n i :: u32 and w'
  show "touches (record_path db f) w w" by (simp add: touches_def)
  show "touches (record_path db f) w v \<Longrightarrow> touches (record_path db f) v u \<Longrightarrow> touches (record_path db f) w u"
    by (rule touches_trans)
  show "adapter_view db f wc w = Some rs \<Longrightarrow> length rs < 2 ^ 32"
    by (auto simp: adapter_view_Some dest: stored_records_length)
  {
    assume v: "adapter_view db f wc w = Some rs"
    then have st: "steady db" and rd: "ready db f wc" and s: "stored_records db f w = Some rs"
      by (auto simp: adapter_view_Some ready_def)
    note rc = record_count_reads [OF st, of f]
    show "n = of_nat (length rs) \<and> adapter_view db f wc w' = Some rs \<and> touches (record_path db f) w w'"
      if "record_count db f w = (Inr n, w')"
      using readsD_ok [OF rc that] stored_records_count [OF s] quiet_touches [OF readsD_quiet [OF rc that]]
        stored_records_quiet [OF st readsD_quiet [OF rc that]] rd s by (simp add: adapter_view_Some)
    show "i = of_nat (length rs) \<and> adapter_view db f wc w' = Some (rs @ [r]) \<and> touches (record_path db f) w w'"
      if "Suc (length rs) < 2 ^ 32" "append_record db f r wc w = (Inr i, w')"
      using append_record_view [OF rd s that] rd by (simp add: adapter_view_Some)
    show "\<exists>w'. record_count db f w = (Inr (of_nat (length rs)), w') \<and> calm w'" if "calm w"
      using reads_calm [OF rc that] stored_records_count [OF s] by metis
    show "\<exists>i w'. append_record db f r wc w = (Inr i, w') \<and> calm w'"
      if "calm w" "length r = unat (file_record_size f)"
      by (rule append_record_live [OF rd that(1) s that(2)])
  }
qed

section \<open>The batch in one write (filesystem\_db.rs)\<close>

lemma batch_start_reads:
  assumes "meta = map_option length (files w p)"
    and "(if meta = None \<or> meta = Some 0
              then io_return (0, BIN_FILE_HEADER_BYTES, True)
              else let len = the meta in
                if len < BIN_FILE_HEADER_BYTES then io_fail Corruption
                else io_bind (ensure_binary_file_valid p layout rsize) (\<lambda>count.
                     io_bind (u32_try_from count Corruption) (\<lambda>start_index.
                       io_return (start_index, len, False)))) w = (Inr (s, off, ini), w')"
  shows "quiet w w' \<and> (if file_or_empty w p = [] then s = 0 \<and> off = 4 \<and> ini
    else off = length (file_or_empty w p) \<and> \<not> ini \<and>
         (\<exists>n. valid_value p layout rsize w = Inr n \<and> n < 2 ^ 32 \<and> s = of_nat n))"
proof (cases "meta = None \<or> meta = Some 0")
  case True
  with assms show ?thesis
    by (auto simp: file_or_empty_def BIN_FILE_HEADER_BYTES_def split: option.splits)
next
  case False
  with assms(1) obtain b where b: "files w p = Some b" "b \<noteq> []" "the meta = length b" by auto
  from False assms(2) b(3) obtain n v where n: "ensure_binary_file_valid p layout rsize w = (Inr n, v)"
      "off = length b" "\<not> ini" "n < 2 ^ 32" "s = of_nat n" "w' = v"
    by (auto simp: Let_def io_ok u32_try_from_def split: if_splits)
  with readsD_quiet [OF ensure_binary_file_valid_reads n(1)] readsD_ok [OF ensure_binary_file_valid_reads n(1)] b
  show ?thesis by (auto simp: file_or_empty_def)
qed

lemma append_header_if_ok:
  assumes "(if ini then append_header p layout else io_return 0) w = (Inr u, w')"
    and "ini \<longleftrightarrow> file_or_empty w p = []"
  shows "file_or_empty w' p = with_header layout (file_or_empty w p)" "touches p w w'"
proof -
  have "file_or_empty w' p = with_header layout (file_or_empty w p) \<and> touches p w w'"
  proof (cases ini)
    case True
    with assms(1) have "append_header p layout w = (Inr u, w')" by simp
    note h = append_header_ok [OF this]
    from h(2-4) show ?thesis by (simp add: with_header_def file_or_empty_def)
  next
    case False
    with assms show ?thesis by (simp add: with_header_def touches_def)
  qed
  then show "file_or_empty w' p = with_header layout (file_or_empty w p)" "touches p w w'" by auto
qed

lemma append_records_bytes:
  assumes path: "\<And>v. path_value db (file_relative_path f) v = Inr p" and "bs \<noteq> []"
    and run: "append_records db f bs wc w = (Inr (s, n), w')"
  shows "unat n * unat (file_record_size f) = length bs \<and> unat s + unat n < 2 ^ 32 \<and>
    files w' p = Some (with_header (file_layout_id f) (file_or_empty w p) @ bs) \<and> touches p w w' \<and>
    (if file_or_empty w p = [] then s = 0
     else valid_value p (file_layout_id f) (file_record_size f) w = Inr (unat s))"
proof -
  let ?sz = "unat (file_record_size f)" and ?k = "length bs div unat (file_record_size f)"
  from run have al: "?sz \<noteq> 0" "length bs mod ?sz = 0" "?k < 2 ^ 32"
    by (auto simp: append_records_def Let_def io_ok u32_try_from_def simp del: if_split split: if_split_asm)
  have k: "unat (of_nat ?k :: u32) = ?k" using al(3) by (simp add: unat_of_nat)
  have len: "?k * ?sz = length bs" using al(2) by (metis div_mult_mod_eq add.right_neutral)
  then have "?k \<noteq> 0" using \<open>bs \<noteq> []\<close> by (metis length_0_conv mult_zero_left)
  with k have k0: "of_nat ?k \<noteq> (0 :: u32)" by (metis unat_0)
  from run al k0 obtain v1 v2 v3 v4 u1 u2 u3 m off ini where
      v1: "ensure_parent_directory p w = (Inr u1, v1)"
      and v2: "db_metadata_len p v1 = (Inr m, v2)"
      and v3: "(if m = None \<or> m = Some 0
              then io_return (0, BIN_FILE_HEADER_BYTES, True)
              else let len = the m in
                if len < BIN_FILE_HEADER_BYTES then io_fail Corruption
                else io_bind (ensure_binary_file_valid p (file_layout_id f) (file_record_size f)) (\<lambda>count.
                     io_bind (u32_try_from count Corruption) (\<lambda>start_index.
                       io_return (start_index, len, False)))) v2 = (Inr (s, off, ini), v3)"
      and fit: "unat s + ?k < 2 ^ 32"
      and v4: "(if ini then append_header p (file_layout_id f) else io_return 0) v3 = (Inr u2, v4)"
      and app: "append_at p bs off v4 = (Inr u3, w')" and n: "n = of_nat ?k"
    unfolding append_records_def Let_def u32_try_from_def [of ?k]
    by (auto simp: io_ok file_path_for_binary_record_def file_path_for_run path k not_le Let_def
          simp del: if_split of_nat_eq_0_iff)
  note q1 = readsD_quiet [OF ensure_parent_directory_reads v1]
  note q12 = quiet_trans [OF q1 readsD_quiet [OF db_metadata_len_reads v2]]
  have "m = map_option length (files v2 p)"
    using readsD_ok [OF db_metadata_len_reads v2] readsD_quiet [OF db_metadata_len_reads v2] by (simp add: quiet_def)
  note b = batch_start_reads [OF this v3]
  have q3: "quiet w v3" using quiet_trans [OF q12] b by blast
  note foe = file_or_empty_quiet [OF q12, of p] file_or_empty_quiet [OF q3, of p]
  have "ini \<longleftrightarrow> file_or_empty v3 p = []" using b foe by (auto split: if_splits)
  note h = append_header_if_ok [OF v4 this]
  have "files w' p = Some (with_header (file_layout_id f) (file_or_empty w p) @ bs)"
    using append_at_ok(2) [OF app] h(1) foe by simp
  moreover have "touches p w w'"
    using quiet_touches_trans [OF q3 h(2)] append_at_ok(3) [OF app] by (rule touches_trans)
  moreover have "if file_or_empty w p = [] then s = 0
     else valid_value p (file_layout_id f) (file_record_size f) w = Inr (unat s)"
    using b foe readsD_inv [OF ensure_binary_file_valid_reads q12, of p "file_layout_id f" "file_record_size f"]
    by (auto simp: unat_of_nat split: if_splits)
  ultimately show ?thesis using n k len fit by simp
qed

lemma append_records_view:
  assumes "ready db f wc" and rs: "stored_records db f w = Some rs"
    and run: "append_records db f bs wc w = (Inr (s, n), w')"
  shows "s = of_nat (length rs) \<and> unat n * unat (file_record_size f) = length bs \<and>
    stored_records db f w' = Some (rs @ chunks_exact (unat (file_record_size f)) bs) \<and>
    touches (record_path db f) w w'"
proof (cases "bs = []")
  case True
  then have "(of_nat (length bs div unat (file_record_size f)) :: u32) = 0" by simp
  with run True have "record_count db f w = (Inr s, w')" "n = 0" "file_record_size f \<noteq> 0"
    by (auto simp: append_records_def Let_def io_ok u32_try_from_def split: if_split_asm)
  with True records.count_law [of db f wc w rs s w'] rs assms(1) show ?thesis
    by (simp add: adapter_view_Some chunks_exact.simps unat_eq_0)
next
  case False
  let ?sz = "unat (file_record_size f)" and ?p = "record_path db f"
  have st: "steady db" and sz: "file_record_size f \<noteq> 0" using assms(1) by (auto simp: ready_def)
  have p: "path_value db (file_relative_path f) v = Inr ?p" for v
    using stored_records_path [OF rs] path_value_const [OF st] by metis
  note b = append_records_bytes [OF p False run]
  have s: "unat s = length rs"
  proof (cases "files w ?p")
    case None
    with stored_records_missing [OF p None] rs b show ?thesis by (simp add: file_or_empty_def)
  next
    case (Some c)
    note c = stored_records_file [OF rs Some]
    then have "file_or_empty w ?p \<noteq> []" by auto
    with b c(1) show ?thesis by simp
  qed
  have "stored_records db f w' = Some (rs @ chunks_exact ?sz bs)"
    using stored_records_extend [OF p p sz disjI1 [OF rs], of w' bs "unat n"] b s
      chunks_exact_multiple [of ?sz bs "unat n"]
    by (simp add: unat_gt_0 sz)
  moreover have "s = of_nat (length rs)" by (simp flip: s)
  ultimately show ?thesis using b by simp
qed

lemma append_records_live:
  assumes rd: "ready db f wc" and "calm w" and rs: "stored_records db f w = Some rs"
    and len: "length bs = k * unat (file_record_size f)" and fit: "length rs + k < 2 ^ 32"
  shows "\<exists>w'. append_records db f bs wc w = (Inr (of_nat (length rs), of_nat k), w') \<and> calm w'"
proof -
  let ?p = "record_path db f" and ?sz = "unat (file_record_size f)"
  have st: "steady db" and auth: "ensure_authorized_path wc (file_relative_path f) = Inr ()"
    and sz: "file_record_size f \<noteq> 0" using rd by (auto simp: ready_def)
  have k: "length bs div ?sz = k" "length bs mod ?sz = 0" "k < 2 ^ 32" "unat (of_nat k :: u32) = k"
      "unat (of_nat (length rs) :: u32) = length rs"
    using len fit sz by (simp_all add: unat_of_nat unat_eq_0)
  note run = append_records_def Let_def u32_try_from_def k auth sz unat_eq_0
  show ?thesis
  proof (cases "k = 0")
    case True
    with records.count_live [of w db f wc rs] assms show ?thesis by (auto simp: run adapter_view_Some)
  next
    case False
    with k(4) have k0: "of_nat k \<noteq> (0 :: u32)" by (metis unat_0)
    have path: "file_path_for_binary_record db f w = (Inr ?p, w)"
      using stored_records_path [OF rs] by (simp add: file_path_for_binary_record_def file_path_for_run)
    obtain v1 where v1: "ensure_parent_directory ?p w = (Inr (), v1)" "quiet w v1" "calm v1"
      using ensure_parent_directory_reads assms(2) by (rule reads_calm)
    obtain v2 where v2: "db_metadata_len ?p v1 = (Inr (map_option length (files w ?p)), v2)" "quiet v1 v2" "calm v2"
      using reads_calm [OF db_metadata_len_reads v1(3), of ?p] v1(2) by (auto simp: quiet_def)
    note q2 = quiet_trans [OF v1(2) v2(2)]
    show ?thesis
    proof (cases "files w ?p")
      case None
      with q2 have e: "file_or_empty v2 ?p = []" by (simp add: file_or_empty_def quiet_def)
      have "rs = []" using stored_records_missing [OF stored_records_path [OF rs] None] rs by simp
      obtain v3 where v3: "append_header ?p (file_layout_id f) v2 = (Inr 4, v3)" "calm v3"
          "files v3 = (files v2)(?p \<mapsto> to_le_bytes (file_layout_id f))"
        using append_header_calm [OF v2(3) e] by metis
      have "4 = length (file_or_empty v3 ?p)" using v3(3) by (simp add: file_or_empty_def)
      from append_at_calm [OF v3(2) this, of bs] obtain w' where "append_at ?p bs 4 v3 = (Inr (), w')" "calm w'"
        by metis
      with None path v1 v2 v3 k0 k(3) \<open>rs = []\<close> show ?thesis
        by (auto simp: run BIN_FILE_HEADER_BYTES_def)
    next
      case (Some b)
      note b = stored_records_file [OF rs Some]
      obtain v3 where v3: "ensure_binary_file_valid ?p (file_layout_id f) (file_record_size f) v2 =
          (Inr (length rs), v3)" "quiet v2 v3" "calm v3"
        using reads_calm [OF ensure_binary_file_valid_reads v2(3)] b(1)
          readsD_inv [OF ensure_binary_file_valid_reads q2] by metis
      have "length b = length (file_or_empty v3 ?p)"
        using file_or_empty_quiet [OF quiet_trans [OF q2 v3(2)]] b(3) by simp
      from append_at_calm [OF v3(3) this, of bs] obtain w' where "append_at ?p bs (length b) v3 = (Inr (), w')" "calm w'"
        by metis
      with Some b(2) path v1 v2 v3 k0 fit show ?thesis
        by (auto simp: run BIN_FILE_HEADER_BYTES_def)
    qed
  qed
qed

lemma file_of_records:
  assumes "stored_records db f w = Some rs" and "files w (record_path db f) = Some b"
  shows "b = to_le_bytes (file_layout_id f) @ concat rs"
proof -
  let ?sz = "unat (file_record_size f)"
  have b: "4 \<le> length b" "from_le_bytes (take 4 b) = file_layout_id f" "0 < ?sz"
      "length (drop 4 b) = length rs * ?sz"
    using stored_records_file(1) [OF assms] assms(2) by (auto simp: valid_value_ok unat_gt_0)
  have "rs = map (\<lambda>i. take ?sz (drop (i * ?sz) (drop 4 b))) [0..<length rs]"
    by (rule nth_equalityI)
      (simp_all add: stored_records_nth [OF assms(1)] record_at_def file_or_empty_def assms(2) add.commute)
  also have "\<dots> = chunks_exact ?sz (drop 4 b)" by (simp only: chunks_exact_multiple [OF b(3,4)])
  finally have "concat rs = drop 4 b" using chunks_exact_props(2) [OF b(3,4)] by simp
  moreover have "take 4 b = to_le_bytes (file_layout_id f)" using b(1) by (simp flip: b(2) add: to_from_le_bytes)
  ultimately show ?thesis by (metis append_take_drop_id)
qed

lemma touches_same_records:
  assumes "touches (record_path db f) w v" and "touches (record_path db f) w u"
    and "stored_records db f v = Some rs" and "stored_records db f u = Some rs" and "rs \<noteq> []"
  shows "files v = files u"
proof
  fix q
  have contents: "files x (record_path db f) = Some (to_le_bytes (file_layout_id f) @ concat rs)"
    if "stored_records db f x = Some rs" for x
  proof (cases "files x (record_path db f)")
    case None
    with stored_records_missing [OF stored_records_path [OF that] None] that assms(5) show ?thesis by simp
  next
    case (Some b)
    with file_of_records [OF that Some] show ?thesis by simp
  qed
  show "files v q = files u q"
    by (cases "q = record_path db f") (use assms contents in \<open>auto simp: touches_def\<close>)
qed

section \<open>Reading the records back\<close>

lemma read_value_stored:
  assumes "stored_records db f w = Some rs"
  shows "read_value db f i w = (if unat i < length rs then Inr (rs ! unat i) else Inl MissingData)"
proof -
  note p = stored_records_path [OF assms] and n = stored_records_length [OF assms]
  have le: "of_nat (length rs) \<le> i \<longleftrightarrow> length rs \<le> unat i"
    using n by (simp add: word_le_nat_alt unat_of_nat)
  show ?thesis
  proof (cases "unat i < length rs")
    case True
    then obtain b where b: "files w (record_path db f) = Some b"
      using stored_records_missing [OF p] assms by (cases "files w (record_path db f)") auto
    with p n le True stored_records_nth [OF assms True] show ?thesis
      by (simp add: read_value_def file_or_empty_def)
  next
    case False
    with p n le show ?thesis by (simp add: read_value_def)
  qed
qed

lemma read_record_stored:
  assumes "steady db" and "stored_records db f w = Some rs"
  shows "read_record db f i w = (Inr r, w') \<Longrightarrow> unat i < length rs \<and> r = rs ! unat i"
    and "calm w \<Longrightarrow> fst (read_record db f i w) = (if unat i < length rs then Inr (rs ! unat i) else Inl MissingData)"
proof -
  note rr = read_record_reads [OF assms(1), of f i]
  show "read_record db f i w = (Inr r, w') \<Longrightarrow> unat i < length rs \<and> r = rs ! unat i"
    using readsD_ok [OF rr] read_value_stored [OF assms(2), of i] by (simp split: if_splits)
  assume "calm w"
  from reads_calm [OF rr this] show "fst (read_record db f i w) =
      (if unat i < length rs then Inr (rs ! unat i) else Inl MissingData)"
    by (metis fst_conv read_value_stored [OF assms(2)])
qed

section \<open>Overwriting a record\<close>

lemma overwrite_record_ok:
  assumes "steady db" and "overwrite_record db f i r wc w = (Inr u, w')"
  obtains p b n where "path_value db (file_relative_path f) w = Inr p" "files w p = Some b"
    "length r = unat (file_record_size f)" "record_offset f i + length r \<le> length b"
    "count_value db f w = Inr n" "i < n"
    "files w' = (files w)(p \<mapsto> splice_bytes (record_offset f i) r b)" "touches p w w'"
proof -
  from assms(2) obtain p n v where len: "length r = unat (file_record_size f)"
    and p: "path_value db (file_relative_path f) w = Inr p"
    and n: "record_count db f w = (Inr n, v)" and i: "i < n"
    and ow: "overwrite_range p (record_offset f i) r v = (Inr u, w')"
    by (auto simp: overwrite_record_def file_path_for_binary_record_def file_path_for_run io_ok
        store_io_ok not_le)
  note rc = record_count_reads [OF assms(1), of f]
  have q: "quiet w v" by (rule readsD_quiet [OF rc n])
  from ow obtain b where b: "files v p = Some b" "record_offset f i + length r \<le> length b"
      "files w' = (files v)(p \<mapsto> splice_bytes (record_offset f i) r b)" "touches p v w'"
    by (rule overwrite_range_ok)
  show ?thesis
  proof (rule that)
    show "files w p = Some b" "files w' = (files w)(p \<mapsto> splice_bytes (record_offset f i) r b)"
      using b q by (auto simp: quiet_def)
    show "touches p w w'" using quiet_touches_trans [OF q b(4)] .
    show "count_value db f w = Inr n" by (rule readsD_ok [OF rc n])
  qed (fact p len b(2) i)+
qed

lemma overwrite_record_view:
  assumes "steady db" and rs: "stored_records db f w = Some rs"
    and run: "overwrite_record db f i r wc w = (Inr u, w')"
  shows "unat i < length rs \<and> stored_records db f w' = Some (rs[unat i := r]) \<and>
    touches (record_path db f) w w'"
proof -
  let ?s = "unat (file_record_size f)" and ?p = "record_path db f"
  note p = stored_records_path [OF rs]
  from assms(1) run obtain p' b n where p': "path_value db (file_relative_path f) w = Inr p'"
    and b: "files w p' = Some b"
      "length r = ?s" "record_offset f i + length r \<le> length b" "count_value db f w = Inr n" "i < n"
      "files w' = (files w)(p' \<mapsto> splice_bytes (record_offset f i) r b)" "touches p' w w'"
    by (rule overwrite_record_ok)
  from p p' have "p' = ?p" by simp
  note b = b [unfolded this]
  let ?b = "splice_bytes (record_offset f i) r b"
  have "n = of_nat (length rs)" using b(4) stored_records_count [OF rs] by simp
  then have n: "unat n = length rs" using stored_records_length [OF rs] by (simp add: unat_of_nat)
  with b(5) have i: "unat i < length rs" by (simp add: word_less_nat_alt)
  have off: "record_offset f i = 4 + unat i * ?s" by (simp add: record_offset_def BIN_FILE_HEADER_BYTES_def)
  have old: "length b = 4 + length rs * ?s" "from_le_bytes (take 4 b) = file_layout_id f"
      "file_record_size f \<noteq> 0"
    using count_value_Some [OF p b(1), of n] b(4) n by auto
  have "take 4 ?b = take 4 b"
    using splice_other_window [OF b(3), of 0 4] off by simp
  then have c: "count_value db f w' = Inr n"
    using count_value_Some [of db f w' ?p ?b n] path_value_const [OF assms(1), of _ w' w] p b(3,6) old n by simp
  have rec: "record_at f j ?b = rs[unat i := r] ! j" if j: "j < length rs" for j
  proof (cases "j = unat i")
    case True
    with splice_window [OF b(3)] b(2) off i show ?thesis by (simp add: record_at_def)
  next
    case False
    have "Suc j * ?s \<le> unat i * ?s \<or> Suc (unat i) * ?s \<le> j * ?s"
      using False mult_le_mono1 [of "Suc j" "unat i" ?s] mult_le_mono1 [of "Suc (unat i)" j ?s] by linarith
    then have "record_at f j ?b = record_at f j b"
      using splice_other_window [OF b(3), of "4 + j * ?s" ?s] off b(2) by (auto simp: record_at_def)
    with stored_records_nth [OF rs j] b(1) False show ?thesis by (simp add: file_or_empty_def)
  qed
  have "stored_records db f w' = Some (map (\<lambda>j. record_at f j ?b) [0..<length rs])"
    using c n b(6) by (simp add: stored_records_def file_or_empty_def)
  also have "map (\<lambda>j. record_at f j ?b) [0..<length rs] = rs[unat i := r]"
    using rec by (intro nth_equalityI) simp_all
  finally show ?thesis using i b(7) by simp
qed

lemma overwrite_record_live:
  assumes "ready db f wc" and "calm w" and rs: "stored_records db f w = Some rs"
    and "length r = unat (file_record_size f)" and i: "unat i < length rs"
    and small: "length (file_or_empty w (record_path db f)) < 2 ^ 64"
  shows "\<exists>w'. overwrite_record db f i r wc w = (Inr (), w') \<and> calm w'"
proof -
  let ?p = "record_path db f" and ?n = "of_nat (length rs) :: u32"
  have st: "steady db" and auth: "ensure_authorized_path wc (file_relative_path f) = Inr ()"
    using assms(1) by (auto simp: ready_def)
  note p = stored_records_path [OF rs]
  have i': "i < ?n" using i stored_records_length [OF rs] by (simp add: word_less_nat_alt unat_of_nat)
  obtain v where v: "record_count db f w = (Inr ?n, v)" "quiet w v" "calm v"
    using reads_calm [OF record_count_reads [OF st] assms(2), of f] stored_records_count [OF rs] by metis
  obtain b where b: "files w ?p = Some b"
    using i stored_records_missing [OF p] rs by (cases "files w ?p") auto
  then have fit: "record_offset f i + length r \<le> length b"
    using read_value_reads_aux [OF stored_records_count [OF rs] p i' b] assms(4) by simp
  moreover have "length b < 2 ^ 64" using small b by (simp add: file_or_empty_def)
  ultimately obtain w' where w': "overwrite_range ?p (record_offset f i) r v = (Inr (), w')" "calm w'"
    using overwrite_range_calm [OF v(3), of ?p b "record_offset f i" r] v(2) b by (auto simp: quiet_def)
  have "record_offset f i < 2 ^ 64" using fit \<open>length b < 2 ^ 64\<close> by simp
  with w' v(1) i' p auth assms(4) show ?thesis
    by (simp add: overwrite_record_def io_bind_apply file_path_for_binary_record_def file_path_for_run
        store_io_def io_map_err_apply not_le)
qed

end
