(* ===== verification/Store_Laws.thy ===== *)
theory Store_Laws
  imports Record_Batch
begin

text \<open>
  The laws of payload files, of index files, and of reading through a transaction's cache: a
  payload range is read back as written and later appends do not change it, an index lookup
  returns the appended candidates in order, and cached reads agree with direct ones.
\<close>

section \<open>Values of the payload and index reads\<close>

definition layout_value :: "path \<Rightarrow> u32 \<Rightarrow> io_world \<Rightarrow> nat store_result" where
  "layout_value p layout w =
     (case files w p of None \<Rightarrow> Inl MissingData
      | Some b \<Rightarrow> if length b < 4 then Inl Corruption
          else if from_le_bytes (take 4 b) \<noteq> layout then Inl LayoutMismatch else Inr (length b))"

definition payload_value :: "LocalBinaryDbFs \<Rightarrow> BinaryPayloadFileId \<Rightarrow> nat \<Rightarrow> u32 \<Rightarrow> io_world \<Rightarrow> bytes store_result" where
  "payload_value db f off len w =
     res_bind (path_value db (payload_relative_path f) w) (\<lambda>p.
     res_bind (layout_value p (payload_layout_id f) w) (\<lambda>n.
       if off < 4 \<or> \<not> (off + unat len < 2 ^ 64 \<and> off + unat len \<le> n) then Inl MissingData
       else Inr (take (unat len) (drop off (file_or_empty w p)))))"

definition lookup_value :: "LocalBinaryDbFs \<Rightarrow> BinaryIndexId \<Rightarrow> bytes \<Rightarrow> io_world \<Rightarrow> u32 list store_result" where
  "lookup_value db idx key w =
     res_bind (path_value db (index_relative_path idx) w) (\<lambda>p.
       case files w p of None \<Rightarrow> Inr []
       | Some b \<Rightarrow> res_bind (validate_index_file_bytes (index_layout_id idx) b) (\<lambda>_.
           index_candidates_from_file_bytes idx key (Some b)))"

definition key_fits :: "BinaryIndexId \<Rightarrow> bytes \<Rightarrow> bool" where
  "key_fits idx key = (case fixed_key_size idx of None \<Rightarrow> True | Some ks \<Rightarrow> length key = unat ks)"

lemma validate_payload_reads:
  "reads (validate_payload_file_layout p layout) (layout_value p layout)"
  unfolding validate_payload_file_layout_def BIN_FILE_HEADER_BYTES_def
  by (rule reads_weaken, rule reads_bind, rule store_io_reads, rule metadata_len_reads,
      rule reads_case_option, rule reads_if, rule reads_fail, rule reads_bind, rule read_layout_id_reads,
      rule reads_if, rule reads_fail, rule reads_return, rule reads_fail)
    (auto simp: layout_value_def split: option.splits)

lemma layout_value_ok:
  "layout_value p layout w = Inr n \<longleftrightarrow>
     (\<exists>b. files w p = Some b \<and> 4 \<le> length b \<and> from_le_bytes (take 4 b) = layout \<and> n = length b)"
  by (auto simp: layout_value_def split: option.splits)

lemma read_payload_reads: "steady db \<Longrightarrow> reads (read_payload db f off len) (payload_value db f off len)"
  unfolding read_payload_def file_path_for_payload_def BIN_FILE_HEADER_BYTES_def
proof (rule reads_weaken, rule reads_bind, erule file_path_reads, rule reads_bind,
    rule validate_payload_reads, rule reads_if, rule reads_fail, rule store_io_reads, rule read_range_reads)
  fix w
  show "res_bind (path_value db (payload_relative_path f) w) (\<lambda>p.
      res_bind (layout_value p (payload_layout_id f) w) (\<lambda>n.
        if off < 4 \<or> \<not> (off + unat len < 2 ^ 64 \<and> off + unat len \<le> n) then Inl MissingData
        else case case files w p of None \<Rightarrow> Inl NotFound
          | Some b \<Rightarrow> if 0 < unat len \<and> length b < off + unat len then Inl UnexpectedEof
              else Inr (take (unat len) (drop off b))
          of Inl e \<Rightarrow> Inl (file_io_error_to_binary e) | Inr x \<Rightarrow> Inr x)) = payload_value db f off len w"
    unfolding payload_value_def
    by (cases "path_value db (payload_relative_path f) w")
      (auto simp: layout_value_def file_or_empty_def split: option.splits)
qed

lemma validate_index_bytes_ok:
  "validate_index_file_bytes layout b = Inr u \<longleftrightarrow> 4 \<le> length b \<and> from_le_bytes (take 4 b) = layout"
  by (auto simp: validate_index_file_bytes_def res_bind_Inr read_u32_le_ok)

lemma read_index_file_bytes_reads:
  "steady db \<Longrightarrow> reads (read_index_file_bytes db idx) (\<lambda>w.
     res_bind (path_value db (index_relative_path idx) w) (\<lambda>p.
       case files w p of None \<Rightarrow> Inr None
       | Some b \<Rightarrow> res_bind (validate_index_file_bytes (index_layout_id idx) b) (\<lambda>_. Inr (Some b))))"
  unfolding read_index_file_bytes_def file_path_for_index_def
  by (rule reads_weaken, rule reads_bind, erule file_path_reads, rule reads_bind, rule db_metadata_len_reads,
      rule reads_if, rule reads_return, rule reads_bind, rule store_io_reads, rule read_bytes_reads,
      rule reads_bind, rule reads_lift, rule reads_return)
    (auto split: option.splits intro!: arg_cong [where f = "res_bind _"])

lemma lookup_index_reads: "steady db \<Longrightarrow> reads (lookup_index db idx key) (lookup_value db idx key)"
  unfolding lookup_index_def file_path_for_index_def
proof (rule reads_weaken, rule reads_bind, erule file_path_reads, rule reads_bind,
    erule read_index_file_bytes_reads, rule reads_lift)
  fix w
  show "res_bind (path_value db (index_relative_path idx) w) (\<lambda>_.
      res_bind (res_bind (path_value db (index_relative_path idx) w) (\<lambda>p.
        case files w p of None \<Rightarrow> Inr None
        | Some b \<Rightarrow> res_bind (validate_index_file_bytes (index_layout_id idx) b) (\<lambda>_. Inr (Some b))))
      (index_candidates_from_file_bytes idx key)) = lookup_value db idx key w"
    unfolding lookup_value_def
    by (cases "path_value db (index_relative_path idx) w")
      (auto simp: index_candidates_from_file_bytes_def res_bind_def split: option.splits sum.splits)
qed

section \<open>Payload files\<close>

lemma append_payload_ok:
  assumes "append_payload db f bs wc w = (Inr rng, w')"
  shows "\<exists>p. path_value db (payload_relative_path f) w = Inr p \<and>
    files w' p = Some (with_header (payload_layout_id f) (file_or_empty w p) @ bs) \<and> touches p w w' \<and>
    rng = \<lparr>payload_offset = length (with_header (payload_layout_id f) (file_or_empty w p)),
           payload_len = of_nat (length bs)\<rparr> \<and>
    length bs < 2 ^ 32 \<and> (file_or_empty w p = [] \<or> is_ok (layout_value p (payload_layout_id f) w))"
proof -
  from assms obtain p v1 v2 v3 m off u1 u2 where
    p: "path_value db (payload_relative_path f) w = Inr p"
    and v1: "ensure_parent_directory p w = (Inr u1, v1)"
    and v2: "db_metadata_len p v1 = (Inr m, v2)"
    and v3: "(if m = None \<or> m = Some 0 then append_header p (payload_layout_id f)
              else if the m < BIN_FILE_HEADER_BYTES then io_fail Corruption
              else validate_payload_file_layout p (payload_layout_id f)) v2 = (Inr off, v3)"
    and app: "append_at p bs off v3 = (Inr u2, w')"
    and fits: "length bs < 2 ^ 32" and rng: "rng = \<lparr>payload_offset = off, payload_len = of_nat (length bs)\<rparr>"
    unfolding append_payload_def file_path_for_payload_def
    by (clarsimp simp: io_ok file_path_for_run u32_try_from_def simp del: if_split)
      (auto split: if_split_asm)
  note q2 = quiet_trans [OF readsD_quiet [OF ensure_parent_directory_reads v1] readsD_quiet [OF db_metadata_len_reads v2]]
  have meta: "m = map_option length (files v2 p)"
    using readsD_ok [OF db_metadata_len_reads v2] readsD_quiet [OF db_metadata_len_reads v2] by (simp add: quiet_def)
  have chk: "quiet v2 (snd ((if the m < BIN_FILE_HEADER_BYTES then io_fail Corruption
      else validate_payload_file_layout p (payload_layout_id f)) v2))"
    using readsD_quiet [OF validate_payload_reads] by (auto simp: prod_eq_iff)
  note prep = prepare_append_ok [OF v3 meta chk]
  have foe: "file_or_empty v2 p = file_or_empty w p" by (rule file_or_empty_quiet [OF q2])
  have "is_ok (layout_value p (payload_layout_id f) w)" if "file_or_empty w p \<noteq> []"
  proof -
    from prep that foe have "validate_payload_file_layout p (payload_layout_id f) v2 = (Inr off, v3)"
      by (simp split: if_splits)
    from readsD_ok [OF validate_payload_reads this] readsD_inv [OF validate_payload_reads q2] show ?thesis
      by (metis is_ok_simps(1))
  qed
  with prep foe have prep': "files v3 p = Some (with_header (payload_layout_id f) (file_or_empty w p)) \<and> touches p v2 v3 \<and>
      (file_or_empty w p = [] \<or> is_ok (layout_value p (payload_layout_id f) w))" by auto
  then have "file_or_empty v3 p = with_header (payload_layout_id f) (file_or_empty w p)"
    by (simp add: file_or_empty_def)
  with append_at_ok [OF app] rng fits p prep' quiet_touches_trans [OF q2] show ?thesis
    by (auto intro: touches_trans)
qed

lemma payload_roundtrip_value:
  assumes "steady db" and "append_payload db f bs wc w = (Inr rng, w')"
    and "length (file_or_empty w' (path_join (authority_root db) (payload_relative_path f))) < 2 ^ 64"
  shows "payload_value db f (payload_offset rng) (payload_len rng) w' = Inr bs"
proof -
  from append_payload_ok [OF assms(2)] obtain p where p: "path_value db (payload_relative_path f) w = Inr p"
    and new: "files w' p = Some (with_header (payload_layout_id f) (file_or_empty w p) @ bs)"
    and rng: "rng = \<lparr>payload_offset = length (with_header (payload_layout_id f) (file_or_empty w p)),
           payload_len = of_nat (length bs)\<rparr>"
    and fits: "length bs < 2 ^ 32"
    and ok: "file_or_empty w p = [] \<or> is_ok (layout_value p (payload_layout_id f) w)" by auto
  let ?h = "with_header (payload_layout_id f) (file_or_empty w p)"
  have h: "4 \<le> length ?h \<and> from_le_bytes (take 4 ?h) = payload_layout_id f"
    using ok by (auto simp: with_header_def is_ok_iff layout_value_ok file_or_empty_def)
  have "length (?h @ bs) < 2 ^ 64"
    using assms(3) path_value_ok [OF p] new by (simp add: file_or_empty_def)
  moreover have "layout_value p (payload_layout_id f) w' = Inr (length (?h @ bs))"
    using new h by (simp add: layout_value_ok)
  moreover have "unat (of_nat (length bs) :: u32) = length bs" using fits by (simp add: unat_of_nat)
  ultimately show ?thesis
    using p path_value_const [OF assms(1), of _ w' w] rng h new
    by (simp add: payload_value_def file_or_empty_def)
qed

lemma payload_stable_value:
  assumes "steady db" and "append_payload db g bs wc w = (Inr rng, w')"
    and "payload_value db f off len w = Inr x"
  shows "payload_value db f off len w' = Inr x"
proof -
  from append_payload_ok [OF assms(2)] obtain q where q: "path_value db (payload_relative_path g) w = Inr q"
    and new: "files w' q = Some (with_header (payload_layout_id g) (file_or_empty w q) @ bs)"
    and t: "touches q w w'" by auto
  from assms(3) obtain p b where p: "path_value db (payload_relative_path f) w = Inr p"
    and b: "files w p = Some b" "4 \<le> length b" "from_le_bytes (take 4 b) = payload_layout_id f"
    and rng: "4 \<le> off" "off + unat len < 2 ^ 64" "off + unat len \<le> length b"
    and x: "x = take (unat len) (drop off b)"
    by (auto simp: payload_value_def res_bind_Inr layout_value_ok file_or_empty_def split: if_splits)
  have "\<exists>c. files w' p = Some (b @ c)"
  proof (cases "p = q")
    case True
    moreover from b(2) have "b \<noteq> []" by auto
    ultimately show ?thesis using new b(1) by (simp add: with_header_def file_or_empty_def)
  next
    case False
    with t b(1) show ?thesis by (intro exI [of _ "[]"]) (simp add: touches_def)
  qed
  then obtain c where c: "files w' p = Some (b @ c)" by blast
  then have "layout_value p (payload_layout_id f) w' = Inr (length (b @ c))"
    using b by (simp add: layout_value_ok)
  with c rng b(2) x p path_value_const [OF assms(1), of _ w' w] show ?thesis
    by (simp add: payload_value_def file_or_empty_def)
qed

text \<open>
  The opening steps of an append, when nothing fails: the parent directory exists, and the file
  either gets its header or passes its check.
\<close>

lemma prepare_append_live:
  assumes "calm w" and "\<And>m. reads (check m) (v m)"
    and "file_or_empty w p \<noteq> [] \<Longrightarrow> v (length (file_or_empty w p)) w = Inr (length (file_or_empty w p))"
  shows "\<exists>v1 v2 v3 m. ensure_parent_directory p w = (Inr (), v1) \<and> db_metadata_len p v1 = (Inr m, v2) \<and>
    (if m = None \<or> m = Some 0 then append_header p layout else check (the m)) v2 =
      (Inr (length (with_header layout (file_or_empty w p))), v3) \<and> calm v3 \<and>
    file_or_empty v3 p = with_header layout (file_or_empty w p)"
proof -
  obtain v1 where v1: "ensure_parent_directory p w = (Inr (), v1)" "quiet w v1" "calm v1"
    using ensure_parent_directory_reads assms(1) by (rule reads_calm)
  obtain v2 where v2: "db_metadata_len p v1 = (Inr (map_option length (files w p)), v2)" "quiet v1 v2" "calm v2"
    using reads_calm [OF db_metadata_len_reads v1(3), of p] v1(2) by (auto simp: quiet_def)
  let ?m = "map_option length (files w p)"
  note q2 = quiet_trans [OF v1(2) v2(2)]
  have foe: "file_or_empty v2 p = file_or_empty w p" by (rule file_or_empty_quiet [OF q2])
  show ?thesis
  proof (cases "file_or_empty w p = []")
    case True
    then have m: "?m = None \<or> ?m = Some 0" by (auto simp: file_or_empty_def split: option.splits)
    obtain v3 where v3: "append_header p layout v2 = (Inr 4, v3)" "calm v3"
        "files v3 = (files v2)(p \<mapsto> to_le_bytes layout)"
      using append_header_calm [OF v2(3)] foe True by metis
    with v1 v2 True m show ?thesis
      by (intro exI [of _ v1] exI [of _ v2] exI [of _ v3] exI [of _ ?m])
        (auto simp: with_header_def file_or_empty_def)
  next
    case False
    then obtain b where b: "files w p = Some b" "b \<noteq> []" "file_or_empty w p = b"
      by (auto simp: file_or_empty_def split: option.splits)
    obtain v3 where v3: "check (length b) v2 = (Inr (length b), v3)" "quiet v2 v3" "calm v3"
      using reads_calm [OF assms(2) v2(3)] assms(3) [OF False] readsD_inv [OF assms(2) q2] b(3) by metis
    with v1 v2 b foe file_or_empty_quiet [OF v3(2), of p] show ?thesis
      by (intro exI [of _ v1] exI [of _ v2] exI [of _ v3] exI [of _ ?m]) (simp add: with_header_def)
  qed
qed

lemma append_payload_live:
  assumes "calm w" and p: "path_value db (payload_relative_path f) w = Inr p"
    and auth: "ensure_authorized_path wc (payload_relative_path f) = Inr ()"
    and old: "file_or_empty w p = [] \<or> is_ok (layout_value p (payload_layout_id f) w)"
    and new: "length bs < 2 ^ 32" "bs \<noteq> []"
  shows "\<exists>rng w'. append_payload db f bs wc w = (Inr rng, w') \<and> calm w'"
proof -
  let ?h = "with_header (payload_layout_id f) (file_or_empty w p)"
  let ?check = "\<lambda>m. if m < BIN_FILE_HEADER_BYTES then io_fail Corruption
      else validate_payload_file_layout p (payload_layout_id f)"
  let ?val = "\<lambda>m w. if m < BIN_FILE_HEADER_BYTES then Inl Corruption else layout_value p (payload_layout_id f) w"
  have check: "reads (?check m) (?val m)" for m
    by (rule reads_if, rule reads_fail, rule validate_payload_reads)
  have ok: "?val (length (file_or_empty w p)) w = Inr (length (file_or_empty w p))"
    if "file_or_empty w p \<noteq> []"
    using old that by (auto simp: is_ok_iff layout_value_ok file_or_empty_def BIN_FILE_HEADER_BYTES_def)
  from prepare_append_live [where check = ?check and v = ?val, OF assms(1) check ok, where layout = "payload_layout_id f"] obtain v1 v2 v3 m where
    run: "ensure_parent_directory p w = (Inr (), v1)" "db_metadata_len p v1 = (Inr m, v2)"
      "(if m = None \<or> m = Some 0 then append_header p (payload_layout_id f) else ?check (the m)) v2 =
        (Inr (length ?h), v3)" "calm v3" "file_or_empty v3 p = ?h" by blast
  have "length ?h = length (file_or_empty v3 p)" using run(5) by simp
  from append_at_calm [OF run(4) this, of bs] obtain w' where "append_at p bs (length ?h) v3 = (Inr (), w')" "calm w'"
    by metis
  with run new p auth show ?thesis
    by (simp add: append_payload_def file_path_for_payload_def file_path_for_run u32_try_from_def del: if_split)
qed

section \<open>Index files\<close>

lemma index_candidates_body:
  assumes "4 \<le> length b" and "key_fits idx key"
  shows "index_candidates_from_file_bytes idx key (Some b) =
    (case fixed_key_size idx of
       Some ks \<Rightarrow> if (length b - 4) mod (unat ks + 4) \<noteq> 0 then Inl Corruption else index_body_candidates idx key (drop 4 b)
     | None \<Rightarrow> index_body_candidates idx key (drop 4 b))"
  using assms
  by (auto simp: index_candidates_from_file_bytes_def BIN_FILE_HEADER_BYTES_def key_fits_def
      index_body_candidates_def Let_def split: option.splits)

lemma index_candidates_extend:
  assumes "4 \<le> length b" and "key_fits idx key" and "encode_index_entry idx k i = Inr entry"
    and "index_candidates_from_file_bytes idx key (Some b) = Inr xs"
  shows "index_candidates_from_file_bytes idx key (Some (b @ entry)) = Inr (xs @ (if k = key then [i] else []))"
proof -
  note old = index_candidates_body [OF assms(1,2)]
  have new: "4 \<le> length (b @ entry)" using assms(1) by simp
  show ?thesis
  proof (cases "fixed_key_size idx")
    case None
    with old assms(4) index_entry_appended [OF assms(3), of key "drop 4 b" xs] assms(1)
    show ?thesis by (simp add: index_candidates_body [OF new assms(2)])
  next
    case (Some ks)
    then have "length entry = unat ks + 4" by (rule index_entry_length [OF assms(3)])
    then have "length (b @ entry) - 4 = (length b - 4) + (unat ks + 4)" using assms(1) by simp
    then have "(length (b @ entry) - 4) mod (unat ks + 4) = (length b - 4) mod (unat ks + 4)"
      by (simp only: mod_add_self2)
    with Some old assms(4) index_entry_appended [OF assms(3), of key "drop 4 b" xs] assms(1)
    show ?thesis unfolding index_candidates_body [OF new assms(2)] by (simp split: if_splits)
  qed
qed

lemma append_index_candidate_ok:
  assumes "append_index_candidate db idx k i wc w = (Inr u, w')"
  shows "\<exists>p entry. path_value db (index_relative_path idx) w = Inr p \<and>
    encode_index_entry idx k i = Inr entry \<and>
    files w' p = Some (with_header (index_layout_id idx) (file_or_empty w p) @ entry) \<and> touches p w w'"
proof -
  from assms obtain p v1 v2 v3 m off u1 entry where
    p: "path_value db (index_relative_path idx) w = Inr p"
    and v1: "ensure_parent_directory p w = (Inr u1, v1)"
    and v2: "store_io (metadata_len p) v1 = (Inr m, v2)"
    and v3: "(if m = None \<or> m = Some 0 then append_header p (index_layout_id idx)
              else let len = the m in
                io_bind (validate_index_file_layout p (index_layout_id idx) len) (\<lambda>_. io_return len)) v2 = (Inr off, v3)"
    and entry: "encode_index_entry idx k i = Inr entry"
    and app: "append_at p entry off v3 = (Inr u, w')"
    unfolding append_index_candidate_def file_path_for_index_def
    by (clarsimp simp: io_ok file_path_for_run simp del: if_split)
  have v2': "db_metadata_len p v1 = (Inr m, v2)" using v2 by (simp add: db_metadata_len_def)
  note q2 = quiet_trans [OF readsD_quiet [OF ensure_parent_directory_reads v1] readsD_quiet [OF db_metadata_len_reads v2']]
  have meta: "m = map_option length (files v2 p)"
    using readsD_ok [OF db_metadata_len_reads v2'] readsD_quiet [OF db_metadata_len_reads v2'] by (simp add: quiet_def)
  have rd: "reads (let len = the m in io_bind (validate_index_file_layout p (index_layout_id idx) len) (\<lambda>_. io_return len))
     (\<lambda>w. res_bind (res_bind (case (case files w p of None \<Rightarrow> Inl NotFound
         | Some b \<Rightarrow> if 0 < unat (of_nat (min (the m) 4) :: u32) \<and> length b < 0 + unat (of_nat (min (the m) 4) :: u32)
             then Inl UnexpectedEof else Inr (take (unat (of_nat (min (the m) 4) :: u32)) (drop 0 b)))
        of Inl e \<Rightarrow> Inl (file_io_error_to_binary e) | Inr x \<Rightarrow> Inr x)
        (validate_index_file_bytes (index_layout_id idx))) (\<lambda>_. Inr (the m)))"
    unfolding validate_index_file_layout_def Let_def
    by (rule reads_bind, rule reads_bind, rule store_io_reads, rule read_range_reads, rule reads_lift, rule reads_return)
  note prep = prepare_append_ok [OF v3 meta readsD_quiet [OF rd prod.collapse [symmetric]]]
  have foe: "file_or_empty v2 p = file_or_empty w p" by (rule file_or_empty_quiet [OF q2])
  with prep have "file_or_empty v3 p = with_header (index_layout_id idx) (file_or_empty w p)"
    by (simp add: file_or_empty_def)
  with append_at_ok [OF app] have "files w' p = Some (with_header (index_layout_id idx) (file_or_empty w p) @ entry)"
    by simp
  moreover have "touches p w w'"
    using touches_trans [OF quiet_touches_trans [OF q2] append_at_ok(3) [OF app]] prep by blast
  ultimately show ?thesis using p entry by blast
qed

lemma append_index_live:
  assumes "calm w" and p: "path_value db (index_relative_path idx) w = Inr p"
    and auth: "ensure_authorized_path wc (index_relative_path idx) = Inr ()"
    and old: "file_or_empty w p = [] \<or> is_ok (validate_index_file_bytes (index_layout_id idx) (file_or_empty w p))"
    and entry: "encode_index_entry idx k i = Inr entry"
  shows "\<exists>w'. append_index_candidate db idx k i wc w = (Inr (), w') \<and> calm w'"
proof -
  let ?h = "with_header (index_layout_id idx) (file_or_empty w p)"
  let ?check = "\<lambda>m. io_bind (validate_index_file_layout p (index_layout_id idx) m) (\<lambda>_. io_return m)"
  let ?n = "\<lambda>m. unat (of_nat (min m 4) :: u32)"
  let ?val = "\<lambda>m w. res_bind (res_bind (case (case files w p of None \<Rightarrow> Inl NotFound
         | Some b \<Rightarrow> if 0 < ?n m \<and> length b < 0 + ?n m then Inl UnexpectedEof else Inr (take (?n m) (drop 0 b)))
        of Inl e \<Rightarrow> Inl (file_io_error_to_binary e) | Inr x \<Rightarrow> Inr x)
        (validate_index_file_bytes (index_layout_id idx))) (\<lambda>_. Inr m)"
  have check: "reads (?check m) (?val m)" for m
    unfolding validate_index_file_layout_def
    by (rule reads_bind, rule reads_bind, rule store_io_reads, rule read_range_reads, rule reads_lift, rule reads_return)
  have ok: "?val (length (file_or_empty w p)) w = Inr (length (file_or_empty w p))" if ne: "file_or_empty w p \<noteq> []"
  proof -
    from ne obtain b where b: "files w p = Some b" "file_or_empty w p = b"
      by (auto simp: file_or_empty_def split: option.splits)
    with old ne have "4 \<le> length b" "from_le_bytes (take 4 b) = index_layout_id idx"
      by (auto simp: is_ok_iff validate_index_bytes_ok)
    then have n: "?n (length b) = 4" "validate_index_file_bytes (index_layout_id idx) (take 4 b) = Inr ()"
      by (simp_all add: validate_index_bytes_ok)
    with b \<open>4 \<le> length b\<close> show ?thesis by simp
  qed
  from prepare_append_live [where check = ?check and v = ?val, OF assms(1) check ok, where layout = "index_layout_id idx"]
  obtain v1 v2 v3 m where
    run: "ensure_parent_directory p w = (Inr (), v1)" "db_metadata_len p v1 = (Inr m, v2)"
      "(if m = None \<or> m = Some 0 then append_header p (index_layout_id idx) else ?check (the m)) v2 =
        (Inr (length ?h), v3)" "calm v3" "file_or_empty v3 p = ?h" by blast
  have "length ?h = length (file_or_empty v3 p)" using run(5) by simp
  from append_at_calm [OF run(4) this, of entry] obtain w' where "append_at p entry (length ?h) v3 = (Inr (), w')" "calm w'"
    by metis
  with run entry p auth show ?thesis
    unfolding append_index_candidate_def Let_def
    by (simp add: file_path_for_index_def file_path_for_run db_metadata_len_def split del: if_split)
qed

lemma lookup_after_append:
  assumes "steady db" and "append_index_candidate db idx k i wc w = (Inr u, w')" and "key_fits idx key"
    and "lookup_value db idx key w = Inr xs"
  shows "lookup_value db idx key w' = Inr (xs @ (if k = key then [i] else []))"
proof -
  from append_index_candidate_ok [OF assms(2)] obtain p entry where
    p: "path_value db (index_relative_path idx) w = Inr p" and entry: "encode_index_entry idx k i = Inr entry"
    and new: "files w' p = Some (with_header (index_layout_id idx) (file_or_empty w p) @ entry)" by blast
  let ?h = "with_header (index_layout_id idx) (file_or_empty w p)"
  have old: "4 \<le> length ?h \<and> from_le_bytes (take 4 ?h) = index_layout_id idx \<and>
      index_candidates_from_file_bytes idx key (Some ?h) = Inr xs"
  proof (cases "files w p")
    case None
    with assms(4) p show ?thesis
      by (simp add: lookup_value_def file_or_empty_def with_header_def index_candidates_from_file_bytes_def
          BIN_FILE_HEADER_BYTES_def)
  next
    case (Some b)
    with assms(4) p show ?thesis
      by (auto simp: lookup_value_def res_bind_Inr validate_index_bytes_ok file_or_empty_def with_header_def)
  qed
  with index_candidates_extend [OF _ assms(3) entry, of ?h xs]
  have "index_candidates_from_file_bytes idx key (Some (?h @ entry)) = Inr (xs @ (if k = key then [i] else []))"
    by blast
  moreover have "validate_index_file_bytes (index_layout_id idx) (?h @ entry) = Inr ()"
    using old by (simp add: validate_index_bytes_ok)
  ultimately show ?thesis
    using new p path_value_const [OF assms(1), of _ w' w] by (simp add: lookup_value_def)
qed

section \<open>Reading through the cache\<close>

definition record_file_value :: "LocalBinaryDbFs \<Rightarrow> BinaryFileId \<Rightarrow> io_world \<Rightarrow> bytes option store_result" where
  "record_file_value db f w =
     res_bind (path_value db (file_relative_path f) w) (\<lambda>p.
       case files w p of None \<Rightarrow> Inr None
       | Some b \<Rightarrow> res_bind (valid_value p (file_layout_id f) (file_record_size f) w) (\<lambda>_. Inr (Some b)))"

definition index_file_value :: "LocalBinaryDbFs \<Rightarrow> BinaryIndexId \<Rightarrow> io_world \<Rightarrow> bytes option store_result" where
  "index_file_value db idx w =
     res_bind (path_value db (index_relative_path idx) w) (\<lambda>p.
       case files w p of None \<Rightarrow> Inr None
       | Some b \<Rightarrow> res_bind (validate_index_file_bytes (index_layout_id idx) b) (\<lambda>_. Inr (Some b)))"

text \<open>Every entry of a coherent cache is what reading the file now would give.\<close>

definition cache_coherent :: "LocalBinaryDbFs \<Rightarrow> BinaryDbReadCache \<Rightarrow> io_world \<Rightarrow> bool" where
  "cache_coherent db c w \<longleftrightarrow>
     (\<forall>f b. record_files c f = Some b \<longrightarrow> record_file_value db f w = Inr b) \<and>
     (\<forall>idx b. index_files c idx = Some b \<longrightarrow> index_file_value db idx w = Inr b) \<and>
     (\<forall>idx m. parsed_index_candidates c idx = Some m \<longrightarrow>
        (\<exists>b. index_file_value db idx w = Inr b \<and> index_candidate_map_from_file_bytes idx b = Inr m))"

lemma empty_cache_coherent: "cache_coherent db empty_read_cache w"
  by (simp add: cache_coherent_def empty_read_cache_def)

lemma record_file_reads: "steady db \<Longrightarrow> reads (read_record_file_bytes db f) (record_file_value db f)"
  unfolding read_record_file_bytes_def file_path_for_binary_record_def
  by (rule reads_weaken, rule reads_bind, erule file_path_reads, rule reads_bind, rule db_metadata_len_reads,
      rule reads_if, rule reads_return, rule reads_bind, rule ensure_binary_file_valid_reads,
      rule reads_bind, rule store_io_reads, rule read_bytes_reads, rule reads_return)
    (auto simp: record_file_value_def split: option.splits intro!: arg_cong [where f = "res_bind _"])

lemma index_file_reads: "steady db \<Longrightarrow> reads (read_index_file_bytes db idx) (index_file_value db idx)"
  by (rule reads_weaken [OF read_index_file_bytes_reads]) (simp_all add: index_file_value_def)

lemma coherent_quiet: "steady db \<Longrightarrow> quiet w w' \<Longrightarrow> cache_coherent db c w' = cache_coherent db c w"
  by (simp add: cache_coherent_def readsD_inv [OF record_file_reads] readsD_inv [OF index_file_reads])

lemma lookup_value_file: "lookup_value db idx key w = res_bind (index_file_value db idx w) (index_candidates_from_file_bytes idx key)"
  unfolding lookup_value_def index_file_value_def
  by (cases "path_value db (index_relative_path idx) w")
    (auto simp: index_candidates_from_file_bytes_def res_bind_def split: option.splits sum.splits)

lemma record_from_file_value:
  assumes "record_file_value db f w = Inr b" and "count_value db f w = Inr n"
  shows "record_from_file_bytes f i b = read_value db f i w"
proof -
  from assms(1) obtain p where p: "path_value db (file_relative_path f) w = Inr p"
    by (auto simp: record_file_value_def res_bind_Inr)
  show ?thesis
  proof (cases "files w p")
    case None
    with p assms have "b = None" "n = 0" by (auto simp: record_file_value_def count_value_def)
    with p assms(2) show ?thesis by (simp add: record_from_file_bytes_def read_value_def)
  next
    case (Some d)
    then have b: "b = Some d" using assms(1) p by (auto simp: record_file_value_def res_bind_Inr)
    note n = count_value_Some [OF p Some, THEN iffD1, OF assms(2)]
    have "i < n \<longleftrightarrow> unat i * unat (file_record_size f) + unat (file_record_size f) \<le> unat n * unat (file_record_size f)"
      using n mult_le_cancel2 [of "Suc (unat i)" "unat (file_record_size f)" "unat n"]
      by (simp add: word_less_nat_alt unat_gt_0 add.commute Suc_le_eq)
    with n p Some b assms(2) show ?thesis
      by (auto simp: record_from_file_bytes_def read_value_def record_at_def BIN_FILE_HEADER_BYTES_def Let_def
          add.commute not_le)
  qed
qed

lemma map_lookup_agree:
  assumes "index_candidate_map_from_file_bytes idx b = Inr m" and "key_fits idx key"
    and "\<forall>d. b = Some d \<longrightarrow> 4 \<le> length d"
  shows "index_candidates_from_file_bytes idx key b = Inr (candidates_of m key)"
proof (cases "b = None \<or> (\<exists>d. b = Some d \<and> length d = 4)")
  case True
  with assms(1) show ?thesis
    by (auto simp: index_candidate_map_from_file_bytes_def index_candidates_from_file_bytes_def BIN_FILE_HEADER_BYTES_def)
next
  case False
  then obtain d where d: "b = Some d" "length d \<noteq> 4" by (cases b) auto
  with assms(3) have "4 \<le> length d" by simp
  note body = index_candidates_body [OF this assms(2)]
  show ?thesis
  proof (cases "fixed_key_size idx")
    case None
    with assms(1) d have "variable_index_map (drop 4 d) Map.empty = Inr m"
      by (simp add: index_candidate_map_from_file_bytes_def BIN_FILE_HEADER_BYTES_def Let_def)
    then have "variable_index_scan key (drop 4 d) = Inr (candidates_of m key)"
      using variable_map_scan [of "drop 4 d" Map.empty] by auto
    with None body d show ?thesis by (simp add: index_body_candidates_def)
  next
    case (Some ks)
    with assms(1) d have m: "fixed_index_map (unat ks) (stores_record_index_plus_one idx) (drop 4 d) Map.empty = Inr m"
        "(length d - 4) mod (unat ks + 4) = 0"
      by (auto simp: index_candidate_map_from_file_bytes_def BIN_FILE_HEADER_BYTES_def Let_def split: if_splits)
    from fixed_map_scan [OF m(1), of key] Some body d m(2) show ?thesis
      by (simp add: index_body_candidates_def)
  qed
qed

lemma index_file_value_length: "index_file_value db idx w = Inr (Some d) \<Longrightarrow> 4 \<le> length d"
  by (auto simp: index_file_value_def res_bind_Inr validate_index_bytes_ok split: option.splits)

lemma cache_record_file_run:
  assumes "steady db" and "cache_coherent db c w" and "cache_record_file db f (c, w) = (r, (c', w'))"
  shows "quiet w w' \<and> cache_coherent db c' w' \<and>
    (is_ok r \<longrightarrow> (\<exists>b. record_files c' f = Some b \<and> record_file_value db f w = Inr b)) \<and>
    (calm w \<longrightarrow> calm w' \<and> (\<forall>e. r = Inl e \<longrightarrow> record_file_value db f w = Inl e))"
proof (cases "record_files c f")
  case (Some b)
  with assms show ?thesis by (auto simp: cache_record_file_def cache_coherent_def)
next
  case None
  obtain q v where q: "read_record_file_bytes db f w = (q, v)" by fastforce
  note rd = record_file_reads [OF assms(1), of f]
  note qv = readsD_quiet [OF rd q]
  show ?thesis
  proof (cases q)
    case (Inl e)
    with None assms(3) q have "r = Inl e" "c' = c" "w' = v"
      by (auto simp: cache_record_file_def io_bind_apply)
    moreover have "calm w \<Longrightarrow> calm v \<and> record_file_value db f w = Inl e"
      using rd q Inl by (auto simp: reads_def)
    ultimately show ?thesis using qv assms coherent_quiet by simp
  next
    case (Inr b)
    have v: "record_file_value db f w = Inr b" using readsD_ok [OF rd] q Inr by simp
    have "r = Inr ()" "c' = c\<lparr>record_files := (record_files c)(f \<mapsto> b)\<rparr>" "w' = v"
      using None assms(3) q Inr by (auto simp: cache_record_file_def io_bind_apply)
    moreover have "calm w \<Longrightarrow> calm v" using rd q by (auto simp: reads_def)
    moreover have "cache_coherent db (c\<lparr>record_files := (record_files c)(f \<mapsto> b)\<rparr>) w"
      using assms(2) v by (simp add: cache_coherent_def)
    ultimately show ?thesis using qv v coherent_quiet [OF assms(1) qv] by simp
  qed
qed

lemma cache_index_file_run:
  assumes "steady db" and "cache_coherent db c w"
    and "cache_index_file db idx (c, w) = (r, (c', w'))"
  shows "quiet w w' \<and> cache_coherent db c' w' \<and> parsed_index_candidates c' = parsed_index_candidates c \<and>
    (is_ok r \<longrightarrow> (\<exists>b. index_files c' idx = Some b \<and> index_file_value db idx w = Inr b))"
proof (cases "index_files c idx")
  case (Some b)
  with assms show ?thesis by (auto simp: cache_index_file_def cache_coherent_def)
next
  case None
  obtain q v where q: "read_index_file_bytes db idx w = (q, v)" by fastforce
  note rd = index_file_reads [OF assms(1), of idx]
  note qv = readsD_quiet [OF rd q]
  show ?thesis
  proof (cases q)
    case (Inl e)
    with None assms(3) q have "r = Inl e" "c' = c" "w' = v" by (auto simp: cache_index_file_def io_bind_apply)
    then show ?thesis using qv assms coherent_quiet by simp
  next
    case (Inr b)
    have v: "index_file_value db idx w = Inr b" using readsD_ok [OF rd] q Inr by simp
    have "r = Inr ()" "c' = c\<lparr>index_files := (index_files c)(idx \<mapsto> b)\<rparr>" "w' = v"
      using None assms(3) q Inr by (auto simp: cache_index_file_def io_bind_apply)
    moreover have "cache_coherent db (c\<lparr>index_files := (index_files c)(idx \<mapsto> b)\<rparr>) w"
      using assms(2) v by (simp add: cache_coherent_def)
    ultimately show ?thesis using qv v coherent_quiet [OF assms(1) qv] by simp
  qed
qed

lemma cache_parsed_index_run:
  assumes "steady db" and "cache_coherent db c w" and "cache_parsed_index db idx (c, w) = (r, (c', w'))"
  shows "quiet w w' \<and> cache_coherent db c' w' \<and>
    (is_ok r \<longrightarrow> (\<exists>b m. parsed_index_candidates c' idx = Some m \<and> index_file_value db idx w = Inr b \<and>
       index_candidate_map_from_file_bytes idx b = Inr m))"
proof (cases "parsed_index_candidates c idx")
  case (Some m)
  with assms show ?thesis by (auto simp: cache_parsed_index_def cache_coherent_def)
next
  case None
  obtain q d v where q: "cache_index_file db idx (c, w) = (q, (d, v))" by (metis prod.exhaust)
  note l = cache_index_file_run [OF assms(1,2) q]
  have run: "cache_parsed_index db idx (c, w) = (case q of Inl e \<Rightarrow> (Inl e, (d, v))
      | Inr _ \<Rightarrow> io_bind (io_lift (index_candidate_map_from_file_bytes idx
                (case index_files d idx of None \<Rightarrow> None | Some b \<Rightarrow> b))) (\<lambda>parsed.
       io_update (\<lambda>c. c\<lparr>parsed_index_candidates := (parsed_index_candidates c)(idx \<mapsto> parsed)\<rparr>)) (d, v))"
    using None q by (cases q) (simp_all add: cache_parsed_index_def)
  show ?thesis
  proof (cases q)
    case (Inl e)
    with run assms(3) l show ?thesis by auto
  next
    case (Inr u)
    with l obtain b where b: "index_files d idx = Some b" "index_file_value db idx w = Inr b" by auto
    show ?thesis
    proof (cases "index_candidate_map_from_file_bytes idx b")
      case (Inl e)
      with run Inr b assms(3) have "r = Inl e" "c' = d" "w' = v" by auto
      with l show ?thesis by simp
    next
      case m: (Inr m)
      with run Inr b assms(3)
      have "r = Inr ()" "c' = d\<lparr>parsed_index_candidates := (parsed_index_candidates d)(idx \<mapsto> m)\<rparr>" "w' = v" by auto
      moreover have "index_file_value db idx v = Inr b"
        using b(2) readsD_inv [OF index_file_reads [OF assms(1)]] l by metis
      then have "cache_coherent db (d\<lparr>parsed_index_candidates := (parsed_index_candidates d)(idx \<mapsto> m)\<rparr>) v"
        using l m by (simp add: cache_coherent_def)
      ultimately show ?thesis using l b m by simp
    qed
  qed
qed

lemma cached_lookup_value:
  assumes "steady db" and "cache_coherent db c w"
    and "lookup_index_in_read_txn db idx key (c, w) = (r, (c', w'))"
  shows "quiet w w' \<and> cache_coherent db c' w' \<and> (\<forall>xs. r = Inr xs \<longrightarrow> lookup_value db idx key w = Inr xs)"
proof (cases "is_ok (path_value db (index_relative_path idx) w) \<and> key_fits idx key")
  case False
  with assms have "(\<exists>e. r = Inl e) \<and> c' = c \<and> w' = w"
    by (cases "path_value db (index_relative_path idx) w")
      (auto simp: lookup_index_in_read_txn_def file_path_for_index_def io_bind_apply io_over_apply file_path_for_run
        key_fits_def split: option.splits)
  with assms(2) show ?thesis by auto
next
  case True
  obtain q d v where q: "cache_parsed_index db idx (c, w) = (q, (d, v))" by (metis prod.exhaust)
  from True q assms(3) have run: "(r, (c', w')) = (case q of Inl e \<Rightarrow> (Inl e, (d, v))
      | Inr _ \<Rightarrow> (Inr (case parsed_index_candidates d idx of None \<Rightarrow> [] | Some rows \<Rightarrow> candidates_of rows key), (d, v)))"
    by (auto simp: lookup_index_in_read_txn_def file_path_for_index_def io_bind_apply io_over_apply file_path_for_run
        key_fits_def is_ok_iff split: option.splits sum.splits)
  note l = cache_parsed_index_run [OF assms(1,2) q]
  show ?thesis
  proof (cases q)
    case (Inl e)
    with run l show ?thesis by simp
  next
    case (Inr u)
    with l obtain b m where m: "parsed_index_candidates d idx = Some m" "index_file_value db idx w = Inr b"
      "index_candidate_map_from_file_bytes idx b = Inr m" by auto
    have "\<forall>d. b = Some d \<longrightarrow> 4 \<le> length d" using index_file_value_length m(2) by blast
    from map_lookup_agree [OF m(3) _ this, of key] have "lookup_value db idx key w = Inr (candidates_of m key)"
      using m(2) True by (simp add: lookup_value_file)
    with run Inr m l show ?thesis by simp
  qed
qed

lemma cached_read_value:
  assumes "steady db" and "cache_coherent db c w" and "calm w" and "count_value db f w = Inr n"
  shows "\<exists>c' w'. read_record_in_read_txn db f i (c, w) = (read_value db f i w, (c', w')) \<and>
    cache_coherent db c' w' \<and> quiet w w' \<and> calm w'"
proof -
  from assms(4) obtain p where p: "path_value db (file_relative_path f) w = Inr p"
    by (auto simp: count_value_def res_bind_Inr)
  have "\<exists>b. record_file_value db f w = Inr b"
    using assms(4) p by (auto simp: record_file_value_def count_value_def res_bind_Inr split: option.splits)
  then obtain b where b: "record_file_value db f w = Inr b" by blast
  obtain q d v where q: "cache_record_file db f (c, w) = (q, (d, v))" by (metis prod.exhaust)
  note l = cache_record_file_run [OF assms(1,2) q]
  with b assms(3) have ok: "q = Inr ()" "record_files d f = Some b" by (cases q; auto)+
  have "read_record_in_read_txn db f i (c, w) = (read_value db f i w, (d, v))"
    using p q ok record_from_file_value [OF b assms(4), of i]
    by (simp add: read_record_in_read_txn_def file_path_for_binary_record_def file_path_for_run)
  with l assms(3) show ?thesis by blast
qed

section \<open>Refused writes\<close>

lemma unauthorized_error:
  "\<not> (active wc \<and> authorizes_file_family (command_scope wc) (family_for_relative_path p)) \<Longrightarrow>
     ensure_authorized_path wc p = Inl InvalidDomainData"
  by (auto simp: ensure_authorized_path_def ensure_authorized_family_def ensure_active_def)

end
