(* ===== verification/Store_Properties.thy ===== *)
theory Store_Properties
  imports Store_Laws
begin

text \<open>
  The properties of the record, payload and index files of the adapter, each with an instance on
  the store of a small repository.
\<close>

section \<open>A small store\<close>

definition demo_db :: LocalBinaryDbFs where
  "demo_db = new_local_binary_db [RootDir, Normal ''repo'', Normal ''db''] [RootDir, Normal ''repo''] ''local'' Repository"

definition demo_file :: BinaryFileId where
  "demo_file = \<lparr>file_relative_path = [Normal ''task.bin''], file_record_size = 2, file_layout_id = 7\<rparr>"

definition demo_payload :: BinaryPayloadFileId where
  "demo_payload = \<lparr>payload_relative_path = [Normal ''task_payload.bin''], payload_layout_id = 9\<rparr>"

definition demo_index :: BinaryIndexId where
  "demo_index = \<lparr>index_relative_path = [Normal ''blob_id.idx''], index_layout_id = 3,
     fixed_key_size = Some 2, stores_record_index_plus_one = True\<rparr>"

definition demo_write :: BinaryWriteContext where
  "demo_write = \<lparr>transaction_id = 1, command_scope = General, active = True\<rparr>"

definition empty_world :: io_world where
  "empty_world = \<lparr>files = Map.empty, durable = Map.empty,
     lock_cells = (\<lambda>_. \<lparr>lock_holders = [], lock_contents = []\<rparr>), faults = []\<rparr>"

lemma demo_steady: "steady demo_db"
  by (simp add: steady_def demo_db_def new_local_binary_db_def)

lemma demo_paths:
  "path_value demo_db [Normal ''task.bin''] w = Inr [RootDir, Normal ''repo'', Normal ''db'', Normal ''task.bin'']"
  "path_value demo_db [Normal ''task_payload.bin''] w = Inr [RootDir, Normal ''repo'', Normal ''db'', Normal ''task_payload.bin'']"
  "path_value demo_db [Normal ''blob_id.idx''] w = Inr [RootDir, Normal ''repo'', Normal ''db'', Normal ''blob_id.idx'']"
  by (simp_all add: path_value_def admission_value_def ensure_admitted_def demo_db_def new_local_binary_db_def
      validate_store_relative_path_def path_has_root_def path_starts_with_prefix_def schema_value_def
      path_extension_def path_file_name_def name_extension_def path_join_def)

lemma demo_ready: "ready demo_db demo_file demo_write"
  by (simp add: ready_def demo_steady demo_file_def demo_write_def ensure_authorized_path_ok)

lemma demo_calm: "calm empty_world"
  by (simp add: calm_def empty_world_def)

lemma demo_records: "stored_records demo_db demo_file empty_world = Some []"
  by (rule stored_records_missing [of _ _ _ "[RootDir, Normal ''repo'', Normal ''db'', Normal ''task.bin'']"])
    (simp_all add: demo_file_def demo_paths empty_world_def)

section \<open>Record files\<close>

text \<open>
  C2. An append to a record file implements an append to the list of its records: the index it
  returns is the old number of records, the file afterwards decodes to the old records followed by
  the new one, no other file changes, and reading at the returned index gives the record back.
\<close>

theorem append_record_refines:
  assumes "ready db f wc" and "stored_records db f w = Some rs" and "Suc (length rs) < 2 ^ 32"
    and "append_record db f r wc w = (Inr i, w')"
  shows "i = of_nat (length rs) \<and> stored_records db f w' = Some (rs @ [r]) \<and>
    (\<forall>q. q \<noteq> record_path db f \<longrightarrow> files w' q = files w q) \<and>
    (calm w' \<longrightarrow> fst (read_record db f i w') = Inr r)"
proof -
  note v = append_record_view [OF assms]
  have "unat i = length rs" using v(1) assms(3) by (simp add: unat_of_nat)
  moreover have "steady db" using assms(1) by (simp add: ready_def)
  ultimately show ?thesis
    using v read_record_stored(2) [OF _ v(2), of i] by (auto simp: touches_def)
qed

theorem append_record_refines_witness:
  "\<exists>w'. append_record demo_db demo_file [1, 2] demo_write empty_world = (Inr 0, w') \<and>
     stored_records demo_db demo_file w' = Some [[1, 2]]"
proof -
  obtain i w' where run: "append_record demo_db demo_file [1, 2] demo_write empty_world = (Inr i, w')"
    using append_record_live [OF demo_ready demo_calm demo_records, of "[1, 2]"] by (auto simp: demo_file_def)
  from append_record_refines [OF demo_ready demo_records _ run] run show ?thesis by auto
qed

text \<open>
  C16. The batch append of the adapter, one physical write, does what the batch derived by the
  trait from single appends does: when no failure is pending and the batch is aligned and fits,
  both succeed with the same first index and count and leave the same files, in which the old
  records are followed by the records of the batch in order.
\<close>

theorem append_records_equiv_default:
  assumes "ready db f wc" and "calm w" and "stored_records db f w = Some rs"
    and "length bs = k * unat (file_record_size f)" and "length rs + k < 2 ^ 32"
  shows "\<exists>w1 w2.
    append_records db f bs wc w = (Inr (of_nat (length rs), of_nat k), w1) \<and>
    default_append_records (record_count db f) (\<lambda>r. append_record db f r wc) f bs wc w =
      (Inr (of_nat (length rs), of_nat k), w2) \<and>
    files w1 = files w2 \<and>
    stored_records db f w1 = Some (rs @ chunks_exact (unat (file_record_size f)) bs)"
proof -
  have view: "adapter_view db f wc w = Some rs" using assms(1,3) by (simp add: adapter_view_Some)
  have sz: "0 < unat (file_record_size f)" and auth: "ensure_authorized_path wc (file_relative_path f) = Inr ()"
    using assms(1) by (auto simp: ready_def unat_gt_0)
  obtain w1 where w1: "append_records db f bs wc w = (Inr (of_nat (length rs), of_nat k), w1)"
    using append_records_live [OF assms] by blast
  obtain w2 where w2: "default_append_records (record_count db f) (\<lambda>r. append_record db f r wc) f bs wc w =
      (Inr (of_nat (length rs), of_nat k), w2)"
    using records.default_batch_live [OF assms(2) view auth refl sz assms(4,5)] by blast
  note v1 = append_records_view [OF assms(1,3) w1] and v2 = records.default_batch_ok [OF w2 view]
  have "files w1 = files w2"
  proof (cases "bs = []")
    case False
    then have "rs @ chunks_exact (unat (file_record_size f)) bs \<noteq> []"
      using chunks_exact_props(2) [OF sz assms(4)] by auto
    with v1 v2 show ?thesis by (intro touches_same_records) (auto simp: adapter_view_Some)
  next
    case True
    with sz have k: "k = 0" using assms(4) by auto
    have "record_count db f w = (Inr (of_nat (length rs)), w1)"
      using w1 True sz by (auto simp: append_records_def Let_def io_ok u32_try_from_def split: if_splits)
    moreover have "record_count db f w = (Inr (of_nat (length rs)), w2)"
      using w2 True sz by (auto simp: default_append_records_def Let_def io_ok u32_try_from_def chunks_exact.simps split: if_splits)
    ultimately show ?thesis by simp
  qed
  with w1 w2 v1 show ?thesis by blast
qed

theorem append_records_equiv_default_witness:
  "\<exists>w1 w2. append_records demo_db demo_file [1, 2, 3, 4] demo_write empty_world = (Inr (0, 2), w1) \<and>
     default_append_records (record_count demo_db demo_file) (\<lambda>r. append_record demo_db demo_file r demo_write)
       demo_file [1, 2, 3, 4] demo_write empty_world = (Inr (0, 2), w2) \<and> files w1 = files w2 \<and>
     stored_records demo_db demo_file w1 = Some [[1, 2], [3, 4]]"
proof -
  have c: "chunks_exact 2 [1, 2, 3, 4 :: u8] = [[1, 2], [3, 4]]" by (simp add: chunks_exact.simps)
  show ?thesis
    using append_records_equiv_default [OF demo_ready demo_calm demo_records, of "[1, 2, 3, 4]" 2]
    by (simp add: demo_file_def c)
qed

text \<open>
  Overwriting a record replaces exactly that record: it succeeds only for an index that
  exists, and afterwards the file decodes to the old list updated at that index, with every other
  file unchanged.
\<close>

theorem overwrite_record_refines:
  assumes "steady db" and "stored_records db f w = Some rs"
    and "overwrite_record db f i r wc w = (Inr u, w')"
  shows "unat i < length rs \<and> stored_records db f w' = Some (rs[unat i := r]) \<and>
    (\<forall>q. q \<noteq> record_path db f \<longrightarrow> files w' q = files w q)"
  using overwrite_record_view [OF assms] by (simp add: touches_def)

definition demo_world :: io_world where
  "demo_world = empty_world\<lparr>files := (\<lambda>p.
     if p = [RootDir, Normal ''repo'', Normal ''db'', Normal ''task.bin'']
     then Some [7, 0, 0, 0, 1, 2, 3, 4] else None)\<rparr>"

lemma demo_record_path: "record_path demo_db demo_file = [RootDir, Normal ''repo'', Normal ''db'', Normal ''task.bin'']"
  by (simp add: record_path_def demo_db_def new_local_binary_db_def demo_file_def path_join_def
      path_has_root_def path_starts_with_prefix_def)

lemma demo_world_records: "stored_records demo_db demo_file demo_world = Some [[1, 2], [3, 4]]"
proof -
  have f: "files demo_world [RootDir, Normal ''repo'', Normal ''db'', Normal ''task.bin''] = Some [7, 0, 0, 0, 1, 2, 3, 4]"
    by (simp add: demo_world_def)
  have "count_value demo_db demo_file demo_world = Inr 2"
    by (subst count_value_Some [OF _ f]) (simp_all add: demo_file_def demo_paths from_le_bytes_def)
  then show ?thesis
    by (simp add: stored_records_def demo_record_path file_or_empty_def f record_at_def upt_rec)
      (simp add: demo_file_def)
qed

lemma demo_world_calm: "calm demo_world"
  by (simp add: calm_def demo_world_def empty_world_def)

lemma demo_sizes: "unat (file_record_size demo_file) = 2"
  "file_or_empty demo_world (record_path demo_db demo_file) = [7, 0, 0, 0, 1, 2, 3, 4]"
  by (simp_all add: demo_record_path) (simp_all add: demo_file_def demo_world_def file_or_empty_def)

theorem overwrite_record_refines_witness:
  "\<exists>w'. overwrite_record demo_db demo_file 1 [9, 8] demo_write demo_world = (Inr (), w') \<and>
     stored_records demo_db demo_file w' = Some [[1, 2], [9, 8]]"
proof -
  obtain w' where run: "overwrite_record demo_db demo_file 1 [9, 8] demo_write demo_world = (Inr (), w')"
    using overwrite_record_live [OF demo_ready demo_world_calm demo_world_records, of "[9, 8]" 1]
    by (auto simp: demo_sizes)
  from overwrite_record_refines [OF demo_steady demo_world_records run] run show ?thesis by simp
qed

lemma append_at_limit:
  assumes "ready db f wc" and "stored_records db f w = Some rs" and "length rs = 2 ^ 32 - 1"
    and "append_record db f r wc w = (Inr i, w')"
  shows "i = 2 ^ 32 - 1 \<and> (calm w' \<longrightarrow> fst (record_count db f w') = Inl Corruption)"
proof -
  let ?p = "record_path db f" and ?s = "unat (file_record_size f)"
  have st: "steady db" and sz: "0 < ?s" using assms(1) by (auto simp: ready_def unat_gt_0)
  have p: "path_value db (file_relative_path f) v = Inr ?p" for v
    using stored_records_path [OF assms(2)] path_value_const [OF st] by metis
  obtain b where b: "files w ?p = Some b"
    using stored_records_missing [OF p] assms(2,3) by (cases "files w ?p") auto
  note v = stored_records_file [OF assms(2) b]
  then have "b \<noteq> []" and len: "length b = 4 + (2 ^ 32 - 1) * ?s" "from_le_bytes (take 4 b) = file_layout_id f"
    using assms(3) b by (auto simp: valid_value_ok)
  with append_record_ok [OF st assms(4)] p v(3)
  have app: "count_value db f w = Inr i" "files w' ?p = Some (b @ r)" "length r = ?s"
    by (auto simp: with_header_def)
  have "length (b @ r) = 4 + 2 ^ 32 * ?s" using len app(3) by simp
  then have "valid_value ?p (file_layout_id f) (file_record_size f) w' = Inr (2 ^ 32)"
    using app(2) len v(2) sz by (simp add: valid_value_ok unat_gt_0)
  then have "count_value db f w' = Inl Corruption"
    using count_value_eq(2) [OF p] app(2) by simp
  then have "calm w' \<Longrightarrow> fst (record_count db f w') = Inl Corruption"
    using reads_calm [OF record_count_reads [OF st]] by (metis fst_conv)
  moreover have "i = 2 ^ 32 - 1" using app(1) stored_records_count [OF assms(2)] assms(3) by simp
  ultimately show ?thesis by blast
qed

text \<open>
  C39. The counter bound is not guarded on a single append: when a record file already holds the
  largest count that fits 32 bits and no system call fails, appending one more record of the right
  size succeeds, and leaves a file whose record count is refused as corruption from then on.
\<close>

theorem append_record_at_limit_corrupts:
  assumes "ready db f wc" and "calm w" and "stored_records db f w = Some rs" and "length rs = 2 ^ 32 - 1"
    and "length r = unat (file_record_size f)"
  shows "\<exists>w'. append_record db f r wc w = (Inr (2 ^ 32 - 1), w') \<and> fst (record_count db f w') = Inl Corruption"
proof -
  obtain i w' where run: "append_record db f r wc w = (Inr i, w')" "calm w'"
    using append_record_live [OF assms(1-3,5)] by blast
  with append_at_limit [OF assms(1,3,4) run(1)] show ?thesis by blast
qed

definition wide_file :: BinaryFileId where
  "wide_file = \<lparr>file_relative_path = [Normal ''task.bin''], file_record_size = 1, file_layout_id = 7\<rparr>"

definition full_world :: io_world where
  "full_world = empty_world\<lparr>files := (\<lambda>p.
     if p = [RootDir, Normal ''repo'', Normal ''db'', Normal ''task.bin'']
     then Some (to_le_bytes 7 @ replicate (2 ^ 32 - 1) 0) else None)\<rparr>"

theorem append_record_at_limit_corrupts_witness:
  "\<exists>w'. append_record demo_db wide_file [5] demo_write full_world = (Inr (2 ^ 32 - 1), w') \<and>
     fst (record_count demo_db wide_file w') = Inl Corruption"
proof -
  let ?p = "[RootDir, Normal ''repo'', Normal ''db'', Normal ''task.bin'']"
  have rdy: "ready demo_db wide_file demo_write"
    by (simp add: ready_def demo_steady wide_file_def demo_write_def ensure_authorized_path_ok)
  have calm: "calm full_world" by (simp add: calm_def full_world_def empty_world_def)
  define z where "z = replicate (2 ^ 32 - 1) (0 :: u8)"
  have z: "length z = 2 ^ 32 - 1" by (simp only: z_def length_replicate)
  have f: "files full_world ?p = Some (to_le_bytes 7 @ z)"
    by (simp only: full_world_def z_def) simp
  have "count_value demo_db wide_file full_world = Inr (2 ^ 32 - 1)"
    by (subst count_value_Some [OF _ f]) (simp_all add: z wide_file_def demo_paths unsigned_minus_1_eq_mask mask_eq_exp_minus_1)
  then obtain rs where rs: "stored_records demo_db wide_file full_world = Some rs" "length rs = 2 ^ 32 - 1"
    by (simp add: stored_records_def unsigned_minus_1_eq_mask mask_eq_exp_minus_1)
  show ?thesis by (rule append_record_at_limit_corrupts [OF rdy calm rs]) (simp add: wide_file_def)
qed

section \<open>Payload files\<close>

text \<open>
  Payload round trip and stability: the range returned by a payload append reads back the
  appended bytes, and every range that could be read before the append, in this or any other
  payload file, still reads the same bytes.
\<close>

theorem append_payload_roundtrip:
  assumes "steady db" and "append_payload db f bs wc w = (Inr rng, w')" and "calm w'"
    and "length (file_or_empty w' (path_join (authority_root db) (payload_relative_path f))) < 2 ^ 64"
  shows "fst (read_payload db f (payload_offset rng) (payload_len rng) w') = Inr bs \<and>
    (\<forall>g off len x v. read_payload db g off len w = (Inr x, v) \<longrightarrow> fst (read_payload db g off len w') = Inr x)"
proof -
  have read: "fst (read_payload db g off len w') = payload_value db g off len w'" for g off len
    using reads_calm [OF read_payload_reads [OF assms(1)] assms(3)] by (metis fst_conv)
  show ?thesis
    using payload_roundtrip_value [OF assms(1,2,4)] payload_stable_value [OF assms(1,2)]
      readsD_ok [OF read_payload_reads [OF assms(1)]] read by metis
qed

lemma demo_payload_run:
  "\<exists>rng w'. append_payload demo_db demo_payload [5, 6] demo_write empty_world = (Inr rng, w') \<and> calm w'"
proof (rule append_payload_live)
  show "calm empty_world" by (rule demo_calm)
  show "path_value demo_db (payload_relative_path demo_payload) empty_world =
      Inr [RootDir, Normal ''repo'', Normal ''db'', Normal ''task_payload.bin'']"
    by (simp add: demo_payload_def demo_paths)
  show "ensure_authorized_path demo_write (payload_relative_path demo_payload) = Inr ()"
    by (simp add: ensure_authorized_path_ok demo_write_def)
qed (simp_all add: file_or_empty_def empty_world_def)

theorem append_payload_roundtrip_witness:
  "\<exists>rng w'. append_payload demo_db demo_payload [5, 6] demo_write empty_world = (Inr rng, w') \<and>
     fst (read_payload demo_db demo_payload (payload_offset rng) (payload_len rng) w') = Inr [5, 6]"
proof -
  obtain rng w' where run: "append_payload demo_db demo_payload [5, 6] demo_write empty_world = (Inr rng, w')" "calm w'"
    using demo_payload_run by blast
  let ?p = "[RootDir, Normal ''repo'', Normal ''db'', Normal ''task_payload.bin'']"
  have p: "path_join (authority_root demo_db) (payload_relative_path demo_payload) = ?p"
    using path_value_ok [OF demo_paths(2)] by (simp add: demo_payload_def)
  have "files w' ?p = Some (to_le_bytes 9 @ [5, 6])"
    using append_payload_ok [OF run(1)] by (auto simp: demo_payload_def demo_paths with_header_def file_or_empty_def empty_world_def)
  then have "length (file_or_empty w' (path_join (authority_root demo_db) (payload_relative_path demo_payload))) < 2 ^ 64"
    by (simp add: p file_or_empty_def)
  with append_payload_roundtrip [OF demo_steady run] run show ?thesis by blast
qed

section \<open>Index files\<close>

text \<open>
  Appending an index candidate and looking keys up: a key of the right width that had the
  candidates \<open>xs\<close> before has \<open>xs\<close> with the new record index at the end when it is
  the appended key, and \<open>xs\<close> otherwise, for fixed-width and length-prefixed indexes and
  for the plus-one encoding alike.
\<close>

theorem append_index_candidate_lookup:
  assumes "steady db" and "append_index_candidate db idx k i wc w = (Inr u, w')" and "calm w'"
    and "key_fits idx key" and "lookup_index db idx key w = (Inr xs, v)"
  shows "fst (lookup_index db idx key w') = Inr (xs @ (if k = key then [i] else []))"
proof -
  note rd = lookup_index_reads [OF assms(1), of idx key]
  have "lookup_value db idx key w' = Inr (xs @ (if k = key then [i] else []))"
    by (rule lookup_after_append [OF assms(1,2,4) readsD_ok [OF rd assms(5)]])
  then show ?thesis using reads_calm [OF rd assms(3)] by (metis fst_conv)
qed

theorem append_index_candidate_lookup_witness:
  "\<exists>w'. append_index_candidate demo_db demo_index [1, 2] 7 demo_write empty_world = (Inr (), w') \<and>
     fst (lookup_index demo_db demo_index [1, 2] w') = Inr [7]"
proof -
  have "\<exists>w'. append_index_candidate demo_db demo_index [1, 2] 7 demo_write empty_world = (Inr (), w') \<and> calm w'"
  proof (rule append_index_live)
    show "calm empty_world" by (rule demo_calm)
    show "path_value demo_db (index_relative_path demo_index) empty_world =
        Inr [RootDir, Normal ''repo'', Normal ''db'', Normal ''blob_id.idx'']"
      by (simp add: demo_index_def demo_paths)
    show "ensure_authorized_path demo_write (index_relative_path demo_index) = Inr ()"
      by (simp add: ensure_authorized_path_ok demo_write_def)
    show "encode_index_entry demo_index [1, 2] 7 = Inr ([1, 2] @ to_le_bytes 8)"
      by (simp add: encode_index_entry_def demo_index_def)
  qed (simp add: file_or_empty_def empty_world_def)
  then obtain w' where run: "append_index_candidate demo_db demo_index [1, 2] 7 demo_write empty_world = (Inr (), w')" "calm w'"
    by blast
  have "lookup_value demo_db demo_index [1, 2] empty_world = Inr []"
    by (simp add: lookup_value_def demo_index_def demo_paths empty_world_def)
  then obtain v where "lookup_index demo_db demo_index [1, 2] empty_world = (Inr [], v)"
    using reads_calm [OF lookup_index_reads [OF demo_steady] demo_calm] by metis
  from append_index_candidate_lookup [OF demo_steady run _ this] run show ?thesis
    by (auto simp: key_fits_def demo_index_def)
qed

section \<open>Cached reads\<close>

text \<open>
  Reading through a transaction's cache changes nothing: with a cache whose entries agree with
  the store, a cached record read returns exactly what the direct read returns, errors included,
  for every file whose record count fits 32 bits, and the cache stays in agreement with the store.
\<close>

theorem read_record_in_read_txn_agrees:
  assumes "steady db" and "cache_coherent db c w" and "calm w" and "is_ok (count_value db f w)"
  shows "\<exists>c' w'. read_record_in_read_txn db f i (c, w) = (fst (read_record db f i w), (c', w')) \<and>
    cache_coherent db c' w' \<and> files w' = files w"
proof -
  from assms(4) obtain n where n: "count_value db f w = Inr n" by (auto simp: is_ok_iff)
  have "fst (read_record db f i w) = read_value db f i w"
    using reads_calm [OF read_record_reads [OF assms(1)] assms(3)] by (metis fst_conv)
  with cached_read_value [OF assms(1-3) n, of i] show ?thesis by (auto simp: quiet_def)
qed

theorem read_record_in_read_txn_agrees_witness:
  "\<exists>c' w'. read_record_in_read_txn demo_db demo_file 1 (empty_read_cache, demo_world) = (Inr [3, 4], (c', w'))"
proof -
  have "fst (read_record demo_db demo_file 1 demo_world) = Inr [3, 4]"
    using read_record_stored(2) [OF demo_steady demo_world_records demo_world_calm, of 1] by simp
  then show ?thesis
    using read_record_in_read_txn_agrees [OF demo_steady empty_cache_coherent demo_world_calm, of demo_file 1]
      stored_records_count [OF demo_world_records] by auto
qed

text \<open>
  An index lookup through the cache, which parses the whole file into a key map once, returns
  only what the direct scan of the file returns for that key, in the same order, and keeps the
  cache in agreement with the store.
\<close>

theorem lookup_index_in_read_txn_agrees:
  assumes "steady db" and "cache_coherent db c w" and "calm w"
    and "lookup_index_in_read_txn db idx key (c, w) = (Inr xs, (c', w'))"
  shows "fst (lookup_index db idx key w) = Inr xs \<and> cache_coherent db c' w' \<and> files w' = files w"
proof -
  have "fst (lookup_index db idx key w) = lookup_value db idx key w"
    using reads_calm [OF lookup_index_reads [OF assms(1)] assms(3)] by (metis fst_conv)
  with cached_lookup_value [OF assms(1,2,4)] show ?thesis by (auto simp: quiet_def)
qed

definition index_world :: io_world where
  "index_world = empty_world\<lparr>files := (\<lambda>p.
     if p = [RootDir, Normal ''repo'', Normal ''db'', Normal ''blob_id.idx'']
     then Some [3, 0, 0, 0, 1, 2, 8, 0, 0, 0] else None)\<rparr>"

theorem lookup_index_in_read_txn_agrees_witness:
  "\<exists>c' w'. lookup_index_in_read_txn demo_db demo_index [1, 2] (empty_read_cache, index_world) = (Inr [7], (c', w')) \<and>
     fst (lookup_index demo_db demo_index [1, 2] index_world) = Inr [7]"
proof -
  let ?p = "[RootDir, Normal ''repo'', Normal ''db'', Normal ''blob_id.idx'']"
  have calm: "calm index_world" by (simp add: calm_def index_world_def empty_world_def)
  have f: "files index_world ?p = Some [3, 0, 0, 0, 1, 2, 8, 0, 0, 0]" by (simp add: index_world_def)
  have v: "index_file_value demo_db demo_index index_world = Inr (Some [3, 0, 0, 0, 1, 2, 8, 0, 0, 0])"
    by (simp add: index_file_value_def demo_index_def demo_paths f validate_index_file_bytes_def
        read_u32_le_def from_le_bytes_def)
  have m: "index_candidate_map_from_file_bytes demo_index (Some [3, 0, 0, 0, 1, 2, 8, 0, 0, 0]) = Inr [[1, 2] \<mapsto> [7]]"
    by (simp add: index_candidate_map_from_file_bytes_def demo_index_def BIN_FILE_HEADER_BYTES_def
        fixed_index_map.simps read_u32_le_def from_le_bytes_def decode_stored_index_def push_candidate_def)
  obtain w1 where w1: "read_index_file_bytes demo_db demo_index index_world =
      (Inr (Some [3, 0, 0, 0, 1, 2, 8, 0, 0, 0]), w1)"
    using reads_calm [OF index_file_reads [OF demo_steady] calm, of demo_index] v by metis
  have p: "path_value demo_db (index_relative_path demo_index) w = Inr ?p" for w
    by (simp add: demo_index_def demo_paths)
  have "\<exists>c' w'. lookup_index_in_read_txn demo_db demo_index [1, 2] (empty_read_cache, index_world) = (Inr [7], (c', w'))"
    using w1 m by (auto simp: lookup_index_in_read_txn_def cache_parsed_index_def cache_index_file_def
        empty_read_cache_def file_path_for_index_def file_path_for_run p candidates_of_def)
      (simp add: demo_index_def)
  then show ?thesis
    using lookup_index_in_read_txn_agrees [OF demo_steady empty_cache_coherent calm] by blast
qed

section \<open>Refused writes\<close>

text \<open>
  A write capability that is finished, or whose command scope does not cover the family of the
  file, changes nothing: each of the six mutating operations of the adapter fails with the
  invalid-domain error before it touches the store.
\<close>

theorem unauthorized_writes_refused:
  assumes "\<not> (active wc \<and> authorizes_file_family (command_scope wc) (family_for_relative_path p))"
  shows "(file_relative_path f = p \<longrightarrow>
      append_record db f r wc w = (Inl InvalidDomainData, w) \<and>
      append_records db f r wc w = (Inl InvalidDomainData, w) \<and>
      overwrite_record db f i r wc w = (Inl InvalidDomainData, w) \<and>
      overwrite_record_marker db f i m wc w = (Inl InvalidDomainData, w)) \<and>
    (payload_relative_path g = p \<longrightarrow> append_payload db g r wc w = (Inl InvalidDomainData, w)) \<and>
    (index_relative_path h = p \<longrightarrow> append_index_candidate db h r i wc w = (Inl InvalidDomainData, w))"
  by (auto simp: unauthorized_error [OF assms] append_record_def append_records_def overwrite_record_def
      overwrite_record_marker_def append_payload_def append_index_candidate_def)

theorem unauthorized_writes_refused_witness:
  "append_record demo_db demo_file [1, 2] (finish_context demo_write) empty_world = (Inl InvalidDomainData, empty_world) \<and>
   append_payload demo_db demo_payload [1] (demo_write\<lparr>command_scope := PlanSyncLocalPlan\<rparr>) empty_world
     = (Inl InvalidDomainData, empty_world)"
  using unauthorized_writes_refused [of "finish_context demo_write" "[Normal ''task.bin'']" demo_file demo_db "[1, 2]" empty_world]
    unauthorized_writes_refused [where wc = "demo_write\<lparr>command_scope := PlanSyncLocalPlan\<rparr>" and
      p = "[Normal ''task_payload.bin'']" and g = demo_payload and db = demo_db and r = "[1]" and w = empty_world]
  by (simp add: demo_file_def demo_payload_def finish_context_def demo_write_def family_for_relative_path_def
      path_file_name_def starts_with_def)

end
