(* ===== verification/Lock_Sets.thy ===== *)
theory Lock_Sets
  imports Binary_Db_Fs
begin

text \<open>
  The lock sets of write commands and read transactions (\<open>binary_db/locks.rs\<close>).  A command
  takes its lock files in the order of its scope, exclusively and blocking; a reader takes shared
  locks without blocking and retries until a deadline.  A blocked system call does not return,
  which is the outer \<^term>\<open>None\<close> of the writer's acquisition.

  Dropping a guard closes its file: the system then forgets the lock even when the explicit
  unlock before it failed.
\<close>

section \<open>Lock files\<close>

definition lock_root :: "path \<Rightarrow> path" where
  "lock_root authority = path_join (path_join authority [Normal ''.locks'']) [Normal ''binary-db'']"

definition lock_path :: "path \<Rightarrow> string \<Rightarrow> path" where
  "lock_path authority name = path_join (lock_root authority) [Normal name]"

definition lock_paths :: "path \<Rightarrow> BinaryDbCommandScope \<Rightarrow> path list" where
  "lock_paths authority scope = map (lock_path authority) (lock_file_names scope)"

definition forget_holder :: "lock_guard \<Rightarrow> io_world \<Rightarrow> io_world" where
  "forget_holder g w =
     (let p = guard_path g; c = lock_cells w p in
      set_cell p (c\<lparr>lock_holders := remove1 (guard_owner g, guard_mode g) (lock_holders c)\<rparr>) w)"

definition drop_guard :: "lock_guard \<Rightarrow> io_world \<Rightarrow> io_world" where
  "drop_guard g w =
     (case release_guard g w of (Inr _, w') \<Rightarrow> w' | (Inl _, w') \<Rightarrow> forget_holder g w')"

definition drop_guards :: "lock_guard list \<Rightarrow> io_world \<Rightarrow> io_world" where
  "drop_guards gs w = fold drop_guard gs w"

section \<open>Command locks\<close>

record BinaryDbCommandLockSet =
  lock_scope :: BinaryDbCommandScope
  lock_set_paths :: "path list"
  lock_guards :: "lock_guard list"
  lock_released :: bool

definition detached_command_lock :: "BinaryDbCommandScope \<Rightarrow> BinaryDbCommandLockSet" where
  "detached_command_lock scope =
     \<lparr>lock_scope = scope, lock_set_paths = [], lock_guards = [], lock_released = False\<rparr>"

text \<open>
  Giving up on a partly acquired set: every guard is cleared and released, failures ignored, and
  then the guards are dropped in order.
\<close>

definition release_quietly :: "lock_guard \<Rightarrow> io_world \<Rightarrow> lock_guard \<times> io_world" where
  "release_quietly g w = (case release_guard g w of (Inr g', w') \<Rightarrow> (g', w') | (Inl _, w') \<Rightarrow> (g, w'))"

fun clear_and_release_quietly :: "lock_guard list \<Rightarrow> io_world \<Rightarrow> lock_guard list \<times> io_world" where
  "clear_and_release_quietly [] w = ([], w)"
| "clear_and_release_quietly (g # gs) w =
     (case release_quietly g (snd (clear_contents_and_flush g w)) of
        (g', w1) \<Rightarrow> (case clear_and_release_quietly gs w1 of (gs', w2) \<Rightarrow> (g' # gs', w2)))"

fun release_all_quietly :: "lock_guard list \<Rightarrow> io_world \<Rightarrow> lock_guard list \<times> io_world" where
  "release_all_quietly [] w = ([], w)"
| "release_all_quietly (g # gs) w =
     (case release_quietly g w of
        (g', w1) \<Rightarrow> (case release_all_quietly gs w1 of (gs', w2) \<Rightarrow> (g' # gs', w2)))"

definition abandon_guards :: "lock_guard list \<Rightarrow> io_world \<Rightarrow> io_world" where
  "abandon_guards locks w = (case clear_and_release_quietly locks w of (locks', w') \<Rightarrow> drop_guards locks' w')"

text \<open>
  Taking the locks is a loop, and between two of its passes any other process may run.  One pass is
  therefore a function of its own: \<open>lock_turn\<close> creates the lock directory, or takes the next lock
  file and writes its text, or gives everything back and returns.  \<open>lock_run\<close> repeats it without
  interruption, as the call does when nobody else runs.  A request that blocks does not return,
  the outer \<^term>\<open>None\<close>.  The text written into a lock file (scope, process, time, path) is an
  argument.
\<close>

datatype ('s, 'r) turn = Continue 's | Return 'r

datatype lock_phase = OpenLockRoot | NextLock "path list" "lock_guard list"

fun lock_turn ::
    "nat \<Rightarrow> (path \<Rightarrow> bytes) \<Rightarrow> path \<Rightarrow> BinaryDbCommandScope \<Rightarrow> bool \<Rightarrow> lock_phase \<Rightarrow> io_world \<Rightarrow>
     ((lock_phase, BinaryDbCommandLockSet option store_result) turn \<times> io_world) option" where
  "lock_turn owner metadata authority scope nonblocking OpenLockRoot w =
     (case store_io (create_parent_dirs (path_join (lock_root authority) [Normal ''.lock-root''])) w of
        (Inl e, w1) \<Rightarrow> Some (Return (Inl e), w1)
      | (Inr _, w1) \<Rightarrow> Some (Continue (NextLock (lock_paths authority scope) []), w1))"
| "lock_turn owner metadata authority scope nonblocking (NextLock [] locks) w =
     Some (Return (Inr (Some \<lparr>lock_scope = scope, lock_set_paths = map guard_path locks,
                               lock_guards = locks, lock_released = False\<rparr>)), w)"
| "lock_turn owner metadata authority scope nonblocking (NextLock (p # ps) locks) w =
     (case acquire_process_lock owner p Exclusive (if nonblocking then Nonblocking else Blocking) w of
        None \<Rightarrow> None
      | Some (Inl e, w1) \<Rightarrow> Some (Return (Inl (file_io_error_to_binary e)), drop_guards locks w1)
      | Some (Inr None, w1) \<Rightarrow> Some (Return (Inr None), abandon_guards locks w1)
      | Some (Inr (Some guard), w1) \<Rightarrow>
          (case replace_contents_and_flush guard (metadata p) w1 of
             (Inl e, w2) \<Rightarrow>
               (case clear_and_release_quietly locks w2 of
                  (locks', w3) \<Rightarrow>
                    (case release_quietly guard w3 of
                       (guard', w4) \<Rightarrow>
                         Some (Return (Inl (file_io_error_to_binary e)), drop_guards locks' (drop_guard guard' w4))))
           | (Inr _, w2) \<Rightarrow> Some (Continue (NextLock ps (locks @ [guard])), w2)))"

fun lock_turns_left :: "path \<Rightarrow> BinaryDbCommandScope \<Rightarrow> lock_phase \<Rightarrow> nat" where
  "lock_turns_left authority scope OpenLockRoot = Suc (Suc (length (lock_paths authority scope)))"
| "lock_turns_left authority scope (NextLock ps locks) = Suc (length ps)"

lemma lock_turn_less:
  assumes "lock_turn owner metadata authority scope nonblocking s w = Some (Continue s', w')"
  shows "lock_turns_left authority scope s' < lock_turns_left authority scope s"
  using assms
  by (cases "(owner, metadata, authority, scope, nonblocking, s, w)" rule: lock_turn.cases)
    (auto split: prod.splits sum.splits option.splits)

function lock_run ::
    "nat \<Rightarrow> (path \<Rightarrow> bytes) \<Rightarrow> path \<Rightarrow> BinaryDbCommandScope \<Rightarrow> bool \<Rightarrow> lock_phase \<Rightarrow> io_world \<Rightarrow>
     (BinaryDbCommandLockSet option store_result \<times> io_world) option" where
  "lock_run owner metadata authority scope nonblocking s w =
     (case lock_turn owner metadata authority scope nonblocking s w of
        None \<Rightarrow> None
      | Some (Continue s', w') \<Rightarrow> lock_run owner metadata authority scope nonblocking s' w'
      | Some (Return r, w') \<Rightarrow> Some (r, w'))"
  by pat_completeness auto
termination
  by (relation "measure (\<lambda>(owner, metadata, authority, scope, nonblocking, s, w). lock_turns_left authority scope s)")
    (auto intro: lock_turn_less)

declare lock_run.simps [simp del]

definition open_and_lock ::
    "nat \<Rightarrow> (path \<Rightarrow> bytes) \<Rightarrow> path \<Rightarrow> BinaryDbCommandScope \<Rightarrow> bool \<Rightarrow> io_world \<Rightarrow>
     (BinaryDbCommandLockSet option store_result \<times> io_world) option" where
  "open_and_lock owner metadata authority scope nonblocking w =
     lock_run owner metadata authority scope nonblocking OpenLockRoot w"

definition acquire_lock_set ::
    "nat \<Rightarrow> (path \<Rightarrow> bytes) \<Rightarrow> path \<Rightarrow> BinaryDbCommandScope \<Rightarrow> io_world \<Rightarrow>
     (BinaryDbCommandLockSet store_result \<times> io_world) option" where
  "acquire_lock_set owner metadata authority scope w =
     map_option (\<lambda>(r, w'). (res_bind r (\<lambda>lk. case lk of Some l \<Rightarrow> Inr l | None \<Rightarrow> Inl RetryableBusy), w'))
       (open_and_lock owner metadata authority scope False w)"

definition try_acquire_lock_set ::
    "nat \<Rightarrow> (path \<Rightarrow> bytes) \<Rightarrow> path \<Rightarrow> BinaryDbCommandScope \<Rightarrow> io_world \<Rightarrow>
     (BinaryDbCommandLockSet option store_result \<times> io_world) option" where
  "try_acquire_lock_set owner metadata authority scope w = open_and_lock owner metadata authority scope True w"

text \<open>
  Releasing walks the guards in order and stops at the first failure; the guards already
  released keep their flag.
\<close>

fun release_each :: "lock_guard list \<Rightarrow> io_world \<Rightarrow> (unit store_result \<times> lock_guard list) \<times> io_world" where
  "release_each [] w = ((Inr (), []), w)"
| "release_each (g # gs) w =
     (case io_bind (store_io (clear_contents_and_flush g)) (\<lambda>_. store_io (release_guard g)) w of
        (Inl e, w1) \<Rightarrow> ((Inl e, g # gs), w1)
      | (Inr g', w1) \<Rightarrow> (case release_each gs w1 of ((r, gs'), w2) \<Rightarrow> ((r, g' # gs'), w2)))"

definition release_lock_set :: "(BinaryDbCommandLockSet \<times> io_world, BinaryDbErrorKind, unit) io" where
  "release_lock_set = (\<lambda>(l, w).
     if lock_released l then (Inr (), (l, w))
     else case release_each (lock_guards l) w of
            ((Inl e, gs), w') \<Rightarrow> (Inl e, (l\<lparr>lock_guards := gs\<rparr>, w'))
          | ((Inr _, gs), w') \<Rightarrow> (Inr (), (l\<lparr>lock_guards := [], lock_released := True\<rparr>, w')))"

definition drop_lock_set :: "BinaryDbCommandLockSet \<Rightarrow> io_world \<Rightarrow> io_world" where
  "drop_lock_set l w = (case release_lock_set (l, w) of (_, (l', w')) \<Rightarrow> drop_guards (lock_guards l') w')"

section \<open>Read locks\<close>

record BinaryDbReadLockSet =
  read_paths :: "path list"
  read_guards :: "lock_guard list"
  read_released :: bool

definition detached_read_lock :: BinaryDbReadLockSet where
  "detached_read_lock = \<lparr>read_paths = [], read_guards = [], read_released = False\<rparr>"

definition READ_WAIT_INITIAL_DELAY_MS :: nat where "READ_WAIT_INITIAL_DELAY_MS = 25"

definition READ_WAIT_MAX_DELAY_MS :: nat where "READ_WAIT_MAX_DELAY_MS = 250"

definition BINARY_DB_READ_WAIT_MS :: nat where "BINARY_DB_READ_WAIT_MS = 10000"

text \<open>
  The clock and the other processes are an input: one entry for each failed attempt, holding the
  clock reading taken after it and what the other processes do during the sleep that follows.  A
  loop that outlives its input is the outer \<^term>\<open>None\<close>.
\<close>

type_synonym wait_env = "(nat \<times> (io_world \<Rightarrow> io_world)) list"

text \<open>
  One attempt of the reader is \<open>read_turn\<close>: the lock directory, the next lock file, or the refusal of
  the lock file it waits for.  What follows a refusal depends on the clock: before the deadline the
  reader sleeps and doubles its delay up to a bound, after it the locks already taken are given back
  and the call returns busy.
\<close>

definition read_lock_paths :: "path \<Rightarrow> BinaryDbReadScope \<Rightarrow> path list" where
  "read_lock_paths authority scope = map (lock_path authority) (read_lock_file_names scope)"

datatype read_phase = OpenReadRoot | NextRead "path list" "lock_guard list" nat

datatype 'r attempt = Moved "(read_phase, 'r) turn" | Refused "path list" "lock_guard list" nat

fun read_turn ::
    "nat \<Rightarrow> path \<Rightarrow> BinaryDbReadScope \<Rightarrow> read_phase \<Rightarrow> io_world \<Rightarrow>
     (BinaryDbReadLockSet store_result attempt \<times> io_world) option" where
  "read_turn owner authority scope OpenReadRoot w =
     (case store_io (create_parent_dirs (path_join (lock_root authority) [Normal ''.lock-root''])) w of
        (Inl e, w1) \<Rightarrow> Some (Moved (Return (Inl e)), w1)
      | (Inr _, w1) \<Rightarrow>
          Some (Moved (Continue (NextRead (read_lock_paths authority scope) [] READ_WAIT_INITIAL_DELAY_MS)), w1))"
| "read_turn owner authority scope (NextRead [] locks delay) w =
     Some (Moved (Return (Inr \<lparr>read_paths = map guard_path locks, read_guards = locks,
                               read_released = False\<rparr>)), w)"
| "read_turn owner authority scope (NextRead (p # ps) locks delay) w =
     (case acquire_process_lock owner p Shared Nonblocking w of
        None \<Rightarrow> None
      | Some (Inl e, w1) \<Rightarrow> Some (Moved (Return (Inl (file_io_error_to_binary e))), drop_guards locks w1)
      | Some (Inr (Some guard), w1) \<Rightarrow>
          Some (Moved (Continue (NextRead ps (locks @ [guard]) READ_WAIT_INITIAL_DELAY_MS)), w1)
      | Some (Inr None, w1) \<Rightarrow> Some (Refused (p # ps) locks delay, w1))"

definition read_refused ::
    "nat \<Rightarrow> nat \<Rightarrow> path list \<Rightarrow> lock_guard list \<Rightarrow> nat \<Rightarrow> io_world \<Rightarrow>
     (read_phase, BinaryDbReadLockSet store_result) turn \<times> io_world" where
  "read_refused deadline now ps locks delay w =
     (if now < deadline then (Continue (NextRead ps locks (min (2 * delay) READ_WAIT_MAX_DELAY_MS)), w)
      else case release_all_quietly locks w of
             (locks', w') \<Rightarrow> (Return (Inl RetryableBusy), drop_guards locks' w'))"

fun read_turns_left :: "path \<Rightarrow> BinaryDbReadScope \<Rightarrow> read_phase \<Rightarrow> nat" where
  "read_turns_left authority scope OpenReadRoot = Suc (Suc (length (read_lock_paths authority scope)))"
| "read_turns_left authority scope (NextRead ps locks delay) = Suc (length ps)"

lemma read_turn_less:
  assumes "read_turn owner authority scope s w = Some (Moved (Continue s'), w')"
  shows "read_turns_left authority scope s' < read_turns_left authority scope s"
  using assms
  by (cases "(owner, authority, scope, s, w)" rule: read_turn.cases)
    (auto split: prod.splits sum.splits option.splits)

function read_run ::
    "nat \<Rightarrow> nat \<Rightarrow> path \<Rightarrow> BinaryDbReadScope \<Rightarrow> read_phase \<Rightarrow> wait_env \<Rightarrow> io_world \<Rightarrow>
     (BinaryDbReadLockSet store_result \<times> wait_env \<times> io_world) option" where
  "read_run owner deadline authority scope s env w =
     (case read_turn owner authority scope s w of
        None \<Rightarrow> None
      | Some (Moved (Continue s'), w') \<Rightarrow> read_run owner deadline authority scope s' env w'
      | Some (Moved (Return r), w') \<Rightarrow> Some (r, env, w')
      | Some (Refused ps locks delay, w') \<Rightarrow>
          (case env of
             [] \<Rightarrow> None
           | (now, during_sleep) # env' \<Rightarrow>
               (case read_refused deadline now ps locks delay w' of
                  (Continue s', w2) \<Rightarrow> read_run owner deadline authority scope s' env' (during_sleep w2)
                | (Return r, w2) \<Rightarrow> Some (r, env', w2))))"
  by pat_completeness auto
termination
  by (relation "measures [\<lambda>(owner, deadline, authority, scope, s, env, w). length env,
        \<lambda>(owner, deadline, authority, scope, s, env, w). read_turns_left authority scope s]")
    (auto intro: read_turn_less)

declare read_run.simps [simp del]

definition try_acquire_read_lock ::
    "nat \<Rightarrow> nat \<Rightarrow> path \<Rightarrow> BinaryDbReadScope \<Rightarrow> wait_env \<Rightarrow> io_world \<Rightarrow>
     (BinaryDbReadLockSet store_result \<times> wait_env \<times> io_world) option" where
  "try_acquire_read_lock owner deadline authority scope env w =
     read_run owner deadline authority scope OpenReadRoot env w"

fun release_read_each :: "lock_guard list \<Rightarrow> io_world \<Rightarrow> (unit store_result \<times> lock_guard list) \<times> io_world" where
  "release_read_each [] w = ((Inr (), []), w)"
| "release_read_each (g # gs) w =
     (case store_io (release_guard g) w of
        (Inl e, w1) \<Rightarrow> ((Inl e, g # gs), w1)
      | (Inr g', w1) \<Rightarrow> (case release_read_each gs w1 of ((r, gs'), w2) \<Rightarrow> ((r, g' # gs'), w2)))"

definition release_read_lock :: "(BinaryDbReadLockSet \<times> io_world, BinaryDbErrorKind, unit) io" where
  "release_read_lock = (\<lambda>(l, w).
     if read_released l then (Inr (), (l, w))
     else case release_read_each (read_guards l) w of
            ((Inl e, gs), w') \<Rightarrow> (Inl e, (l\<lparr>read_guards := gs\<rparr>, w'))
          | ((Inr _, gs), w') \<Rightarrow> (Inr (), (l\<lparr>read_guards := [], read_released := True\<rparr>, w')))"

definition drop_read_lock :: "BinaryDbReadLockSet \<Rightarrow> io_world \<Rightarrow> io_world" where
  "drop_read_lock l w = (case release_read_lock (l, w) of (_, (l', w')) \<Rightarrow> drop_guards (read_guards l') w')"

section \<open>The adapter's entry points (filesystem\_db.rs)\<close>

definition acquire_command_lock ::
    "LocalBinaryDbFs \<Rightarrow> nat \<Rightarrow> (path \<Rightarrow> bytes) \<Rightarrow> BinaryDbCommandScope \<Rightarrow> io_world \<Rightarrow>
     (BinaryDbCommandLockSet store_result \<times> io_world) option" where
  "acquire_command_lock db owner metadata scope w =
     (case ensure_admitted db w of
        (Inl e, w1) \<Rightarrow> Some (Inl e, w1)
      | (Inr _, w1) \<Rightarrow>
          (case (case durable_directory db of None \<Rightarrow> Inr () | Some d \<Rightarrow> require_writable d w1) of
             Inl e \<Rightarrow> Some (Inl e, w1)
           | Inr _ \<Rightarrow>
               if detached_generation_without_locks db then Some (Inr (detached_command_lock scope), w1)
               else acquire_lock_set owner metadata (authority_root db) scope w1))"

definition acquire_read_lock_for_scope ::
    "LocalBinaryDbFs \<Rightarrow> nat \<Rightarrow> nat \<Rightarrow> BinaryDbReadScope \<Rightarrow> wait_env \<Rightarrow> io_world \<Rightarrow>
     (BinaryDbReadLockSet store_result \<times> wait_env \<times> io_world) option" where
  "acquire_read_lock_for_scope db owner deadline scope env w =
     (case ensure_admitted db w of
        (Inl e, w1) \<Rightarrow> Some (Inl e, env, w1)
      | (Inr _, w1) \<Rightarrow>
          if detached_generation_without_locks db then Some (Inr detached_read_lock, env, w1)
          else try_acquire_read_lock owner deadline (authority_root db) scope env w1)"

end
