(* ===== verification/Lock_Laws.thy ===== *)
theory Lock_Laws
  imports Lock_Sets Store_Laws
begin

text \<open>
  What the lock operations do to the lock table: acquisition is all or nothing, a failed or busy
  acquisition gives back everything it took, and releasing a set removes exactly its own holders.
  The texts of the lock files are outside of these facts.
\<close>

section \<open>The lock table\<close>

definition holders :: "io_world \<Rightarrow> path \<Rightarrow> (nat \<times> FileIoLockMode) list" where
  "holders w p = lock_holders (lock_cells w p)"

lemma holders_set_cell [simp]:
  "holders (set_cell p c w) = (holders w)(p := lock_holders c)"
  by (auto simp: holders_def set_cell_def)

lemma holders_quiet: "quiet w w' \<Longrightarrow> holders w' = holders w"
  by (auto simp: quiet_def holders_def)

definition same_holders :: "io_world \<Rightarrow> io_world \<Rightarrow> bool" where
  "same_holders w w' \<longleftrightarrow> holders w' = holders w"

lemma same_holders_rules: "reflp same_holders" "transp same_holders"
  by (auto simp: reflp_def transp_def same_holders_def)

lemma os_call_holders:
  assumes "\<And>v. holders (snd (eff v)) = holders v" and "\<And>n v. holders (torn n v) = holders v"
    and "os_call eff torn w = (r, w')"
  shows "holders w' = holders w"
proof -
  obtain f v where f: "take_fault w = (f, v)" by fastforce
  have "holders v = holders w" using take_fault_quiet [OF f] by (rule holders_quiet)
  then show ?thesis
    using assms f by (auto simp: os_call_def split: option.splits io_fault.splits) (metis snd_conv)
qed

lemma replace_contents_holders:
  assumes "replace_contents_and_flush g bs w = (r, w')"
  shows "holders w' = holders w"
proof -
  let ?put = "\<lambda>b w. set_cell (guard_path g) ((lock_cells w (guard_path g))\<lparr>lock_contents := b\<rparr>) w"
  have put: "holders (?put b v) = holders v" for b v by (auto simp: holders_def)
  have "io_keeps same_holders (replace_contents_and_flush g bs)"
    unfolding replace_contents_and_flush_def Let_def os_query_def
    by (rule io_keeps_bind [OF same_holders_rules(2)];
        (rule io_keepsI, unfold same_holders_def, erule os_call_holders [rotated 2]; simp add: holders_def fun_eq_iff))
  then show ?thesis using assms by (auto simp: same_holders_def dest: io_keepsD)
qed

lemma clear_contents_holders: "holders (snd (clear_contents_and_flush g w)) = holders w"
  using replace_contents_holders [of g "[]" w] by (metis clear_contents_and_flush_def prod.collapse)

definition without_guard :: "lock_guard \<Rightarrow> (path \<Rightarrow> (nat \<times> FileIoLockMode) list) \<Rightarrow> path \<Rightarrow> (nat \<times> FileIoLockMode) list" where
  "without_guard g h = (if guard_released g then h
     else h(guard_path g := remove1 (guard_owner g, guard_mode g) (h (guard_path g))))"

lemma release_guard_run:
  assumes "release_guard g w = (r, w')"
  shows "(\<exists>e. r = Inl e \<and> \<not> guard_released g \<and> holders w' = holders w) \<or>
    (\<exists>g'. r = Inr g' \<and> guard_released g' \<and> holders w' = without_guard g (holders w))"
proof (cases "guard_released g")
  case True
  with assms show ?thesis by (auto simp: release_guard_def without_guard_def)
next
  case False
  obtain f v where f: "take_fault w = (f, v)" by fastforce
  have h: "holders v = holders w" using take_fault_quiet [OF f] by (rule holders_quiet)
  have c: "lock_holders (lock_cells v p) = holders w p" for p using h by (simp add: holders_def fun_eq_iff)
  show ?thesis
    using assms False f h c
    by (auto simp: release_guard_def io_map_err_apply os_query_def os_call_def Let_def without_guard_def
        split: option.splits io_fault.splits)
qed

lemma forget_holder_holders: "\<not> guard_released g \<Longrightarrow> holders (forget_holder g w) = without_guard g (holders w)"
  by (simp add: forget_holder_def Let_def without_guard_def) (simp add: holders_def)

lemma drop_guard_holders: "holders (drop_guard g w) = without_guard g (holders w)"
proof -
  obtain r w' where r: "release_guard g w = (r, w')" by fastforce
  from release_guard_run [OF r] r show ?thesis
    by (auto simp: drop_guard_def forget_holder_holders)
qed

lemma drop_guards_holders: "holders (drop_guards gs w) = fold without_guard gs (holders w)"
  unfolding drop_guards_def by (induction gs arbitrary: w) (simp_all add: drop_guard_holders)

lemma without_guard_released [simp]: "guard_released g \<Longrightarrow> without_guard g h = h"
  by (simp add: without_guard_def)

lemma release_quietly_run:
  assumes "release_quietly g w = (g', w')"
  shows "without_guard g' (holders w') = without_guard g (holders w) \<and>
    (g' = g \<and> holders w' = holders w \<or> guard_released g' \<and> holders w' = without_guard g (holders w))"
proof -
  obtain r v where r: "release_guard g w = (r, v)" by fastforce
  from release_guard_run [OF r] r assms show ?thesis by (auto simp: release_quietly_def)
qed

lemma acquire_run:
  assumes "acquire_process_lock owner p mode wait w = Some (r, w')"
  shows "(\<exists>g. r = Inr (Some g) \<and> lock_compatible mode (holders w p) \<and>
      g = \<lparr>guard_path = p, guard_owner = owner, guard_mode = mode, guard_released = False\<rparr> \<and>
      holders w' = (holders w)(p := (owner, mode) # holders w p)) \<or>
    ((\<forall>g. r \<noteq> Inr (Some g)) \<and> holders w' = holders w)"
proof -
  obtain q v where q: "io_bind (create_parent_dirs p) (\<lambda>_. os_query (\<lambda>w. (Inr (), w))) w = (q, v)" by fastforce
  have "io_keeps quiet (io_bind (create_parent_dirs p) (\<lambda>_. os_query (\<lambda>w. (Inr (), w))))"
    by (intro io_keeps_quiet_rules create_parent_dirs_quiet) simp
  from io_keepsD [OF this q] have hv: "holders v = holders w" by (rule holders_quiet)
  obtain f u where f: "take_fault v = (f, u)" by fastforce
  have hu: "holders u = holders w" using holders_quiet [OF take_fault_quiet [OF f]] hv by simp
  then have c: "lock_holders (lock_cells u p) = holders w p" by (simp add: holders_def fun_eq_iff)
  show ?thesis
  proof (cases q)
    case (Inl e)
    with assms q hv show ?thesis by (auto simp: acquire_process_lock_def)
  next
    case (Inr x)
    with assms q f hu c show ?thesis
      by (cases f) (auto simp: acquire_process_lock_def Let_def split: if_splits FileIoLockWait.splits)
  qed
qed

section \<open>All or nothing\<close>

definition with_guard :: "lock_guard \<Rightarrow> (path \<Rightarrow> (nat \<times> FileIoLockMode) list) \<Rightarrow> path \<Rightarrow> (nat \<times> FileIoLockMode) list" where
  "with_guard g h = h(guard_path g := (guard_owner g, guard_mode g) # h (guard_path g))"

definition taken :: "lock_guard list \<Rightarrow> (path \<Rightarrow> (nat \<times> FileIoLockMode) list) \<Rightarrow> (path \<Rightarrow> (nat \<times> FileIoLockMode) list) \<Rightarrow> bool" where
  "taken gs h0 h \<longleftrightarrow> distinct (map guard_path gs) \<and> (\<forall>g \<in> set gs. \<not> guard_released g) \<and> h = fold with_guard gs h0"

lemma fold_with_other: "p \<notin> guard_path ` set gs \<Longrightarrow> fold with_guard gs h p = h p"
  by (induction gs arbitrary: h) (auto simp: with_guard_def)

lemma fold_with_upd:
  "p \<notin> guard_path ` set gs \<Longrightarrow> fold with_guard gs (h(p := x)) = (fold with_guard gs h)(p := x)"
proof (induction gs arbitrary: h)
  case (Cons a gs)
  then have "with_guard a (h(p := x)) = (with_guard a h)(p := x)"
    by (auto simp: with_guard_def fun_upd_twist)
  then have "fold with_guard (a # gs) (h(p := x)) = fold with_guard gs ((with_guard a h)(p := x))"
    by (simp only: fold_simps)
  also have "\<dots> = (fold with_guard (a # gs) h)(p := x)"
    by (simp only: fold_simps, rule Cons.IH) (use Cons.prems in simp)
  finally show ?case .
qed simp

lemma taken_given_back:
  "taken gs h0 h \<Longrightarrow> fold without_guard gs h = h0"
proof (induction gs arbitrary: h0 h)
  case Nil
  then show ?case by (simp add: taken_def)
next
  case (Cons g gs)
  then have g: "guard_path g \<notin> guard_path ` set gs" "\<not> guard_released g"
    and h: "h = fold with_guard gs (with_guard g h0)"
    by (auto simp: taken_def)
  have "without_guard g h = fold with_guard gs h0"
    using g fold_with_other [OF g(1), of "with_guard g h0"]
      fold_with_upd [OF g(1), of h0 "(guard_owner g, guard_mode g) # h0 (guard_path g)"]
      fold_with_other [OF g(1), of h0]
    by (simp add: without_guard_def h with_guard_def fun_upd_idem)
  then show ?case using Cons by (simp add: taken_def)
qed

lemma without_guard_commute:
  "guard_path g \<noteq> guard_path k \<Longrightarrow> without_guard g (without_guard k h) = without_guard k (without_guard g h)"
  by (auto simp: without_guard_def fun_upd_twist)

lemma fold_without_out:
  "\<forall>k \<in> set gs. guard_path k \<noteq> guard_path g \<Longrightarrow>
     fold without_guard gs (without_guard g h) = without_guard g (fold without_guard gs h)"
proof (induction gs arbitrary: h)
  case (Cons a gs)
  then show ?case using without_guard_commute [of a g h] by simp
qed simp

lemma release_quietly_path: "release_quietly g w = (g', w') \<Longrightarrow> guard_path g' = guard_path g"
  by (auto simp: release_quietly_def release_guard_def io_map_err_apply os_query_def os_call_def Let_def
      split: prod.splits sum.splits if_splits option.splits io_fault.splits)

lemma quiet_release_keeps_sum:
  assumes "release_quietly g w = (g', w')" and "\<forall>k \<in> set gs. guard_path k \<noteq> guard_path g"
  shows "without_guard g' (fold without_guard gs (holders w')) = without_guard g (fold without_guard gs (holders w))"
proof -
  have gp: "guard_path g' = guard_path g" by (rule release_quietly_path [OF assms(1)])
  from release_quietly_run [OF assms(1)] show ?thesis
    using fold_without_out [OF assms(2)] by auto
qed

lemma clear_and_release_sum:
  assumes "clear_and_release_quietly gs w = (gs', w')" and "distinct (map guard_path gs)"
  shows "fold without_guard gs' (holders w') = fold without_guard gs (holders w) \<and>
    map guard_path gs' = map guard_path gs"
  using assms
proof (induction gs arbitrary: w gs' w')
  case Nil
  then show ?case by simp
next
  case (Cons g gs)
  obtain k w1 where k: "release_quietly g (snd (clear_contents_and_flush g w)) = (k, w1)" by fastforce
  obtain ks w2 where ks: "clear_and_release_quietly gs w1 = (ks, w2)" by fastforce
  from Cons.prems(1) k ks have e: "gs' = k # ks" "w' = w2" by auto
  have d: "\<forall>j \<in> set gs. guard_path j \<noteq> guard_path g" "distinct (map guard_path gs)"
    using Cons.prems(2) by (auto simp: image_iff)
  have kp: "guard_path k = guard_path g" by (rule release_quietly_path [OF k])
  from Cons.IH [OF ks d(2)] have ih: "fold without_guard ks (holders w2) = fold without_guard gs (holders w1)"
      "map guard_path ks = map guard_path gs" by auto
  have "\<forall>j \<in> set ks. guard_path j \<noteq> guard_path k"
    using d(1) ih(2) kp by (metis (mono_tags, lifting) image_iff list.set_map)
  then have "fold without_guard gs' (holders w') = without_guard k (fold without_guard ks (holders w2))"
    by (simp add: e fold_without_out)
  also have "\<dots> = without_guard g (fold without_guard gs (holders w))"
    using quiet_release_keeps_sum [OF k d(1)] by (simp add: ih clear_contents_holders)
  also have "\<dots> = fold without_guard (g # gs) (holders w)" using d(1) by (simp add: fold_without_out)
  finally show ?case using e ih(2) kp by simp
qed

lemma taken_step:
  assumes "taken gs h0 h" and "guard_path g \<notin> guard_path ` set gs" and "\<not> guard_released g"
  shows "taken (gs @ [g]) h0 (with_guard g h)"
  using assms by (auto simp: taken_def)

lemma failed_text_gives_back:
  assumes "clear_and_release_quietly locks w2 = (gs', w3)" and "release_quietly g w3 = (g', w4)"
    and "distinct (map guard_path locks)" and "guard_path g \<notin> guard_path ` set locks" and "\<not> guard_released g"
    and "holders w2 = with_guard g h"
  shows "holders (drop_guards gs' (drop_guard g' w4)) = fold without_guard locks h"
proof -
  note sum = clear_and_release_sum [OF assms(1,3)]
  have other: "\<forall>j \<in> set gs'. guard_path j \<noteq> guard_path g" "\<forall>j \<in> set locks. guard_path j \<noteq> guard_path g"
    using assms(4) sum by (metis image_eqI list.set_map)+
  have "holders (drop_guards gs' (drop_guard g' w4)) = fold without_guard gs' (without_guard g (holders w3))"
    using release_quietly_run [OF assms(2)] by (simp add: drop_guards_holders drop_guard_holders)
  also have "\<dots> = without_guard g (fold without_guard locks (holders w2))"
    using other sum by (simp add: fold_without_out)
  also have "\<dots> = fold without_guard locks (without_guard g (with_guard g h))"
    using other by (simp add: fold_without_out assms(6))
  also have "without_guard g (with_guard g h) = h"
    using assms(5) by (simp add: without_guard_def with_guard_def)
  finally show ?thesis .
qed

text \<open>
  One pass over the next lock file either takes it, which needs the file to be free, or gives back
  all that was taken before and returns without a set.
\<close>

lemma lock_turn_next:
  assumes "lock_turn owner metadata root scope nonblocking (NextLock (p # ps) locks) w = Some (t, w')"
    and "distinct (map guard_path locks @ p # ps)"
  shows "(\<exists>g. t = Continue (NextLock ps (locks @ [g])) \<and> lock_compatible Exclusive (holders w p) \<and>
      g = \<lparr>guard_path = p, guard_owner = owner, guard_mode = Exclusive, guard_released = False\<rparr> \<and>
      holders w' = with_guard g (holders w)) \<or>
    (\<exists>r. t = Return r \<and> (\<forall>l. r \<noteq> Inr (Some l)) \<and> holders w' = fold without_guard locks (holders w))"
proof -
  let ?wait = "if nonblocking then Nonblocking else Blocking"
  obtain q w1 where q: "acquire_process_lock owner p Exclusive ?wait w = Some (q, w1)"
    using assms(1) by (cases "acquire_process_lock owner p Exclusive ?wait w") auto
  have dl: "distinct (map guard_path locks)" and pl: "p \<notin> guard_path ` set locks" using assms(2) by auto
  show ?thesis
  proof (cases "\<exists>g. q = Inr (Some g)")
    case False
    then have h1: "holders w1 = holders w" using acquire_run [OF q] by auto
    obtain gs' w2 where gs': "clear_and_release_quietly locks w1 = (gs', w2)" by fastforce
    from False assms(1) q h1 gs' clear_and_release_sum [OF gs' dl] show ?thesis
      by (auto simp: abandon_guards_def drop_guards_holders split: sum.splits option.splits)
  next
    case True
    then obtain g where g: "q = Inr (Some g)" by blast
    from acquire_run [OF q] g have gd: "guard_path g = p" "\<not> guard_released g" "lock_compatible Exclusive (holders w p)"
        "g = \<lparr>guard_path = p, guard_owner = owner, guard_mode = Exclusive, guard_released = False\<rparr>"
        and h1: "holders w1 = with_guard g (holders w)" by (auto simp: with_guard_def)
    obtain m w2 where m: "replace_contents_and_flush g (metadata p) w1 = (m, w2)" by fastforce
    have h2: "holders w2 = with_guard g (holders w)" using replace_contents_holders [OF m] h1 by simp
    obtain gs' w3 where gs': "clear_and_release_quietly locks w2 = (gs', w3)" by fastforce
    obtain g' w4 where g': "release_quietly g w3 = (g', w4)" by fastforce
    have given: "holders (drop_guards gs' (drop_guard g' w4)) = fold without_guard locks (holders w)"
      by (rule failed_text_gives_back [OF gs' g' dl _ gd(2) h2]) (use pl gd(1) in simp)
    show ?thesis
    proof (cases m)
      case (Inl e)
      with assms(1) q g m gs' g' given show ?thesis by auto
    next
      case (Inr u)
      with assms(1) q g m h2 gd show ?thesis by auto
    qed
  qed
qed

lemma lock_turn_open:
  assumes "lock_turn owner metadata root scope nonblocking OpenLockRoot w = Some (t, w')"
  shows "holders w' = holders w \<and> (t = Continue (NextLock (lock_paths root scope) []) \<or> (\<exists>e. t = Return (Inl e)))"
proof -
  obtain q w1 where q: "store_io (create_parent_dirs (path_join (lock_root root) [Normal ''.lock-root''])) w = (q, w1)"
    by fastforce
  have "holders w1 = holders w"
    using readsD_quiet [OF store_io_reads [OF create_parent_dirs_reads] q] by (rule holders_quiet)
  with assms q show ?thesis by (cases q) auto
qed

lemma lock_run_next:
  assumes "lock_run owner metadata root scope nonblocking (NextLock ps locks) w = Some (r, w')"
    and "taken locks h0 (holders w)" and "distinct (map guard_path locks @ ps)"
    and "\<forall>g \<in> set locks. guard_owner g = owner \<and> guard_mode g = Exclusive"
  shows "case r of Inr (Some l) \<Rightarrow> lock_scope l = scope \<and> lock_set_paths l = map guard_path locks @ ps \<and>
      \<not> lock_released l \<and> map guard_path (lock_guards l) = map guard_path locks @ ps \<and>
      (\<forall>g \<in> set (lock_guards l). guard_owner g = owner \<and> guard_mode g = Exclusive) \<and>
      taken (lock_guards l) h0 (holders w')
    | _ \<Rightarrow> holders w' = h0"
  using assms
proof (induction ps arbitrary: locks w)
  case Nil
  then show ?case by (auto simp: lock_run.simps)
next
  case (Cons p ps)
  obtain t w1 where t: "lock_turn owner metadata root scope nonblocking (NextLock (p # ps) locks) w = Some (t, w1)"
    using Cons.prems(1) by (cases "lock_turn owner metadata root scope nonblocking (NextLock (p # ps) locks) w")
      (auto simp: lock_run.simps)
  note step = lock_turn_next [OF t Cons.prems(3)]
  show ?case
  proof (cases t)
    case (Return q)
    with step Cons.prems(1) t taken_given_back [OF Cons.prems(2)] show ?thesis
      by (auto simp: lock_run.simps [of _ _ _ _ _ "NextLock (p # ps) locks"] split: sum.splits option.splits)
  next
    case (Continue s)
    with step obtain g where g: "s = NextLock ps (locks @ [g])" "holders w1 = with_guard g (holders w)"
        "guard_path g = p" "guard_owner g = owner" "guard_mode g = Exclusive" "\<not> guard_released g" by auto
    have "lock_run owner metadata root scope nonblocking (NextLock ps (locks @ [g])) w1 = Some (r, w')"
      using Cons.prems(1) t Continue g(1) by (simp add: lock_run.simps [of _ _ _ _ _ "NextLock (p # ps) locks"])
    moreover have "taken (locks @ [g]) h0 (holders w1)"
      unfolding g(2) by (rule taken_step [OF Cons.prems(2)]) (use Cons.prems(3) g in auto)
    ultimately show ?thesis using Cons.IH [of "locks @ [g]" w1] Cons.prems(3,4) g
      by (auto split: sum.splits option.splits)
  qed
qed

lemma lock_path_inj: "lock_path root a = lock_path root b \<longleftrightarrow> a = b"
  by (simp add: lock_path_def lock_root_def path_join_def path_has_root_def path_starts_with_prefix_def)

lemma lock_file_names_distinct: "distinct (lock_file_names scope)"
  by (cases scope) (simp_all add: all_write_lock_file_names_def)

lemma lock_paths_distinct: "distinct (lock_paths root scope)"
  by (simp add: lock_paths_def distinct_map lock_file_names_distinct inj_on_def lock_path_inj)

lemma fold_with_same:
  assumes "distinct (map guard_path gs)" and "\<forall>g \<in> set gs. guard_owner g = o1 \<and> guard_mode g = m"
  shows "fold with_guard gs h p = (if p \<in> set (map guard_path gs) then (o1, m) # h p else h p)"
  using assms
proof (induction gs arbitrary: h)
  case (Cons g gs)
  then show ?case by (auto simp: with_guard_def fold_with_other)
qed simp

lemma open_and_lock_run:
  assumes "open_and_lock owner metadata root scope nonblocking w = Some (r, w')"
  shows "case r of Inr (Some l) \<Rightarrow> lock_scope l = scope \<and> lock_set_paths l = lock_paths root scope \<and>
      \<not> lock_released l \<and> map guard_path (lock_guards l) = lock_paths root scope \<and>
      (\<forall>g \<in> set (lock_guards l). guard_owner g = owner \<and> guard_mode g = Exclusive) \<and>
      taken (lock_guards l) (holders w) (holders w')
    | _ \<Rightarrow> holders w' = holders w"
proof -
  obtain t w1 where t: "lock_turn owner metadata root scope nonblocking OpenLockRoot w = Some (t, w1)"
    using assms by (cases "lock_turn owner metadata root scope nonblocking OpenLockRoot w")
      (auto simp: open_and_lock_def lock_run.simps simp del: lock_turn.simps)
  note opened = lock_turn_open [OF t]
  show ?thesis
  proof (cases t)
    case (Return q)
    with opened assms t show ?thesis
      by (auto simp: open_and_lock_def lock_run.simps [of _ _ _ _ _ OpenLockRoot] simp del: lock_turn.simps)
  next
    case (Continue s)
    with opened assms t
    have "lock_run owner metadata root scope nonblocking (NextLock (lock_paths root scope) []) w1 = Some (r, w')"
      by (simp add: open_and_lock_def lock_run.simps [of _ _ _ _ _ OpenLockRoot] del: lock_turn.simps)
    from lock_run_next [OF this, of "holders w"] opened show ?thesis
      by (auto simp: taken_def lock_paths_distinct split: sum.splits option.splits)
  qed
qed

lemma release_each_run:
  assumes "release_each gs w = ((r, gs'), w')" and "distinct (map guard_path gs)"
  shows "fold without_guard gs' (holders w') = fold without_guard gs (holders w) \<and>
    map guard_path gs' = map guard_path gs \<and> (is_ok r \<longrightarrow> (\<forall>g \<in> set gs'. guard_released g))"
  using assms
proof (induction gs arbitrary: r w gs' w')
  case Nil
  then show ?case by auto
next
  case (Cons g gs)
  obtain c w0 where c: "clear_contents_and_flush g w = (c, w0)" by fastforce
  have h0: "holders w0 = holders w" using clear_contents_holders [of g w] c by simp
  obtain q w1 where q: "release_guard g w0 = (q, w1)" by fastforce
  have d: "\<forall>j \<in> set gs. guard_path j \<noteq> guard_path g" "distinct (map guard_path gs)"
    using Cons.prems(2) by (auto simp: image_iff)
  show ?case
  proof (cases "\<exists>g'. c = Inr () \<and> q = Inr g'")
    case False
    then have "gs' = g # gs \<and> \<not> is_ok r \<and> holders w' = holders w"
      using Cons.prems(1) c q h0 release_guard_run [OF q]
      by (cases c; cases q) (auto simp: io_bind_apply store_io_def io_map_err_apply)
    then show ?thesis by simp
  next
    case True
    then obtain g' where g': "c = Inr ()" "q = Inr g'" by blast
    obtain s ks w2 where ks: "release_each gs w1 = ((s, ks), w2)" by (metis prod.exhaust)
    from Cons.prems(1) c q g' ks have e: "gs' = g' # ks" "w' = w2" "r = s"
      by (auto simp: io_bind_apply store_io_def io_map_err_apply)
    have rel: "guard_released g'" "holders w1 = without_guard g (holders w)"
      using release_guard_run [OF q] g'(2) h0 by auto
    have gp: "guard_path g' = guard_path g"
      using release_quietly_path [of g w0 g' w1] q g'(2) by (simp add: release_quietly_def)
    from Cons.IH [OF ks d(2)] rel e gp show ?thesis by (simp add: fold_without_out d(1))
  qed
qed

lemma release_read_each_run:
  assumes "release_read_each gs w = ((r, gs'), w')" and "distinct (map guard_path gs)"
  shows "fold without_guard gs' (holders w') = fold without_guard gs (holders w) \<and>
    map guard_path gs' = map guard_path gs \<and> (is_ok r \<longrightarrow> (\<forall>g \<in> set gs'. guard_released g))"
  using assms
proof (induction gs arbitrary: r w gs' w')
  case Nil
  then show ?case by auto
next
  case (Cons g gs)
  obtain q w1 where q: "release_guard g w = (q, w1)" by fastforce
  have d: "\<forall>j \<in> set gs. guard_path j \<noteq> guard_path g" "distinct (map guard_path gs)"
    using Cons.prems(2) by (auto simp: image_iff)
  show ?case
  proof (cases q)
    case (Inl e)
    with Cons.prems(1) q release_guard_run [OF q] show ?thesis by (auto simp: store_io_def io_map_err_apply)
  next
    case (Inr g')
    obtain s ks w2 where ks: "release_read_each gs w1 = ((s, ks), w2)" by (metis prod.exhaust)
    from Cons.prems(1) q Inr ks have e: "gs' = g' # ks" "w' = w2" "r = s"
      by (auto simp: store_io_def io_map_err_apply)
    have rel: "guard_released g'" "holders w1 = without_guard g (holders w)"
      using release_guard_run [OF q] Inr by auto
    have gp: "guard_path g' = guard_path g"
      using release_quietly_path [of g w g' w1] q Inr by (simp add: release_quietly_def)
    from Cons.IH [OF ks d(2)] rel e gp show ?thesis by (simp add: fold_without_out d(1))
  qed
qed

lemma without_released: "\<forall>g \<in> set gs. guard_released g \<Longrightarrow> fold without_guard gs h = h"
  by (induction gs arbitrary: h) auto

section \<open>Giving a set back\<close>

text \<open>
  What the lock set of a command and that of a reader have in common: a release that fails leaves
  the set with what is still to give back, one that succeeds leaves nothing, and dropping the set
  gives the rest back in any case.
\<close>

locale releasable_set =
  fixes release :: "'l \<times> io_world \<Rightarrow> (BinaryDbErrorKind + unit) \<times> 'l \<times> io_world"
    and drop_set :: "'l \<Rightarrow> io_world \<Rightarrow> io_world"
    and guards :: "'l \<Rightarrow> lock_guard list"
    and released :: "'l \<Rightarrow> bool"
  assumes release_released: "released l \<Longrightarrow> release (l, w) = (Inr (), (l, w))"
    and release_sum: "\<lbrakk>release (l, w) = (r, (l', w')); \<not> released l; distinct (map guard_path (guards l))\<rbrakk> \<Longrightarrow>
      fold without_guard (guards l') (holders w') = fold without_guard (guards l) (holders w) \<and>
      distinct (map guard_path (guards l')) \<and> (released l' \<longrightarrow> guards l' = []) \<and> (is_ok r \<longrightarrow> released l')"
    and drop_set_eq: "drop_set l w = (case release (l, w) of (_, (l', w')) \<Rightarrow> drop_guards (guards l') w')"
begin

lemma drop_sum:
  assumes "\<not> released l" and "distinct (map guard_path (guards l))"
  shows "holders (drop_set l w) = fold without_guard (guards l) (holders w)"
proof -
  obtain r l' w' where r: "release (l, w) = (r, (l', w'))" by (metis prod.exhaust)
  from release_sum [OF r assms] r show ?thesis by (simp add: drop_set_eq drop_guards_holders)
qed

lemma release_ok:
  assumes "release (l, w) = (Inr u, (l', w'))" and "\<not> released l" and "distinct (map guard_path (guards l))"
  shows "holders w' = fold without_guard (guards l) (holders w) \<and> released l' \<and> guards l' = []"
  using release_sum [OF assms] by auto

lemma release_then_drop:
  assumes "release (l, w) = (r, (l', w'))" and "\<not> released l" and "distinct (map guard_path (guards l))"
  shows "holders (drop_set l' w') = fold without_guard (guards l) (holders w)"
proof (cases "released l'")
  case True
  then show ?thesis using release_sum [OF assms] release_released [of l' w']
    by (auto simp: drop_set_eq drop_guards_def)
next
  case False
  with drop_sum [of l' w'] release_sum [OF assms] show ?thesis by simp
qed

end

interpretation command_set: releasable_set release_lock_set drop_lock_set lock_guards lock_released
proof
  fix l w r l' w'
  assume "release_lock_set (l, w) = (r, (l', w'))" and "\<not> lock_released l" and d: "distinct (map guard_path (lock_guards l))"
  moreover obtain q gs v where q: "release_each (lock_guards l) w = ((q, gs), v)" by (metis prod.exhaust)
  moreover note release_each_run [OF q d]
  ultimately show "fold without_guard (lock_guards l') (holders w') = fold without_guard (lock_guards l) (holders w) \<and>
      distinct (map guard_path (lock_guards l')) \<and> (lock_released l' \<longrightarrow> lock_guards l' = []) \<and> (is_ok r \<longrightarrow> lock_released l')"
    by (cases q) (auto simp: release_lock_set_def without_released)
qed (simp_all add: release_lock_set_def drop_lock_set_def)

interpretation read_set: releasable_set release_read_lock drop_read_lock read_guards read_released
proof
  fix l w r l' w'
  assume "release_read_lock (l, w) = (r, (l', w'))" and "\<not> read_released l" and d: "distinct (map guard_path (read_guards l))"
  moreover obtain q gs v where q: "release_read_each (read_guards l) w = ((q, gs), v)" by (metis prod.exhaust)
  moreover note release_read_each_run [OF q d]
  ultimately show "fold without_guard (read_guards l') (holders w') = fold without_guard (read_guards l) (holders w) \<and>
      distinct (map guard_path (read_guards l')) \<and> (read_released l' \<longrightarrow> read_guards l' = []) \<and> (is_ok r \<longrightarrow> read_released l')"
    by (cases q) (auto simp: release_read_lock_def without_released)
qed (simp_all add: release_read_lock_def drop_read_lock_def)

section \<open>A reader's attempt\<close>

lemma read_lock_file_names_distinct: "distinct (read_lock_file_names scope)"
  by (cases scope) (simp_all add: all_write_lock_file_names_def)

lemma read_lock_paths_distinct: "distinct (read_lock_paths root scope)"
  by (simp add: read_lock_paths_def distinct_map read_lock_file_names_distinct inj_on_def lock_path_inj)

lemma shared_never_blocks: "acquire_process_lock i p m Nonblocking w \<noteq> None"
  by (auto simp: acquire_process_lock_def Let_def split: prod.splits sum.splits option.splits)

lemma release_all_sum:
  assumes "release_all_quietly gs w = (gs', w')" and "distinct (map guard_path gs)"
  shows "fold without_guard gs' (holders w') = fold without_guard gs (holders w) \<and>
    map guard_path gs' = map guard_path gs"
  using assms
proof (induction gs arbitrary: w gs' w')
  case Nil
  then show ?case by simp
next
  case (Cons g gs)
  obtain k w1 where k: "release_quietly g w = (k, w1)" by fastforce
  obtain ks w2 where ks: "release_all_quietly gs w1 = (ks, w2)" by fastforce
  from Cons.prems(1) k ks have e: "gs' = k # ks" "w' = w2" by auto
  have d: "\<forall>j \<in> set gs. guard_path j \<noteq> guard_path g" "distinct (map guard_path gs)"
    using Cons.prems(2) by (auto simp: image_iff)
  have kp: "guard_path k = guard_path g" by (rule release_quietly_path [OF k])
  from Cons.IH [OF ks d(2)] have ih: "fold without_guard ks (holders w2) = fold without_guard gs (holders w1)"
      "map guard_path ks = map guard_path gs" by auto
  have "\<forall>j \<in> set ks. guard_path j \<noteq> guard_path k"
    using d(1) ih(2) kp by (metis (mono_tags, lifting) image_iff list.set_map)
  then have "fold without_guard gs' (holders w') = without_guard k (fold without_guard ks (holders w2))"
    by (simp add: e fold_without_out)
  also have "\<dots> = fold without_guard (g # gs) (holders w)"
    using quiet_release_keeps_sum [OF k d(1)] d(1) by (simp add: ih fold_without_out)
  finally show ?case using e ih(2) kp by simp
qed

lemma read_refused_run:
  assumes "read_refused deadline now ps locks delay w = (t, w')" and "distinct (map guard_path locks)"
  shows "(\<exists>d. t = Continue (NextRead ps locks d) \<and> w' = w \<and> now < deadline) \<or>
    (t = Return (Inl RetryableBusy) \<and> deadline \<le> now \<and> holders w' = fold without_guard locks (holders w))"
proof -
  obtain gs' v where gs': "release_all_quietly locks w = (gs', v)" by fastforce
  from release_all_sum [OF gs' assms(2)] gs' assms(1) show ?thesis
    by (auto simp: read_refused_def drop_guards_holders split: if_splits)
qed

lemma read_turn_open:
  assumes "read_turn owner root scope OpenReadRoot w = Some (a, w')"
  shows "holders w' = holders w \<and>
    (a = Moved (Continue (NextRead (read_lock_paths root scope) [] READ_WAIT_INITIAL_DELAY_MS)) \<or> (\<exists>e. a = Moved (Return (Inl e))))"
proof -
  obtain q w1 where q: "store_io (create_parent_dirs (path_join (lock_root root) [Normal ''.lock-root''])) w = (q, w1)"
    by fastforce
  have "holders w1 = holders w"
    using readsD_quiet [OF store_io_reads [OF create_parent_dirs_reads] q] by (rule holders_quiet)
  with assms q show ?thesis by (cases q) auto
qed

lemma read_turn_next:
  assumes "read_turn owner root scope (NextRead (p # ps) locks delay) w = Some (a, w')"
  shows "(\<exists>g d. a = Moved (Continue (NextRead ps (locks @ [g]) d)) \<and> lock_compatible Shared (holders w p) \<and>
      g = \<lparr>guard_path = p, guard_owner = owner, guard_mode = Shared, guard_released = False\<rparr> \<and>
      holders w' = with_guard g (holders w)) \<or>
    (\<exists>e. a = Moved (Return (Inl e)) \<and> holders w' = fold without_guard locks (holders w)) \<or>
    (a = Refused (p # ps) locks delay \<and> holders w' = holders w)"
proof -
  obtain q w1 where q: "acquire_process_lock owner p Shared Nonblocking w = Some (q, w1)"
    using shared_never_blocks by (metis option.exhaust prod.exhaust)
  from acquire_run [OF q] q assms show ?thesis
    by (auto simp: with_guard_def drop_guards_holders split: sum.splits option.splits)
qed

end
