(* ===== verification/Lock_Protocol.thy ===== *)
theory Lock_Protocol
  imports Lock_Laws
begin

text \<open>
  Several processes that take, hold and give back their lock sets over one shared lock table.  A
  step of the system is a step of one process, and what a process does in it is the code of
  \<open>Lock_Sets\<close> itself: one pass of the loop of \<open>open_and_lock\<close> (\<open>lock_turn\<close>), one attempt of the reader's
  loop (\<open>read_turn\<close>, and \<open>read_refused\<close> with any reading of the clock), or the release or the drop of
  the lock set it got.  Each of these makes at most one request for a lock, so the processes
  interleave at every request.  The text written into the lock files, the faults of the system
  calls and the clock are arbitrary.

  Shown by rule induction over the steps: the table records exactly who holds what, and no lock
  file has an exclusive holder beside another holder.  From the order of the lock names: the
  processes never block each other for ever.
\<close>

section \<open>Sessions and steps\<close>

datatype session = Writer BinaryDbCommandScope bool | Reader BinaryDbReadScope nat

datatype phase = WriterTakes lock_phase | ReaderTakes read_phase
  | WriterIn BinaryDbCommandLockSet | ReaderIn BinaryDbReadLockSet | GaveUp | Finished

fun first_phase :: "session \<Rightarrow> phase" where
  "first_phase (Writer scope nonblocking) = WriterTakes OpenLockRoot"
| "first_phase (Reader scope deadline) = ReaderTakes OpenReadRoot"

fun after_lock_turn :: "(lock_phase, BinaryDbCommandLockSet option store_result) turn \<Rightarrow> phase" where
  "after_lock_turn (Continue s) = WriterTakes s"
| "after_lock_turn (Return (Inr (Some l))) = WriterIn l"
| "after_lock_turn (Return (Inr None)) = GaveUp"
| "after_lock_turn (Return (Inl e)) = GaveUp"

fun after_read_turn :: "(read_phase, BinaryDbReadLockSet store_result) turn \<Rightarrow> phase" where
  "after_read_turn (Continue s) = ReaderTakes s"
| "after_read_turn (Return (Inr l)) = ReaderIn l"
| "after_read_turn (Return (Inl e)) = GaveUp"

text \<open>
  A process that is inside leaves by releasing its set, whether the release succeeds or not, and the
  set is dropped afterwards; or it leaves by dropping the set at once.
\<close>

inductive session_step :: "path \<Rightarrow> nat \<Rightarrow> session \<Rightarrow> phase \<times> io_world \<Rightarrow> phase \<times> io_world \<Rightarrow> bool" for root i where
  writer_turn: "lock_turn i metadata root scope nonblocking s w = Some (t, w') \<Longrightarrow>
     session_step root i (Writer scope nonblocking) (WriterTakes s, w) (after_lock_turn t, w')"
| reader_turn: "read_turn i root scope s w = Some (Moved t, w') \<Longrightarrow>
     session_step root i (Reader scope deadline) (ReaderTakes s, w) (after_read_turn t, w')"
| reader_refused: "\<lbrakk>read_turn i root scope s w = Some (Refused ps locks delay, w1);
       read_refused deadline now ps locks delay w1 = (t, w')\<rbrakk> \<Longrightarrow>
     session_step root i (Reader scope deadline) (ReaderTakes s, w) (after_read_turn t, w')"
| writer_release: "release_lock_set (l, w) = (r, (l', w')) \<Longrightarrow>
     session_step root i (Writer scope nonblocking) (WriterIn l, w) (Finished, drop_lock_set l' w')"
| writer_drop: "session_step root i (Writer scope nonblocking) (WriterIn l, w) (Finished, drop_lock_set l w)"
| reader_release: "release_read_lock (l, w) = (r, (l', w')) \<Longrightarrow>
     session_step root i (Reader scope deadline) (ReaderIn l, w) (Finished, drop_read_lock l' w')"
| reader_drop: "session_step root i (Reader scope deadline) (ReaderIn l, w) (Finished, drop_read_lock l w)"

inductive lock_step :: "path \<Rightarrow> session list \<Rightarrow> phase list \<times> io_world \<Rightarrow> phase list \<times> io_world \<Rightarrow> bool"
  for root ss where
  "\<lbrakk>i < length ss; session_step root i (ss ! i) (phs ! i, w) (ph, w')\<rbrakk>
    \<Longrightarrow> lock_step root ss (phs, w) (phs[i := ph], w')"

inductive_cases lock_stepE: "lock_step root ss s s'"

text \<open>
  Between two steps anything else in the world may change, as the processes inside write their
  files and system calls start or stop to fail; only the locks are left alone.
\<close>

inductive reachable :: "path \<Rightarrow> session list \<Rightarrow> phase list \<times> io_world \<Rightarrow> bool" for root ss where
  start: "\<forall>p. holders w p = [] \<Longrightarrow> reachable root ss (map first_phase ss, w)"
| step: "\<lbrakk>reachable root ss s; lock_step root ss s s'\<rbrakk> \<Longrightarrow> reachable root ss s'"
| elsewhere: "\<lbrakk>reachable root ss (phs, w); holders w' = holders w\<rbrakk> \<Longrightarrow> reachable root ss (phs, w')"

section \<open>What a process holds\<close>

fun session_mode :: "session \<Rightarrow> FileIoLockMode" where
  "session_mode (Writer _ _) = Exclusive"
| "session_mode (Reader _ _) = Shared"

fun held_guards :: "phase \<Rightarrow> lock_guard list" where
  "held_guards (WriterTakes (NextLock ps gs)) = gs"
| "held_guards (ReaderTakes (NextRead ps gs d)) = gs"
| "held_guards (WriterIn l) = lock_guards l"
| "held_guards (ReaderIn l) = read_guards l"
| "held_guards _ = []"

definition guards_of :: "nat \<Rightarrow> FileIoLockMode \<Rightarrow> lock_guard list \<Rightarrow> bool" where
  "guards_of i m gs \<longleftrightarrow> (\<forall>g \<in> set gs. guard_owner g = i \<and> guard_mode g = m \<and> \<not> guard_released g)"

fun phase_ok :: "path \<Rightarrow> nat \<Rightarrow> session \<Rightarrow> phase \<Rightarrow> bool" where
  "phase_ok root i (Writer a nb) (WriterTakes OpenLockRoot) = True"
| "phase_ok root i (Writer a nb) (WriterTakes (NextLock ps gs)) =
     (guards_of i Exclusive gs \<and> map guard_path gs @ ps = lock_paths root a)"
| "phase_ok root i (Writer a nb) (WriterIn l) =
     (\<not> lock_released l \<and> guards_of i Exclusive (lock_guards l) \<and> map guard_path (lock_guards l) = lock_paths root a)"
| "phase_ok root i (Reader r dl) (ReaderTakes OpenReadRoot) = True"
| "phase_ok root i (Reader r dl) (ReaderTakes (NextRead ps gs d)) =
     (guards_of i Shared gs \<and> map guard_path gs @ ps = read_lock_paths root r)"
| "phase_ok root i (Reader r dl) (ReaderIn l) =
     (\<not> read_released l \<and> guards_of i Shared (read_guards l) \<and> map guard_path (read_guards l) = read_lock_paths root r)"
| "phase_ok root i s GaveUp = True"
| "phase_ok root i s Finished = True"
| "phase_ok root i s ph = False"

definition held_paths :: "phase \<Rightarrow> path list" where
  "held_paths ph = map guard_path (held_guards ph)"

lemma held_paths_simps [simp]:
  "held_paths GaveUp = []" "held_paths Finished = []" "held_paths (first_phase s) = []"
  by (cases s; simp add: held_paths_def)+

lemma distinct_prefix: "xs @ ys = zs \<Longrightarrow> distinct zs \<Longrightarrow> distinct xs"
  by auto

lemma phase_ok_held:
  assumes "phase_ok root i s ph"
  shows "guards_of i (session_mode s) (held_guards ph) \<and> distinct (held_paths ph)"
  using assms
  by (cases "(root, i, s, ph)" rule: phase_ok.cases)
    (auto simp: guards_of_def held_paths_def lock_paths_distinct read_lock_paths_distinct
       dest!: distinct_prefix [OF _ lock_paths_distinct] distinct_prefix [OF _ read_lock_paths_distinct])

lemma fold_without_same:
  assumes "guards_of i m gs" and "distinct (map guard_path gs)"
  shows "fold without_guard gs h p = (if p \<in> set (map guard_path gs) then remove1 (i, m) (h p) else h p)"
  using assms
proof (induction gs arbitrary: h)
  case (Cons g gs)
  then have "fold without_guard gs (without_guard g h) p =
      (if p \<in> set (map guard_path gs) then remove1 (i, m) (without_guard g h p) else without_guard g h p)"
    by (simp add: guards_of_def)
  moreover have "without_guard g h p = (if p = guard_path g then remove1 (i, m) (h p) else h p)"
    using Cons.prems by (simp add: without_guard_def guards_of_def)
  ultimately show ?case using Cons.prems(2) by auto
qed simp

section \<open>The effect of a step\<close>

text \<open>
  A step keeps the locks of its process, takes one more that was free for it, or gives all of them
  back.
\<close>

definition step_effect :: "session \<Rightarrow> nat \<Rightarrow> phase \<Rightarrow> io_world \<Rightarrow> phase \<Rightarrow> io_world \<Rightarrow> bool" where
  "step_effect s i ph w ph' w' \<longleftrightarrow>
     held_guards ph' = held_guards ph \<and> holders w' = holders w \<or>
     (\<exists>g. held_guards ph' = held_guards ph @ [g] \<and> guard_path g \<notin> set (held_paths ph) \<and>
        guard_owner g = i \<and> guard_mode g = session_mode s \<and>
        lock_compatible (session_mode s) (holders w (guard_path g)) \<and> holders w' = with_guard g (holders w)) \<or>
     held_guards ph' = [] \<and> holders w' = fold without_guard (held_guards ph) (holders w)"

lemma step_keeps: "held_guards ph' = held_guards ph \<Longrightarrow> holders w' = holders w \<Longrightarrow> step_effect s i ph w ph' w'"
  by (simp add: step_effect_def)

lemma step_gives_back:
  "held_guards ph' = [] \<Longrightarrow> holders w' = fold without_guard (held_guards ph) (holders w) \<Longrightarrow> step_effect s i ph w ph' w'"
  by (simp add: step_effect_def)

lemma writer_turn_effect:
  assumes "lock_turn i md root a nb s w = Some (t, w')" and "phase_ok root i (Writer a nb) (WriterTakes s)"
  shows "phase_ok root i (Writer a nb) (after_lock_turn t) \<and>
    step_effect (Writer a nb) i (WriterTakes s) w (after_lock_turn t) w'"
proof (cases s)
  case OpenLockRoot
  with lock_turn_open assms show ?thesis by (fastforce simp: guards_of_def step_effect_def)
next
  case (NextLock ps gs)
  then have ok: "guards_of i Exclusive gs" "map guard_path gs @ ps = lock_paths root a" using assms(2) by auto
  show ?thesis
  proof (cases ps)
    case Nil
    with NextLock assms(1) ok show ?thesis by (auto simp: step_effect_def)
  next
    case (Cons p qs)
    have d: "distinct (map guard_path gs @ p # qs)" using ok(2) Cons lock_paths_distinct by metis
    then have fresh: "p \<notin> guard_path ` set gs" by auto
    from lock_turn_next [OF assms(1) [unfolded NextLock Cons] d] show ?thesis
    proof (elim disjE exE conjE)
      fix g
      assume "t = Continue (NextLock qs (gs @ [g]))" "lock_compatible Exclusive (holders w p)"
        "g = \<lparr>guard_path = p, guard_owner = i, guard_mode = Exclusive, guard_released = False\<rparr>"
        "holders w' = with_guard g (holders w)"
      with ok fresh NextLock Cons show ?thesis by (auto simp: guards_of_def step_effect_def held_paths_def)
    next
      fix r
      assume "t = Return r" "\<forall>l. r \<noteq> Inr (Some l)" and h: "holders w' = fold without_guard gs (holders w)"
      then have "after_lock_turn t = GaveUp" by (metis after_lock_turn.simps(3,4) obj_sumE option.exhaust)
      with h NextLock show ?thesis by (simp add: step_gives_back)
    qed
  qed
qed

lemma reader_turn_effect:
  assumes "read_turn i root r s w = Some (a, w1)" and "phase_ok root i (Reader r dl) (ReaderTakes s)"
    and "a = Moved t \<and> w' = w1 \<or> (\<exists>ps locks d now. a = Refused ps locks d \<and> read_refused dl now ps locks d w1 = (t, w'))"
  shows "phase_ok root i (Reader r dl) (after_read_turn t) \<and>
    step_effect (Reader r dl) i (ReaderTakes s) w (after_read_turn t) w'"
proof (cases s)
  case OpenReadRoot
  with read_turn_open [of i root r w a w1] assms show ?thesis by (auto simp: guards_of_def step_effect_def)
next
  case (NextRead ps gs d)
  then have ok: "guards_of i Shared gs" "map guard_path gs @ ps = read_lock_paths root r" using assms(2) by auto
  show ?thesis
  proof (cases ps)
    case Nil
    with NextRead assms(1,3) ok show ?thesis by (auto simp: step_effect_def)
  next
    case (Cons p qs)
    have "distinct (map guard_path gs @ p # qs)" using ok(2) Cons read_lock_paths_distinct by metis
    then have fresh: "p \<notin> guard_path ` set gs" and dg: "distinct (map guard_path gs)" by auto
    from read_turn_next [OF assms(1) [unfolded NextRead Cons]] show ?thesis
    proof (elim disjE exE conjE)
      fix g d'
      assume "a = Moved (Continue (NextRead qs (gs @ [g]) d'))" "lock_compatible Shared (holders w p)"
        "g = \<lparr>guard_path = p, guard_owner = i, guard_mode = Shared, guard_released = False\<rparr>"
        "holders w1 = with_guard g (holders w)"
      with assms(3) ok fresh NextRead Cons show ?thesis by (auto simp: guards_of_def step_effect_def held_paths_def)
    next
      fix e
      assume "a = Moved (Return (Inl e))" "holders w1 = fold without_guard gs (holders w)"
      with assms(3) NextRead show ?thesis by (auto simp: step_gives_back)
    next
      assume a: "a = Refused (p # qs) gs d" and h: "holders w1 = holders w"
      with assms(3) obtain now where "read_refused dl now (p # qs) gs d w1 = (t, w')" by auto
      from read_refused_run [OF this dg] h ok NextRead Cons show ?thesis
        by (auto simp: step_gives_back step_keeps)
    qed
  qed
qed

lemma session_step_effect:
  assumes "session_step root i s (ph, w) (ph', w')" and "phase_ok root i s ph"
  shows "phase_ok root i s ph' \<and> step_effect s i ph w ph' w'"
  using assms(1)
proof (cases rule: session_step.cases)
  case (writer_turn metadata scope nonblocking s t)
  with writer_turn_effect assms(2) show ?thesis by blast
next
  case (reader_turn scope s t deadline)
  with reader_turn_effect assms(2) show ?thesis by blast
next
  case (reader_refused scope s ps locks delay w1 deadline now t)
  with reader_turn_effect [OF reader_refused(4)] assms(2) show ?thesis by blast
next
  case (writer_release l r l' w1 scope nonblocking)
  then have "\<not> lock_released l" "distinct (map guard_path (lock_guards l))"
    using assms(2) by (auto simp: lock_paths_distinct)
  from command_set.release_then_drop [OF _ this] writer_release show ?thesis by (simp add: step_gives_back)
next
  case (writer_drop scope nonblocking l)
  then have "\<not> lock_released l" "distinct (map guard_path (lock_guards l))"
    using assms(2) by (auto simp: lock_paths_distinct)
  from command_set.drop_sum [OF this] writer_drop show ?thesis by (simp add: step_gives_back)
next
  case (reader_release l r l' w1 scope deadline)
  then have "\<not> read_released l" "distinct (map guard_path (read_guards l))"
    using assms(2) by (auto simp: read_lock_paths_distinct)
  from read_set.release_then_drop [OF _ this] reader_release show ?thesis by (simp add: step_gives_back)
next
  case (reader_drop scope deadline l)
  then have "\<not> read_released l" "distinct (map guard_path (read_guards l))"
    using assms(2) by (auto simp: read_lock_paths_distinct)
  from read_set.drop_sum [OF this] reader_drop show ?thesis by (simp add: step_gives_back)
qed

section \<open>The table records who holds what\<close>

definition holding :: "session list \<Rightarrow> phase list \<Rightarrow> path \<Rightarrow> (nat \<times> FileIoLockMode) set" where
  "holding ss phs p = {(i, session_mode (ss ! i)) | i. i < length ss \<and> p \<in> set (held_paths (phs ! i))}"

definition cell_ok :: "session list \<Rightarrow> phase list \<Rightarrow> path \<Rightarrow> (nat \<times> FileIoLockMode) list \<Rightarrow> bool" where
  "cell_ok ss phs p hs \<longleftrightarrow> distinct hs \<and> set hs = holding ss phs p \<and> (\<forall>i. (i, Exclusive) \<in> set hs \<longrightarrow> hs = [(i, Exclusive)])"

definition table_ok :: "path \<Rightarrow> session list \<Rightarrow> phase list \<Rightarrow> io_world \<Rightarrow> bool" where
  "table_ok root ss phs w \<longleftrightarrow> length phs = length ss \<and>
     (\<forall>i < length ss. phase_ok root i (ss ! i) (phs ! i)) \<and> (\<forall>p. cell_ok ss phs p (holders w p))"

lemma holding_update:
  assumes "length phs = length ss" and "i < length ss"
  shows "holding ss (phs[i := ph]) p = {h \<in> holding ss phs p. fst h \<noteq> i} \<union>
    (if p \<in> set (held_paths ph) then {(i, session_mode (ss ! i))} else {})"
  using assms by (auto simp: holding_def nth_list_update)

lemma holding_same:
  assumes "length phs = length ss" and "i < length ss"
    and "p \<in> set (held_paths ph) \<longleftrightarrow> p \<in> set (held_paths (phs ! i))"
  shows "holding ss (phs[i := ph]) p = holding ss phs p"
  using assms by (auto simp: holding_def nth_list_update)

lemma holding_fst: "(i, m) \<in> holding ss phs p \<Longrightarrow> p \<in> set (held_paths (phs ! i)) \<and> m = session_mode (ss ! i)"
  by (auto simp: holding_def)

lemma cell_ok_take:
  assumes "cell_ok ss phs p hs" and "length phs = length ss" and "i < length ss" and "p \<notin> set (held_paths (phs ! i))"
    and "p \<in> set (held_paths ph)" and "lock_compatible (session_mode (ss ! i)) hs"
  shows "cell_ok ss (phs[i := ph]) p ((i, session_mode (ss ! i)) # hs)"
proof -
  have "(i, session_mode (ss ! i)) \<notin> set hs" using assms(1,4) holding_fst unfolding cell_ok_def by metis
  moreover have "holding ss (phs[i := ph]) p = insert (i, session_mode (ss ! i)) (holding ss phs p)"
    unfolding holding_update [OF assms(2,3)] using assms(4,5) by (auto dest: holding_fst)
  ultimately show ?thesis
    using assms(1,6) by (cases "session_mode (ss ! i)") (auto simp: cell_ok_def lock_compatible_def)
qed

lemma cell_ok_give_back:
  assumes "cell_ok ss phs p hs" and "length phs = length ss" and "i < length ss" and "p \<notin> set (held_paths ph)"
  shows "cell_ok ss (phs[i := ph]) p (remove1 (i, session_mode (ss ! i)) hs)"
proof -
  have "holding ss (phs[i := ph]) p = holding ss phs p - {(i, session_mode (ss ! i))}"
    unfolding holding_update [OF assms(2,3)] using assms(4) by (auto dest: holding_fst)
  moreover have "remove1 (i, session_mode (ss ! i)) hs = [(j, Exclusive)]"
    if "(j, Exclusive) \<in> set (remove1 (i, session_mode (ss ! i)) hs)" for j
  proof -
    from that have "(j, Exclusive) \<in> set hs" by (metis notin_set_remove1)
    then have "hs = [(j, Exclusive)]" using assms(1) by (simp add: cell_ok_def)
    with that show ?thesis by (auto split: if_splits)
  qed
  ultimately show ?thesis using assms(1) by (simp add: cell_ok_def set_remove1_eq)
qed

lemma remove_absent:
  assumes "cell_ok ss phs p hs" and "p \<notin> set (held_paths (phs ! i))"
  shows "remove1 (i, m) hs = hs"
  using assms holding_fst by (metis cell_ok_def remove1_idem)

lemma cell_ok_effect:
  assumes "step_effect (ss ! i) i (phs ! i) w ph w'" and "phase_ok root i (ss ! i) (phs ! i)"
    and "length phs = length ss" and "i < length ss" and ok: "cell_ok ss phs p (holders w p)"
  shows "cell_ok ss (phs[i := ph]) p (holders w' p)"
  using assms(1) unfolding step_effect_def
proof (elim disjE exE conjE)
  assume "held_guards ph = held_guards (phs ! i)" and h: "holders w' = holders w"
  then have "holding ss (phs[i := ph]) p = holding ss phs p"
    by (intro holding_same [OF assms(3,4)]) (simp add: held_paths_def)
  with ok h show ?thesis by (simp add: cell_ok_def)
next
  fix g
  assume g: "held_guards ph = held_guards (phs ! i) @ [g]" "guard_path g \<notin> set (held_paths (phs ! i))"
    "guard_owner g = i" "guard_mode g = session_mode (ss ! i)"
    "lock_compatible (session_mode (ss ! i)) (holders w (guard_path g))" "holders w' = with_guard g (holders w)"
  show ?thesis
  proof (cases "p = guard_path g")
    case True
    with g cell_ok_take [OF ok assms(3,4), of ph] show ?thesis by (simp add: with_guard_def held_paths_def)
  next
    case False
    with g have "holding ss (phs[i := ph]) p = holding ss phs p"
      by (intro holding_same [OF assms(3,4)]) (simp add: held_paths_def)
    with ok g False show ?thesis by (simp add: cell_ok_def with_guard_def)
  qed
next
  assume ph: "held_guards ph = []" and h: "holders w' = fold without_guard (held_guards (phs ! i)) (holders w)"
  have "holders w' p = remove1 (i, session_mode (ss ! i)) (holders w p)"
    unfolding h using phase_ok_held [OF assms(2)] remove_absent [OF ok]
      fold_without_same [of i "session_mode (ss ! i)" "held_guards (phs ! i)" "holders w" p]
    by (simp add: held_paths_def)
  with cell_ok_give_back [OF ok assms(3,4), of ph] ph show ?thesis by (simp add: held_paths_def)
qed

lemma session_step_table:
  assumes "session_step root i (ss ! i) (phs ! i, w) (ph, w')" and "i < length ss" and "table_ok root ss phs w"
  shows "table_ok root ss (phs[i := ph]) w'"
proof -
  from assms(2,3) have len: "length phs = length ss" and ok: "phase_ok root i (ss ! i) (phs ! i)"
    and cells: "\<And>p. cell_ok ss phs p (holders w p)" and phases: "\<And>j. j < length ss \<Longrightarrow> phase_ok root j (ss ! j) (phs ! j)"
    by (auto simp: table_ok_def)
  note eff = session_step_effect [OF assms(1) ok]
  show ?thesis
    unfolding table_ok_def
    using len phases eff assms(2) cell_ok_effect [OF conjunct2 [OF eff] ok len assms(2) cells]
    by (simp add: nth_list_update)
qed

lemma start_table: "\<forall>p. holders w p = [] \<Longrightarrow> table_ok root ss (map first_phase ss) w"
proof -
  have "phase_ok root i s (first_phase s)" for i s by (cases s) simp_all
  then show "\<forall>p. holders w p = [] \<Longrightarrow> table_ok root ss (map first_phase ss) w"
    by (simp add: table_ok_def cell_ok_def holding_def)
qed

lemma reachable_table:
  "reachable root ss s \<Longrightarrow> table_ok root ss (fst s) (snd s)"
proof (induction rule: reachable.induct)
  case (start w)
  then show ?case by (simp add: start_table)
next
  case (step s s')
  from step.hyps(2) step.IH show ?case by (cases rule: lock_step.cases) (simp add: session_step_table)
next
  case (elsewhere phs w w')
  then show ?case by (simp add: table_ok_def)
qed

lemma both_hold:
  assumes "table_ok root ss phs w" and "i < length ss" "j < length ss" "i \<noteq> j"
    and "p \<in> set (held_paths (phs ! i))" "p \<in> set (held_paths (phs ! j))"
  shows "session_mode (ss ! i) = Shared \<and> session_mode (ss ! j) = Shared"
proof -
  have cell: "cell_ok ss phs p (holders w p)" using assms(1) by (simp add: table_ok_def)
  have "(i, session_mode (ss ! i)) \<in> holding ss phs p" "(j, session_mode (ss ! j)) \<in> holding ss phs p"
    using assms by (auto simp: holding_def)
  with cell have mem: "(i, session_mode (ss ! i)) \<in> set (holders w p)" "(j, session_mode (ss ! j)) \<in> set (holders w p)"
      and ex: "\<And>k. (k, Exclusive) \<in> set (holders w p) \<Longrightarrow> holders w p = [(k, Exclusive)]"
    by (auto simp: cell_ok_def)
  show ?thesis
    using mem ex [of i] ex [of j] assms(4) by (cases "session_mode (ss ! i)"; cases "session_mode (ss ! j)") auto
qed

section \<open>Ordered acquisition\<close>

text \<open>
  The argument for progress, separate from the lock files: when every process waits for a resource
  that ranks above all it holds, the process waiting for the highest one waits for a resource that
  no waiting process holds.
\<close>

locale ordered_requests =
  fixes wants :: "'p \<Rightarrow> 'l option"
    and holds :: "'p \<Rightarrow> 'l set"
    and rank :: "'l \<Rightarrow> 'r::linorder"
  assumes ordered: "wants p = Some l \<Longrightarrow> l' \<in> holds p \<Longrightarrow> rank l' < rank l"
begin

lemma no_circular_wait:
  assumes "finite P" and "P \<noteq> {}" and "\<forall>p \<in> P. \<exists>l. wants p = Some l"
  shows "\<exists>p \<in> P. \<exists>l. wants p = Some l \<and> (\<forall>q \<in> P. l \<notin> holds q)"
proof -
  obtain f where f: "\<forall>p \<in> P. wants p = Some (f p)" using assms(3) by metis
  let ?m = "Max ((rank \<circ> f) ` P)"
  have "?m \<in> (rank \<circ> f) ` P" using assms by (intro Max_in) auto
  then obtain p where p: "p \<in> P" "rank (f p) = ?m" by auto
  have "f p \<notin> holds q" if q: "q \<in> P" for q
  proof
    assume "f p \<in> holds q"
    then have "rank (f p) < rank (f q)" using ordered f q by blast
    moreover have "rank (f q) \<le> ?m" using assms(1) q by (intro Max_ge) auto
    ultimately show False using p by simp
  qed
  with p f show ?thesis by blast
qed

end

fun next_wanted :: "phase \<Rightarrow> path option" where
  "next_wanted (WriterTakes (NextLock (p # ps) gs)) = Some p"
| "next_wanted (ReaderTakes (NextRead (p # ps) gs d)) = Some p"
| "next_wanted _ = None"

definition lock_rank :: "path \<Rightarrow> string" where
  "lock_rank p = (case path_file_name p of Some n \<Rightarrow> n | None \<Rightarrow> [])"

lemma lock_rank_path [simp]: "lock_rank (lock_path root n) = n"
  by (simp add: lock_rank_def lock_path_def path_file_name_def path_join_def path_has_root_def path_starts_with_prefix_def)

lemma lock_names_sorted: "sorted_wrt (<) (lock_file_names a)" "sorted_wrt (<) (read_lock_file_names r)"
  by (cases a; simp add: all_write_lock_file_names_def less_char_def)
    (cases r; simp add: all_write_lock_file_names_def less_char_def)

lemma paths_ranked:
  assumes "xs @ p # ps = map (lock_path root) ns" and "sorted_wrt (<) ns" and "q \<in> set xs"
  shows "lock_rank q < lock_rank p"
proof -
  from assms(1) have "map lock_rank (xs @ p # ps) = ns" by (simp add: comp_def)
  with assms(2) have "sorted_wrt (<) (map lock_rank (xs @ p # ps))" by simp
  with assms(3) show ?thesis by (auto simp: sorted_wrt_append)
qed

lemma wanted_above_held:
  assumes "phase_ok root i s ph" and "next_wanted ph = Some p" and "q \<in> set (held_paths ph)"
  shows "lock_rank q < lock_rank p"
  using assms
  by (cases "(root, i, s, ph)" rule: phase_ok.cases; cases ph rule: next_wanted.cases)
    (auto simp: held_paths_def lock_paths_def read_lock_paths_def intro!: paths_ranked lock_names_sorted)

definition wants :: "path \<Rightarrow> session list \<Rightarrow> phase list \<Rightarrow> nat \<Rightarrow> path option" where
  "wants root ss phs i = (if i < length ss \<and> phase_ok root i (ss ! i) (phs ! i) then next_wanted (phs ! i) else None)"

interpretation lock_order: ordered_requests "wants root ss phs" "\<lambda>i. set (held_paths (phs ! i))" lock_rank for root ss phs
  by unfold_locales (auto simp: wants_def wanted_above_held split: if_splits)

section \<open>Calm worlds\<close>

lemma calm_set_cell [simp]: "calm (set_cell p c w) = calm w"
  by (simp add: calm_def set_cell_def)

lemma acquire_calm:
  assumes "calm w" and "lock_compatible m (holders w p)"
  obtains g w' where "acquire_process_lock i p m wt w = Some (Inr (Some g), w')" "calm w'"
proof -
  have rd: "reads (io_bind (create_parent_dirs p) (\<lambda>_. os_query (\<lambda>w. (Inr (), w)))) (\<lambda>w. res_bind (Inr ()) (\<lambda>_. Inr ()))"
    by (rule reads_bind [OF create_parent_dirs_reads reads_pure_query]) auto
  obtain v where v: "io_bind (create_parent_dirs p) (\<lambda>_. os_query (\<lambda>w. (Inr (), w))) w = (Inr (), v)" "quiet w v" "calm v"
    using reads_calm [OF rd assms(1)] by auto
  obtain u where u: "take_fault v = (None, u)" "quiet v u" "calm u" using take_fault_calm [OF v(3)] by blast
  have "lock_holders (lock_cells u p) = holders w p"
    using holders_quiet [OF v(2)] holders_quiet [OF u(2)] by (simp add: holders_def fun_eq_iff)
  with v(1) u(1) assms(2)
  have "acquire_process_lock i p m wt w =
      Some (Inr (Some \<lparr>guard_path = p, guard_owner = i, guard_mode = m, guard_released = False\<rparr>),
        set_cell p ((lock_cells u p)\<lparr>lock_holders := (i, m) # lock_holders (lock_cells u p)\<rparr>) u)"
    by (simp add: acquire_process_lock_def Let_def)
  then show ?thesis by (rule that) (use u(3) in simp)
qed

lemma replace_contents_calm:
  assumes "calm w"
  obtains w' where "replace_contents_and_flush g bs w = (Inr (), w')" "calm w'"
proof -
  let ?c = "\<lambda>b w. set_cell (guard_path g) ((lock_cells w (guard_path g))\<lparr>lock_contents := b\<rparr>) w"
  obtain v where v: "take_fault w = (None, v)" "calm v" using take_fault_calm [OF assms] by blast
  have "calm (?c [] v)" using v(2) by simp
  then obtain u where u: "take_fault (?c [] v) = (None, u)" "calm u" using take_fault_calm by blast
  show ?thesis
    by (rule that [of "?c bs u"]) (use v u in \<open>simp_all add: replace_contents_and_flush_def Let_def io_bind_apply os_query_def os_call_def\<close>)
qed

lemma release_calm:
  assumes "calm w"
  obtains g' w' where "release_guard g w = (Inr g', w')" "calm w'"
proof -
  obtain v where v: "take_fault w = (None, v)" "calm v" using take_fault_calm [OF assms] by blast
  show ?thesis
  proof (cases "guard_released g")
    case True
    then show ?thesis using assms by (intro that [of g w]) (simp_all add: release_guard_def)
  next
    case False
    with v have "is_ok (fst (release_guard g w)) \<and> calm (snd (release_guard g w))"
      by (simp add: release_guard_def io_map_err_apply os_query_def os_call_def Let_def)
    then show ?thesis by (metis is_ok_iff prod.collapse that)
  qed
qed

lemma release_each_calm: "calm w \<Longrightarrow> calm (snd (release_each gs w))"
proof (induction gs arbitrary: w)
  case (Cons g gs)
  obtain v where v: "clear_contents_and_flush g w = (Inr (), v)" "calm v"
    using replace_contents_calm [OF Cons.prems] by (metis clear_contents_and_flush_def)
  obtain g' u where u: "release_guard g v = (Inr g', u)" "calm u" using release_calm [OF v(2)] by blast
  from Cons.IH [OF u(2)] v(1) u(1) show ?case
    by (auto simp: io_bind_apply store_io_def io_map_err_apply split: prod.splits)
qed simp

lemma release_read_each_calm: "calm w \<Longrightarrow> calm (snd (release_read_each gs w))"
proof (induction gs arbitrary: w)
  case (Cons g gs)
  obtain g' u where u: "release_guard g w = (Inr g', u)" "calm u" using release_calm [OF Cons.prems] by blast
  from Cons.IH [OF u(2)] u(1) show ?case
    by (auto simp: store_io_def io_map_err_apply split: prod.splits)
qed simp

lemma drop_guards_calm: "calm w \<Longrightarrow> calm (drop_guards gs w)"
proof (induction gs arbitrary: w)
  case (Cons g gs)
  obtain g' u where u: "release_guard g w = (Inr g', u)" "calm u" using release_calm [OF Cons.prems] by blast
  with Cons.IH [OF u(2)] show ?case by (simp add: drop_guards_def drop_guard_def)
qed (simp add: drop_guards_def)

lemma drop_lock_set_calm:
  assumes "calm w"
  shows "calm (drop_lock_set l w)"
proof -
  obtain r gs v where r: "release_each (lock_guards l) w = ((r, gs), v)" by (metis prod.exhaust)
  with release_each_calm [OF assms, of "lock_guards l"] assms show ?thesis
    by (cases r) (auto simp: drop_lock_set_def release_lock_set_def drop_guards_calm)
qed

lemma drop_read_lock_calm:
  assumes "calm w"
  shows "calm (drop_read_lock l w)"
proof -
  obtain r gs v where r: "release_read_each (read_guards l) w = ((r, gs), v)" by (metis prod.exhaust)
  with release_read_each_calm [OF assms, of "read_guards l"] assms show ?thesis
    by (cases r) (auto simp: drop_read_lock_def release_read_lock_def drop_guards_calm)
qed

section \<open>Progress\<close>

text \<open>
  How many passes a process still needs when nobody stands in its way.
\<close>

fun passes_left :: "path \<Rightarrow> session \<Rightarrow> phase \<Rightarrow> nat" where
  "passes_left root (Writer a nb) (WriterTakes s) = Suc (lock_turns_left root a s)"
| "passes_left root (Reader r dl) (ReaderTakes s) = Suc (read_turns_left root r s)"
| "passes_left root s (WriterIn l) = 1"
| "passes_left root s (ReaderIn l) = 1"
| "passes_left root s ph = 0"

lemma open_root_calm:
  assumes "calm w"
  obtains w' where "store_io (create_parent_dirs (path_join (lock_root root) [Normal ''.lock-root''])) w = (Inr (), w')" "calm w'"
  using reads_calm [OF store_io_reads [OF create_parent_dirs_reads] assms] by auto

lemma writer_moves:
  assumes "calm w" and "case next_wanted (WriterTakes s) of Some p \<Rightarrow> lock_compatible Exclusive (holders w p) | None \<Rightarrow> True"
  shows "\<exists>t w'. lock_turn i (\<lambda>_. []) root a nb s w = Some (t, w') \<and> calm w' \<and> after_lock_turn t \<noteq> GaveUp \<and>
    passes_left root (Writer a nb) (after_lock_turn t) < passes_left root (Writer a nb) (WriterTakes s)"
proof (cases s)
  case OpenLockRoot
  obtain v where "store_io (create_parent_dirs (path_join (lock_root root) [Normal ''.lock-root''])) w = (Inr (), v)" "calm v"
    using open_root_calm [OF assms(1)] by blast
  with OpenLockRoot show ?thesis by simp
next
  case (NextLock ps gs)
  show ?thesis
  proof (cases ps)
    case Nil
    with NextLock assms(1) show ?thesis by simp
  next
    case (Cons p qs)
    with NextLock assms(2) obtain g v where
      g: "acquire_process_lock i p Exclusive (if nb then Nonblocking else Blocking) w = Some (Inr (Some g), v)" "calm v"
      using acquire_calm [OF assms(1), of Exclusive p] by (metis next_wanted.simps(1) option.simps(5))
    obtain u where "replace_contents_and_flush g [] v = (Inr (), u)" "calm u" using replace_contents_calm [OF g(2)] by blast
    with g NextLock Cons show ?thesis by simp
  qed
qed

lemma reader_moves:
  assumes "calm w" and "case next_wanted (ReaderTakes s) of Some p \<Rightarrow> lock_compatible Shared (holders w p) | None \<Rightarrow> True"
  shows "\<exists>t w'. read_turn i root r s w = Some (Moved t, w') \<and> calm w' \<and> after_read_turn t \<noteq> GaveUp \<and>
    passes_left root (Reader r dl) (after_read_turn t) < passes_left root (Reader r dl) (ReaderTakes s)"
proof (cases s)
  case OpenReadRoot
  obtain v where "store_io (create_parent_dirs (path_join (lock_root root) [Normal ''.lock-root''])) w = (Inr (), v)" "calm v"
    using open_root_calm [OF assms(1)] by blast
  with OpenReadRoot show ?thesis by simp
next
  case (NextRead ps gs d)
  show ?thesis
  proof (cases ps)
    case Nil
    with NextRead assms(1) show ?thesis by simp
  next
    case (Cons p qs)
    with NextRead assms(2) obtain g v where "acquire_process_lock i p Shared Nonblocking w = Some (Inr (Some g), v)" "calm v"
      using acquire_calm [OF assms(1), of Shared p] by (metis next_wanted.simps(2) option.simps(5))
    with NextRead Cons show ?thesis by simp
  qed
qed

lemma session_moves:
  assumes "calm w" and "phase_ok root i s ph" and "ph \<noteq> GaveUp" "ph \<noteq> Finished"
    and "case next_wanted ph of Some p \<Rightarrow> lock_compatible (session_mode s) (holders w p) | None \<Rightarrow> True"
  shows "\<exists>ph' w'. session_step root i s (ph, w) (ph', w') \<and> calm w' \<and> ph' \<noteq> GaveUp \<and> passes_left root s ph' < passes_left root s ph"
proof (cases ph)
  case (WriterTakes q)
  with assms(2) obtain a nb where s: "s = Writer a nb" by (cases s) auto
  have "case next_wanted (WriterTakes q) of Some p \<Rightarrow> lock_compatible Exclusive (holders w p) | None \<Rightarrow> True"
    using assms(5) WriterTakes s by (auto split: option.splits)
  from writer_moves [OF assms(1) this, of i root a nb] WriterTakes s obtain t w' where
    "lock_turn i (\<lambda>_. []) root a nb q w = Some (t, w')" "calm w'" "after_lock_turn t \<noteq> GaveUp"
    "passes_left root s (after_lock_turn t) < passes_left root s ph" by auto
  with WriterTakes s writer_turn show ?thesis by blast
next
  case (ReaderTakes q)
  with assms(2) obtain r dl where s: "s = Reader r dl" by (cases s) auto
  have "case next_wanted (ReaderTakes q) of Some p \<Rightarrow> lock_compatible Shared (holders w p) | None \<Rightarrow> True"
    using assms(5) ReaderTakes s by (auto split: option.splits)
  from reader_moves [OF assms(1) this, of i root r dl] ReaderTakes s obtain t w' where
    "read_turn i root r q w = Some (Moved t, w')" "calm w'" "after_read_turn t \<noteq> GaveUp"
    "passes_left root s (after_read_turn t) < passes_left root s ph" by auto
  with ReaderTakes s reader_turn show ?thesis by blast
next
  case (WriterIn l)
  with assms(2) obtain a nb where "s = Writer a nb" by (cases s) auto
  with WriterIn writer_drop [of root i a nb l w] drop_lock_set_calm [OF assms(1), of l] show ?thesis by fastforce
next
  case (ReaderIn l)
  with assms(2) obtain r dl where "s = Reader r dl" by (cases s) auto
  with ReaderIn reader_drop [of root i r dl l w] drop_read_lock_calm [OF assms(1), of l] show ?thesis by fastforce
qed (use assms in auto)

lemma some_session_moves:
  assumes ok: "table_ok root ss phs w" and "calm w" and un: "\<exists>i < length ss. phs ! i \<noteq> GaveUp \<and> phs ! i \<noteq> Finished"
  shows "\<exists>i < length ss. \<exists>ph w'. phs ! i \<noteq> GaveUp \<and> session_step root i (ss ! i) (phs ! i, w) (ph, w') \<and> calm w' \<and>
    ph \<noteq> GaveUp \<and> passes_left root (ss ! i) ph < passes_left root (ss ! i) (phs ! i)"
proof (rule ccontr)
  assume stuck: "\<not> ?thesis"
  let ?P = "{i. i < length ss \<and> phs ! i \<noteq> GaveUp \<and> phs ! i \<noteq> Finished}"
  have phase: "phase_ok root i (ss ! i) (phs ! i)" if "i < length ss" for i using ok that by (simp add: table_ok_def)
  have waits: "\<exists>p. wants root ss phs i = Some p \<and> \<not> lock_compatible (session_mode (ss ! i)) (holders w p)" if "i \<in> ?P" for i
  proof (rule ccontr)
    assume "\<not> ?thesis"
    then have "case next_wanted (phs ! i) of Some p \<Rightarrow> lock_compatible (session_mode (ss ! i)) (holders w p) | None \<Rightarrow> True"
      using that phase [of i] by (auto simp: wants_def split: option.splits)
    with session_moves [OF assms(2) phase] that stuck show False by blast
  qed
  have "finite ?P" "?P \<noteq> {}" "\<forall>p \<in> ?P. \<exists>l. wants root ss phs p = Some l" using un waits by auto
  then have "\<exists>p \<in> ?P. \<exists>l. wants root ss phs p = Some l \<and> (\<forall>q \<in> ?P. l \<notin> set (held_paths (phs ! q)))"
    by (rule lock_order.no_circular_wait)
  then obtain i p where i: "i \<in> ?P" "wants root ss phs i = Some p"
    and free: "\<forall>q \<in> ?P. p \<notin> set (held_paths (phs ! q))" by blast
  have "p \<notin> set (held_paths (phs ! q))" if "q < length ss" for q
    using free that by (cases "phs ! q = GaveUp \<or> phs ! q = Finished") auto
  then have "holding ss phs p = {}" by (simp add: holding_def)
  moreover have "set (holders w p) = holding ss phs p" using ok by (simp add: table_ok_def cell_ok_def)
  ultimately have "lock_compatible (session_mode (ss ! i)) (holders w p)"
    by (cases "session_mode (ss ! i)") (simp_all add: lock_compatible_def)
  with waits [OF i(1)] i(2) show False by simp
qed

definition all_passes :: "path \<Rightarrow> session list \<Rightarrow> phase list \<Rightarrow> nat" where
  "all_passes root ss phs = (\<Sum>i < length ss. passes_left root (ss ! i) (phs ! i))"

lemma all_passes_less:
  assumes "i < length ss" and "length phs = length ss" and "passes_left root (ss ! i) ph < passes_left root (ss ! i) (phs ! i)"
  shows "all_passes root ss (phs[i := ph]) < all_passes root ss phs"
  unfolding all_passes_def
  by (rule sum_strict_mono_ex1) (use assms in \<open>auto simp: nth_list_update less_imp_le intro!: bexI [of _ i]\<close>)

lemma all_can_finish:
  assumes "table_ok root ss phs w" and "calm w"
  shows "\<exists>phs' w'. (lock_step root ss)\<^sup>*\<^sup>* (phs, w) (phs', w') \<and> length phs' = length ss \<and>
    (\<forall>i < length ss. phs' ! i = (if phs ! i = GaveUp then GaveUp else Finished)) \<and> (\<forall>p. holders w' p = [])"
  using assms
proof (induction "all_passes root ss phs" arbitrary: phs w rule: less_induct)
  case less
  have len: "length phs = length ss" using less.prems(1) by (simp add: table_ok_def)
  show ?case
  proof (cases "\<exists>i < length ss. phs ! i \<noteq> GaveUp \<and> phs ! i \<noteq> Finished")
    case False
    then have "holding ss phs p = {}" for p by (force simp: holding_def)
    then have "\<forall>p. holders w p = []" using less.prems(1) by (simp add: table_ok_def cell_ok_def)
    with False len show ?thesis by auto
  next
    case True
    from some_session_moves [OF less.prems True] obtain i ph w1 where i: "i < length ss" "phs ! i \<noteq> GaveUp"
      "session_step root i (ss ! i) (phs ! i, w) (ph, w1)" "calm w1" "ph \<noteq> GaveUp"
      "passes_left root (ss ! i) ph < passes_left root (ss ! i) (phs ! i)" by blast
    note ok1 = session_step_table [OF i(3,1) less.prems(1)]
    from less.hyps [OF all_passes_less [OF i(1) len i(6)] ok1 i(4)] obtain phs' w' where run:
      "(lock_step root ss)\<^sup>*\<^sup>* (phs[i := ph], w1) (phs', w')" "length phs' = length ss"
      "\<forall>j < length ss. phs' ! j = (if phs[i := ph] ! j = GaveUp then GaveUp else Finished)" "\<forall>p. holders w' p = []" by blast
    have "lock_step root ss (phs, w) (phs[i := ph], w1)" using i(1,3) by (rule lock_step.intros)
    with run(1) have "(lock_step root ss)\<^sup>*\<^sup>* (phs, w) (phs', w')" by (rule converse_rtranclp_into_rtranclp [rotated])
    moreover have "\<forall>j < length ss. phs' ! j = (if phs ! j = GaveUp then GaveUp else Finished)"
      using run(3) i(1,2,5) len by (auto simp: nth_list_update)
    ultimately show ?thesis using run(2,4) by blast
  qed
qed

section \<open>A call that nobody interrupts\<close>

text \<open>
  When no other process runs in between, the passes of a writer add up to one call of
  \<open>open_and_lock\<close>.
\<close>

lemma lock_run_steps:
  assumes "lock_run i md root a nb s w = Some (r, w')" and "i < length ss" and "ss ! i = Writer a nb"
    and "length phs = length ss" and "phs ! i = WriterTakes s"
  shows "(lock_step root ss)\<^sup>*\<^sup>* (phs, w) (phs[i := after_lock_turn (Return r)], w')"
  using assms
proof (induction i md root a nb s w arbitrary: phs rule: lock_run.induct)
  case (1 owner md root a nb s w)
  obtain t w1 where t: "lock_turn owner md root a nb s w = Some (t, w1)"
    using 1(2) by (cases "lock_turn owner md root a nb s w") (auto simp: lock_run.simps)
  have st: "lock_step root ss (phs, w) (phs[owner := after_lock_turn t], w1)"
    by (rule lock_step.intros [OF 1(3)]) (use 1(4,6) writer_turn [OF t] in simp)
  show ?case
  proof (cases t)
    case (Return q)
    with st t 1(2) show ?thesis by (auto simp: lock_run.simps [of owner])
  next
    case (Continue s')
    have "lock_run owner md root a nb s' w1 = Some (r, w')" using t Continue 1(2) by (simp add: lock_run.simps [of owner _ _ _ _ s])
    from 1(1) [OF t refl Continue this 1(3,4), of "phs[owner := WriterTakes s']"] 1(3,5) st Continue show ?thesis
      by (simp add: converse_rtranclp_into_rtranclp)
  qed
qed

lemma open_and_lock_steps:
  assumes "open_and_lock i md root a nb w = Some (Inr (Some l), w')" and "i < length ss" and "ss ! i = Writer a nb"
    and "length phs = length ss" and "phs ! i = WriterTakes OpenLockRoot"
  shows "(lock_step root ss)\<^sup>*\<^sup>* (phs, w) (phs[i := WriterIn l], w')"
  using lock_run_steps [OF assms(1) [unfolded open_and_lock_def] assms(2-5)] by simp

text \<open>When nothing fails and its lock files are free, the call gets its set.\<close>

lemma lock_run_calm:
  assumes "calm w" and "distinct ps" and "\<forall>p \<in> set ps. holders w p = []"
  shows "\<exists>l w'. lock_run i md root a nb (NextLock ps gs) w = Some (Inr (Some l), w') \<and> calm w'"
  using assms
proof (induction ps arbitrary: gs w)
  case Nil
  then show ?case by (simp add: lock_run.simps)
next
  case (Cons p ps)
  obtain g v where g: "acquire_process_lock i p Exclusive (if nb then Nonblocking else Blocking) w = Some (Inr (Some g), v)" "calm v"
    by (rule acquire_calm [OF Cons.prems(1), of Exclusive p]) (use Cons.prems(3) in \<open>simp_all add: lock_compatible_def\<close>)
  obtain u where u: "replace_contents_and_flush g (md p) v = (Inr (), u)" "calm u" using replace_contents_calm [OF g(2)] by blast
  have "\<forall>q \<in> set ps. holders u q = []"
    using acquire_run [OF g(1)] replace_contents_holders [OF u(1)] Cons.prems(2,3) by auto
  from Cons.IH [OF u(2) _ this, of "gs @ [g]"] Cons.prems(2) g(1) u(1) show ?case
    by (simp add: lock_run.simps [of _ _ _ _ _ "NextLock (p # ps) gs"])
qed

lemma open_and_lock_calm:
  assumes "calm w" and "\<forall>p \<in> set (lock_paths root a). holders w p = []"
  shows "\<exists>l w'. open_and_lock i md root a nb w = Some (Inr (Some l), w') \<and> calm w'"
proof -
  obtain v where v: "store_io (create_parent_dirs (path_join (lock_root root) [Normal ''.lock-root''])) w = (Inr (), v)" "calm v"
    using open_root_calm [OF assms(1)] by blast
  have "holders v = holders w"
    using readsD_quiet [OF store_io_reads [OF create_parent_dirs_reads] v(1)] by (rule holders_quiet)
  with assms(2) lock_run_calm [OF v(2) lock_paths_distinct, where gs = "[]"] v(1) show ?thesis
    by (simp add: open_and_lock_def lock_run.simps [of _ _ _ _ _ OpenLockRoot])
qed

lemma reachable_run: "(lock_step root ss)\<^sup>*\<^sup>* s s' \<Longrightarrow> reachable root ss s \<Longrightarrow> reachable root ss s'"
  by (induction rule: rtranclp_induct) (auto intro: reachable.step)

end
