(* ===== verification/Lock_Properties.thy ===== *)
theory Lock_Properties
  imports Lock_Protocol Store_Properties
begin

text \<open>
  The properties of the lock sets: acquisition is all or nothing, conflicting commands and
  readers exclude each other, nobody waits for ever.
\<close>

section \<open>Acquisition and release\<close>

text \<open>
  C17. Taking a command's locks is all or nothing: when the call returns a lock set, the process is
  an exclusive holder of exactly the lock files of its scope and nothing else changed in the lock
  table; when it returns busy or an error, whatever failed on the way, the table is as before.
\<close>

theorem open_and_lock_all_or_nothing:
  assumes "open_and_lock owner metadata root scope nonblocking w = Some (r, w')"
  shows "case r of
      Inr (Some l) \<Rightarrow> lock_scope l = scope \<and> lock_set_paths l = lock_paths root scope \<and>
        (\<forall>p. holders w' p = (if p \<in> set (lock_paths root scope) then (owner, Exclusive) # holders w p else holders w p))
    | _ \<Rightarrow> holders w' = holders w"
proof (cases "\<exists>l. r = Inr (Some l)")
  case False
  with open_and_lock_run [OF assms] show ?thesis by (auto split: sum.splits option.splits)
next
  case True
  then obtain l where l: "r = Inr (Some l)" by blast
  with open_and_lock_run [OF assms] have run: "lock_scope l = scope" "lock_set_paths l = lock_paths root scope"
      "map guard_path (lock_guards l) = lock_paths root scope"
      "\<forall>g \<in> set (lock_guards l). guard_owner g = owner \<and> guard_mode g = Exclusive"
      "taken (lock_guards l) (holders w) (holders w')" by auto
  then have "holders w' p = (if p \<in> set (lock_paths root scope) then (owner, Exclusive) # holders w p else holders w p)" for p
    using fold_with_same [of "lock_guards l" owner Exclusive "holders w" p] by (simp add: taken_def)
  with l run show ?thesis by simp
qed

lemma empty_world_free: "calm empty_world" "holders empty_world p = []"
  by (simp_all add: calm_def holders_def empty_world_def)

lemma demo_lock: "\<exists>l w'. open_and_lock 1 (\<lambda>_. []) [RootDir, Normal ''db''] ContentWrite False empty_world = Some (Inr (Some l), w')"
  using open_and_lock_calm [OF empty_world_free(1), of "[RootDir, Normal ''db'']" ContentWrite 1 "\<lambda>_. []" False] empty_world_free(2)
  by auto

theorem open_and_lock_all_or_nothing_witness:
  "\<exists>l w'. open_and_lock 1 (\<lambda>_. []) [RootDir, Normal ''db''] ContentWrite False empty_world = Some (Inr (Some l), w') \<and>
     holders w' (lock_path [RootDir, Normal ''db''] ''content.write.lock'') = [(1, Exclusive)]"
proof -
  obtain l w' where run: "open_and_lock 1 (\<lambda>_. []) [RootDir, Normal ''db''] ContentWrite False empty_world = Some (Inr (Some l), w')"
    using demo_lock by blast
  from open_and_lock_all_or_nothing [OF run] run show ?thesis
    by (auto simp: lock_paths_def holders_def empty_world_def)
qed

text \<open>
  C31. Giving the locks back: after the set was used without touching the lock table, a release
  that succeeds restores the table of before the acquisition, and dropping the set restores it
  even when the system refuses to clear or unlock the files.
\<close>

theorem lock_set_given_back:
  assumes "open_and_lock owner metadata root scope nonblocking w = Some (Inr (Some l), w1)"
    and "holders w2 = holders w1"
  shows "holders (drop_lock_set l w2) = holders w \<and>
    (\<forall>u l' w3. release_lock_set (l, w2) = (Inr u, (l', w3)) \<longrightarrow> holders w3 = holders w \<and> lock_released l')"
proof -
  from open_and_lock_run [OF assms(1)] assms(2)
  have "taken (lock_guards l) (holders w) (holders w2)" "\<not> lock_released l" by auto
  then show ?thesis
    using command_set.drop_sum [of l w2] command_set.release_ok [of l w2] taken_given_back
    by (fastforce simp: taken_def)
qed

theorem lock_set_given_back_witness:
  "\<exists>l w1. open_and_lock 1 (\<lambda>_. []) [RootDir, Normal ''db''] ContentWrite False empty_world = Some (Inr (Some l), w1) \<and>
     holders (drop_lock_set l (w1\<lparr>faults := [Some (FailBefore IoInterrupted), Some (FailBefore IoInterrupted)]\<rparr>)) = holders empty_world"
proof -
  obtain l w1 where run: "open_and_lock 1 (\<lambda>_. []) [RootDir, Normal ''db''] ContentWrite False empty_world = Some (Inr (Some l), w1)"
    using demo_lock by blast
  have "holders (w1\<lparr>faults := [Some (FailBefore IoInterrupted), Some (FailBefore IoInterrupted)]\<rparr>) = holders w1"
    by (simp add: holders_def fun_eq_iff)
  from lock_set_given_back [OF run this] run show ?thesis by blast
qed

section \<open>Exclusion\<close>

definition reads_family :: "BinaryDbReadScope \<Rightarrow> BinaryDbFileFamily \<Rightarrow> bool" where
  "reads_family r fam = (case r of ReadAll \<Rightarrow> True | ReadContent \<Rightarrow> fam = Content | ReadPlan \<Rightarrow> fam = Plan
     | ReadContentAndPlan \<Rightarrow> True)"

lemma writer_reader_share_lock:
  assumes "authorizes_file_family a fam" and "reads_family r fam"
  shows "\<exists>n \<in> set (lock_file_names a). n \<in> set (read_lock_file_names r)"
  using assms by (cases a; cases r; cases fam; simp add: all_write_lock_file_names_def reads_family_def; blast)

text \<open>
  C3. Mutual exclusion: let any number of writers and readers run the acquisition code, pass by
  pass and interleaved in any order, while system calls fail at any time.  A writer that got its
  set is the only holder of each lock file of its scope; no writer of a conflicting scope has its
  set at the same time, and no reader whose scope covers a file family the writer may change.
\<close>

theorem lock_exclusion:
  assumes "reachable root ss (phs, w)" and "i < length ss" "j < length ss" "i \<noteq> j"
    and "ss ! i = Writer a nonblocking" and "phs ! i = WriterIn l"
  shows "(\<forall>p \<in> set (lock_paths root a). holders w p = [(i, Exclusive)]) \<and>
    (\<forall>b nb k. ss ! j = Writer b nb \<longrightarrow> phs ! j = WriterIn k \<longrightarrow> \<not> conflicts_with a b) \<and>
    (\<forall>r deadline k fam. ss ! j = Reader r deadline \<longrightarrow> phs ! j = ReaderIn k \<longrightarrow>
       authorizes_file_family a fam \<longrightarrow> \<not> reads_family r fam)"
proof -
  have ok: "table_ok root ss phs w" using reachable_table [OF assms(1)] by simp
  then have phase: "phase_ok root n (ss ! n) (phs ! n)" if "n < length ss" for n using that by (simp add: table_ok_def)
  have held: "set (held_paths (phs ! i)) = lock_path root ` set (lock_file_names a)"
    using phase [OF assms(2)] assms(5,6) by (simp add: held_paths_def lock_paths_def flip: set_map)
  have apart: "\<not> (n \<in> set (lock_file_names a) \<and> lock_path root n \<in> set (held_paths (phs ! j)))" for n
    using both_hold [OF ok assms(2-4)] held assms(5) by auto
  show ?thesis
  proof (intro conjI allI impI ballI)
    fix p assume "p \<in> set (lock_paths root a)"
    then have "(i, Exclusive) \<in> holding ss phs p" using held assms(2,5) by (auto simp: holding_def lock_paths_def)
    moreover have "cell_ok ss phs p (holders w p)" using ok by (simp add: table_ok_def)
    ultimately show "holders w p = [(i, Exclusive)]" by (simp add: cell_ok_def)
  next
    fix b nb k assume "ss ! j = Writer b nb" "phs ! j = WriterIn k"
    then have "set (held_paths (phs ! j)) = lock_path root ` set (lock_file_names b)"
      using phase [OF assms(3)] by (simp add: held_paths_def lock_paths_def flip: set_map)
    with apart show "\<not> conflicts_with a b" by (auto simp: conflicts_with_def)
  next
    fix r deadline k fam
    assume "ss ! j = Reader r deadline" "phs ! j = ReaderIn k" and fam: "authorizes_file_family a fam"
    then have "set (held_paths (phs ! j)) = lock_path root ` set (read_lock_file_names r)"
      using phase [OF assms(3)] by (simp add: held_paths_def read_lock_paths_def flip: set_map)
    with apart writer_reader_share_lock [OF fam] show "\<not> reads_family r fam" by fastforce
  qed
qed

lemma demo_start:
  "reachable [RootDir] ss (map first_phase ss, empty_world)"
  by (rule reachable.start) (simp add: empty_world_free)

theorem lock_exclusion_witness:
  "\<exists>l k w. reachable [RootDir] [Writer ContentWrite False, Writer PlanSyncLocalPlan True] ([WriterIn l, WriterIn k], w) \<and>
     holders w (lock_path [RootDir] ''content.write.lock'') = [(0, Exclusive)] \<and>
     \<not> conflicts_with ContentWrite PlanSyncLocalPlan"
proof -
  let ?ss = "[Writer ContentWrite False, Writer PlanSyncLocalPlan True]"
  let ?one = "open_and_lock 0 (\<lambda>_. []) [RootDir] ContentWrite False empty_world"
  obtain l v where l: "?one = Some (Inr (Some l), v)" "calm v"
    using open_and_lock_calm [OF empty_world_free(1), of "[RootDir]" ContentWrite 0 "\<lambda>_. []" False] empty_world_free(2) by auto
  have "holders v (lock_path [RootDir] ''plan.write.lock'') = []"
    using open_and_lock_run [OF l(1)] fold_with_other [of _ "lock_guards l" "holders empty_world"]
    by (auto simp: taken_def lock_paths_def empty_world_free lock_path_inj simp flip: set_map)
  then obtain k w where k: "open_and_lock 1 (\<lambda>_. []) [RootDir] PlanSyncLocalPlan True v = Some (Inr (Some k), w)"
    using open_and_lock_calm [OF l(2), of "[RootDir]" PlanSyncLocalPlan 1 "\<lambda>_. []" True] by (auto simp: lock_paths_def)
  have r1: "reachable [RootDir] ?ss ([WriterIn l, WriterTakes OpenLockRoot], v)"
    using reachable_run [OF open_and_lock_steps [OF l(1)] demo_start, of ?ss] by simp
  have r2: "reachable [RootDir] ?ss ([WriterIn l, WriterIn k], w)"
    using reachable_run [OF open_and_lock_steps [OF k] r1] by simp
  from lock_exclusion [OF r2, of 0 1 ContentWrite False l] r2 show ?thesis by (auto simp: lock_paths_def)
qed

text \<open>
  C15. Nobody waits for ever: from every state the processes can get into, as soon as the system
  calls work again, the processes can be scheduled such that every one of them that has not given
  up takes all of its locks, enters and leaves, and the lock table is empty again.  The acquisition
  takes its locks in the order of their names, which makes a cycle of waiting processes impossible,
  and every way out of it gives back what it took.
\<close>

theorem lock_progress:
  assumes "reachable root ss (phs, w)" and "calm w"
  shows "\<exists>phs' w'. (lock_step root ss)\<^sup>*\<^sup>* (phs, w) (phs', w') \<and> length phs' = length ss \<and>
    (\<forall>i < length ss. phs' ! i = (if phs ! i = GaveUp then GaveUp else Finished)) \<and> (\<forall>p. holders w' p = [])"
  using all_can_finish reachable_table [OF assms(1)] assms(2) by simp

theorem lock_progress_witness:
  "\<exists>w'. (lock_step [RootDir] [Writer General False, Reader ReadAll 0, Writer Gc False])\<^sup>*\<^sup>*
     ([WriterTakes OpenLockRoot, ReaderTakes OpenReadRoot, WriterTakes OpenLockRoot], empty_world)
     ([Finished, Finished, Finished], w') \<and> (\<forall>p. holders w' p = [])"
proof -
  let ?ss = "[Writer General False, Reader ReadAll 0, Writer Gc False]"
  obtain phs' w' where run: "(lock_step [RootDir] ?ss)\<^sup>*\<^sup>* (map first_phase ?ss, empty_world) (phs', w')"
    "length phs' = 3" "\<forall>i < 3. phs' ! i = Finished" "\<forall>p. holders w' p = []"
    using lock_progress [OF demo_start [of ?ss] empty_world_free(1)] by (auto simp: less_Suc_eq numeral_3_eq_3)
  have "phs' = replicate 3 Finished" by (rule nth_equalityI) (use run(2,3) in simp_all)
  then have "phs' = [Finished, Finished, Finished]" by (simp add: numeral_3_eq_3)
  with run show ?thesis by auto
qed

section \<open>Waiting readers\<close>

definition passes_deadline :: "nat \<Rightarrow> wait_env \<Rightarrow> bool" where
  "passes_deadline deadline env \<longleftrightarrow> (\<exists>x \<in> set env. deadline \<le> fst x)"

lemma read_turn_returns: "read_turn owner root scope s w \<noteq> None"
  by (cases "(owner, root, scope, s, w)" rule: read_turn.cases)
    (auto simp: shared_never_blocks split: prod.splits sum.splits option.splits)

lemma read_run_returns:
  assumes "passes_deadline deadline env"
  shows "read_run owner deadline root scope s env w \<noteq> None"
  using assms
proof (induction owner deadline root scope s env w rule: read_run.induct)
  case (1 owner deadline root scope s env w)
  obtain a w1 where a: "read_turn owner root scope s w = Some (a, w1)"
    using read_turn_returns [of owner root scope s w] by auto
  obtain now f env' where env: "env = (now, f) # env'" using 1(3) by (cases env) (auto simp: passes_deadline_def)
  show ?case
  proof (cases a)
    case (Moved t)
    with a 1(1) [OF a refl Moved] 1(3) show ?thesis by (cases t) (simp_all add: read_run.simps [of owner _ _ _ s])
  next
    case (Refused ps locks d)
    obtain t w2 where t: "read_refused deadline now ps locks d w1 = (t, w2)" by fastforce
    show ?thesis
    proof (cases t)
      case (Return r)
      with a Refused env t show ?thesis by (simp add: read_run.simps [of owner _ _ _ s])
    next
      case (Continue s')
      then have "now < deadline" using t by (auto simp: read_refused_def split: if_splits prod.splits)
      then have "passes_deadline deadline env'" using 1(3) env by (simp add: passes_deadline_def)
      with 1(2) [OF a refl Refused env refl t [symmetric] Continue] Continue a Refused env t show ?thesis by (simp add: read_run.simps [of owner _ _ _ s])
    qed
  qed
qed

lemma spaced_readings_pass:
  assumes "\<forall>k < length env. start + READ_WAIT_INITIAL_DELAY_MS * k \<le> fst (env ! k)"
    and "length env \<ge> 401" and "deadline \<le> start + BINARY_DB_READ_WAIT_MS"
  shows "passes_deadline deadline env"
proof -
  have "start + READ_WAIT_INITIAL_DELAY_MS * 400 \<le> fst (env ! 400)" using assms(1,2) by simp
  then have "deadline \<le> fst (env ! 400)"
    using assms(3) by (simp add: READ_WAIT_INITIAL_DELAY_MS_def BINARY_DB_READ_WAIT_MS_def)
  then show ?thesis using assms(2) by (auto simp: passes_deadline_def intro!: bexI [of _ "env ! 400"])
qed

text \<open>
  C32. A reader does not wait for ever: every retry sleeps at least the initial delay, so with the
  default waiting time at most 401 clock readings are needed until the acquisition of the whole
  read lock set returns, with the set, with busy or with an error.
\<close>

theorem read_lock_returns:
  assumes "\<forall>k < length env. start + READ_WAIT_INITIAL_DELAY_MS * k \<le> fst (env ! k)"
    and "length env \<ge> 401" and "deadline \<le> start + BINARY_DB_READ_WAIT_MS"
  shows "\<exists>r env' w'. try_acquire_read_lock owner deadline root scope env w = Some (r, env', w')"
  using read_run_returns [OF spaced_readings_pass [OF assms]] by (auto simp: try_acquire_read_lock_def)

theorem read_lock_returns_witness:
  "\<exists>r env' w'. try_acquire_read_lock 1 10000 [RootDir, Normal ''db''] ReadAll (map (\<lambda>k. (25 * k, \<lambda>w. w)) [0..<401]) empty_world
     = Some (r, env', w')"
  by (rule read_lock_returns [where start = 0])
    (simp_all add: READ_WAIT_INITIAL_DELAY_MS_def BINARY_DB_READ_WAIT_MS_def)

end
