(* ===== verification/Write_Txn.thy ===== *)
theory Write_Txn
  imports Lock_Sets Store_Laws
begin

text \<open>
  Write and read transactions (\<open>binary_db/write_txn.rs\<close>, \<open>binary_db/read_txn.rs\<close>,
  \<open>binary_db/fsync_policy.rs\<close>).  A write transaction holds the lock set of its command and
  keeps an undo log: the length of every file before its first write and the bytes of every record
  before its first overwrite.  Its methods run on the transaction and the world together, so a
  method that fails keeps what it had already tracked.
\<close>

section \<open>State\<close>

record BinaryDbRollbackFile =
  rollback_path :: path
  existed :: bool
  rollback_len :: nat

record BinaryDbRollbackRecord =
  rollback_file :: BinaryFileId
  rollback_index :: u32
  rollback_bytes :: bytes

record BinaryDbCommitOutcome =
  lock_cleanup_warning :: "BinaryDbErrorKind option"

definition committed_cleanly :: "BinaryDbCommitOutcome \<Rightarrow> bool" where
  "committed_cleanly out \<longleftrightarrow> lock_cleanup_warning out = None"

datatype BinaryDbFsyncPolicy = StoreFsync | NoopFsync | StdFsync

record BinaryDbWriteTxn =
  txn_lock :: BinaryDbCommandLockSet
  write_context :: BinaryWriteContext
  fsync_policy :: BinaryDbFsyncPolicy
  touched_files :: "path list"
  touched_directories :: "path list"
  rollback_files :: "BinaryDbRollbackFile list"
  rollback_records :: "BinaryDbRollbackRecord list"
  index_cache :: BinaryDbReadCache
  commit_outcome :: "BinaryDbCommitOutcome option"
  finished :: bool

type_synonym 'a txn_io = "(BinaryDbWriteTxn \<times> io_world, BinaryDbErrorKind, 'a) io"

fun policy_sync_file :: "LocalBinaryDbFs \<Rightarrow> BinaryDbFsyncPolicy \<Rightarrow> path \<Rightarrow> unit store_io" where
  "policy_sync_file db StoreFsync p = db_sync_file db p"
| "policy_sync_file db NoopFsync p = io_return ()"
| "policy_sync_file db StdFsync p = store_io (sync_file p)"

fun policy_sync_directory :: "LocalBinaryDbFs \<Rightarrow> BinaryDbFsyncPolicy \<Rightarrow> path \<Rightarrow> unit store_io" where
  "policy_sync_directory db StoreFsync p = db_sync_directory db p"
| "policy_sync_directory db NoopFsync p = io_return ()"
| "policy_sync_directory db StdFsync p = store_io (sync_dir p)"

text \<open>The transaction id comes from a process-wide counter, so it is an argument.\<close>

definition new_txn :: "BinaryDbCommandLockSet \<Rightarrow> nat \<Rightarrow> BinaryDbCommandScope \<Rightarrow> BinaryDbFsyncPolicy \<Rightarrow> BinaryDbWriteTxn" where
  "new_txn lock txid scope policy =
     \<lparr>txn_lock = lock, write_context = \<lparr>transaction_id = txid, command_scope = scope, active = True\<rparr>,
      fsync_policy = policy, touched_files = [], touched_directories = [], rollback_files = [],
      rollback_records = [], index_cache = empty_read_cache, commit_outcome = None, finished = False\<rparr>"

definition begin_with_fsync_policy ::
    "LocalBinaryDbFs \<Rightarrow> nat \<Rightarrow> (path \<Rightarrow> bytes) \<Rightarrow> nat \<Rightarrow> BinaryDbCommandScope \<Rightarrow> BinaryDbFsyncPolicy \<Rightarrow> io_world \<Rightarrow>
     (BinaryDbWriteTxn store_result \<times> io_world) option" where
  "begin_with_fsync_policy db owner metadata txid scope policy w =
     map_option (\<lambda>(r, w'). (res_bind r (\<lambda>lock. Inr (new_txn lock txid scope policy)), w'))
       (acquire_command_lock db owner metadata scope w)"

section \<open>Guards and tracking\<close>

definition ensure_write_open :: "BinaryDbWriteTxn \<Rightarrow> unit store_result" where
  "ensure_write_open t = (if finished t then Inl InvalidDomainData else ensure_active (write_context t))"

definition ensure_commit_open :: "BinaryDbWriteTxn \<Rightarrow> unit store_result" where
  "ensure_commit_open t = (if finished t then Inl InvalidDomainData else Inr ())"

definition check_open :: "unit txn_io" where
  "check_open = io_bind io_get (\<lambda>t. io_lift (ensure_write_open t))"

definition track_absolute_file :: "path \<Rightarrow> BinaryDbWriteTxn \<Rightarrow> BinaryDbWriteTxn" where
  "track_absolute_file p t =
     (let t1 = (if p \<in> set (touched_files t) then t else t\<lparr>touched_files := touched_files t @ [p]\<rparr>)
      in case path_parent p of
           None \<Rightarrow> t1
         | Some parent \<Rightarrow>
             if parent \<in> set (touched_directories t1) then t1
             else t1\<lparr>touched_directories := touched_directories t1 @ [parent]\<rparr>)"

definition track_relative_path :: "LocalBinaryDbFs \<Rightarrow> path \<Rightarrow> unit txn_io" where
  "track_relative_path db p =
     io_bind (io_lift (store_path_for (authority_root db) p)) (\<lambda>abs. io_update (track_absolute_file abs))"

definition push_rollback_file :: "path \<Rightarrow> nat option \<Rightarrow> BinaryDbWriteTxn \<Rightarrow> BinaryDbWriteTxn" where
  "push_rollback_file p len t =
     t\<lparr>rollback_files := rollback_files t @
         [case len of Some n \<Rightarrow> \<lparr>rollback_path = p, existed = True, rollback_len = n\<rparr>
                    | None \<Rightarrow> \<lparr>rollback_path = p, existed = False, rollback_len = 0\<rparr>]\<rparr>"

definition track_absolute_file_for_write :: "path \<Rightarrow> unit txn_io" where
  "track_absolute_file_for_write p =
     io_bind io_get (\<lambda>t.
     io_bind (if p \<in> set (map rollback_path (rollback_files t)) then io_return ()
              else io_bind (io_over (db_metadata_len p)) (\<lambda>len. io_update (push_rollback_file p len))) (\<lambda>_.
       io_update (track_absolute_file p)))"

definition track_relative_path_for_write :: "LocalBinaryDbFs \<Rightarrow> path \<Rightarrow> unit txn_io" where
  "track_relative_path_for_write db p =
     io_bind (io_lift (store_path_for (authority_root db) p)) track_absolute_file_for_write"

section \<open>Writing\<close>

definition with_context :: "(BinaryWriteContext \<Rightarrow> 'a store_io) \<Rightarrow> 'a txn_io" where
  "with_context m = io_bind io_get (\<lambda>t. io_over (m (write_context t)))"

definition txn_append_record :: "LocalBinaryDbFs \<Rightarrow> BinaryFileId \<Rightarrow> bytes \<Rightarrow> u32 txn_io" where
  "txn_append_record db file record =
     io_bind check_open (\<lambda>_.
     io_bind (track_relative_path_for_write db (file_relative_path file)) (\<lambda>_.
       with_context (append_record db file record)))"

definition txn_append_records :: "LocalBinaryDbFs \<Rightarrow> BinaryFileId \<Rightarrow> bytes \<Rightarrow> (u32 \<times> u32) txn_io" where
  "txn_append_records db file records =
     io_bind check_open (\<lambda>_.
     io_bind (track_relative_path_for_write db (file_relative_path file)) (\<lambda>_.
       with_context (append_records db file records)))"

definition remember_record :: "LocalBinaryDbFs \<Rightarrow> BinaryFileId \<Rightarrow> u32 \<Rightarrow> unit txn_io" where
  "remember_record db file i =
     io_bind io_get (\<lambda>t.
       if \<exists>e \<in> set (rollback_records t). rollback_file e = file \<and> rollback_index e = i then io_return ()
       else io_bind (io_over (read_record db file i)) (\<lambda>bytes.
            io_update (\<lambda>t. t\<lparr>rollback_records := rollback_records t @
              [\<lparr>rollback_file = file, rollback_index = i, rollback_bytes = bytes\<rparr>]\<rparr>)))"

definition txn_overwrite_record :: "LocalBinaryDbFs \<Rightarrow> BinaryFileId \<Rightarrow> u32 \<Rightarrow> bytes \<Rightarrow> unit txn_io" where
  "txn_overwrite_record db file i record =
     io_bind check_open (\<lambda>_.
     io_bind (track_relative_path_for_write db (file_relative_path file)) (\<lambda>_.
     io_bind (remember_record db file i) (\<lambda>_.
       with_context (overwrite_record db file i record))))"

definition txn_append_payload :: "LocalBinaryDbFs \<Rightarrow> BinaryPayloadFileId \<Rightarrow> bytes \<Rightarrow> PayloadRange txn_io" where
  "txn_append_payload db file bytes =
     io_bind check_open (\<lambda>_.
     io_bind (track_relative_path_for_write db (payload_relative_path file)) (\<lambda>_.
       with_context (append_payload db file bytes)))"

definition forget_cached_index :: "BinaryIndexId \<Rightarrow> bytes \<Rightarrow> u32 \<Rightarrow> BinaryDbReadCache \<Rightarrow> BinaryDbReadCache" where
  "forget_cached_index index key record_index c =
     (let c1 = c\<lparr>index_files := (index_files c)(index := None)\<rparr>
      in case parsed_index_candidates c1 index of
           None \<Rightarrow> c1
         | Some parsed \<Rightarrow> c1\<lparr>parsed_index_candidates :=
             (parsed_index_candidates c1)(index \<mapsto> push_candidate parsed key record_index)\<rparr>)"

definition txn_append_index_candidate :: "LocalBinaryDbFs \<Rightarrow> BinaryIndexId \<Rightarrow> bytes \<Rightarrow> u32 \<Rightarrow> unit txn_io" where
  "txn_append_index_candidate db index key record_index =
     io_bind check_open (\<lambda>_.
     io_bind (track_relative_path_for_write db (index_relative_path index)) (\<lambda>_.
     io_bind (with_context (append_index_candidate db index key record_index)) (\<lambda>_.
       io_update (\<lambda>t. t\<lparr>index_cache := forget_cached_index index key record_index (index_cache t)\<rparr>))))"

definition txn_lookup_index :: "LocalBinaryDbFs \<Rightarrow> BinaryIndexId \<Rightarrow> bytes \<Rightarrow> u32 list txn_io" where
  "txn_lookup_index db index key = (\<lambda>(t, w).
     case lookup_index_in_read_txn db index key (index_cache t, w) of
       (r, (c, w')) \<Rightarrow> (r, (t\<lparr>index_cache := c\<rparr>, w')))"

section \<open>Committing\<close>

fun sync_files :: "LocalBinaryDbFs \<Rightarrow> BinaryDbFsyncPolicy \<Rightarrow> path list \<Rightarrow> unit store_io" where
  "sync_files db policy [] = io_return ()"
| "sync_files db policy (p # ps) = io_bind (policy_sync_file db policy p) (\<lambda>_. sync_files db policy ps)"

fun sync_directories :: "LocalBinaryDbFs \<Rightarrow> BinaryDbFsyncPolicy \<Rightarrow> path list \<Rightarrow> unit store_io" where
  "sync_directories db policy [] = io_return ()"
| "sync_directories db policy (p # ps) =
     io_bind (policy_sync_directory db policy p) (\<lambda>_. sync_directories db policy ps)"

definition sync_touched_dependencies :: "LocalBinaryDbFs \<Rightarrow> unit txn_io" where
  "sync_touched_dependencies db =
     io_bind io_get (\<lambda>t. io_over
       (io_bind (sync_files db (fsync_policy t) (touched_files t)) (\<lambda>_.
          sync_directories db (fsync_policy t) (touched_directories t))))"

definition txn_release_lock :: "unit txn_io" where
  "txn_release_lock = (\<lambda>(t, w).
     case release_lock_set (txn_lock t, w) of (r, (l, w')) \<Rightarrow> (r, (t\<lparr>txn_lock := l\<rparr>, w')))"

definition close_txn :: "BinaryDbWriteTxn \<Rightarrow> BinaryDbWriteTxn" where
  "close_txn t = t\<lparr>rollback_files := [], rollback_records := [],
     write_context := finish_context (write_context t), finished := True\<rparr>"

definition txn_release_warning :: "BinaryDbErrorKind option txn_io" where
  "txn_release_warning s =
     (case txn_release_lock s of (Inl e, s') \<Rightarrow> (Inr (Some e), s') | (Inr _, s') \<Rightarrow> (Inr None, s'))"

definition finish_committed :: "LocalBinaryDbFs \<Rightarrow> BinaryDbCommitOutcome txn_io" where
  "finish_committed db =
     io_bind (io_update close_txn) (\<lambda>_.
     io_bind txn_release_warning (\<lambda>warning.
     let outcome = \<lparr>lock_cleanup_warning = warning\<rparr> in
     io_bind (io_update (\<lambda>t. t\<lparr>commit_outcome := Some outcome\<rparr>)) (\<lambda>_.
     io_bind io_get (\<lambda>t.
     io_bind (if touched_files t \<noteq> [] \<or> touched_directories t \<noteq> []
              then io_over (checkpoint_directory db) else io_return ()) (\<lambda>_.
       io_return outcome)))))"

definition finish_crossed_commit_point :: "BinaryDbErrorKind option txn_io" where
  "finish_crossed_commit_point = io_bind (io_update close_txn) (\<lambda>_. txn_release_warning)"

definition commit :: "LocalBinaryDbFs \<Rightarrow> BinaryDbCommitOutcome txn_io" where
  "commit db =
     io_bind io_get (\<lambda>t. case commit_outcome t of
       Some outcome \<Rightarrow> io_bind (io_over (checkpoint_directory db)) (\<lambda>_. io_return outcome)
     | None \<Rightarrow>
         io_bind (io_lift (ensure_commit_open t)) (\<lambda>_.
         io_bind (sync_touched_dependencies db) (\<lambda>_.
           finish_committed db)))"

definition publish_marker :: "LocalBinaryDbFs \<Rightarrow> BinaryFileId \<Rightarrow> u32 \<Rightarrow> u8 \<Rightarrow> path \<Rightarrow> unit txn_io" where
  "publish_marker db file i marker p =
     io_bind (with_context (overwrite_record_marker db file i marker)) (\<lambda>_.
     io_bind io_get (\<lambda>t. io_over (policy_sync_file db (fsync_policy t) p)))"

definition commit_with_record_marker ::
    "LocalBinaryDbFs \<Rightarrow> BinaryFileId \<Rightarrow> u32 \<Rightarrow> u8 \<Rightarrow> BinaryDbCommitOutcome txn_io" where
  "commit_with_record_marker db file i marker =
     io_bind check_open (\<lambda>_.
     io_bind (io_lift (store_path_for (authority_root db) (file_relative_path file))) (\<lambda>p.
     io_bind io_get (\<lambda>t.
     if p \<notin> set (touched_files t) then io_fail InvalidDomainData
     else
     io_bind (sync_touched_dependencies db) (\<lambda>_ s.
       case publish_marker db file i marker p s of
         (Inl e, s') \<Rightarrow> (Inl e, snd (finish_crossed_commit_point s'))
       | (Inr _, s') \<Rightarrow> finish_committed db s'))))"

definition commit_with_atomic_file_replacement ::
    "LocalBinaryDbFs \<Rightarrow> string \<Rightarrow> BinaryFileId \<Rightarrow> bytes \<Rightarrow> BinaryDbCommitOutcome txn_io" where
  "commit_with_atomic_file_replacement db tag file bytes =
     io_bind io_get (\<lambda>t. case commit_outcome t of
       Some outcome \<Rightarrow> io_bind (io_over (checkpoint_directory db)) (\<lambda>_. io_return outcome)
     | None \<Rightarrow>
     io_bind (io_lift (ensure_commit_open t)) (\<lambda>_.
     io_bind (io_lift (ensure_authorized_path (write_context t) (file_relative_path file))) (\<lambda>_.
     io_bind (io_lift (store_path_for (authority_root db) (file_relative_path file))) (\<lambda>target.
     if target \<in> set (touched_files t) then io_fail InvalidDomainData
     else
     io_bind (sync_touched_dependencies db) (\<lambda>_.
     io_bind (io_over (replace_file_atomically db tag target bytes)) (\<lambda>staging_directory.
     case path_parent target of
       None \<Rightarrow> io_fail InvalidDomainData
     | Some target_directory \<Rightarrow> (\<lambda>s.
         case io_over (policy_sync_directory db (fsync_policy t) target_directory) s of
           (Inl e, s') \<Rightarrow> (Inl e, snd (finish_crossed_commit_point s'))
         | (Inr _, s') \<Rightarrow>
             finish_committed db
               (if staging_directory \<noteq> target_directory
                then snd (io_over (policy_sync_directory db (fsync_policy t) staging_directory) s') else s'))))))))"

section \<open>Rolling back\<close>

fun undo_records :: "LocalBinaryDbFs \<Rightarrow> BinaryWriteContext \<Rightarrow> BinaryDbRollbackRecord list \<Rightarrow> unit store_io" where
  "undo_records db wc [] = io_return ()"
| "undo_records db wc (e # es) =
     io_bind (overwrite_record db (rollback_file e) (rollback_index e) (rollback_bytes e) wc) (\<lambda>_.
       undo_records db wc es)"

fun undo_files :: "BinaryDbRollbackFile list \<Rightarrow> unit store_io" where
  "undo_files [] = io_return ()"
| "undo_files (e # es) =
     io_bind (if existed e then recovery_truncate_file (rollback_path e) (rollback_len e)
              else recovery_remove_file_if_exists (rollback_path e)) (\<lambda>_.
       undo_files es)"

definition rollback_uncommitted_files :: "LocalBinaryDbFs \<Rightarrow> unit txn_io" where
  "rollback_uncommitted_files db =
     io_bind io_get (\<lambda>t.
     io_bind (io_over (undo_records db (write_context t) (rev (rollback_records t)))) (\<lambda>_.
     io_bind (io_update (\<lambda>t. t\<lparr>rollback_records := []\<rparr>)) (\<lambda>_.
     io_bind (io_over (undo_files (rev (rollback_files t)))) (\<lambda>_.
       io_update (\<lambda>t. t\<lparr>rollback_files := []\<rparr>)))))"

definition abort :: "LocalBinaryDbFs \<Rightarrow> unit txn_io" where
  "abort db =
     io_bind io_get (\<lambda>t.
     if finished t then io_return ()
     else
     io_bind (rollback_uncommitted_files db) (\<lambda>_.
     io_bind (io_update (\<lambda>t. t\<lparr>touched_files := [], touched_directories := [],
                write_context := finish_context (write_context t)\<rparr>)) (\<lambda>_.
     io_bind txn_release_lock (\<lambda>_.
       io_update (\<lambda>t. t\<lparr>finished := True\<rparr>)))))"

definition drop_txn :: "LocalBinaryDbFs \<Rightarrow> BinaryDbWriteTxn \<Rightarrow> io_world \<Rightarrow> io_world" where
  "drop_txn db t w =
     (if finished t then drop_lock_set (txn_lock t) w
      else case rollback_uncommitted_files db (t, w) of
             (_, (t1, w1)) \<Rightarrow> (case txn_release_lock (t1, w1) of (_, (t2, w2)) \<Rightarrow> drop_lock_set (txn_lock t2) w2))"

section \<open>Read transactions\<close>

record BinaryDbReadTxn =
  read_lock :: "BinaryDbReadLockSet store_result"
  read_cache :: BinaryDbReadCache

type_synonym 'a read_txn_io = "(BinaryDbReadTxn \<times> io_world, BinaryDbErrorKind, 'a) io"

definition new_read_txn ::
    "LocalBinaryDbFs \<Rightarrow> nat \<Rightarrow> nat \<Rightarrow> BinaryDbReadScope \<Rightarrow> wait_env \<Rightarrow> io_world \<Rightarrow>
     (BinaryDbReadTxn \<times> wait_env \<times> io_world) option" where
  "new_read_txn db owner deadline scope env w =
     map_option (\<lambda>(r, env', w'). (\<lparr>read_lock = r, read_cache = empty_read_cache\<rparr>, env', w'))
       (acquire_read_lock_for_scope db owner deadline scope env w)"

definition read_guard :: "unit read_txn_io" where
  "read_guard = io_bind io_get (\<lambda>t. io_lift (res_bind (read_lock t) (\<lambda>_. Inr ())))"

definition on_cache :: "'a cached_io \<Rightarrow> 'a read_txn_io" where
  "on_cache m = (\<lambda>(t, w). case m (read_cache t, w) of (r, (c, w')) \<Rightarrow> (r, (t\<lparr>read_cache := c\<rparr>, w')))"

definition read_txn_layout_id :: "LocalBinaryDbFs \<Rightarrow> BinaryFileId \<Rightarrow> u32 read_txn_io" where
  "read_txn_layout_id db file =
     io_bind read_guard (\<lambda>_.
     io_bind io_get (\<lambda>t. case layout_ids (read_cache t) file of
       Some l \<Rightarrow> io_return l
     | None \<Rightarrow>
         io_bind (io_over (layout_id db file)) (\<lambda>l.
         io_bind (on_cache (io_update (\<lambda>c. c\<lparr>layout_ids := (layout_ids c)(file \<mapsto> l)\<rparr>))) (\<lambda>_.
           io_return l))))"

definition read_txn_record_count :: "LocalBinaryDbFs \<Rightarrow> BinaryFileId \<Rightarrow> u32 read_txn_io" where
  "read_txn_record_count db file = io_bind read_guard (\<lambda>_. io_over (record_count db file))"

definition read_txn_read_record :: "LocalBinaryDbFs \<Rightarrow> BinaryFileId \<Rightarrow> u32 \<Rightarrow> bytes read_txn_io" where
  "read_txn_read_record db file i = io_bind read_guard (\<lambda>_. on_cache (read_record_in_read_txn db file i))"

definition read_txn_read_payload :: "LocalBinaryDbFs \<Rightarrow> BinaryPayloadFileId \<Rightarrow> nat \<Rightarrow> u32 \<Rightarrow> bytes read_txn_io" where
  "read_txn_read_payload db file off len = io_bind read_guard (\<lambda>_. io_over (read_payload db file off len))"

definition read_txn_lookup_index :: "LocalBinaryDbFs \<Rightarrow> BinaryIndexId \<Rightarrow> bytes \<Rightarrow> u32 list read_txn_io" where
  "read_txn_lookup_index db index key = io_bind read_guard (\<lambda>_. on_cache (lookup_index_in_read_txn db index key))"

end
