(* ===== verification/Txn_Undo.thy ===== *)
theory Txn_Undo
  imports Write_Txn
begin

text \<open>
  The undo log of a write transaction.  Every operation, whether it returns or fails in the middle
  of a write, keeps the invariant that playing the log back would restore the files as they were
  when the transaction began; aborting plays it back.
\<close>

section \<open>What an operation may do to a file, failures included\<close>

definition grows :: "path \<Rightarrow> io_world \<Rightarrow> io_world \<Rightarrow> bool" where
  "grows p w w' \<longleftrightarrow> files w' = files w \<or> (\<exists>xs. files w' = (files w)(p \<mapsto> file_or_empty w p @ xs))"

lemma grows_reflp: "reflp (grows p)"
  by (simp add: reflp_def grows_def)

lemma grows_transp: "transp (grows p)"
proof (rule transpI)
  fix w v u
  assume wv: "grows p w v" and vu: "grows p v u"
  show "grows p w u"
  proof (cases "files v = files w")
    case True
    then have "file_or_empty v p = file_or_empty w p" by (simp add: file_or_empty_def)
    with True vu show ?thesis by (simp add: grows_def)
  next
    case False
    then obtain xs where xs: "files v = (files w)(p \<mapsto> file_or_empty w p @ xs)" using wv by (auto simp: grows_def)
    then have "file_or_empty v p = file_or_empty w p @ xs" by (simp add: file_or_empty_def)
    with xs vu show ?thesis by (auto simp: grows_def)
  qed
qed

lemma quiet_grows: "io_keeps quiet m \<Longrightarrow> io_keeps (grows p) m"
  by (auto simp: io_keeps_def quiet_def grows_def)

lemmas grows_rules = io_keeps_pure [OF grows_reflp] io_keeps_bind [OF grows_transp]

lemma io_keeps_if: "(b \<Longrightarrow> io_keeps R m) \<Longrightarrow> (\<not> b \<Longrightarrow> io_keeps R n) \<Longrightarrow> io_keeps R (if b then m else n)"
  by (cases b) simp_all

lemma io_keeps_case_option:
  "(\<And>x. io_keeps R (f x)) \<Longrightarrow> io_keeps R n \<Longrightarrow> io_keeps R (case a of None \<Rightarrow> n | Some x \<Rightarrow> f x)"
  by (cases a) simp_all

lemma io_keeps_path:
  assumes "reflp R" and "io_keeps R (k (path_join (authority_root db) rel))"
  shows "io_keeps R (io_bind (file_path_for db rel) k)"
proof (rule io_keepsI)
  fix w r w'
  assume run: "io_bind (file_path_for db rel) k w = (r, w')"
  show "R w w'"
  proof (cases "path_value db rel w")
    case (Inl e)
    with run assms(1) show ?thesis by (simp add: file_path_for_run io_bind_apply reflp_def)
  next
    case (Inr p)
    with run path_value_ok [OF Inr] have "k (path_join (authority_root db) rel) w = (r, w')"
      by (simp add: file_path_for_run io_bind_apply)
    with assms(2) show ?thesis by (rule io_keepsD)
  qed
qed

lemma append_bytes_grows: "io_keeps (grows p) (append_bytes p bs)"
proof (rule io_keepsI)
  fix w r w'
  assume run: "append_bytes p bs w = (r, w')"
  show "grows p w w'"
  proof (cases r)
    case (Inl e)
    with append_bytes_err [of p bs w e w'] run show ?thesis by (auto simp: grows_def quiet_def)
  next
    case (Inr n)
    with append_bytes_ok(2) [of p bs w n w'] run show ?thesis by (auto simp: grows_def)
  qed
qed

lemma append_at_grows: "io_keeps (grows p) (append_at p bs off)"
  unfolding append_at_def by (intro grows_rules store_io_keeps append_bytes_grows io_keeps_if)

lemma append_header_grows: "io_keeps (grows p) (append_header p layout)"
  unfolding append_header_def by (intro grows_rules store_io_keeps append_bytes_grows io_keeps_if)

lemmas quiet_ops_grow =
  quiet_grows [OF readsD_keeps [OF ensure_parent_directory_reads]]
  quiet_grows [OF readsD_keeps [OF db_metadata_len_reads]]
  quiet_grows [OF readsD_keeps [OF ensure_binary_file_valid_reads]]
  quiet_grows [OF readsD_keeps [OF u32_try_from_reads]]
  quiet_grows [OF readsD_keeps [OF validate_payload_reads]]
  quiet_grows [OF readsD_keeps [OF store_io_reads [OF metadata_len_reads]]]

lemma validate_index_layout_grows: "io_keeps (grows p) (validate_index_file_layout q layout len)"
  unfolding validate_index_file_layout_def
  by (intro grows_rules quiet_grows [OF readsD_keeps [OF store_io_reads [OF read_range_reads]]])

lemma append_record_grows:
  "steady db \<Longrightarrow> io_keeps (grows (record_path db f)) (append_record db f r wc)"
  unfolding append_record_def file_path_for_binary_record_def Let_def
  by (intro grows_rules io_keeps_if io_keeps_path grows_reflp io_keeps_case_option;
      (intro quiet_ops_grow quiet_grows [OF readsD_keeps [OF record_count_reads]])?)
    (auto simp: record_path_def intro: append_header_grows append_at_grows)

lemma append_records_grows:
  "steady db \<Longrightarrow> io_keeps (grows (record_path db f)) (append_records db f bs wc)"
  unfolding append_records_def file_path_for_binary_record_def Let_def case_prod_beta
  by (intro grows_rules io_keeps_if io_keeps_path grows_reflp io_keeps_case_option;
      (intro quiet_ops_grow quiet_grows [OF readsD_keeps [OF record_count_reads]])?)
    (auto simp: record_path_def intro: append_header_grows append_at_grows)

lemma append_payload_grows:
  "io_keeps (grows (path_join (authority_root db) (payload_relative_path f))) (append_payload db f bs wc)"
  unfolding append_payload_def file_path_for_payload_def
  by (intro grows_rules io_keeps_if io_keeps_path grows_reflp io_keeps_case_option;
      (intro quiet_ops_grow)?)
    (auto intro: append_header_grows append_at_grows)

lemma append_index_grows:
  "io_keeps (grows (path_join (authority_root db) (index_relative_path idx))) (append_index_candidate db idx k i wc)"
  unfolding append_index_candidate_def file_path_for_index_def Let_def
  by (intro grows_rules io_keeps_if io_keeps_path grows_reflp io_keeps_case_option;
      (intro quiet_ops_grow validate_index_layout_grows)?)
    (auto intro: append_header_grows append_at_grows)

lemma overwrite_record_run:
  assumes "steady db" and "overwrite_record db f i r wc w = (res, w')"
  shows "files w' = files w \<or>
    (\<exists>n b. files w (record_path db f) = Some b \<and> record_offset f i + length r \<le> length b \<and>
       length r = unat (file_record_size f) \<and>
       files w' = (files w)(record_path db f \<mapsto> splice_bytes (record_offset f i) (take n r) b))"
proof (cases res)
  case (Inr u)
  from assms(1) assms(2) [unfolded Inr] obtain p b n where
    "path_value db (file_relative_path f) w = Inr p" "files w p = Some b" "length r = unat (file_record_size f)"
    "record_offset f i + length r \<le> length b" "files w' = (files w)(p \<mapsto> splice_bytes (record_offset f i) r b)"
    by (rule overwrite_record_ok) blast
  then show ?thesis
    using count_value_eq(1) by (intro disjI2 exI [of _ "length r"] exI [of _ b]) simp
next
  case (Inl e)
  let ?auth = "ensure_authorized_path wc (file_relative_path f)" and ?p = "record_path db f"
  show ?thesis
  proof (cases "\<exists>n. is_ok ?auth \<and> length r = unat (file_record_size f) \<and> is_ok (path_value db (file_relative_path f) w) \<and>
      fst (record_count db f w) = Inr n \<and> i < n \<and> record_offset f i < 2 ^ 64")
    case False
    note rc = record_count_reads [OF assms(1), of f]
    obtain q v where q: "record_count db f w = (q, v)" by fastforce
    have "files v = files w" using readsD_quiet [OF rc q] by (simp add: quiet_def)
    with False assms(2) q have "files w' = files w"
      by (cases ?auth; cases "path_value db (file_relative_path f) w"; cases q)
        (auto simp: overwrite_record_def file_path_for_binary_record_def file_path_for_run io_bind_apply split: if_splits)
    then show ?thesis by blast
  next
    case True
    then obtain n p v where ok: "?auth = Inr ()" "length r = unat (file_record_size f)"
      "path_value db (file_relative_path f) w = Inr p" "record_count db f w = (Inr n, v)" "i < n" "record_offset f i < 2 ^ 64"
      by (cases "record_count db f w") (auto simp: is_ok_iff)
    have q: "files v = files w" using readsD_quiet [OF record_count_reads [OF assms(1)] ok(4)] by (simp add: quiet_def)
    have p: "p = ?p" using count_value_eq(1) [OF ok(3)] .
    from ok assms(2) Inl have "store_io (overwrite_range ?p (record_offset f i) r) v = (Inl e, w')"
      by (auto simp: overwrite_record_def file_path_for_binary_record_def file_path_for_run io_bind_apply p split: if_splits)
    then obtain d where "overwrite_range ?p (record_offset f i) r v = (Inl d, w')" by (auto simp: store_io_err)
    from overwrite_range_err [OF this] q ok(2) show ?thesis by (auto simp: quiet_def)
  qed
qed

section \<open>Playing back before-images\<close>

definition undo_bytes :: "(nat \<times> bytes) list \<Rightarrow> bytes \<Rightarrow> bytes" where
  "undo_bytes es b = foldr (\<lambda>(off, bs) b. splice_bytes off bs b) es b"

definition in_range :: "(nat \<times> bytes) list \<Rightarrow> nat \<Rightarrow> bool" where
  "in_range es n \<longleftrightarrow> (\<forall>(off, bs) \<in> set es. off + length bs \<le> n)"

definition covering :: "(nat \<times> bytes) list \<Rightarrow> nat \<Rightarrow> (nat \<times> bytes) option" where
  "covering es x = find (\<lambda>(off, bs). off \<le> x \<and> x < off + length bs) es"

lemma undo_bytes_simps [simp]:
  "undo_bytes [] b = b"
  "undo_bytes ((off, bs) # es) b = splice_bytes off bs (undo_bytes es b)"
  "undo_bytes (es @ [(off, bs)]) b = undo_bytes es (splice_bytes off bs b)"
  by (simp_all add: undo_bytes_def)

lemma in_range_simps [simp]:
  "in_range [] n"
  "in_range ((off, bs) # es) n \<longleftrightarrow> off + length bs \<le> n \<and> in_range es n"
  "in_range (es @ es') n \<longleftrightarrow> in_range es n \<and> in_range es' n"
  by (auto simp: in_range_def)

lemma in_range_mono: "in_range es n \<Longrightarrow> n \<le> m \<Longrightarrow> in_range es m"
  by (fastforce simp: in_range_def)

lemma length_undo_bytes [simp]: "in_range es (length b) \<Longrightarrow> length (undo_bytes es b) = length b"
  by (induction es) auto

text \<open>Each byte is restored from the first entry that covers it.\<close>

lemma undo_bytes_nth:
  assumes "in_range es (length b)" and "x < length b"
  shows "undo_bytes es b ! x = (case covering es x of Some (off, bs) \<Rightarrow> bs ! (x - off) | None \<Rightarrow> b ! x)"
  using assms
proof (induction es)
  case Nil
  then show ?case by (simp add: covering_def)
next
  case (Cons e es)
  obtain off bs where e: "e = (off, bs)" by fastforce
  from Cons.prems e have r: "off + length bs \<le> length (undo_bytes es b)" "x < length (undo_bytes es b)" by auto
  show ?case
    using Cons e splice_nth [OF r] by (auto simp: covering_def)
qed

lemma undo_bytes_append:
  assumes "in_range es (length b)"
  shows "undo_bytes es (b @ xs) = undo_bytes es b @ xs"
  using assms
proof (induction es)
  case (Cons e es)
  then show ?case by (cases e) (auto simp: splice_bytes_def)
qed simp

lemma undo_bytes_covered:
  assumes "in_range es (length b)" and "(off, old) \<in> set es" and "length bs \<le> length old"
  shows "undo_bytes es (splice_bytes off bs b) = undo_bytes es b"
proof -
  have fit: "off + length bs \<le> length b" using assms by (fastforce simp: in_range_def)
  then have len: "length (splice_bytes off bs b) = length b" by simp
  show ?thesis
  proof (rule nth_equalityI)
    show "length (undo_bytes es (splice_bytes off bs b)) = length (undo_bytes es b)"
      using assms(1) len by simp
  next
    fix x assume "x < length (undo_bytes es (splice_bytes off bs b))"
    then have x: "x < length b" using assms(1) len by simp
    have "splice_bytes off bs b ! x = b ! x" if "covering es x = None"
    proof -
      have "\<not> (off \<le> x \<and> x < off + length old)"
        using that assms(2) by (auto simp: covering_def find_None_iff)
      with assms(3) splice_nth [OF fit x] show ?thesis by auto
    qed
    with x len assms(1) show "undo_bytes es (splice_bytes off bs b) ! x = undo_bytes es b ! x"
      by (auto simp: undo_bytes_nth split: option.splits)
  qed
qed

section \<open>The invariant\<close>

definition entries_of :: "LocalBinaryDbFs \<Rightarrow> path \<Rightarrow> BinaryDbRollbackRecord list \<Rightarrow> (nat \<times> bytes) list" where
  "entries_of db q rs =
     map (\<lambda>e. (record_offset (rollback_file e) (rollback_index e), rollback_bytes e))
       (filter (\<lambda>e. record_path db (rollback_file e) = q) rs)"

definition file_undoable :: "(path \<Rightarrow> bytes option) \<Rightarrow> LocalBinaryDbFs \<Rightarrow> BinaryDbRollbackRecord list \<Rightarrow>
    BinaryDbRollbackFile \<Rightarrow> io_world \<Rightarrow> bool" where
  "file_undoable f0 db rs e w \<longleftrightarrow>
     (if existed e then
        \<exists>b0 b. f0 (rollback_path e) = Some b0 \<and> rollback_len e = length b0 \<and> files w (rollback_path e) = Some b \<and>
          length b0 \<le> length b \<and> in_range (entries_of db (rollback_path e) rs) (length b) \<and>
          take (length b0) (undo_bytes (entries_of db (rollback_path e) rs) b) = b0
      else f0 (rollback_path e) = None \<and>
        in_range (entries_of db (rollback_path e) rs) (length (file_or_empty w (rollback_path e))))"

text \<open>
  Relative to the files \<open>f0\<close> at the start, outside of a set \<open>T\<close> of temporary paths:
  files without an entry are unchanged, files with one can be restored from the log, and every
  remembered record belongs to a tracked file.
\<close>

definition undo_inv :: "path set \<Rightarrow> (path \<Rightarrow> bytes option) \<Rightarrow> LocalBinaryDbFs \<Rightarrow> BinaryDbWriteTxn \<times> io_world \<Rightarrow> bool" where
  "undo_inv T f0 db s \<longleftrightarrow>
     distinct (map rollback_path (rollback_files (fst s))) \<and>
     (\<forall>e \<in> set (rollback_records (fst s)). record_path db (rollback_file e) \<in> set (map rollback_path (rollback_files (fst s))) \<and>
        length (rollback_bytes e) = unat (file_record_size (rollback_file e))) \<and>
     (\<forall>q. q \<notin> T \<longrightarrow> q \<notin> set (map rollback_path (rollback_files (fst s))) \<longrightarrow> files (snd s) q = f0 q) \<and>
     (\<forall>e \<in> set (rollback_files (fst s)). rollback_path e \<notin> T \<longrightarrow>
        file_undoable f0 db (rollback_records (fst s)) e (snd s))"

lemma entries_of_snoc [simp]:
  "entries_of db q (rs @ [e]) = entries_of db q rs @
     (if record_path db (rollback_file e) = q
      then [(record_offset (rollback_file e) (rollback_index e), rollback_bytes e)] else [])"
  by (simp add: entries_of_def)

lemma file_undoable_cong:
  "files w' (rollback_path e) = files w (rollback_path e) \<Longrightarrow>
     file_undoable f0 db rs e w' = file_undoable f0 db rs e w"
  by (simp add: file_undoable_def file_or_empty_def)

lemma undo_inv_files_eq:
  assumes "undo_inv T f0 db (t, w)" and "\<forall>q. q \<notin> T \<longrightarrow> files w' q = files w q"
    and "rollback_files t' = rollback_files t" and "rollback_records t' = rollback_records t"
  shows "undo_inv T f0 db (t', w')"
proof -
  have "file_undoable f0 db (rollback_records t) e w' = file_undoable f0 db (rollback_records t) e w"
    if "rollback_path e \<notin> T" for e
    using assms(2) that by (intro file_undoable_cong) simp
  with assms show ?thesis by (simp add: undo_inv_def)
qed

lemma undo_inv_grow:
  assumes inv: "undo_inv T f0 db (t, w)" and g: "grows p w w'"
    and p: "p \<in> set (map rollback_path (rollback_files t))"
  shows "undo_inv T f0 db (t, w')"
proof (cases "files w' = files w")
  case True
  then show ?thesis by (intro undo_inv_files_eq [OF inv]) simp_all
next
  case False
  then obtain xs where xs: "files w' = (files w)(p \<mapsto> file_or_empty w p @ xs)" using g by (auto simp: grows_def)
  have "file_undoable f0 db (rollback_records t) e w'" if "file_undoable f0 db (rollback_records t) e w" for e
  proof (cases "rollback_path e = p")
    case False
    then have "files w' (rollback_path e) = files w (rollback_path e)" by (simp add: xs)
    with that show ?thesis using file_undoable_cong by metis
  next
    case True
    show ?thesis
    proof (cases "existed e")
      case ex: True
      with that True obtain b0 b where b: "f0 p = Some b0" "rollback_len e = length b0" "files w p = Some b"
        "length b0 \<le> length b" "in_range (entries_of db p (rollback_records t)) (length b)"
        "take (length b0) (undo_bytes (entries_of db p (rollback_records t)) b) = b0"
        by (auto simp: file_undoable_def)
      have "files w' p = Some (b @ xs)" using xs b(3) by (simp add: file_or_empty_def)
      with b ex True show ?thesis
        by (auto simp: file_undoable_def undo_bytes_append elim: in_range_mono)
    next
      case False
      with that True xs show ?thesis
        by (auto simp: file_undoable_def file_or_empty_def elim!: in_range_mono)
    qed
  qed
  moreover have "files w' q = files w q" if "q \<notin> set (map rollback_path (rollback_files t))" for q
    using that p xs by auto
  ultimately show ?thesis using inv by (simp add: undo_inv_def)
qed

lemma undo_inv_track:
  assumes inv: "undo_inv T f0 db (t, w)" and new: "p \<notin> set (map rollback_path (rollback_files t))"
  shows "undo_inv T f0 db (push_rollback_file p (map_option length (files w p)) t, w)"
proof -
  let ?e = "case map_option length (files w p) of Some n \<Rightarrow> \<lparr>rollback_path = p, existed = True, rollback_len = n\<rparr>
                    | None \<Rightarrow> \<lparr>rollback_path = p, existed = False, rollback_len = 0\<rparr>"
  have e: "rollback_path ?e = p" by (simp split: option.splits)
  have "entries_of db p (rollback_records t) = []"
    using inv new by (auto simp: entries_of_def filter_empty_conv undo_inv_def)
  then have "file_undoable f0 db (rollback_records t) ?e w" if "p \<notin> T"
    using that inv new by (auto simp: file_undoable_def undo_inv_def split: option.splits)
  with inv e new show ?thesis by (auto simp: undo_inv_def push_rollback_file_def)
qed

lemma undo_inv_remember:
  assumes inv: "undo_inv T f0 db (t, w)" and p: "record_path db f \<in> set (map rollback_path (rollback_files t))"
    and b: "files w (record_path db f) = Some b" and fit: "record_offset f i + unat (file_record_size f) \<le> length b"
    and old: "old = take (unat (file_record_size f)) (drop (record_offset f i) b)"
  shows "undo_inv T f0 db (t\<lparr>rollback_records := rollback_records t @
    [\<lparr>rollback_file = f, rollback_index = i, rollback_bytes = old\<rparr>]\<rparr>, w)"
proof -
  have same: "splice_bytes (record_offset f i) old b = b" unfolding old by (rule splice_same [OF fit])
  have len: "length old = unat (file_record_size f)" using fit by (simp add: old)
  have "file_undoable f0 db (rollback_records t @ [\<lparr>rollback_file = f, rollback_index = i, rollback_bytes = old\<rparr>]) e w"
    if "file_undoable f0 db (rollback_records t) e w" for e
  proof (cases "rollback_path e = record_path db f")
    case True
    with that b fit len same show ?thesis
      by (auto simp: file_undoable_def file_or_empty_def split: if_splits)
  next
    case False
    with that show ?thesis by (auto simp: file_undoable_def)
  qed
  with inv p len show ?thesis by (auto simp: undo_inv_def)
qed

lemma undo_inv_overwrite:
  assumes inv: "undo_inv T f0 db (t, w)" and "steady db"
    and rec: "\<exists>e \<in> set (rollback_records t). rollback_file e = f \<and> rollback_index e = i"
    and run: "overwrite_record db f i r wc w = (res, w')"
  shows "undo_inv T f0 db (t, w')"
proof (cases "files w' = files w")
  case True
  then show ?thesis using undo_inv_files_eq [OF inv] by simp
next
  case False
  let ?p = "record_path db f" and ?es = "\<lambda>q. entries_of db q (rollback_records t)"
  from overwrite_record_run [OF assms(2) run] False obtain n b where b: "files w ?p = Some b"
    "record_offset f i + length r \<le> length b" "length r = unat (file_record_size f)"
    "files w' = (files w)(?p \<mapsto> splice_bytes (record_offset f i) (take n r) b)" by blast
  from rec obtain e0 where e0: "e0 \<in> set (rollback_records t)" "rollback_file e0 = f" "rollback_index e0 = i" by blast
  then have mem: "(record_offset f i, rollback_bytes e0) \<in> set (?es ?p)"
    and old: "length (rollback_bytes e0) = length r" and tr: "?p \<in> set (map rollback_path (rollback_files t))"
    using inv b(3) by (auto simp: entries_of_def undo_inv_def)
  have len: "length (splice_bytes (record_offset f i) (take n r) b) = length b"
    using b(2) by (intro length_splice) simp
  have "file_undoable f0 db (rollback_records t) e w'" if "file_undoable f0 db (rollback_records t) e w" for e
  proof (cases "rollback_path e = ?p")
    case True
    show ?thesis
      using that True b(1,4) len undo_bytes_covered [OF _ mem, of b "take n r"] old
      by (auto simp: file_undoable_def file_or_empty_def)
  next
    case False
    then have "files w' (rollback_path e) = files w (rollback_path e)" by (simp add: b(4))
    with that show ?thesis using file_undoable_cong by metis
  qed
  moreover have "files w' q = files w q" if "q \<notin> set (map rollback_path (rollback_files t))" for q
    using that tr b(4) by auto
  ultimately show ?thesis using inv by (simp add: undo_inv_def)
qed

end
