(* ===== verification/Txn_Steps.thy ===== *)
theory Txn_Steps
  imports Txn_Undo Lock_Laws
begin

text \<open>
  Runs of a write transaction: any sequence of its operations, successful or not, as a step
  relation.  The undo invariant holds along every run, up to a successful commit.
\<close>

section \<open>Operations that only write tracked files\<close>

lemma check_open_run:
  "check_open (t, w) = (r, s') \<longleftrightarrow> r = ensure_write_open t \<and> s' = (t, w)"
  by (auto simp: check_open_def)

lemma with_context_run: "with_context m (t, w) = (r, s') \<longleftrightarrow> (\<exists>w'. s' = (t, w') \<and> m (write_context t) w = (r, w'))"
  by (auto simp: with_context_def io_over_run)

lemma track_absolute_file_logs [simp]:
  "rollback_files (track_absolute_file p t) = rollback_files t"
  "rollback_records (track_absolute_file p t) = rollback_records t"
  "write_context (track_absolute_file p t) = write_context t"
  "finished (track_absolute_file p t) = finished t"
  by (auto simp: track_absolute_file_def Let_def split: option.splits)

lemma push_rollback_file_simps [simp]:
  "rollback_records (push_rollback_file p n t) = rollback_records t"
  "map rollback_path (rollback_files (push_rollback_file p n t)) = map rollback_path (rollback_files t) @ [p]"
  "write_context (push_rollback_file p n t) = write_context t"
  "finished (push_rollback_file p n t) = finished t"
  by (auto simp: push_rollback_file_def split: option.splits)

lemma undo_inv_touch:
  assumes "undo_inv T f0 db (t, w)"
  shows "undo_inv T f0 db (track_absolute_file p t, w)"
  by (rule undo_inv_files_eq [OF assms]) simp_all

lemma track_for_write_run:
  assumes inv: "undo_inv T f0 db (t, w)" and run: "track_relative_path_for_write db rel (t, w) = (r, (t', w'))"
  shows "undo_inv T f0 db (t', w') \<and> rollback_records t' = rollback_records t \<and> finished t' = finished t \<and>
    (is_ok r \<longrightarrow> path_join (authority_root db) rel \<in> set (map rollback_path (rollback_files t')))"
proof (cases "store_path_for (authority_root db) rel")
  case (Inl e)
  with run inv show ?thesis by (auto simp: track_relative_path_for_write_def)
next
  case (Inr p)
  then have p: "p = path_join (authority_root db) rel" by (simp add: store_path_for_ok)
  from run Inr have run: "track_absolute_file_for_write p (t, w) = (r, (t', w'))"
    by (simp add: track_relative_path_for_write_def)
  show ?thesis
  proof (cases "p \<in> set (map rollback_path (rollback_files t))")
    case True
    with run have "r = Inr ()" "t' = track_absolute_file p t" "w' = w"
      by (auto simp: track_absolute_file_for_write_def)
    with True inv p show ?thesis by (auto simp: undo_inv_touch)
  next
    case False
    obtain q v where q: "db_metadata_len p w = (q, v)" by fastforce
    note rd = db_metadata_len_reads [of p]
    have fv: "files v = files w" using readsD_quiet [OF rd q] by (simp add: quiet_def)
    have inv': "undo_inv T f0 db (t, v)" using undo_inv_files_eq [OF inv] fv by simp
    show ?thesis
    proof (cases q)
      case (Inl e)
      with False run q have "r = Inl e" "t' = t" "w' = v" by (auto simp: track_absolute_file_for_write_def)
      with inv' show ?thesis by simp
    next
      case (Inr n)
      have n: "n = map_option length (files v p)" using readsD_ok [OF rd] q Inr fv by auto
      from Inr False run q have e: "r = Inr ()" "t' = track_absolute_file p (push_rollback_file p n t)" "w' = v"
        by (auto simp: track_absolute_file_for_write_def)
      have "undo_inv T f0 db (push_rollback_file p n t, v)" unfolding n by (rule undo_inv_track [OF inv' False])
      with e p show ?thesis by (simp add: undo_inv_touch del: set_map)
    qed
  qed
qed

lemma tracked_write_undoable:
  assumes inv: "undo_inv T f0 db (t, w)"
    and grow: "\<And>wc. io_keeps (grows (path_join (authority_root db) rel)) (m wc)"
    and run: "io_bind check_open (\<lambda>_. io_bind (track_relative_path_for_write db rel) (\<lambda>_. with_context m)) (t, w) = (r, s')"
  shows "undo_inv T f0 db s'"
proof (cases "ensure_write_open t")
  case (Inl e)
  with run inv show ?thesis by (auto simp: io_bind_apply check_open_run check_open_def)
next
  case (Inr u)
  obtain q t1 w1 where q: "track_relative_path_for_write db rel (t, w) = (q, (t1, w1))" by (metis prod.exhaust)
  note tr = track_for_write_run [OF inv q]
  have open_ok: "check_open (t, w) = (Inr u, (t, w))" using Inr by (simp add: check_open_run)
  show ?thesis
  proof (cases q)
    case (Inl e)
    with run q open_ok tr show ?thesis by auto
  next
    case ok: (Inr x)
    with run q open_ok have "with_context m (t1, w1) = (r, s')" by simp
    then obtain w2 where w2: "s' = (t1, w2)" "m (write_context t1) w1 = (r, w2)" by (auto simp: with_context_run)
    have "grows (path_join (authority_root db) rel) w1 w2" by (rule io_keepsD [OF grow w2(2)])
    with tr ok w2(1) show ?thesis using undo_inv_grow by (simp del: set_map) blast
  qed
qed

lemma append_index_txn_undoable:
  assumes inv: "undo_inv T f0 db (t, w)" and run: "txn_append_index_candidate db idx k i (t, w) = (r, s')"
  shows "undo_inv T f0 db s'"
proof -
  let ?m = "io_bind check_open (\<lambda>_. io_bind (track_relative_path_for_write db (index_relative_path idx)) (\<lambda>_.
    with_context (append_index_candidate db idx k i)))"
  obtain q t1 w1 where q: "?m (t, w) = (q, (t1, w1))" by (metis prod.exhaust)
  have inv1: "undo_inv T f0 db (t1, w1)" by (rule tracked_write_undoable [OF inv append_index_grows q])
  have "s' = (t1, w1) \<or> (\<exists>c. s' = (t1\<lparr>index_cache := c\<rparr>, w1))"
    using q run unfolding txn_append_index_candidate_def
    by (auto simp: io_bind_def split: prod.splits sum.splits)
  with inv1 show ?thesis by (auto intro: undo_inv_files_eq [OF inv1])
qed

lemma remember_record_run:
  assumes inv: "undo_inv T f0 db (t, w)" and st: "steady db"
    and p: "record_path db f \<in> set (map rollback_path (rollback_files t))"
    and run: "remember_record db f i (t, w) = (r, (t', w'))"
  shows "undo_inv T f0 db (t', w') \<and>
    (is_ok r \<longrightarrow> (\<exists>e \<in> set (rollback_records t'). rollback_file e = f \<and> rollback_index e = i))"
proof (cases "\<exists>e \<in> set (rollback_records t). rollback_file e = f \<and> rollback_index e = i")
  case True
  with run inv show ?thesis by (auto simp: remember_record_def)
next
  case False
  obtain q v where q: "read_record db f i w = (q, v)" by fastforce
  note rd = read_record_reads [OF st, of f i]
  have fv: "files v = files w" using readsD_quiet [OF rd q] by (simp add: quiet_def)
  have inv': "undo_inv T f0 db (t, v)" using undo_inv_files_eq [OF inv] fv by simp
  show ?thesis
  proof (cases q)
    case (Inl e)
    with run False q inv' show ?thesis by (auto simp: remember_record_def)
  next
    case (Inr old)
    have val: "read_value db f i w = Inr old" using readsD_ok [OF rd] q Inr by simp
    then obtain p n where pn: "path_value db (file_relative_path f) w = Inr p" "count_value db f w = Inr n"
        "(if i \<ge> n then Inl MissingData else case files w p of None \<Rightarrow> Inl MissingData
            | Some b \<Rightarrow> Inr (record_at f (unat i) b)) = Inr old"
      by (auto simp: read_value_def res_bind_Inr)
    then obtain b where n: "path_value db (file_relative_path f) w = Inr (record_path db f)"
        "count_value db f w = Inr n" "i < n" "files w (record_path db f) = Some b" "old = record_at f (unat i) b"
      using count_value_eq(1) [OF pn(1)] by (auto simp: not_le split: if_splits option.splits)
    note fit = read_value_reads_aux [OF n(2,1,3,4)]
    from Inr run False q have e: "r = Inr ()" "w' = v"
      "t' = t\<lparr>rollback_records := rollback_records t @ [\<lparr>rollback_file = f, rollback_index = i, rollback_bytes = old\<rparr>]\<rparr>"
      by (auto simp: remember_record_def)
    have "undo_inv T f0 db (t', w')"
      unfolding e using undo_inv_remember [OF inv' p, of b i old] n fit fv
      by (simp add: record_at_def record_offset_def BIN_FILE_HEADER_BYTES_def)
    with e show ?thesis by simp
  qed
qed

lemma overwrite_txn_undoable:
  assumes inv: "undo_inv T f0 db (t, w)" and st: "steady db"
    and run: "txn_overwrite_record db f i rec (t, w) = (r, s')"
  shows "undo_inv T f0 db s'"
proof (cases "ensure_write_open t")
  case (Inl e)
  with run inv show ?thesis by (auto simp: txn_overwrite_record_def io_bind_apply check_open_def)
next
  case (Inr u)
  have open_ok: "check_open (t, w) = (Inr u, (t, w))" using Inr by (simp add: check_open_run)
  obtain q t1 w1 where q: "track_relative_path_for_write db (file_relative_path f) (t, w) = (q, (t1, w1))" by (metis prod.exhaust)
  note tr = track_for_write_run [OF inv q]
  show ?thesis
  proof (cases q)
    case (Inl e)
    with run q open_ok tr show ?thesis by (auto simp: txn_overwrite_record_def)
  next
    case ok: (Inr x)
    obtain q2 t2 w2 where q2: "remember_record db f i (t1, w1) = (q2, (t2, w2))" by (metis prod.exhaust)
    have "record_path db f \<in> set (map rollback_path (rollback_files t1))"
      using tr ok by (simp add: record_path_def)
    note rm = remember_record_run [OF conjunct1 [OF tr] st this q2]
    show ?thesis
    proof (cases q2)
      case (Inl e)
      with run q ok q2 open_ok rm show ?thesis by (auto simp: txn_overwrite_record_def)
    next
      case (Inr y)
      with run q ok q2 open_ok have "with_context (overwrite_record db f i rec) (t2, w2) = (r, s')"
        by (simp add: txn_overwrite_record_def)
      then obtain w3 where w3: "s' = (t2, w3)" "overwrite_record db f i rec (write_context t2) w2 = (r, w3)"
        by (auto simp: with_context_run)
      with rm Inr undo_inv_overwrite [OF _ st _ w3(2)] show ?thesis by simp
    qed
  qed
qed

section \<open>Operations that leave the files alone\<close>

definition same_files :: "io_world \<Rightarrow> io_world \<Rightarrow> bool" where
  "same_files w w' \<longleftrightarrow> files w' = files w"

lemma same_files_rules: "reflp same_files" "transp same_files"
  by (auto simp: reflp_def transp_def same_files_def)

lemma os_call_files:
  assumes "\<And>v. files (snd (eff v)) = files v" and "\<And>n v. files (torn n v) = files v"
  shows "io_keeps same_files (os_call eff torn)"
proof (rule io_keepsI)
  fix w r w'
  assume run: "os_call eff torn w = (r, w')"
  obtain f v where f: "take_fault w = (f, v)" by fastforce
  have "files v = files w" using take_fault_quiet [OF f] by (simp add: quiet_def)
  with assms run f show "same_files w w'"
    by (auto simp: same_files_def os_call_def split: option.splits io_fault.splits) (metis snd_conv)
qed

lemmas same_files_keeps = io_keeps_pure [OF same_files_rules(1)] io_keeps_bind [OF same_files_rules(2)]
  io_keeps_map_err store_io_keeps

lemma quiet_same_files: "io_keeps quiet m \<Longrightarrow> io_keeps same_files m"
  by (auto simp: io_keeps_def quiet_def same_files_def)

lemma sync_file_files: "io_keeps same_files (sync_file p)"
  unfolding sync_file_def os_query_def
  by (intro io_keeps_map_err os_call_files) (auto split: option.splits)

lemma policy_sync_files: "io_keeps same_files (policy_sync_file db pol p)" "io_keeps same_files (policy_sync_directory db pol p)"
  by (cases pol; auto simp: db_sync_file_def db_sync_directory_def
      intro: same_files_keeps sync_file_files quiet_same_files [OF sync_dir_quiet])+

lemma sync_lists_files: "io_keeps same_files (sync_files db pol ps)" "io_keeps same_files (sync_directories db pol ps)"
  by (induction ps) (auto intro: same_files_keeps policy_sync_files)

lemma replace_contents_files: "io_keeps same_files (replace_contents_and_flush g bs)"
  unfolding replace_contents_and_flush_def Let_def os_query_def
  by (intro same_files_keeps os_call_files) (simp_all add: set_cell_def)

lemma release_guard_files: "io_keeps same_files (release_guard g)"
  unfolding release_guard_def os_query_def
  by (intro io_keeps_if same_files_keeps os_call_files) (simp_all add: set_cell_def Let_def)

lemma release_each_files: "release_each gs w = ((r, gs'), w') \<Longrightarrow> files w' = files w"
proof (induction gs arbitrary: r w gs' w')
  case (Cons g gs)
  obtain q v where q: "io_bind (store_io (clear_contents_and_flush g)) (\<lambda>_. store_io (release_guard g)) w = (q, v)" by fastforce
  have "io_keeps same_files (io_bind (store_io (clear_contents_and_flush g)) (\<lambda>_. store_io (release_guard g)))"
    unfolding clear_contents_and_flush_def by (intro same_files_keeps replace_contents_files release_guard_files)
  from io_keepsD [OF this q] have fv: "files v = files w" by (simp add: same_files_def)
  show ?case
  proof (cases q)
    case (Inl e)
    with Cons.prems q fv show ?thesis by auto
  next
    case (Inr g')
    obtain s ks u where s: "release_each gs v = ((s, ks), u)" by (metis prod.exhaust)
    from Cons.IH [OF s] Cons.prems q Inr s fv show ?thesis by auto
  qed
qed simp

lemma release_lock_files:
  assumes "txn_release_lock (t, w) = (r, (t', w'))"
  shows "files w' = files w \<and> (\<exists>l. t' = t\<lparr>txn_lock := l\<rparr>)"
proof -
  obtain q gs v where q: "release_each (lock_guards (txn_lock t)) w = ((q, gs), v)" by (metis prod.exhaust)
  from release_each_files [OF q] q assms show ?thesis
    by (cases q) (auto simp: txn_release_lock_def release_lock_set_def intro: exI [of _ "txn_lock t"] split: if_splits)
qed

lemma sync_touched_run:
  assumes "sync_touched_dependencies db (t, w) = (r, (t', w'))"
  shows "t' = t \<and> files w' = files w"
proof -
  have "io_keeps same_files (io_bind (sync_files db (fsync_policy t) (touched_files t)) (\<lambda>_.
      sync_directories db (fsync_policy t) (touched_directories t)))"
    by (intro same_files_keeps sync_lists_files)
  with assms show ?thesis
    by (auto simp: sync_touched_dependencies_def io_over_run same_files_def dest: io_keepsD)
qed

lemma finish_committed_run:
  assumes "finish_committed db (t, w) = (r, (t', w'))"
  shows "finished t' \<and> \<not> active (write_context t') \<and> rollback_files t' = [] \<and> rollback_records t' = [] \<and>
    files w' = files w \<and> commit_outcome t' \<noteq> None"
proof -
  obtain q t1 w1 where q: "txn_release_lock (close_txn t, w) = (q, (t1, w1))" by (metis prod.exhaust)
  from release_lock_files [OF q] obtain l where l: "files w1 = files w" "t1 = close_txn t\<lparr>txn_lock := l\<rparr>" by blast
  show ?thesis
    using assms q l
    by (cases q) (auto simp: finish_committed_def io_bind_apply txn_release_warning_def Let_def checkpoint_directory_def
        io_over_apply close_txn_def finish_context_def split: if_splits option.splits sum.splits)
qed

lemma finish_crossed_run:
  assumes "finish_crossed_commit_point (t, w) = (r, (t', w'))"
  shows "finished t' \<and> \<not> active (write_context t') \<and> rollback_files t' = [] \<and> rollback_records t' = [] \<and> files w' = files w"
proof -
  obtain q t1 w1 where q: "txn_release_lock (close_txn t, w) = (q, (t1, w1))" by (metis prod.exhaust)
  from release_lock_files [OF q] obtain l where l: "files w1 = files w" "t1 = close_txn t\<lparr>txn_lock := l\<rparr>" by blast
  show ?thesis
    using assms q l
    by (cases q) (auto simp: finish_crossed_commit_point_def io_bind_apply txn_release_warning_def close_txn_def finish_context_def)
qed

lemma checkpoint_run: "io_over (checkpoint_directory db) (t, w) = (r, s') \<Longrightarrow> s' = (t, w)"
  by (auto simp: io_over_run checkpoint_directory_def split: option.splits)

lemma commit_undoable:
  assumes inv: "undo_inv T f0 db (t, w)" and run: "commit db (t, w) = (r, (t', w'))"
  shows "finished t' \<or> undo_inv T f0 db (t', w')"
proof (cases "commit_outcome t")
  case (Some out)
  obtain q s1 where q: "io_over (checkpoint_directory db) (t, w) = (q, s1)" by (metis prod.exhaust)
  with Some run checkpoint_run [OF q] inv show ?thesis by (cases q) (auto simp: commit_def)
next
  case None
  obtain q t1 w1 where q: "sync_touched_dependencies db (t, w) = (q, (t1, w1))" by (metis prod.exhaust)
  note sy = sync_touched_run [OF q]
  show ?thesis
  proof (cases "ensure_commit_open t")
    case (Inl e)
    with None run inv show ?thesis by (auto simp: commit_def)
  next
    case open_ok: (Inr u)
    show ?thesis
    proof (cases q)
      case (Inl e)
      with None open_ok run q sy inv show ?thesis by (auto simp: commit_def intro: undo_inv_files_eq)
    next
      case (Inr x)
      with None open_ok run q have "finish_committed db (t1, w1) = (r, (t', w'))" by (simp add: commit_def)
      from finish_committed_run [OF this] show ?thesis by simp
    qed
  qed
qed

lemma commit_marker_undoable:
  assumes inv: "undo_inv T f0 db (t, w)" and run: "commit_with_record_marker db f i m (t, w) = (r, (t', w'))"
  shows "finished t' \<or> undo_inv T f0 db (t', w')"
proof (cases "ensure_write_open t")
  case (Inl e)
  with run inv show ?thesis by (auto simp: commit_with_record_marker_def io_bind_apply check_open_def)
next
  case (Inr u)
  have open_ok: "check_open (t, w) = (Inr u, (t, w))" using Inr by (simp add: check_open_run)
  show ?thesis
  proof (cases "\<exists>p. store_path_for (authority_root db) (file_relative_path f) = Inr p \<and> p \<in> set (touched_files t)")
    case False
    with run open_ok inv show ?thesis
      by (cases "store_path_for (authority_root db) (file_relative_path f)") (auto simp: commit_with_record_marker_def)
  next
    case True
    then obtain p where p: "store_path_for (authority_root db) (file_relative_path f) = Inr p" "p \<in> set (touched_files t)" by blast
    obtain q t1 w1 where q: "sync_touched_dependencies db (t, w) = (q, (t1, w1))" by (metis prod.exhaust)
    note sy = sync_touched_run [OF q]
    show ?thesis
    proof (cases q)
      case (Inl e)
      with run p open_ok q sy inv show ?thesis by (auto simp: commit_with_record_marker_def intro: undo_inv_files_eq)
    next
      case (Inr x)
      obtain m2 t2 w2 where m2: "publish_marker db f i m p (t1, w1) = (m2, (t2, w2))" by (metis prod.exhaust)
      obtain c t3 w3 where c: "finish_crossed_commit_point (t2, w2) = (c, (t3, w3))" by (metis prod.exhaust)
      from Inr run p open_ok q m2 c have "(r, (t', w')) = (case m2 of Inl e \<Rightarrow> (Inl e, (t3, w3)) | Inr _ \<Rightarrow> finish_committed db (t2, w2))"
        by (auto simp: commit_with_record_marker_def split: sum.splits)
      then show ?thesis
        using finish_crossed_run [OF c] finish_committed_run [of db t2 w2 r t' w'] by (auto split: sum.splits)
    qed
  qed
qed

section \<open>Atomic replacement\<close>

definition staging_files :: "LocalBinaryDbFs \<Rightarrow> path set" where
  "staging_files db = {q. \<exists>d. atomic_staging_directory (authority_root db) = Inr d \<and> path_parent q = Some d}"

lemma atomic_temp_parent: "path_parent (atomic_temp_path d tag p) = Some d"
  by (simp add: atomic_temp_path_def path_join_def path_parent_def path_has_root_def path_starts_with_prefix_def)

definition except :: "path set \<Rightarrow> io_world \<Rightarrow> io_world \<Rightarrow> bool" where
  "except P w w' \<longleftrightarrow> (\<forall>q. q \<notin> P \<longrightarrow> files w' q = files w q)"

lemma except_rules: "reflp (except P)" "transp (except P)"
  by (auto simp: reflp_def transp_def except_def)

lemma os_call_except:
  assumes "\<And>v. except P v (snd (eff v))" and "\<And>n v. except P v (torn n v)"
  shows "io_keeps (except P) (os_call eff torn)"
proof (rule io_keepsI)
  fix w r w'
  assume run: "os_call eff torn w = (r, w')"
  obtain f v where f: "take_fault w = (f, v)" by fastforce
  have fv: "files v = files w" using take_fault_quiet [OF f] by (simp add: quiet_def)
  have "except P v w'"
    using run f assms(1) [where v = v] assms(2) [where v = v]
    by (auto simp: os_call_def except_def split: option.splits io_fault.splits)
  with fv show "except P w w'" by (simp add: except_def)
qed

lemmas except_keeps = io_keeps_pure [OF except_rules(1)] io_keeps_bind [OF except_rules(2)] io_keeps_map_err
  os_call_except

lemma rename_ok_or_same:
  assumes "rename_file src dst w = (r, w')"
  shows "if is_ok r then except {src, dst} w w' else files w' = files w"
proof -
  obtain f v where f: "take_fault w = (f, v)" by fastforce
  have "files v = files w" using take_fault_quiet [OF f] by (simp add: quiet_def)
  with assms f show ?thesis
    by (auto simp: rename_file_def os_query_def os_call_def except_def split: option.splits io_fault.splits)
qed

lemma write_temp_and_rename_run:
  assumes "write_temp_and_rename temp p bs w = (r, w')"
  shows "if is_ok r then except {temp, p} w w' else except {temp} w w'"
proof -
  let ?m = "io_bind (os_query (\<lambda>w. (Inr (), set_file temp [] w))) (\<lambda>_.
     io_bind (os_call (\<lambda>w. (Inr (), set_file temp bs w)) (\<lambda>n w. set_file temp (take n bs) w)) (\<lambda>_. sync_file temp))"
  have keeps: "io_keeps (except {temp}) ?m"
    unfolding sync_file_def os_query_def
    by (intro except_keeps) (auto simp: except_def set_file_def split: option.splits)
  obtain q v where q: "?m w = (q, v)" by fastforce
  have ev: "except {temp} w v" by (rule io_keepsD [OF keeps q])
  have run: "io_bind ?m (\<lambda>_. rename_file temp p) w = (r, w')"
    using assms by (simp add: write_temp_and_rename_def io_bind_assoc)
  show ?thesis
  proof (cases q)
    case (Inl e)
    with run q ev show ?thesis by (simp add: io_bind_apply) auto
  next
    case (Inr u)
    with run q have "rename_file temp p v = (r, w')" by (simp add: io_bind_apply)
    from rename_ok_or_same [OF this] ev show ?thesis by (auto simp: except_def split: if_splits)
  qed
qed

lemma replace_file_atomically_run:
  assumes "replace_file_atomically db tag p bs w = (r, w')"
  shows "if is_ok r then except (insert p (staging_files db)) w w' \<and> path_parent (authority_root db) \<noteq> None
    else except (staging_files db) w w'"
proof (cases "atomic_staging_directory (authority_root db)")
  case (Inl e)
  with assms have "r = Inl e \<and> w' = w" by (auto simp: replace_file_atomically_def)
  then show ?thesis by (simp add: except_def)
next
  case (Inr d)
  let ?temp = "atomic_temp_path d tag p"
  have tmp: "?temp \<in> staging_files db" using Inr atomic_temp_parent by (auto simp: staging_files_def)
  have par: "path_parent (authority_root db) \<noteq> None" using Inr by (auto simp: atomic_staging_directory_def split: option.splits)
  obtain q1 v1 where q1: "(os_query (\<lambda>w. (Inr (), w)) :: unit file_io) w = (q1, v1)" by fastforce
  have fv: "files v1 = files w"
    using io_keepsD [OF os_query_quiet q1] by (simp add: quiet_def)
  obtain x u where x: "write_temp_and_rename ?temp p bs v1 = (x, u)" by fastforce
  note wt = write_temp_and_rename_run [OF x]
  obtain y z where y: "remove_file_if_exists ?temp u = (y, z)" by fastforce
  have "io_keeps (except {?temp}) (remove_file_if_exists ?temp)"
    unfolding remove_file_if_exists_def os_query_def by (intro os_call_except) (auto simp: except_def)
  from io_keepsD [OF this y] have ez: "except {?temp} u z" .
  have step: "(case q1 of Inl e \<Rightarrow> (Inl (file_io_error_to_binary e), v1)
      | Inr _ \<Rightarrow> (case x of Inl e \<Rightarrow> (Inl (file_io_error_to_binary e), z) | Inr _ \<Rightarrow> (Inr d, u))) = (r, w')"
    using assms Inr q1 x y
    by (cases q1; cases x) (auto simp: replace_file_atomically_def write_bytes_atomically_from_directory_def
        store_io_def io_map_err_apply io_bind_apply Let_def)
  show ?thesis
    using step wt ez fv tmp par by (cases q1; cases x) (auto simp: except_def split: if_splits, metis+)
qed

text \<open>A path value has a root or a prefix only at its front.\<close>

definition plain_path :: "path \<Rightarrow> bool" where
  "plain_path p \<longleftrightarrow> (\<forall>c \<in> set p. c \<noteq> RootDir \<and> (\<forall>s. c \<noteq> Prefix s))"

lemma join_parent:
  assumes "path_parent root \<noteq> None" and "plain_path rel"
  shows "path_parent (path_join root rel) \<noteq> None"
proof -
  have root: "root \<noteq> []" using assms(1) by (auto simp: path_parent_def)
  have rel: "path_relative rel"
    using assms(2) by (cases rel) (auto simp: plain_path_def path_relative_def path_has_root_def path_starts_with_prefix_def
        split: path_component.splits list.splits)
  let ?r = "filter (\<lambda>c. c \<noteq> CurDir) rel"
  have join: "path_join root rel = root @ ?r" by (rule path_join_relative [OF rel root])
  show ?thesis
  proof (cases "?r = []")
    case True
    with join assms(1) show ?thesis by simp
  next
    case False
    then have "last ?r \<in> set rel" using last_in_set [OF False] by simp
    with assms(2) False join show ?thesis
      by (auto simp: path_parent_def plain_path_def split: path_component.splits)
  qed
qed

lemma commit_atomic_undoable:
  assumes inv: "undo_inv (staging_files db) f0 db (t, w)" and plain: "plain_path (file_relative_path f)"
    and run: "commit_with_atomic_file_replacement db tag f bs (t, w) = (r, (t', w'))"
  shows "finished t' \<or> undo_inv (staging_files db) f0 db (t', w')"
proof -
  let ?target = "path_join (authority_root db) (file_relative_path f)"
  consider (same) "(t', w') = (t, w)"
    | (go) "commit_outcome t = None" "\<not> finished t" "store_path_for (authority_root db) (file_relative_path f) = Inr ?target"
      "?target \<notin> set (touched_files t)" "ensure_authorized_path (write_context t) (file_relative_path f) = Inr ()"
    using run checkpoint_run [of db t w]
    by (cases "commit_outcome t"; cases "ensure_authorized_path (write_context t) (file_relative_path f)";
        cases "store_path_for (authority_root db) (file_relative_path f)"; cases "io_over (checkpoint_directory db) (t, w)")
      (auto simp: commit_with_atomic_file_replacement_def ensure_commit_open_def store_path_for_ok io_bind_apply split: if_splits sum.splits)
  then show ?thesis
  proof cases
    case same
    with inv show ?thesis by simp
  next
    case go
    obtain q t1 w1 where q: "sync_touched_dependencies db (t, w) = (q, (t1, w1))" by (metis prod.exhaust)
    note sy = sync_touched_run [OF q]
    obtain x w2 where x: "replace_file_atomically db tag ?target bs w1 = (x, w2)" by fastforce
    note rp = replace_file_atomically_run [OF x]
    show ?thesis
    proof (cases "is_ok q \<and> is_ok x")
      case False
      then have "t' = t \<and> (w' = w1 \<or> (w' = w2 \<and> \<not> is_ok x))"
        using run go q sy x by (cases q; cases x) (auto simp: commit_with_atomic_file_replacement_def ensure_commit_open_def)
      with inv sy rp show ?thesis
        by (intro disjI2 undo_inv_files_eq [OF inv]) (auto simp: except_def)
    next
      case True
      then obtain u st where ok: "q = Inr u" "x = Inr st" by (auto simp: is_ok_iff)
      have "path_parent ?target \<noteq> None" using rp True join_parent [OF _ plain] by simp
      then obtain d where d: "path_parent ?target = Some d" by blast
      obtain y t3 w3 where y: "io_over (policy_sync_directory db (fsync_policy t) d) (t, w2) = (y, (t3, w3))" by (metis prod.exhaust)
      obtain c t4 w4 where c: "finish_crossed_commit_point (t3, w3) = (c, (t4, w4))" by (metis prod.exhaust)
      obtain t5 w5 where s5: "(if st \<noteq> d then snd (io_over (policy_sync_directory db (fsync_policy t) st) (t3, w3)) else (t3, w3)) = (t5, w5)"
        by fastforce
      have "(r, (t', w')) = (case y of Inl e \<Rightarrow> (Inl e, (t4, w4)) | Inr _ \<Rightarrow> finish_committed db (t5, w5))"
        using run go q sy x ok d y c s5
        by (cases y) (auto simp: commit_with_atomic_file_replacement_def ensure_commit_open_def)
      then show ?thesis
        using finish_crossed_run [OF c] finish_committed_run [of db t5 w5 r t' w'] by (auto split: sum.splits)
    qed
  qed
qed

section \<open>Rolling back\<close>

lemma undo_records_undoable:
  assumes "undo_inv T f0 db (t, w)" and "steady db" and "set es \<subseteq> set (rollback_records t)"
    and "undo_records db wc es w = (r, w')"
  shows "undo_inv T f0 db (t, w')"
  using assms
proof (induction es arbitrary: w)
  case (Cons e es)
  obtain q v where q: "overwrite_record db (rollback_file e) (rollback_index e) (rollback_bytes e) wc w = (q, v)" by fastforce
  have "undo_inv T f0 db (t, v)"
    by (rule undo_inv_overwrite [OF Cons.prems(1,2) _ q]) (use Cons.prems(3) in auto)
  with Cons q show ?case by (cases q) (auto simp: io_bind_apply)
qed simp

text \<open>A completed pass over the before-images rewrites every file as the log says.\<close>

lemma undo_records_exact:
  assumes "steady db" and "undo_records db wc (rev rs) w = (Inr u, w')"
  shows "files w' q = map_option (undo_bytes (entries_of db q rs)) (files w q)"
  using assms(2)
proof (induction rs arbitrary: w rule: rev_induct)
  case Nil
  then show ?case by (cases "files w q") (simp_all add: entries_of_def)
next
  case (snoc e rs)
  let ?f = "rollback_file e" and ?i = "rollback_index e"
  from snoc.prems obtain x v where x: "overwrite_record db ?f ?i (rollback_bytes e) wc w = (Inr x, v)"
    and rest: "undo_records db wc (rev rs) v = (Inr u, w')" by (auto simp: io_bind_ok)
  from assms(1) x obtain p b n where p: "path_value db (file_relative_path ?f) w = Inr p" "files w p = Some b"
      "files v = (files w)(p \<mapsto> splice_bytes (record_offset ?f ?i) (rollback_bytes e) b)"
    by (rule overwrite_record_ok) blast
  have "p = record_path db ?f" by (rule count_value_eq(1) [OF p(1)])
  with p snoc.IH [OF rest] show ?case by simp
qed

lemma undo_inv_records_done:
  assumes inv: "undo_inv T f0 db (t, w)" and "steady db"
    and run: "undo_records db wc (rev (rollback_records t)) w = (Inr u, w')"
  shows "undo_inv T f0 db (t\<lparr>rollback_records := []\<rparr>, w')"
proof -
  note ex = undo_records_exact [OF assms(2) run]
  have none: "entries_of db q [] = []" for q by (simp add: entries_of_def)
  have "file_undoable f0 db [] e w'" if "file_undoable f0 db (rollback_records t) e w" for e
    using that ex [of "rollback_path e"] by (auto simp: file_undoable_def none)
  moreover have "files w' q = files w q" if "q \<notin> set (map rollback_path (rollback_files t))" for q
  proof -
    have "entries_of db q (rollback_records t) = []"
      using inv that by (auto simp: entries_of_def filter_empty_conv undo_inv_def)
    with ex [of q] show ?thesis by (cases "files w q") simp_all
  qed
  ultimately show ?thesis using inv by (simp add: undo_inv_def)
qed

text \<open>Playing back the file entries, with no before-images left.\<close>

lemma undo_file_step:
  assumes inv: "undo_inv T f0 db (t, w)" and "rollback_records t = []" and e: "e \<in> set (rollback_files t)"
    and run: "(if existed e then recovery_truncate_file (rollback_path e) (rollback_len e)
              else recovery_remove_file_if_exists (rollback_path e)) w = (r, w')"
  shows "undo_inv T f0 db (t, w') \<and> (\<forall>q. q \<noteq> rollback_path e \<longrightarrow> files w' q = files w q) \<and>
    (is_ok r \<longrightarrow> rollback_path e \<notin> T \<longrightarrow> files w' (rollback_path e) = f0 (rollback_path e))"
proof -
  let ?p = "rollback_path e"
  have none: "entries_of db q (rollback_records t) = []" for q by (simp add: entries_of_def assms(2))
  have und: "?p \<notin> T \<Longrightarrow> file_undoable f0 db (rollback_records t) e w" using inv e by (simp add: undo_inv_def)
  show ?thesis
  proof (cases r)
    case (Inl d)
    obtain f v where f: "take_fault w = (f, v)" by fastforce
    have fv: "files v = files w" using take_fault_quiet [OF f] by (simp add: quiet_def)
    have "files w' = files w"
      using run Inl f fv
      by (auto simp: recovery_truncate_file_def recovery_remove_file_if_exists_def store_io_def io_map_err_apply
          truncate_file_def remove_file_if_exists_def os_query_def os_call_def
          split: if_splits option.splits io_fault.splits)
    with inv Inl show ?thesis by (auto intro: undo_inv_files_eq)
  next
    case (Inr u)
    have new: "files w' = (files w)(?p := (if existed e then map_option (\<lambda>b. take (rollback_len e) b @ replicate (rollback_len e - length b) 0) (files w ?p) else None))"
    proof (cases "existed e")
      case True
      with run Inr have "truncate_file ?p (rollback_len e) w = (Inr u, w')" by (simp add: recovery_truncate_file_def store_io_ok)
      then obtain b where "files w ?p = Some b" "files w' = (files w)(?p \<mapsto> take (rollback_len e) b @ replicate (rollback_len e - length b) 0)"
        by (rule truncate_file_ok)
      with True show ?thesis by simp
    next
      case False
      with run Inr have "remove_file_if_exists ?p w = (Inr u, w')" by (simp add: recovery_remove_file_if_exists_def store_io_ok)
      with remove_file_ok(1) [OF this] False show ?thesis by simp
    qed
    have restored: "files w' ?p = f0 ?p" if "?p \<notin> T"
      using und [OF that] new none by (auto simp: file_undoable_def split: if_splits)
    have other: "files w' q = files w q" if "q \<noteq> ?p" for q using new that by simp
    have "file_undoable f0 db (rollback_records t) k w'"
      if k: "k \<in> set (rollback_files t)" "rollback_path k \<notin> T" for k
    proof (cases "rollback_path k = ?p")
      case False
      then have "files w' (rollback_path k) = files w (rollback_path k)" by (rule other)
      with file_undoable_cong inv k show ?thesis unfolding undo_inv_def by (metis fst_conv snd_conv)
    next
      case True
      have "file_undoable f0 db (rollback_records t) k w" using inv k by (simp add: undo_inv_def)
      with restored k(2) True show ?thesis
        by (auto simp: file_undoable_def none file_or_empty_def split: if_splits)
    qed
    moreover have "files w' q = f0 q" if "q \<notin> T" "q \<notin> set (map rollback_path (rollback_files t))" for q
    proof -
      have "q \<noteq> ?p" using that(2) e by auto
      with inv that other show ?thesis by (simp add: undo_inv_def)
    qed
    ultimately have "undo_inv T f0 db (t, w')" using inv by (simp add: undo_inv_def)
    with restored other show ?thesis by simp
  qed
qed

lemma undo_files_run:
  assumes "undo_inv T f0 db (t, w)" and "rollback_records t = []" and "set es \<subseteq> set (rollback_files t)"
    and "distinct (map rollback_path es)" and "undo_files es w = (r, w')"
  shows "undo_inv T f0 db (t, w') \<and> (\<forall>q. q \<notin> set (map rollback_path es) \<longrightarrow> files w' q = files w q) \<and>
    (is_ok r \<longrightarrow> (\<forall>e \<in> set es. rollback_path e \<notin> T \<longrightarrow> files w' (rollback_path e) = f0 (rollback_path e)))"
  using assms
proof (induction es arbitrary: w)
  case (Cons e es)
  let ?m = "if existed e then recovery_truncate_file (rollback_path e) (rollback_len e)
              else recovery_remove_file_if_exists (rollback_path e)"
  obtain q v where q: "?m w = (q, v)" by fastforce
  have e: "e \<in> set (rollback_files t)" using Cons.prems(3) by simp
  note st = undo_file_step [OF Cons.prems(1,2) e q]
  show ?case
  proof (cases q)
    case (Inl d)
    have "undo_files (e # es) w = (Inl d, v)" using io_bind_Inl [of ?m w d v] q Inl by simp
    with Cons.prems(5) st show ?thesis by auto
  next
    case (Inr x)
    have "undo_files (e # es) w = undo_files es v" using io_bind_Inr [of ?m w x v] q Inr by simp
    with Cons.prems(5) have rest: "undo_files es v = (r, w')" by simp
    from Cons.IH [OF conjunct1 [OF st] Cons.prems(2) _ _ rest] Cons.prems(3,4) st Inr show ?thesis by auto
  qed
qed simp

lemma rollback_run:
  assumes inv: "undo_inv T f0 db (t, w)" and "steady db"
    and run: "rollback_uncommitted_files db (t, w) = (r, (t', w'))"
  shows "undo_inv T f0 db (t', w') \<and> finished t' = finished t \<and>
    (is_ok r \<longrightarrow> (\<forall>q. q \<notin> T \<longrightarrow> files w' q = f0 q) \<and> rollback_files t' = [] \<and> rollback_records t' = [])"
proof -
  let ?t1 = "t\<lparr>rollback_records := []\<rparr>"
  obtain x v where x: "undo_records db (write_context t) (rev (rollback_records t)) w = (x, v)" by fastforce
  show ?thesis
  proof (cases x)
    case (Inl e)
    with run x have "r = Inl e" "t' = t" "w' = v" by (auto simp: rollback_uncommitted_files_def)
    with undo_records_undoable [OF inv assms(2) _ x] show ?thesis by simp
  next
    case (Inr u)
    obtain y z where y: "undo_files (rev (rollback_files t)) v = (y, z)" by fastforce
    have inv1: "undo_inv T f0 db (?t1, v)"
      by (rule undo_inv_records_done [OF inv assms(2)]) (use x Inr in simp)
    have d: "distinct (map rollback_path (rev (rollback_files t)))"
      using inv by (simp add: undo_inv_def flip: rev_map)
    have sub: "set (rev (rollback_files t)) \<subseteq> set (rollback_files ?t1)" by simp
    note uf = undo_files_run [OF inv1 _ sub d y, simplified]
    show ?thesis
    proof (cases y)
      case Inl2: (Inl e)
      with run x Inr y have "r = Inl e" "t' = ?t1" "w' = z" by (auto simp: rollback_uncommitted_files_def)
      with uf show ?thesis by simp
    next
      case Inr2: (Inr k)
      with run x Inr y have e: "r = Inr ()" "t' = ?t1\<lparr>rollback_files := []\<rparr>" "w' = z"
        by (auto simp: rollback_uncommitted_files_def)
      have "files z q = f0 q" if "q \<notin> T" for q
      proof (cases "q \<in> set (map rollback_path (rollback_files t))")
        case True
        with uf Inr2 that show ?thesis by auto
      next
        case False
        with uf inv1 that show ?thesis by (auto simp: undo_inv_def)
      qed
      with e show ?thesis by (simp add: undo_inv_def)
    qed
  qed
qed

lemma abort_run:
  assumes inv: "undo_inv T f0 db (t, w)" and "steady db" and "\<not> finished t"
    and run: "abort db (t, w) = (r, (t', w'))"
  shows "(finished t' \<or> undo_inv T f0 db (t', w')) \<and> (is_ok r \<longrightarrow> (\<forall>q. q \<notin> T \<longrightarrow> files w' q = f0 q))"
proof -
  obtain x t1 w1 where x: "rollback_uncommitted_files db (t, w) = (x, (t1, w1))" by (metis prod.exhaust)
  note rb = rollback_run [OF inv assms(2) x]
  show ?thesis
  proof (cases x)
    case (Inl e)
    with run x assms(3) have "r = Inl e" "t' = t1" "w' = w1" by (auto simp: abort_def)
    with rb show ?thesis by simp
  next
    case (Inr u)
    let ?t2 = "t1\<lparr>touched_files := [], touched_directories := [], write_context := finish_context (write_context t1)\<rparr>"
    obtain y t3 w3 where y: "txn_release_lock (?t2, w1) = (y, (t3, w3))" by (metis prod.exhaust)
    from release_lock_files [OF y] obtain l where l: "files w3 = files w1" "t3 = ?t2\<lparr>txn_lock := l\<rparr>" by blast
    have inv3: "undo_inv T f0 db (t3, w3)"
      by (rule undo_inv_files_eq [OF conjunct1 [OF rb]]) (simp_all add: l)
    show ?thesis
      using run x Inr y assms(3) inv3 rb l by (cases y) (auto simp: abort_def)
  qed
qed

section \<open>Runs\<close>

inductive txn_step :: "LocalBinaryDbFs \<Rightarrow> BinaryDbWriteTxn \<times> io_world \<Rightarrow> BinaryDbWriteTxn \<times> io_world \<Rightarrow> bool"
  for db where
  "txn_append_record db f rec s = (r, s') \<Longrightarrow> txn_step db s s'"
| "txn_append_records db f bs s = (r', s') \<Longrightarrow> txn_step db s s'"
| "txn_overwrite_record db f i rec s = (u, s') \<Longrightarrow> txn_step db s s'"
| "txn_append_payload db g bs s = (rng, s') \<Longrightarrow> txn_step db s s'"
| "txn_append_index_candidate db idx k i s = (u, s') \<Longrightarrow> txn_step db s s'"
| "txn_lookup_index db idx k s = (xs, s') \<Longrightarrow> txn_step db s s'"
| "track_relative_path db p s = (u, s') \<Longrightarrow> txn_step db s s'"
| "commit db s = (out, s') \<Longrightarrow> txn_step db s s'"
| "commit_with_record_marker db f i m s = (out, s') \<Longrightarrow> txn_step db s s'"
| "\<lbrakk>plain_path (file_relative_path f); commit_with_atomic_file_replacement db tag f bs s = (out, s')\<rbrakk> \<Longrightarrow> txn_step db s s'"
| "abort db s = (u, s') \<Longrightarrow> txn_step db s s'"

inductive txn_run :: "LocalBinaryDbFs \<Rightarrow> BinaryDbWriteTxn \<times> io_world \<Rightarrow> BinaryDbWriteTxn \<times> io_world \<Rightarrow> bool"
  for db s where
  start: "txn_run db s s"
| step: "\<lbrakk>txn_run db s s1; \<not> finished (fst s1); txn_step db s1 s2\<rbrakk> \<Longrightarrow> txn_run db s s2"

lemma lookup_txn_undoable:
  assumes "undo_inv T f0 db (t, w)" and "steady db" and "txn_lookup_index db idx k (t, w) = (r, s')"
  shows "undo_inv T f0 db s'"
proof -
  obtain x c v where x: "lookup_index_in_read_txn db idx k (index_cache t, w) = (x, (c, v))" by (metis prod.exhaust)
  have f: "files v = files w"
  proof -
    have g: "files v' = files u" if "cache_parsed_index db idx (c0, u) = (y, (c1, v'))" for c0 c1 u y v'
    proof -
      have ld: "files v2 = files u2" if "cache_index_file db idx (c2, u2) = (y2, (c3, v2))" for c2 c3 u2 v2 y2
        using that readsD_quiet [OF index_file_reads [OF assms(2)]]
        by (auto simp: cache_index_file_def io_bind_apply io_over_apply quiet_def split: if_splits prod.splits sum.splits)
      obtain y2 c3 v2 where y2: "cache_index_file db idx (c0, u) = (y2, (c3, v2))" by (metis prod.exhaust)
      show ?thesis
        using that ld [OF y2] y2
        by (cases y2; cases "parsed_index_candidates c0 idx";
            cases "index_candidate_map_from_file_bytes idx (case index_files c3 idx of None \<Rightarrow> None | Some b \<Rightarrow> b)")
          (auto simp: cache_parsed_index_def io_bind_apply)
    qed
    obtain y c1 v1 where y: "cache_parsed_index db idx (index_cache t, w) = (y, (c1, v1))" by (metis prod.exhaust)
    show ?thesis
      using x y g [OF y]
      by (cases y; cases "path_value db (index_relative_path idx) w")
        (auto simp: lookup_index_in_read_txn_def file_path_for_index_def io_bind_apply io_over_apply file_path_for_run split: if_splits)
  qed
  from x assms(3) have "s' = (t\<lparr>index_cache := c\<rparr>, v)" by (simp add: txn_lookup_index_def)
  with f show ?thesis by (auto intro: undo_inv_files_eq [OF assms(1)])
qed

lemma txn_step_undoable:
  assumes step: "txn_step db (t, w) (t', w')" and "steady db" and inv: "undo_inv (staging_files db) f0 db (t, w)"
    and "\<not> finished t"
  shows "finished t' \<or> undo_inv (staging_files db) f0 db (t', w')"
  using step
proof (cases rule: txn_step.cases)
  case (1 f rec r)
  from tracked_write_undoable [OF inv _ 1 [unfolded txn_append_record_def]] append_record_grows [OF assms(2)]
  show ?thesis by (simp add: record_path_def)
next
  case (2 f bs r)
  from tracked_write_undoable [OF inv _ 2 [unfolded txn_append_records_def]] append_records_grows [OF assms(2)]
  show ?thesis by (simp add: record_path_def)
next
  case (3 f i rec u)
  with overwrite_txn_undoable [OF inv assms(2)] show ?thesis by simp
next
  case (4 g bs rng)
  from tracked_write_undoable [OF inv append_payload_grows 4 [unfolded txn_append_payload_def]] show ?thesis by simp
next
  case (5 idx k i u)
  with append_index_txn_undoable [OF inv] show ?thesis by simp
next
  case (6 idx k xs)
  with lookup_txn_undoable [OF inv assms(2)] show ?thesis by simp
next
  case (7 p u)
  then have "(t', w') = (t, w) \<or> (\<exists>a. (t', w') = (track_absolute_file a t, w))"
    by (cases "store_path_for (authority_root db) p") (auto simp: track_relative_path_def)
  with inv undo_inv_touch [OF inv] show ?thesis by auto
next
  case (8 out)
  with commit_undoable [OF inv] show ?thesis by simp
next
  case (9 f i m out)
  with commit_marker_undoable [OF inv] show ?thesis by simp
next
  case (10 f tag bs out)
  with commit_atomic_undoable [OF inv] show ?thesis by blast
next
  case (11 u)
  with abort_run [OF inv assms(2,4)] show ?thesis by blast
qed

lemma txn_run_undoable:
  assumes "txn_run db s0 s" and "steady db" and "undo_inv (staging_files db) f0 db s0"
  shows "finished (fst s) \<or> undo_inv (staging_files db) f0 db s"
  using assms(1)
proof (induction rule: txn_run.induct)
  case start
  then show ?case using assms(3) by simp
next
  case (step s1 s2)
  then show ?case
    using txn_step_undoable [of db "fst s1" "snd s1" "fst s2" "snd s2" f0] assms(2) by simp
qed

lemma new_txn_undoable: "undo_inv T (files w) db (new_txn lock txid scope policy, w)"
  by (simp add: undo_inv_def new_txn_def)

end
