(* ===== verification/Txn_Durability.thy ===== *)
theory Txn_Durability
  imports Txn_Steps
begin

text \<open>
  What is on stable storage after a commit: syncing the touched files makes their contents
  durable, the closing steps of a commit change neither contents nor durable contents, and the
  record marker is written only after every dependency is durable.
\<close>

definition same_store :: "io_world \<Rightarrow> io_world \<Rightarrow> bool" where
  "same_store w w' \<longleftrightarrow> files w' = files w \<and> durable w' = durable w"

lemma same_store_rules: "reflp same_store" "transp same_store"
  by (auto simp: reflp_def transp_def same_store_def)

lemma os_call_store:
  assumes "\<And>v. same_store v (snd (eff v))" and "\<And>n v. same_store v (torn n v)"
  shows "io_keeps same_store (os_call eff torn)"
proof (rule io_keepsI)
  fix w r w'
  assume run: "os_call eff torn w = (r, w')"
  obtain f v where f: "take_fault w = (f, v)" by fastforce
  have "same_store w v" using take_fault_quiet [OF f] by (simp add: quiet_def same_store_def)
  moreover have "same_store v w'"
    using run f assms(1) [where v = v] assms(2) [where v = v]
    by (auto simp: os_call_def same_store_def split: option.splits io_fault.splits)
  ultimately show "same_store w w'" using same_store_rules(2) by (blast dest: transpD)
qed

lemmas same_store_keeps = io_keeps_pure [OF same_store_rules(1)] io_keeps_bind [OF same_store_rules(2)]
  io_keeps_map_err store_io_keeps

lemma quiet_same_store: "io_keeps quiet m \<Longrightarrow> io_keeps same_store m"
  by (auto simp: io_keeps_def quiet_def same_store_def)

lemma release_step_store: "io_keeps same_store (io_bind (store_io (clear_contents_and_flush g)) (\<lambda>_. store_io (release_guard g)))"
  unfolding clear_contents_and_flush_def replace_contents_and_flush_def release_guard_def Let_def os_query_def
  by (intro same_store_keeps io_keeps_if os_call_store) (simp_all add: same_store_def set_cell_def)

lemma release_each_store: "release_each gs w = ((r, gs'), w') \<Longrightarrow> same_store w w'"
proof (induction gs arbitrary: r w gs' w')
  case Nil
  then show ?case by (simp add: same_store_def)
next
  case (Cons g gs)
  obtain q v where q: "io_bind (store_io (clear_contents_and_flush g)) (\<lambda>_. store_io (release_guard g)) w = (q, v)" by fastforce
  have sv: "same_store w v" by (rule io_keepsD [OF release_step_store q])
  show ?case
  proof (cases q)
    case (Inl e)
    with Cons.prems q sv show ?thesis by auto
  next
    case (Inr g')
    obtain s ks u where s: "release_each gs v = ((s, ks), u)" by (metis prod.exhaust)
    from Cons.IH [OF s] Cons.prems q Inr s sv show ?thesis by (auto simp: same_store_def)
  qed
qed

lemma txn_release_store:
  assumes "txn_release_lock (t, w) = (r, (t', w'))"
  shows "same_store w w'"
proof -
  obtain q gs v where q: "release_each (lock_guards (txn_lock t)) w = ((q, gs), v)" by (metis prod.exhaust)
  from release_each_store [OF q] q assms show ?thesis
    by (cases q) (auto simp: txn_release_lock_def release_lock_set_def same_store_def split: if_splits)
qed

lemma finish_committed_store:
  assumes "finish_committed db (t, w) = (r, (t', w'))"
  shows "same_store w w'"
proof -
  obtain q t1 w1 where q: "txn_release_lock (close_txn t, w) = (q, (t1, w1))" by (metis prod.exhaust)
  from txn_release_store [OF q] assms q show ?thesis
    by (cases q) (auto simp: finish_committed_def io_bind_apply txn_release_warning_def Let_def checkpoint_directory_def
        io_over_apply split: if_splits option.splits sum.splits)
qed

lemma finish_crossed_store:
  assumes "finish_crossed_commit_point (t, w) = (r, (t', w'))"
  shows "same_store w w'"
proof -
  obtain q t1 w1 where q: "txn_release_lock (close_txn t, w) = (q, (t1, w1))" by (metis prod.exhaust)
  from txn_release_store [OF q] assms q show ?thesis
    by (cases q) (auto simp: finish_crossed_commit_point_def io_bind_apply txn_release_warning_def)
qed

section \<open>Syncing\<close>

definition syncs_files :: "LocalBinaryDbFs \<Rightarrow> BinaryDbFsyncPolicy \<Rightarrow> bool" where
  "syncs_files db pol \<longleftrightarrow> pol = StdFsync \<or> pol = StoreFsync \<and> durable_directory db = None"

lemma policy_sync_ok:
  assumes "syncs_files db pol" and "policy_sync_file db pol p w = (Inr u, w')"
  shows "files w' = files w \<and> durable w' = (durable w)(p := files w p) \<and> files w p \<noteq> None"
proof -
  have "sync_file p w = (Inr u, w')"
    using assms by (auto simp: syncs_files_def db_sync_file_def store_io_ok)
  then show ?thesis by (rule sync_file_ok) simp
qed

lemma sync_files_ok:
  assumes "syncs_files db pol" and "sync_files db pol ps w = (Inr u, w')"
  shows "files w' = files w \<and> (\<forall>p. durable w' p = (if p \<in> set ps then files w p else durable w p)) \<and>
    (\<forall>p \<in> set ps. files w p \<noteq> None)"
  using assms(2)
proof (induction ps arbitrary: w)
  case (Cons p ps)
  then obtain x v where x: "policy_sync_file db pol p w = (Inr x, v)" "sync_files db pol ps v = (Inr u, w')"
    by (auto simp: io_bind_ok)
  from policy_sync_ok [OF assms(1) x(1)] Cons.IH [OF x(2)] show ?case by auto
qed simp

lemma sync_directory_store: "io_keeps same_store (policy_sync_directory db pol p)"
  by (cases pol) (auto simp: db_sync_directory_def
      intro: same_store_keeps quiet_same_store [OF sync_dir_quiet])

lemma sync_directories_store: "io_keeps same_store (sync_directories db pol ps)"
  by (induction ps; unfold sync_directories.simps; intro same_store_keeps sync_directory_store)

lemma sync_touched_ok:
  assumes "syncs_files db (fsync_policy t)" and "sync_touched_dependencies db (t, w) = (Inr u, (t', w'))"
  shows "t' = t \<and> files w' = files w \<and>
    (\<forall>p. durable w' p = (if p \<in> set (touched_files t) then files w p else durable w p)) \<and>
    (\<forall>p \<in> set (touched_files t). files w p \<noteq> None)"
proof -
  from assms(2) obtain x v where x: "sync_files db (fsync_policy t) (touched_files t) w = (Inr x, v)"
      "sync_directories db (fsync_policy t) (touched_directories t) v = (Inr u, w')" and t: "t' = t"
    by (auto simp: sync_touched_dependencies_def io_over_run io_bind_ok)
  from sync_files_ok [OF assms(1) x(1)] io_keepsD [OF sync_directories_store x(2)] t show ?thesis
    by (simp add: same_store_def)
qed

lemma commit_ok:
  assumes "commit_outcome t = None" and "syncs_files db (fsync_policy t)"
    and "commit db (t, w) = (Inr out, (t', w'))"
  shows "files w' = files w \<and> (\<forall>p \<in> set (touched_files t). durable w' p = files w' p \<and> files w' p \<noteq> None) \<and>
    finished t' \<and> \<not> active (write_context t') \<and> rollback_files t' = [] \<and> rollback_records t' = []"
proof -
  from assms(1,3) obtain x t1 w1 where sy: "sync_touched_dependencies db (t, w) = (Inr x, (t1, w1))"
    and fin: "finish_committed db (t1, w1) = (Inr out, (t', w'))"
    by (auto simp: commit_def io_ok)
  from sync_touched_ok [OF assms(2) sy] finish_committed_store [OF fin] finish_committed_run [OF fin]
  show ?thesis by (auto simp: same_store_def)
qed

section \<open>The record marker\<close>

lemma marker_run:
  assumes "steady db" and "overwrite_record_marker db f i m wc w = (r, w')"
  shows "(files w' = files w \<and> durable w' = durable w \<and> \<not> is_ok r) \<or>
    (\<exists>b n. files w (record_path db f) = Some b \<and> record_offset f i < length b \<and> (is_ok r \<longrightarrow> n = 1) \<and>
       files w' = (files w)(record_path db f \<mapsto> splice_bytes (record_offset f i) (take n [m]) b) \<and> durable w' = durable w)"
proof -
  let ?go = "ensure_authorized_path wc (file_relative_path f) = Inr () \<and> file_record_size f \<noteq> 0"
  obtain q v where q: "record_count db f w = (q, v)" by fastforce
  have qv: "quiet w v" by (rule readsD_quiet [OF record_count_reads [OF assms(1)] q])
  show ?thesis
  proof (cases "?go \<and> (\<exists>n. q = Inr n \<and> i < n) \<and> is_ok (path_value db (file_relative_path f) v)")
    case False
    have "\<not> is_ok r \<and> (w' = w \<or> w' = v)"
    proof (cases "ensure_authorized_path wc (file_relative_path f)")
      case (Inl e)
      with assms(2) have "r = Inl e \<and> w' = w" by (auto simp: overwrite_record_marker_def)
      then show ?thesis by simp
    next
      case (Inr u)
      with False assms(2) q show ?thesis
        by (cases q; cases "path_value db (file_relative_path f) v"; cases "file_record_size f = 0")
          (auto simp: overwrite_record_marker_def io_bind_apply file_path_for_binary_record_def file_path_for_run not_le split: if_splits)
    qed
    with qv show ?thesis by (auto simp: quiet_def)
  next
    case True
    then obtain p n where p: "path_value db (file_relative_path f) v = Inr p" "q = Inr n" "i < n" by (auto simp: is_ok_iff)
    have pd: "p = record_path db f" by (rule count_value_eq(1) [OF p(1)])
    from True p q assms(2) have ow: "store_io (overwrite_range (record_path db f) (record_offset f i) [m]) v = (r, w')"
      by (auto simp: overwrite_record_marker_def io_bind_apply file_path_for_binary_record_def file_path_for_run pd split: if_splits)
    show ?thesis
    proof (cases r)
      case (Inr u)
      with ow have "overwrite_range (record_path db f) (record_offset f i) [m] v = (Inr u, w')" by (simp add: store_io_ok)
      then obtain b where "files v (record_path db f) = Some b" "record_offset f i + length [m] \<le> length b"
        "files w' = (files v)(record_path db f \<mapsto> splice_bytes (record_offset f i) [m] b)" "touches (record_path db f) v w'"
        by (rule overwrite_range_ok)
      with qv show ?thesis by (intro disjI2 exI [of _ b] exI [of _ 1]) (auto simp: quiet_def touches_def)
    next
      case (Inl e)
      with ow obtain d where "overwrite_range (record_path db f) (record_offset f i) [m] v = (Inl d, w')"
        by (auto simp: store_io_err)
      from overwrite_range_err [OF this] show ?thesis
      proof (elim disjE exE conjE)
        assume "quiet v w'"
        with qv Inl show ?thesis by (auto simp: quiet_def)
      next
        fix n b assume "files v (record_path db f) = Some b" "record_offset f i + length [m] \<le> length b"
          "files w' = (files v)(record_path db f \<mapsto> splice_bytes (record_offset f i) (take n [m]) b)"
          "touches (record_path db f) v w'"
        with qv Inl show ?thesis by (intro disjI2 exI [of _ b] exI [of _ n]) (auto simp: quiet_def touches_def)
      qed
    qed
  qed
qed

lemma publish_marker_run:
  assumes "steady db" and "syncs_files db (fsync_policy t)" and "publish_marker db f i m (record_path db f) (t, w) = (r, (t', w'))"
  shows "t' = t \<and> (\<forall>q. q \<noteq> record_path db f \<longrightarrow> files w' q = files w q \<and> durable w' q = durable w q) \<and>
    (is_ok r \<longrightarrow> (\<exists>b. files w (record_path db f) = Some b \<and>
       files w' (record_path db f) = Some (splice_bytes (record_offset f i) [m] b) \<and>
       durable w' (record_path db f) = files w' (record_path db f)))"
proof -
  obtain q v where q: "overwrite_record_marker db f i m (write_context t) w = (q, v)" by fastforce
  note mr = marker_run [OF assms(1) q]
  obtain x u where x: "policy_sync_file db (fsync_policy t) (record_path db f) v = (x, u)" by fastforce
  have fu: "files u = files v" using io_keepsD [OF policy_sync_files(1) x] by (simp add: same_files_def)
  have du: "\<forall>p. p \<noteq> record_path db f \<longrightarrow> durable u p = durable v p"
  proof (cases x)
    case (Inr y)
    with policy_sync_ok [OF assms(2)] x show ?thesis by auto
  next
    case (Inl e)
    obtain g z where g: "take_fault v = (g, z)" by fastforce
    from Inl x assms(2) have "store_io (sync_file (record_path db f)) v = (Inl e, u)"
      by (auto simp: syncs_files_def db_sync_file_def)
    with g take_fault_quiet [OF g] show ?thesis
      by (auto simp: store_io_def io_map_err_apply sync_file_def os_query_def os_call_def quiet_def
          split: prod.splits sum.splits option.splits io_fault.splits)
  qed
  have run: "(r, (t', w')) = (case q of Inl e \<Rightarrow> (Inl e, (t, v)) | Inr _ \<Rightarrow> (x, (t, u)))"
    using assms(3) q x by (cases q) (auto simp: publish_marker_def with_context_def io_bind_apply)
  show ?thesis
  proof (cases q)
    case (Inl e)
    with run mr show ?thesis by auto
  next
    case (Inr y)
    with mr obtain b where b: "files w (record_path db f) = Some b"
        "files v = (files w)(record_path db f \<mapsto> splice_bytes (record_offset f i) [m] b)" "durable v = durable w"
      by auto
    from Inr run have e: "r = x" "t' = t" "w' = u" by auto
    have "durable u (record_path db f) = files u (record_path db f)" if "is_ok x"
      using that policy_sync_ok [OF assms(2), of "record_path db f" v _ u] x by (auto simp: is_ok_iff)
    with e b fu du show ?thesis by auto
  qed
qed

end
