(* ===== verification/Txn_Properties.thy ===== *)
theory Txn_Properties
  imports Txn_Durability Store_Properties "HOL-Library.Code_Target_Nat"
begin

text \<open>
  The properties of write transactions: an abort restores the files, a commit is durable, the
  commit marker comes last, a finished transaction is inert; and the case in which an abort cannot
  play its log back.
\<close>

section \<open>Aborting\<close>

text \<open>
  C1. Atomicity of an abort: after any sequence of operations of a write transaction, whichever of
  them failed and wherever in the middle of a write they failed, an abort that returns success
  leaves every file as it was when the transaction began, outside of the staging directory for
  atomic replacements.
\<close>

theorem abort_restores_files:
  assumes "steady db" and "txn_run db (new_txn lock txid scope policy, w0) (t, w)" and "\<not> finished t"
    and "abort db (t, w) = (Inr u, (t', w'))"
  shows "\<forall>q. q \<notin> staging_files db \<longrightarrow> files w' q = files w0 q"
proof -
  have "undo_inv (staging_files db) (files w0) db (t, w)"
    using txn_run_undoable [OF assms(2,1) new_txn_undoable] assms(3) by simp
  from abort_run [OF this assms(1,3,4)] show ?thesis by simp
qed

definition demo_txn :: BinaryDbWriteTxn where
  "demo_txn = new_txn (detached_command_lock General) 1 General StdFsync"

definition torn_world :: "nat \<Rightarrow> io_world" where
  "torn_world k = demo_world\<lparr>faults := replicate k None @ [Some (FailAfter 1 IoInterrupted)]\<rparr>"

definition demo_task_path :: path where
  "demo_task_path = [RootDir, Normal ''repo'', Normal ''db'', Normal ''task.bin'']"

text \<open>A torn overwrite, an append, and the abort that undoes both.\<close>

definition abort_trace :: "unit store_result \<times> u32 store_result \<times> unit store_result \<times> bytes option \<times> bytes option \<times> bool" where
  "abort_trace =
     (case txn_overwrite_record demo_db demo_file 0 [9, 9] (demo_txn, torn_world 9) of (r1, s1) \<Rightarrow>
      case txn_append_record demo_db demo_file [5, 6] s1 of (r2, s2) \<Rightarrow>
      case abort demo_db s2 of (r3, s3) \<Rightarrow>
        (r1, r2, r3, files (snd s2) demo_task_path, files (snd s3) demo_task_path, finished (fst s2)))"

lemma abort_trace_value:
  "abort_trace = (Inl DbIo, Inr 2, Inr (), Some [7, 0, 0, 0, 9, 2, 3, 4, 5, 6], Some [7, 0, 0, 0, 1, 2, 3, 4], False)"
  by code_simp

theorem abort_restores_files_witness:
  "\<exists>t w t' w'. txn_run demo_db (demo_txn, torn_world 9) (t, w) \<and>
     files w demo_task_path = Some [7, 0, 0, 0, 9, 2, 3, 4, 5, 6] \<and> abort demo_db (t, w) = (Inr (), (t', w')) \<and>
     (\<forall>q. q \<notin> staging_files demo_db \<longrightarrow> files w' q = files demo_world q)"
proof -
  obtain r1 s1 where s1: "txn_overwrite_record demo_db demo_file 0 [9, 9] (demo_txn, torn_world 9) = (r1, s1)" by (metis prod.exhaust)
  obtain r2 t w where s2: "txn_append_record demo_db demo_file [5, 6] s1 = (r2, (t, w))" by (metis prod.exhaust)
  obtain r3 t' w' where s3: "abort demo_db (t, w) = (r3, (t', w'))" by (metis prod.exhaust)
  have v: "r3 = Inr ()" "files w demo_task_path = Some [7, 0, 0, 0, 9, 2, 3, 4, 5, 6]" "\<not> finished t" "\<not> finished (fst s1)"
  proof -
    show "r3 = Inr ()" "files w demo_task_path = Some [7, 0, 0, 0, 9, 2, 3, 4, 5, 6]" "\<not> finished t"
      using abort_trace_value by (auto simp: abort_trace_def s1 s2 s3)
    have "\<not> finished (fst (snd (txn_overwrite_record demo_db demo_file 0 [9, 9] (demo_txn, torn_world 9))))" by code_simp
    then show "\<not> finished (fst s1)" by (simp add: s1)
  qed
  have nf: "\<not> finished demo_txn" by (simp add: demo_txn_def new_txn_def)
  have "txn_run demo_db (demo_txn, torn_world 9) s1"
    by (rule txn_run.step [OF txn_run.start]) (use nf s1 in \<open>auto intro: txn_step.intros\<close>)
  then have run: "txn_run demo_db (demo_txn, torn_world 9) (t, w)"
    by (rule txn_run.step) (use v(4) s2 in \<open>auto intro: txn_step.intros\<close>)
  have "\<forall>q. q \<notin> staging_files demo_db \<longrightarrow> files w' q = files (torn_world 9) q"
    using abort_restores_files [OF demo_steady run [unfolded demo_txn_def] v(3)] s3 v(1) by blast
  then show ?thesis using run v s3 by (auto simp: torn_world_def)
qed

text \<open>
  C38. An abort can get stuck: the log restores remembered records before it truncates the files,
  and restoring a record validates the whole file.  So when the file of the last remembered record
  ends in a torn append, the abort fails with the corruption error although no further operation
  of the system fails, and nothing is rolled back: the overwritten record and the torn tail stay.
\<close>

theorem abort_stuck_on_torn_append:
  assumes "steady db" and "calm w" and "\<not> finished t" and "rollback_records t = rs @ [e]"
    and "ensure_authorized_path (write_context t) (file_relative_path (rollback_file e)) = Inr ()"
    and "length (rollback_bytes e) = unat (file_record_size (rollback_file e))"
    and "count_value db (rollback_file e) w = Inl Corruption"
  shows "\<exists>s'. abort db (t, w) = (Inl Corruption, s') \<and> files (snd s') = files w \<and> fst s' = t"
proof -
  obtain v where v: "record_count db (rollback_file e) w = (Inl Corruption, v)" "quiet w v"
    using reads_calm [OF record_count_reads [OF assms(1)] assms(2)] assms(7) by metis
  show ?thesis
  proof (cases "path_value db (file_relative_path (rollback_file e)) w")
    case (Inl d)
    with assms(7) have "d = Corruption" by (simp add: count_value_def)
    with Inl assms(3-6) show ?thesis
      by (simp add: abort_def rollback_uncommitted_files_def overwrite_record_def file_path_for_binary_record_def
          file_path_for_run io_bind_apply io_over_apply)
  next
    case (Inr p)
    with v assms(3-6) show ?thesis
      by (simp add: abort_def rollback_uncommitted_files_def overwrite_record_def file_path_for_binary_record_def
          file_path_for_run io_bind_apply io_over_apply quiet_def)
  qed
qed

definition stuck_state :: "BinaryDbWriteTxn \<times> io_world" where
  "stuck_state = snd (txn_append_record demo_db demo_file [5, 6]
     (snd (txn_overwrite_record demo_db demo_file 0 [9, 9] (demo_txn, torn_world 18))))"

lemma stuck_state_eval:
  "(case stuck_state of (t, w) \<Rightarrow> (files w demo_task_path, faults w, finished t,
      map (\<lambda>e. (rollback_file e, rollback_index e, rollback_bytes e)) (rollback_records t), write_context t)) =
   (Some [7, 0, 0, 0, 9, 9, 3, 4, 5], [], False,
    [(demo_file, 0, [1, 2])], demo_write)"
  by code_simp

lemma stuck_state_value:
  "files (snd stuck_state) demo_task_path = Some [7, 0, 0, 0, 9, 9, 3, 4, 5]"
  "faults (snd stuck_state) = []"
  "rollback_records (fst stuck_state) = [\<lparr>rollback_file = demo_file, rollback_index = 0, rollback_bytes = [1, 2]\<rparr>]"
  "\<not> finished (fst stuck_state)" "write_context (fst stuck_state) = demo_write"
  using stuck_state_eval by (auto simp: split_beta)

theorem abort_stuck_on_torn_append_witness:
  "\<exists>s'. abort demo_db stuck_state = (Inl Corruption, s') \<and>
     files (snd s') demo_task_path = Some [7, 0, 0, 0, 9, 9, 3, 4, 5]"
proof -
  let ?e = "\<lparr>rollback_file = demo_file, rollback_index = 0, rollback_bytes = [1, 2]\<rparr> :: BinaryDbRollbackRecord"
  have c: "calm (snd stuck_state)" by (simp add: calm_def stuck_state_value)
  have "count_value demo_db demo_file (snd stuck_state) = Inl Corruption"
    using stuck_state_value(1) by (simp add: count_value_def demo_file_def demo_paths valid_value_def demo_task_path_def from_le_bytes_def)
  then have "\<exists>s'. abort demo_db (fst stuck_state, snd stuck_state) = (Inl Corruption, s') \<and>
      files (snd s') = files (snd stuck_state) \<and> fst s' = fst stuck_state"
    by (intro abort_stuck_on_torn_append [where rs = "[]" and e = ?e, OF demo_steady c])
      (simp_all add: stuck_state_value demo_write_def ensure_authorized_path_ok demo_sizes)
  then show ?thesis using stuck_state_value(1) by auto
qed

section \<open>Committing\<close>

text \<open>
  C4. Durability of a commit: a commit that returns success under a syncing policy has not changed
  any file, every file the transaction touched is on stable storage with exactly its current
  contents, and the transaction is closed: finished, its write capability inactive, its log empty.
\<close>

theorem commit_makes_durable:
  assumes "commit_outcome t = None" and "syncs_files db (fsync_policy t)"
    and "commit db (t, w) = (Inr out, (t', w'))"
  shows "files w' = files w \<and> (\<forall>p \<in> set (touched_files t). \<exists>b. files w' p = Some b \<and> durable w' p = Some b) \<and>
    finished t' \<and> \<not> active (write_context t') \<and> rollback_files t' = [] \<and> rollback_records t' = []"
  using commit_ok [OF assms] by fastforce

definition commit_state :: "BinaryDbWriteTxn \<times> io_world" where
  "commit_state = snd (txn_append_record demo_db demo_file [5, 6] (demo_txn, demo_world))"

lemma commit_state_eval:
  "(case commit_state of (t, w) \<Rightarrow> (touched_files t, commit_outcome t = None, fsync_policy t = StdFsync,
      is_ok (fst (commit demo_db (t, w))), files w demo_task_path))
   = ([demo_task_path], True, True, True, Some [7, 0, 0, 0, 1, 2, 3, 4, 5, 6])"
  by code_simp

theorem commit_makes_durable_witness:
  "\<exists>out t' w'. commit demo_db commit_state = (Inr out, (t', w')) \<and> finished t' \<and>
     durable w' demo_task_path = Some [7, 0, 0, 0, 1, 2, 3, 4, 5, 6]"
proof -
  obtain t w where tw: "commit_state = (t, w)" by fastforce
  have e: "touched_files t = [demo_task_path]" "commit_outcome t = None" "fsync_policy t = StdFsync"
      "is_ok (fst (commit demo_db (t, w)))" "files w demo_task_path = Some [7, 0, 0, 0, 1, 2, 3, 4, 5, 6]"
    using commit_state_eval by (simp_all add: tw)
  from e(4) obtain out t' w' where run: "commit demo_db (t, w) = (Inr out, (t', w'))"
    by (cases "commit demo_db (t, w)") (auto simp: is_ok_iff)
  have "syncs_files demo_db (fsync_policy t)" by (simp add: syncs_files_def e(3))
  from commit_makes_durable [OF e(2) this run] run e(1,5) show ?thesis by (auto simp: tw)
qed

text \<open>
  C5. The marker comes last: in a commit by record marker, whenever any file changed, all other
  touched files were already durable with unchanged contents, whatever the result; and when the
  commit succeeds, exactly the first byte of the record was replaced and is durable too.
\<close>

theorem marker_written_after_dependencies:
  assumes "steady db" and "syncs_files db (fsync_policy t)"
    and "commit_with_record_marker db f i m (t, w) = (r, (t', w'))"
  shows "(files w' \<noteq> files w \<longrightarrow>
      (\<forall>p \<in> set (touched_files t). p \<noteq> record_path db f \<longrightarrow> durable w' p = files w p \<and> files w' p = files w p)) \<and>
    (is_ok r \<longrightarrow> (\<exists>b. files w (record_path db f) = Some b \<and>
      files w' (record_path db f) = Some (splice_bytes (record_offset f i) [m] b) \<and>
      durable w' (record_path db f) = files w' (record_path db f)))"
proof -
  let ?p = "record_path db f"
  obtain q t1 w1 where q: "sync_touched_dependencies db (t, w) = (q, (t1, w1))" by (metis prod.exhaust)
  obtain x t2 w2 where x: "publish_marker db f i m ?p (t1, w1) = (x, (t2, w2))" by (metis prod.exhaust)
  obtain c t3 w3 where c: "finish_crossed_commit_point (t2, w2) = (c, (t3, w3))" by (metis prod.exhaust)
  obtain y t4 w4 where y: "finish_committed db (t2, w2) = (y, (t4, w4))" by (metis prod.exhaust)
  have sy: "t1 = t \<and> files w1 = files w" by (rule sync_touched_run [OF q])
  consider (none) "files w' = files w" "\<not> is_ok r"
    | (go) "is_ok q" "(r, (t', w')) = (case x of Inl e \<Rightarrow> (Inl e, (t3, w3)) | Inr _ \<Rightarrow> (y, (t4, w4)))"
  proof (cases "is_ok q \<and> is_ok (ensure_write_open t) \<and> store_path_for (authority_root db) (file_relative_path f) = Inr ?p \<and> ?p \<in> set (touched_files t)")
    case True
    then have "(r, (t', w')) = (case x of Inl e \<Rightarrow> (Inl e, (t3, w3)) | Inr _ \<Rightarrow> (y, (t4, w4)))"
      using assms(3) q x c y
      by (auto simp: commit_with_record_marker_def check_open_def is_ok_iff split: sum.splits)
    with True go show ?thesis by blast
  next
    case False
    have st: "store_path_for (authority_root db) (file_relative_path f) = Inr p \<Longrightarrow> p = ?p" for p
      by (simp add: store_path_for_ok record_path_def)
    from False have "files w' = files w \<and> \<not> is_ok r"
      using assms(3) q sy st
      by (cases "ensure_write_open t"; cases "store_path_for (authority_root db) (file_relative_path f)"; cases q)
        (auto simp: commit_with_record_marker_def check_open_def io_bind_apply split: if_splits)
    with none show ?thesis by blast
  qed
  then show ?thesis
  proof cases
    case none
    then show ?thesis by simp
  next
    case go
    from go(1) q have sq: "files w1 = files w" "\<forall>p \<in> set (touched_files t). durable w1 p = files w p"
      using sync_touched_ok [OF assms(2)] by (auto simp: is_ok_iff)
    have pol: "syncs_files db (fsync_policy t1)" using assms(2) sy by simp
    note pm = publish_marker_run [OF assms(1) pol x]
    have keep: "files w' = files w2 \<and> durable w' = durable w2"
      using go(2) finish_crossed_store [OF c] finish_committed_store [OF y] by (auto simp: same_store_def split: sum.splits)
    have okx: "is_ok r \<Longrightarrow> is_ok x" using go(2) by (auto split: sum.splits)
    show ?thesis using pm keep sq okx by auto
  qed
qed

definition marker_state :: "BinaryDbWriteTxn \<times> io_world" where
  "marker_state = snd (txn_append_record demo_db demo_file [0, 6]
     (snd (txn_append_payload demo_db demo_payload [8] (demo_txn, demo_world))))"

lemma marker_state_eval:
  "(case marker_state of (t, w) \<Rightarrow> (fsync_policy t = StdFsync, is_ok (fst (commit_with_record_marker demo_db demo_file 2 1 (t, w))),
      files w demo_task_path)) = (True, True, Some [7, 0, 0, 0, 1, 2, 3, 4, 0, 6])"
  by code_simp

theorem marker_written_after_dependencies_witness:
  "\<exists>out t' w'. commit_with_record_marker demo_db demo_file 2 1 marker_state = (Inr out, (t', w')) \<and>
     durable w' demo_task_path = Some [7, 0, 0, 0, 1, 2, 3, 4, 1, 6]"
proof -
  obtain t w where tw: "marker_state = (t, w)" by fastforce
  have e: "fsync_policy t = StdFsync" "is_ok (fst (commit_with_record_marker demo_db demo_file 2 1 (t, w)))"
      "files w demo_task_path = Some [7, 0, 0, 0, 1, 2, 3, 4, 0, 6]"
    using marker_state_eval by (simp_all add: tw)
  from e(2) obtain out t' w' where run: "commit_with_record_marker demo_db demo_file 2 1 (t, w) = (Inr out, (t', w'))"
    by (cases "commit_with_record_marker demo_db demo_file 2 1 (t, w)") (auto simp: is_ok_iff)
  have pol: "syncs_files demo_db (fsync_policy t)" by (simp add: syncs_files_def e(1))
  have off: "record_offset demo_file 2 = 8" by (simp add: record_offset_def BIN_FILE_HEADER_BYTES_def demo_sizes)
  have rp: "record_path demo_db demo_file = demo_task_path" by (simp add: demo_record_path demo_task_path_def)
  from marker_written_after_dependencies [OF demo_steady pol run]
  obtain b where "files w demo_task_path = Some b" "files w' demo_task_path = Some (splice_bytes 8 [1] b)"
      "durable w' demo_task_path = files w' demo_task_path"
    unfolding rp off by auto
  with e(3) have "durable w' demo_task_path = Some [7, 0, 0, 0, 1, 2, 3, 4, 1, 6]"
    by (simp add: splice_bytes_def)
  with run show ?thesis unfolding tw by blast
qed

text \<open>
  A finished transaction is inert: every write operation and every marker commit on it is
  refused with the invalid-domain error and changes neither the transaction nor the world, and
  aborting it succeeds without doing anything.
\<close>

theorem finished_txn_is_inert:
  assumes "finished t"
  shows "txn_append_record db f bs (t, w) = (Inl InvalidDomainData, (t, w)) \<and>
    txn_append_records db f bs (t, w) = (Inl InvalidDomainData, (t, w)) \<and>
    txn_overwrite_record db f i bs (t, w) = (Inl InvalidDomainData, (t, w)) \<and>
    txn_append_payload db g bs (t, w) = (Inl InvalidDomainData, (t, w)) \<and>
    txn_append_index_candidate db idx bs i (t, w) = (Inl InvalidDomainData, (t, w)) \<and>
    commit_with_record_marker db f i m (t, w) = (Inl InvalidDomainData, (t, w)) \<and>
    abort db (t, w) = (Inr (), (t, w))"
  using assms
  by (simp add: txn_append_record_def txn_append_records_def txn_overwrite_record_def txn_append_payload_def
      txn_append_index_candidate_def commit_with_record_marker_def abort_def check_open_def ensure_write_open_def io_bind_apply)

theorem finished_txn_is_inert_witness:
  "abort demo_db (close_txn demo_txn, demo_world) = (Inr (), (close_txn demo_txn, demo_world)) \<and>
   txn_append_record demo_db demo_file [1, 2] (close_txn demo_txn, demo_world) = (Inl InvalidDomainData, (close_txn demo_txn, demo_world))"
  using finished_txn_is_inert [of "close_txn demo_txn" demo_db demo_file "[1, 2]" demo_world] by (simp add: close_txn_def)

end
