(* ===== verification/Pack_Delta.thy ===== *)
theory Pack_Delta
  imports Ait_Prelude
begin

unbundle bit_operations_syntax

text \<open>
  The binary delta format of object packs (\<open>pack_substrate/util.rs\<close>,
  \<open>pack_substrate/object.rs\<close>): two size headers as base-128 integers, then copy
  instructions (a flag byte and the nonzero bytes of offset and size) and insert instructions (a
  length byte and literal data).  The cursor of the source loops is the unread suffix here; sizes
  and offsets are 64-bit words where the code shifts them, and positions in lists otherwise.
\<close>

section \<open>Errors\<close>

datatype pack_error =
    TruncatedSizeHeader | SizeHeaderTooLarge | BaseSizeMismatch | CopyOffsetTruncated
  | CopySizeTruncated | CopyRangeOutOfBounds | ZeroInstruction | InsertDataTruncated
  | TargetSizeMismatch | UnsupportedDeltaAlgorithm

type_synonym 'a pack_result = "pack_error + 'a"

section \<open>Size headers\<close>

function encode_size_varint :: "u64 \<Rightarrow> bytes" where
  "encode_size_varint value =
     (let byte = ucast (value AND 0x7f) :: u8; value' = drop_bit 7 value
      in if value' > 0 then (byte OR 0x80) # encode_size_varint value' else [byte])"
  by pat_completeness auto
termination
proof (relation "measure unat")
  fix v :: u64 and byte :: u8 and v' :: u64
  assume "v' = drop_bit 7 v" "v' > 0"
  moreover have "unat (drop_bit 7 v) = unat v div 2 ^ 7"
    by (simp add: drop_bit_eq_div unat_div)
  ultimately show "(v', v) \<in> measure unat"
    by (auto simp: word_less_nat_alt)
qed simp

declare encode_size_varint.simps [simp del]

fun decode_size_from :: "u64 \<Rightarrow> nat \<Rightarrow> bytes \<Rightarrow> (u64 \<times> bytes) pack_result" where
  "decode_size_from value shift [] = Inl TruncatedSizeHeader"
| "decode_size_from value shift (byte # rest) =
     (let value' = value OR push_bit shift (ucast (byte AND 0x7f))
      in if byte AND 0x80 = 0 then Inr (value', rest)
         else if shift + 7 > 63 then Inl SizeHeaderTooLarge
         else decode_size_from value' (shift + 7) rest)"

definition decode_size_varint :: "bytes \<Rightarrow> (u64 \<times> bytes) pack_result" where
  "decode_size_varint data = decode_size_from 0 0 data"

section \<open>Instructions\<close>

definition encode_copy_byte :: "u64 \<Rightarrow> nat \<times> nat \<Rightarrow> u8 \<times> bytes \<Rightarrow> u8 \<times> bytes" where
  "encode_copy_byte value = (\<lambda>(bit, shift) (command, payload).
     let byte = ucast (drop_bit shift value AND 0xFF) :: u8
     in if byte \<noteq> 0 then (command OR push_bit bit 1, payload @ [byte]) else (command, payload))"

definition encode_copy_instruction :: "u64 \<Rightarrow> u64 \<Rightarrow> bytes" where
  "encode_copy_instruction offset sz =
     (let s0 = (0x80, []);
          s1 = fold (encode_copy_byte offset) [(0, 0), (1, 8), (2, 16), (3, 24)] s0;
          (command, payload) = fold (encode_copy_byte sz) [(0 + 4, 0), (1 + 4, 8), (2 + 4, 16)] s1
      in command # payload)"

function append_copy_instructions :: "u64 \<Rightarrow> u64 \<Rightarrow> bytes" where
  "append_copy_instructions current_offset remaining =
     (if remaining > 0
      then let chunk_size = min remaining 0xFFFF
           in encode_copy_instruction current_offset chunk_size @
              append_copy_instructions (current_offset + chunk_size) (remaining - chunk_size)
      else [])"
  by pat_completeness auto
termination
proof (relation "measure (unat \<circ> snd)")
  fix current_offset remaining chunk_size :: u64
  assume "remaining > 0" and c: "chunk_size = min remaining 0xFFFF"
  then have "chunk_size \<le> remaining" "chunk_size > 0" by (auto simp: min_def)
  then show "((current_offset + chunk_size, remaining - chunk_size), current_offset, remaining) \<in> measure (unat \<circ> snd)"
    by (simp add: unat_sub word_less_nat_alt word_le_nat_alt)
qed simp

declare append_copy_instructions.simps [simp del]

function append_insert_instructions :: "bytes \<Rightarrow> bytes" where
  "append_insert_instructions data =
     (if data = [] then []
      else let chunk = take 0x7f data
           in of_nat (length chunk) # chunk @ append_insert_instructions (drop 0x7f data))"
  by pat_completeness auto
termination by (relation "measure length") auto

declare append_insert_instructions.simps [simp del]

section \<open>Applying a delta\<close>

definition read_copy_byte ::
    "u8 \<Rightarrow> u8 \<Rightarrow> nat \<Rightarrow> pack_error \<Rightarrow> u64 \<times> bytes \<Rightarrow> (u64 \<times> bytes) pack_result" where
  "read_copy_byte command flag shift err = (\<lambda>(value, rest).
     if command AND flag \<noteq> 0
     then (case rest of [] \<Rightarrow> Inl err | b # rest' \<Rightarrow> Inr (value OR push_bit shift (ucast b), rest'))
     else Inr (value, rest))"

definition read_copy_operands :: "u8 \<Rightarrow> bytes \<Rightarrow> (u64 \<times> u64 \<times> bytes) pack_result" where
  "read_copy_operands command rest =
     res_bind (read_copy_byte command 0x01 0 CopyOffsetTruncated (0, rest)) (\<lambda>s.
     res_bind (read_copy_byte command 0x02 8 CopyOffsetTruncated s) (\<lambda>s.
     res_bind (read_copy_byte command 0x04 16 CopyOffsetTruncated s) (\<lambda>s.
     res_bind (read_copy_byte command 0x08 24 CopyOffsetTruncated s) (\<lambda>(offset, rest).
     res_bind (read_copy_byte command 0x10 0 CopySizeTruncated (0, rest)) (\<lambda>s.
     res_bind (read_copy_byte command 0x20 8 CopySizeTruncated s) (\<lambda>s.
     res_bind (read_copy_byte command 0x40 16 CopySizeTruncated s) (\<lambda>(sz, rest).
       Inr (offset, if sz = 0 then 0x10000 else sz, rest))))))))"

lemma read_copy_byte_length:
  "read_copy_byte command flag shift err (v, rest) = Inr (v', rest') \<Longrightarrow> length rest' \<le> length rest"
  by (auto simp: read_copy_byte_def split: if_splits list.splits)

lemma read_copy_operands_length:
  "read_copy_operands command rest = Inr (off, sz, rest') \<Longrightarrow> length rest' \<le> length rest"
  unfolding read_copy_operands_def
  by (auto simp: res_bind_Inr split: prod.splits dest!: read_copy_byte_length)

function apply_instructions :: "bytes \<Rightarrow> bytes \<Rightarrow> bytes \<Rightarrow> bytes pack_result" where
  "apply_instructions base_data [] out = Inr out"
| "apply_instructions base_data (command # rest) out =
     (if command AND 0x80 \<noteq> 0
      then (case read_copy_operands command rest of
              Inl e \<Rightarrow> Inl e
            | Inr (offset, sz, rest') \<Rightarrow>
                if unat offset + unat sz > length base_data then Inl CopyRangeOutOfBounds
                else apply_instructions base_data rest'
                       (out @ take (unat sz) (drop (unat offset) base_data)))
      else if command = 0 then Inl ZeroInstruction
      else if unat command > length rest then Inl InsertDataTruncated
      else apply_instructions base_data (drop (unat command) rest) (out @ take (unat command) rest))"
  by pat_completeness auto
termination
  by (relation "measure (\<lambda>(base_data, rest, out). length rest)")
    (auto dest!: sym [of "Inr _"] read_copy_operands_length)

definition apply_git_binary_delta :: "bytes \<Rightarrow> bytes \<Rightarrow> bytes pack_result" where
  "apply_git_binary_delta base_data delta_data =
     res_bind (decode_size_varint delta_data) (\<lambda>(expected_base_size, rest).
       if unat expected_base_size \<noteq> length base_data then Inl BaseSizeMismatch
       else res_bind (decode_size_varint rest) (\<lambda>(expected_target_size, rest).
         res_bind (apply_instructions base_data rest []) (\<lambda>out.
           if length out \<noteq> unat expected_target_size then Inl TargetSizeMismatch else Inr out)))"

definition PACK_DELTA_GIT_BINARY_V1 :: string where
  "PACK_DELTA_GIT_BINARY_V1 = ''git-binary-v1''"

definition apply_pack_delta :: "bytes \<Rightarrow> bytes \<Rightarrow> string \<Rightarrow> bytes pack_result" where
  "apply_pack_delta base_data delta_data algorithm =
     (if algorithm = PACK_DELTA_GIT_BINARY_V1 then apply_git_binary_delta base_data delta_data
      else Inl UnsupportedDeltaAlgorithm)"

section \<open>Size headers read back\<close>

lemma low7_mask: "(0x7f :: 'a :: len word) = mask 7"
  by (simp add: mask_numeral)

lemma flag_bit:
  fixes c :: u8
  shows "c AND 0x80 = 0 \<longleftrightarrow> \<not> bit c 7" "c AND 0x40 = 0 \<longleftrightarrow> \<not> bit c 6"
    "c AND 0x20 = 0 \<longleftrightarrow> \<not> bit c 5" "c AND 0x10 = 0 \<longleftrightarrow> \<not> bit c 4"
    "c AND 0x08 = 0 \<longleftrightarrow> \<not> bit c 3" "c AND 0x04 = 0 \<longleftrightarrow> \<not> bit c 2"
    "c AND 0x02 = 0 \<longleftrightarrow> \<not> bit c 1" "c AND 0x01 = 0 \<longleftrightarrow> \<not> bit c 0"
  using and_exp_eq_0_iff_not_bit [of c 7] and_exp_eq_0_iff_not_bit [of c 6] and_exp_eq_0_iff_not_bit [of c 5]
    and_exp_eq_0_iff_not_bit [of c 4] and_exp_eq_0_iff_not_bit [of c 3] and_exp_eq_0_iff_not_bit [of c 2]
    and_exp_eq_0_iff_not_bit [of c 1] and_exp_eq_0_iff_not_bit [of c 0]
  by simp_all

lemma bit_0x80: "bit (0x80 :: u8) n \<longleftrightarrow> n = 7"
proof -
  have "(0x80 :: u8) = push_bit 7 1" by simp
  then show ?thesis by (simp only: bit_push_bit_iff bit_1_iff) (auto simp: less_le)
qed

lemma low7_flagged:
  fixes v :: u64 and m :: u8
  assumes m: "\<And>n. bit m n \<longleftrightarrow> n = 7"
  shows "bit (ucast (v AND 0x7f) OR m) 7"
    and "ucast ((ucast (v AND 0x7f) OR m) AND 0x7f) = take_bit 7 v"
  unfolding low7_mask by (auto simp: bit_simps take_bit_eq_mask m intro!: bit_word_eqI)

lemma low7_byte:
  fixes v :: u64
  shows "(ucast (v AND 0x7f) :: u8) AND 0x80 = 0"
    and "((ucast (v AND 0x7f) :: u8) OR 0x80) AND 0x80 \<noteq> 0"
    and "ucast ((ucast (v AND 0x7f) :: u8) AND 0x7f) = take_bit 7 v"
    and "ucast (((ucast (v AND 0x7f) :: u8) OR 0x80) AND 0x7f) = take_bit 7 v"
proof -
  show "(ucast (v AND 0x7f) :: u8) AND 0x80 = 0"
    unfolding low7_mask flag_bit by (simp add: bit_simps)
  show "ucast ((ucast (v AND 0x7f) :: u8) AND 0x7f) = take_bit 7 v"
    unfolding low7_mask by (auto simp: bit_simps take_bit_eq_mask intro!: bit_word_eqI)
  note m = low7_flagged [of "0x80", OF bit_0x80, of v]
  show "ucast (((ucast (v AND 0x7f) :: u8) OR 0x80) AND 0x7f) = take_bit 7 v" by (rule m(2))
  show "((ucast (v AND 0x7f) :: u8) OR 0x80) AND 0x80 \<noteq> 0" unfolding flag_bit using m(1) by blast
qed

lemma split_low7: "(acc OR push_bit sh (take_bit 7 v)) OR push_bit (sh + 7) (drop_bit 7 v) = acc OR push_bit sh (v :: u64)"
proof (rule bit_word_eqI)
  fix n
  show "bit ((acc OR push_bit sh (take_bit 7 v)) OR push_bit (sh + 7) (drop_bit 7 v)) n = bit (acc OR push_bit sh v) n"
    by (cases "sh + 7 \<le> n") (auto simp: bit_simps)
qed

lemma decode_size_step:
  "byte AND 0x80 = 0 \<Longrightarrow> ucast (byte AND 0x7f) = x \<Longrightarrow>
    decode_size_from acc sh (byte # rest) = Inr (acc OR push_bit sh x, rest)"
  "byte AND 0x80 \<noteq> 0 \<Longrightarrow> ucast (byte AND 0x7f) = x \<Longrightarrow> sh + 7 \<le> 63 \<Longrightarrow>
    decode_size_from acc sh (byte # rest) = decode_size_from (acc OR push_bit sh x) (sh + 7) rest"
  by (simp_all add: Let_def)

lemma encode_size_step:
  "drop_bit 7 v > 0 \<Longrightarrow>
    encode_size_varint v = (ucast (v AND 0x7f) OR 0x80) # encode_size_varint (drop_bit 7 v)"
  "\<not> drop_bit 7 v > 0 \<Longrightarrow> encode_size_varint v = [ucast (v AND 0x7f)]"
  by (simp_all only: encode_size_varint.simps [of v] Let_def if_True if_False)

lemma decode_encode_size_from:
  "sh \<le> 63 \<Longrightarrow> unat v < 2 ^ (64 - sh) \<Longrightarrow>
    decode_size_from acc sh (encode_size_varint v @ rest) = Inr (acc OR push_bit sh v, rest)"
proof (induction v arbitrary: acc sh rule: encode_size_varint.induct)
  case (1 v)
  have dr: "unat (drop_bit 7 v) = unat v div 128" by (simp add: drop_bit_eq_div unat_div)
  show ?case
  proof (cases "drop_bit 7 v > 0")
    case True
    then have big: "128 \<le> unat v" using dr by (auto simp: word_less_nat_alt)
    have sh: "sh + 7 \<le> 63"
    proof (rule ccontr)
      assume "\<not> sh + 7 \<le> 63"
      then have "2 ^ (64 - sh) \<le> (2 :: nat) ^ 7" using "1.prems"(1) by (intro power_increasing) auto
      with big "1.prems"(2) show False by simp
    qed
    have "unat (drop_bit 7 v) < 2 ^ (64 - (sh + 7))"
    proof -
      have "(2 :: nat) ^ (64 - sh) = 2 ^ 7 * 2 ^ (64 - (sh + 7))"
        unfolding power_add [symmetric] using sh by (intro arg_cong [of _ _ "power 2"]) arith
      with "1.prems"(2) show ?thesis unfolding dr by (intro less_mult_imp_div_less) (simp add: mult.commute)
    qed
    then have ih: "decode_size_from acc (sh + 7) (encode_size_varint (drop_bit 7 v) @ rest)
        = Inr (acc OR push_bit (sh + 7) (drop_bit 7 v), rest)" for acc
      by (rule "1.IH" [OF refl refl True sh])
    show ?thesis
      unfolding encode_size_step(1) [OF True] append_Cons decode_size_step(2) [OF low7_byte(2,4) sh] ih split_low7 ..
  next
    case False
    then have "drop_bit 7 v = 0" using word_neq_0_conv by blast
    then have "take_bit 7 v = v" using bits_ident [of 7 v] by simp
    then show ?thesis
      unfolding encode_size_step(2) [OF False] append_Cons append_Nil decode_size_step(1) [OF low7_byte(1,3)] by simp
  qed
qed

lemma decode_encode_size_varint [simp]:
  "decode_size_varint (encode_size_varint v @ rest) = Inr (v, rest)"
  using decode_encode_size_from [of 0 v 0 rest] unsigned_less [of v]
  by (simp add: decode_size_varint_def)

section \<open>Instructions read back\<close>

text \<open>
  A copy instruction sets one flag for each nonzero byte and stores exactly these bytes, so
  reading a byte under its flag and taking zero otherwise restores it.
\<close>

definition byte_at :: "nat \<Rightarrow> u64 \<Rightarrow> u8" where
  "byte_at sh v = ucast (drop_bit sh v AND 0xFF)"

definition mark :: "nat \<Rightarrow> u8 \<Rightarrow> u8 \<Rightarrow> u8" where
  "mark i b command = (if b \<noteq> 0 then command OR push_bit i 1 else command)"

definition stored :: "u8 \<Rightarrow> bytes" where
  "stored b = (if b \<noteq> 0 then [b] else [])"

lemma encode_copy_byte_eq:
  "encode_copy_byte v (i, sh) (c, pl) = (mark i (byte_at sh v) c, pl @ stored (byte_at sh v))"
  by (simp add: encode_copy_byte_def byte_at_def mark_def stored_def Let_def)

lemma bit_mark: "j < 8 \<Longrightarrow> bit (mark i b c) j \<longleftrightarrow> bit c j \<or> b \<noteq> 0 \<and> i = j"
  by (auto simp: mark_def bit_simps)

lemma read_copy_byte_eq:
  assumes "command AND flag \<noteq> 0 \<longleftrightarrow> b \<noteq> 0"
  shows "read_copy_byte command flag sh err (v, stored b @ rest) = Inr (v OR push_bit sh (ucast b), rest)"
  using assms by (cases "b = 0") (simp_all add: read_copy_byte_def stored_def)

lemma bit_byte_at: "bit (ucast (byte_at sh v) :: u64) n \<longleftrightarrow> n < 8 \<and> bit v (sh + n)"
proof -
  have "(0xFF :: u64) = mask 8" by (simp add: mask_numeral)
  show ?thesis unfolding byte_at_def \<open>0xFF = mask 8\<close> by (auto simp: bit_simps)
qed

lemma bit_below: "unat v < 2 ^ k \<Longrightarrow> bit v n \<Longrightarrow> n < k"
proof -
  assume "unat v < 2 ^ k" "bit v n"
  then have "take_bit k (unat v) = unat v" "bit (unat v) n"
    by (simp_all add: take_bit_nat_eq_self_iff bit_unsigned_iff)
  then show "n < k" by (metis bit_take_bit_iff)
qed

lemma join_four_bytes:
  assumes "unat v < 2 ^ 32"
  shows "(((0 OR push_bit 0 (ucast (byte_at 0 v))) OR push_bit 8 (ucast (byte_at 8 v))) OR
     push_bit 16 (ucast (byte_at 16 v))) OR push_bit 24 (ucast (byte_at 24 v)) = v"
proof (rule bit_word_eqI)
  fix n assume "n < LENGTH(64)"
  note high = bit_below [OF assms, of n]
  have "bit v n \<Longrightarrow> n < 8 \<or> 8 \<le> n \<and> n < 16 \<or> 16 \<le> n \<and> n < 24 \<or> 24 \<le> n \<and> n < 32"
    using high by linarith
  then show "bit ((((0 OR push_bit 0 (ucast (byte_at 0 v))) OR push_bit 8 (ucast (byte_at 8 v))) OR
     push_bit 16 (ucast (byte_at 16 v))) OR push_bit 24 (ucast (byte_at 24 v)) :: u64) n = bit v n"
    using \<open>n < LENGTH(64)\<close> by (auto simp: bit_or_iff bit_push_bit_iff bit_byte_at)
qed

lemma join_three_bytes:
  assumes "unat v < 2 ^ 24"
  shows "((0 OR push_bit 0 (ucast (byte_at 0 v))) OR push_bit 8 (ucast (byte_at 8 v))) OR
     push_bit 16 (ucast (byte_at 16 v)) = v"
proof -
  have "byte_at 24 v = 0"
  proof -
    have "drop_bit 24 v = 0"
      using bit_below [OF assms] by (intro bit_word_eqI) (auto simp: bit_drop_bit_eq)
    then show ?thesis by (simp add: byte_at_def)
  qed
  with join_four_bytes [of v] assms show ?thesis by simp
qed

definition copy_command :: "u64 \<Rightarrow> u64 \<Rightarrow> u8" where
  "copy_command off sz = mark 6 (byte_at 16 sz) (mark 5 (byte_at 8 sz) (mark 4 (byte_at 0 sz)
     (mark 3 (byte_at 24 off) (mark 2 (byte_at 16 off) (mark 1 (byte_at 8 off) (mark 0 (byte_at 0 off) 0x80))))))"

lemma encode_copy_eq:
  "encode_copy_instruction off sz = copy_command off sz #
     stored (byte_at 0 off) @ stored (byte_at 8 off) @ stored (byte_at 16 off) @ stored (byte_at 24 off) @
     stored (byte_at 0 sz) @ stored (byte_at 8 sz) @ stored (byte_at 16 sz)"
  by (simp add: encode_copy_instruction_def encode_copy_byte_eq copy_command_def)

lemma copy_command_flags:
  "copy_command off sz AND 0x80 \<noteq> 0"
  "copy_command off sz AND 0x01 \<noteq> 0 \<longleftrightarrow> byte_at 0 off \<noteq> 0"
  "copy_command off sz AND 0x02 \<noteq> 0 \<longleftrightarrow> byte_at 8 off \<noteq> 0"
  "copy_command off sz AND 0x04 \<noteq> 0 \<longleftrightarrow> byte_at 16 off \<noteq> 0"
  "copy_command off sz AND 0x08 \<noteq> 0 \<longleftrightarrow> byte_at 24 off \<noteq> 0"
  "copy_command off sz AND 0x10 \<noteq> 0 \<longleftrightarrow> byte_at 0 sz \<noteq> 0"
  "copy_command off sz AND 0x20 \<noteq> 0 \<longleftrightarrow> byte_at 8 sz \<noteq> 0"
  "copy_command off sz AND 0x40 \<noteq> 0 \<longleftrightarrow> byte_at 16 sz \<noteq> 0"
  unfolding flag_bit copy_command_def by (simp_all add: bit_mark bit_0x80)

lemma read_copy_operands_encode:
  assumes "unat off < 2 ^ 32" and "unat sz < 2 ^ 24" and "sz \<noteq> 0"
  shows "read_copy_operands (copy_command off sz) (tl (encode_copy_instruction off sz) @ rest) = Inr (off, sz, rest)"
  unfolding read_copy_operands_def encode_copy_eq list.sel append_assoc
  by (simp only: read_copy_byte_eq copy_command_flags res_bind_simps prod.case join_four_bytes [OF assms(1)]
      join_three_bytes [OF assms(2)] assms(3) if_False)

lemma apply_copy_instruction:
  assumes "unat off + unat sz \<le> length base" and "length base < 2 ^ 32" and "unat sz < 2 ^ 24" and "sz \<noteq> 0"
  shows "apply_instructions base (encode_copy_instruction off sz @ rest) out =
    apply_instructions base rest (out @ take (unat sz) (drop (unat off) base))"
proof -
  have "unat off < 2 ^ 32" using assms(1,2) by linarith
  note rd = read_copy_operands_encode [OF this assms(3,4), of rest]
  have "encode_copy_instruction off sz @ rest = copy_command off sz # (tl (encode_copy_instruction off sz) @ rest)"
    by (simp add: encode_copy_eq)
  then show ?thesis
    using assms(1) by (simp only: apply_instructions.simps copy_command_flags(1) rd sum.case prod.case) simp
qed

lemma apply_copy_instructions:
  assumes "unat off + unat n \<le> length base" and "length base < 2 ^ 32"
  shows "apply_instructions base (append_copy_instructions off n @ rest) out =
    apply_instructions base rest (out @ take (unat n) (drop (unat off) base))"
  using assms
proof (induction off n arbitrary: out rule: append_copy_instructions.induct)
  case (1 off n)
  show ?case
  proof (cases "n > 0")
    case True
    define c where "c = min n 0xFFFF"
    have c: "unat c = min (unat n) 65535" "c \<le> n" "c \<noteq> 0"
      using True by (auto simp: c_def min_def word_le_nat_alt word_less_nat_alt)
    have sub: "unat (n - c) = unat n - unat c" using c(2) by (simp add: unat_sub word_le_nat_alt)
    have add: "unat (off + c) = unat off + unat c"
      using "1.prems" c(1) by (subst unat_add_lem [THEN iffD1]) auto
    have "unat (off + c) + unat (n - c) \<le> length base" using "1.prems"(1) c(1) by (simp add: add sub)
    note ih = "1.IH" [OF True c_def this "1.prems"(2)]
    have "unat off + unat c \<le> length base" "unat c < 2 ^ 24" using "1.prems"(1) c(1) by auto
    note st = apply_copy_instruction [OF this(1) "1.prems"(2) this(2) c(3)]
    have "take (unat n) (drop (unat off) base) =
        take (unat c) (drop (unat off) base) @ take (unat n - unat c) (drop (unat off + unat c) base)"
      using take_add [of "unat c" "unat n - unat c" "drop (unat off) base"] c(1) by (simp add: add.commute)
    then show ?thesis
      unfolding append_copy_instructions.simps [of off n] Let_def c_def [symmetric]
      using True by (simp add: st ih add sub)
  next
    case False
    then have "n = 0" using word_neq_0_conv by blast
    then show ?thesis by (simp add: append_copy_instructions.simps)
  qed
qed

lemma apply_insert_instructions:
  "apply_instructions base (append_insert_instructions data @ rest) out = apply_instructions base rest (out @ data)"
proof (induction data arbitrary: out rule: append_insert_instructions.induct)
  case (1 data)
  show ?case
  proof (cases "data = []")
    case False
    define ch where "ch = take 0x7f data"
    define c where "c = (of_nat (length ch) :: u8)"
    have k: "0 < length ch" "length ch < 2 ^ 7" using False by (simp_all add: ch_def)
    have u: "unat c = length ch" using k by (simp add: c_def unat_of_nat take_bit_eq_mod)
    have "\<not> bit c 7" using bit_below [of c 7 7] k(2) u by auto
    then have f: "c AND 0x80 = 0" "c \<noteq> 0" using u k(1) by (auto simp: flag_bit)
    have "apply_instructions base (c # ch @ append_insert_instructions (drop 0x7f data) @ rest) out =
        apply_instructions base rest ((out @ ch) @ drop 0x7f data)"
      using f u "1.IH" [OF False refl] by simp
    then show ?thesis
      unfolding append_insert_instructions.simps [of data] Let_def ch_def [symmetric] c_def [symmetric]
      using False by (simp add: ch_def)
  qed (simp add: append_insert_instructions.simps)
qed

end
