(* ===== verification/Delta_Encoder.thy ===== *)
theory Delta_Encoder
  imports Pack_Delta
begin

unbundle bit_operations_syntax

text \<open>
  The delta writer (\<open>pack_substrate/delta_encoder.rs\<close>): anchors of the base at multiples of
  the seed length are indexed by a polynomial hash, a rolling hash of the target proposes matches,
  each match is verified byte by byte and extended in both directions, and the number of byte
  comparisons is bounded by a budget.  Each \<open>while\<close> loop is one recursive function, and
  leaving all of them at once (\<open>break 'search\<close>) is the result \<^term>\<open>None\<close>.
\<close>

section \<open>The writer\<close>

definition MAX_DELTA_BLOB_BYTES :: nat where "MAX_DELTA_BLOB_BYTES = 131072"

definition CANDIDATES_PER_HASH :: nat where "CANDIDATES_PER_HASH = 8"

definition COMPARISON_BUDGET :: nat where "COMPARISON_BUDGET = 2 * 1024 * 1024"

record Work =
  comparisons :: nat
  candidates :: nat
  anchors :: nat
  exhausted :: bool

definition default_work :: Work where
  "default_work = \<lparr>comparisons = 0, candidates = 0, anchors = 0, exhausted = False\<rparr>"

definition seed_hash :: "bytes \<Rightarrow> u64" where
  "seed_hash bs = foldl (\<lambda>h b. h * 257 + (ucast b + 1)) 0 bs"

type_synonym anchor_index = "u64 \<rightharpoonup> nat list"

fun index_anchors :: "bytes \<Rightarrow> nat \<Rightarrow> nat list \<Rightarrow> anchor_index \<Rightarrow> nat \<Rightarrow> anchor_index \<times> nat" where
  "index_anchors base seed [] index n = (index, n)"
| "index_anchors base seed (offset # offs) index n =
     (let h = seed_hash (take seed (drop offset base));
          offsets = (case index h of None \<Rightarrow> [] | Some xs \<Rightarrow> xs)
      in if length offsets < CANDIDATES_PER_HASH
         then index_anchors base seed offs (index(h \<mapsto> offsets @ [offset])) (n + 1)
         else index_anchors base seed offs (index(h \<mapsto> offsets)) n)"

definition step_by :: "nat \<Rightarrow> nat \<Rightarrow> nat list" where
  "step_by seed bound = map (\<lambda>k. k * seed) [0..<bound div seed + 1]"

function match_right :: "bytes \<Rightarrow> bytes \<Rightarrow> nat \<Rightarrow> nat \<Rightarrow> nat \<Rightarrow> Work \<Rightarrow> nat \<Rightarrow> Work \<times> nat option" where
  "match_right base target budget offset at work len =
     (if offset + len < length base \<and> at + len < length target then
        if comparisons work = budget then (work\<lparr>exhausted := True\<rparr>, None)
        else let work = work\<lparr>comparisons := comparisons work + 1\<rparr> in
          if base ! (offset + len) \<noteq> target ! (at + len) then (work, Some len)
          else match_right base target budget offset at work (len + 1)
      else (work, Some len))"
  by pat_completeness auto
termination
  by (relation "measure (\<lambda>(base, target, budget, offset, at, work, len). length base - (offset + len))") auto

function match_left :: "bytes \<Rightarrow> bytes \<Rightarrow> nat \<Rightarrow> nat \<Rightarrow> nat \<Rightarrow> nat \<Rightarrow> Work \<Rightarrow> nat \<Rightarrow> Work \<times> nat option" where
  "match_left base target budget literal offset at work left =
     (if offset > left \<and> at - left > literal then
        if comparisons work = budget then (work\<lparr>exhausted := True\<rparr>, None)
        else let work = work\<lparr>comparisons := comparisons work + 1\<rparr> in
          if base ! (offset - left - 1) \<noteq> target ! (at - left - 1) then (work, Some left)
          else match_left base target budget literal offset at work (left + 1)
      else (work, Some left))"
  by pat_completeness auto
termination
  by (relation "measure (\<lambda>(base, target, budget, literal, offset, at, work, left). offset - left)") auto

declare match_right.simps [simp del] match_left.simps [simp del]

type_synonym candidate = "nat \<times> nat \<times> nat"

definition better_match :: "candidate option \<Rightarrow> candidate \<Rightarrow> candidate option" where
  "better_match best cand =
     (case best of None \<Rightarrow> Some cand | Some b \<Rightarrow> if snd (snd cand) > snd (snd b) then Some cand else best)"

fun best_match ::
    "bytes \<Rightarrow> bytes \<Rightarrow> nat \<Rightarrow> nat \<Rightarrow> nat \<Rightarrow> nat \<Rightarrow> nat list \<Rightarrow> candidate option \<Rightarrow> Work \<Rightarrow>
     Work \<times> candidate option option" where
  "best_match base target budget seed literal at [] best work = (work, Some best)"
| "best_match base target budget seed literal at (offset # offsets) best work =
     (case match_right base target budget offset at (work\<lparr>candidates := candidates work + 1\<rparr>) 0 of
        (work, None) \<Rightarrow> (work, None)
      | (work, Some len) \<Rightarrow>
          if len < seed then best_match base target budget seed literal at offsets best work
          else (case match_left base target budget literal offset at work 0 of
             (work, None) \<Rightarrow> (work, None)
           | (work, Some left) \<Rightarrow>
               best_match base target budget seed literal at offsets
                 (better_match best (offset - left, at - left, len + left)) work))"

definition delta_seed :: "bytes \<Rightarrow> bytes \<Rightarrow> nat" where
  "delta_seed base target = (if max (length base) (length target) < 8192 then 8 else 16)"

definition propose ::
    "bytes \<Rightarrow> bytes \<Rightarrow> nat \<Rightarrow> anchor_index \<Rightarrow> nat \<Rightarrow> nat \<Rightarrow> u64 \<Rightarrow> Work \<Rightarrow> Work \<times> candidate option option" where
  "propose base target budget index literal at hash work =
     (case index hash of
        None \<Rightarrow> (work, Some None)
      | Some offsets \<Rightarrow> best_match base target budget (delta_seed base target) literal at offsets None work)"

subsection \<open>What a proposed match is\<close>

definition verified :: "bytes \<Rightarrow> bytes \<Rightarrow> nat \<Rightarrow> nat \<Rightarrow> nat \<Rightarrow> candidate \<Rightarrow> bool" where
  "verified base target seed literal at = (\<lambda>(off, start, len).
     literal \<le> start \<and> start \<le> at \<and> at + seed \<le> start + len \<and> start + len \<le> length target \<and>
     off + len \<le> length base \<and> (\<forall>i < len. base ! (off + i) = target ! (start + i)))"

lemma match_right_bound:
  "match_right base target budget off at work len = (work', r) \<Longrightarrow> comparisons work \<le> budget \<Longrightarrow>
    comparisons work' \<le> budget \<and> (r = None \<longrightarrow> exhausted work')"
  by (induction base target budget off at work len rule: match_right.induct)
    (subst (asm) (2) match_right.simps, auto simp: Let_def split: if_splits)

lemma match_right_equal:
  "match_right base target budget off at work len = (work', Some n) \<Longrightarrow> \<forall>i < len. base ! (off + i) = target ! (at + i) \<Longrightarrow>
    off + len \<le> length base \<Longrightarrow> at + len \<le> length target \<Longrightarrow>
    off + n \<le> length base \<and> at + n \<le> length target \<and> (\<forall>i < n. base ! (off + i) = target ! (at + i))"
proof (induction base target budget off at work len rule: match_right.induct)
  case (1 base target budget off at work len)
  show ?case
  proof (cases "off + len < length base \<and> at + len < length target \<and> comparisons work \<noteq> budget \<and> base ! (off + len) = target ! (at + len)")
    case True
    then have "match_right base target budget off at (work\<lparr>comparisons := comparisons work + 1\<rparr>) (len + 1) = (work', Some n)"
      using "1.prems"(1) by (subst (asm) match_right.simps) (simp add: Let_def)
    moreover have "\<forall>i < len + 1. base ! (off + i) = target ! (at + i)"
      using "1.prems"(2) True by (auto simp: less_Suc_eq)
    ultimately show ?thesis using "1.IH" True by auto
  next
    case False
    then show ?thesis
      using "1.prems" by (subst (asm) match_right.simps) (auto simp: Let_def split: if_splits)
  qed
qed

lemma match_left_bound:
  "match_left base target budget literal off at work left = (work', r) \<Longrightarrow> comparisons work \<le> budget \<Longrightarrow>
    comparisons work' \<le> budget \<and> (r = None \<longrightarrow> exhausted work')"
  by (induction base target budget literal off at work left rule: match_left.induct)
    (subst (asm) (2) match_left.simps, auto simp: Let_def split: if_splits)

lemma match_left_equal:
  "match_left base target budget literal off at work left = (work', Some n) \<Longrightarrow>
    left \<le> off \<Longrightarrow> literal + left \<le> at \<Longrightarrow> \<forall>i < left. base ! (off - Suc i) = target ! (at - Suc i) \<Longrightarrow>
    n \<le> off \<and> literal + n \<le> at \<and> (\<forall>i < n. base ! (off - Suc i) = target ! (at - Suc i))"
proof (induction base target budget literal off at work left rule: match_left.induct)
  case (1 base target budget literal off at work left)
  show ?case
  proof (cases "off > left \<and> at - left > literal \<and> comparisons work \<noteq> budget \<and> base ! (off - left - 1) = target ! (at - left - 1)")
    case True
    then have "match_left base target budget literal off at (work\<lparr>comparisons := comparisons work + 1\<rparr>) (left + 1) = (work', Some n)"
      using "1.prems"(1) by (subst (asm) match_left.simps) (simp add: Let_def)
    moreover have "\<forall>i < left + 1. base ! (off - Suc i) = target ! (at - Suc i)"
      using "1.prems"(4) True by (auto simp: less_Suc_eq)
    moreover have "left + 1 \<le> off" "literal + (left + 1) \<le> at" using True by linarith+
    ultimately show ?thesis using "1.IH" True by auto
  next
    case False
    then show ?thesis
      using "1.prems" by (subst (asm) match_left.simps) (auto simp: Let_def split: if_splits)
  qed
qed

lemma extended_match:
  assumes right: "off + n \<le> length base" "at + n \<le> length target" "\<forall>i < n. base ! (off + i) = target ! (at + i)"
    and left: "l \<le> off" "literal + l \<le> at" "\<forall>i < l. base ! (off - Suc i) = target ! (at - Suc i)"
    and seed: "seed \<le> n"
  shows "verified base target seed literal at (off - l, at - l, n + l)"
proof -
  have "base ! (off - l + i) = target ! (at - l + i)" if "i < n + l" for i
  proof (cases "i < l")
    case True
    then have "off - Suc (l - Suc i) = off - l + i" "at - Suc (l - Suc i) = at - l + i"
      using left(1,2) by auto
    with left(3) True show ?thesis by (metis diff_less Suc_le_eq diff_Suc_less less_imp_Suc_add zero_less_Suc)
  next
    case False
    then have eq: "off - l + i = off + (i - l)" "at - l + i = at + (i - l)" using left(1,2) by auto
    have "i - l < n" using False that by auto
    with right(3) show ?thesis unfolding eq by blast
  qed
  with assms show ?thesis by (auto simp: verified_def)
qed

definition all_verified :: "bytes \<Rightarrow> bytes \<Rightarrow> nat \<Rightarrow> nat \<Rightarrow> nat \<Rightarrow> candidate option \<Rightarrow> bool" where
  "all_verified base target seed literal at best \<longleftrightarrow> (\<forall>c. best = Some c \<longrightarrow> verified base target seed literal at c)"

lemma better_match_cases: "better_match best cand = best \<or> better_match best cand = Some cand"
  by (auto simp: better_match_def split: option.splits)

lemma best_match_Cons_cases:
  assumes "best_match base target budget seed literal at (off # offsets) best work = (work', Some best')"
  obtains (short) w1 n where "match_right base target budget off at (work\<lparr>candidates := candidates work + 1\<rparr>) 0 = (w1, Some n)"
      "best_match base target budget seed literal at offsets best w1 = (work', Some best')"
    | (long) w1 n w2 l where "match_right base target budget off at (work\<lparr>candidates := candidates work + 1\<rparr>) 0 = (w1, Some n)"
      "seed \<le> n" "match_left base target budget literal off at w1 0 = (w2, Some l)"
      "best_match base target budget seed literal at offsets (better_match best (off - l, at - l, n + l)) w2 = (work', Some best')"
  using assms by (auto split: prod.splits option.splits if_splits)

lemma best_match_verified:
  assumes "best_match base target budget seed literal at offsets best work = (work', Some best')"
    and "all_verified base target seed literal at best" and "literal \<le> at" and "at \<le> length target"
    and "\<forall>off \<in> set offsets. off \<le> length base"
  shows "all_verified base target seed literal at best'"
  using assms
proof (induction offsets arbitrary: best work)
  case (Cons off offsets)
  show ?case
  proof (rule best_match_Cons_cases [OF Cons.prems(1)])
    fix w1 n
    assume "best_match base target budget seed literal at offsets best w1 = (work', Some best')"
    then show ?thesis using Cons.prems(2-5) by (intro Cons.IH) auto
  next
    fix w1 n w2 l
    assume r: "match_right base target budget off at (work\<lparr>candidates := candidates work + 1\<rparr>) 0 = (w1, Some n)" "seed \<le> n"
      and l: "match_left base target budget literal off at w1 0 = (w2, Some l)"
      and rec: "best_match base target budget seed literal at offsets (better_match best (off - l, at - l, n + l)) w2 = (work', Some best')"
    have "verified base target seed literal at (off - l, at - l, n + l)"
      using match_right_equal [OF r(1)] match_left_equal [OF l] Cons.prems(3-5) r(2)
      by (intro extended_match) auto
    with Cons.prems(2) have "all_verified base target seed literal at (better_match best (off - l, at - l, n + l))"
      using better_match_cases [of best "(off - l, at - l, n + l)"] by (auto simp: all_verified_def)
    with rec show ?thesis using Cons.prems(3-5) by (intro Cons.IH) auto
  qed
qed simp

lemma best_match_bound:
  "best_match base target budget seed literal at offsets best work = (work', r) \<Longrightarrow> comparisons work \<le> budget \<Longrightarrow>
    comparisons work' \<le> budget \<and> (r = None \<longrightarrow> exhausted work')"
proof (induction offsets arbitrary: best work)
  case (Cons off offsets)
  obtain w1 r1 where r1: "match_right base target budget off at (work\<lparr>candidates := candidates work + 1\<rparr>) 0 = (w1, r1)"
    by fastforce
  have b1: "comparisons w1 \<le> budget" "r1 = None \<longrightarrow> exhausted w1"
    using match_right_bound [OF r1] Cons.prems(2) by auto
  obtain w2 r2 where r2: "match_left base target budget literal off at w1 0 = (w2, r2)" by fastforce
  have b2: "comparisons w2 \<le> budget" "r2 = None \<longrightarrow> exhausted w2" using match_left_bound [OF r2 b1(1)] by auto
  show ?case
    using Cons.prems(1) r1 r2 b1 b2 Cons.IH [OF _ b1(1)] Cons.IH [OF _ b2(1)]
    by (auto split: option.splits if_splits)
qed auto

subsection \<open>The search loop\<close>

definition anchored :: "bytes \<Rightarrow> anchor_index \<Rightarrow> bool" where
  "anchored base index \<longleftrightarrow> (\<forall>h offs. index h = Some offs \<longrightarrow> (\<forall>off \<in> set offs. off \<le> length base))"

text \<open>
  A position advances in every iteration, by one or past the end of a match of at least the seed
  length, whatever the index holds: the loop ends.
\<close>

lemma match_left_le:
  "match_left base target budget literal off at work left = (work', Some n) \<Longrightarrow> left \<le> at \<Longrightarrow> n \<le> at"
proof (induction base target budget literal off at work left rule: match_left.induct)
  case (1 base target budget literal off at work left)
  show ?case
  proof (cases "off > left \<and> at - left > literal \<and> comparisons work \<noteq> budget \<and> base ! (off - left - 1) = target ! (at - left - 1)")
    case True
    then have "match_left base target budget literal off at (work\<lparr>comparisons := comparisons work + 1\<rparr>) (left + 1) = (work', Some n)"
      using "1.prems"(1) by (subst (asm) match_left.simps) (simp add: Let_def)
    moreover have "left + 1 \<le> at" using True by linarith
    ultimately show ?thesis using "1.IH" True by auto
  next
    case False
    then show ?thesis
      using "1.prems" by (subst (asm) match_left.simps) (auto simp: Let_def split: if_splits)
  qed
qed

lemma best_match_start:
  assumes "best_match base target budget seed literal at offsets best work = (work', Some (Some (off, start, len)))"
    and "\<forall>c. best = Some c \<longrightarrow> at + seed \<le> fst (snd c) + snd (snd c)"
  shows "at + seed \<le> start + len"
  using assms
proof (induction offsets arbitrary: best work)
  case (Cons a offsets)
  show ?case
  proof (rule best_match_Cons_cases [OF Cons.prems(1)])
    fix w1 n
    assume "best_match base target budget seed literal at offsets best w1 = (work', Some (Some (off, start, len)))"
    then show ?thesis using Cons.prems(2) by (rule Cons.IH)
  next
    fix w1 n w2 l
    assume n: "seed \<le> n" and l: "match_left base target budget literal a at w1 0 = (w2, Some l)"
      and rec: "best_match base target budget seed literal at offsets (better_match best (a - l, at - l, n + l)) w2
        = (work', Some (Some (off, start, len)))"
    have "l \<le> at" using match_left_le [OF l] by simp
    with n Cons.prems(2) show ?thesis
      using better_match_cases [of best "(a - l, at - l, n + l)"] by (intro Cons.IH [OF rec]) auto
  qed
qed auto

lemma delta_seed_pos: "8 \<le> delta_seed base target"
  by (simp add: delta_seed_def)

lemma propose_start:
  assumes "propose base target budget index literal at hash work = (work', Some (Some (off, start, len)))"
  shows "at < start + len"
proof -
  from assms obtain offs where "best_match base target budget (delta_seed base target) literal at offs None work
      = (work', Some (Some (off, start, len)))"
    by (auto simp: propose_def split: option.splits)
  from best_match_start [OF this] show ?thesis using delta_seed_pos [of base target] by simp
qed

definition roll_hash :: "bytes \<Rightarrow> nat \<Rightarrow> u64 \<Rightarrow> nat \<Rightarrow> u64 \<Rightarrow> u64" where
  "roll_hash target seed pow257 at hash =
     (hash - (ucast (target ! at) + 1) * pow257) * 257 + (ucast (target ! (at + seed)) + 1)"

function delta_search ::
    "bytes \<Rightarrow> bytes \<Rightarrow> nat \<Rightarrow> anchor_index \<Rightarrow> u64 \<Rightarrow> nat \<Rightarrow> nat \<Rightarrow> u64 \<Rightarrow> bytes \<Rightarrow> Work \<Rightarrow> bytes \<times> nat \<times> Work" where
  "delta_search base target budget index pow257 at literal hash out work =
     (if at + delta_seed base target \<le> length target then
        (case propose base target budget index literal at hash work of
           (work, None) \<Rightarrow> (out, literal, work)
         | (work, Some (Some (offset, start, len))) \<Rightarrow>
             (let out = out @ append_insert_instructions (take (start - literal) (drop literal target))
                            @ append_copy_instructions (of_nat offset) (of_nat len);
                  next = start + len;
                  hash = (if next + delta_seed base target \<le> length target
                          then seed_hash (take (delta_seed base target) (drop next target)) else hash)
              in delta_search base target budget index pow257 next next hash out work)
         | (work, Some None) \<Rightarrow>
             (let hash = (if at + delta_seed base target < length target
                          then roll_hash target (delta_seed base target) pow257 at hash else hash)
              in delta_search base target budget index pow257 (at + 1) literal hash out work))
      else (out, literal, work))"
  by pat_completeness auto
termination
  by (relation "measure (\<lambda>(base, target, budget, index, pow257, at, literal, hash, out, work). length target - at)")
    (auto dest!: sym [of _ "propose _ _ _ _ _ _ _ _"] propose_start simp: delta_seed_def split: if_splits)

declare delta_search.simps [simp del]

definition seed_power :: "nat \<Rightarrow> u64" where
  "seed_power seed = foldl (\<lambda>p _. p * 257) 1 [0..<seed - 1]"

definition build_with_budget :: "bytes \<Rightarrow> bytes \<Rightarrow> nat \<Rightarrow> bytes \<times> Work" where
  "build_with_budget base target budget =
     (let out = encode_size_varint (of_nat (length base)) @ encode_size_varint (of_nat (length target));
          seed = delta_seed base target
      in if min (length base) (length target) < seed \<or> max (length base) (length target) > MAX_DELTA_BLOB_BYTES
         then (out @ append_insert_instructions target, default_work)
         else
           let (index, anchors_made) = index_anchors base seed (step_by seed (length base - seed)) Map.empty 0;
               work = default_work\<lparr>anchors := anchors_made\<rparr>;
               (out, literal, work) = delta_search base target budget index (seed_power seed) 0 0
                                        (seed_hash (take seed target)) out work
           in (out @ append_insert_instructions (drop literal target), work))"

definition build_git_binary_delta :: "bytes \<Rightarrow> bytes \<Rightarrow> bytes" where
  "build_git_binary_delta base target = fst (build_with_budget base target COMPARISON_BUDGET)"

section \<open>Correctness of the writer\<close>

lemma propose_verified:
  assumes "propose base target budget index literal at hash work = (work', Some (Some c))"
    and "anchored base index" and "literal \<le> at" and "at \<le> length target"
  shows "verified base target (delta_seed base target) literal at c"
  using assms best_match_verified [of base target budget "delta_seed base target" literal at _ None work work' "Some c"]
  by (auto simp: propose_def anchored_def all_verified_def split: option.splits)

lemma propose_bound:
  "propose base target budget index literal at hash work = (work', r) \<Longrightarrow> comparisons work \<le> budget \<Longrightarrow>
    comparisons work' \<le> budget \<and> (r = None \<longrightarrow> exhausted work')"
  by (auto simp: propose_def split: option.splits dest: best_match_bound)

lemma verified_window:
  assumes "verified base target seed literal at (off, start, len)"
  shows "take len (drop off base) = take len (drop start target)"
  using assms by (intro nth_equalityI) (auto simp: verified_def)

text \<open>The instructions between two literal positions write exactly the target between them.\<close>

definition writes_target :: "bytes \<Rightarrow> bytes \<Rightarrow> nat \<Rightarrow> nat \<Rightarrow> bytes \<Rightarrow> bool" where
  "writes_target base target i j instrs \<longleftrightarrow> i \<le> j \<and> j \<le> length target \<and>
     (\<forall>rest out. apply_instructions base (instrs @ rest) out =
        apply_instructions base rest (out @ take (j - i) (drop i target)))"

lemma writes_target_Nil: "i \<le> length target \<Longrightarrow> writes_target base target i i []"
  by (simp add: writes_target_def)

lemma writes_target_append:
  assumes "writes_target base target i j xs" and "writes_target base target j k ys"
  shows "writes_target base target i k (xs @ ys)"
proof -
  have ijk: "i \<le> j" "j \<le> k" using assms by (simp_all add: writes_target_def)
  then have "take (k - i) (drop i target) = take (j - i) (drop i target) @ take (k - j) (drop j target)"
    using take_add [of "j - i" "k - j" "drop i target"] by (simp add: add.commute)
  with assms show ?thesis by (auto simp: writes_target_def)
qed

lemma writes_target_insert:
  "i \<le> j \<Longrightarrow> j \<le> length target \<Longrightarrow>
    writes_target base target i j (append_insert_instructions (take (j - i) (drop i target)))"
  by (simp add: writes_target_def apply_insert_instructions)

lemma writes_target_copy:
  assumes v: "verified base target seed literal at (off, start, len)" and base: "length base < 2 ^ 32"
  shows "writes_target base target start (start + len) (append_copy_instructions (of_nat off) (of_nat len))"
proof -
  have le: "off + len \<le> length base" "start + len \<le> length target" using v by (simp_all add: verified_def)
  then have small: "off < 2 ^ 64" "len < 2 ^ 64" using base by simp_all
  then have u: "unat (of_nat off :: u64) = off" "unat (of_nat len :: u64) = len"
    by (simp_all add: unat_of_nat take_bit_eq_mod)
  show ?thesis
    unfolding writes_target_def
    using le base by (simp add: apply_copy_instructions u verified_window [OF v])
qed

text \<open>The four ways an iteration goes.\<close>

lemma delta_search_stop:
  "\<not> at + delta_seed base target \<le> length target \<Longrightarrow>
    delta_search base target budget index pow257 at literal hash out work = (out, literal, work)"
  by (subst delta_search.simps) simp

lemma delta_search_exhausted:
  "at + delta_seed base target \<le> length target \<Longrightarrow> propose base target budget index literal at hash work = (w1, None) \<Longrightarrow>
    delta_search base target budget index pow257 at literal hash out work = (out, literal, w1)"
  by (subst delta_search.simps) simp

lemma delta_search_skip:
  "at + delta_seed base target \<le> length target \<Longrightarrow> propose base target budget index literal at hash work = (w1, Some None) \<Longrightarrow>
    delta_search base target budget index pow257 at literal hash out work =
    delta_search base target budget index pow257 (at + 1) literal
      (if at + delta_seed base target < length target
       then roll_hash target (delta_seed base target) pow257 at hash else hash) out w1"
  by (subst delta_search.simps) (simp add: Let_def)

lemma delta_search_match:
  "at + delta_seed base target \<le> length target \<Longrightarrow>
   propose base target budget index literal at hash work = (w1, Some (Some (off, start, len))) \<Longrightarrow>
    delta_search base target budget index pow257 at literal hash out work =
    delta_search base target budget index pow257 (start + len) (start + len)
      (if start + len + delta_seed base target \<le> length target
       then seed_hash (take (delta_seed base target) (drop (start + len) target)) else hash)
      (out @ append_insert_instructions (take (start - literal) (drop literal target))
           @ append_copy_instructions (of_nat off) (of_nat len)) w1"
  by (subst delta_search.simps) (simp add: Let_def)

lemma delta_search_cases:
  obtains (stop) "\<not> at + delta_seed base target \<le> length target"
    | (exhausted) w1 where "at + delta_seed base target \<le> length target"
        "propose base target budget index literal at hash work = (w1, None)"
    | (skip) w1 where "at + delta_seed base target \<le> length target"
        "propose base target budget index literal at hash work = (w1, Some None)"
    | (match) w1 off start len where "at + delta_seed base target \<le> length target"
        "propose base target budget index literal at hash work = (w1, Some (Some (off, start, len)))"
  by (metis option.exhaust prod.exhaust)

lemma delta_search_writes:
  assumes "delta_search base target budget index pow257 at literal hash out work = (out', literal', work')"
    and "anchored base index" and "literal \<le> at" and "at \<le> length target" and "length base < 2 ^ 32"
  shows "\<exists>instrs. out' = out @ instrs \<and> writes_target base target literal literal' instrs"
  using assms
proof (induction "length target - at" arbitrary: at literal hash out work rule: less_induct)
  case less
  note P = less.prems
  show ?case
  proof (cases rule: delta_search_cases [where at = at and base = base and target = target and budget = budget and
      index = index and literal = literal and hash = hash and work = work])
    case stop
    then show ?thesis using P writes_target_Nil by (fastforce simp: delta_search_stop)
  next
    case exhausted
    then show ?thesis using P writes_target_Nil by (fastforce simp: delta_search_exhausted)
  next
    case skip
    have "at < length target" using skip(1) delta_seed_pos [of base target] by linarith
    with P show ?thesis by (intro less.hyps [OF _ P(1) [unfolded delta_search_skip [OF skip]]]) auto
  next
    case (match w1 off start len)
    have v: "verified base target (delta_seed base target) literal at (off, start, len)"
      by (rule propose_verified [OF match(2) P(2-4)])
    then have le: "literal \<le> start" "start + len \<le> length target" by (simp_all add: verified_def)
    define ins where "ins = append_insert_instructions (take (start - literal) (drop literal target)) @
        append_copy_instructions (of_nat off) (of_nat len)"
    have w: "writes_target base target literal (start + len) ins"
      unfolding ins_def using le
      by (intro writes_target_append [OF writes_target_insert writes_target_copy [OF v P(5)]]) auto
    have "at < start + len" by (rule propose_start [OF match(2)])
    then have "\<exists>instrs. out' = (out @ ins) @ instrs \<and> writes_target base target (start + len) literal' instrs"
      using le(2) by (intro less.hyps [OF _ P(1) [unfolded delta_search_match [OF match], folded ins_def] P(2) _ _ P(5)]) auto
    with w show ?thesis by (metis append_assoc writes_target_append)
  qed
qed

lemma delta_search_bound:
  assumes "delta_search base target budget index pow257 at literal hash out work = (out', literal', work')"
    and "comparisons work \<le> budget"
  shows "comparisons work' \<le> budget"
  using assms
proof (induction "length target - at" arbitrary: at literal hash out work rule: less_induct)
  case less
  note P = less.prems
  show ?case
  proof (cases rule: delta_search_cases [where at = at and base = base and target = target and budget = budget and
      index = index and literal = literal and hash = hash and work = work])
    case stop
    then show ?thesis using P by (simp add: delta_search_stop)
  next
    case exhausted
    then show ?thesis using P propose_bound [OF exhausted(2)] by (simp add: delta_search_exhausted)
  next
    case skip
    have "at < length target" using skip(1) delta_seed_pos [of base target] by linarith
    with propose_bound [OF skip(2) P(2)] show ?thesis
      by (intro less.hyps [OF _ P(1) [unfolded delta_search_skip [OF skip]]]) auto
  next
    case match
    have "at < length target" using match(1) delta_seed_pos [of base target] by linarith
    with propose_bound [OF match(2) P(2)] propose_start [OF match(2)] show ?thesis
      by (intro less.hyps [OF _ P(1) [unfolded delta_search_match [OF match]]]) auto
  qed
qed

lemma index_anchors_anchored:
  "anchored base index \<Longrightarrow> \<forall>off \<in> set offs. off \<le> length base \<Longrightarrow>
    anchored base (fst (index_anchors base seed offs index n))"
proof (induction offs arbitrary: index n)
  case (Cons off offs)
  define h where "h = seed_hash (take seed (drop off base))"
  define xs where "xs = (case index h of None \<Rightarrow> [] | Some xs \<Rightarrow> xs)"
  have "\<forall>a \<in> set xs. a \<le> length base"
    using Cons.prems(1) by (cases "index h") (auto simp: anchored_def xs_def)
  then have "anchored base (index(h \<mapsto> xs @ [off]))" "anchored base (index(h \<mapsto> xs))"
    using Cons.prems by (auto simp: anchored_def)
  then show ?case
    using Cons.prems(2) unfolding index_anchors.simps Let_def h_def [symmetric] xs_def [symmetric]
    by (auto simp del: fun_upd_apply intro!: Cons.IH)
qed simp

lemma step_by_le: "off \<in> set (step_by seed bound) \<Longrightarrow> off \<le> bound"
proof -
  assume "off \<in> set (step_by seed bound)"
  then have "off \<le> bound div seed * seed" by (fastforce simp: step_by_def less_Suc_eq_le)
  then show ?thesis using div_times_less_eq_dividend order_trans by blast
qed

lemma apply_built_delta:
  assumes "writes_target base target 0 (length target) instrs" and "length base < 2 ^ 64" and "length target < 2 ^ 64"
  shows "apply_git_binary_delta base
    ((encode_size_varint (of_nat (length base)) @ encode_size_varint (of_nat (length target))) @ instrs) = Inr target"
proof -
  have u: "unat (of_nat (length base) :: u64) = length base" "unat (of_nat (length target) :: u64) = length target"
    using assms(2,3) by (simp_all add: unat_of_nat take_bit_eq_mod)
  have "apply_instructions base instrs [] = Inr target"
    using assms(1) [unfolded writes_target_def] by (metis append_Nil append_Nil2 apply_instructions.simps(1) drop0 minus_nat.diff_0 take_all_iff order_refl)
  then show ?thesis by (simp add: apply_git_binary_delta_def u)
qed

lemma build_with_budget_correct:
  assumes "length base < 2 ^ 64" and "length target < 2 ^ 64"
  shows "apply_git_binary_delta base (fst (build_with_budget base target budget)) = Inr target"
    and "comparisons (snd (build_with_budget base target budget)) \<le> budget"
proof -
  let ?hd = "encode_size_varint (of_nat (length base)) @ encode_size_varint (of_nat (length target))"
  let ?seed = "delta_seed base target"
  let ?b = "build_with_budget base target budget"
  have "apply_git_binary_delta base (fst ?b) = Inr target \<and> comparisons (snd ?b) \<le> budget"
  proof (cases "min (length base) (length target) < ?seed \<or> max (length base) (length target) > MAX_DELTA_BLOB_BYTES")
    case True
    then have "?b = (?hd @ append_insert_instructions target, default_work)"
      by (simp add: build_with_budget_def Let_def)
    moreover have "writes_target base target 0 (length target) (append_insert_instructions target)"
      by (simp add: writes_target_def apply_insert_instructions)
    ultimately show ?thesis using apply_built_delta [OF _ assms] by (simp add: default_work_def)
  next
    case False
    obtain index k where i: "index_anchors base ?seed (step_by ?seed (length base - ?seed)) Map.empty 0 = (index, k)"
      by fastforce
    obtain out literal work where d: "delta_search base target budget index (seed_power ?seed) 0 0
        (seed_hash (take ?seed target)) ?hd (default_work\<lparr>anchors := k\<rparr>) = (out, literal, work)"
      by (metis prod.exhaust)
    have b: "?b = (out @ append_insert_instructions (drop literal target), work)"
      using False i d by (simp add: build_with_budget_def Let_def)
    have "anchored base (fst (index_anchors base ?seed (step_by ?seed (length base - ?seed)) Map.empty 0))"
      by (rule index_anchors_anchored) (auto simp: anchored_def dest: step_by_le)
    then have anch: "anchored base index" by (simp add: i)
    have small: "length base < 2 ^ 32" using False by (auto simp: MAX_DELTA_BLOB_BYTES_def max_def split: if_splits)
    from delta_search_writes [OF d anch _ _ small]
    obtain instrs where ins: "out = ?hd @ instrs" "writes_target base target 0 literal instrs" by auto
    then have "literal \<le> length target" by (simp add: writes_target_def)
    then have "writes_target base target literal (length target) (append_insert_instructions (drop literal target))"
      using writes_target_insert [of literal "length target" target base] by simp
    with ins(2) have "writes_target base target 0 (length target) (instrs @ append_insert_instructions (drop literal target))"
      by (rule writes_target_append)
    then have "apply_git_binary_delta base (fst ?b) = Inr target"
      using apply_built_delta [OF _ assms] by (simp add: b ins(1))
    moreover have "comparisons work \<le> budget"
      by (rule delta_search_bound [OF d]) (simp add: default_work_def)
    ultimately show ?thesis by (simp add: b)
  qed
  then show "apply_git_binary_delta base (fst ?b) = Inr target" "comparisons (snd ?b) \<le> budget" by auto
qed

section \<open>The rolling hash\<close>

lemma seed_hash_snoc: "seed_hash (bs @ [b]) = seed_hash bs * 257 + (ucast b + 1)"
  by (simp add: seed_hash_def)

lemma foldl_hash:
  "foldl (\<lambda>h b. h * 257 + (ucast b + 1)) (h0 :: u64) bs = h0 * 257 ^ length bs + seed_hash bs"
proof (induction bs arbitrary: h0 rule: rev_induct)
  case (snoc b bs)
  then show ?case unfolding seed_hash_snoc by (simp add: distrib_right mult.assoc mult.commute)
qed (simp add: seed_hash_def)

lemma seed_hash_Cons: "seed_hash (b # bs) = (ucast b + 1) * 257 ^ length bs + seed_hash bs"
  using foldl_hash [of "ucast b + 1" bs] by (simp add: seed_hash_def)

lemma seed_power_eq: "seed_power seed = 257 ^ (seed - 1)"
proof -
  have "foldl (\<lambda>p _. p * 257) a xs = (a :: u64) * 257 ^ length xs" for a and xs :: "nat list"
    by (induction xs arbitrary: a) (simp_all add: algebra_simps)
  then show ?thesis by (simp add: seed_power_def)
qed

lemma roll_hash_window:
  assumes "0 < seed" and "at + seed < length target"
  shows "roll_hash target seed (seed_power seed) at (seed_hash (take seed (drop at target)))
    = seed_hash (take seed (drop (at + 1) target))"
proof -
  define mid where "mid = take (seed - 1) (drop (at + 1) target)"
  have len: "length mid = seed - 1" using assms by (simp add: mid_def)
  have "drop at target = target ! at # drop (at + 1) target" using assms Cons_nth_drop_Suc [of at target] by simp
  then have w1: "take seed (drop at target) = target ! at # mid" using assms(1) by (simp add: mid_def take_Cons')
  have "take (Suc (seed - 1)) (drop (at + 1) target) = mid @ [drop (at + 1) target ! (seed - 1)]"
    unfolding mid_def using assms by (intro take_Suc_conv_app_nth) simp
  then have w2: "take seed (drop (at + 1) target) = mid @ [target ! (at + seed)]" using assms by simp
  show ?thesis unfolding roll_hash_def w1 w2 seed_hash_Cons seed_hash_snoc seed_power_eq len by simp
qed

text \<open>A reference search that hashes every window from scratch.\<close>

function window_search ::
    "bytes \<Rightarrow> bytes \<Rightarrow> nat \<Rightarrow> anchor_index \<Rightarrow> nat \<Rightarrow> nat \<Rightarrow> bytes \<Rightarrow> Work \<Rightarrow> bytes \<times> nat \<times> Work" where
  "window_search base target budget index at literal out work =
     (if at + delta_seed base target \<le> length target then
        (case propose base target budget index literal at (seed_hash (take (delta_seed base target) (drop at target))) work of
           (work, None) \<Rightarrow> (out, literal, work)
         | (work, Some (Some (offset, start, len))) \<Rightarrow>
             window_search base target budget index (start + len) (start + len)
               (out @ append_insert_instructions (take (start - literal) (drop literal target))
                    @ append_copy_instructions (of_nat offset) (of_nat len)) work
         | (work, Some None) \<Rightarrow> window_search base target budget index (at + 1) literal out work)
      else (out, literal, work))"
  by pat_completeness auto
termination
  by (relation "measure (\<lambda>(base, target, budget, index, at, literal, out, work). length target - at)")
    (auto dest!: sym [of _ "propose _ _ _ _ _ _ _ _"] propose_start simp: delta_seed_def split: if_splits)

declare window_search.simps [simp del]

lemma delta_search_window:
  "(at + delta_seed base target \<le> length target \<longrightarrow> hash = seed_hash (take (delta_seed base target) (drop at target))) \<Longrightarrow>
    delta_search base target budget index (seed_power (delta_seed base target)) at literal hash out work =
    window_search base target budget index at literal out work"
proof (induction "length target - at" arbitrary: at literal hash out work rule: less_induct)
  case less
  show ?case
  proof (cases rule: delta_search_cases [where at = at and base = base and target = target and budget = budget and
      index = index and literal = literal and hash = hash and work = work])
    case stop
    then show ?thesis by (simp add: delta_search_stop window_search.simps)
  next
    case exhausted
    then show ?thesis using less.prems by (simp add: delta_search_exhausted window_search.simps [of _ _ _ _ at])
  next
    case (skip w1)
    have lt: "at < length target" using skip(1) delta_seed_pos [of base target] by linarith
    have "delta_search base target budget index (seed_power (delta_seed base target)) (at + 1) literal
        (if at + delta_seed base target < length target
         then roll_hash target (delta_seed base target) (seed_power (delta_seed base target)) at hash else hash) out w1 =
        window_search base target budget index (at + 1) literal out w1"
      using lt less.prems skip(1) delta_seed_pos [of base target] roll_hash_window [of "delta_seed base target" at target]
      by (intro less.hyps) auto
    moreover have "window_search base target budget index at literal out work = window_search base target budget index (at + 1) literal out w1"
      using skip less.prems by (subst window_search.simps) simp
    ultimately show ?thesis unfolding delta_search_skip [OF skip] by simp
  next
    case (match w1 off start len)
    have lt: "at < length target" using match(1) delta_seed_pos [of base target] by linarith
    note adv = propose_start [OF match(2)]
    show ?thesis
      unfolding delta_search_match [OF match] using lt adv match less.prems
      by (subst window_search.simps [of _ _ _ _ at]) (auto intro!: less.hyps)
  qed
qed

end
