(* ===== verification/Pack_Members.thy ===== *)
theory Pack_Members
  imports Delta_Encoder
begin

text \<open>
  Choosing what to store for each blob of a pack (\<open>pack_substrate/object.rs\<close>,
  \<open>build_typed_pack_members\<close>): a full copy, or a delta against the latest blob of the same
  path when the chain stays short, both blobs have a size worth it and the delta saves enough.
\<close>

section \<open>Selection\<close>

record PackCandidate =
  cand_entry_name :: string
  cand_blob_id :: string
  cand_data :: bytes
  path_hint :: "string option"
  cand_chain_depth :: nat

record ObjectPackWriteMember =
  wm_entry_name :: string
  wm_blob_id :: string
  wm_data :: bytes
  wm_logical_data :: "bytes option"
  wm_entry_type :: string
  wm_base_blob_id :: "string option"
  wm_chain_depth :: nat
  wm_delta_algorithm :: "string option"

definition MIN_DELTA_BLOB_BYTES :: nat where "MIN_DELTA_BLOB_BYTES = 32"

definition MIN_DELTA_SAVINGS_BYTES :: nat where "MIN_DELTA_SAVINGS_BYTES = 16"

definition DEFAULT_MAX_DELTA_CHAIN_DEPTH :: nat where "DEFAULT_MAX_DELTA_CHAIN_DEPTH = 4"

definition MAX_DELTA_CHAIN_READ_DEPTH :: nat where
  "MAX_DELTA_CHAIN_READ_DEPTH = DEFAULT_MAX_DELTA_CHAIN_DEPTH * 16"

definition full_member :: "PackCandidate \<Rightarrow> ObjectPackWriteMember" where
  "full_member item =
     \<lparr>wm_entry_name = cand_entry_name item, wm_blob_id = cand_blob_id item, wm_data = cand_data item,
      wm_logical_data = None, wm_entry_type = ''full'', wm_base_blob_id = None, wm_chain_depth = 0,
      wm_delta_algorithm = None\<rparr>"

definition delta_sized :: "bytes \<Rightarrow> bool" where
  "delta_sized data \<longleftrightarrow> MIN_DELTA_BLOB_BYTES \<le> length data \<and> length data \<le> MAX_DELTA_BLOB_BYTES"

definition choose_member :: "nat \<Rightarrow> (string \<rightharpoonup> PackCandidate) \<Rightarrow> PackCandidate \<Rightarrow> ObjectPackWriteMember" where
  "choose_member max_delta_chain_depth latest_by_path item =
     (case Option.bind (path_hint item) latest_by_path of
        None \<Rightarrow> full_member item
      | Some base \<Rightarrow>
          if cand_blob_id base \<noteq> cand_blob_id item \<and> cand_chain_depth base < max_delta_chain_depth \<and>
             delta_sized (cand_data item) \<and> delta_sized (cand_data base)
          then let delta_data = build_git_binary_delta (cand_data base) (cand_data item) in
            if length delta_data + MIN_DELTA_SAVINGS_BYTES < length (cand_data item)
            then \<lparr>wm_entry_name = cand_entry_name item, wm_blob_id = cand_blob_id item, wm_data = delta_data,
                  wm_logical_data = Some (cand_data item), wm_entry_type = ''delta'',
                  wm_base_blob_id = Some (cand_blob_id base), wm_chain_depth = cand_chain_depth base + 1,
                  wm_delta_algorithm = Some PACK_DELTA_GIT_BINARY_V1\<rparr>
            else full_member item
          else full_member item)"

definition remember_latest :: "PackCandidate \<Rightarrow> nat \<Rightarrow> (string \<rightharpoonup> PackCandidate) \<Rightarrow> (string \<rightharpoonup> PackCandidate)" where
  "remember_latest item depth latest_by_path =
     (case path_hint item of
        None \<Rightarrow> latest_by_path
      | Some path \<Rightarrow> latest_by_path(path \<mapsto> item\<lparr>path_hint := None, cand_chain_depth := depth\<rparr>))"

fun build_members_from ::
    "nat \<Rightarrow> (string \<rightharpoonup> PackCandidate) \<Rightarrow> PackCandidate list \<Rightarrow> ObjectPackWriteMember list" where
  "build_members_from max_depth latest [] = []"
| "build_members_from max_depth latest (item # items) =
     (let member = choose_member max_depth latest item
      in member # build_members_from max_depth (remember_latest item (wm_chain_depth member) latest) items)"

definition build_typed_pack_members ::
    "PackCandidate list \<Rightarrow> nat \<Rightarrow> (string \<rightharpoonup> PackCandidate) option \<Rightarrow> ObjectPackWriteMember list" where
  "build_typed_pack_members items max_delta_chain_depth initial_by_path =
     build_members_from max_delta_chain_depth (case initial_by_path of None \<Rightarrow> Map.empty | Some m \<Rightarrow> m) items"

text \<open>
  The storage gate keeps the deltas only when the estimated archive is smaller; the estimate is an
  argument here, \<open>Pack_Archive\<close> supplies the size its writer computes.
\<close>

definition storage_gate ::
    "(ObjectPackWriteMember list \<Rightarrow> 'e + nat) \<Rightarrow> PackCandidate list \<Rightarrow> nat \<Rightarrow>
     (string \<rightharpoonup> PackCandidate) option \<Rightarrow> 'e + ObjectPackWriteMember list" where
  "storage_gate estimate items max_delta_chain_depth initial_by_path =
     (let full = map full_member items;
          proposed = build_typed_pack_members items max_delta_chain_depth initial_by_path
      in if \<not> (\<exists>m \<in> set proposed. wm_entry_type m = ''delta'') then Inr proposed
         else res_bind (estimate proposed) (\<lambda>p.
              res_bind (estimate full) (\<lambda>f.
                Inr (if p < f then proposed else full))))"

section \<open>What each member restores\<close>

definition logical_of :: "ObjectPackWriteMember \<Rightarrow> bytes" where
  "logical_of m = (case wm_logical_data m of None \<Rightarrow> wm_data m | Some d \<Rightarrow> d)"

text \<open>
  A member stands for a candidate: full, or a delta whose application to the data of a base it
  names gives the candidate's data.  The bases are the candidates known before it.
\<close>

definition member_for :: "nat \<Rightarrow> (PackCandidate \<Rightarrow> bool) \<Rightarrow> PackCandidate \<Rightarrow> ObjectPackWriteMember \<Rightarrow> bool" where
  "member_for max_depth known item m \<longleftrightarrow> m = full_member item \<or>
     (\<exists>base. known base \<and> cand_blob_id base \<noteq> cand_blob_id item \<and> wm_blob_id m = cand_blob_id item \<and>
       wm_entry_name m = cand_entry_name item \<and> wm_entry_type m = ''delta'' \<and> wm_base_blob_id m = Some (cand_blob_id base) \<and>
       wm_delta_algorithm m = Some PACK_DELTA_GIT_BINARY_V1 \<and> wm_logical_data m = Some (cand_data item) \<and>
       wm_chain_depth m = Suc (cand_chain_depth base) \<and> wm_chain_depth m \<le> max_depth \<and>
       length (wm_data m) + MIN_DELTA_SAVINGS_BYTES < length (cand_data item) \<and>
       apply_pack_delta (cand_data base) (wm_data m) PACK_DELTA_GIT_BINARY_V1 = Inr (cand_data item))"

lemma delta_sized_bound: "delta_sized data \<Longrightarrow> length data < 2 ^ 64"
  by (simp add: delta_sized_def MAX_DELTA_BLOB_BYTES_def)

lemma choose_member_for:
  assumes "\<And>path base. latest path = Some base \<Longrightarrow> known base"
  shows "member_for max_depth known item (choose_member max_depth latest item)"
proof (cases "Option.bind (path_hint item) latest")
  case None
  then show ?thesis by (simp add: choose_member_def member_for_def)
next
  case (Some base)
  then have "known base" using assms by (auto simp: bind_eq_Some_conv)
  moreover have "delta_sized (cand_data item) \<Longrightarrow> delta_sized (cand_data base) \<Longrightarrow>
      apply_pack_delta (cand_data base) (build_git_binary_delta (cand_data base) (cand_data item)) PACK_DELTA_GIT_BINARY_V1
        = Inr (cand_data item)"
    by (simp add: apply_pack_delta_def build_git_binary_delta_def build_with_budget_correct(1) [OF delta_sized_bound delta_sized_bound])
  ultimately show ?thesis
    using Some by (auto simp: choose_member_def member_for_def Let_def)
qed

text \<open>The candidates known to the selector before position \<open>i\<close>, with the chain depth it recorded.\<close>

definition known_before ::
    "(string \<rightharpoonup> PackCandidate) \<Rightarrow> PackCandidate list \<Rightarrow> ObjectPackWriteMember list \<Rightarrow> nat \<Rightarrow> PackCandidate \<Rightarrow> bool" where
  "known_before initial items ms i base \<longleftrightarrow> base \<in> ran initial \<or>
     (\<exists>j < i. base = (items ! j)\<lparr>path_hint := None, cand_chain_depth := wm_chain_depth (ms ! j)\<rparr>)"

lemma build_members_length [simp]: "length (build_members_from d latest items) = length items"
  by (induction items arbitrary: latest) (simp_all add: Let_def)

lemma build_members_for:
  "i < length items \<Longrightarrow>
    member_for d (known_before latest items (build_members_from d latest items) i) (items ! i)
      (build_members_from d latest items ! i)"
proof (induction items arbitrary: latest i)
  case (Cons item items)
  define m where "m = choose_member d latest item"
  define latest' where "latest' = remember_latest item (wm_chain_depth m) latest"
  have eq: "build_members_from d latest (item # items) = m # build_members_from d latest' items"
    by (simp add: m_def latest'_def Let_def)
  show ?case
  proof (cases i)
    case 0
    have "member_for d (\<lambda>b. b \<in> ran latest) item m"
      unfolding m_def by (rule choose_member_for) (simp add: ranI)
    with 0 eq show ?thesis by (auto simp: known_before_def)
  next
    case (Suc j)
    have sub: "known_before latest (item # items) (m # ms) (Suc j) b" if "known_before latest' items ms j b" for ms b
    proof -
      from that consider "b \<in> ran latest'" | k where "k < j" "b = (items ! k)\<lparr>path_hint := None, cand_chain_depth := wm_chain_depth (ms ! k)\<rparr>"
        by (auto simp: known_before_def)
      then show ?thesis
      proof cases
        case 1
        then have "b \<in> ran latest \<or> b = item\<lparr>path_hint := None, cand_chain_depth := wm_chain_depth m\<rparr>"
          by (auto simp: latest'_def remember_latest_def ran_def split: option.splits if_splits)
        then show ?thesis by (auto simp: known_before_def)
      next
        case 2
        then show ?thesis by (auto simp: known_before_def intro!: exI [of _ "Suc k"])
      qed
    qed
    have "member_for d (known_before latest' items (build_members_from d latest' items) j) (items ! j)
        (build_members_from d latest' items ! j)"
      using Cons by (intro Cons.IH) (simp add: Suc)
    then show ?thesis unfolding eq Suc using sub by (auto simp: member_for_def)
  qed
qed simp

end
