(* ===== verification/Chunk_Layout.thy ===== *)
theory Chunk_Layout
  imports Ait_Prelude "HOL-Library.Product_Lexorder"
begin

text \<open>
  The physical layout of an object pack (\<open>pack_substrate/chunk_layout.rs\<close>): members are
  grouped into chunks of a target size, optionally with the members of a priority class first and
  in chunks of their own.  A layout is a list of groups of member ordinals.
\<close>

section \<open>The layout\<close>

datatype layout_error = ClassificationLength | EmptyGroup | OrdinalRepeatedOrExceeds | OrdinalOmitted

record ObjectPackChunkLayout =
  chunks :: "nat list list"

definition saturating_add :: "nat \<Rightarrow> nat \<Rightarrow> nat" where
  "saturating_add a b = min (a + b) (2 ^ 64 - 1)"

text \<open>The loop state: finished chunks, the pending group, its bytes, and the class of the last member.\<close>

record layout_state =
  done_chunks :: "nat list list"
  pending :: "nat list"
  pending_bytes :: nat
  previous :: "bool option"

definition flush_pending :: "layout_state \<Rightarrow> layout_state" where
  "flush_pending st = st\<lparr>done_chunks := done_chunks st @ [pending st], pending := [], pending_bytes := 0\<rparr>"

definition layout_step :: "nat list \<Rightarrow> bool list option \<Rightarrow> nat \<Rightarrow> nat \<Rightarrow> layout_state \<Rightarrow> layout_state" where
  "layout_step sizes priorities target i st =
     (let cls = map_option (\<lambda>p. p ! i) priorities;
          st1 = (if pending st \<noteq> [] \<and> (previous st \<noteq> cls \<or> saturating_add (pending_bytes st) (sizes ! i) > target)
                 then flush_pending st else st);
          st2 = st1\<lparr>pending := pending st1 @ [i], pending_bytes := saturating_add (pending_bytes st1) (sizes ! i),
                    previous := cls\<rparr>
      in if pending_bytes st2 \<ge> target then flush_pending st2 else st2)"

definition member_order :: "nat \<Rightarrow> bool list option \<Rightarrow> nat list" where
  "member_order n priorities =
     (case priorities of
        None \<Rightarrow> [0..<n]
      | Some classes \<Rightarrow> sort_key (\<lambda>i. (\<not> classes ! i, i)) [0..<n])"

definition new_layout :: "nat list \<Rightarrow> bool list option \<Rightarrow> nat \<Rightarrow> layout_error + ObjectPackChunkLayout" where
  "new_layout sizes priorities target =
     (if (case priorities of None \<Rightarrow> False | Some p \<Rightarrow> length p \<noteq> length sizes) then Inl ClassificationLength
      else
        let st = fold (layout_step sizes priorities (max target 1)) (member_order (length sizes) priorities)
                   \<lparr>done_chunks = [], pending = [], pending_bytes = 0, previous = None\<rparr>
        in Inr \<lparr>chunks = (if pending st \<noteq> [] then done_chunks st @ [pending st] else done_chunks st)\<rparr>)"

fun validate_group :: "nat \<Rightarrow> nat list \<Rightarrow> bool list \<Rightarrow> layout_error + bool list" where
  "validate_group count [] seen = Inr seen"
| "validate_group count (i # is) seen =
     (if i \<ge> count \<or> seen ! i then Inl OrdinalRepeatedOrExceeds else validate_group count is (seen[i := True]))"

fun validate_groups :: "nat \<Rightarrow> nat list list \<Rightarrow> bool list \<Rightarrow> layout_error + bool list" where
  "validate_groups count [] seen = Inr seen"
| "validate_groups count (c # cs) seen =
     (if c = [] then Inl EmptyGroup else res_bind (validate_group count c seen) (validate_groups count cs))"

definition validate_layout :: "ObjectPackChunkLayout \<Rightarrow> nat \<Rightarrow> layout_error + unit" where
  "validate_layout l count =
     res_bind (validate_groups count (chunks l) (replicate count False)) (\<lambda>seen.
       if False \<in> set seen then Inl OrdinalOmitted else Inr ())"

section \<open>What validation accepts\<close>

lemma validate_group_ok:
  assumes "length seen = n"
  shows "validate_group n is seen = Inr seen' \<longleftrightarrow>
    distinct is \<and> (\<forall>i \<in> set is. i < n \<and> \<not> seen ! i) \<and> seen' = map (\<lambda>j. seen ! j \<or> j \<in> set is) [0..<n]"
  using assms
proof (induction "is" arbitrary: seen)
  case Nil
  have "map (\<lambda>j. seen ! j \<or> j \<in> set []) [0..<n] = seen" by (rule nth_equalityI) (simp_all add: Nil)
  then show ?case by auto
next
  case (Cons i "is")
  show ?case
  proof (cases "i < n \<and> \<not> seen ! i")
    case True
    have eq: "map (\<lambda>j. seen[i := True] ! j \<or> j \<in> set is) [0..<n] = map (\<lambda>j. seen ! j \<or> j \<in> set (i # is)) [0..<n]"
      using True Cons.prems by (auto simp: nth_list_update)
    have "(\<forall>j \<in> set is. j < n \<and> \<not> seen[i := True] ! j) \<longleftrightarrow> i \<notin> set is \<and> (\<forall>j \<in> set is. j < n \<and> \<not> seen ! j)"
      using True Cons.prems by (auto simp: nth_list_update)
    then show ?thesis using True Cons.IH [of "seen[i := True]"] Cons.prems by (auto simp: eq)
  qed auto
qed

lemma validate_groups_ok:
  assumes "length seen = n"
  shows "validate_groups n cs seen = Inr seen' \<longleftrightarrow>
    [] \<notin> set cs \<and> distinct (concat cs) \<and> (\<forall>i \<in> set (concat cs). i < n \<and> \<not> seen ! i) \<and>
    seen' = map (\<lambda>j. seen ! j \<or> j \<in> set (concat cs)) [0..<n]"
  using assms
proof (induction cs arbitrary: seen)
  case Nil
  have "map (\<lambda>j. seen ! j \<or> j \<in> set (concat [])) [0..<n] = seen" by (rule nth_equalityI) (simp_all add: Nil)
  then show ?case by auto
next
  case (Cons c cs)
  define s1 where "s1 = map (\<lambda>j. seen ! j \<or> j \<in> set c) [0..<n]"
  have s1: "length s1 = n" "\<And>j. j < n \<Longrightarrow> s1 ! j \<longleftrightarrow> seen ! j \<or> j \<in> set c" by (simp_all add: s1_def)
  have "validate_groups n (c # cs) seen = Inr seen' \<longleftrightarrow>
      c \<noteq> [] \<and> distinct c \<and> (\<forall>i \<in> set c. i < n \<and> \<not> seen ! i) \<and> validate_groups n cs s1 = Inr seen'"
    by (auto simp: res_bind_Inr validate_group_ok [OF Cons.prems] s1_def)
  moreover have "map (\<lambda>j. s1 ! j \<or> j \<in> set (concat cs)) [0..<n] = map (\<lambda>j. seen ! j \<or> j \<in> set (concat (c # cs))) [0..<n]"
    using s1 by auto
  moreover have "(\<forall>i \<in> set (concat cs). i < n \<and> \<not> s1 ! i) \<longleftrightarrow>
      (\<forall>i \<in> set (concat cs). i < n \<and> \<not> seen ! i) \<and> set c \<inter> set (concat cs) = {}"
    using s1(2) by (metis disjoint_iff)
  ultimately show ?case unfolding Cons.IH [OF s1(1)]
    by (simp only: concat.simps distinct_append set_append ball_Un list.set insert_iff de_Morgan_disj) argo
qed

lemma validate_layout_ok:
  "validate_layout l n = Inr () \<longleftrightarrow>
    [] \<notin> set (chunks l) \<and> distinct (concat (chunks l)) \<and> set (concat (chunks l)) = {0..<n}"
proof -
  have "False \<notin> set (map (\<lambda>j. replicate n False ! j \<or> j \<in> A) [0..<n]) \<longleftrightarrow> {0..<n} \<subseteq> A" for A
    by auto
  moreover have "(\<forall>i \<in> A. i < n \<and> \<not> replicate n False ! i) \<longleftrightarrow> A \<subseteq> {0..<n}" for A
    by auto
  ultimately show ?thesis
    by (simp only: validate_layout_def res_bind_Inr validate_groups_ok [of _ n] length_replicate) (auto split: if_splits)
qed

section \<open>What the planner produces\<close>

definition class_of :: "bool list option \<Rightarrow> nat \<Rightarrow> bool option" where
  "class_of priorities i = map_option (\<lambda>p. p ! i) priorities"

definition group_bytes :: "nat list \<Rightarrow> nat list \<Rightarrow> nat" where
  "group_bytes sizes is = sum_list (map ((!) sizes) is)"

text \<open>
  The loop invariant: the groups in order are the members seen so far; a group is not empty, is of
  one class, and stays within the target unless it is a single member.
\<close>

definition good_group :: "nat list \<Rightarrow> bool list option \<Rightarrow> nat \<Rightarrow> nat list \<Rightarrow> bool" where
  "good_group sizes priorities target g \<longleftrightarrow> g \<noteq> [] \<and> (\<forall>i \<in> set g. class_of priorities i = class_of priorities (last g)) \<and>
     (length g = 1 \<or> group_bytes sizes g \<le> target)"

definition layout_inv :: "nat list \<Rightarrow> bool list option \<Rightarrow> nat \<Rightarrow> nat list \<Rightarrow> layout_state \<Rightarrow> bool" where
  "layout_inv sizes priorities target seen st \<longleftrightarrow>
     concat (done_chunks st) @ pending st = seen \<and> (\<forall>g \<in> set (done_chunks st). good_group sizes priorities target g) \<and>
     pending_bytes st = group_bytes sizes (pending st) \<and> pending_bytes st < max target 1 \<and>
     (pending st \<noteq> [] \<longrightarrow> good_group sizes priorities target (pending st) \<and> previous st = class_of priorities (last (pending st)))"

lemma layout_step_inv:
  assumes inv: "layout_inv sizes priorities target seen st" and t: "1 \<le> target"
    and fit: "group_bytes sizes (seen @ [i]) < 2 ^ 64"
  shows "layout_inv sizes priorities target (seen @ [i]) (layout_step sizes priorities target i st)"
proof -
  have gb: "group_bytes sizes (xs @ [i]) = group_bytes sizes xs + sizes ! i" for xs by (simp add: group_bytes_def)
  have gb_one: "group_bytes sizes [i] = sizes ! i" "group_bytes sizes [] = 0" by (simp_all add: group_bytes_def)
  have fit': "pending_bytes st + sizes ! i < 2 ^ 64"
    using inv fit by (auto simp: layout_inv_def group_bytes_def)
  then have s1: "saturating_add (pending_bytes st) (sizes ! i) = pending_bytes st + sizes ! i"
      "saturating_add 0 (sizes ! i) = sizes ! i"
    by (simp_all add: saturating_add_def)
  let ?cls = "class_of priorities i"
  have I: "concat (done_chunks st) @ pending st = seen" "\<forall>g \<in> set (done_chunks st). good_group sizes priorities target g"
      "pending_bytes st = group_bytes sizes (pending st)"
      "pending st \<noteq> [] \<Longrightarrow> good_group sizes priorities target (pending st)"
      "pending st \<noteq> [] \<Longrightarrow> previous st = class_of priorities (last (pending st))"
    using inv by (simp_all add: layout_inv_def)
  have single: "good_group sizes priorities target [i]" by (simp add: good_group_def)
  show ?thesis
  proof (cases "pending st \<noteq> [] \<and> (previous st \<noteq> ?cls \<or> pending_bytes st + sizes ! i > target)")
    case True
    then have "layout_step sizes priorities target i st =
        (let st2 = (flush_pending st)\<lparr>pending := [i], pending_bytes := sizes ! i, previous := ?cls\<rparr>
         in if sizes ! i \<ge> target then flush_pending st2 else st2)"
      by (simp add: layout_step_def Let_def s1 flush_pending_def class_of_def)
    with I(1,2,4) True single t show ?thesis
      by (simp add: layout_inv_def flush_pending_def Let_def gb_one)
  next
    case False
    then have c: "(pending st \<noteq> [] \<and> (previous st \<noteq> ?cls \<or> pending_bytes st + sizes ! i > target)) = False" by blast
    have "layout_step sizes priorities target i st =
        (let st2 = st\<lparr>pending := pending st @ [i], pending_bytes := pending_bytes st + sizes ! i, previous := ?cls\<rparr>
         in if pending_bytes st + sizes ! i \<ge> target then flush_pending st2 else st2)"
      unfolding layout_step_def class_of_def [symmetric] Let_def s1 c if_False by (simp add: s1)
    moreover have "good_group sizes priorities target (pending st @ [i])"
    proof (cases "pending st = []")
      case True
      then show ?thesis using single by simp
    next
      case ne: False
      with False I(3-5) show ?thesis by (simp add: good_group_def gb)
    qed
    ultimately show ?thesis
      using I(1,2,3) t by (simp add: layout_inv_def flush_pending_def Let_def gb) (auto simp: group_bytes_def)
  qed
qed

lemma fold_layout_inv:
  assumes "layout_inv sizes priorities target seen st" and "1 \<le> target" and "group_bytes sizes (seen @ is) < 2 ^ 64"
  shows "layout_inv sizes priorities target (seen @ is) (fold (layout_step sizes priorities target) is st)"
  using assms
proof (induction "is" arbitrary: seen st)
  case (Cons i "is")
  have "group_bytes sizes (seen @ [i]) < 2 ^ 64" using Cons.prems(3) by (simp add: group_bytes_def)
  from Cons.IH [OF layout_step_inv [OF Cons.prems(1,2) this] Cons.prems(2)] Cons.prems(3) show ?case by simp
qed simp

lemma member_order_perm: "distinct (member_order n priorities)" "set (member_order n priorities) = {0..<n}"
  by (simp_all add: member_order_def split: option.splits)

lemma group_bytes_order: "group_bytes sizes (member_order (length sizes) priorities) = sum_list sizes"
proof -
  have "group_bytes sizes (member_order (length sizes) priorities) = (\<Sum>i = 0..<length sizes. sizes ! i)"
    unfolding group_bytes_def using member_order_perm [of "length sizes" priorities]
    by (metis sum_list_distinct_conv_sum_set)
  then show ?thesis by (simp add: sum_list_sum_nth)
qed

lemma new_layout_groups:
  assumes "new_layout sizes priorities target = Inr l" and "sum_list sizes < 2 ^ 64"
  shows "concat (chunks l) = member_order (length sizes) priorities"
    and "g \<in> set (chunks l) \<Longrightarrow> good_group sizes priorities (max target 1) g"
proof -
  define st where "st = fold (layout_step sizes priorities (max target 1)) (member_order (length sizes) priorities)
                   \<lparr>done_chunks = [], pending = [], pending_bytes = 0, previous = None\<rparr>"
  have l: "chunks l = (if pending st \<noteq> [] then done_chunks st @ [pending st] else done_chunks st)"
    using assms(1) by (auto simp: new_layout_def st_def Let_def split: if_splits)
  have "layout_inv sizes priorities (max target 1) ([] @ member_order (length sizes) priorities) st"
    unfolding st_def using assms(2)
    by (intro fold_layout_inv) (auto simp: layout_inv_def group_bytes_order, simp add: group_bytes_def)
  then show "concat (chunks l) = member_order (length sizes) priorities"
    and "g \<in> set (chunks l) \<Longrightarrow> good_group sizes priorities (max target 1) g"
    by (auto simp: l layout_inv_def split: if_splits)
qed

end
