(* ===== verification/Delta_Properties.thy ===== *)
theory Delta_Properties
  imports Pack_Members Chunk_Layout
begin

text \<open>
  The properties of the parts a pack is made from: the delta encoder against the delta decoder, the
  rolling hash of its search, the choice of members, and the layout of members into chunks.
\<close>

section \<open>Deltas\<close>

text \<open>
  C8. Deltas restore their target: applying the delta built between any two blobs to the first gives
  the second, whatever the search found within its budget.
\<close>

theorem delta_restores_target:
  assumes "length base < 2 ^ 64" and "length target < 2 ^ 64"
  shows "apply_pack_delta base (build_git_binary_delta base target) PACK_DELTA_GIT_BINARY_V1 = Inr target"
  using build_with_budget_correct(1) [OF assms] by (simp add: apply_pack_delta_def build_git_binary_delta_def)

theorem delta_restores_target_witness:
  "apply_pack_delta [1, 2, 3] (build_git_binary_delta [1, 2, 3] [4, 5]) PACK_DELTA_GIT_BINARY_V1 = Inr [4, 5]"
  by (rule delta_restores_target) simp_all

text \<open>
  The work of the encoder is bounded: it never compares more bytes than its budget allows.
\<close>

theorem delta_comparisons_bounded:
  assumes "length base < 2 ^ 64" and "length target < 2 ^ 64"
  shows "comparisons (snd (build_with_budget base target budget)) \<le> budget"
  by (rule build_with_budget_correct(2) [OF assms])

theorem delta_comparisons_bounded_witness:
  "comparisons (snd (build_with_budget (replicate 20 1) (replicate 30 1) 5)) \<le> 5"
  by (rule delta_comparisons_bounded) simp_all

text \<open>
  C21. The rolling hash is the hash of the window: the search that updates its hash by one byte in and
  one byte out does the same as the search that hashes each window afresh.
\<close>

theorem rolling_search_hashes_windows:
  "delta_search base target budget index (seed_power (delta_seed base target)) at literal
      (seed_hash (take (delta_seed base target) (drop at target))) out work =
    window_search base target budget index at literal out work"
  by (rule delta_search_window) simp

section \<open>Selection\<close>

text \<open>
  Members pay for themselves: the selector makes one member per candidate, in order; a full member
  holds the candidate's data; a delta saves more than the minimum, keeps its chain within the bound,
  and restores the candidate's data from a blob that was known before it, on a chain one shorter.
\<close>

theorem selected_members_restore:
  assumes "ms = build_typed_pack_members items max_depth initial"
  shows "length ms = length items \<and>
    (\<forall>i < length items. member_for max_depth (known_before (case initial of None \<Rightarrow> Map.empty | Some m \<Rightarrow> m) items ms i) (items ! i) (ms ! i))"
  using assms by (simp add: build_typed_pack_members_def build_members_for)

theorem selected_members_restore_witness:
  "\<exists>m. build_typed_pack_members
      [\<lparr>cand_entry_name = ''blobs/a'', cand_blob_id = ''a'', cand_data = [1], path_hint = Some ''p'', cand_chain_depth = 0\<rparr>] 4 None = [m] \<and>
     member_for 4 (known_before Map.empty
       [\<lparr>cand_entry_name = ''blobs/a'', cand_blob_id = ''a'', cand_data = [1], path_hint = Some ''p'', cand_chain_depth = 0\<rparr>] [m] 0)
       \<lparr>cand_entry_name = ''blobs/a'', cand_blob_id = ''a'', cand_data = [1], path_hint = Some ''p'', cand_chain_depth = 0\<rparr> m"
proof -
  let ?item = "\<lparr>cand_entry_name = ''blobs/a'', cand_blob_id = ''a'', cand_data = [1], path_hint = Some ''p'', cand_chain_depth = 0\<rparr>"
  obtain m where m: "build_typed_pack_members [?item] 4 None = [m]"
    by (simp add: build_typed_pack_members_def Let_def)
  from m selected_members_restore [OF m [symmetric]] show ?thesis by simp
qed

section \<open>Layouts\<close>

text \<open>
  Layout validation accepts exactly the partitions: groups that are not empty and hold every
  ordinal once.
\<close>

theorem layout_valid_iff_partition:
  "validate_layout l n = Inr () \<longleftrightarrow>
     [] \<notin> set (chunks l) \<and> distinct (concat (chunks l)) \<and> set (concat (chunks l)) = {0..<n}"
  by (rule validate_layout_ok)

lemma member_order_filter:
  "member_order n (Some p) = filter (\<lambda>i. p ! i) [0..<n] @ filter (\<lambda>i. \<not> p ! i) [0..<n]"
proof -
  let ?f = "\<lambda>i. (\<not> p ! i, i)"
  let ?ys = "filter (\<lambda>i. p ! i) [0..<n] @ filter (\<lambda>i. \<not> p ! i) [0..<n]"
  have "map ?f (filter (\<lambda>i. p ! i) [0..<n]) = map (Pair False) (filter (\<lambda>i. p ! i) [0..<n])"
    "map ?f (filter (\<lambda>i. \<not> p ! i) [0..<n]) = map (Pair True) (filter (\<lambda>i. \<not> p ! i) [0..<n])" by simp_all
  moreover have "sorted (map (Pair c) (filter Q [0..<n]))" for c :: bool and Q
    by (simp add: sorted_map sorted_wrt_filter)
  ultimately have "sorted (map ?f (filter (\<lambda>i. p ! i) [0..<n]))" "sorted (map ?f (filter (\<lambda>i. \<not> p ! i) [0..<n]))" by metis+
  then have "sorted (map ?f ?ys)" by (auto simp: sorted_append)
  moreover have "inj_on ?f (set (sort_key ?f [0..<n]) \<union> set ?ys)" by (simp add: inj_on_def)
  moreover have "distinct (map ?f (sort_key ?f [0..<n]))" "distinct (map ?f ?ys)" by (auto simp: distinct_map inj_on_def)
  ultimately show ?thesis
    unfolding member_order_def option.case by (intro map_sorted_distinct_set_unique [of ?f]) auto
qed

text \<open>
  C35. Planned layouts are valid and bounded: the planner's groups in order hold all members once,
  priority members first and in order within each class; no group mixes classes, and a group exceeds
  the target size only when it is a single member.
\<close>

theorem planned_layout_is_bounded_partition:
  assumes "new_layout sizes priorities target = Inr l" and "sum_list sizes < 2 ^ 64"
  shows "validate_layout l (length sizes) = Inr () \<and>
    concat (chunks l) = (case priorities of None \<Rightarrow> [0..<length sizes]
      | Some p \<Rightarrow> filter (\<lambda>i. p ! i) [0..<length sizes] @ filter (\<lambda>i. \<not> p ! i) [0..<length sizes]) \<and>
    (\<forall>g \<in> set (chunks l). (\<forall>i \<in> set g. \<forall>j \<in> set g. map_option (\<lambda>p. p ! i) priorities = map_option (\<lambda>p. p ! j) priorities) \<and>
       (length g = 1 \<or> (\<Sum>i \<leftarrow> g. sizes ! i) \<le> max target 1))"
proof -
  note groups = new_layout_groups [OF assms]
  have "[] \<notin> set (chunks l)" using groups(2) by (auto simp: good_group_def)
  then have valid: "validate_layout l (length sizes) = Inr ()"
    using member_order_perm [of "length sizes" priorities] by (simp add: validate_layout_ok groups(1) flip: set_concat)
  have order: "concat (chunks l) = (case priorities of None \<Rightarrow> [0..<length sizes]
      | Some p \<Rightarrow> filter (\<lambda>i. p ! i) [0..<length sizes] @ filter (\<lambda>i. \<not> p ! i) [0..<length sizes])"
    using groups(1) by (cases priorities) (simp add: member_order_def, simp add: member_order_filter)
  have "(\<forall>i \<in> set g. \<forall>j \<in> set g. map_option (\<lambda>p. p ! i) priorities = map_option (\<lambda>p. p ! j) priorities) \<and>
       (length g = 1 \<or> (\<Sum>i \<leftarrow> g. sizes ! i) \<le> max target 1)" if "g \<in> set (chunks l)" for g
    using groups(2) [OF that] unfolding good_group_def class_of_def group_bytes_def by metis
  with valid order show ?thesis by blast
qed

theorem planned_layout_is_bounded_partition_witness:
  "\<exists>l. new_layout [3, 9, 2] (Some [False, False, True]) 5 = Inr l \<and> validate_layout l 3 = Inr () \<and>
     concat (chunks l) = [2, 0, 1]"
proof -
  obtain l where l: "new_layout [3, 9, 2] (Some [False, False, True]) 5 = Inr l" by (simp add: new_layout_def Let_def)
  have "sum_list [3, 9, 2 :: nat] < 2 ^ 64" by simp
  from planned_layout_is_bounded_partition [OF l this] have "validate_layout l 3 = Inr ()" "concat (chunks l) = [2, 0, 1]"
    by (simp_all add: numeral_3_eq_3 numeral_2_eq_2)
  with l show ?thesis by blast
qed

end
