(* ===== verification/Pack_Strings.thy ===== *)
theory Pack_Strings
  imports Ait_Prelude
begin

text \<open>
  Strings as the pack codecs use them.  A Rust string is the list of its UTF-8 bytes, here a
  \<^typ>\<open>string\<close> whose characters are bytes; reading one back validates it.  Checksums travel as
  hexadecimal text in memory and as 32 bytes in files (\<open>pack_substrate/util.rs\<close>,
  \<open>pack_substrate/zstd/frame_index.rs\<close>).
\<close>

section \<open>Bytes and characters\<close>

definition string_bytes :: "string \<Rightarrow> bytes" where
  "string_bytes s = map (\<lambda>c. of_nat (of_char c)) s"

definition bytes_string :: "bytes \<Rightarrow> string" where
  "bytes_string bs = map (\<lambda>b. char_of (unat b)) bs"

lemma unat_byte: "unat (b :: u8) < 256"
proof -
  have "unat b < 2 ^ LENGTH(8)" by (rule unsigned_less)
  then show ?thesis by simp
qed

lemma string_bytes_inverse [simp]: "bytes_string (string_bytes s) = s"
  by (simp add: bytes_string_def string_bytes_def unat_of_nat take_bit_eq_mod map_idI)

lemma bytes_string_inverse [simp]: "string_bytes (bytes_string bs) = bs"
proof -
  have "(of_nat (unat b mod 256) :: u8) = b" for b :: u8
    using unat_byte [of b] by simp
  then show ?thesis by (simp add: bytes_string_def string_bytes_def map_idI)
qed

lemma length_string_bytes [simp]: "length (string_bytes s) = length s"
  by (simp add: string_bytes_def)

lemma length_bytes_string [simp]: "length (bytes_string bs) = length bs"
  by (simp add: bytes_string_def)

section \<open>UTF-8\<close>

definition utf8_cont :: "u8 \<Rightarrow> bool" where
  "utf8_cont b \<longleftrightarrow> 0x80 \<le> b \<and> b \<le> 0xBF"

text \<open>Well-formed byte sequences, by the ranges of the leading and the second byte.\<close>

fun utf8_valid :: "bytes \<Rightarrow> bool" where
  "utf8_valid [] = True"
| "utf8_valid (b # rest) =
     (if b < 0x80 then utf8_valid rest
      else if 0xC2 \<le> b \<and> b \<le> 0xDF then
        (case rest of c # rest' \<Rightarrow> utf8_cont c \<and> utf8_valid rest' | _ \<Rightarrow> False)
      else if 0xE0 \<le> b \<and> b \<le> 0xEF then
        (case rest of c # d # rest' \<Rightarrow>
           utf8_cont c \<and> (b = 0xE0 \<longrightarrow> 0xA0 \<le> c) \<and> (b = 0xED \<longrightarrow> c \<le> 0x9F) \<and> utf8_cont d \<and> utf8_valid rest'
         | _ \<Rightarrow> False)
      else if 0xF0 \<le> b \<and> b \<le> 0xF4 then
        (case rest of c # d # e # rest' \<Rightarrow>
           utf8_cont c \<and> (b = 0xF0 \<longrightarrow> 0x90 \<le> c) \<and> (b = 0xF4 \<longrightarrow> c \<le> 0x8F) \<and> utf8_cont d \<and> utf8_cont e \<and> utf8_valid rest'
         | _ \<Rightarrow> False)
      else False)"

definition utf8_string :: "string \<Rightarrow> bool" where
  "utf8_string s \<longleftrightarrow> utf8_valid (string_bytes s)"

lemma utf8_ascii: "\<forall>b \<in> set bs. b < 0x80 \<Longrightarrow> utf8_valid bs"
  by (induction bs) auto

section \<open>White space\<close>

definition utf8_whitespace :: "string list" where
  "utf8_whitespace = map (map char_of)
     ([[9], [10], [11], [12], [13], [32], [0xC2, 0x85], [0xC2, 0xA0], [0xE1, 0x9A, 0x80],
       [0xE2, 0x80, 0xA8], [0xE2, 0x80, 0xA9], [0xE2, 0x80, 0xAF], [0xE2, 0x81, 0x9F], [0xE3, 0x80, 0x80 :: nat]]
      @ map (\<lambda>k. [0xE2, 0x80, 0x80 + k]) [0..<11])"

definition strip_one :: "string list \<Rightarrow> string \<Rightarrow> string" where
  "strip_one ws s = (case find (\<lambda>w. take (length w) s = w) ws of None \<Rightarrow> s | Some w \<Rightarrow> drop (length w) s)"

definition trim :: "string \<Rightarrow> string" where
  "trim s = (let t = (strip_one utf8_whitespace ^^ length s) s
             in rev ((strip_one (map rev utf8_whitespace) ^^ length t) (rev t)))"

section \<open>Hexadecimal checksums\<close>

definition hex_digit :: "nat \<Rightarrow> char" where
  "hex_digit n = ''0123456789abcdef'' ! n"

definition hex_string :: "bytes \<Rightarrow> string" where
  "hex_string bs = concat (map (\<lambda>b. [hex_digit (unat b div 16), hex_digit (unat b mod 16)]) bs)"

definition hex_value :: "char \<Rightarrow> nat option" where
  "hex_value c =
     (let n = of_char c :: nat in
      if 48 \<le> n \<and> n \<le> 57 then Some (n - 48)
      else if 97 \<le> n \<and> n \<le> 102 then Some (n - 97 + 10)
      else if 65 \<le> n \<and> n \<le> 70 then Some (n - 65 + 10)
      else None)"

text \<open>\<open>u8::from_str_radix\<close> on two characters accepts a leading plus sign.\<close>

definition parse_hex_pair :: "char \<Rightarrow> char \<Rightarrow> u8 option" where
  "parse_hex_pair c d =
     (if c = CHR ''+'' then map_option of_nat (hex_value d)
      else Option.bind (hex_value c) (\<lambda>hi. Option.bind (hex_value d) (\<lambda>lo. Some (of_nat (16 * hi + lo)))))"

datatype checksum_error = ChecksumLength | ChecksumHex | SliceOffCharBoundary

text \<open>
  Slicing two bytes out of the text panics when the slice ends inside a character, which is when
  the byte after it is a continuation byte.
\<close>

fun parse_hex_bytes :: "string \<Rightarrow> checksum_error + bytes" where
  "parse_hex_bytes (c # d # rest) =
     (if (case rest of e # _ \<Rightarrow> 0x80 \<le> (of_char e :: nat) \<and> of_char e \<le> (0xBF :: nat) | [] \<Rightarrow> False)
      then Inl SliceOffCharBoundary
      else case parse_hex_pair c d of
             None \<Rightarrow> Inl ChecksumHex
           | Some b \<Rightarrow> res_bind (parse_hex_bytes rest) (\<lambda>bs. Inr (b # bs)))"
| "parse_hex_bytes rest = Inr []"

definition checksum_bytes_from_hex :: "string \<Rightarrow> checksum_error + bytes" where
  "checksum_bytes_from_hex s =
     (let trimmed = trim s in if length trimmed \<noteq> 64 then Inl ChecksumLength else parse_hex_bytes trimmed)"

subsection \<open>Checksums read back\<close>

lemma hex_digit_cases:
  assumes "n < 16"
  shows "hex_value (hex_digit n) = Some n" "hex_digit n \<noteq> CHR ''+''" "(of_char (hex_digit n) :: nat) < 0x80"
    "32 < (of_char (hex_digit n) :: nat)"
proof -
  have "\<forall>n \<in> set [0..<16]. hex_value (hex_digit n) = Some n \<and> hex_digit n \<noteq> CHR ''+'' \<and>
      (of_char (hex_digit n) :: nat) < 0x80 \<and> 32 < (of_char (hex_digit n) :: nat)"
    by code_simp
  then show "hex_value (hex_digit n) = Some n" "hex_digit n \<noteq> CHR ''+''" "(of_char (hex_digit n) :: nat) < 0x80"
    "32 < (of_char (hex_digit n) :: nat)"
    using assms by simp_all
qed

lemma byte_halves: "unat b div 16 < 16" "unat b mod 16 < 16" for b :: u8
  using unat_byte [of b] by auto

lemma parse_hex_pair_digits: "parse_hex_pair (hex_digit (unat b div 16)) (hex_digit (unat b mod 16)) = Some b"
proof -
  have "(of_nat (16 * (unat b div 16) + unat b mod 16) :: u8) = b" by (simp only: mult_div_mod_eq) simp
  then show ?thesis by (simp add: parse_hex_pair_def hex_digit_cases byte_halves del: of_nat_add of_nat_mult)
qed

lemma length_hex_string [simp]: "length (hex_string bs) = 2 * length bs"
  by (induction bs) (simp_all add: hex_string_def)

lemma hex_string_Cons: "hex_string (b # bs) = hex_digit (unat b div 16) # hex_digit (unat b mod 16) # hex_string bs"
  by (simp add: hex_string_def)

lemma hex_string_chars: "c \<in> set (hex_string bs) \<Longrightarrow> \<exists>n < 16. c = hex_digit n"
  by (auto simp: hex_string_def) (use byte_halves in blast)+

lemma parse_hex_string: "parse_hex_bytes (hex_string bs) = Inr bs"
proof (induction bs)
  case (Cons b bs)
  have "\<not> (case hex_string bs of e # _ \<Rightarrow> 0x80 \<le> (of_char e :: nat) \<and> of_char e \<le> (0xBF :: nat) | [] \<Rightarrow> False)"
    using hex_string_chars [of _ bs] hex_digit_cases(3) by (auto split: list.splits) (metis list.set_intros(1) not_less)
  with Cons show ?case by (simp add: hex_string_Cons parse_hex_pair_digits)
qed (simp add: hex_string_def)

lemma whitespace_ends:
  "\<forall>w \<in> set utf8_whitespace. w \<noteq> [] \<and> ((of_char (hd w) :: nat) \<le> 32 \<or> 0x80 \<le> (of_char (hd w) :: nat)) \<and>
     ((of_char (last w) :: nat) \<le> 32 \<or> 0x80 \<le> (of_char (last w) :: nat))"
  by code_simp

lemma strip_one_keeps:
  assumes "\<forall>w \<in> set ws. w \<noteq> [] \<and> hd w \<noteq> c"
  shows "strip_one ws (c # s) = c # s"
proof -
  have "find (\<lambda>w. take (length w) (c # s) = w) ws = None"
    unfolding find_None_iff
  proof (intro notI)
    assume "\<exists>w. w \<in> set ws \<and> take (length w) (c # s) = w"
    then obtain w where w: "w \<in> set ws" "take (length w) (c # s) = w" by blast
    with assms obtain d t where "w = d # t" "d \<noteq> c" by (metis list.exhaust list.sel(1))
    with w(2) show False by simp
  qed
  then show ?thesis by (simp add: strip_one_def)
qed

lemma funpow_fixpoint: "f x = x \<Longrightarrow> (f ^^ n) x = x"
  by (induction n) simp_all

lemma trim_keeps:
  assumes "\<forall>c \<in> set s. 32 < (of_char c :: nat) \<and> (of_char c :: nat) < 0x80"
  shows "trim s = s"
proof (cases s)
  case (Cons c t)
  have "\<forall>w \<in> set utf8_whitespace. w \<noteq> [] \<and> hd w \<noteq> c"
    using whitespace_ends assms Cons by (auto dest!: bspec)
  then have f: "strip_one utf8_whitespace s = s" unfolding Cons by (rule strip_one_keeps)
  obtain d u where rv: "rev s = d # u" using Cons by (cases "rev s") auto
  then have "d \<in> set s" by (metis list.set_intros(1) set_rev)
  then have "\<forall>w \<in> set (map rev utf8_whitespace). w \<noteq> [] \<and> hd w \<noteq> d"
    using whitespace_ends assms by (auto simp: hd_rev dest!: bspec)
  then have "strip_one (map rev utf8_whitespace) (rev s) = rev s" unfolding rv by (rule strip_one_keeps)
  with f show ?thesis by (simp add: trim_def Let_def funpow_fixpoint)
qed (simp add: trim_def)

lemma trim_hex_string: "trim (hex_string bs) = hex_string bs"
  using hex_string_chars [of _ bs] hex_digit_cases by (intro trim_keeps) blast

lemma checksum_bytes_from_hex_string [simp]:
  assumes "length bs = 32"
  shows "checksum_bytes_from_hex (hex_string bs) = Inr bs"
  using assms by (simp add: checksum_bytes_from_hex_def trim_hex_string parse_hex_string)

end
