(* ===== verification/Pack_Index.thy ===== *)
theory Pack_Index
  imports Pack_Strings
begin

text \<open>
  The binary index and trailer of a pack archive (\<open>pack_substrate/types.rs\<close>,
  \<open>pack_substrate/zstd/frame_index.rs\<close>).  Writing appends fields to a buffer, each of which
  may fail; reading advances a cursor, which is the unread suffix here.  The labels of the source
  are kept in the errors that name a field.
\<close>

section \<open>The index\<close>

record ZstdChunkedChunkIndex =
  chunk_ordinal :: nat
  compressed_offset :: nat
  compressed_len :: nat
  raw_len :: nat
  chunk_checksum :: string

record ZstdChunkedMemberIndex =
  member_ordinal :: nat
  entry_name :: string
  content_id :: string
  entry_type :: string
  entry_count :: "nat option"
  base_content_id :: "string option"
  delta_algorithm :: "string option"
  chain_depth :: nat
  member_chunk_ordinal :: nat
  in_chunk_offset :: nat
  stored_len :: nat
  logical_len :: nat
  member_checksum :: string

record ZstdChunkedPackIndex =
  pack_format :: string
  pack_id :: string
  created_at :: string
  index_entry_name :: string
  index_chunks :: "ZstdChunkedChunkIndex list"
  index_members :: "ZstdChunkedMemberIndex list"

datatype index_error =
    Truncated string | NotUtf8 string | InvalidOptionTag string u8 | BadMagic string
  | UnsupportedVersion string u32 | IndexKindMismatch | TrailingBytes string
  | ExceedsU32 string | Checksum checksum_error

type_synonym 'a index_result = "index_error + 'a"
type_synonym 'a reader = "bytes \<Rightarrow> ('a \<times> bytes) index_result"

definition ZSTD_CHUNKED_VERSION :: u32 where "ZSTD_CHUNKED_VERSION = 1"
definition ZSTD_CHUNKED_TRAILER_MAGIC :: bytes where "ZSTD_CHUNKED_TRAILER_MAGIC = string_bytes ''AITZSTP1''"
definition ZSTD_CHUNKED_INDEX_MAGIC :: bytes where "ZSTD_CHUNKED_INDEX_MAGIC = string_bytes ''AITZIDX1''"
definition ZSTD_CHUNKED_TRAILER_LEN :: nat where "ZSTD_CHUNKED_TRAILER_LEN = 8 + 4 + 8 + 8 + 32"

section \<open>Writing fields\<close>

definition usize_to_u32 :: "nat \<Rightarrow> string \<Rightarrow> u32 index_result" where
  "usize_to_u32 n label = (if n < 2 ^ 32 then Inr (of_nat n) else Inl (ExceedsU32 label))"

definition push_u32_from :: "nat \<Rightarrow> string \<Rightarrow> bytes index_result" where
  "push_u32_from n label = res_bind (usize_to_u32 n label) (\<lambda>v. Inr (to_le_bytes v))"

definition push_u64 :: "nat \<Rightarrow> bytes" where
  "push_u64 n = to_le_bytes64 (of_nat n)"

definition push_string :: "string \<Rightarrow> bytes index_result" where
  "push_string s = res_bind (push_u32_from (length s) ''string_len'') (\<lambda>n. Inr (n @ string_bytes s))"

definition push_option_string :: "string option \<Rightarrow> bytes index_result" where
  "push_option_string v =
     (case v of Some s \<Rightarrow> res_bind (push_string s) (\<lambda>bs. Inr (1 # bs)) | None \<Rightarrow> Inr [0])"

definition push_option_usize :: "nat option \<Rightarrow> bytes index_result" where
  "push_option_usize v = (case v of Some n \<Rightarrow> Inr (1 # push_u64 n) | None \<Rightarrow> Inr [0])"

definition push_checksum_hex :: "string \<Rightarrow> bytes index_result" where
  "push_checksum_hex s = (case checksum_bytes_from_hex s of Inl e \<Rightarrow> Inl (Checksum e) | Inr bs \<Rightarrow> Inr bs)"

text \<open>Pushing one field after another into the buffer.\<close>

fun push_all :: "bytes index_result list \<Rightarrow> bytes index_result" where
  "push_all [] = Inr []"
| "push_all (r # rs) = res_bind r (\<lambda>bs. res_bind (push_all rs) (\<lambda>cs. Inr (bs @ cs)))"

definition encode_chunk :: "ZstdChunkedChunkIndex \<Rightarrow> bytes index_result" where
  "encode_chunk c = push_all
     [push_u32_from (chunk_ordinal c) ''chunk_ordinal'', Inr (push_u64 (compressed_offset c)),
      Inr (push_u64 (compressed_len c)), Inr (push_u64 (raw_len c)), push_checksum_hex (chunk_checksum c)]"

definition encode_member :: "ZstdChunkedMemberIndex \<Rightarrow> bytes index_result" where
  "encode_member m = push_all
     [push_u32_from (member_ordinal m) ''member_ordinal'', push_string (entry_name m), push_string (content_id m),
      push_string (entry_type m), push_option_usize (entry_count m), push_option_string (base_content_id m),
      push_option_string (delta_algorithm m), push_u32_from (chain_depth m) ''delta_chain_depth'',
      push_u32_from (member_chunk_ordinal m) ''member_chunk_ordinal'', Inr (push_u64 (in_chunk_offset m)),
      Inr (push_u64 (stored_len m)), Inr (push_u64 (logical_len m)), push_checksum_hex (member_checksum m)]"

definition encode_zstd_chunked_index :: "ZstdChunkedPackIndex \<Rightarrow> u8 \<Rightarrow> bytes index_result" where
  "encode_zstd_chunked_index idx kind = push_all
     ([Inr ZSTD_CHUNKED_INDEX_MAGIC, Inr (to_le_bytes ZSTD_CHUNKED_VERSION), Inr [kind],
       push_string (pack_format idx), push_string (pack_id idx), push_string (created_at idx),
       push_string (index_entry_name idx), push_u32_from (length (index_chunks idx)) ''chunk_count'',
       push_all (map encode_chunk (index_chunks idx)),
       push_u32_from (length (index_members idx)) ''member_count'',
       push_all (map encode_member (index_members idx))])"

definition encode_zstd_chunked_trailer :: "(bytes \<Rightarrow> bytes) \<Rightarrow> nat \<Rightarrow> bytes \<Rightarrow> bytes" where
  "encode_zstd_chunked_trailer sha256 index_offset index_bytes =
     ZSTD_CHUNKED_TRAILER_MAGIC @ to_le_bytes ZSTD_CHUNKED_VERSION @ push_u64 index_offset @
     push_u64 (length index_bytes) @ sha256 index_bytes"

section \<open>Reading fields\<close>

definition rd_return :: "'a \<Rightarrow> 'a reader" where
  "rd_return x = (\<lambda>rest. Inr (x, rest))"

definition rd_fail :: "index_error \<Rightarrow> 'a reader" where
  "rd_fail e = (\<lambda>rest. Inl e)"

definition rd_bind :: "'a reader \<Rightarrow> ('a \<Rightarrow> 'b reader) \<Rightarrow> 'b reader" where
  "rd_bind r f = (\<lambda>rest. case r rest of Inl e \<Rightarrow> Inl e | Inr (x, rest') \<Rightarrow> f x rest')"

definition read_bytes_field :: "nat \<Rightarrow> string \<Rightarrow> bytes reader" where
  "read_bytes_field n label = (\<lambda>rest. if n > length rest then Inl (Truncated label) else Inr (take n rest, drop n rest))"

definition read_u8 :: "string \<Rightarrow> u8 reader" where
  "read_u8 label = rd_bind (read_bytes_field 1 label) (\<lambda>bs. rd_return (bs ! 0))"

definition read_u32 :: "string \<Rightarrow> u32 reader" where
  "read_u32 label = rd_bind (read_bytes_field 4 label) (\<lambda>bs. rd_return (from_le_bytes bs))"

definition read_u64 :: "string \<Rightarrow> u64 reader" where
  "read_u64 label = rd_bind (read_bytes_field 8 label) (\<lambda>bs. rd_return (from_le_bytes64 bs))"

definition read_string :: "string \<Rightarrow> string reader" where
  "read_string label =
     rd_bind (read_u32 label) (\<lambda>n.
     rd_bind (read_bytes_field (unat n) label) (\<lambda>bs.
       if utf8_valid bs then rd_return (bytes_string bs) else rd_fail (NotUtf8 label)))"

definition read_option_string :: "string \<Rightarrow> string option reader" where
  "read_option_string label =
     rd_bind (read_u8 label) (\<lambda>tag.
       if tag = 0 then rd_return None
       else if tag = 1 then rd_bind (read_string label) (\<lambda>s. rd_return (Some s))
       else rd_fail (InvalidOptionTag label tag))"

definition read_option_usize :: "string \<Rightarrow> nat option reader" where
  "read_option_usize label =
     rd_bind (read_u8 label) (\<lambda>tag.
       if tag = 0 then rd_return None
       else if tag = 1 then rd_bind (read_u64 label) (\<lambda>n. rd_return (Some (unat n)))
       else rd_fail (InvalidOptionTag label tag))"

definition read_checksum_bytes :: "string \<Rightarrow> bytes reader" where
  "read_checksum_bytes label = read_bytes_field 32 label"

definition read_checksum_hex :: "string \<Rightarrow> string reader" where
  "read_checksum_hex label = rd_bind (read_checksum_bytes label) (\<lambda>bs. rd_return (hex_string bs))"

fun read_many :: "nat \<Rightarrow> 'a reader \<Rightarrow> 'a list reader" where
  "read_many 0 r = rd_return []"
| "read_many (Suc n) r = rd_bind r (\<lambda>x. rd_bind (read_many n r) (\<lambda>xs. rd_return (x # xs)))"

definition read_chunk_entry :: "ZstdChunkedChunkIndex reader" where
  "read_chunk_entry =
     rd_bind (read_u32 ''chunk_ordinal'') (\<lambda>ord.
     rd_bind (read_u64 ''compressed_offset'') (\<lambda>off.
     rd_bind (read_u64 ''compressed_len'') (\<lambda>clen.
     rd_bind (read_u64 ''raw_len'') (\<lambda>rlen.
     rd_bind (read_checksum_hex ''chunk_checksum'') (\<lambda>sum.
       rd_return \<lparr>chunk_ordinal = unat ord, compressed_offset = unat off, compressed_len = unat clen,
                  raw_len = unat rlen, chunk_checksum = sum\<rparr>)))))"

definition read_member_entry :: "ZstdChunkedMemberIndex reader" where
  "read_member_entry =
     rd_bind (read_u32 ''member_ordinal'') (\<lambda>ord.
     rd_bind (read_string ''entry_name'') (\<lambda>name.
     rd_bind (read_string ''content_id'') (\<lambda>cid.
     rd_bind (read_string ''entry_type'') (\<lambda>etype.
     rd_bind (read_option_usize ''entry_count'') (\<lambda>cnt.
     rd_bind (read_option_string ''base_content_id'') (\<lambda>bid.
     rd_bind (read_option_string ''delta_algorithm'') (\<lambda>alg.
     rd_bind (read_u32 ''delta_chain_depth'') (\<lambda>depth.
     rd_bind (read_u32 ''member_chunk_ordinal'') (\<lambda>cord.
     rd_bind (read_u64 ''in_chunk_offset'') (\<lambda>off.
     rd_bind (read_u64 ''stored_len'') (\<lambda>slen.
     rd_bind (read_u64 ''logical_len'') (\<lambda>llen.
     rd_bind (read_checksum_hex ''member_checksum'') (\<lambda>sum.
       rd_return \<lparr>member_ordinal = unat ord, entry_name = name, content_id = cid, entry_type = etype,
                  entry_count = cnt, base_content_id = bid, delta_algorithm = alg, chain_depth = unat depth,
                  member_chunk_ordinal = unat cord, in_chunk_offset = unat off, stored_len = unat slen,
                  logical_len = unat llen, member_checksum = sum\<rparr>)))))))))))))"

definition decode_zstd_chunked_index :: "bytes \<Rightarrow> u8 \<Rightarrow> ZstdChunkedPackIndex index_result" where
  "decode_zstd_chunked_index data expected_kind =
     (case rd_bind (read_bytes_field (length ZSTD_CHUNKED_INDEX_MAGIC) ''index magic'') (\<lambda>magic.
        if magic \<noteq> ZSTD_CHUNKED_INDEX_MAGIC then rd_fail (BadMagic ''index'') else
        rd_bind (read_u32 ''index version'') (\<lambda>version.
        if version \<noteq> ZSTD_CHUNKED_VERSION then rd_fail (UnsupportedVersion ''index'' version) else
        rd_bind (read_u8 ''index kind'') (\<lambda>kind.
        if kind \<noteq> expected_kind then rd_fail IndexKindMismatch else
        rd_bind (read_string ''pack_format'') (\<lambda>fmt.
        rd_bind (read_string ''pack_id'') (\<lambda>pid.
        rd_bind (read_string ''created_at'') (\<lambda>cat.
        rd_bind (read_string ''index_entry_name'') (\<lambda>ien.
        rd_bind (read_u32 ''chunk_count'') (\<lambda>nc.
        rd_bind (read_many (unat nc) read_chunk_entry) (\<lambda>cs.
        rd_bind (read_u32 ''member_count'') (\<lambda>nm.
        rd_bind (read_many (unat nm) read_member_entry) (\<lambda>ms.
          rd_return \<lparr>pack_format = fmt, pack_id = pid, created_at = cat, index_entry_name = ien,
                     index_chunks = cs, index_members = ms\<rparr>))))))))))) data of
        Inl e \<Rightarrow> Inl e
      | Inr (idx, rest) \<Rightarrow> if rest \<noteq> [] then Inl (TrailingBytes ''index'') else Inr idx)"

definition decode_zstd_chunked_trailer :: "bytes \<Rightarrow> (nat \<times> nat \<times> bytes) index_result" where
  "decode_zstd_chunked_trailer data =
     (case rd_bind (read_bytes_field (length ZSTD_CHUNKED_TRAILER_MAGIC) ''trailer magic'') (\<lambda>magic.
        if magic \<noteq> ZSTD_CHUNKED_TRAILER_MAGIC then rd_fail (BadMagic ''trailer'') else
        rd_bind (read_u32 ''trailer version'') (\<lambda>version.
        if version \<noteq> ZSTD_CHUNKED_VERSION then rd_fail (UnsupportedVersion ''trailer'' version) else
        rd_bind (read_u64 ''index_offset'') (\<lambda>off.
        rd_bind (read_u64 ''index_len'') (\<lambda>len.
        rd_bind (read_checksum_bytes ''index_checksum'') (\<lambda>sum.
          rd_return (unat off, unat len, sum)))))) data of
        Inl e \<Rightarrow> Inl e
      | Inr (res, rest) \<Rightarrow> if rest \<noteq> [] then Inl (TrailingBytes ''trailer'') else Inr res)"

end
