(* ===== verification/Pack_Index_Codec.thy ===== *)
theory Pack_Index_Codec
  imports Pack_Index
begin

text \<open>
  The index codec loses nothing in either direction: what is written is read back, and what can be
  read is exactly what writing its result produces.  Both directions are the laws of the locale
  \<open>field_codec\<close>, which is interpreted on strings, optional fields, chunk entries and member
  entries; the list lemmas are proved once inside it.
\<close>

section \<open>The interface of a field\<close>

lemma rd_bind_ok:
  "rd_bind r f bs = Inr (y, rest) \<longleftrightarrow> (\<exists>x mid. r bs = Inr (x, mid) \<and> f x mid = Inr (y, rest))"
  by (auto simp: rd_bind_def split: sum.splits prod.splits)

lemma rd_bind_run [simp]: "r bs = Inr (x, mid) \<Longrightarrow> rd_bind r f bs = f x mid"
  by (simp add: rd_bind_def)

lemma rd_return_run [simp]: "rd_return x rest = Inr (x, rest)"
  by (simp add: rd_return_def)

lemma rd_fail_run [simp]: "rd_fail e rest = Inl e"
  by (simp add: rd_fail_def)

lemma push_all_Cons_ok:
  "push_all (r # rs) = Inr bs \<longleftrightarrow> (\<exists>xs ys. r = Inr xs \<and> push_all rs = Inr ys \<and> bs = xs @ ys)"
  by (auto simp: res_bind_Inr)

locale field_codec =
  fixes enc :: "'a \<Rightarrow> bytes index_result" and dec :: "'a reader" and ok :: "'a \<Rightarrow> bool"
  assumes dec_enc: "ok x \<Longrightarrow> enc x = Inr bs \<Longrightarrow> dec (bs @ rest) = Inr (x, rest)"
    and enc_dec: "dec bs = Inr (x, rest) \<Longrightarrow> ok x \<and> (\<exists>pre. enc x = Inr pre \<and> bs = pre @ rest)"
begin

lemma many_dec_enc:
  "\<forall>x \<in> set xs. ok x \<Longrightarrow> push_all (map enc xs) = Inr bs \<Longrightarrow> read_many (length xs) dec (bs @ rest) = Inr (xs, rest)"
proof (induction xs arbitrary: bs)
  case (Cons x xs)
  from Cons.prems(2) obtain as cs where e: "enc x = Inr as" "push_all (map enc xs) = Inr cs" "bs = as @ cs"
    by (auto simp: res_bind_Inr)
  with Cons.IH [of cs] Cons.prems(1) dec_enc [of x as "cs @ rest"] show ?case by simp
qed simp

lemma many_enc_dec:
  "read_many n dec bs = Inr (xs, rest) \<Longrightarrow>
    length xs = n \<and> (\<forall>x \<in> set xs. ok x) \<and> (\<exists>pre. push_all (map enc xs) = Inr pre \<and> bs = pre @ rest)"
proof (induction n arbitrary: bs xs)
  case (Suc n)
  from Suc.prems obtain x mid ys where r: "dec bs = Inr (x, mid)" "read_many n dec mid = Inr (ys, rest)" "xs = x # ys"
    by (auto simp: rd_bind_ok)
  from enc_dec [OF r(1)] obtain p where p: "ok x" "enc x = Inr p" "bs = p @ mid" by blast
  from Suc.IH [OF r(2)] obtain q where q: "length ys = n" "\<forall>y \<in> set ys. ok y" "push_all (map enc ys) = Inr q" "mid = q @ rest"
    by blast
  from p q r(3) show ?case by simp
qed simp

end

section \<open>Elementary fields\<close>

lemma read_bytes_field_run [simp]: "read_bytes_field (length bs) label (bs @ rest) = Inr (bs, rest)"
  by (simp add: read_bytes_field_def)

lemma read_bytes_field_ok:
  "read_bytes_field n label bs = Inr (xs, rest) \<longleftrightarrow> length xs = n \<and> bs = xs @ rest"
  by (auto simp: read_bytes_field_def split: if_splits)

lemma read_u8_run [simp]: "read_u8 label (b # rest) = Inr (b, rest)"
  by (simp add: read_u8_def rd_bind_def read_bytes_field_def)

lemma read_u8_ok: "read_u8 label bs = Inr (b, rest) \<longleftrightarrow> bs = b # rest"
  by (auto simp: read_u8_def rd_bind_ok read_bytes_field_ok rd_return_def length_Suc_conv)

lemma read_u32_run [simp]: "read_u32 label (to_le_bytes v @ rest) = Inr (v, rest)"
  using read_bytes_field_run [of "to_le_bytes v" label rest] by (simp add: read_u32_def)

lemma read_u32_ok: "read_u32 label bs = Inr (v, rest) \<longleftrightarrow> bs = to_le_bytes v @ rest"
  by (auto simp: read_u32_def rd_bind_ok read_bytes_field_ok rd_return_def to_from_le_bytes)

lemma read_u64_run [simp]: "read_u64 label (to_le_bytes64 v @ rest) = Inr (v, rest)"
  using read_bytes_field_run [of "to_le_bytes64 v" label rest] by (simp add: read_u64_def)

lemma read_u64_ok: "read_u64 label bs = Inr (v, rest) \<longleftrightarrow> bs = to_le_bytes64 v @ rest"
  by (auto simp: read_u64_def rd_bind_ok read_bytes_field_ok rd_return_def to_from_le_bytes64)

lemma push_u32_from_ok: "push_u32_from n label = Inr bs \<longleftrightarrow> n < 2 ^ 32 \<and> bs = to_le_bytes (of_nat n)"
  by (auto simp: push_u32_from_def usize_to_u32_def)

lemma unat_of_nat_u32 [simp]: "n < 2 ^ 32 \<Longrightarrow> unat (of_nat n :: u32) = n"
  by (simp add: unat_of_nat take_bit_eq_mod)

lemma unat_of_nat_u64 [simp]: "n < 2 ^ 64 \<Longrightarrow> unat (of_nat n :: u64) = n"
  by (simp add: unat_of_nat take_bit_eq_mod)

lemma unat_lt_u32: "unat (v :: u32) < 2 ^ 32"
proof -
  have "unat v < 2 ^ LENGTH(32)" by (rule unsigned_less)
  then show ?thesis by simp
qed

lemma unat_lt_u64: "unat (v :: u64) < 2 ^ 64"
proof -
  have "unat v < 2 ^ LENGTH(64)" by (rule unsigned_less)
  then show ?thesis by simp
qed

lemma push_string_ok:
  "push_string s = Inr bs \<longleftrightarrow> length s < 2 ^ 32 \<and> bs = to_le_bytes (of_nat (length s)) @ string_bytes s"
  by (auto simp: push_string_def res_bind_Inr push_u32_from_ok)

lemma read_string_run:
  assumes "utf8_string s" and "length s < 2 ^ 32"
  shows "read_string label (to_le_bytes (of_nat (length s)) @ string_bytes s @ rest) = Inr (s, rest)"
  using assms read_bytes_field_run [of "string_bytes s" label rest]
  by (simp add: read_string_def utf8_string_def)

lemma read_string_ok:
  "read_string label bs = Inr (s, rest) \<longleftrightarrow>
    utf8_string s \<and> length s < 2 ^ 32 \<and> bs = to_le_bytes (of_nat (length s)) @ string_bytes s @ rest"
proof
  assume "read_string label bs = Inr (s, rest)"
  then obtain n xs where "bs = to_le_bytes n @ xs @ rest" "length xs = unat n" "utf8_valid xs" "s = bytes_string xs"
    by (auto simp: read_string_def rd_bind_ok read_u32_ok read_bytes_field_ok split: if_splits)
  then show "utf8_string s \<and> length s < 2 ^ 32 \<and> bs = to_le_bytes (of_nat (length s)) @ string_bytes s @ rest"
    using unat_lt_u32 [of n] by (simp add: utf8_string_def)
qed (simp add: read_string_run)

lemma push_checksum_hex_string [simp]: "length bs = 32 \<Longrightarrow> push_checksum_hex (hex_string bs) = Inr bs"
  by (simp add: push_checksum_hex_def)

lemma read_checksum_hex_ok:
  "read_checksum_hex label bs = Inr (s, rest) \<longleftrightarrow> (\<exists>xs. length xs = 32 \<and> bs = xs @ rest \<and> s = hex_string xs)"
  by (auto simp: read_checksum_hex_def read_checksum_bytes_def rd_bind_ok read_bytes_field_ok rd_return_def)

definition checksum_text :: "string \<Rightarrow> bool" where
  "checksum_text s \<longleftrightarrow> (\<exists>xs. length xs = 32 \<and> s = hex_string xs)"

interpretation string_codec: field_codec push_string "read_string label" utf8_string
  by unfold_locales (auto simp: push_string_ok read_string_ok)

interpretation checksum_codec: field_codec push_checksum_hex "read_checksum_hex label" checksum_text
  by unfold_locales (auto simp: checksum_text_def read_checksum_hex_ok)

interpretation option_string_codec: field_codec push_option_string "read_option_string label"
  "\<lambda>v. case v of None \<Rightarrow> True | Some s \<Rightarrow> utf8_string s"
proof unfold_locales
  fix v :: "string option" and bs rest
  assume "case v of None \<Rightarrow> True | Some s \<Rightarrow> utf8_string s" "push_option_string v = Inr bs"
  then show "read_option_string label (bs @ rest) = Inr (v, rest)"
    using string_codec.dec_enc by (cases v) (auto simp: push_option_string_def read_option_string_def res_bind_Inr)
next
  fix bs :: bytes and v :: "string option" and rest
  assume "read_option_string label bs = Inr (v, rest)"
  then show "(case v of None \<Rightarrow> True | Some s \<Rightarrow> utf8_string s) \<and> (\<exists>pre. push_option_string v = Inr pre \<and> bs = pre @ rest)"
    by (auto simp: read_option_string_def rd_bind_ok read_u8_ok push_option_string_def rd_return_def res_bind_Inr
        split: if_splits dest!: string_codec.enc_dec)
qed

interpretation option_usize_codec: field_codec push_option_usize "read_option_usize label"
  "\<lambda>v. case v of None \<Rightarrow> True | Some n \<Rightarrow> n < 2 ^ 64"
proof unfold_locales
  fix v :: "nat option" and bs rest
  assume "case v of None \<Rightarrow> True | Some n \<Rightarrow> n < 2 ^ 64" "push_option_usize v = Inr bs"
  then show "read_option_usize label (bs @ rest) = Inr (v, rest)"
    by (cases v) (auto simp: push_option_usize_def read_option_usize_def push_u64_def)
next
  fix bs :: bytes and v :: "nat option" and rest
  assume "read_option_usize label bs = Inr (v, rest)"
  then show "(case v of None \<Rightarrow> True | Some n \<Rightarrow> n < 2 ^ 64) \<and> (\<exists>pre. push_option_usize v = Inr pre \<and> bs = pre @ rest)"
    using unat_lt_u64
    by (auto simp: read_option_usize_def rd_bind_ok read_u8_ok read_u64_ok push_option_usize_def push_u64_def rd_return_def
        split: if_splits)
qed

section \<open>Index entries\<close>

definition chunk_ok :: "ZstdChunkedChunkIndex \<Rightarrow> bool" where
  "chunk_ok c \<longleftrightarrow> compressed_offset c < 2 ^ 64 \<and> compressed_len c < 2 ^ 64 \<and> raw_len c < 2 ^ 64 \<and>
     checksum_text (chunk_checksum c)"

definition member_ok :: "ZstdChunkedMemberIndex \<Rightarrow> bool" where
  "member_ok m \<longleftrightarrow> utf8_string (entry_name m) \<and> utf8_string (content_id m) \<and> utf8_string (entry_type m) \<and>
     (case entry_count m of None \<Rightarrow> True | Some n \<Rightarrow> n < 2 ^ 64) \<and>
     (case base_content_id m of None \<Rightarrow> True | Some s \<Rightarrow> utf8_string s) \<and>
     (case delta_algorithm m of None \<Rightarrow> True | Some s \<Rightarrow> utf8_string s) \<and>
     in_chunk_offset m < 2 ^ 64 \<and> stored_len m < 2 ^ 64 \<and> logical_len m < 2 ^ 64 \<and> checksum_text (member_checksum m)"

lemma push_all_Nil_ok: "push_all [] = Inr bs \<longleftrightarrow> bs = []"
  by auto

interpretation chunk_codec: field_codec encode_chunk read_chunk_entry chunk_ok
proof unfold_locales
  fix c bs rest
  assume ok: "chunk_ok c" and e: "encode_chunk c = Inr bs"
  from e obtain sum where sum: "push_checksum_hex (chunk_checksum c) = Inr sum" and ord: "chunk_ordinal c < 2 ^ 32"
    and bs: "bs = to_le_bytes (of_nat (chunk_ordinal c)) @ push_u64 (compressed_offset c) @ push_u64 (compressed_len c) @
      push_u64 (raw_len c) @ sum"
    by (auto simp only: encode_chunk_def push_all_Cons_ok push_all_Nil_ok push_u32_from_ok sum.inject append_Nil2)
  have "read_checksum_hex ''chunk_checksum'' (sum @ rest) = Inr (chunk_checksum c, rest)"
    using ok by (intro checksum_codec.dec_enc sum) (simp add: chunk_ok_def)
  with ok ord show "read_chunk_entry (bs @ rest) = Inr (c, rest)"
    by (simp add: bs read_chunk_entry_def push_u64_def chunk_ok_def)
next
  fix bs c rest
  assume "read_chunk_entry bs = Inr (c, rest)"
  then obtain ord off clen rlen sum mid where r:
    "bs = to_le_bytes ord @ to_le_bytes64 off @ to_le_bytes64 clen @ to_le_bytes64 rlen @ mid"
    "read_checksum_hex ''chunk_checksum'' mid = Inr (sum, rest)"
    "c = \<lparr>chunk_ordinal = unat ord, compressed_offset = unat off, compressed_len = unat clen,
          raw_len = unat rlen, chunk_checksum = sum\<rparr>"
    by (auto simp: read_chunk_entry_def rd_bind_ok read_u32_ok read_u64_ok)
  from checksum_codec.enc_dec [OF r(2)] obtain p where "checksum_text sum" "push_checksum_hex sum = Inr p" "mid = p @ rest"
    by blast
  with r(1,3) show "chunk_ok c \<and> (\<exists>pre. encode_chunk c = Inr pre \<and> bs = pre @ rest)"
    using unat_lt_u32 [of ord] unat_lt_u64
    by (simp add: chunk_ok_def encode_chunk_def push_u64_def push_u32_from_def usize_to_u32_def)
qed

interpretation member_codec: field_codec encode_member read_member_entry member_ok
proof unfold_locales
  fix m bs rest
  assume ok: "member_ok m" and e: "encode_member m = Inr bs"
  from e obtain n1 n2 n3 o1 o2 o3 sum where
    f: "push_string (entry_name m) = Inr n1" "push_string (content_id m) = Inr n2" "push_string (entry_type m) = Inr n3"
      "push_option_usize (entry_count m) = Inr o1" "push_option_string (base_content_id m) = Inr o2"
      "push_option_string (delta_algorithm m) = Inr o3" "push_checksum_hex (member_checksum m) = Inr sum"
      and ord: "member_ordinal m < 2 ^ 32" "chain_depth m < 2 ^ 32" "member_chunk_ordinal m < 2 ^ 32"
    and bs: "bs = to_le_bytes (of_nat (member_ordinal m)) @ n1 @ n2 @ n3 @ o1 @ o2 @ o3 @ to_le_bytes (of_nat (chain_depth m)) @
      to_le_bytes (of_nat (member_chunk_ordinal m)) @ push_u64 (in_chunk_offset m) @ push_u64 (stored_len m) @
      push_u64 (logical_len m) @ sum"
    by (auto simp only: encode_member_def push_all_Cons_ok push_all_Nil_ok push_u32_from_ok sum.inject append_Nil2)
  note dec = string_codec.dec_enc [OF _ f(1)] string_codec.dec_enc [OF _ f(2)] string_codec.dec_enc [OF _ f(3)]
    option_usize_codec.dec_enc [OF _ f(4)] option_string_codec.dec_enc [OF _ f(5)] option_string_codec.dec_enc [OF _ f(6)]
    checksum_codec.dec_enc [OF _ f(7)]
  from ok ord show "read_member_entry (bs @ rest) = Inr (m, rest)"
    by (simp add: bs read_member_entry_def push_u64_def member_ok_def dec)
next
  fix bs m rest
  assume "read_member_entry bs = Inr (m, rest)"
  then obtain ord name cid etype cnt bid alg depth cord off slen llen sum r1 r2 r3 r4 r5 r6 r7 r8 where
    r: "bs = to_le_bytes ord @ r1" "read_string ''entry_name'' r1 = Inr (name, r2)" "read_string ''content_id'' r2 = Inr (cid, r3)"
      "read_string ''entry_type'' r3 = Inr (etype, r4)" "read_option_usize ''entry_count'' r4 = Inr (cnt, r5)"
      "read_option_string ''base_content_id'' r5 = Inr (bid, r6)" "read_option_string ''delta_algorithm'' r6 = Inr (alg, r7)"
      "r7 = to_le_bytes depth @ to_le_bytes cord @ to_le_bytes64 off @ to_le_bytes64 slen @ to_le_bytes64 llen @ r8"
      "read_checksum_hex ''member_checksum'' r8 = Inr (sum, rest)"
    and m: "m = \<lparr>member_ordinal = unat ord, entry_name = name, content_id = cid, entry_type = etype,
                  entry_count = cnt, base_content_id = bid, delta_algorithm = alg, chain_depth = unat depth,
                  member_chunk_ordinal = unat cord, in_chunk_offset = unat off, stored_len = unat slen,
                  logical_len = unat llen, member_checksum = sum\<rparr>"
    by (auto simp: read_member_entry_def rd_bind_ok read_u32_ok read_u64_ok)
  note enc = string_codec.enc_dec [OF r(2)] string_codec.enc_dec [OF r(3)] string_codec.enc_dec [OF r(4)]
    option_usize_codec.enc_dec [OF r(5)] option_string_codec.enc_dec [OF r(6)] option_string_codec.enc_dec [OF r(7)]
    checksum_codec.enc_dec [OF r(9)]
  then show "member_ok m \<and> (\<exists>pre. encode_member m = Inr pre \<and> bs = pre @ rest)"
    using unat_lt_u32 unat_lt_u64 r(1,8)
    by (elim conjE exE) (simp add: m member_ok_def encode_member_def push_u64_def push_u32_from_def usize_to_u32_def)
qed

section \<open>The whole index and the trailer\<close>

definition index_ok :: "ZstdChunkedPackIndex \<Rightarrow> bool" where
  "index_ok idx \<longleftrightarrow> utf8_string (pack_format idx) \<and> utf8_string (pack_id idx) \<and> utf8_string (created_at idx) \<and>
     utf8_string (index_entry_name idx) \<and> (\<forall>c \<in> set (index_chunks idx). chunk_ok c) \<and>
     (\<forall>m \<in> set (index_members idx). member_ok m)"

lemma decode_encode_index:
  assumes ok: "index_ok idx" and e: "encode_zstd_chunked_index idx kind = Inr bs"
  shows "decode_zstd_chunked_index bs kind = Inr idx"
proof -
  from e obtain n1 n2 n3 n4 cs ms where
    f: "push_string (pack_format idx) = Inr n1" "push_string (pack_id idx) = Inr n2" "push_string (created_at idx) = Inr n3"
      "push_string (index_entry_name idx) = Inr n4" "push_all (map encode_chunk (index_chunks idx)) = Inr cs"
      "push_all (map encode_member (index_members idx)) = Inr ms"
    and len: "length (index_chunks idx) < 2 ^ 32" "length (index_members idx) < 2 ^ 32"
    and bs: "bs = ZSTD_CHUNKED_INDEX_MAGIC @ to_le_bytes ZSTD_CHUNKED_VERSION @ [kind] @ n1 @ n2 @ n3 @ n4 @
      to_le_bytes (of_nat (length (index_chunks idx))) @ cs @ to_le_bytes (of_nat (length (index_members idx))) @ ms"
    by (auto simp only: encode_zstd_chunked_index_def push_all_Cons_ok push_all_Nil_ok push_u32_from_ok sum.inject append_Nil2)
  note dec = string_codec.dec_enc [OF _ f(1)] string_codec.dec_enc [OF _ f(2)] string_codec.dec_enc [OF _ f(3)]
    string_codec.dec_enc [OF _ f(4)] chunk_codec.many_dec_enc [OF _ f(5)]
  have ms: "read_many (length (index_members idx)) read_member_entry ms = Inr (index_members idx, [])"
    using member_codec.many_dec_enc [OF _ f(6), of "[]"] ok by (simp add: index_ok_def)
  from ok len ms show ?thesis
    by (simp add: bs decode_zstd_chunked_index_def dec index_ok_def)
qed

lemma encode_decode_index:
  assumes "decode_zstd_chunked_index bs kind = Inr idx"
  shows "index_ok idx \<and> encode_zstd_chunked_index idx kind = Inr bs"
proof -
  from assms obtain fmt pid cat ien nc cs nm ms r1 r2 r3 r4 r5 r6 r7 where
    r: "bs = ZSTD_CHUNKED_INDEX_MAGIC @ to_le_bytes ZSTD_CHUNKED_VERSION @ kind # r1"
      "read_string ''pack_format'' r1 = Inr (fmt, r2)" "read_string ''pack_id'' r2 = Inr (pid, r3)"
      "read_string ''created_at'' r3 = Inr (cat, r4)" "read_string ''index_entry_name'' r4 = Inr (ien, r5)"
      "r5 = to_le_bytes nc @ r6" "read_many (unat nc) read_chunk_entry r6 = Inr (cs, to_le_bytes nm @ r7)"
      "read_many (unat nm) read_member_entry r7 = Inr (ms, [])"
    and idx: "idx = \<lparr>pack_format = fmt, pack_id = pid, created_at = cat, index_entry_name = ien,
                     index_chunks = cs, index_members = ms\<rparr>"
    by (auto simp: decode_zstd_chunked_index_def rd_bind_ok read_u32_ok read_u8_ok read_bytes_field_ok
        split: sum.splits if_splits)
  note enc = string_codec.enc_dec [OF r(2)] string_codec.enc_dec [OF r(3)] string_codec.enc_dec [OF r(4)]
    string_codec.enc_dec [OF r(5)] chunk_codec.many_enc_dec [OF r(7)] member_codec.many_enc_dec [OF r(8)]
  then show ?thesis
    using unat_lt_u32 [of nc] unat_lt_u32 [of nm] r(1,6)
    by (elim conjE exE)
      (simp add: idx index_ok_def encode_zstd_chunked_index_def push_u32_from_def usize_to_u32_def)
qed

lemma length_magic [simp]: "length ZSTD_CHUNKED_TRAILER_MAGIC = 8" "length ZSTD_CHUNKED_INDEX_MAGIC = 8"
  by (simp_all add: ZSTD_CHUNKED_TRAILER_MAGIC_def ZSTD_CHUNKED_INDEX_MAGIC_def)

lemma length_trailer:
  "length (sha256 bs) = 32 \<Longrightarrow> length (encode_zstd_chunked_trailer sha256 off bs) = ZSTD_CHUNKED_TRAILER_LEN"
  by (simp add: encode_zstd_chunked_trailer_def ZSTD_CHUNKED_TRAILER_LEN_def push_u64_def)

lemma decode_encode_trailer:
  assumes "length (sha256 bs) = 32" and "off < 2 ^ 64" and "length bs < 2 ^ 64"
  shows "decode_zstd_chunked_trailer (encode_zstd_chunked_trailer sha256 off bs) = Inr (off, length bs, sha256 bs)"
proof -
  have "read_checksum_bytes ''index_checksum'' (sha256 bs) = Inr (sha256 bs, [])"
    using read_bytes_field_run [of "sha256 bs" "''index_checksum''" "[]"] assms(1) by (simp add: read_checksum_bytes_def)
  then show ?thesis
    using assms(2,3) read_bytes_field_run [of ZSTD_CHUNKED_TRAILER_MAGIC]
    by (simp add: decode_zstd_chunked_trailer_def encode_zstd_chunked_trailer_def push_u64_def)
qed

end
