(* ===== verification/Pack_Archive.thy ===== *)
theory Pack_Archive
  imports Pack_Index_Codec Pack_Members Chunk_Layout
begin

text \<open>
  Pack archives (\<open>pack_substrate/zstd/compression_helpers.rs\<close>,
  \<open>zstd/validation.rs\<close>, \<open>zstd/frame_index.rs\<close>, \<open>zstd/object_pack.rs\<close> and the
  writers of \<open>pack_substrate/object.rs\<close>): members are concatenated into chunks, each chunk is
  compressed, an index and a trailer follow.  An archive is the list of its bytes; failures of the
  file system while it is written or read are not modelled.

  The compressor and the hash are third-party code and so an argument of every definition that
  uses them.
\<close>

section \<open>Parameters and errors\<close>

record pack_env =
  compress :: "bytes \<Rightarrow> bytes option"
  decompress :: "bytes \<Rightarrow> nat \<Rightarrow> bytes option"
  sha256 :: "bytes \<Rightarrow> bytes"

text \<open>
  What is relied on: decompressing a compressed chunk with its own length restores it, and a
  digest has 32 bytes.
\<close>

definition pack_env_ok :: "pack_env \<Rightarrow> bool" where
  "pack_env_ok env \<longleftrightarrow>
     (\<forall>raw c. compress env raw = Some c \<longrightarrow> decompress env c (length raw) = Some raw) \<and>
     (\<forall>bs. length (sha256 env bs) = 32)"

definition sha256_hex :: "pack_env \<Rightarrow> bytes \<Rightarrow> string" where
  "sha256_hex env bs = hex_string (sha256 env bs)"

datatype archive_error =
    IndexError index_error | LayoutError layout_error | DeltaError pack_error
  | TruncatedTrailer | IndexRangeOverflow | IndexRangeExceeds | IndexChecksumMismatch
  | UnsupportedPackFormat | IncorrectIndexEntryName | NonSequentialChunk | ChunkRangeOverflow | ChunkExceedsData
  | NonSequentialMember | DuplicateEntryName | DuplicateMemberOrdinal | MissingChunk | MemberRangeOverflow
  | MemberExceedsChunk | ObjectMemberHasEntryCount | DeltaMemberMissingBase | DuplicateTreeId | TreeMissingEntryCount
  | CompressFailed | DecompressFailed | RawChunkSizeMismatch | ChunkChecksumMismatch | FileRange
  | ChainDepthExceeded | MissingPackEntry | EntryChecksumMismatch | EntrySizeMismatch | UnsupportedEntryType
  | InvalidDeltaBase | CyclicDeltaChain | MissingBaseResolver | InvalidDeltaAlgorithm
  | NoncanonicalIdentity | InconsistentMetadata | UnsupportedWriteFormat

type_synonym 'a archive_result = "archive_error + 'a"

definition map_error :: "('e \<Rightarrow> 'f) \<Rightarrow> 'e + 'a \<Rightarrow> 'f + 'a" where
  "map_error g r = (case r of Inl e \<Rightarrow> Inl (g e) | Inr x \<Rightarrow> Inr x)"

definition ZSTD_CHUNKED_INDEX_KIND_OBJECT :: u8 where "ZSTD_CHUNKED_INDEX_KIND_OBJECT = 1"
definition ZSTD_CHUNKED_INDEX_KIND_TREE :: u8 where "ZSTD_CHUNKED_INDEX_KIND_TREE = 2"
definition ZSTD_CHUNKED_OBJECT_INDEX_ENTRY_NAME :: string where
  "ZSTD_CHUNKED_OBJECT_INDEX_ENTRY_NAME = ''zstd-chunked-object-index''"
definition ZSTD_CHUNKED_TREE_INDEX_ENTRY_NAME :: string where
  "ZSTD_CHUNKED_TREE_INDEX_ENTRY_NAME = ''zstd-chunked-tree-index''"
definition PACK_FORMAT_ZSTD_CHUNKED_V1 :: string where
  "PACK_FORMAT_ZSTD_CHUNKED_V1 = ''ait-pack-v3-zstd-chunked''"
definition ZSTD_CHUNKED_DEFAULT_CHUNK_BYTES :: nat where
  "ZSTD_CHUNKED_DEFAULT_CHUNK_BYTES = 8 * 1024 * 1024"

section \<open>Validating an index\<close>

fun validate_chunks :: "nat option \<Rightarrow> nat \<Rightarrow> ZstdChunkedChunkIndex list \<Rightarrow> unit archive_result" where
  "validate_chunks data_end expected [] = Inr ()"
| "validate_chunks data_end expected (chunk # rest) =
     (if chunk_ordinal chunk \<noteq> expected then Inl NonSequentialChunk
      else res_bind
        (case data_end of
           None \<Rightarrow> Inr ()
         | Some data_end \<Rightarrow>
             let chunk_end = compressed_offset chunk + compressed_len chunk in
             if \<not> chunk_end < 2 ^ 64 then Inl ChunkRangeOverflow
             else if chunk_end > data_end then Inl ChunkExceedsData else Inr ())
        (\<lambda>_. validate_chunks data_end (Suc expected) rest))"

definition validate_member_kind ::
    "u8 \<Rightarrow> string list \<Rightarrow> ZstdChunkedMemberIndex \<Rightarrow> string list archive_result" where
  "validate_member_kind kind content_ids member =
     (if kind = ZSTD_CHUNKED_INDEX_KIND_OBJECT then
        if entry_count member \<noteq> None then Inl ObjectMemberHasEntryCount
        else if entry_type member = ''delta'' \<and> base_content_id member = None then Inl DeltaMemberMissingBase
        else Inr content_ids
      else if kind = ZSTD_CHUNKED_INDEX_KIND_TREE then
        if content_id member \<in> set content_ids then Inl DuplicateTreeId
        else if entry_count member = None then Inl TreeMissingEntryCount
        else Inr (content_id member # content_ids)
      else Inr content_ids)"

fun validate_members ::
    "u8 \<Rightarrow> ZstdChunkedChunkIndex list \<Rightarrow> nat \<Rightarrow> string list \<Rightarrow> string list \<Rightarrow> nat list \<Rightarrow>
     ZstdChunkedMemberIndex list \<Rightarrow> unit archive_result" where
  "validate_members kind cs expected entry_names content_ids ordinals [] = Inr ()"
| "validate_members kind cs expected entry_names content_ids ordinals (member # rest) =
     (if member_ordinal member \<noteq> expected then Inl NonSequentialMember
      else if entry_name member \<in> set entry_names then Inl DuplicateEntryName
      else if member_ordinal member \<in> set ordinals then Inl DuplicateMemberOrdinal
      else if \<not> member_chunk_ordinal member < length cs then Inl MissingChunk
      else if \<not> in_chunk_offset member + stored_len member < 2 ^ 64 then Inl MemberRangeOverflow
      else if in_chunk_offset member + stored_len member > raw_len (cs ! member_chunk_ordinal member)
      then Inl MemberExceedsChunk
      else res_bind (validate_member_kind kind content_ids member) (\<lambda>content_ids.
        validate_members kind cs (Suc expected) (entry_name member # entry_names) content_ids
          (member_ordinal member # ordinals) rest))"

definition validate_zstd_chunked_index ::
    "ZstdChunkedPackIndex \<Rightarrow> u8 \<Rightarrow> string \<Rightarrow> nat option \<Rightarrow> unit archive_result" where
  "validate_zstd_chunked_index idx kind expected_pack_format data_end =
     (if pack_format idx \<noteq> expected_pack_format then Inl UnsupportedPackFormat
      else if kind = ZSTD_CHUNKED_INDEX_KIND_OBJECT \<and> index_entry_name idx \<noteq> ZSTD_CHUNKED_OBJECT_INDEX_ENTRY_NAME
      then Inl IncorrectIndexEntryName
      else if kind = ZSTD_CHUNKED_INDEX_KIND_TREE \<and> index_entry_name idx \<noteq> ZSTD_CHUNKED_TREE_INDEX_ENTRY_NAME
      then Inl IncorrectIndexEntryName
      else res_bind (validate_chunks data_end 0 (index_chunks idx)) (\<lambda>_.
        validate_members kind (index_chunks idx) 0 [] [] [] (index_members idx)))"

section \<open>Writing a container\<close>

record ZstdChunkedMemberInput =
  inp_ordinal :: nat
  inp_entry_name :: string
  inp_content_id :: string
  inp_entry_type :: string
  inp_entry_count :: "nat option"
  inp_base_content_id :: "string option"
  inp_delta_algorithm :: "string option"
  inp_chain_depth :: nat
  inp_data :: bytes
  inp_logical_len :: nat
  inp_checksum :: string

definition index_member :: "ZstdChunkedMemberInput \<Rightarrow> nat \<Rightarrow> nat \<Rightarrow> ZstdChunkedMemberIndex" where
  "index_member m chunk_no offset =
     \<lparr>member_ordinal = inp_ordinal m, entry_name = inp_entry_name m, content_id = inp_content_id m,
      entry_type = inp_entry_type m, entry_count = inp_entry_count m, base_content_id = inp_base_content_id m,
      delta_algorithm = inp_delta_algorithm m, chain_depth = inp_chain_depth m, member_chunk_ordinal = chunk_no,
      in_chunk_offset = offset, stored_len = length (inp_data m), logical_len = inp_logical_len m,
      member_checksum = inp_checksum m\<rparr>"

fun collect_group ::
    "ZstdChunkedMemberInput list \<Rightarrow> nat \<Rightarrow> nat list \<Rightarrow> bytes \<Rightarrow> ZstdChunkedMemberIndex list \<times> bytes" where
  "collect_group members chunk_no [] raw = ([], raw)"
| "collect_group members chunk_no (ordinal # grp) raw =
     (let m = members ! ordinal;
          (entries, raw') = collect_group members chunk_no grp (raw @ inp_data m)
      in (index_member m chunk_no (length raw) # entries, raw'))"

definition write_zstd_chunked_raw_chunk ::
    "pack_env \<Rightarrow> nat \<Rightarrow> nat \<Rightarrow> bytes \<Rightarrow> (ZstdChunkedChunkIndex \<times> bytes) archive_result" where
  "write_zstd_chunked_raw_chunk env position ordinal raw =
     (case compress env raw of
        None \<Rightarrow> Inl CompressFailed
      | Some c \<Rightarrow>
          Inr (\<lparr>chunk_ordinal = ordinal, compressed_offset = position, compressed_len = length c,
                raw_len = length raw, chunk_checksum = sha256_hex env raw\<rparr>, c))"

fun write_groups ::
    "pack_env \<Rightarrow> ZstdChunkedMemberInput list \<Rightarrow> nat list list \<Rightarrow> ZstdChunkedChunkIndex list \<Rightarrow>
     ZstdChunkedMemberIndex list \<Rightarrow> bytes \<Rightarrow>
     (ZstdChunkedChunkIndex list \<times> ZstdChunkedMemberIndex list \<times> bytes) archive_result" where
  "write_groups env members [] cs indexed file = Inr (cs, indexed, file)"
| "write_groups env members (grp # groups) cs indexed file =
     (let (entries, raw) = collect_group members (length cs) grp []
      in res_bind (write_zstd_chunked_raw_chunk env (length file) (length cs) raw) (\<lambda>(chunk, c).
           write_groups env members groups (cs @ [chunk]) (indexed @ entries) (file @ c)))"

definition write_zstd_chunked_container_with_layout ::
    "pack_env \<Rightarrow> u8 \<Rightarrow> string \<Rightarrow> string \<Rightarrow> string \<Rightarrow> string \<Rightarrow> ZstdChunkedMemberInput list \<Rightarrow> nat \<Rightarrow>
     ObjectPackChunkLayout option \<Rightarrow> (bytes \<times> ZstdChunkedPackIndex) archive_result" where
  "write_zstd_chunked_container_with_layout env kind fmt index_name pid created members chunk_bytes layout =
     res_bind (map_error LayoutError
       (case layout of Some l \<Rightarrow> Inr l
        | None \<Rightarrow> new_layout (map (length \<circ> inp_data) members) None chunk_bytes)) (\<lambda>plan.
     res_bind (map_error LayoutError (validate_layout plan (length members))) (\<lambda>_.
     res_bind (write_groups env members (chunks plan) [] [] []) (\<lambda>(cs, indexed, file).
     let idx = \<lparr>pack_format = fmt, pack_id = pid, created_at = created, index_entry_name = index_name,
                index_chunks = cs, index_members = sort_key member_ordinal indexed\<rparr> in
     res_bind (validate_zstd_chunked_index idx kind fmt None) (\<lambda>_.
     res_bind (map_error IndexError (encode_zstd_chunked_index idx kind)) (\<lambda>index_bytes.
       Inr (file @ index_bytes @ encode_zstd_chunked_trailer (sha256 env) (length file) index_bytes, idx))))))"

definition write_zstd_chunked_container ::
    "pack_env \<Rightarrow> u8 \<Rightarrow> string \<Rightarrow> string \<Rightarrow> string \<Rightarrow> string \<Rightarrow> ZstdChunkedMemberInput list \<Rightarrow> nat \<Rightarrow>
     (bytes \<times> ZstdChunkedPackIndex) archive_result" where
  "write_zstd_chunked_container env kind fmt index_name pid created members chunk_bytes =
     write_zstd_chunked_container_with_layout env kind fmt index_name pid created members chunk_bytes None"

section \<open>Reading a container\<close>

definition read_zstd_chunked_container_index_from_bytes ::
    "pack_env \<Rightarrow> bytes \<Rightarrow> u8 \<Rightarrow> string \<Rightarrow> ZstdChunkedPackIndex archive_result" where
  "read_zstd_chunked_container_index_from_bytes env pack kind expected_pack_format =
     (if length pack < ZSTD_CHUNKED_TRAILER_LEN then Inl TruncatedTrailer
      else let data_end = length pack - ZSTD_CHUNKED_TRAILER_LEN in
      res_bind (map_error IndexError (decode_zstd_chunked_trailer (drop data_end pack)))
        (\<lambda>(index_offset, index_len, expected_checksum).
      if \<not> index_offset + index_len < 2 ^ 64 then Inl IndexRangeOverflow
      else if index_offset + index_len > data_end then Inl IndexRangeExceeds
      else let index_bytes = take index_len (drop index_offset pack) in
      if sha256 env index_bytes \<noteq> expected_checksum then Inl IndexChecksumMismatch
      else res_bind (map_error IndexError (decode_zstd_chunked_index index_bytes kind)) (\<lambda>idx.
           res_bind (validate_zstd_chunked_index idx kind expected_pack_format (Some index_offset)) (\<lambda>_.
             Inr idx))))"

text \<open>Reading exactly no bytes succeeds at every offset.\<close>

definition read_file_range :: "bytes \<Rightarrow> nat \<Rightarrow> nat \<Rightarrow> bytes archive_result" where
  "read_file_range pack offset len =
     (if len > 0 \<and> offset + len > length pack then Inl FileRange else Inr (take len (drop offset pack)))"

text \<open>The reader of files seeks to the trailer and to the index instead of slicing the bytes.\<close>

definition read_zstd_chunked_container_index ::
    "pack_env \<Rightarrow> bytes \<Rightarrow> u8 \<Rightarrow> string \<Rightarrow> ZstdChunkedPackIndex archive_result" where
  "read_zstd_chunked_container_index env pack kind expected_pack_format =
     (let file_len = length pack in
      if file_len < ZSTD_CHUNKED_TRAILER_LEN then Inl TruncatedTrailer
      else res_bind (read_file_range pack (file_len - ZSTD_CHUNKED_TRAILER_LEN) ZSTD_CHUNKED_TRAILER_LEN) (\<lambda>trailer.
      res_bind (map_error IndexError (decode_zstd_chunked_trailer trailer)) (\<lambda>(index_offset, index_len, expected_checksum).
      let data_end = file_len - ZSTD_CHUNKED_TRAILER_LEN in
      if \<not> index_offset + index_len < 2 ^ 64 then Inl IndexRangeOverflow
      else if index_offset + index_len > data_end then Inl IndexRangeExceeds
      else res_bind (read_file_range pack index_offset index_len) (\<lambda>index_bytes.
      if sha256 env index_bytes \<noteq> expected_checksum then Inl IndexChecksumMismatch
      else res_bind (map_error IndexError (decode_zstd_chunked_index index_bytes kind)) (\<lambda>idx.
           res_bind (validate_zstd_chunked_index idx kind expected_pack_format (Some index_offset)) (\<lambda>_.
             Inr idx))))))"

lemma read_zstd_chunked_container_index_bytes [simp]:
  "read_zstd_chunked_container_index env pack kind fmt = read_zstd_chunked_container_index_from_bytes env pack kind fmt"
proof (cases "length pack < ZSTD_CHUNKED_TRAILER_LEN")
  case False
  then show ?thesis
    by (auto simp: read_zstd_chunked_container_index_def read_zstd_chunked_container_index_from_bytes_def read_file_range_def
        Let_def res_bind_def split: sum.split)
qed (simp add: read_zstd_chunked_container_index_def read_zstd_chunked_container_index_from_bytes_def)

definition zstd_chunked_container_index_checksum :: "pack_env \<Rightarrow> bytes \<Rightarrow> u8 \<Rightarrow> string \<Rightarrow> string archive_result" where
  "zstd_chunked_container_index_checksum env pack kind expected_pack_format =
     res_bind (read_zstd_chunked_container_index env pack kind expected_pack_format) (\<lambda>idx.
     res_bind (map_error IndexError (encode_zstd_chunked_index idx kind)) (\<lambda>index_bytes.
       Inr (sha256_hex env index_bytes)))"

definition read_zstd_chunked_raw_chunk :: "pack_env \<Rightarrow> bytes \<Rightarrow> ZstdChunkedChunkIndex \<Rightarrow> bytes archive_result" where
  "read_zstd_chunked_raw_chunk env pack chunk =
     res_bind (read_file_range pack (compressed_offset chunk) (compressed_len chunk)) (\<lambda>c.
       case decompress env c (raw_len chunk) of
         None \<Rightarrow> Inl DecompressFailed
       | Some raw \<Rightarrow>
           if length raw \<noteq> raw_len chunk then Inl RawChunkSizeMismatch
           else if sha256_hex env raw \<noteq> chunk_checksum chunk then Inl ChunkChecksumMismatch
           else Inr raw)"

definition member_window :: "ZstdChunkedMemberIndex \<Rightarrow> bytes \<Rightarrow> bytes archive_result" where
  "member_window member raw =
     (let member_end = in_chunk_offset member + stored_len member in
      if \<not> member_end < 2 ^ 64 then Inl MemberRangeOverflow
      else if member_end > length raw then Inl MemberExceedsChunk
      else Inr (take (stored_len member) (drop (in_chunk_offset member) raw)))"

definition chunk_of_member :: "ZstdChunkedPackIndex \<Rightarrow> ZstdChunkedMemberIndex \<Rightarrow> ZstdChunkedChunkIndex archive_result" where
  "chunk_of_member idx member =
     (if member_chunk_ordinal member < length (index_chunks idx)
      then Inr (index_chunks idx ! member_chunk_ordinal member) else Inl MissingChunk)"

definition read_zstd_chunked_member_stored_bytes ::
    "pack_env \<Rightarrow> bytes \<Rightarrow> ZstdChunkedPackIndex \<Rightarrow> ZstdChunkedMemberIndex \<Rightarrow> bytes archive_result" where
  "read_zstd_chunked_member_stored_bytes env pack idx member =
     res_bind (chunk_of_member idx member) (\<lambda>chunk.
     res_bind (read_zstd_chunked_raw_chunk env pack chunk) (member_window member))"

type_synonym chunk_cache = "nat \<rightharpoonup> bytes"

definition read_zstd_chunked_member_stored_bytes_with_chunk_cache ::
    "pack_env \<Rightarrow> bytes \<Rightarrow> ZstdChunkedPackIndex \<Rightarrow> ZstdChunkedMemberIndex \<Rightarrow> chunk_cache \<Rightarrow>
     bytes archive_result \<times> chunk_cache" where
  "read_zstd_chunked_member_stored_bytes_with_chunk_cache env pack idx member cache =
     (case chunk_of_member idx member of
        Inl e \<Rightarrow> (Inl e, cache)
      | Inr chunk \<Rightarrow>
          (case cache (member_chunk_ordinal member) of
             Some raw \<Rightarrow> (member_window member raw, cache)
           | None \<Rightarrow>
               (case read_zstd_chunked_raw_chunk env pack chunk of
                  Inl e \<Rightarrow> (Inl e, cache)
                | Inr raw \<Rightarrow> (member_window member raw, cache(member_chunk_ordinal member \<mapsto> raw)))))"

fun validate_chunk_bytes :: "pack_env \<Rightarrow> bytes \<Rightarrow> ZstdChunkedChunkIndex list \<Rightarrow> unit archive_result" where
  "validate_chunk_bytes env pack [] = Inr ()"
| "validate_chunk_bytes env pack (c # cs) =
     res_bind (read_zstd_chunked_raw_chunk env pack c) (\<lambda>_. validate_chunk_bytes env pack cs)"

definition validate_zstd_chunked_container_chunks :: "pack_env \<Rightarrow> bytes \<Rightarrow> u8 \<Rightarrow> string \<Rightarrow> unit archive_result" where
  "validate_zstd_chunked_container_chunks env pack kind expected_pack_format =
     res_bind (read_zstd_chunked_container_index env pack kind expected_pack_format) (\<lambda>idx.
       validate_chunk_bytes env pack (index_chunks idx))"

section \<open>Object entries\<close>

text \<open>
  Reading an entry resolves its chain of deltas; the set of visited blobs and the depth bound the
  recursion, and the raw chunks already decompressed are cached across it.
\<close>

definition entry_identity :: "string \<Rightarrow> ZstdChunkedMemberIndex \<Rightarrow> string" where
  "entry_identity name member = (if content_id member = [] then name else content_id member)"

definition blob_entry_name :: "string \<Rightarrow> string" where
  "blob_entry_name blob_id = ''blobs/'' @ blob_id"

lemma blob_entry_name_inject [simp]: "blob_entry_name a = blob_entry_name b \<longleftrightarrow> a = b"
  by (simp add: blob_entry_name_def)

definition check_entry :: "pack_env \<Rightarrow> ZstdChunkedMemberIndex \<Rightarrow> bytes \<Rightarrow> bytes archive_result" where
  "check_entry env member data =
     (if sha256_hex env data \<noteq> member_checksum member then Inl EntryChecksumMismatch
      else if length data \<noteq> logical_len member then Inl EntrySizeMismatch
      else Inr data)"

definition resolve_delta :: "pack_env \<Rightarrow> ZstdChunkedMemberIndex \<Rightarrow> bytes \<Rightarrow> bytes \<Rightarrow> bytes archive_result" where
  "resolve_delta env member base_data data =
     (case delta_algorithm member of
        None \<Rightarrow> Inl InvalidDeltaAlgorithm
      | Some algorithm \<Rightarrow>
          res_bind (map_error DeltaError (apply_pack_delta base_data data algorithm)) (check_entry env member))"

function read_object_entry ::
    "pack_env \<Rightarrow> bytes \<Rightarrow> ZstdChunkedPackIndex \<Rightarrow> (string \<rightharpoonup> bytes) option \<Rightarrow> nat \<Rightarrow> string list \<Rightarrow> nat \<Rightarrow>
     string \<Rightarrow> chunk_cache \<Rightarrow> bytes archive_result \<times> chunk_cache" where
  "read_object_entry env pack idx bases max_chain_depth visited depth name cache =
     (if depth > max_chain_depth then (Inl ChainDepthExceeded, cache)
      else case find (\<lambda>e. entry_name e = name) (index_members idx) of
        None \<Rightarrow> (Inl MissingPackEntry, cache)
      | Some member \<Rightarrow>
          if chain_depth member > max_chain_depth then (Inl ChainDepthExceeded, cache)
          else (case read_zstd_chunked_member_stored_bytes_with_chunk_cache env pack idx member cache of
            (Inl e, cache) \<Rightarrow> (Inl e, cache)
          | (Inr data, cache) \<Rightarrow>
              if entry_type member = ''full'' then (check_entry env member data, cache)
              else if entry_type member \<noteq> ''delta'' then (Inl UnsupportedEntryType, cache)
              else (case base_content_id member of
                None \<Rightarrow> (Inl InvalidDeltaBase, cache)
              | Some base_blob_id \<Rightarrow>
                  let identity = entry_identity name member in
                  if identity \<in> set visited then (Inl CyclicDeltaChain, cache)
                  else let base_entry_name = blob_entry_name base_blob_id in
                    if \<exists>e \<in> set (index_members idx). entry_name e = base_entry_name then
                      (case read_object_entry env pack idx bases max_chain_depth (identity # visited) (depth + 1)
                              base_entry_name cache of
                         (Inl e, cache) \<Rightarrow> (Inl e, cache)
                       | (Inr base_data, cache) \<Rightarrow> (resolve_delta env member base_data data, cache))
                    else (case Option.bind bases (\<lambda>m. m base_blob_id) of
                      None \<Rightarrow> (Inl MissingBaseResolver, cache)
                    | Some base_data \<Rightarrow> (resolve_delta env member base_data data, cache)))))"
  by pat_completeness auto
termination
  by (relation "measure (\<lambda>(env, pack, idx, bases, max_chain_depth, visited, depth, name, cache). Suc max_chain_depth - depth)")
    auto

declare read_object_entry.simps [simp del]

definition read_pack_entry ::
    "pack_env \<Rightarrow> bytes \<Rightarrow> string \<Rightarrow> (string \<rightharpoonup> bytes) option \<Rightarrow> nat \<Rightarrow> bytes archive_result" where
  "read_pack_entry env pack name bases max_chain_depth =
     res_bind (read_zstd_chunked_container_index env pack ZSTD_CHUNKED_INDEX_KIND_OBJECT
                 PACK_FORMAT_ZSTD_CHUNKED_V1) (\<lambda>idx.
       fst (read_object_entry env pack idx bases max_chain_depth [] 0 name Map.empty))"

section \<open>Typed object packs\<close>

definition layout_for_members :: "ObjectPackWriteMember list \<Rightarrow> string list option \<Rightarrow> layout_error + ObjectPackChunkLayout" where
  "layout_for_members members priority_ids =
     new_layout (map (length \<circ> wm_data) members)
       (map_option (\<lambda>ids. map (\<lambda>m. wm_blob_id m \<in> set ids) members) priority_ids) ZSTD_CHUNKED_DEFAULT_CHUNK_BYTES"

definition member_consistent :: "ObjectPackWriteMember \<Rightarrow> bool" where
  "member_consistent m \<longleftrightarrow>
     wm_entry_type m = ''full'' \<and> wm_base_blob_id m = None \<and> wm_chain_depth m = 0 \<and>
       wm_delta_algorithm m = None \<and> logical_of m = wm_data m \<or>
     wm_entry_type m = ''delta'' \<and> wm_base_blob_id m \<noteq> None \<and> wm_chain_depth m > 0 \<and>
       wm_delta_algorithm m = Some PACK_DELTA_GIT_BINARY_V1 \<and> wm_logical_data m \<noteq> None"

definition member_input :: "pack_env \<Rightarrow> nat \<Rightarrow> ObjectPackWriteMember \<Rightarrow> ZstdChunkedMemberInput" where
  "member_input env ordinal m =
     \<lparr>inp_ordinal = ordinal, inp_entry_name = wm_entry_name m, inp_content_id = wm_blob_id m,
      inp_entry_type = wm_entry_type m, inp_entry_count = None, inp_base_content_id = wm_base_blob_id m,
      inp_delta_algorithm = wm_delta_algorithm m, inp_chain_depth = wm_chain_depth m, inp_data = wm_data m,
      inp_logical_len = length (logical_of m), inp_checksum = sha256_hex env (logical_of m)\<rparr>"

fun member_inputs ::
    "pack_env \<Rightarrow> nat \<Rightarrow> string list \<Rightarrow> string list \<Rightarrow> ObjectPackWriteMember list \<Rightarrow>
     ZstdChunkedMemberInput list archive_result" where
  "member_inputs env ordinal names ids [] = Inr []"
| "member_inputs env ordinal names ids (m # ms) =
     (if wm_entry_name m \<noteq> blob_entry_name (wm_blob_id m) \<or> wm_entry_name m \<in> set names \<or> wm_blob_id m \<in> set ids
      then Inl NoncanonicalIdentity
      else if \<not> member_consistent m then Inl InconsistentMetadata
      else res_bind (member_inputs env (Suc ordinal) (wm_entry_name m # names) (wm_blob_id m # ids) ms) (\<lambda>inputs.
        Inr (member_input env ordinal m # inputs)))"

definition write_typed_pack_archive_with_layout ::
    "pack_env \<Rightarrow> string \<Rightarrow> string \<Rightarrow> ObjectPackWriteMember list \<Rightarrow> string \<Rightarrow> ObjectPackChunkLayout option \<Rightarrow>
     (bytes \<times> ZstdChunkedPackIndex) archive_result" where
  "write_typed_pack_archive_with_layout env pid created members fmt layout =
     (if fmt \<noteq> PACK_FORMAT_ZSTD_CHUNKED_V1 then Inl UnsupportedWriteFormat
      else res_bind (member_inputs env 0 [] [] members) (\<lambda>inputs.
        write_zstd_chunked_container_with_layout env ZSTD_CHUNKED_INDEX_KIND_OBJECT PACK_FORMAT_ZSTD_CHUNKED_V1
          ZSTD_CHUNKED_OBJECT_INDEX_ENTRY_NAME pid created inputs ZSTD_CHUNKED_DEFAULT_CHUNK_BYTES layout))"

definition CONTENT_ADDRESSED_PACK_INDEX_CREATED_AT :: string where
  "CONTENT_ADDRESSED_PACK_INDEX_CREATED_AT = ''1970-01-01T00:00:00Z''"

text \<open>
  The size estimate of the storage gate runs the same loop over the groups with all digests zero
  and a pack id of the usual length, and adds up the sizes of what would be written.
\<close>

definition estimated_typed_pack_archive_bytes_with_layout ::
    "pack_env \<Rightarrow> ObjectPackWriteMember list \<Rightarrow> ObjectPackChunkLayout \<Rightarrow> nat archive_result" where
  "estimated_typed_pack_archive_bytes_with_layout env members layout =
     (let env0 = env\<lparr>sha256 := \<lambda>_. replicate 32 0\<rparr>;
          inputs = map (\<lambda>(i, m). member_input env0 i m) (enumerate 0 members)
      in res_bind (map_error LayoutError (validate_layout layout (length members))) (\<lambda>_.
         res_bind (write_groups env0 inputs (chunks layout) [] [] []) (\<lambda>(cs, indexed, file).
         res_bind (map_error IndexError (encode_zstd_chunked_index
             \<lparr>pack_format = PACK_FORMAT_ZSTD_CHUNKED_V1, pack_id = ''PCK-000000000000'',
              created_at = CONTENT_ADDRESSED_PACK_INDEX_CREATED_AT,
              index_entry_name = ZSTD_CHUNKED_OBJECT_INDEX_ENTRY_NAME, index_chunks = cs,
              index_members = sort_key member_ordinal indexed\<rparr> ZSTD_CHUNKED_INDEX_KIND_OBJECT)) (\<lambda>index_bytes.
           Inr (length file + length index_bytes + ZSTD_CHUNKED_TRAILER_LEN)))))"

definition estimated_typed_pack_archive_bytes :: "pack_env \<Rightarrow> ObjectPackWriteMember list \<Rightarrow> nat archive_result" where
  "estimated_typed_pack_archive_bytes env members =
     res_bind (map_error LayoutError (layout_for_members members None))
       (estimated_typed_pack_archive_bytes_with_layout env members)"

definition build_typed_pack_members_with_storage_gate_and_partitions ::
    "pack_env \<Rightarrow> PackCandidate list \<Rightarrow> nat \<Rightarrow> (string \<rightharpoonup> PackCandidate) option \<Rightarrow> string list option \<Rightarrow>
     ObjectPackWriteMember list archive_result" where
  "build_typed_pack_members_with_storage_gate_and_partitions env items max_delta_chain_depth initial_by_path priority_ids =
     storage_gate
       (\<lambda>members. if priority_ids = None then estimated_typed_pack_archive_bytes env members
         else res_bind (map_error LayoutError (layout_for_members members priority_ids))
           (estimated_typed_pack_archive_bytes_with_layout env members))
       items max_delta_chain_depth initial_by_path"

definition build_typed_pack_members_with_storage_gate ::
    "pack_env \<Rightarrow> PackCandidate list \<Rightarrow> nat \<Rightarrow> (string \<rightharpoonup> PackCandidate) option \<Rightarrow> ObjectPackWriteMember list archive_result" where
  "build_typed_pack_members_with_storage_gate env items max_delta_chain_depth initial_by_path =
     build_typed_pack_members_with_storage_gate_and_partitions env items max_delta_chain_depth initial_by_path None"

text \<open>The identity of a pack covers its layout unless that is the canonical one.\<close>

definition LAYOUT_IDENTITY_DOMAIN :: string where
  "LAYOUT_IDENTITY_DOMAIN = [CHR 0x0A] @ ''native-object-pack/chunk-layout/v1'' @ [CHR 0x00]"

definition encode_groups :: "nat list list \<Rightarrow> bytes" where
  "encode_groups groups = to_le_bytes64 (of_nat (length groups)) @
     concat (map (\<lambda>c. to_le_bytes64 (of_nat (length c)) @ concat (map (\<lambda>i. to_le_bytes64 (of_nat i)) c)) groups)"

definition extend_identity_seed :: "ObjectPackChunkLayout \<Rightarrow> ObjectPackWriteMember list \<Rightarrow> bytes \<Rightarrow> bytes" where
  "extend_identity_seed layout members seed =
     (if layout_for_members members None = Inr layout then seed
      else seed @ string_bytes LAYOUT_IDENTITY_DOMAIN @ encode_groups (chunks layout))"

end
