(* ===== verification/Pack_Archive_Laws.thy ===== *)
theory Pack_Archive_Laws
  imports Pack_Archive
begin

text \<open>
  What the container writer leaves in the file and why the readers find it: every chunk of the
  index describes a range of the file that decompresses to the concatenated data of its group, and
  every member of the index describes a window of its chunk.
\<close>

lemma map_error_Inr [simp]: "map_error g r = Inr x \<longleftrightarrow> r = Inr x" "map_error g (Inr x) = Inr x"
  by (cases r) (simp_all add: map_error_def)

section \<open>The writer's invariant\<close>

definition window_of :: "bytes \<Rightarrow> nat \<Rightarrow> bytes \<Rightarrow> bool" where
  "window_of whole off part \<longleftrightarrow> off + length part \<le> length whole \<and> take (length part) (drop off whole) = part"

lemma window_of_append: "window_of whole off part \<Longrightarrow> window_of (whole @ ext) off part"
  by (auto simp: window_of_def)

lemma window_of_end: "window_of (whole @ part @ ext) (length whole) part"
  by (simp add: window_of_def)

definition placed :: "ZstdChunkedMemberInput list \<Rightarrow> bytes list \<Rightarrow> nat \<Rightarrow> ZstdChunkedMemberIndex \<Rightarrow> bool" where
  "placed members raws i e \<longleftrightarrow> (\<exists>k off. e = index_member (members ! i) k off \<and> k < length raws \<and>
     window_of (raws ! k) off (inp_data (members ! i)))"

definition chunk_describes :: "pack_env \<Rightarrow> bytes \<Rightarrow> nat \<Rightarrow> bytes \<Rightarrow> ZstdChunkedChunkIndex \<Rightarrow> bool" where
  "chunk_describes env img k raw chunk \<longleftrightarrow> (\<exists>c off. compress env raw = Some c \<and> window_of img off c \<and>
     chunk = \<lparr>chunk_ordinal = k, compressed_offset = off, compressed_len = length c, raw_len = length raw,
              chunk_checksum = sha256_hex env raw\<rparr>)"

definition archive_inv ::
    "pack_env \<Rightarrow> ZstdChunkedMemberInput list \<Rightarrow> nat list \<Rightarrow> ZstdChunkedChunkIndex list \<Rightarrow>
     ZstdChunkedMemberIndex list \<Rightarrow> bytes \<Rightarrow> bytes list \<Rightarrow> bool" where
  "archive_inv env members seen cs indexed img raws \<longleftrightarrow> length raws = length cs \<and>
     (\<forall>k < length cs. chunk_describes env img k (raws ! k) (cs ! k)) \<and>
     list_all2 (placed members raws) seen indexed"

lemma placed_mono: "placed members raws i e \<Longrightarrow> placed members (raws @ ext) i e"
  unfolding placed_def by (fastforce simp: nth_append)

lemma chunk_describes_mono: "chunk_describes env img k raw c \<Longrightarrow> chunk_describes env (img @ ext) k raw c"
  unfolding chunk_describes_def using window_of_append by blast

lemma collect_group_run:
  "collect_group members k grp raw = (es, raw') \<Longrightarrow>
    (\<exists>ext. raw' = raw @ ext) \<and>
    list_all2 (\<lambda>i e. \<exists>off. e = index_member (members ! i) k off \<and> window_of raw' off (inp_data (members ! i))) grp es"
proof (induction grp arbitrary: raw es)
  case (Cons i grp)
  obtain es' where r: "collect_group members k grp (raw @ inp_data (members ! i)) = (es', raw')"
      "es = index_member (members ! i) k (length raw) # es'"
    using Cons.prems by (auto simp: Let_def split: prod.splits)
  from Cons.IH [OF r(1)] obtain ext where m: "raw' = (raw @ inp_data (members ! i)) @ ext"
    "list_all2 (\<lambda>i e. \<exists>off. e = index_member (members ! i) k off \<and> window_of raw' off (inp_data (members ! i))) grp es'"
    by blast
  have "window_of raw' (length raw) (inp_data (members ! i))" by (simp add: m(1) window_of_end)
  with m r(2) show ?case by auto
qed simp

lemma write_groups_inv:
  "write_groups env members groups cs indexed img = Inr (cs', indexed', img') \<Longrightarrow>
    archive_inv env members seen cs indexed img raws \<Longrightarrow>
    \<exists>raws'. archive_inv env members (seen @ concat groups) cs' indexed' img' raws'"
proof (induction groups arbitrary: cs indexed img seen raws)
  case (Cons grp groups)
  obtain es raw where g: "collect_group members (length cs) grp [] = (es, raw)" by fastforce
  obtain c where c: "compress env raw = Some c"
    using Cons.prems(1) g by (auto simp: write_zstd_chunked_raw_chunk_def Let_def split: option.splits)
  define ch where "ch = \<lparr>chunk_ordinal = length cs, compressed_offset = length img, compressed_len = length c,
      raw_len = length raw, chunk_checksum = sha256_hex env raw\<rparr>"
  have run: "write_groups env members groups (cs @ [ch]) (indexed @ es) (img @ c) = Inr (cs', indexed', img')"
    using Cons.prems(1) g c by (simp add: write_zstd_chunked_raw_chunk_def Let_def ch_def)
  have inv: "length raws = length cs" "\<forall>k < length cs. chunk_describes env img k (raws ! k) (cs ! k)"
      "list_all2 (placed members raws) seen indexed"
    using Cons.prems(2) by (auto simp: archive_inv_def)
  have "chunk_describes env (img @ c) (length cs) raw ch"
    unfolding chunk_describes_def using c window_of_end [of img c "[]"] by (auto simp: ch_def)
  then have chs: "\<forall>k < length (cs @ [ch]). chunk_describes env (img @ c) k ((raws @ [raw]) ! k) ((cs @ [ch]) ! k)"
    using inv(1,2) chunk_describes_mono by (fastforce simp: nth_append less_Suc_eq)
  have "list_all2 (placed members (raws @ [raw])) grp es"
    using collect_group_run [OF g] inv(1)
    by (auto simp: placed_def elim!: list_all2_mono) (metis length_append_singleton lessI nth_append_length)
  then have "list_all2 (placed members (raws @ [raw])) (seen @ grp) (indexed @ es)"
    using list_all2_mono [OF inv(3) placed_mono] by (intro list_all2_appendI)
  with chs inv(1) have "archive_inv env members (seen @ grp) (cs @ [ch]) (indexed @ es) (img @ c) (raws @ [raw])"
    by (simp add: archive_inv_def)
  from Cons.IH [OF run this] show ?case by simp
qed auto

section \<open>Sorting the index\<close>

lemma sorted_index:
  assumes inv: "list_all2 (placed members raws) seen indexed" and seen: "distinct seen" "set seen = {0..<length members}"
    and ord: "\<forall>i < length members. inp_ordinal (members ! i) = i"
  shows "length (sort_key member_ordinal indexed) = length members"
    and "i < length members \<Longrightarrow> placed members raws i (sort_key member_ordinal indexed ! i)"
proof -
  have map_eq: "map member_ordinal indexed = seen"
  proof (rule nth_equalityI)
    show "length (map member_ordinal indexed) = length seen" using list_all2_lengthD [OF inv] by simp
    fix j assume "j < length (map member_ordinal indexed)"
    then have j: "j < length seen" "j < length indexed" using list_all2_lengthD [OF inv] by auto
    then have "seen ! j < length members" using seen(2) nth_mem by fastforce
    moreover have "placed members raws (seen ! j) (indexed ! j)" using list_all2_nthD [OF inv j(1)] .
    ultimately show "map member_ordinal indexed ! j = seen ! j"
      using ord j by (auto simp: placed_def index_member_def)
  qed
  then have "distinct (map member_ordinal indexed)" "set (map member_ordinal indexed) = {0..<length members}"
    using seen by simp_all
  then have ords: "map member_ordinal (sort_key member_ordinal indexed) = [0..<length members]"
    by (intro sorted_distinct_set_unique) (auto simp: distinct_map)
  from arg_cong [OF this, of length] show len: "length (sort_key member_ordinal indexed) = length members" by simp
  assume i: "i < length members"
  define e where "e = sort_key member_ordinal indexed ! i"
  have "member_ordinal e = i"
    using arg_cong [OF ords, of "\<lambda>xs. xs ! i"] i len by (simp add: e_def)
  moreover have "e \<in> set indexed" unfolding e_def using i len by (metis nth_mem set_sort)
  then obtain j where j: "j < length seen" "e = indexed ! j"
    using list_all2_lengthD [OF inv] by (metis in_set_conv_nth)
  moreover have "member_ordinal (indexed ! j) = seen ! j"
    using arg_cong [OF map_eq, of "\<lambda>xs. xs ! j"] j(1) list_all2_lengthD [OF inv] by simp
  ultimately show "placed members raws i e" using list_all2_nthD [OF inv j(1)] by simp
qed

section \<open>Reading back what was written\<close>

definition input_ok :: "ZstdChunkedMemberInput \<Rightarrow> bool" where
  "input_ok m \<longleftrightarrow> utf8_string (inp_entry_name m) \<and> utf8_string (inp_content_id m) \<and> utf8_string (inp_entry_type m) \<and>
     (case inp_entry_count m of None \<Rightarrow> True | Some n \<Rightarrow> n < 2 ^ 64) \<and>
     (case inp_base_content_id m of None \<Rightarrow> True | Some s \<Rightarrow> utf8_string s) \<and>
     (case inp_delta_algorithm m of None \<Rightarrow> True | Some s \<Rightarrow> utf8_string s) \<and>
     inp_logical_len m < 2 ^ 64 \<and> checksum_text (inp_checksum m)"

lemma sha256_hex_text: "pack_env_ok env \<Longrightarrow> checksum_text (sha256_hex env bs)"
  unfolding pack_env_ok_def sha256_hex_def checksum_text_def by blast

lemma chunk_describes_ok:
  assumes "pack_env_ok env" "chunk_describes env img k raw c" "length img < 2 ^ 64" "length raw < 2 ^ 64"
  shows "chunk_ok c"
  using assms by (auto simp: chunk_describes_def chunk_ok_def window_of_def sha256_hex_text)

lemma chunk_describes_within:
  "chunk_describes env img k raw c \<Longrightarrow> compressed_offset c + compressed_len c \<le> length img"
  by (auto simp: chunk_describes_def window_of_def)

lemma placed_ok:
  assumes "placed members raws i e" "input_ok (members ! i)" "\<forall>r \<in> set raws. length r < 2 ^ 64"
  shows "member_ok e"
proof -
  obtain k off where k: "e = index_member (members ! i) k off" "k < length raws" "window_of (raws ! k) off (inp_data (members ! i))"
    using assms(1) by (auto simp: placed_def)
  moreover have "length (raws ! k) < 2 ^ 64" using k(2) assms(3) by simp
  ultimately show ?thesis using assms(2) by (simp add: index_member_def window_of_def input_ok_def member_ok_def)
qed

lemma validate_chunks_within:
  "validate_chunks None k cs = Inr () \<Longrightarrow> \<forall>c \<in> set cs. compressed_offset c + compressed_len c \<le> data_end \<Longrightarrow>
    data_end < 2 ^ 64 \<Longrightarrow> validate_chunks (Some data_end) k cs = Inr ()"
  by (induction cs arbitrary: k) (auto simp: res_bind_Inr Let_def split: if_splits)

lemma read_raw_chunk_describes:
  assumes "pack_env_ok env" "chunk_describes env img k raw c"
  shows "read_zstd_chunked_raw_chunk env (img @ ext) c = Inr raw"
proof -
  obtain z off where z: "compress env raw = Some z" "window_of (img @ ext) off z"
      "c = \<lparr>chunk_ordinal = k, compressed_offset = off, compressed_len = length z, raw_len = length raw,
            chunk_checksum = sha256_hex env raw\<rparr>"
    using assms(2) window_of_append unfolding chunk_describes_def by blast
  moreover have "decompress env z (length raw) = Some raw" using z(1) assms(1) by (simp add: pack_env_ok_def)
  ultimately show ?thesis
    by (simp add: read_zstd_chunked_raw_chunk_def read_file_range_def window_of_def)
qed

text \<open>What a written container is: the image of its chunks, the encoded index and the trailer.\<close>

definition container_of ::
    "pack_env \<Rightarrow> u8 \<Rightarrow> ZstdChunkedMemberInput list \<Rightarrow> bytes \<Rightarrow> ZstdChunkedPackIndex \<Rightarrow> bytes \<Rightarrow> bytes list \<Rightarrow> bytes \<Rightarrow> bool" where
  "container_of env kind members pack idx img raws index_bytes \<longleftrightarrow>
     pack = img @ index_bytes @ encode_zstd_chunked_trailer (sha256 env) (length img) index_bytes \<and>
     encode_zstd_chunked_index idx kind = Inr index_bytes \<and>
     validate_zstd_chunked_index idx kind (pack_format idx) None = Inr () \<and>
     length raws = length (index_chunks idx) \<and>
     (\<forall>k < length (index_chunks idx). chunk_describes env img k (raws ! k) (index_chunks idx ! k)) \<and>
     length (index_members idx) = length members \<and>
     (\<forall>i < length members. placed members raws i (index_members idx ! i))"

lemma written_container:
  assumes w: "write_zstd_chunked_container_with_layout env kind fmt name pid created members chunk_bytes layout = Inr (pack, idx)"
    and ord: "\<forall>i < length members. inp_ordinal (members ! i) = i"
  shows "\<exists>img raws index_bytes. container_of env kind members pack idx img raws index_bytes \<and>
    pack_format idx = fmt \<and> index_entry_name idx = name \<and> pack_id idx = pid \<and> created_at idx = created"
proof -
  obtain plan cs indexed img index_bytes where
    plan: "validate_layout plan (length members) = Inr ()"
      and g: "write_groups env members (chunks plan) [] [] [] = Inr (cs, indexed, img)"
      and idx: "idx = \<lparr>pack_format = fmt, pack_id = pid, created_at = created, index_entry_name = name,
                index_chunks = cs, index_members = sort_key member_ordinal indexed\<rparr>"
      and v: "validate_zstd_chunked_index idx kind fmt None = Inr ()"
      and e: "encode_zstd_chunked_index idx kind = Inr index_bytes"
      and pack: "pack = img @ index_bytes @ encode_zstd_chunked_trailer (sha256 env) (length img) index_bytes"
    using w unfolding write_zstd_chunked_container_with_layout_def
    by (auto simp: res_bind_Inr map_error_Inr Let_def split: prod.splits)
  have "archive_inv env members [] [] [] [] []" by (simp add: archive_inv_def)
  from write_groups_inv [OF g this] obtain raws where
    inv: "archive_inv env members (concat (chunks plan)) cs indexed img raws" by auto
  have "list_all2 (placed members raws) (concat (chunks plan)) indexed" using inv by (simp add: archive_inv_def)
  moreover have "distinct (concat (chunks plan))" "set (concat (chunks plan)) = {0..<length members}"
    using plan by (simp_all add: validate_layout_ok)
  ultimately have "length (index_members idx) = length members"
    "\<forall>i < length members. placed members raws i (index_members idx ! i)"
    using sorted_index [OF _ _ _ ord] by (simp_all add: idx)
  with inv v e pack show ?thesis by (auto simp: container_of_def idx archive_inv_def)
qed

lemma container_index_ok:
  assumes env: "pack_env_ok env" and c: "container_of env kind members pack idx img raws index_bytes"
    and len: "length img < 2 ^ 64" "\<forall>r \<in> set raws. length r < 2 ^ 64" and ok: "\<forall>m \<in> set members. input_ok m"
    and hdr: "utf8_string (pack_format idx)" "utf8_string (pack_id idx)" "utf8_string (created_at idx)" "utf8_string (index_entry_name idx)"
  shows "index_ok idx"
proof -
  have "chunk_ok (index_chunks idx ! k)" if "k < length (index_chunks idx)" for k
    using that c len by (intro chunk_describes_ok [OF env, of img k "raws ! k"]) (auto simp: container_of_def)
  moreover have "member_ok (index_members idx ! i)" if "i < length members" for i
    using that c ok len(2) by (intro placed_ok [of members raws i]) (auto simp: container_of_def)
  ultimately show ?thesis
    using hdr c by (auto simp: index_ok_def container_of_def in_set_conv_nth)
qed

lemma container_reads_back:
  assumes env: "pack_env_ok env" and c: "container_of env kind members pack idx img raws index_bytes"
    and len: "length pack < 2 ^ 64" and ok: "index_ok idx"
  shows "read_zstd_chunked_container_index_from_bytes env pack kind (pack_format idx) = Inr idx"
proof -
  define trailer where "trailer = encode_zstd_chunked_trailer (sha256 env) (length img) index_bytes"
  have pack: "pack = img @ index_bytes @ trailer" using c by (simp add: container_of_def trailer_def)
  have t: "length trailer = ZSTD_CHUNKED_TRAILER_LEN"
    using env by (simp add: trailer_def length_trailer pack_env_ok_def)
  have dt: "decode_zstd_chunked_trailer trailer = Inr (length img, length index_bytes, sha256 env index_bytes)"
    using env len unfolding trailer_def by (intro decode_encode_trailer) (simp_all add: pack pack_env_ok_def)
  have di: "decode_zstd_chunked_index index_bytes kind = Inr idx"
    using c by (intro decode_encode_index ok) (simp add: container_of_def)
  have within: "\<forall>ch \<in> set (index_chunks idx). compressed_offset ch + compressed_len ch \<le> length img"
  proof
    fix ch assume "ch \<in> set (index_chunks idx)"
    then obtain k where "k < length (index_chunks idx)" "ch = index_chunks idx ! k" by (auto simp: in_set_conv_nth)
    then have "chunk_describes env img k (raws ! k) ch" using c by (simp add: container_of_def)
    then show "compressed_offset ch + compressed_len ch \<le> length img" by (rule chunk_describes_within)
  qed
  have "validate_zstd_chunked_index idx kind (pack_format idx) (Some (length img)) = Inr ()"
    using c validate_chunks_within [OF _ within] len
    by (auto simp: container_of_def validate_zstd_chunked_index_def res_bind_Inr pack split: if_splits)
  with t dt di len show ?thesis
    by (simp add: read_zstd_chunked_container_index_from_bytes_def pack map_error_def Let_def)
qed

lemma member_reads_back:
  assumes env: "pack_env_ok env" and c: "container_of env kind members pack idx img raws index_bytes"
    and i: "i < length members" and len: "\<forall>r \<in> set raws. length r < 2 ^ 64"
  shows "read_zstd_chunked_member_stored_bytes env pack idx (index_members idx ! i) = Inr (inp_data (members ! i))"
proof -
  obtain k off where k: "index_members idx ! i = index_member (members ! i) k off" "k < length raws"
      "window_of (raws ! k) off (inp_data (members ! i))"
    using c i unfolding container_of_def placed_def by blast
  moreover have "read_zstd_chunked_raw_chunk env pack (index_chunks idx ! k) = Inr (raws ! k)"
    using c k(2) unfolding container_of_def by (auto intro!: read_raw_chunk_describes [OF env])
  moreover have "k < length (index_chunks idx)" using c k(2) by (simp add: container_of_def)
  moreover have "length (raws ! k) < 2 ^ 64" using k(2) len by simp
  ultimately show ?thesis
    by (simp add: read_zstd_chunked_member_stored_bytes_def chunk_of_member_def index_member_def member_window_def window_of_def Let_def)
qed

end
