(* ===== verification/Pack_Entry_Laws.thy ===== *)
theory Pack_Entry_Laws
  imports Pack_Archive_Laws
begin

text \<open>
  Reading one entry of an object pack.  The reader of \<open>object_pack.rs\<close> keeps the chunks it has
  decompressed in a cache while it resolves a chain of deltas; the first part shows that it returns
  what a reader without a cache returns, on every file.  The second part shows that on a pack
  written from the selected members every entry restores the data of its candidate.
\<close>

section \<open>The chunk cache is transparent\<close>

definition cache_ok :: "pack_env \<Rightarrow> bytes \<Rightarrow> ZstdChunkedPackIndex \<Rightarrow> chunk_cache \<Rightarrow> bool" where
  "cache_ok env pack idx cache \<longleftrightarrow> (\<forall>k raw. cache k = Some raw \<longrightarrow> k < length (index_chunks idx) \<longrightarrow>
     read_zstd_chunked_raw_chunk env pack (index_chunks idx ! k) = Inr raw)"

lemma cache_ok_empty [simp]: "cache_ok env pack idx Map.empty"
  by (simp add: cache_ok_def)

lemma cached_member_read:
  assumes "cache_ok env pack idx cache"
    and "read_zstd_chunked_member_stored_bytes_with_chunk_cache env pack idx member cache = (r, cache')"
  shows "r = read_zstd_chunked_member_stored_bytes env pack idx member" and "cache_ok env pack idx cache'"
  using assms
  by (auto simp: read_zstd_chunked_member_stored_bytes_with_chunk_cache_def read_zstd_chunked_member_stored_bytes_def
      chunk_of_member_def cache_ok_def res_bind_def split: if_splits option.splits sum.splits)

text \<open>The reference reader: the same resolution of delta chains, every chunk read afresh.\<close>

fun read_entry_uncached ::
    "pack_env \<Rightarrow> bytes \<Rightarrow> ZstdChunkedPackIndex \<Rightarrow> (string \<rightharpoonup> bytes) option \<Rightarrow> nat \<Rightarrow> string list \<Rightarrow> nat \<Rightarrow>
     string \<Rightarrow> bytes archive_result" where
  "read_entry_uncached env pack idx bases max_depth visited budget name =
     (case find (\<lambda>e. entry_name e = name) (index_members idx) of
        None \<Rightarrow> Inl MissingPackEntry
      | Some member \<Rightarrow>
          if chain_depth member > max_depth then Inl ChainDepthExceeded
          else res_bind (read_zstd_chunked_member_stored_bytes env pack idx member) (\<lambda>data.
            if entry_type member = ''full'' then check_entry env member data
            else if entry_type member \<noteq> ''delta'' then Inl UnsupportedEntryType
            else (case base_content_id member of
                None \<Rightarrow> Inl InvalidDeltaBase
              | Some base_id \<Rightarrow>
                  if entry_identity name member \<in> set visited then Inl CyclicDeltaChain
                  else if \<exists>e \<in> set (index_members idx). entry_name e = blob_entry_name base_id then
                    (case budget of
                       0 \<Rightarrow> Inl ChainDepthExceeded
                     | Suc budget \<Rightarrow>
                        res_bind (read_entry_uncached env pack idx bases max_depth (entry_identity name member # visited)
                          budget (blob_entry_name base_id)) (\<lambda>base_data. resolve_delta env member base_data data))
                  else (case Option.bind bases (\<lambda>m. m base_id) of
                      None \<Rightarrow> Inl MissingBaseResolver
                    | Some base_data \<Rightarrow> resolve_delta env member base_data data))))"

declare read_entry_uncached.simps [simp del]

lemma cached_entry_read:
  "cache_ok env pack idx cache \<Longrightarrow> depth \<le> max_depth \<Longrightarrow>
    read_object_entry env pack idx bases max_depth visited depth name cache = (r, cache') \<Longrightarrow>
    r = read_entry_uncached env pack idx bases max_depth visited (max_depth - depth) name \<and> cache_ok env pack idx cache'"
proof (induction "max_depth - depth" arbitrary: depth visited name cache r cache' rule: less_induct)
  case less
  note run = less.prems(3)
  show ?case
  proof (cases "find (\<lambda>e. entry_name e = name) (index_members idx)")
    case None
    then show ?thesis using less.prems by (simp add: read_object_entry.simps read_entry_uncached.simps)
  next
    case (Some member)
    obtain d c1 where c1: "read_zstd_chunked_member_stored_bytes_with_chunk_cache env pack idx member cache = (d, c1)"
      by fastforce
    note cached = cached_member_read [OF less.prems(1) c1]
    have sub: "r' = (case max_depth - depth of 0 \<Rightarrow> Inl ChainDepthExceeded
          | Suc b \<Rightarrow> read_entry_uncached env pack idx bases max_depth vs b nm) \<and> cache_ok env pack idx c'"
      if "read_object_entry env pack idx bases max_depth vs (Suc depth) nm c1 = (r', c')" for vs nm r' c'
    proof (cases "depth < max_depth")
      case True
      then show ?thesis
        using less.hyps [OF _ cached(2) _ that] by (simp add: Suc_diff_Suc [OF True, symmetric])
    next
      case False
      then show ?thesis using that cached(2) by (simp add: read_object_entry.simps [of _ _ _ _ _ _ "Suc depth"])
    qed
    note unf = read_object_entry.simps [of env pack idx bases max_depth visited depth name cache]
      read_entry_uncached.simps [of env pack idx bases max_depth visited "max_depth - depth" name]
    show ?thesis
    proof (cases "chain_depth member > max_depth")
      case True
      then show ?thesis using less.prems Some by (simp add: unf)
    next
      case shallow: False
      show ?thesis
      proof (cases d)
        case (Inl e)
        have "(Inl e, c1) = (r, cache')" using run Some shallow c1 less.prems(2) by (simp add: unf(1) Inl)
        then have "r = Inl e" "cache' = c1" by auto
        moreover have "read_zstd_chunked_member_stored_bytes env pack idx member = Inl e" using cached(1) Inl by simp
        ultimately show ?thesis using Some shallow cached(2) by (simp add: unf(2))
      next
        case (Inr data)
        note Inr [simp] Some [simp] c1 [simp] cached(1) [symmetric, simp]
        show ?thesis
        proof (cases "entry_type member = ''delta'' \<and> (\<exists>b. base_content_id member = Some b \<and>
            entry_identity name member \<notin> set visited \<and> (\<exists>e \<in> set (index_members idx). entry_name e = blob_entry_name b))")
          case True
          then obtain b e where b: "base_content_id member = Some b" "e \<in> set (index_members idx)" "entry_name e = blob_entry_name b"
              "entry_identity name member \<notin> set visited" "entry_type member = ''delta''" by blast
          obtain r' c' where s: "read_object_entry env pack idx bases max_depth (entry_identity name member # visited) (Suc depth)
                (blob_entry_name b) c1 = (r', c')" by fastforce
          have ex: "(\<exists>e \<in> set (index_members idx). entry_name e = blob_entry_name b) = True" using b(2,3) by blast
          have "read_object_entry env pack idx bases max_depth visited depth name cache =
              (res_bind r' (\<lambda>base_data. resolve_delta env member base_data data), c')"
            using less.prems(2) shallow s b(1,4,5) ex by (subst unf(1)) (simp add: Let_def res_bind_def split: sum.split)
          then have "res_bind r' (\<lambda>base_data. resolve_delta env member base_data data) = r" "c' = cache'"
            using run by simp_all
          moreover have "read_entry_uncached env pack idx bases max_depth visited (max_depth - depth) name =
              res_bind r' (\<lambda>base_data. resolve_delta env member base_data data)"
            using sub [OF s] shallow b(1,4,5) ex by (subst unf(2)) (simp split: nat.splits)
          ultimately show ?thesis using sub [OF s] by simp
        next
          case False
          then show ?thesis
            using less.prems shallow cached(2)
            by (auto simp: unf Let_def split: if_splits option.splits)
        qed
      qed
    qed
  qed
qed

section \<open>Packs of selected members\<close>

definition members_for ::
    "nat \<Rightarrow> (string \<rightharpoonup> PackCandidate) \<Rightarrow> PackCandidate list \<Rightarrow> ObjectPackWriteMember list \<Rightarrow> bool" where
  "members_for max_depth initial items ms \<longleftrightarrow> length ms = length items \<and>
     (\<forall>i < length items. member_for max_depth (known_before initial items ms i) (items ! i) (ms ! i))"

lemma gated_members_for:
  assumes "build_typed_pack_members_with_storage_gate_and_partitions env items max_depth initial priority_ids = Inr ms"
  shows "members_for max_depth (case initial of None \<Rightarrow> Map.empty | Some m \<Rightarrow> m) items ms"
proof -
  have "ms = build_typed_pack_members items max_depth initial \<or> ms = map full_member items"
    using assms
    by (auto simp: build_typed_pack_members_with_storage_gate_and_partitions_def storage_gate_def Let_def res_bind_Inr split: if_splits)
  then show ?thesis
    using build_members_for by (auto simp: members_for_def build_typed_pack_members_def member_for_def [of _ _ _ "full_member _"])
qed

lemma member_for_fields:
  assumes "member_for d known item m"
  shows "wm_entry_name m = cand_entry_name item" "wm_blob_id m = cand_blob_id item" "logical_of m = cand_data item"
    "wm_chain_depth m \<le> d"
  using assms by (auto simp: member_for_def full_member_def logical_of_def)

lemma members_for_ids: "members_for d initial items ms \<Longrightarrow> map wm_blob_id ms = map cand_blob_id items"
  by (rule nth_equalityI) (auto simp: members_for_def member_for_fields(2))

lemma member_inputs_ok:
  "member_inputs env k names ids ms = Inr inputs \<Longrightarrow>
    inputs = map (\<lambda>(i, m). member_input env i m) (enumerate k ms) \<and>
    (\<forall>m \<in> set ms. wm_entry_name m = blob_entry_name (wm_blob_id m)) \<and>
    distinct (map wm_blob_id ms) \<and> set (map wm_blob_id ms) \<inter> set ids = {}"
proof (induction ms arbitrary: k names ids inputs)
  case (Cons m ms)
  then show ?case by (auto simp: res_bind_Inr split: if_splits) fastforce+
qed simp

lemma find_nth_distinct:
  "distinct (map f xs) \<Longrightarrow> i < length xs \<Longrightarrow> find (\<lambda>x. f x = f (xs ! i)) xs = Some (xs ! i)"
  by (induction xs arbitrary: i) (auto simp: nth_Cons distinct_map split: nat.splits)

lemma check_entry_own [simp]:
  "member_checksum e = sha256_hex env data \<Longrightarrow> logical_len e = length data \<Longrightarrow> check_entry env e data = Inr data"
  by (simp add: check_entry_def)

text \<open>A container whose members are the inputs made from \<open>ms\<close>.\<close>

definition pack_of ::
    "pack_env \<Rightarrow> ObjectPackWriteMember list \<Rightarrow> bytes \<Rightarrow> ZstdChunkedPackIndex \<Rightarrow> bool" where
  "pack_of env ms pack idx \<longleftrightarrow> pack_env_ok env \<and> distinct (map wm_blob_id ms) \<and>
     (\<forall>m \<in> set ms. wm_entry_name m = blob_entry_name (wm_blob_id m)) \<and>
     length (index_members idx) = length ms \<and>
     (\<forall>i < length ms. (\<exists>k off. index_members idx ! i = index_member (member_input env i (ms ! i)) k off) \<and>
        read_zstd_chunked_member_stored_bytes env pack idx (index_members idx ! i) = Inr (wm_data (ms ! i)))"

lemma pack_of_entry:
  assumes p: "pack_of env ms pack idx" and i: "i < length ms"
  shows "find (\<lambda>e. entry_name e = blob_entry_name (wm_blob_id (ms ! i))) (index_members idx) = Some (index_members idx ! i)"
    and "entry_name (index_members idx ! i) = blob_entry_name (wm_blob_id (ms ! i))"
proof -
  have name: "entry_name (index_members idx ! j) = blob_entry_name (wm_blob_id (ms ! j))" if "j < length ms" for j
  proof -
    obtain k off where "index_members idx ! j = index_member (member_input env j (ms ! j)) k off"
      using p \<open>j < length ms\<close> by (auto simp: pack_of_def)
    then show ?thesis using p that by (simp add: pack_of_def index_member_def member_input_def)
  qed
  have "map entry_name (index_members idx) = map (\<lambda>m. blob_entry_name (wm_blob_id m)) ms"
    using p name by (intro nth_equalityI) (simp_all add: pack_of_def)
  moreover have "distinct (map (\<lambda>m. blob_entry_name (wm_blob_id m)) ms)"
    using p by (simp add: pack_of_def distinct_map inj_on_def)
  ultimately have "distinct (map entry_name (index_members idx))" by simp
  moreover have "i < length (index_members idx)" using p i by (simp add: pack_of_def)
  ultimately show "find (\<lambda>e. entry_name e = blob_entry_name (wm_blob_id (ms ! i))) (index_members idx) = Some (index_members idx ! i)"
    using find_nth_distinct [of entry_name "index_members idx" i] name [OF i] by simp
  show "entry_name (index_members idx ! i) = blob_entry_name (wm_blob_id (ms ! i))" by (rule name [OF i])
qed

lemma pack_of_has_entry:
  assumes p: "pack_of env ms pack idx"
  shows "(\<exists>e \<in> set (index_members idx). entry_name e = blob_entry_name b) \<longleftrightarrow> b \<in> wm_blob_id ` set ms"
proof -
  have "length (index_members idx) = length ms" using p by (simp add: pack_of_def)
  then show ?thesis using pack_of_entry(2) [OF p] by (fastforce simp: in_set_conv_nth image_iff)
qed

lemma read_selected_entry:
  assumes p: "pack_of env ms pack idx" and sel: "members_for d initial items ms"
    and ids: "\<forall>m \<in> set ms. wm_blob_id m \<noteq> []"
    and old: "\<forall>base \<in> ran initial. cand_blob_id base \<notin> cand_blob_id ` set items \<and>
               (\<exists>bm. bases = Some bm \<and> bm (cand_blob_id base) = Some (cand_data base))"
  shows "i < length items \<Longrightarrow> wm_chain_depth (ms ! i) \<le> budget \<Longrightarrow> d \<le> max_depth \<Longrightarrow>
    \<forall>j \<le> i. cand_blob_id (items ! j) \<notin> set visited \<Longrightarrow>
    read_entry_uncached env pack idx bases max_depth visited budget (blob_entry_name (cand_blob_id (items ! i))) = Inr (cand_data (items ! i))"
proof (induction i arbitrary: budget visited rule: less_induct)
  case (less i)
  define m where "m = ms ! i"
  define e where "e = index_members idx ! i"
  have i: "i < length ms" using sel less.prems(1) by (simp add: members_for_def)
  have mf: "member_for d (known_before initial items ms i) (items ! i) m"
    using sel less.prems(1) by (simp add: members_for_def m_def)
  note mff = member_for_fields [OF mf]
  obtain k off where e: "e = index_member (member_input env i m) k off"
    and stored: "read_zstd_chunked_member_stored_bytes env pack idx e = Inr (wm_data m)"
    using p i by (auto simp: pack_of_def e_def m_def)
  have ef: "chain_depth e = wm_chain_depth m" "entry_type e = wm_entry_type m" "base_content_id e = wm_base_blob_id m"
      "delta_algorithm e = wm_delta_algorithm m" "content_id e = wm_blob_id m"
      "member_checksum e = sha256_hex env (cand_data (items ! i))" "logical_len e = length (cand_data (items ! i))"
    by (simp_all add: e index_member_def member_input_def mff)
  have look: "find (\<lambda>x. entry_name x = blob_entry_name (cand_blob_id (items ! i))) (index_members idx) = Some e"
    using pack_of_entry(1) [OF p i] mff(2) by (simp add: e_def m_def)
  have idm: "entry_identity nm e = cand_blob_id (items ! i)" for nm
    using ids i mff(2) nth_mem [OF i] by (auto simp: entry_identity_def ef m_def)
  have depth: "\<not> chain_depth e > max_depth" using mff(4) less.prems(3) by (simp add: ef)
  note step = read_entry_uncached.simps [of env pack idx bases max_depth visited budget "blob_entry_name (cand_blob_id (items ! i))"]
  from mf consider "m = full_member (items ! i)"
    | base where "known_before initial items ms i base" "wm_entry_type m = ''delta''" "wm_base_blob_id m = Some (cand_blob_id base)"
      "wm_delta_algorithm m = Some PACK_DELTA_GIT_BINARY_V1" "wm_chain_depth m = Suc (cand_chain_depth base)"
      "apply_pack_delta (cand_data base) (wm_data m) PACK_DELTA_GIT_BINARY_V1 = Inr (cand_data (items ! i))"
    by (auto simp: member_for_def)
  then show ?case
  proof cases
    case 1
    then show ?thesis using depth stored ef by (simp add: step look full_member_def)
  next
    case (2 base)
    have fin: "resolve_delta env e (cand_data base) (wm_data m) = Inr (cand_data (items ! i))"
      using 2 by (simp add: resolve_delta_def ef)
    have fresh: "cand_blob_id (items ! i) \<notin> set visited" using less.prems(4) by simp
    have idmap: "map cand_blob_id items = map wm_blob_id ms" using members_for_ids [OF sel] by simp
    then have idset: "wm_blob_id ` set ms = cand_blob_id ` set items" by (metis list.set_map)
    show ?thesis
    proof (cases "base \<in> ran initial")
      case True
      then show ?thesis
        using old 2 depth stored fin fresh idset pack_of_has_entry [OF p, of "cand_blob_id base"]
        by (auto simp: step look ef idm)
    next
      case False
      then obtain j where j: "j < i" "base = (items ! j)\<lparr>path_hint := None, cand_chain_depth := wm_chain_depth (ms ! j)\<rparr>"
        using 2(1) by (auto simp: known_before_def)
      then have jb: "cand_blob_id base = cand_blob_id (items ! j)" "cand_data base = cand_data (items ! j)"
        "cand_chain_depth base = wm_chain_depth (ms ! j)" by simp_all
      obtain b where b: "budget = Suc b" using less.prems(2) 2(5) by (cases budget) (auto simp: m_def)
      have "distinct (map cand_blob_id items)" using p idmap by (simp add: pack_of_def)
      then have "cand_blob_id (items ! i) \<noteq> cand_blob_id (items ! j')" if "j' \<le> j" for j'
        using that j(1) less.prems(1) by (auto simp: distinct_conv_nth)
      then have "\<forall>j' \<le> j. cand_blob_id (items ! j') \<notin> set (cand_blob_id (items ! i) # visited)"
        using less.prems(4) j(1) by force
      then have rec: "read_entry_uncached env pack idx bases max_depth (cand_blob_id (items ! i) # visited) b
          (blob_entry_name (cand_blob_id (items ! j))) = Inr (cand_data (items ! j))"
        using less.IH [OF j(1)] j(1) less.prems(1,2,3) 2(5) b jb(3) by (simp add: m_def)
      have "\<exists>x \<in> set (index_members idx). entry_name x = blob_entry_name (cand_blob_id base)"
        using pack_of_has_entry [OF p] idset jb(1) j(1) less.prems(1) by simp
      then show ?thesis
        using 2 depth stored fin fresh rec jb by (subst step) (simp add: look ef idm b)
    qed
  qed
qed

section \<open>From the writer to the entries\<close>

definition candidate_ok :: "PackCandidate \<Rightarrow> bool" where
  "candidate_ok item \<longleftrightarrow> utf8_string (cand_blob_id item) \<and> utf8_string (cand_entry_name item) \<and> cand_blob_id item \<noteq> [] \<and>
     length (cand_data item) < 2 ^ 64"

lemma literal_utf8 [simp]: "utf8_string ''full''" "utf8_string ''delta''" "utf8_string PACK_DELTA_GIT_BINARY_V1"
    "utf8_string PACK_FORMAT_ZSTD_CHUNKED_V1" "utf8_string ZSTD_CHUNKED_OBJECT_INDEX_ENTRY_NAME"
  by code_simp+

lemma selected_input_ok:
  assumes env: "pack_env_ok env" and m: "member_for d known item m" and item: "candidate_ok item"
    and known: "\<And>base. known base \<Longrightarrow> utf8_string (cand_blob_id base)"
  shows "input_ok (member_input env i m)"
  using m item known
  by (auto simp: member_for_def full_member_def input_ok_def member_input_def candidate_ok_def logical_of_def sha256_hex_text [OF env])

lemma container_raw_lengths:
  assumes c: "container_of env kind members pack idx img raws index_bytes" and len: "\<forall>c \<in> set (index_chunks idx). raw_len c < 2 ^ 64"
  shows "\<forall>r \<in> set raws. length r < 2 ^ 64"
proof
  fix r assume "r \<in> set raws"
  then obtain k where k: "k < length raws" "r = raws ! k" by (auto simp: in_set_conv_nth)
  then have "raw_len (index_chunks idx ! k) = length r" "k < length (index_chunks idx)"
    using c by (auto simp: container_of_def chunk_describes_def)
  then show "length r < 2 ^ 64" using len nth_mem by metis
qed

lemma written_pack_of:
  assumes env: "pack_env_ok env" and w: "write_typed_pack_archive_with_layout env pid created ms fmt layout = Inr (pack, idx)"
    and sel: "members_for d initial items ms" and items: "\<forall>item \<in> set items. candidate_ok item"
    and old: "\<forall>base \<in> ran initial. utf8_string (cand_blob_id base)"
    and hdr: "utf8_string pid" "utf8_string created" and len: "length pack < 2 ^ 64" "\<forall>c \<in> set (index_chunks idx). raw_len c < 2 ^ 64"
  shows "pack_of env ms pack idx \<and>
    read_zstd_chunked_container_index_from_bytes env pack ZSTD_CHUNKED_INDEX_KIND_OBJECT PACK_FORMAT_ZSTD_CHUNKED_V1 = Inr idx"
proof -
  obtain inputs where inp: "member_inputs env 0 [] [] ms = Inr inputs"
    and cw: "write_zstd_chunked_container_with_layout env ZSTD_CHUNKED_INDEX_KIND_OBJECT PACK_FORMAT_ZSTD_CHUNKED_V1
          ZSTD_CHUNKED_OBJECT_INDEX_ENTRY_NAME pid created inputs ZSTD_CHUNKED_DEFAULT_CHUNK_BYTES layout = Inr (pack, idx)"
    using w by (auto simp: write_typed_pack_archive_with_layout_def res_bind_Inr split: if_splits)
  note mi = member_inputs_ok [OF inp]
  have nth: "length inputs = length ms" "i < length ms \<Longrightarrow> inputs ! i = member_input env i (ms ! i)" for i
    using mi by (simp_all add: nth_enumerate_eq)
  have "\<forall>i < length inputs. inp_ordinal (inputs ! i) = i" using nth by (simp add: member_input_def)
  from written_container [OF cw this] obtain img raws index_bytes where
    c: "container_of env ZSTD_CHUNKED_INDEX_KIND_OBJECT inputs pack idx img raws index_bytes"
    and f: "pack_format idx = PACK_FORMAT_ZSTD_CHUNKED_V1" "index_entry_name idx = ZSTD_CHUNKED_OBJECT_INDEX_ENTRY_NAME"
      "pack_id idx = pid" "created_at idx = created" by blast
  note raws = container_raw_lengths [OF c len(2)]
  have known_utf8: "utf8_string (cand_blob_id base)" if "known_before initial items ms i base" "i < length items" for i base
    using that old items nth_mem [of _ items] by (auto simp: known_before_def candidate_ok_def)
  have "input_ok (inputs ! i)" if "i < length inputs" for i
    using that nth sel items known_utf8
    by (auto simp: members_for_def intro!: selected_input_ok [OF env, of d "known_before initial items ms i" "items ! i"])
  then have "\<forall>m \<in> set inputs. input_ok m" by (auto simp: in_set_conv_nth)
  moreover have "length img < 2 ^ 64" using c len(1) by (auto simp: container_of_def)
  ultimately have ok: "index_ok idx" using container_index_ok [OF env c _ raws] hdr f by simp
  have read: "read_zstd_chunked_container_index_from_bytes env pack ZSTD_CHUNKED_INDEX_KIND_OBJECT PACK_FORMAT_ZSTD_CHUNKED_V1 = Inr idx"
    using container_reads_back [OF env c len(1) ok] f by simp
  have "pack_of env ms pack idx"
    unfolding pack_of_def
  proof (intro conjI allI impI)
    show "pack_env_ok env" by fact
    show "distinct (map wm_blob_id ms)" "\<forall>m \<in> set ms. wm_entry_name m = blob_entry_name (wm_blob_id m)" using mi by auto
    show "length (index_members idx) = length ms" using c nth(1) by (simp add: container_of_def)
    fix i assume i: "i < length ms"
    show "\<exists>k off. index_members idx ! i = index_member (member_input env i (ms ! i)) k off"
      using c i nth unfolding container_of_def placed_def by metis
    show "read_zstd_chunked_member_stored_bytes env pack idx (index_members idx ! i) = Inr (wm_data (ms ! i))"
      using member_reads_back [OF env c _ raws, of i] i nth by (simp add: member_input_def)
  qed
  with read show ?thesis by blast
qed

end
