(* ===== verification/Pack_Safety.thy ===== *)
theory Pack_Safety
  imports Pack_Entry_Laws
begin

text \<open>
  What the readers promise about a file nobody vouches for: data that is returned has the digest
  and the length its index entry declares, and once the index and the chunks of a container have
  been validated no member read can fail.
\<close>

section \<open>Returned data is checked data\<close>

lemma check_entry_ok: "check_entry env e data = Inr res \<longleftrightarrow>
    res = data \<and> sha256_hex env data = member_checksum e \<and> length data = logical_len e"
  by (auto simp: check_entry_def)

lemma resolve_delta_ok:
  "resolve_delta env e base data = Inr res \<Longrightarrow> sha256_hex env res = member_checksum e \<and> length res = logical_len e"
  by (auto simp: resolve_delta_def res_bind_Inr check_entry_ok split: option.splits)

lemma read_entry_checked:
  assumes "read_entry_uncached env pack idx bases max_depth visited budget name = Inr data"
  shows "\<exists>e \<in> set (index_members idx). entry_name e = name \<and> chain_depth e \<le> max_depth \<and>
    sha256_hex env data = member_checksum e \<and> length data = logical_len e"
proof -
  note r = assms [unfolded read_entry_uncached.simps [of env pack idx bases max_depth visited budget name]]
  then obtain e where e: "find (\<lambda>e. entry_name e = name) (index_members idx) = Some e" by (auto split: option.splits)
  then have "e \<in> set (index_members idx)" "entry_name e = name" by (auto simp: find_Some_iff)
  moreover have "chain_depth e \<le> max_depth" using r e by (auto split: if_splits)
  moreover have "sha256_hex env data = member_checksum e \<and> length data = logical_len e"
    using r e
    by (auto simp: res_bind_Inr check_entry_ok dest: resolve_delta_ok split: if_splits option.splits nat.splits)
  ultimately show ?thesis by blast
qed

section \<open>Validated containers\<close>

lemma validate_members_in_range:
  "validate_members kind cs k names ids ords ms = Inr () \<Longrightarrow> e \<in> set ms \<Longrightarrow>
    member_chunk_ordinal e < length cs \<and> in_chunk_offset e + stored_len e < 2 ^ 64 \<and>
    in_chunk_offset e + stored_len e \<le> raw_len (cs ! member_chunk_ordinal e)"
  by (induction ms arbitrary: k names ids ords) (auto simp: res_bind_Inr split: if_splits)

lemma validate_members_names:
  "validate_members kind cs k names ids ords ms = Inr () \<Longrightarrow>
    distinct (map entry_name ms) \<and> set (map entry_name ms) \<inter> set names = {} \<and> map member_ordinal ms = [k..<k + length ms]"
proof (induction ms arbitrary: k names ids ords)
  case (Cons m ms)
  then obtain ids' where "validate_members kind cs (Suc k) (entry_name m # names) ids' (member_ordinal m # ords) ms = Inr ()"
      "member_ordinal m = k" "entry_name m \<notin> set names"
    by (auto simp: res_bind_Inr split: if_splits)
  then show ?case using Cons.IH upt_conv_Cons [of k "k + length (m # ms)"] by fastforce
qed simp

lemma validate_chunk_bytes_ok:
  "validate_chunk_bytes env pack cs = Inr () \<longleftrightarrow> (\<forall>c \<in> set cs. \<exists>raw. read_zstd_chunked_raw_chunk env pack c = Inr raw)"
  by (induction cs) (auto simp: res_bind_Inr)

lemma read_raw_chunk_length: "read_zstd_chunked_raw_chunk env pack c = Inr raw \<Longrightarrow> length raw = raw_len c"
  by (auto simp: read_zstd_chunked_raw_chunk_def res_bind_Inr split: option.splits if_splits)

lemma read_index_valid:
  assumes "read_zstd_chunked_container_index_from_bytes env pack kind fmt = Inr idx"
  shows "\<exists>data_end \<le> length pack. validate_zstd_chunked_index idx kind fmt (Some data_end) = Inr ()"
proof -
  obtain off len sum where "validate_zstd_chunked_index idx kind fmt (Some off) = Inr ()"
      "\<not> length pack - ZSTD_CHUNKED_TRAILER_LEN < off + len"
    using assms
    by (auto simp: read_zstd_chunked_container_index_from_bytes_def res_bind_Inr Let_def split: if_splits)
  then show ?thesis by (intro exI [of _ off]) auto
qed

lemma validated_member_read:
  assumes v: "validate_members kind (index_chunks idx) 0 [] [] [] (index_members idx) = Inr ()"
    and c: "validate_chunk_bytes env pack (index_chunks idx) = Inr ()" and e: "e \<in> set (index_members idx)"
  shows "\<exists>data. read_zstd_chunked_member_stored_bytes env pack idx e = Inr data \<and> length data = stored_len e"
proof -
  note range = validate_members_in_range [OF v e]
  then obtain raw where raw: "read_zstd_chunked_raw_chunk env pack (index_chunks idx ! member_chunk_ordinal e) = Inr raw"
    using c unfolding validate_chunk_bytes_ok by (meson nth_mem)
  then have "length raw = raw_len (index_chunks idx ! member_chunk_ordinal e)" by (rule read_raw_chunk_length)
  with range raw show ?thesis
    by (auto simp: read_zstd_chunked_member_stored_bytes_def chunk_of_member_def member_window_def Let_def)
qed

lemma index_checksum_of_stored:
  assumes "read_zstd_chunked_container_index_from_bytes env pack kind fmt = Inr idx"
  shows "\<exists>off len stored. decode_zstd_chunked_trailer (drop (length pack - ZSTD_CHUNKED_TRAILER_LEN) pack) = Inr (off, len, stored) \<and>
    zstd_chunked_container_index_checksum env pack kind fmt = Inr (hex_string stored)"
proof -
  obtain off len stored index_bytes where
    "decode_zstd_chunked_trailer (drop (length pack - ZSTD_CHUNKED_TRAILER_LEN) pack) = Inr (off, len, stored)"
    "sha256 env index_bytes = stored" and d: "decode_zstd_chunked_index index_bytes kind = Inr idx"
    using assms by (auto simp: read_zstd_chunked_container_index_from_bytes_def res_bind_Inr Let_def split: if_splits)
  moreover have "encode_zstd_chunked_index idx kind = Inr index_bytes" using encode_decode_index [OF d] by blast
  ultimately show ?thesis
    using assms by (simp add: zstd_chunked_container_index_checksum_def sha256_hex_def)
qed

end
