(* ===== verification/Pack_Properties.thy ===== *)
theory Pack_Properties
  imports Pack_Safety
begin

text \<open>
  The properties of the pack substrate: deltas, chunk layouts, the container format, and packs as a
  whole.  The witnesses use a compressor that copies and a constant digest.
\<close>

section \<open>Concrete data for the witnesses\<close>

definition copy_env :: pack_env where
  "copy_env = \<lparr>compress = Some, decompress = (\<lambda>c n. Some c), sha256 = (\<lambda>bs. replicate 32 0)\<rparr>"

lemma copy_env_ok: "pack_env_ok copy_env"
  by (simp add: copy_env_def pack_env_ok_def)

definition sample_items :: "PackCandidate list" where
  "sample_items =
     [\<lparr>cand_entry_name = ''blobs/a'', cand_blob_id = ''a'', cand_data = [1, 2, 3], path_hint = Some ''p'', cand_chain_depth = 0\<rparr>,
      \<lparr>cand_entry_name = ''blobs/b'', cand_blob_id = ''b'', cand_data = [1, 2], path_hint = Some ''p'', cand_chain_depth = 0\<rparr>]"

definition sample_members :: "ObjectPackWriteMember list" where
  "sample_members = map full_member sample_items"

lemma sample_members_selected:
  "build_typed_pack_members_with_storage_gate_and_partitions copy_env sample_items DEFAULT_MAX_DELTA_CHAIN_DEPTH None None = Inr sample_members"
  by (simp add: build_typed_pack_members_with_storage_gate_and_partitions_def storage_gate_def build_typed_pack_members_def sample_items_def sample_members_def
      choose_member_def remember_latest_def delta_sized_def MIN_DELTA_BLOB_BYTES_def full_member_def Let_def)

definition sample_inputs :: "ZstdChunkedMemberInput list" where
  "sample_inputs = [member_input copy_env 0 (full_member (sample_items ! 0)), member_input copy_env 1 (full_member (sample_items ! 1))]"

lemma sample_member_inputs: "member_inputs copy_env 0 [] [] sample_members = Inr sample_inputs"
  by (simp add: sample_inputs_def sample_members_def sample_items_def full_member_def blob_entry_name_def member_consistent_def logical_of_def)

definition zero_digest :: string where
  "zero_digest = hex_string (replicate 32 0)"

definition sample_chunk :: ZstdChunkedChunkIndex where
  "sample_chunk = \<lparr>chunk_ordinal = 0, compressed_offset = 0, compressed_len = 5, raw_len = 5, chunk_checksum = zero_digest\<rparr>"

definition sample_index :: ZstdChunkedPackIndex where
  "sample_index =
     \<lparr>pack_format = PACK_FORMAT_ZSTD_CHUNKED_V1, pack_id = ''P'', created_at = CONTENT_ADDRESSED_PACK_INDEX_CREATED_AT,
      index_entry_name = ZSTD_CHUNKED_OBJECT_INDEX_ENTRY_NAME, index_chunks = [sample_chunk],
      index_members = [index_member (member_input copy_env 0 (full_member (sample_items ! 0))) 0 0,
                       index_member (member_input copy_env 1 (full_member (sample_items ! 1))) 0 3]\<rparr>"

lemma sample_layout: "new_layout [3, 2] None 8388608 = Inr \<lparr>chunks = [[0, Suc 0]]\<rparr>"
  by (simp add: new_layout_def member_order_def layout_step_def flush_pending_def saturating_add_def Let_def upt_rec)

lemma sample_groups:
  "write_groups copy_env sample_inputs [[0, Suc 0]] [] [] [] = Inr ([sample_chunk], index_members sample_index, [1, 2, 3, 1, 2])"
  by (simp add: sample_inputs_def sample_items_def full_member_def member_input_def write_zstd_chunked_raw_chunk_def Let_def copy_env_def
     logical_of_def index_member_def sha256_hex_def sample_index_def sample_chunk_def zero_digest_def)

lemmas sample_index_simps = sample_items_def full_member_def member_input_def copy_env_def logical_of_def index_member_def
  sha256_hex_def sample_index_def sample_chunk_def zero_digest_def

lemma sample_sorted: "sort_key member_ordinal (index_members sample_index) = index_members sample_index"
  by (simp add: sample_index_simps)

lemma sample_valid: "validate_zstd_chunked_index sample_index ZSTD_CHUNKED_INDEX_KIND_OBJECT PACK_FORMAT_ZSTD_CHUNKED_V1 None = Inr ()"
  by (simp add: sample_index_simps validate_zstd_chunked_index_def validate_member_kind_def ZSTD_CHUNKED_INDEX_KIND_OBJECT_def
      ZSTD_CHUNKED_INDEX_KIND_TREE_def)

lemma sample_encoded: "\<exists>bs. encode_zstd_chunked_index sample_index ZSTD_CHUNKED_INDEX_KIND_OBJECT = Inr bs \<and> length bs < 1000"
  by (simp add: sample_index_simps encode_zstd_chunked_index_def encode_chunk_def encode_member_def push_u32_from_def usize_to_u32_def
      push_string_def push_option_string_def push_option_usize_def push_checksum_hex_def PACK_FORMAT_ZSTD_CHUNKED_V1_def
      ZSTD_CHUNKED_OBJECT_INDEX_ENTRY_NAME_def CONTENT_ADDRESSED_PACK_INDEX_CREATED_AT_def push_u64_def)

lemma sample_written:
  "\<exists>pack. write_typed_pack_archive_with_layout copy_env ''P'' CONTENT_ADDRESSED_PACK_INDEX_CREATED_AT sample_members PACK_FORMAT_ZSTD_CHUNKED_V1 None = Inr (pack, sample_index) \<and>
     length pack < 2 ^ 64 \<and> take 5 pack = [1, 2, 3, 1, 2]"
proof -
  have sizes: "map (length \<circ> inp_data) sample_inputs = [3, 2]" "length sample_inputs = 2"
    by (simp_all add: sample_inputs_def sample_index_simps)
  have idx: "\<lparr>pack_format = PACK_FORMAT_ZSTD_CHUNKED_V1, pack_id = ''P'', created_at = CONTENT_ADDRESSED_PACK_INDEX_CREATED_AT,
      index_entry_name = ZSTD_CHUNKED_OBJECT_INDEX_ENTRY_NAME, index_chunks = [sample_chunk],
      index_members = index_members sample_index\<rparr> = sample_index"
    by (simp add: sample_index_def)
  have five: "Suc (Suc (Suc (Suc (Suc 0)))) = 5" by simp
  have valid: "validate_layout \<lparr>chunks = [[0, Suc 0]]\<rparr> 2 = Inr ()"
    by (simp add: validate_layout_def numeral_2_eq_2)
  obtain bs where bs: "encode_zstd_chunked_index sample_index ZSTD_CHUNKED_INDEX_KIND_OBJECT = Inr bs" "length bs < 1000"
    using sample_encoded by blast
  have "length (encode_zstd_chunked_trailer (sha256 copy_env) 5 bs) = ZSTD_CHUNKED_TRAILER_LEN"
    by (rule length_trailer) (simp add: copy_env_def)
  with bs(2) have len: "length ([1, 2, 3, 1, 2] @ bs @ encode_zstd_chunked_trailer (sha256 copy_env) 5 bs) < 2 ^ 64"
    by (simp add: ZSTD_CHUNKED_TRAILER_LEN_def)
  have "write_typed_pack_archive_with_layout copy_env ''P'' CONTENT_ADDRESSED_PACK_INDEX_CREATED_AT sample_members PACK_FORMAT_ZSTD_CHUNKED_V1 None =
      Inr ([1, 2, 3, 1, 2] @ bs @ encode_zstd_chunked_trailer (sha256 copy_env) 5 bs, sample_index)"
    unfolding write_typed_pack_archive_with_layout_def sample_member_inputs write_zstd_chunked_container_with_layout_def
      ZSTD_CHUNKED_DEFAULT_CHUNK_BYTES_def res_bind_simps option.case sizes
    using bs(1) sample_valid by (simp add: sizes sample_layout valid sample_groups sample_sorted idx Let_def five del: write_groups.simps)
  with len show ?thesis by auto
qed

lemma sample_candidates_ok: "\<forall>item \<in> set sample_items. candidate_ok item"
  by (simp add: sample_items_def candidate_ok_def) code_simp

lemma sample_reads:
  "\<exists>pack. write_typed_pack_archive_with_layout copy_env ''P'' CONTENT_ADDRESSED_PACK_INDEX_CREATED_AT sample_members PACK_FORMAT_ZSTD_CHUNKED_V1 None = Inr (pack, sample_index) \<and>
     length pack < 2 ^ 64 \<and>
     read_zstd_chunked_container_index_from_bytes copy_env pack ZSTD_CHUNKED_INDEX_KIND_OBJECT PACK_FORMAT_ZSTD_CHUNKED_V1 = Inr sample_index \<and>
     read_zstd_chunked_raw_chunk copy_env pack sample_chunk = Inr [1, 2, 3, 1, 2] \<and>
     read_pack_entry copy_env pack ''blobs/b'' None MAX_DELTA_CHAIN_READ_DEPTH = Inr [1, 2]"
proof -
  obtain pack where w: "write_typed_pack_archive_with_layout copy_env ''P'' CONTENT_ADDRESSED_PACK_INDEX_CREATED_AT sample_members PACK_FORMAT_ZSTD_CHUNKED_V1 None = Inr (pack, sample_index)"
    and len: "length pack < 2 ^ 64" and img: "take 5 pack = [1, 2, 3, 1, 2]" using sample_written by blast
  have "utf8_string ''P''" "utf8_string CONTENT_ADDRESSED_PACK_INDEX_CREATED_AT" by code_simp+
  then have idx: "read_zstd_chunked_container_index_from_bytes copy_env pack ZSTD_CHUNKED_INDEX_KIND_OBJECT PACK_FORMAT_ZSTD_CHUNKED_V1 = Inr sample_index"
    using written_pack_of [OF copy_env_ok w gated_members_for [OF sample_members_selected] sample_candidates_ok] len
    by (simp add: sample_index_def sample_chunk_def)
  have "length pack \<ge> 5" using arg_cong [OF img, of length] by simp
  with img have chunk: "read_zstd_chunked_raw_chunk copy_env pack sample_chunk = Inr [1, 2, 3, 1, 2]"
    by (simp add: read_zstd_chunked_raw_chunk_def read_file_range_def sample_chunk_def copy_env_def sha256_hex_def zero_digest_def)
  then have "read_pack_entry copy_env pack ''blobs/b'' None MAX_DELTA_CHAIN_READ_DEPTH = Inr [1, 2]"
    unfolding read_pack_entry_def read_zstd_chunked_container_index_bytes idx
    by (simp add: read_object_entry.simps read_zstd_chunked_member_stored_bytes_with_chunk_cache_def chunk_of_member_def
        sample_index_def index_member_def member_input_def full_member_def sample_items_def member_window_def check_entry_def
        MAX_DELTA_CHAIN_READ_DEPTH_def DEFAULT_MAX_DELTA_CHAIN_DEPTH_def logical_of_def)
  with w len idx chunk show ?thesis by blast
qed

section \<open>Packs as a whole\<close>

text \<open>
  C7. A pack keeps every blob.  Take the members that the selector behind the storage gate chose for
  a list of candidates, write them with any accepted layout, and read the entry of any candidate
  back from the bytes of the file: the reader opens the index, finds the entry, resolves its chain
  of deltas and returns exactly the candidate's data.  The sizes fit the 64-bit fields, the strings
  are UTF-8 as every Rust string is, a blob known before the pack does not occur among its
  candidates and its data is available to the reader, and the reader allows chains as long as the
  selector makes them.
\<close>

theorem pack_entries_restore_blobs:
  assumes env: "pack_env_ok env"
    and sel: "build_typed_pack_members_with_storage_gate_and_partitions env items max_depth initial priority_ids = Inr ms"
    and w: "write_typed_pack_archive_with_layout env pid created ms fmt layout = Inr (pack, idx)"
    and items: "\<forall>item \<in> set items. candidate_ok item"
    and old: "\<forall>base \<in> ran (case initial of None \<Rightarrow> Map.empty | Some m \<Rightarrow> m). utf8_string (cand_blob_id base) \<and>
       cand_blob_id base \<notin> cand_blob_id ` set items \<and> (\<exists>bm. bases = Some bm \<and> bm (cand_blob_id base) = Some (cand_data base))"
    and hdr: "utf8_string pid" "utf8_string created"
    and len: "length pack < 2 ^ 64" "\<forall>c \<in> set (index_chunks idx). raw_len c < 2 ^ 64"
    and depth: "max_depth \<le> read_depth" and i: "i < length items"
  shows "read_pack_entry env pack (blob_entry_name (cand_blob_id (items ! i))) bases read_depth = Inr (cand_data (items ! i))"
proof -
  note mf = gated_members_for [OF sel]
  have p: "pack_of env ms pack idx"
      "read_zstd_chunked_container_index_from_bytes env pack ZSTD_CHUNKED_INDEX_KIND_OBJECT PACK_FORMAT_ZSTD_CHUNKED_V1 = Inr idx"
    using written_pack_of [OF env w mf items _ hdr len] old by auto
  have "\<forall>m \<in> set ms. wm_blob_id m \<noteq> []"
  proof
    fix m assume "m \<in> set ms"
    then have "wm_blob_id m \<in> set (map wm_blob_id ms)" by simp
    then show "wm_blob_id m \<noteq> []" using members_for_ids [OF mf] items by (auto simp: candidate_ok_def)
  qed
  moreover have "wm_chain_depth (ms ! i) \<le> read_depth"
    using mf i depth member_for_fields(4) by (fastforce simp: members_for_def)
  ultimately have "read_entry_uncached env pack idx bases read_depth [] read_depth (blob_entry_name (cand_blob_id (items ! i)))
      = Inr (cand_data (items ! i))"
    using read_selected_entry [OF p(1) mf] old i depth by simp
  moreover obtain r c where r: "read_object_entry env pack idx bases read_depth [] 0 (blob_entry_name (cand_blob_id (items ! i))) Map.empty = (r, c)"
    by fastforce
  ultimately show ?thesis using cached_entry_read [OF _ _ r] p(2) by (simp add: read_pack_entry_def)
qed

theorem pack_entries_restore_blobs_witness:
  "\<exists>pack. write_typed_pack_archive_with_layout copy_env ''P'' CONTENT_ADDRESSED_PACK_INDEX_CREATED_AT sample_members PACK_FORMAT_ZSTD_CHUNKED_V1 None = Inr (pack, sample_index) \<and>
     read_pack_entry copy_env pack ''blobs/b'' None MAX_DELTA_CHAIN_READ_DEPTH = Inr [1, 2]"
proof -
  obtain pack where w: "write_typed_pack_archive_with_layout copy_env ''P'' CONTENT_ADDRESSED_PACK_INDEX_CREATED_AT sample_members PACK_FORMAT_ZSTD_CHUNKED_V1 None = Inr (pack, sample_index)"
    and len: "length pack < 2 ^ 64" using sample_written by blast
  have "\<forall>c \<in> set (index_chunks sample_index). raw_len c < 2 ^ 64" by (simp add: sample_index_def sample_chunk_def)
  moreover note sample_candidates_ok
  moreover have "utf8_string ''P''" "utf8_string CONTENT_ADDRESSED_PACK_INDEX_CREATED_AT" by code_simp+
  ultimately have "read_pack_entry copy_env pack (blob_entry_name (cand_blob_id (sample_items ! 1))) None MAX_DELTA_CHAIN_READ_DEPTH
      = Inr (cand_data (sample_items ! 1))"
    using len by (intro pack_entries_restore_blobs [OF copy_env_ok sample_members_selected w])
      (simp_all add: MAX_DELTA_CHAIN_READ_DEPTH_def sample_items_def)
  with w show ?thesis by (auto simp: sample_items_def blob_entry_name_def)
qed

text \<open>
  C18. Nothing unchecked is returned.  Whatever the bytes of the file are, data returned for an entry
  has the digest and the length which an entry of that name in the index of the file declares, and
  that entry's chain is within the bound.
\<close>

theorem pack_entry_is_checked:
  assumes r: "read_pack_entry env pack name bases max_depth = Inr data"
  shows "\<exists>idx. read_zstd_chunked_container_index_from_bytes env pack ZSTD_CHUNKED_INDEX_KIND_OBJECT PACK_FORMAT_ZSTD_CHUNKED_V1 = Inr idx \<and>
    (\<exists>e \<in> set (index_members idx). entry_name e = name \<and> chain_depth e \<le> max_depth \<and>
       sha256_hex env data = member_checksum e \<and> length data = logical_len e)"
proof -
  obtain idx where idx: "read_zstd_chunked_container_index_from_bytes env pack ZSTD_CHUNKED_INDEX_KIND_OBJECT PACK_FORMAT_ZSTD_CHUNKED_V1 = Inr idx"
    and f: "fst (read_object_entry env pack idx bases max_depth [] 0 name Map.empty) = Inr data"
    using r by (auto simp: read_pack_entry_def res_bind_Inr)
  obtain c where "read_object_entry env pack idx bases max_depth [] 0 name Map.empty = (Inr data, c)"
    using f by (metis prod.collapse)
  from cached_entry_read [OF _ _ this] have "read_entry_uncached env pack idx bases max_depth [] max_depth name = Inr data" by simp
  from read_entry_checked [OF this] idx show ?thesis by blast
qed

theorem pack_entry_is_checked_witness:
  "\<exists>pack data idx. read_pack_entry copy_env pack ''blobs/b'' None MAX_DELTA_CHAIN_READ_DEPTH = Inr data \<and>
     read_zstd_chunked_container_index_from_bytes copy_env pack ZSTD_CHUNKED_INDEX_KIND_OBJECT PACK_FORMAT_ZSTD_CHUNKED_V1 = Inr idx \<and>
     (\<exists>e \<in> set (index_members idx). entry_name e = ''blobs/b'' \<and> length data = logical_len e)"
proof -
  obtain pack where "read_pack_entry copy_env pack ''blobs/b'' None MAX_DELTA_CHAIN_READ_DEPTH = Inr [1, 2]"
    using sample_reads by blast
  with pack_entry_is_checked [OF this] show ?thesis by blast
qed

text \<open>
  The cache of decompressed chunks is invisible.  Started with any cache that agrees with the
  file, resolving an entry returns what the reader without a cache returns, errors included, and
  leaves a cache that agrees with the file.
\<close>

theorem chunk_cache_is_transparent:
  assumes "cache_ok env pack idx cache" and "depth \<le> max_depth"
  shows "fst (read_object_entry env pack idx bases max_depth visited depth name cache) =
      read_entry_uncached env pack idx bases max_depth visited (max_depth - depth) name \<and>
    cache_ok env pack idx (snd (read_object_entry env pack idx bases max_depth visited depth name cache))"
  using cached_entry_read [OF assms, of bases visited name] by (metis prod.collapse)

theorem chunk_cache_is_transparent_witness:
  "\<exists>pack. let run = read_object_entry copy_env pack sample_index None 4 [] 0 ''blobs/b'' (Map.empty(7 \<mapsto> [1])) in
     fst run = read_entry_uncached copy_env pack sample_index None 4 [] 4 ''blobs/b'' \<and>
     cache_ok copy_env pack sample_index (snd run)"
  using chunk_cache_is_transparent [of copy_env "[]" sample_index "Map.empty(7 \<mapsto> [1])" 0 4 None "[]" "''blobs/b''"]
  by (auto simp: Let_def cache_ok_def sample_index_def)

text \<open>
  C34. Validation is enough.  When validating a container, index and chunks, has succeeded, every
  member of the index can be read, with exactly the declared number of stored bytes, entry names
  are distinct and members are numbered consecutively.
\<close>

theorem validated_container_is_readable:
  assumes "validate_zstd_chunked_container_chunks env pack kind fmt = Inr ()"
  shows "\<exists>idx. read_zstd_chunked_container_index_from_bytes env pack kind fmt = Inr idx \<and>
    (\<forall>e \<in> set (index_members idx). \<exists>data. read_zstd_chunked_member_stored_bytes env pack idx e = Inr data \<and> length data = stored_len e) \<and>
    distinct (map entry_name (index_members idx)) \<and> map member_ordinal (index_members idx) = [0..<length (index_members idx)]"
proof -
  obtain idx where idx: "read_zstd_chunked_container_index_from_bytes env pack kind fmt = Inr idx"
    and c: "validate_chunk_bytes env pack (index_chunks idx) = Inr ()"
    using assms by (auto simp: validate_zstd_chunked_container_chunks_def res_bind_Inr)
  have v: "validate_members kind (index_chunks idx) 0 [] [] [] (index_members idx) = Inr ()"
    using read_index_valid [OF idx] by (auto simp: validate_zstd_chunked_index_def res_bind_Inr split: if_splits)
  from validated_member_read [OF v c] validate_members_names [OF v] idx show ?thesis by auto
qed

theorem validated_container_is_readable_witness:
  "\<exists>pack idx. read_zstd_chunked_container_index_from_bytes copy_env pack ZSTD_CHUNKED_INDEX_KIND_OBJECT PACK_FORMAT_ZSTD_CHUNKED_V1 = Inr idx \<and>
    (\<forall>e \<in> set (index_members idx). \<exists>data. read_zstd_chunked_member_stored_bytes copy_env pack idx e = Inr data) \<and>
    index_members idx \<noteq> []"
proof -
  obtain pack where r: "read_zstd_chunked_container_index_from_bytes copy_env pack ZSTD_CHUNKED_INDEX_KIND_OBJECT PACK_FORMAT_ZSTD_CHUNKED_V1 = Inr sample_index"
    and "read_zstd_chunked_raw_chunk copy_env pack sample_chunk = Inr [1, 2, 3, 1, 2]"
    using sample_reads by blast
  then have "validate_zstd_chunked_container_chunks copy_env pack ZSTD_CHUNKED_INDEX_KIND_OBJECT PACK_FORMAT_ZSTD_CHUNKED_V1 = Inr ()"
    by (simp add: validate_zstd_chunked_container_chunks_def sample_index_def)
  note readable = validated_container_is_readable [OF this, unfolded r sum.inject]
  have "index_members sample_index \<noteq> []" by (simp add: sample_index_def)
  with readable r show ?thesis by blast
qed

text \<open>
  The recomputed index digest is the recorded one.  Re-encoding the decoded index of a readable
  container always succeeds, and the digest of the result is the one its trailer records.
\<close>

theorem index_checksum_is_recorded:
  assumes "read_zstd_chunked_container_index_from_bytes env pack kind fmt = Inr idx"
  shows "\<exists>off len stored. decode_zstd_chunked_trailer (drop (length pack - ZSTD_CHUNKED_TRAILER_LEN) pack) = Inr (off, len, stored) \<and>
    zstd_chunked_container_index_checksum env pack kind fmt = Inr (hex_string stored)"
  by (rule index_checksum_of_stored [OF assms])

theorem index_checksum_is_recorded_witness:
  "\<exists>pack stored. zstd_chunked_container_index_checksum copy_env pack ZSTD_CHUNKED_INDEX_KIND_OBJECT PACK_FORMAT_ZSTD_CHUNKED_V1 = Inr (hex_string stored)"
proof -
  obtain pack where "read_zstd_chunked_container_index_from_bytes copy_env pack ZSTD_CHUNKED_INDEX_KIND_OBJECT PACK_FORMAT_ZSTD_CHUNKED_V1 = Inr sample_index"
    using sample_reads by blast
  from index_checksum_is_recorded [OF this] show ?thesis by blast
qed

section \<open>The container format\<close>

text \<open>
  C19. Containers round trip.  What the container writer produces for members of any kind, numbered
  in order, the reader opens with the index the writer returned, and every member's stored bytes
  are found in its chunk.
\<close>

theorem container_roundtrip:
  assumes env: "pack_env_ok env"
    and w: "write_zstd_chunked_container_with_layout env kind fmt name pid created members chunk_bytes layout = Inr (pack, idx)"
    and ord: "\<forall>i < length members. inp_ordinal (members ! i) = i" and ok: "\<forall>m \<in> set members. input_ok m"
    and hdr: "utf8_string fmt" "utf8_string name" "utf8_string pid" "utf8_string created"
    and len: "length pack < 2 ^ 64" "\<forall>c \<in> set (index_chunks idx). raw_len c < 2 ^ 64"
  shows "read_zstd_chunked_container_index_from_bytes env pack kind fmt = Inr idx \<and>
    length (index_members idx) = length members \<and>
    (\<forall>i < length members. read_zstd_chunked_member_stored_bytes env pack idx (index_members idx ! i) = Inr (inp_data (members ! i)))"
proof -
  obtain img raws index_bytes where c: "container_of env kind members pack idx img raws index_bytes"
    and f: "pack_format idx = fmt" "index_entry_name idx = name" "pack_id idx = pid" "created_at idx = created"
    using written_container [OF w ord] by blast
  note raws = container_raw_lengths [OF c len(2)]
  have "length img < 2 ^ 64" using c len(1) by (auto simp: container_of_def)
  then have "index_ok idx" using container_index_ok [OF env c _ raws ok] hdr f by simp
  from container_reads_back [OF env c len(1) this] member_reads_back [OF env c _ raws] c f show ?thesis
    by (simp add: container_of_def)
qed

theorem container_roundtrip_witness:
  "\<exists>pack idx. write_zstd_chunked_container_with_layout copy_env ZSTD_CHUNKED_INDEX_KIND_OBJECT PACK_FORMAT_ZSTD_CHUNKED_V1
      ZSTD_CHUNKED_OBJECT_INDEX_ENTRY_NAME ''P'' CONTENT_ADDRESSED_PACK_INDEX_CREATED_AT sample_inputs ZSTD_CHUNKED_DEFAULT_CHUNK_BYTES None = Inr (pack, idx) \<and>
    read_zstd_chunked_container_index_from_bytes copy_env pack ZSTD_CHUNKED_INDEX_KIND_OBJECT PACK_FORMAT_ZSTD_CHUNKED_V1 = Inr idx \<and>
    read_zstd_chunked_member_stored_bytes copy_env pack idx (index_members idx ! 0) = Inr [1, 2, 3]"
proof -
  obtain pack where w: "write_zstd_chunked_container_with_layout copy_env ZSTD_CHUNKED_INDEX_KIND_OBJECT PACK_FORMAT_ZSTD_CHUNKED_V1
      ZSTD_CHUNKED_OBJECT_INDEX_ENTRY_NAME ''P'' CONTENT_ADDRESSED_PACK_INDEX_CREATED_AT sample_inputs ZSTD_CHUNKED_DEFAULT_CHUNK_BYTES None = Inr (pack, sample_index)"
    and len: "length pack < 2 ^ 64"
    using sample_written by (auto simp: write_typed_pack_archive_with_layout_def sample_member_inputs)
  have ord: "\<forall>i < length sample_inputs. inp_ordinal (sample_inputs ! i) = i"
    by (auto simp: sample_inputs_def member_input_def less_Suc_eq)
  have "\<forall>m \<in> set sample_inputs. input_ok m"
    using sample_candidates_ok
    by (auto simp: sample_inputs_def input_ok_def member_input_def full_member_def candidate_ok_def logical_of_def
        sha256_hex_text copy_env_ok sample_items_def)
  moreover have "utf8_string ''P''" "utf8_string CONTENT_ADDRESSED_PACK_INDEX_CREATED_AT" by code_simp+
  moreover have "\<forall>c \<in> set (index_chunks sample_index). raw_len c < 2 ^ 64" by (simp add: sample_index_def sample_chunk_def)
  ultimately have
    "read_zstd_chunked_container_index_from_bytes copy_env pack ZSTD_CHUNKED_INDEX_KIND_OBJECT PACK_FORMAT_ZSTD_CHUNKED_V1 = Inr sample_index \<and>
     length (index_members sample_index) = length sample_inputs \<and>
     (\<forall>i < length sample_inputs. read_zstd_chunked_member_stored_bytes copy_env pack sample_index (index_members sample_index ! i) = Inr (inp_data (sample_inputs ! i)))"
    using len by (intro container_roundtrip [OF copy_env_ok w ord]) simp_all
  moreover have "inp_data (sample_inputs ! 0) = [1, 2, 3]" "0 < length sample_inputs"
    by (simp_all add: sample_inputs_def member_input_def full_member_def sample_items_def)
  ultimately show ?thesis using w by metis
qed

text \<open>
  Encoded indexes decode to themselves: every index with representable fields that the encoder
  accepts is restored by the decoder.
\<close>

theorem index_decode_encode:
  assumes "index_ok idx" and "encode_zstd_chunked_index idx kind = Inr bs"
  shows "decode_zstd_chunked_index bs kind = Inr idx"
  by (rule decode_encode_index [OF assms])

lemma sample_index_ok: "index_ok sample_index"
proof -
  have "checksum_text (hex_string (replicate 32 0))" unfolding checksum_text_def by (intro exI) auto
  moreover have "utf8_string ''P''" "utf8_string CONTENT_ADDRESSED_PACK_INDEX_CREATED_AT" "utf8_string ''a''" "utf8_string ''b''"
    "utf8_string ''blobs/a''" "utf8_string ''blobs/b''" by code_simp+
  ultimately show ?thesis by (simp add: index_ok_def sample_index_simps chunk_ok_def member_ok_def)
qed

theorem index_decode_encode_witness:
  "\<exists>bs. encode_zstd_chunked_index sample_index 1 = Inr bs \<and> decode_zstd_chunked_index bs 1 = Inr sample_index"
  using index_decode_encode [OF sample_index_ok] sample_encoded by (auto simp: ZSTD_CHUNKED_INDEX_KIND_OBJECT_def)

text \<open>
  There is one encoding of an index: bytes the decoder accepts are exactly what the encoder
  produces for the decoded index.
\<close>

theorem index_encode_decode:
  assumes "decode_zstd_chunked_index bs kind = Inr idx"
  shows "encode_zstd_chunked_index idx kind = Inr bs"
  using encode_decode_index [OF assms] by blast

theorem index_encode_decode_witness:
  "\<exists>bs. decode_zstd_chunked_index bs 1 = Inr sample_index \<and> encode_zstd_chunked_index sample_index 1 = Inr bs"
proof -
  obtain bs where "encode_zstd_chunked_index sample_index 1 = Inr bs"
    using sample_encoded by (auto simp: ZSTD_CHUNKED_INDEX_KIND_OBJECT_def)
  then have "decode_zstd_chunked_index bs 1 = Inr sample_index" by (rule decode_encode_index [OF sample_index_ok])
  with index_encode_decode [OF this] show ?thesis by blast
qed

end
