(* ===== verification/Pack_Reader.thy ===== *)
theory Pack_Reader
  imports Pack_Safety
begin

text \<open>
  Readers that live longer than one call (\<open>pack_substrate/object.rs\<close>, \<open>PackEntryArchive\<close>,
  with the name table of \<open>pack_substrate/index_json.rs\<close>), the reader of members from bytes in
  memory, and the validation of a remote pack before it is reused
  (\<open>pack_substrate.rs\<close>, \<open>validate_content_addressed_zstd_pack_reuse\<close>).
\<close>

section \<open>Members read from memory\<close>

definition read_zstd_chunked_member_stored_bytes_from_bytes ::
    "pack_env \<Rightarrow> bytes \<Rightarrow> ZstdChunkedPackIndex \<Rightarrow> ZstdChunkedMemberIndex \<Rightarrow> bytes archive_result" where
  "read_zstd_chunked_member_stored_bytes_from_bytes env pack idx member =
     res_bind (chunk_of_member idx member) (\<lambda>chunk.
     let compressed_end = compressed_offset chunk + compressed_len chunk in
     if \<not> compressed_end < 2 ^ 64 then Inl ChunkRangeOverflow
     else if compressed_end > length pack then Inl ChunkExceedsData
     else (case decompress env (take (compressed_len chunk) (drop (compressed_offset chunk) pack)) (raw_len chunk) of
         None \<Rightarrow> Inl DecompressFailed
       | Some raw \<Rightarrow>
           if length raw \<noteq> raw_len chunk then Inl RawChunkSizeMismatch
           else if sha256_hex env raw \<noteq> chunk_checksum chunk then Inl ChunkChecksumMismatch
           else let member_end = in_chunk_offset member + stored_len member in
             if \<not> member_end < 2 ^ 64 then Inl MemberRangeOverflow
             else if member_end > length raw then Inl MemberExceedsChunk
             else Inr (take (stored_len member) (drop (in_chunk_offset member) raw))))"

lemma member_from_bytes_agrees:
  assumes "length pack < 2 ^ 64" and "\<forall>c. chunk_of_member idx member = Inr c \<longrightarrow> 0 < compressed_len c"
  shows "read_zstd_chunked_member_stored_bytes_from_bytes env pack idx member = Inr data \<longleftrightarrow>
    read_zstd_chunked_member_stored_bytes env pack idx member = Inr data"
proof (cases "chunk_of_member idx member")
  case (Inr chunk)
  with assms show ?thesis
    by (auto simp: read_zstd_chunked_member_stored_bytes_from_bytes_def read_zstd_chunked_member_stored_bytes_def
        read_zstd_chunked_raw_chunk_def read_file_range_def member_window_def Let_def split: option.splits)
qed (simp add: read_zstd_chunked_member_stored_bytes_from_bytes_def read_zstd_chunked_member_stored_bytes_def)

section \<open>The name table\<close>

record PackIndexEntry =
  pie_entry_name :: string
  pie_blob_id :: string
  pie_entry_type :: string
  pie_byte_length :: nat
  pie_uncompressed_byte_length :: nat
  pie_base_blob_id :: "string option"
  pie_chain_depth :: nat
  pie_checksum :: string
  pie_delta_algorithm :: "string option"

definition pack_index_entries_equivalent :: "PackIndexEntry \<Rightarrow> PackIndexEntry \<Rightarrow> bool" where
  "pack_index_entries_equivalent left right \<longleftrightarrow>
     pie_entry_name left = pie_entry_name right \<and> pie_blob_id left = pie_blob_id right \<and>
     pie_entry_type left = pie_entry_type right \<and> pie_byte_length left = pie_byte_length right \<and>
     pie_uncompressed_byte_length left = pie_uncompressed_byte_length right \<and>
     pie_base_blob_id left = pie_base_blob_id right \<and> pie_chain_depth left = pie_chain_depth right \<and>
     pie_checksum left = pie_checksum right \<and> pie_delta_algorithm left = pie_delta_algorithm right"

datatype table_error = MissingRequiredField string | DuplicatePackEntryName string

definition required_text :: "string \<Rightarrow> string \<Rightarrow> table_error + string" where
  "required_text text field = (if trim text = [] then Inl (MissingRequiredField field) else Inr (trim text))"

definition optional_text :: "string option \<Rightarrow> string option" where
  "optional_text text = (case text of None \<Rightarrow> None | Some t \<Rightarrow> if trim t = [] then None else Some (trim t))"

definition index_entry_of :: "ZstdChunkedMemberIndex \<Rightarrow> table_error + PackIndexEntry" where
  "index_entry_of member =
     res_bind (required_text (entry_name member) ''entry_name'') (\<lambda>name.
     res_bind (required_text (content_id member) ''blob_id'') (\<lambda>blob.
     res_bind (required_text (entry_type member) ''entry_type'') (\<lambda>kind.
     res_bind (required_text (member_checksum member) ''checksum'') (\<lambda>chk.
       Inr \<lparr>pie_entry_name = name, pie_blob_id = blob, pie_entry_type = kind, pie_byte_length = stored_len member,
            pie_uncompressed_byte_length = logical_len member, pie_base_blob_id = optional_text (base_content_id member),
            pie_chain_depth = chain_depth member, pie_checksum = chk,
            pie_delta_algorithm = optional_text (delta_algorithm member)\<rparr>))))"

fun entries_by_name_from ::
    "(string \<rightharpoonup> PackIndexEntry) \<Rightarrow> ZstdChunkedMemberIndex list \<Rightarrow> table_error + (string \<rightharpoonup> PackIndexEntry)" where
  "entries_by_name_from out [] = Inr out"
| "entries_by_name_from out (member # members) =
     res_bind (index_entry_of member) (\<lambda>parsed.
       case out (pie_entry_name parsed) of
         Some existing \<Rightarrow>
           if pack_index_entries_equivalent existing parsed then entries_by_name_from out members
           else Inl (DuplicatePackEntryName (pie_entry_name parsed))
       | None \<Rightarrow> entries_by_name_from (out(pie_entry_name parsed \<mapsto> parsed)) members)"

definition entries_by_name_from_validated_index ::
    "ZstdChunkedPackIndex \<Rightarrow> table_error + (string \<rightharpoonup> PackIndexEntry)" where
  "entries_by_name_from_validated_index idx = entries_by_name_from Map.empty (index_members idx)"

section \<open>Formats\<close>

definition PACK_FORMAT_KIND_ZSTD_CHUNKED_V1 :: string where "PACK_FORMAT_KIND_ZSTD_CHUNKED_V1 = ''zstd_chunked_v1''"
definition TREE_PACK_FORMAT_KIND_ZSTD_CHUNKED_V1 :: string where
  "TREE_PACK_FORMAT_KIND_ZSTD_CHUNKED_V1 = ''zstd_chunked_tree_v1''"
definition TREE_PACK_FORMAT_ZSTD_CHUNKED_V1 :: string where
  "TREE_PACK_FORMAT_ZSTD_CHUNKED_V1 = ''ait-tree-pack-v2-zstd-chunked''"

datatype format_error = MissingPackFormat | UnsupportedFormat string

datatype PackFormatKind = ZstdChunkedV1

definition PackFormatKind_from_persisted :: "string \<Rightarrow> format_error + PackFormatKind" where
  "PackFormatKind_from_persisted s =
     (let t = trim s in
      if t = PACK_FORMAT_ZSTD_CHUNKED_V1 \<or> t = PACK_FORMAT_KIND_ZSTD_CHUNKED_V1 then Inr ZstdChunkedV1
      else if t = [] then Inl MissingPackFormat else Inl (UnsupportedFormat t))"

definition PackFormatKind_persisted_name :: "PackFormatKind \<Rightarrow> string" where
  "PackFormatKind_persisted_name k = (case k of ZstdChunkedV1 \<Rightarrow> PACK_FORMAT_ZSTD_CHUNKED_V1)"

definition PackFormatKind_format_kind_name :: "PackFormatKind \<Rightarrow> string" where
  "PackFormatKind_format_kind_name k = (case k of ZstdChunkedV1 \<Rightarrow> PACK_FORMAT_KIND_ZSTD_CHUNKED_V1)"

section \<open>Open archives\<close>

record PackEntryArchive =
  pack_bytes :: bytes
  arch_index :: ZstdChunkedPackIndex
  raw_chunk_cache :: chunk_cache
  entries_by_name :: "string \<rightharpoonup> PackIndexEntry"

datatype open_error = OpenFormat format_error | OpenIndex archive_error | OpenTable table_error

definition open_with_format :: "pack_env \<Rightarrow> bytes \<Rightarrow> string \<Rightarrow> open_error + PackEntryArchive" where
  "open_with_format env pack persisted_pack_format =
     res_bind (map_error OpenFormat (PackFormatKind_from_persisted persisted_pack_format)) (\<lambda>_.
     res_bind (map_error OpenIndex (read_zstd_chunked_container_index env pack ZSTD_CHUNKED_INDEX_KIND_OBJECT
         PACK_FORMAT_ZSTD_CHUNKED_V1)) (\<lambda>idx.
     res_bind (map_error OpenTable (entries_by_name_from_validated_index idx)) (\<lambda>entries.
       Inr \<lparr>pack_bytes = pack, arch_index = idx, raw_chunk_cache = Map.empty, entries_by_name = entries\<rparr>)))"

definition has_entry :: "PackEntryArchive \<Rightarrow> string \<Rightarrow> bool" where
  "has_entry a name =
     (if entries_by_name a name = None then False else \<exists>e \<in> set (index_members (arch_index a)). entry_name e = name)"

definition read_entry ::
    "pack_env \<Rightarrow> PackEntryArchive \<Rightarrow> string \<Rightarrow> (string \<rightharpoonup> bytes) option \<Rightarrow> nat \<Rightarrow> bytes archive_result \<times> PackEntryArchive" where
  "read_entry env a name bases max_chain_depth =
     (case read_object_entry env (pack_bytes a) (arch_index a) bases max_chain_depth [] 0 name (raw_chunk_cache a) of
        (r, cache) \<Rightarrow> (r, a\<lparr>raw_chunk_cache := cache\<rparr>))"

definition clear_cached_chunks :: "PackEntryArchive \<Rightarrow> PackEntryArchive" where
  "clear_cached_chunks a = a\<lparr>raw_chunk_cache := Map.empty\<rparr>"

definition zstd_chunked_pack_has_entry :: "pack_env \<Rightarrow> bytes option \<Rightarrow> string \<Rightarrow> bool archive_result" where
  "zstd_chunked_pack_has_entry env found name =
     (case found of
        None \<Rightarrow> Inr False
      | Some pack \<Rightarrow>
          res_bind (read_zstd_chunked_container_index env pack ZSTD_CHUNKED_INDEX_KIND_OBJECT PACK_FORMAT_ZSTD_CHUNKED_V1)
            (\<lambda>idx. Inr (\<exists>e \<in> set (index_members idx). entry_name e = name)))"

section \<open>Reuse of a remote pack\<close>

text \<open>The parser of timestamps is third-party code and an argument.\<close>

datatype reuse_error =
    UnsupportedReuseFormat string | LocalPackInvalid archive_error | RemotePackInvalid archive_error
  | IdentityMismatch | LocalNotCanonical | RemoteTimestampInvalid | DiffersBeyondTimestamp
  | LocalMemberInvalid archive_error | RemoteMemberInvalid archive_error | MemberBytesDiffer | ReuseIndexError index_error

fun compare_members ::
    "pack_env \<Rightarrow> bytes \<Rightarrow> bytes \<Rightarrow> ZstdChunkedPackIndex \<Rightarrow> ZstdChunkedPackIndex \<Rightarrow>
     (ZstdChunkedMemberIndex \<times> ZstdChunkedMemberIndex) list \<Rightarrow> reuse_error + unit" where
  "compare_members env local_pack remote_pack local_idx remote_idx [] = Inr ()"
| "compare_members env local_pack remote_pack local_idx remote_idx ((l, r) # rest) =
     res_bind (map_error LocalMemberInvalid (read_zstd_chunked_member_stored_bytes_from_bytes env local_pack local_idx l)) (\<lambda>local_stored.
     res_bind (map_error RemoteMemberInvalid (read_zstd_chunked_member_stored_bytes_from_bytes env remote_pack remote_idx r)) (\<lambda>remote_stored.
       if local_stored \<noteq> remote_stored then Inl MemberBytesDiffer
       else compare_members env local_pack remote_pack local_idx remote_idx rest))"

definition reuse_format :: "string \<Rightarrow> reuse_error + u8 \<times> string" where
  "reuse_format fmt =
     (let t = trim fmt in
      if t = PACK_FORMAT_ZSTD_CHUNKED_V1 \<or> t = PACK_FORMAT_KIND_ZSTD_CHUNKED_V1
      then Inr (ZSTD_CHUNKED_INDEX_KIND_OBJECT, PACK_FORMAT_ZSTD_CHUNKED_V1)
      else if t = TREE_PACK_FORMAT_ZSTD_CHUNKED_V1 \<or> t = TREE_PACK_FORMAT_KIND_ZSTD_CHUNKED_V1
      then Inr (ZSTD_CHUNKED_INDEX_KIND_TREE, TREE_PACK_FORMAT_ZSTD_CHUNKED_V1)
      else Inl (UnsupportedReuseFormat t))"

definition validate_content_addressed_zstd_pack_reuse ::
    "pack_env \<Rightarrow> (string \<Rightarrow> bool) \<Rightarrow> bytes \<Rightarrow> bytes \<Rightarrow> string \<Rightarrow> string \<Rightarrow> reuse_error + string" where
  "validate_content_addressed_zstd_pack_reuse env parse_rfc3339 local_pack remote_pack expected_pack_id fmt =
     res_bind (reuse_format fmt) (\<lambda>(kind, canonical_format).
     res_bind (map_error LocalPackInvalid
       (read_zstd_chunked_container_index_from_bytes env local_pack kind canonical_format)) (\<lambda>local_idx.
     res_bind (map_error RemotePackInvalid
       (read_zstd_chunked_container_index_from_bytes env remote_pack kind canonical_format)) (\<lambda>remote_idx.
     if pack_id local_idx \<noteq> expected_pack_id \<or> pack_id remote_idx \<noteq> expected_pack_id then Inl IdentityMismatch
     else if created_at local_idx \<noteq> CONTENT_ADDRESSED_PACK_INDEX_CREATED_AT then Inl LocalNotCanonical
     else if \<not> parse_rfc3339 (created_at remote_idx) then Inl RemoteTimestampInvalid
     else if remote_idx\<lparr>created_at := created_at local_idx\<rparr> \<noteq> local_idx then Inl DiffersBeyondTimestamp
     else res_bind (compare_members env local_pack remote_pack local_idx remote_idx
         (zip (index_members local_idx) (index_members remote_idx))) (\<lambda>_.
       res_bind (map_error ReuseIndexError (encode_zstd_chunked_index remote_idx kind)) (\<lambda>remote_index_bytes.
         Inr (sha256_hex env remote_index_bytes))))))"

section \<open>Laws of open archives\<close>

definition archive_ok :: "pack_env \<Rightarrow> bytes \<Rightarrow> PackEntryArchive \<Rightarrow> bool" where
  "archive_ok env pack a \<longleftrightarrow> pack_bytes a = pack \<and> cache_ok env pack (arch_index a) (raw_chunk_cache a) \<and>
     read_zstd_chunked_container_index_from_bytes env pack ZSTD_CHUNKED_INDEX_KIND_OBJECT PACK_FORMAT_ZSTD_CHUNKED_V1 = Inr (arch_index a) \<and>
     entries_by_name_from_validated_index (arch_index a) = Inr (entries_by_name a)"

lemma open_archive_ok: "open_with_format env pack fmt = Inr a \<Longrightarrow> archive_ok env pack a"
  by (auto simp: open_with_format_def archive_ok_def res_bind_Inr)

lemma clear_archive_ok: "archive_ok env pack a \<Longrightarrow> archive_ok env pack (clear_cached_chunks a)"
  by (simp add: archive_ok_def clear_cached_chunks_def)

lemma read_entry_ok:
  assumes ok: "archive_ok env pack a"
  shows "fst (read_entry env a name bases max_depth) = read_pack_entry env pack name bases max_depth"
    and "archive_ok env pack (snd (read_entry env a name bases max_depth))"
proof -
  let ?run = "read_object_entry env pack (arch_index a) bases max_depth [] 0 name"
  obtain r c where rc: "?run (raw_chunk_cache a) = (r, c)" by fastforce
  obtain r0 c0 where rc0: "?run Map.empty = (r0, c0)" by fastforce
  have "cache_ok env pack (arch_index a) (raw_chunk_cache a)" using ok by (simp add: archive_ok_def)
  note read = cached_entry_read [OF this _ rc] cached_entry_read [OF cache_ok_empty _ rc0]
  with ok rc rc0 show "fst (read_entry env a name bases max_depth) = read_pack_entry env pack name bases max_depth"
    by (simp add: read_entry_def read_pack_entry_def archive_ok_def)
  from read ok rc show "archive_ok env pack (snd (read_entry env a name bases max_depth))"
    by (simp add: read_entry_def archive_ok_def)
qed

datatype archive_op = ReadEntry string "(string \<rightharpoonup> bytes) option" nat | ClearCachedChunks

fun run_archive_op :: "pack_env \<Rightarrow> archive_op \<Rightarrow> PackEntryArchive \<Rightarrow> PackEntryArchive" where
  "run_archive_op env (ReadEntry name bases max_depth) a = snd (read_entry env a name bases max_depth)"
| "run_archive_op env ClearCachedChunks a = clear_cached_chunks a"

lemma run_archive_ops_ok: "archive_ok env pack a \<Longrightarrow> archive_ok env pack (fold (run_archive_op env) ops a)"
proof (induction ops arbitrary: a)
  case (Cons op ops)
  have "archive_ok env pack (run_archive_op env op a)"
    using Cons.prems read_entry_ok(2) clear_archive_ok by (cases op) auto
  then show ?case using Cons.IH by simp
qed simp

lemma index_entry_of_name: "index_entry_of m = Inr parsed \<Longrightarrow> pie_entry_name parsed = trim (entry_name m)"
  by (auto simp: index_entry_of_def required_text_def res_bind_Inr split: if_splits)

lemma entries_by_name_dom:
  "entries_by_name_from out ms = Inr table \<Longrightarrow> dom table = dom out \<union> (trim \<circ> entry_name) ` set ms"
proof (induction ms arbitrary: out)
  case (Cons m ms)
  then obtain parsed where p: "index_entry_of m = Inr parsed" by (auto simp: res_bind_Inr)
  with Cons index_entry_of_name [OF p] show ?case by (auto split: option.splits if_splits)
qed simp

lemma has_entry_canonical:
  assumes "archive_ok env pack a" and "trim name = name"
  shows "has_entry a name \<longleftrightarrow> (\<exists>e \<in> set (index_members (arch_index a)). entry_name e = name)"
proof -
  have "dom (entries_by_name a) = (trim \<circ> entry_name) ` set (index_members (arch_index a))"
    using assms(1) entries_by_name_dom [of Map.empty] by (simp add: archive_ok_def entries_by_name_from_validated_index_def)
  then show ?thesis using assms(2) by (force simp: has_entry_def domIff)
qed

section \<open>Laws of reuse\<close>

lemma compare_members_ok:
  "compare_members env lp rp li ri ms = Inr () \<Longrightarrow> (l, r) \<in> set ms \<Longrightarrow>
    \<exists>data. read_zstd_chunked_member_stored_bytes_from_bytes env lp li l = Inr data \<and>
      read_zstd_chunked_member_stored_bytes_from_bytes env rp ri r = Inr data"
  by (induction ms) (auto simp: res_bind_Inr split: if_splits)

lemma reuse_ok:
  assumes "validate_content_addressed_zstd_pack_reuse env parse_rfc3339 local_pack remote_pack pid fmt = Inr digest"
  shows "\<exists>kind canonical li ri.
    read_zstd_chunked_container_index_from_bytes env local_pack kind canonical = Inr li \<and>
    read_zstd_chunked_container_index_from_bytes env remote_pack kind canonical = Inr ri \<and>
    pack_id li = pid \<and> ri\<lparr>created_at := created_at li\<rparr> = li \<and>
    compare_members env local_pack remote_pack li ri (zip (index_members li) (index_members ri)) = Inr () \<and>
    zstd_chunked_container_index_checksum env remote_pack kind canonical = Inr digest"
proof -
  obtain kind canonical li ri index_bytes where
    r: "read_zstd_chunked_container_index_from_bytes env local_pack kind canonical = Inr li"
      "read_zstd_chunked_container_index_from_bytes env remote_pack kind canonical = Inr ri"
      "pack_id li = pid" "ri\<lparr>created_at := created_at li\<rparr> = li"
      "compare_members env local_pack remote_pack li ri (zip (index_members li) (index_members ri)) = Inr ()"
      "encode_zstd_chunked_index ri kind = Inr index_bytes" "digest = sha256_hex env index_bytes"
  proof -
    obtain kind canonical where k: "reuse_format fmt = Inr (kind, canonical)"
      using assms by (auto simp: validate_content_addressed_zstd_pack_reuse_def res_bind_Inr)
    note run = assms [unfolded validate_content_addressed_zstd_pack_reuse_def k res_bind_simps prod.case]
    obtain li where l: "read_zstd_chunked_container_index_from_bytes env local_pack kind canonical = Inr li"
      using run by (auto simp: res_bind_Inr)
    obtain ri where r: "read_zstd_chunked_container_index_from_bytes env remote_pack kind canonical = Inr ri"
      using run by (auto simp: res_bind_Inr)
    note run' = run [unfolded l r map_error_Inr res_bind_simps]
    have same: "pack_id li = pid" "ri\<lparr>created_at := created_at li\<rparr> = li" using run' by (metis sum.distinct(1))+
    have "res_bind (compare_members env local_pack remote_pack li ri (zip (index_members li) (index_members ri))) (\<lambda>_.
        res_bind (map_error ReuseIndexError (encode_zstd_chunked_index ri kind)) (\<lambda>bs. Inr (sha256_hex env bs))) = Inr digest"
      using run' by (metis sum.distinct(1))
    then obtain bs where "compare_members env local_pack remote_pack li ri (zip (index_members li) (index_members ri)) = Inr ()"
        "encode_zstd_chunked_index ri kind = Inr bs" "digest = sha256_hex env bs"
      by (auto simp: res_bind_Inr)
    then show thesis using that [OF l r same(1) same(2)] by blast
  qed
  then show ?thesis by (intro exI [of _ kind] exI [of _ canonical] exI [of _ li] exI [of _ ri])
      (simp add: zstd_chunked_container_index_checksum_def)
qed

end
