(* ===== verification/Reader_Properties.thy ===== *)
theory Reader_Properties
  imports Pack_Reader Pack_Properties
begin

text \<open>
  Properties of open archives and of the reuse of remote packs.
\<close>

section \<open>Open archives\<close>

text \<open>
  C20. Sessions read what single calls read.  After an archive has been opened and any sequence of
  reads and cache clearings has run on it, successful or not, reading an entry returns exactly what
  the one-shot reader returns on the file.
\<close>

theorem archive_session_refines_reads:
  assumes "open_with_format env pack fmt = Inr a"
  shows "fst (read_entry env (fold (run_archive_op env) ops a) name bases max_depth) = read_pack_entry env pack name bases max_depth"
  by (rule read_entry_ok(1) [OF run_archive_ops_ok [OF open_archive_ok [OF assms]]])

lemma sample_trims:
  "trim ''blobs/a'' = ''blobs/a''" "trim ''blobs/b'' = ''blobs/b''" "trim ''a'' = ''a''" "trim ''b'' = ''b''" "trim ''full'' = ''full''"
  "trim PACK_FORMAT_ZSTD_CHUNKED_V1 = PACK_FORMAT_ZSTD_CHUNKED_V1"
  by (rule trim_keeps; code_simp)+

lemma zero_digest_text: "trim zero_digest = zero_digest" "zero_digest \<noteq> []"
  by (simp_all add: zero_digest_def trim_hex_string flip: length_greater_0_conv)

lemma sample_table: "\<exists>table. entries_by_name_from_validated_index sample_index = Inr table"
  by (simp add: entries_by_name_from_validated_index_def sample_index_def index_member_def member_input_def full_member_def
      sample_items_def index_entry_of_def required_text_def sample_trims zero_digest_text sha256_hex_def copy_env_def flip: zero_digest_def)

lemma sample_opens:
  "\<exists>pack a. open_with_format copy_env pack PACK_FORMAT_ZSTD_CHUNKED_V1 = Inr a \<and> arch_index a = sample_index \<and>
     read_pack_entry copy_env pack ''blobs/b'' None MAX_DELTA_CHAIN_READ_DEPTH = Inr [1, 2]"
proof -
  obtain pack where r: "read_zstd_chunked_container_index_from_bytes copy_env pack ZSTD_CHUNKED_INDEX_KIND_OBJECT PACK_FORMAT_ZSTD_CHUNKED_V1 = Inr sample_index"
    "read_pack_entry copy_env pack ''blobs/b'' None MAX_DELTA_CHAIN_READ_DEPTH = Inr [1, 2]"
    using sample_reads by blast
  obtain table where "entries_by_name_from_validated_index sample_index = Inr table" using sample_table by blast
  with r show ?thesis
    by (intro exI [of _ pack]) (simp add: open_with_format_def PackFormatKind_from_persisted_def sample_trims Let_def)
qed

theorem archive_session_refines_reads_witness:
  "\<exists>pack a. open_with_format copy_env pack PACK_FORMAT_ZSTD_CHUNKED_V1 = Inr a \<and>
     fst (read_entry copy_env (fold (run_archive_op copy_env) [ReadEntry ''x'' None 3, ReadEntry ''blobs/a'' None 3] a)
       ''blobs/b'' None MAX_DELTA_CHAIN_READ_DEPTH) = Inr [1, 2]"
proof -
  obtain pack a where o: "open_with_format copy_env pack PACK_FORMAT_ZSTD_CHUNKED_V1 = Inr a"
    and r: "read_pack_entry copy_env pack ''blobs/b'' None MAX_DELTA_CHAIN_READ_DEPTH = Inr [1, 2]" using sample_opens by blast
  from o archive_session_refines_reads [OF o] r show ?thesis by metis
qed

text \<open>
  The two ways to ask for an entry agree.  For a name without surrounding whitespace an open archive
  answers whether it has the entry exactly as the check on the file does, whatever ran before.
\<close>

theorem archive_has_entry_agrees:
  assumes "open_with_format env pack fmt = Inr a" and "trim name = name"
  shows "zstd_chunked_pack_has_entry env (Some pack) name = Inr (has_entry (fold (run_archive_op env) ops a) name)"
proof -
  have ok: "archive_ok env pack (fold (run_archive_op env) ops a)"
    by (rule run_archive_ops_ok [OF open_archive_ok [OF assms(1)]])
  with has_entry_canonical [OF ok assms(2)] show ?thesis
    by (simp add: zstd_chunked_pack_has_entry_def archive_ok_def)
qed

theorem archive_has_entry_agrees_witness:
  "\<exists>pack a. open_with_format copy_env pack PACK_FORMAT_ZSTD_CHUNKED_V1 = Inr a \<and>
     zstd_chunked_pack_has_entry copy_env (Some pack) ''blobs/b'' = Inr (has_entry (fold (run_archive_op copy_env) [ClearCachedChunks] a) ''blobs/b'')"
proof -
  obtain pack a where o: "open_with_format copy_env pack PACK_FORMAT_ZSTD_CHUNKED_V1 = Inr a" using sample_opens by blast
  from o archive_has_entry_agrees [OF o sample_trims(2)] show ?thesis by blast
qed

section \<open>Reuse\<close>

text \<open>
  C33. A reused remote pack is the local pack.  When the validation of a remote pack succeeds, both
  containers open, their indexes agree in everything but the timestamp, every member of the remote
  pack has the stored bytes of the local one, and the digest returned is the one recorded in the
  remote file.
\<close>

theorem reused_pack_is_local_pack:
  assumes "validate_content_addressed_zstd_pack_reuse env parse_rfc3339 local_pack remote_pack pid fmt = Inr digest"
  shows "\<exists>kind canonical li ri. read_zstd_chunked_container_index_from_bytes env local_pack kind canonical = Inr li \<and>
    read_zstd_chunked_container_index_from_bytes env remote_pack kind canonical = Inr ri \<and>
    pack_id ri = pid \<and> index_chunks ri = index_chunks li \<and> index_members ri = index_members li \<and>
    (\<forall>e \<in> set (index_members li). \<exists>data.
       read_zstd_chunked_member_stored_bytes_from_bytes env local_pack li e = Inr data \<and>
       read_zstd_chunked_member_stored_bytes_from_bytes env remote_pack ri e = Inr data) \<and>
    (\<exists>off len recorded. decode_zstd_chunked_trailer (drop (length remote_pack - ZSTD_CHUNKED_TRAILER_LEN) remote_pack)
        = Inr (off, len, recorded) \<and> digest = hex_string recorded)"
proof -
  obtain kind canonical li ri where
    r: "read_zstd_chunked_container_index_from_bytes env local_pack kind canonical = Inr li"
      "read_zstd_chunked_container_index_from_bytes env remote_pack kind canonical = Inr ri"
      "pack_id li = pid" and same: "ri\<lparr>created_at := created_at li\<rparr> = li"
    and c: "compare_members env local_pack remote_pack li ri (zip (index_members li) (index_members ri)) = Inr ()"
    and d: "zstd_chunked_container_index_checksum env remote_pack kind canonical = Inr digest"
    using reuse_ok [OF assms] by blast
  from same have eqs: "pack_id ri = pack_id li" "index_chunks ri = index_chunks li" "index_members ri = index_members li"
    by (cases li; cases ri; simp)+
  have "\<exists>data. read_zstd_chunked_member_stored_bytes_from_bytes env local_pack li e = Inr data \<and>
      read_zstd_chunked_member_stored_bytes_from_bytes env remote_pack ri e = Inr data" if "e \<in> set (index_members li)" for e
    using compare_members_ok [OF c, of e e] that by (simp add: eqs zip_same_conv_map image_iff)
  with r eqs index_checksum_of_stored [OF r(2)] d show ?thesis by (metis sum.inject(2))
qed

lemma read_from_bytes_sample:
  assumes "read_zstd_chunked_raw_chunk copy_env pack sample_chunk = Inr [1, 2, 3, 1, 2]" and "length pack < 2 ^ 64"
    and "e \<in> set (index_members sample_index)"
  shows "\<exists>data. read_zstd_chunked_member_stored_bytes_from_bytes copy_env pack sample_index e = Inr data"
proof -
  have "validate_members ZSTD_CHUNKED_INDEX_KIND_OBJECT (index_chunks sample_index) 0 [] [] [] (index_members sample_index) = Inr ()"
    using sample_valid by (auto simp: validate_zstd_chunked_index_def res_bind_Inr split: if_splits)
  moreover have "validate_chunk_bytes copy_env pack (index_chunks sample_index) = Inr ()" using assms(1) by (simp add: sample_index_def)
  moreover have "\<forall>c. chunk_of_member sample_index e = Inr c \<longrightarrow> 0 < compressed_len c"
    by (auto simp: chunk_of_member_def sample_index_def sample_chunk_def nth_Cons' split: if_splits)
  ultimately show ?thesis
    using validated_member_read [OF _ _ assms(3)] member_from_bytes_agrees [OF assms(2)] by metis
qed

theorem reused_pack_is_local_pack_witness:
  "\<exists>pack digest kind canonical li. validate_content_addressed_zstd_pack_reuse copy_env (\<lambda>_. True) pack pack ''P'' PACK_FORMAT_ZSTD_CHUNKED_V1 = Inr digest \<and>
     read_zstd_chunked_container_index_from_bytes copy_env pack kind canonical = Inr li \<and> pack_id li = ''P''"
proof -
  obtain pack where len: "length pack < 2 ^ 64"
    and r: "read_zstd_chunked_container_index_from_bytes copy_env pack ZSTD_CHUNKED_INDEX_KIND_OBJECT PACK_FORMAT_ZSTD_CHUNKED_V1 = Inr sample_index"
    and ch: "read_zstd_chunked_raw_chunk copy_env pack sample_chunk = Inr [1, 2, 3, 1, 2]"
    using sample_reads by blast
  obtain bs where bs: "encode_zstd_chunked_index sample_index ZSTD_CHUNKED_INDEX_KIND_OBJECT = Inr bs" using sample_encoded by blast
  have "compare_members copy_env pack pack sample_index sample_index (map (\<lambda>e. (e, e)) es) = Inr ()"
    if "set es \<subseteq> set (index_members sample_index)" for es
    using that
  proof (induction es)
    case (Cons e es)
    then obtain data where "read_zstd_chunked_member_stored_bytes_from_bytes copy_env pack sample_index e = Inr data"
      using read_from_bytes_sample [OF ch len, of e] by auto
    with Cons show ?case by simp
  qed simp
  then have c: "compare_members copy_env pack pack sample_index sample_index (zip (index_members sample_index) (index_members sample_index)) = Inr ()"
    by (simp add: zip_same_conv_map)
  have "reuse_format PACK_FORMAT_ZSTD_CHUNKED_V1 = Inr (ZSTD_CHUNKED_INDEX_KIND_OBJECT, PACK_FORMAT_ZSTD_CHUNKED_V1)"
    by (simp add: reuse_format_def sample_trims)
  moreover have "pack_id sample_index = ''P''" "created_at sample_index = CONTENT_ADDRESSED_PACK_INDEX_CREATED_AT"
    by (simp_all add: sample_index_def)
  ultimately have "validate_content_addressed_zstd_pack_reuse copy_env (\<lambda>_. True) pack pack ''P'' PACK_FORMAT_ZSTD_CHUNKED_V1 = Inr (sha256_hex copy_env bs)"
    using r c bs by (simp add: validate_content_addressed_zstd_pack_reuse_def)
  with reused_pack_is_local_pack [OF this] show ?thesis by blast
qed

end
