(* ===== verification/Snapshot_Store.thy ===== *)
theory Snapshot_Store
  imports Pack_Strings "HOL-Library.List_Lexorder" "HOL-Library.Char_ord" "HOL-Library.Product_Lexorder"
begin

text \<open>
  Snapshots and their parents (\<open>snapshot_store.rs\<close>): the links of the history graph, the rules
  for the ordered parent list of a snapshot, and the ordered maps and sets of the standard library
  that the graph algorithms iterate over.
\<close>

section \<open>Ordered maps and sets\<close>

text \<open>
  A \<open>BTreeMap\<close> is the list of its entries in the order of the keys, a \<open>BTreeSet\<close> the
  ordered list of its elements; strings are compared byte by byte in both worlds.
\<close>

type_synonym ('k, 'v) btree_map = "('k \<times> 'v) list"

definition btree_wf :: "('k :: linorder, 'v) btree_map \<Rightarrow> bool" where
  "btree_wf m \<longleftrightarrow> sorted (map fst m) \<and> distinct (map fst m)"

fun btree_insert :: "'k :: linorder \<Rightarrow> 'v \<Rightarrow> ('k, 'v) btree_map \<Rightarrow> ('k, 'v) btree_map" where
  "btree_insert k v [] = [(k, v)]"
| "btree_insert k v ((k', v') # m) =
     (if k < k' then (k, v) # (k', v') # m
      else if k = k' then (k, v) # m
      else (k', v') # btree_insert k v m)"

lemma map_of_btree_insert [simp]:
  "btree_wf m \<Longrightarrow> map_of (btree_insert k v m) = (map_of m)(k \<mapsto> v)"
proof (induction m)
  case (Cons e m)
  obtain k' v' where e: "e = (k', v')" by fastforce
  have wf: "btree_wf m" and k': "k' \<notin> set (map fst m)" using Cons.prems by (auto simp: btree_wf_def e)
  show ?case
  proof (cases "k' < k")
    case True
    then show ?thesis using Cons.IH [OF wf] by (auto simp: e)
  next
    case False
    then show ?thesis by (auto simp: e)
  qed
qed simp

lemma keys_btree_insert [simp]: "fst ` set (btree_insert k v m) = insert k (fst ` set m)"
proof (induction k v m rule: btree_insert.induct)
  case (2 k v k' v' m)
  then show ?case by (simp add: insert_commute)
qed simp

lemma btree_wf_insert [simp]:
  assumes "btree_wf m"
  shows "btree_wf (btree_insert k v m)"
  using assms
proof (induction m)
  case (Cons e m)
  obtain k' v' where e: "e = (k', v')" by fastforce
  have wf: "btree_wf m" and lt: "\<forall>x \<in> set (map fst m). k' < x"
    using Cons.prems by (auto simp: btree_wf_def e order.strict_iff_order image_iff)
  show ?case
  proof (cases "k' < k")
    case True
    have "\<forall>x \<in> set (map fst (btree_insert k v m)). k' < x" using lt True by simp
    then show ?thesis using Cons.IH [OF wf] True by (auto simp: e btree_wf_def order.strict_implies_order)
  next
    case False
    then show ?thesis using Cons.prems by (force simp: e btree_wf_def)
  qed
qed (simp add: btree_wf_def)

lemma btree_wf_Nil [simp]: "btree_wf []"
  by (simp add: btree_wf_def)

lemma keys_map_of: "set (map fst m) = dom (map_of m)"
  by (simp add: dom_map_of_conv_image_fst)

fun btree_set_insert :: "'a :: linorder \<Rightarrow> 'a list \<Rightarrow> 'a list" where
  "btree_set_insert x [] = [x]"
| "btree_set_insert x (y # ys) = (if x < y then x # y # ys else if x = y then y # ys else y # btree_set_insert x ys)"

lemma set_btree_set_insert [simp]: "set (btree_set_insert x xs) = insert x (set xs)"
  by (induction xs) auto

lemma sorted_btree_set_insert [simp]:
  "sorted xs \<Longrightarrow> distinct xs \<Longrightarrow> sorted (btree_set_insert x xs) \<and> distinct (btree_set_insert x xs)"
  by (induction xs) (auto simp: order.strict_implies_order)

section \<open>Parent links\<close>

record SnapshotParentLink =
  link_snapshot_id :: string
  parent_snapshot_ids :: "string list"
  primary_parent_snapshot_id :: "string option"
  parent_snapshot_id :: "string option"

record SnapshotParentLinkPage =
  page_links :: "SnapshotParentLink list"
  next_cursor :: "64 word option"

definition MAX_SNAPSHOT_PARENT_COUNT :: nat where "MAX_SNAPSHOT_PARENT_COUNT = 1024"

datatype parent_set_error =
    ParentCountExceeds | PrimaryProjectionMismatch | CompatibilityProjectionMismatch
  | NoncanonicalParent nat | OwnParent nat | DuplicateParent nat

definition ascii_lower_char :: "char \<Rightarrow> char" where
  "ascii_lower_char c = (let n = of_char c :: nat in if 65 \<le> n \<and> n \<le> 90 then char_of (n + 32) else c)"

definition to_ascii_lowercase :: "string \<Rightarrow> string" where
  "to_ascii_lowercase = map ascii_lower_char"

definition eq_ignore_ascii_case :: "string \<Rightarrow> string \<Rightarrow> bool" where
  "eq_ignore_ascii_case a b \<longleftrightarrow> to_ascii_lowercase a = to_ascii_lowercase b"

definition canonical_text :: "string \<Rightarrow> bool" where
  "canonical_text s \<longleftrightarrow> trim s \<noteq> [] \<and> trim s = s"

text \<open>Identifiers of visible ASCII characters are canonical; the general test is only evaluated on others.\<close>

lemma canonical_text_code [code]:
  "canonical_text s \<longleftrightarrow>
    (if list_all (\<lambda>c. 32 < (of_char c :: nat) \<and> (of_char c :: nat) < 128) s then s \<noteq> [] else trim s \<noteq> [] \<and> trim s = s)"
  using trim_keeps [of s] by (auto simp: canonical_text_def list_all_iff)

definition first_parent :: "string list \<Rightarrow> string option" where
  "first_parent parents = (case parents of [] \<Rightarrow> None | p # _ \<Rightarrow> Some p)"

fun validate_parents :: "string option \<Rightarrow> nat \<Rightarrow> string list \<Rightarrow> string list \<Rightarrow> parent_set_error + unit" where
  "validate_parents child ordinal seen [] = Inr ()"
| "validate_parents child ordinal seen (parent # parents) =
     (if \<not> canonical_text parent then Inl (NoncanonicalParent ordinal)
      else if (case child of None \<Rightarrow> False | Some c \<Rightarrow> eq_ignore_ascii_case c parent) then Inl (OwnParent ordinal)
      else if to_ascii_lowercase parent \<in> set seen then Inl (DuplicateParent ordinal)
      else validate_parents child (Suc ordinal) (to_ascii_lowercase parent # seen) parents)"

definition validate_snapshot_parent_set ::
    "string option \<Rightarrow> string list \<Rightarrow> string option \<Rightarrow> string option \<Rightarrow> parent_set_error + unit" where
  "validate_snapshot_parent_set child parents primary legacy =
     (if length parents > MAX_SNAPSHOT_PARENT_COUNT then Inl ParentCountExceeds
      else if primary \<noteq> first_parent parents then Inl PrimaryProjectionMismatch
      else if legacy \<noteq> first_parent parents then Inl CompatibilityProjectionMismatch
      else validate_parents child 0 [] parents)"

definition compatibility_parent_projections :: "string list \<Rightarrow> string option \<times> string option" where
  "compatibility_parent_projections parents = (first_parent parents, first_parent parents)"

definition normalize_snapshot_parent_set ::
    "string option \<Rightarrow> string list option \<Rightarrow> string option \<Rightarrow> string option \<Rightarrow>
     parent_set_error + string list \<times> string option \<times> string option" where
  "normalize_snapshot_parent_set child parents primary legacy =
     (let parents = (case parents of Some ps \<Rightarrow> ps
                     | None \<Rightarrow> (case (case primary of Some p \<Rightarrow> Some p | None \<Rightarrow> legacy) of None \<Rightarrow> [] | Some p \<Rightarrow> [p]));
          (expected_primary, expected_compatibility) = compatibility_parent_projections parents
      in if primary \<noteq> None \<and> primary \<noteq> expected_primary then Inl PrimaryProjectionMismatch
         else if legacy \<noteq> None \<and> legacy \<noteq> expected_compatibility then Inl CompatibilityProjectionMismatch
         else res_bind (validate_snapshot_parent_set child parents expected_primary expected_compatibility) (\<lambda>_.
           Inr (parents, expected_primary, expected_compatibility)))"

section \<open>Valid parent sets\<close>

text \<open>What validation accepts, without its loop.\<close>

definition parent_set_ok :: "string option \<Rightarrow> string list \<Rightarrow> bool" where
  "parent_set_ok child parents \<longleftrightarrow> length parents \<le> MAX_SNAPSHOT_PARENT_COUNT \<and> (\<forall>p \<in> set parents. canonical_text p) \<and>
     (\<forall>c. child = Some c \<longrightarrow> to_ascii_lowercase c \<notin> to_ascii_lowercase ` set parents) \<and>
     distinct (map to_ascii_lowercase parents)"

lemma validate_parents_ok:
  "validate_parents child k seen parents = Inr () \<longleftrightarrow>
    (\<forall>p \<in> set parents. canonical_text p) \<and> (\<forall>c. child = Some c \<longrightarrow> to_ascii_lowercase c \<notin> to_ascii_lowercase ` set parents) \<and>
    distinct (map to_ascii_lowercase parents) \<and> to_ascii_lowercase ` set parents \<inter> set seen = {}"
  by (induction parents arbitrary: k seen) (auto simp: eq_ignore_ascii_case_def split: option.splits)

lemma validate_snapshot_parent_set_ok:
  "validate_snapshot_parent_set child parents primary legacy = Inr () \<longleftrightarrow>
    parent_set_ok child parents \<and> primary = first_parent parents \<and> legacy = first_parent parents"
  by (auto simp: validate_snapshot_parent_set_def parent_set_ok_def validate_parents_ok)

lemma parent_set_distinct: "parent_set_ok child parents \<Longrightarrow> distinct parents"
  by (auto simp: parent_set_ok_def distinct_map)

lemma parent_set_not_self: "parent_set_ok (Some c) parents \<Longrightarrow> c \<notin> set parents"
  by (auto simp: parent_set_ok_def)

end
