(* ===== verification/Snapshot_Dag.thy ===== *)
theory Snapshot_Dag
  imports Topological_Order
begin

text \<open>
  Walking the history (\<open>snapshot_dag.rs\<close>): ancestor and descendant closures over a snapshot
  store, the closure over a given parent map, ancestor distances with a cache, merge bases and
  first-parent chains.  The store is a parameter: a record of the trait's methods that the
  traversals call.
\<close>

section \<open>Limits and the store\<close>

datatype SnapshotParentMode = AllParents | FirstParent

datatype SnapshotDagLimitMode = LimitError | LimitTruncate

record SnapshotDagLimits =
  max_depth :: nat
  max_results :: nat
  batch_size :: nat
  limit_mode :: SnapshotDagLimitMode

definition DEFAULT_SNAPSHOT_DAG_MAX_DEPTH :: nat where "DEFAULT_SNAPSHOT_DAG_MAX_DEPTH = 1000000"

definition DEFAULT_SNAPSHOT_DAG_MAX_RESULTS :: nat where "DEFAULT_SNAPSHOT_DAG_MAX_RESULTS = 1000000"

definition DEFAULT_SNAPSHOT_DAG_BATCH_SIZE :: nat where "DEFAULT_SNAPSHOT_DAG_BATCH_SIZE = 256"

definition default_limits :: SnapshotDagLimits where
  "default_limits =
     \<lparr>max_depth = DEFAULT_SNAPSHOT_DAG_MAX_DEPTH, max_results = DEFAULT_SNAPSHOT_DAG_MAX_RESULTS,
      batch_size = DEFAULT_SNAPSHOT_DAG_BATCH_SIZE, limit_mode = LimitError\<rparr>"

definition validate_limits :: "SnapshotDagLimits \<Rightarrow> SnapshotDagLimits dag_result" where
  "validate_limits limits =
     (if max_results limits = 0 then Inl MaxResultsZero
      else if batch_size limits = 0 then Inl BatchSizeZero
      else Inr limits)"

record SnapshotDagTraversal =
  topological_snapshot_ids :: "string list"
  traversal_parents :: parent_map
  depth_by_snapshot_id :: "string \<rightharpoonup> nat"
  traversal_truncated :: bool

definition traversal_contains :: "SnapshotDagTraversal \<Rightarrow> string \<Rightarrow> bool" where
  "traversal_contains t s \<longleftrightarrow> map_of (traversal_parents t) s \<noteq> None"

definition distance_from_head :: "SnapshotDagTraversal \<Rightarrow> string \<Rightarrow> nat option" where
  "distance_from_head t s = depth_by_snapshot_id t s"

definition empty_traversal :: SnapshotDagTraversal where
  "empty_traversal =
     \<lparr>topological_snapshot_ids = [], traversal_parents = [], depth_by_snapshot_id = Map.empty, traversal_truncated = False\<rparr>"

record snapshot_store =
  store_parent_link :: "string \<Rightarrow> SnapshotParentLink option dag_result"
  store_parent_links :: "string list \<Rightarrow> SnapshotParentLink option list dag_result"
  store_parent_link_page :: "64 word \<Rightarrow> nat \<Rightarrow> SnapshotParentLinkPage dag_result"

text \<open>The provided methods of the trait: one lookup after the other, and no paging.\<close>

fun snapshot_parent_links_default ::
    "(string \<Rightarrow> SnapshotParentLink option dag_result) \<Rightarrow> string list \<Rightarrow> SnapshotParentLink option list dag_result" where
  "snapshot_parent_links_default lookup [] = Inr []"
| "snapshot_parent_links_default lookup (s # ss) =
     res_bind (lookup s) (\<lambda>link. res_bind (snapshot_parent_links_default lookup ss) (\<lambda>links. Inr (link # links)))"

definition snapshot_parent_link_page_default :: "64 word \<Rightarrow> nat \<Rightarrow> SnapshotParentLinkPage dag_result" where
  "snapshot_parent_link_page_default cursor limit = Inl StoreFailed"

section \<open>Shared steps\<close>

record dag_state =
  pending :: "string list"
  discovered :: "string list"
  depth_of :: "string \<rightharpoonup> nat"
  requested_by :: "string \<rightharpoonup> string option"
  rank_of :: "string \<rightharpoonup> nat"
  next_rank :: nat
  truncated :: bool
  chosen :: parent_map

definition empty_dag_state :: dag_state where
  "empty_dag_state =
     \<lparr>pending = [], discovered = [], depth_of = Map.empty, requested_by = Map.empty, rank_of = Map.empty,
      next_rank = 0, truncated = False, chosen = []\<rparr>"

definition truncate_or_error :: "SnapshotDagLimits \<Rightarrow> dag_error \<Rightarrow> dag_state \<Rightarrow> dag_state dag_result" where
  "truncate_or_error limits err st =
     (case limit_mode limits of LimitError \<Rightarrow> Inl err | LimitTruncate \<Rightarrow> Inr (st\<lparr>truncated := True\<rparr>))"

fun canonical_ids :: "string \<Rightarrow> nat \<Rightarrow> string list \<Rightarrow> string list \<Rightarrow> string list dag_result" where
  "canonical_ids role ordinal out [] = Inr out"
| "canonical_ids role ordinal out (v # vs) =
     (if \<not> canonical_text v then Inl (NoncanonicalId role ordinal)
      else canonical_ids role (Suc ordinal) (if v \<in> set out then out else out @ [v]) vs)"

definition canonical_snapshot_ids :: "string list \<Rightarrow> string \<Rightarrow> string list dag_result" where
  "canonical_snapshot_ids ids role = canonical_ids role 0 [] ids"

definition validate_link :: "string \<Rightarrow> SnapshotParentLink \<Rightarrow> unit dag_result" where
  "validate_link s link =
     parent_set_result (validate_snapshot_parent_set (Some s) (parent_snapshot_ids link)
       (primary_parent_snapshot_id link) (parent_snapshot_id link))"

definition require_parent_link ::
    "string \<Rightarrow> SnapshotParentLink option \<Rightarrow> string option option \<Rightarrow> SnapshotParentLink dag_result" where
  "require_parent_link s link requested =
     (case link of
        None \<Rightarrow> (case Option.bind requested id of
                  Some child \<Rightarrow> Inl (ParentIsMissing s child)
                | None \<Rightarrow> Inl (UnknownSnapshot s))
      | Some link \<Rightarrow>
          if link_snapshot_id link \<noteq> s then Inl (LinkForOtherSnapshot s)
          else res_bind (validate_link s link) (\<lambda>_. Inr link))"

definition selected_parents :: "SnapshotParentLink \<Rightarrow> SnapshotParentMode \<Rightarrow> string list dag_result" where
  "selected_parents link mode =
     res_bind (validate_link (link_snapshot_id link) link) (\<lambda>_.
       Inr (case mode of
              AllParents \<Rightarrow> parent_snapshot_ids link
            | FirstParent \<Rightarrow> (case primary_parent_snapshot_id link of None \<Rightarrow> [] | Some p \<Rightarrow> [p])))"

text \<open>
  The bookkeeping of a newly found snapshot.  The parent-map closure keeps no \<open>requested_by\<close> and the
  distance search keeps no ranks; there the fields are written and never read.
\<close>

definition discover :: "string \<Rightarrow> nat \<Rightarrow> string option \<Rightarrow> dag_state \<Rightarrow> dag_state" where
  "discover s depth requested st = st
     \<lparr>pending := pending st @ [s], discovered := discovered st @ [s],
      depth_of := (depth_of st)(s \<mapsto> depth), requested_by := (requested_by st)(s \<mapsto> requested),
      rank_of := (rank_of st)(s \<mapsto> next_rank st), next_rank := next_rank st + 1\<rparr>"

fun queue_heads :: "SnapshotDagLimits \<Rightarrow> string set \<Rightarrow> string list \<Rightarrow> dag_state \<Rightarrow> dag_state dag_result" where
  "queue_heads limits stop [] st = Inr st"
| "queue_heads limits stop (head # heads) st =
     (if head \<in> stop \<or> head \<in> set (discovered st) then queue_heads limits stop heads st
      else if length (discovered st) \<ge> max_results limits
      then res_bind (truncate_or_error limits (MaxResultsExceeded head) st) (queue_heads limits stop heads)
      else queue_heads limits stop heads (discover head 0 None st))"

text \<open>
  The parents of one snapshot.  \<open>present\<close> is the test of the parent-map closure for parents without an
  entry; the store closures accept every parent here and ask the store when its turn comes.
\<close>

fun add_parents ::
    "SnapshotDagLimits \<Rightarrow> (string \<Rightarrow> bool) \<Rightarrow> string \<Rightarrow> nat \<Rightarrow> string list \<Rightarrow> string list \<Rightarrow> dag_state \<Rightarrow>
     (string list \<times> dag_state) dag_result" where
  "add_parents limits present s depth [] included st = Inr (included, st)"
| "add_parents limits present s depth (p # ps) included st =
     (if p \<in> set (discovered st) then add_parents limits present s depth ps (included @ [p]) st
      else if length (discovered st) \<ge> max_results limits
      then res_bind (truncate_or_error limits (MaxResultsExceeded p) st) (add_parents limits present s depth ps included)
      else if \<not> present p then Inl (ParentIsMissing p s)
      else add_parents limits present s depth ps (included @ [p]) (discover p (depth + 1) (Some s) st))"

text \<open>A snapshot at the depth limit loses its parents or ends the traversal.\<close>

definition limit_depth ::
    "SnapshotDagLimits \<Rightarrow> string \<Rightarrow> nat \<Rightarrow> string list \<Rightarrow> dag_state \<Rightarrow> (string list \<times> dag_state) dag_result" where
  "limit_depth limits s depth parents st =
     (if parents \<noteq> [] \<and> depth \<ge> max_depth limits
      then res_bind (truncate_or_error limits (MaxDepthExceeded s) st) (\<lambda>st. Inr ([], st))
      else Inr (parents, st))"

text \<open>
  One snapshot of a closure: its depth is looked up (the parent-map closure indexes the map, which
  would panic where the store closure reports the lost depth), its parents outside the stop set are
  added, and the parents that are part of the closure are recorded.
\<close>

definition expand ::
    "SnapshotDagLimits \<Rightarrow> string set \<Rightarrow> (string \<Rightarrow> bool) \<Rightarrow> string \<Rightarrow> string list \<Rightarrow> dag_state \<Rightarrow> dag_state dag_result" where
  "expand limits stop present s parents st =
     (case depth_of st s of
        None \<Rightarrow> Inl (LostDepth s)
      | Some depth \<Rightarrow>
          res_bind (limit_depth limits s depth (filter (\<lambda>p. p \<notin> stop) parents) st) (\<lambda>(parents, st).
          res_bind (add_parents limits present s depth parents [] st) (\<lambda>(included, st).
            Inr (st\<lparr>chosen := btree_insert s included (chosen st)\<rparr>))))"

text \<open>How many snapshots a traversal can still take: it never grows, so the loops end.\<close>

definition room :: "SnapshotDagLimits \<Rightarrow> dag_state \<Rightarrow> nat" where
  "room limits st = (max_results limits - length (discovered st)) + length (pending st)"

lemma res_bind_cong [fundef_cong]:
  "r = r' \<Longrightarrow> (\<And>x. r' = Inr x \<Longrightarrow> f x = g x) \<Longrightarrow> res_bind r f = res_bind r' g"
  by (cases r') simp_all

lemma truncate_or_error_Inr: "truncate_or_error limits e st = Inr st' \<longleftrightarrow> limit_mode limits = LimitTruncate \<and> st' = st\<lparr>truncated := True\<rparr>"
  by (auto simp: truncate_or_error_def split: SnapshotDagLimitMode.splits)

lemma add_parents_room: "add_parents limits present s d ps included st = Inr (included', st') \<Longrightarrow> room limits st' = room limits st"
proof (induction ps arbitrary: included st)
  case (Cons p ps)
  show ?case
  proof (cases "p \<notin> set (discovered st) \<and> length (discovered st) < max_results limits")
    case True
    with Cons.prems have "room limits st' = room limits (discover p (d + 1) (Some s) st)"
      by (auto split: if_splits intro: Cons.IH)
    with True show ?thesis unfolding room_def discover_def by (simp, arith)
  next
    case False
    with Cons.prems have "room limits st' = room limits st \<or> room limits st' = room limits (st\<lparr>truncated := True\<rparr>)"
      by (auto simp: res_bind_Inr truncate_or_error_Inr split: if_splits dest: Cons.IH)
    then show ?thesis by (simp add: room_def)
  qed
qed simp

lemma limit_depth_room: "limit_depth limits s d ps st = Inr (ps', st') \<Longrightarrow> room limits st' = room limits st"
  by (auto simp: limit_depth_def res_bind_Inr truncate_or_error_Inr room_def split: if_splits)

lemma expand_room: "expand limits stop present s ps st = Inr st' \<Longrightarrow> room limits st' = room limits st"
  by (auto simp: expand_def res_bind_Inr room_def split: option.splits prod.splits
      dest!: limit_depth_room add_parents_room)

section \<open>Ancestor closures\<close>

fun expand_batch ::
    "SnapshotDagLimits \<Rightarrow> string set \<Rightarrow> SnapshotParentMode \<Rightarrow> (string \<times> SnapshotParentLink option) list \<Rightarrow> dag_state \<Rightarrow> dag_state dag_result" where
  "expand_batch limits stop mode [] st = Inr st"
| "expand_batch limits stop mode ((s, link) # rest) st =
     res_bind (require_parent_link s link (requested_by st s)) (\<lambda>link.
     res_bind (selected_parents link mode) (\<lambda>parents.
     res_bind (expand limits stop (\<lambda>_. True) s parents st) (\<lambda>st.
       expand_batch limits stop mode rest st)))"

lemma expand_batch_room: "expand_batch limits stop mode links st = Inr st' \<Longrightarrow> room limits st' = room limits st"
  by (induction links arbitrary: st) (auto simp: res_bind_Inr dest!: expand_room)

text \<open>
  The loop takes up to \<open>batch_size\<close> pending snapshots at a time.  The limits are validated before it, so
  the batch size is positive; with a batch size of zero the loop of the code would not end, and the
  model's loop stops there.
\<close>

function closure_loop ::
    "snapshot_store \<Rightarrow> string set \<Rightarrow> SnapshotParentMode \<Rightarrow> SnapshotDagLimits \<Rightarrow> dag_state \<Rightarrow> dag_state dag_result" where
  "closure_loop store stop mode limits st =
     (if pending st = [] \<or> batch_size limits = 0 then Inr st
      else
        let batch = take (batch_size limits) (pending st);
            st = st\<lparr>pending := drop (batch_size limits) (pending st)\<rparr>
        in res_bind (store_parent_links store batch) (\<lambda>links.
           if length links \<noteq> length batch then Inl ParentBatchLength
           else res_bind (expand_batch limits stop mode (zip batch links) st) (\<lambda>st.
             closure_loop store stop mode limits st)))"
  by pat_completeness auto
termination
proof (relation "measure (\<lambda>(_, _, _, limits, st). room limits st)")
  fix store stop mode and limits :: SnapshotDagLimits and st batch st1 links st2
  assume *: "\<not> (pending st = [] \<or> batch_size limits = 0)" "batch = take (batch_size limits) (pending st)"
    "st1 = st\<lparr>pending := drop (batch_size limits) (pending st)\<rparr>"
    "expand_batch limits stop mode (zip batch links) st1 = Inr st2"
  have "room limits st2 = room limits st1" by (rule expand_batch_room [OF *(4)])
  also have "\<dots> < room limits st" using * by (simp add: room_def)
  finally show "((store, stop, mode, limits, st2), store, stop, mode, limits, st) \<in> measure (\<lambda>(_, _, _, limits, st). room limits st)"
    by simp
qed simp

declare closure_loop.simps [simp del]

definition finish_traversal :: "dag_state \<Rightarrow> SnapshotDagTraversal dag_result" where
  "finish_traversal st =
     res_bind (topological_order_with_rank (chosen st) {} (Some (rank_of st))) (\<lambda>ordered.
       Inr \<lparr>topological_snapshot_ids = ordered, traversal_parents = chosen st,
            depth_by_snapshot_id = depth_of st, traversal_truncated = truncated st\<rparr>)"

definition snapshot_ancestor_closure ::
    "snapshot_store \<Rightarrow> string list \<Rightarrow> string set \<Rightarrow> SnapshotParentMode \<Rightarrow> SnapshotDagLimits \<Rightarrow> SnapshotDagTraversal dag_result" where
  "snapshot_ancestor_closure store heads stop mode limits =
     res_bind (validate_limits limits) (\<lambda>limits.
     res_bind (canonical_snapshot_ids heads ''head'') (\<lambda>heads.
       if heads = [] then Inr empty_traversal
       else
         res_bind (queue_heads limits stop heads empty_dag_state) (\<lambda>st.
         res_bind (closure_loop store stop mode limits st) finish_traversal)))"

text \<open>The same walk over a parent map that the caller already has, one snapshot at a time.\<close>

definition map_parents :: "parent_map \<Rightarrow> SnapshotParentMode \<Rightarrow> string \<Rightarrow> string list dag_result" where
  "map_parents parents mode s =
     (case map_of parents s of
        None \<Rightarrow> Inl (MissingFromMap s)
      | Some ps \<Rightarrow>
          res_bind (parent_set_result (validate_snapshot_parent_set (Some s) ps (first_parent ps) (first_parent ps))) (\<lambda>_.
            Inr (case mode of AllParents \<Rightarrow> ps | FirstParent \<Rightarrow> (case first_parent ps of None \<Rightarrow> [] | Some p \<Rightarrow> [p]))))"

function walk ::
    "(string \<Rightarrow> string list dag_result) \<Rightarrow> (string \<Rightarrow> bool) \<Rightarrow> string set \<Rightarrow> SnapshotDagLimits \<Rightarrow> dag_state \<Rightarrow> dag_state dag_result" where
  "walk parents_of present stop limits st =
     (case pending st of
        [] \<Rightarrow> Inr st
      | s # rest \<Rightarrow>
          res_bind (parents_of s) (\<lambda>parents.
          res_bind (expand limits stop present s parents (st\<lparr>pending := rest\<rparr>)) (\<lambda>st.
            walk parents_of present stop limits st)))"
  by pat_completeness auto
termination
proof (relation "measure (\<lambda>(_, _, _, limits, st). room limits st)")
  fix parents_of present stop and limits :: SnapshotDagLimits and st s rest parents st2
  assume *: "pending st = s # rest" "expand limits stop present s parents (st\<lparr>pending := rest\<rparr>) = Inr st2"
  then show "((parents_of, present, stop, limits, st2), parents_of, present, stop, limits, st)
      \<in> measure (\<lambda>(_, _, _, limits, st). room limits st)"
    using expand_room [OF *(2)] by (simp add: room_def)
qed simp

declare walk.simps [simp del]

definition snapshot_ancestor_closure_from_parent_map ::
    "parent_map \<Rightarrow> string list \<Rightarrow> string set \<Rightarrow> SnapshotParentMode \<Rightarrow> SnapshotDagLimits \<Rightarrow> SnapshotDagTraversal dag_result" where
  "snapshot_ancestor_closure_from_parent_map parents heads stop mode limits =
     res_bind (validate_limits limits) (\<lambda>limits.
     res_bind (canonical_snapshot_ids heads ''head'') (\<lambda>heads.
     res_bind (queue_heads limits stop heads empty_dag_state) (\<lambda>st.
     res_bind (walk (map_parents parents mode) (\<lambda>p. map_of parents p \<noteq> None) stop limits st)
       finish_traversal)))"

end
