(* ===== verification/Snapshot_Queries.thy ===== *)
theory Snapshot_Queries
  imports Snapshot_Dag
begin

text \<open>
  Questions about the history (\<open>snapshot_dag.rs\<close>): the distance to an ancestor with its cache of parent
  links, merge bases, first-parent chains, and the closure of descendants over the store's pages.
\<close>

section \<open>Ancestor distance\<close>

type_synonym SnapshotAncestorDistanceCache = "string \<rightharpoonup> SnapshotParentLink option"

fun cache_lookups :: "SnapshotAncestorDistanceCache \<Rightarrow> string list \<Rightarrow> SnapshotParentLink option list dag_result" where
  "cache_lookups cache [] = Inr []"
| "cache_lookups cache (s # ss) =
     (case cache s of
        None \<Rightarrow> Inl (LostCacheEntry s)
      | Some link \<Rightarrow> res_bind (cache_lookups cache ss) (\<lambda>links. Inr (link # links)))"

definition cached_parent_links ::
    "snapshot_store \<Rightarrow> string list \<Rightarrow> SnapshotAncestorDistanceCache \<Rightarrow>
     SnapshotAncestorDistanceCache \<times> SnapshotParentLink option list dag_result" where
  "cached_parent_links store ids cache =
     (let missing = filter (\<lambda>s. cache s = None) ids
      in if missing = [] then (cache, cache_lookups cache ids)
         else case store_parent_links store missing of
                Inl e \<Rightarrow> (cache, Inl e)
              | Inr links \<Rightarrow>
                  if length links \<noteq> length missing then (cache, Inl ParentBatchLength)
                  else let cache = fold (\<lambda>(s, link) cache. cache(s \<mapsto> link)) (zip missing links) cache
                       in (cache, cache_lookups cache ids))"

datatype search_step = Found nat | Searching dag_state

fun search_batch ::
    "SnapshotDagLimits \<Rightarrow> string \<Rightarrow> (string \<times> SnapshotParentLink option) list \<Rightarrow> dag_state \<Rightarrow> search_step dag_result" where
  "search_batch limits ancestor [] st = Inr (Searching st)"
| "search_batch limits ancestor ((s, link) # rest) st =
     res_bind (require_parent_link s link (requested_by st s)) (\<lambda>link.
     res_bind (selected_parents link AllParents) (\<lambda>parents.
     case depth_of st s of
       None \<Rightarrow> Inl (LostDepth s)
     | Some depth \<Rightarrow>
         if s = ancestor then Inr (Found depth)
         else
           res_bind (limit_depth limits s depth parents st) (\<lambda>(parents, st).
           res_bind (add_parents limits (\<lambda>_. True) s depth parents [] st) (\<lambda>(_, st).
             search_batch limits ancestor rest st))))"

lemma search_batch_Cons:
  "search_batch limits ancestor ((s, link) # rest) st = Inr step \<longleftrightarrow>
    (\<exists>l ps d. require_parent_link s link (requested_by st s) = Inr l \<and> selected_parents l AllParents = Inr ps \<and>
      depth_of st s = Some d \<and>
      (if s = ancestor then step = Found d
       else \<exists>ps' st1 included st2. limit_depth limits s d ps st = Inr (ps', st1) \<and>
         add_parents limits (\<lambda>_. True) s d ps' [] st1 = Inr (included, st2) \<and> search_batch limits ancestor rest st2 = Inr step))"
  by (cases "depth_of st s"; cases "s = ancestor") (auto simp: res_bind_Inr)

lemma search_batch_room: "search_batch limits ancestor links st = Inr (Searching st') \<Longrightarrow> room limits st' = room limits st"
proof (induction links arbitrary: st)
  case (Cons e links)
  then show ?case
    by (cases e) (auto simp: search_batch_Cons simp del: search_batch.simps(2) split: if_split_asm
        dest!: limit_depth_room add_parents_room)
qed simp

function distance_loop ::
    "snapshot_store \<Rightarrow> string \<Rightarrow> SnapshotDagLimits \<Rightarrow> SnapshotAncestorDistanceCache \<Rightarrow> dag_state \<Rightarrow>
     SnapshotAncestorDistanceCache \<times> nat option dag_result" where
  "distance_loop store ancestor limits cache st =
     (if pending st = [] \<or> batch_size limits = 0 then (cache, Inr None)
      else
        let batch = take (batch_size limits) (pending st);
            st = st\<lparr>pending := drop (batch_size limits) (pending st)\<rparr>
        in case cached_parent_links store batch cache of
             (cache, Inl e) \<Rightarrow> (cache, Inl e)
           | (cache, Inr links) \<Rightarrow>
               (case search_batch limits ancestor (zip batch links) st of
                  Inl e \<Rightarrow> (cache, Inl e)
                | Inr (Found depth) \<Rightarrow> (cache, Inr (Some depth))
                | Inr (Searching st) \<Rightarrow> distance_loop store ancestor limits cache st))"
  by pat_completeness auto
termination
proof (relation "measure (\<lambda>(_, _, limits, _, st). room limits st)")
  fix store ancestor and limits :: SnapshotDagLimits and cache cache' links st batch st1 st2 and r :: "SnapshotParentLink option list dag_result" and step
  assume *: "\<not> (pending st = [] \<or> batch_size limits = 0)" "st1 = st\<lparr>pending := drop (batch_size limits) (pending st)\<rparr>"
    "search_batch limits ancestor (zip batch links) st1 = Inr step" "step = Searching st2"
  then have "room limits st2 = room limits st1" by (intro search_batch_room) simp
  also have "\<dots> < room limits st" using *(1,2) by (simp add: room_def)
  finally show "((store, ancestor, limits, cache', st2), store, ancestor, limits, cache, st)
      \<in> measure (\<lambda>(_, _, limits, _, st). room limits st)" by simp
qed simp

declare distance_loop.simps [simp del]

definition snapshot_ancestor_distance_with_cache ::
    "snapshot_store \<Rightarrow> string \<Rightarrow> string \<Rightarrow> SnapshotDagLimits \<Rightarrow> SnapshotAncestorDistanceCache \<Rightarrow>
     SnapshotAncestorDistanceCache \<times> nat option dag_result" where
  "snapshot_ancestor_distance_with_cache store ancestor descendant limits cache =
     (case res_bind (validate_limits limits) (\<lambda>_. canonical_snapshot_ids [descendant] ''descendant'') of
        Inl e \<Rightarrow> (cache, Inl e)
      | Inr _ \<Rightarrow> distance_loop store ancestor limits cache (discover descendant 0 None empty_dag_state))"

definition snapshot_ancestor_distance ::
    "snapshot_store \<Rightarrow> string \<Rightarrow> string \<Rightarrow> SnapshotDagLimits \<Rightarrow> nat option dag_result" where
  "snapshot_ancestor_distance store ancestor descendant limits =
     snd (snapshot_ancestor_distance_with_cache store ancestor descendant limits Map.empty)"

definition snapshot_is_ancestor ::
    "snapshot_store \<Rightarrow> string \<Rightarrow> string \<Rightarrow> SnapshotDagLimits \<Rightarrow> nat option dag_result" where
  "snapshot_is_ancestor = snapshot_ancestor_distance"

section \<open>Merge bases\<close>

definition distance_or_max :: "SnapshotDagTraversal \<Rightarrow> string \<Rightarrow> nat" where
  "distance_or_max t s = (case distance_from_head t s of None \<Rightarrow> 2 ^ 64 - 1 | Some d \<Rightarrow> d)"

definition merge_base_sort_key ::
    "SnapshotDagTraversal \<Rightarrow> SnapshotDagTraversal \<Rightarrow> string \<Rightarrow> nat \<times> nat \<times> string" where
  "merge_base_sort_key left right s =
     (max (distance_or_max left s) (distance_or_max right s),
      min (distance_or_max left s + distance_or_max right s) (2 ^ 64 - 1), s)"

definition common_snapshots :: "SnapshotDagTraversal \<Rightarrow> SnapshotDagTraversal \<Rightarrow> string list" where
  "common_snapshots left right =
     filter (\<lambda>s. map_of (traversal_parents right) s \<noteq> None) (map fst (traversal_parents left))"

fun common_children :: "SnapshotDagTraversal \<Rightarrow> SnapshotDagTraversal \<Rightarrow> string list \<Rightarrow> string list \<Rightarrow> string set \<Rightarrow> string set dag_result" where
  "common_children left right common [] acc = Inr acc"
| "common_children left right common (s # ss) acc =
     (case (case map_of (traversal_parents left) s of None \<Rightarrow> map_of (traversal_parents right) s | Some ps \<Rightarrow> Some ps) of
        None \<Rightarrow> Inl (LostCommonNode s)
      | Some ps \<Rightarrow> common_children left right common ss (acc \<union> {p \<in> set ps. p \<in> set common}))"

definition merge_bases_from_traversals ::
    "SnapshotDagTraversal \<Rightarrow> SnapshotDagTraversal \<Rightarrow> string list dag_result" where
  "merge_bases_from_traversals left right =
     (let common = common_snapshots left right
      in if common = [] then Inr []
         else res_bind (common_children left right common common {}) (\<lambda>has_common_child.
           Inr (sort_key (merge_base_sort_key left right) (filter (\<lambda>s. s \<notin> has_common_child) common))))"

definition snapshot_merge_bases ::
    "snapshot_store \<Rightarrow> string \<Rightarrow> string \<Rightarrow> SnapshotDagLimits \<Rightarrow> string list dag_result" where
  "snapshot_merge_bases store left_id right_id limits =
     res_bind (snapshot_ancestor_closure store [left_id] {} AllParents limits) (\<lambda>left.
     res_bind (snapshot_ancestor_closure store [right_id] {} AllParents limits) (\<lambda>right.
       merge_bases_from_traversals left right))"

definition snapshot_merge_bases_from_parent_map ::
    "parent_map \<Rightarrow> string \<Rightarrow> string \<Rightarrow> SnapshotDagLimits \<Rightarrow> string list dag_result" where
  "snapshot_merge_bases_from_parent_map parents left_id right_id limits =
     res_bind (snapshot_ancestor_closure_from_parent_map parents [left_id] {} AllParents limits) (\<lambda>left.
     res_bind (snapshot_ancestor_closure_from_parent_map parents [right_id] {} AllParents limits) (\<lambda>right.
       merge_bases_from_traversals left right))"

section \<open>First-parent chains\<close>

definition snapshot_first_parent_chain ::
    "snapshot_store \<Rightarrow> string \<Rightarrow> string option \<Rightarrow> SnapshotDagLimits \<Rightarrow> string list dag_result" where
  "snapshot_first_parent_chain store target selected limits =
     res_bind (store_parent_link store target) (\<lambda>target_link.
     case target_link of
       None \<Rightarrow> Inl (UnknownSnapshot target)
     | Some link \<Rightarrow>
         (case selected of
            None \<Rightarrow>
              res_bind (snapshot_ancestor_closure store [target] {} FirstParent limits) (\<lambda>t.
                Inr (topological_snapshot_ids t))
          | Some parent \<Rightarrow>
              if parent \<notin> set (parent_snapshot_ids link) then Inl (NotSelectedParent parent)
              else
                res_bind (snapshot_ancestor_closure store [parent] {} FirstParent limits) (\<lambda>t.
                  Inr (topological_snapshot_ids t @ [target]))))"

end
