(* ===== verification/Topological_Laws.thy ===== *)
theory Topological_Laws
  imports Topological_Order
begin

text \<open>
  The order lists every snapshot once, parents before children, and exists exactly when the parent
  lists are valid, no parent is missing and no snapshot is its own ancestor.
\<close>

section \<open>The counts\<close>

definition inner_parents :: "parent_map \<Rightarrow> string set \<Rightarrow> string \<Rightarrow> string list" where
  "inner_parents all external c = filter (\<lambda>p. p \<notin> external) (case map_of all c of None \<Rightarrow> [] | Some ps \<Rightarrow> ps)"

definition kids_of :: "topo_state \<Rightarrow> string \<Rightarrow> string list" where
  "kids_of st p = (case children st p of None \<Rightarrow> [] | Some cs \<Rightarrow> cs)"

lemma count_parents_run:
  assumes "distinct ps" "\<forall>p \<in> set ps. p \<in> external \<or> map_of all p \<noteq> None" "btree_wf (indegree st)"
    "map_of (indegree st) c = Some n"
  shows "\<exists>st'. count_parents all external c ps st = Inr st' \<and> btree_wf (indegree st') \<and>
    (\<forall>x. map_of (indegree st') x = (if x = c then Some (n + length (filter (\<lambda>p. p \<notin> external) ps)) else map_of (indegree st) x)) \<and>
    (\<forall>p. kids_of st' p = kids_of st p @ (if p \<in> set ps \<and> p \<notin> external then [c] else []))"
  using assms
proof (induction ps arbitrary: st n)
  case Nil
  then show ?case by (auto simp: map_upd_triv)
next
  case (Cons q ps)
  show ?case
  proof (cases "q \<in> external")
    case True
    moreover from Cons.IH [of st n] Cons.prems obtain st' where
      "count_parents all external c ps st = Inr st'" "btree_wf (indegree st')"
      "\<forall>x. map_of (indegree st') x = (if x = c then Some (n + length (filter (\<lambda>p. p \<notin> external) ps)) else map_of (indegree st) x)"
      "\<forall>p. kids_of st' p = kids_of st p @ (if p \<in> set ps \<and> p \<notin> external then [c] else [])" by auto
    ultimately show ?thesis by (intro exI [of _ st']) auto
  next
    case False
    define st1 where "st1 = \<lparr>indegree = bump_indegree c (indegree st), children = add_child q c (children st)\<rparr>"
    have wf1: "btree_wf (indegree st1)" "map_of (indegree st1) = (map_of (indegree st))(c \<mapsto> Suc n)"
      using Cons.prems by (simp_all add: st1_def bump_indegree_def)
    have "kids_of st1 p = kids_of st p @ (if p = q then [c] else [])" for p
      by (simp add: st1_def kids_of_def add_child_def split: option.splits)
    moreover from Cons.IH [of st1 "Suc n"] wf1 Cons.prems obtain st' where
      "count_parents all external c ps st1 = Inr st'" "btree_wf (indegree st')"
      "\<forall>x. map_of (indegree st') x = (if x = c then Some (Suc n + length (filter (\<lambda>p. p \<notin> external) ps)) else map_of (indegree st1) x)"
      "\<forall>p. kids_of st' p = kids_of st1 p @ (if p \<in> set ps \<and> p \<notin> external then [c] else [])" by auto
    ultimately show ?thesis
      using False Cons.prems(1,2) wf1(2) by (intro exI [of _ st']) (auto simp: st1_def [symmetric])
  qed
qed

lemma count_parents_needs:
  "count_parents all external c ps st = Inr st' \<Longrightarrow> p \<in> set ps \<Longrightarrow> p \<in> external \<or> map_of all p \<noteq> None"
  by (induction ps arbitrary: st) (auto split: if_splits)

definition entries_ok :: "parent_map \<Rightarrow> string set \<Rightarrow> parent_map \<Rightarrow> bool" where
  "entries_ok all external es \<longleftrightarrow> (\<forall>(c, ps) \<in> set es. parent_set_ok (Some c) ps \<and>
     (\<forall>p \<in> set ps. p \<in> external \<or> map_of all p \<noteq> None))"

definition counted :: "parent_map \<Rightarrow> string set \<Rightarrow> parent_map \<Rightarrow> topo_state \<Rightarrow> bool" where
  "counted all external past st \<longleftrightarrow> btree_wf (indegree st) \<and>
     map_of (indegree st) = (\<lambda>c. if c \<in> fst ` set past then Some (length (inner_parents all external c)) else None) \<and>
     (\<forall>p. distinct (kids_of st p) \<and> set (kids_of st p) = {c \<in> fst ` set past. p \<in> set (inner_parents all external c)})"

lemma count_all_run:
  assumes "distinct (map fst all)" "all = past @ es" "entries_ok all external es" "counted all external past st"
  shows "\<exists>st'. count_all all external es st = Inr st' \<and> counted all external all st'"
  using assms
proof (induction es arbitrary: past st)
  case (Cons e es)
  obtain c ps where e: "e = (c, ps)" by fastforce
  have fresh: "c \<notin> fst ` set past" using Cons.prems(1,2) by (auto simp: e)
  have look: "map_of all c = Some ps" using Cons.prems(1,2) by (intro map_of_is_SomeI) (auto simp: e)
  have ok: "parent_set_ok (Some c) ps" "\<forall>p \<in> set ps. p \<in> external \<or> map_of all p \<noteq> None"
    using Cons.prems(3) by (auto simp: entries_ok_def e)
  define st0 where "st0 = st\<lparr>indegree := (if map_of (indegree st) c = None then btree_insert c 0 (indegree st) else indegree st)\<rparr>"
  have c0: "btree_wf (indegree st)" "map_of (indegree st) c = None" using Cons.prems(4) fresh by (simp_all add: counted_def)
  then have i0: "btree_wf (indegree st0)" "map_of (indegree st0) = (map_of (indegree st))(c \<mapsto> 0)" "kids_of st0 = kids_of st"
    by (simp_all add: st0_def kids_of_def fun_eq_iff)
  from count_parents_run [OF parent_set_distinct [OF ok(1)] ok(2) i0(1), of c 0] i0(2) obtain st1 where
    st1: "count_parents all external c ps st0 = Inr st1" "btree_wf (indegree st1)"
      "\<forall>x. map_of (indegree st1) x = (if x = c then Some (0 + length (filter (\<lambda>p. p \<notin> external) ps)) else map_of (indegree st0) x)"
      "\<forall>p. kids_of st1 p = kids_of st0 p @ (if p \<in> set ps \<and> p \<notin> external then [c] else [])" by auto
  have inner: "inner_parents all external c = filter (\<lambda>p. p \<notin> external) ps" by (simp add: inner_parents_def look)
  have deg: "map_of (indegree st1) = (\<lambda>x. if x \<in> fst ` set (past @ [e]) then Some (length (inner_parents all external x)) else None)"
    using st1(3) i0(2) Cons.prems(4) by (auto simp: counted_def e fun_eq_iff inner)
  have "distinct (kids_of st1 p) \<and> set (kids_of st1 p) = {x \<in> fst ` set (past @ [e]). p \<in> set (inner_parents all external x)}" for p
    using Cons.prems(4) st1(4) i0(3) fresh by (auto simp: counted_def e inner)
  with deg st1(2) have "counted all external (past @ [e]) st1" by (simp add: counted_def)
  from Cons.IH [OF Cons.prems(1) _ _ this] Cons.prems(2,3) obtain st' where
    "count_all all external es st1 = Inr st'" "counted all external all st'" by (auto simp: entries_ok_def)
  moreover have "validate_snapshot_parent_set (Some c) ps (first_parent ps) (first_parent ps) = Inr ()"
    using ok(1) by (simp add: validate_snapshot_parent_set_ok)
  ultimately show ?case using st1(1) by (simp add: e parent_set_result_def flip: st0_def)
qed simp

lemma count_all_needs:
  "count_all all external es st = Inr st' \<Longrightarrow> entries_ok all external es"
proof (induction es arbitrary: st)
  case (Cons e es)
  obtain c ps where e: "e = (c, ps)" by fastforce
  from Cons.prems obtain st1 st2 where "parent_set_ok (Some c) ps" "count_parents all external c ps st1 = Inr st2"
      "count_all all external es st2 = Inr st'"
    by (auto simp: e res_bind_Inr validate_snapshot_parent_set_ok)
  with Cons.IH [of st2] count_parents_needs show ?case by (fastforce simp: e entries_ok_def)
qed (simp add: entries_ok_def)

section \<open>The loop\<close>

lemma stable_node_key_snd [simp]: "snd (stable_node_key ranks s) = s"
  by (simp add: stable_node_key_def)

lemma stable_node_key_inj [simp]: "stable_node_key ranks a = stable_node_key ranks b \<longleftrightarrow> a = b"
  by (metis stable_node_key_snd)

lemma key_image_mem [simp]: "stable_node_key ranks a \<in> stable_node_key ranks ` A \<longleftrightarrow> a \<in> A"
  by (auto simp: image_iff)

definition parents_first :: "(string \<Rightarrow> string set) \<Rightarrow> string list \<Rightarrow> bool" where
  "parents_first preds ordered \<longleftrightarrow> (\<forall>i < length ordered. preds (ordered ! i) \<subseteq> set (take i ordered))"

lemma parents_first_snoc:
  "parents_first preds ordered \<Longrightarrow> preds s \<subseteq> set ordered \<Longrightarrow> parents_first preds (ordered @ [s])"
  by (auto simp: parents_first_def nth_append less_Suc_eq)

lemma parents_first_closed: "parents_first preds ordered \<Longrightarrow> c \<in> set ordered \<Longrightarrow> preds c \<subseteq> set ordered"
  unfolding parents_first_def in_set_conv_nth using set_take_subset by fastforce

definition kahn_inv ::
    "string set \<Rightarrow> (string \<Rightarrow> string set) \<Rightarrow> rank_map \<Rightarrow> (string, nat) btree_map \<Rightarrow> (nat \<times> string) list \<Rightarrow> string list \<Rightarrow> bool" where
  "kahn_inv V preds ranks degrees ready ordered \<longleftrightarrow> btree_wf degrees \<and>
     (\<forall>c \<in> V. map_of degrees c = Some (card (preds c - set ordered))) \<and>
     distinct ordered \<and> set ordered \<subseteq> V \<and> parents_first preds ordered \<and> sorted ready \<and> distinct ready \<and>
     set ready = stable_node_key ranks ` {c \<in> V. c \<notin> set ordered \<and> preds c \<subseteq> set ordered}"

lemma count_off_run:
  assumes "distinct cs" "btree_wf degrees" "\<forall>c \<in> set cs. map_of degrees c = Some (n c)" "sorted ready" "distinct ready"
  shows "\<exists>degrees' ready'. count_off ranks cs degrees ready = Inr (degrees', ready') \<and> btree_wf degrees' \<and>
    (\<forall>c. map_of degrees' c = (if c \<in> set cs then Some (n c - 1) else map_of degrees c)) \<and> sorted ready' \<and> distinct ready' \<and>
    set ready' = set ready \<union> stable_node_key ranks ` {c \<in> set cs. n c - 1 = 0}"
  using assms
proof (induction cs arbitrary: degrees ready)
  case (Cons c cs)
  define d1 where "d1 = btree_insert c (n c - 1) degrees"
  define r1 where "r1 = (if n c - 1 = 0 then btree_set_insert (stable_node_key ranks c) ready else ready)"
  have d1: "btree_wf d1" "\<forall>x. map_of d1 x = (if x = c then Some (n c - 1) else map_of degrees x)"
    using Cons.prems(2) by (simp_all add: d1_def)
  have r1: "sorted r1" "distinct r1" "set r1 = set ready \<union> stable_node_key ranks ` {x \<in> {c}. n x - 1 = 0}"
    using Cons.prems(4,5) by (auto simp: r1_def)
  have "\<forall>x \<in> set cs. map_of d1 x = Some (n x)" using Cons.prems(1,3) d1(2) by auto
  from Cons.IH [OF _ d1(1) this r1(1,2)] Cons.prems(1) obtain d2 r2 where
    "count_off ranks cs d1 r1 = Inr (d2, r2)" "btree_wf d2"
    "\<forall>x. map_of d2 x = (if x \<in> set cs then Some (n x - 1) else map_of d1 x)" "sorted r2" "distinct r2"
    "set r2 = set r1 \<union> stable_node_key ranks ` {x \<in> set cs. n x - 1 = 0}" by auto
  moreover have "count_off ranks (c # cs) degrees ready = count_off ranks cs d1 r1"
    using Cons.prems(3) by (simp add: d1_def r1_def)
  ultimately show ?case using d1(2) r1(3) by (intro exI [of _ d2] exI [of _ r2]) auto
qed auto

lemma kahn_step:
  assumes inv: "kahn_inv V preds ranks degrees ((k, s) # ready) ordered"
    and kids: "distinct (kids s)" "set (kids s) = {c \<in> V. s \<in> preds c}" and fin: "\<forall>c \<in> V. finite (preds c)"
  shows "\<exists>degrees' ready'. count_off ranks (kids s) degrees ready = Inr (degrees', ready') \<and>
    kahn_inv V preds ranks degrees' ready' (ordered @ [s])"
proof -
  have ready: "set ((k, s) # ready) = stable_node_key ranks ` {c \<in> V. c \<notin> set ordered \<and> preds c \<subseteq> set ordered}"
      "distinct ((k, s) # ready)" "sorted ((k, s) # ready)"
    using inv by (simp_all add: kahn_inv_def)
  have "(k, s) \<in> stable_node_key ranks ` {c \<in> V. c \<notin> set ordered \<and> preds c \<subseteq> set ordered}"
    using ready(1) by (metis list.set_intros(1))
  then have ks: "(k, s) = stable_node_key ranks s" and s: "s \<in> V" "s \<notin> set ordered" "preds s \<subseteq> set ordered"
    by (auto simp: stable_node_key_def)
  define n where "n c = card (preds c - set ordered)" for c
  have deg: "btree_wf degrees" "\<forall>c \<in> V. map_of degrees c = Some (n c)" using inv by (simp_all add: kahn_inv_def n_def)
  have "\<forall>c \<in> set (kids s). map_of degrees c = Some (n c)" using kids(2) deg(2) by simp
  from count_off_run [OF kids(1) deg(1) this] ready(2,3) obtain degrees' ready' where
    run: "count_off ranks (kids s) degrees ready = Inr (degrees', ready')" "btree_wf degrees'"
      "\<forall>c. map_of degrees' c = (if c \<in> set (kids s) then Some (n c - 1) else map_of degrees c)" "sorted ready'" "distinct ready'"
      "set ready' = set ready \<union> stable_node_key ranks ` {c \<in> set (kids s). n c - 1 = 0}"
    by fastforce
  have n': "card (preds c - set (ordered @ [s])) = (if s \<in> preds c then n c - 1 else n c)" if "c \<in> V" for c
  proof -
    have "preds c - set (ordered @ [s]) = (preds c - set ordered) - {s}" by auto
    then show ?thesis using s(2) fin that by (simp add: n_def card_Diff_singleton_if)
  qed
  have zero: "n c - 1 = 0 \<longleftrightarrow> preds c \<subseteq> set (ordered @ [s])" if "c \<in> V" "s \<in> preds c" for c
  proof -
    have "n c - 1 = 0 \<longleftrightarrow> preds c - set (ordered @ [s]) = {}"
      using n' [OF that(1)] that fin by (metis card_0_eq finite_Diff)
    then show ?thesis by blast
  qed
  have later: "c \<notin> set ordered \<and> c \<noteq> s" if "s \<in> preds c" for c
    using that s parents_first_closed inv by (fastforce simp: kahn_inv_def)
  have "set ready = set ((k, s) # ready) - {stable_node_key ranks s}" using ready(2) by (auto simp flip: ks)
  then have rest: "set ready = stable_node_key ranks ` ({c \<in> V. c \<notin> set ordered \<and> preds c \<subseteq> set ordered} - {s})"
    unfolding ready(1) by auto
  have "{c \<in> V. c \<notin> set ordered \<and> preds c \<subseteq> set ordered} - {s} \<union> {c \<in> {c \<in> V. s \<in> preds c}. n c - 1 = 0} =
      {c \<in> V. c \<notin> set (ordered @ [s]) \<and> preds c \<subseteq> set (ordered @ [s])}"
    using zero later by auto
  then have "set ready' = stable_node_key ranks ` {c \<in> V. c \<notin> set (ordered @ [s]) \<and> preds c \<subseteq> set (ordered @ [s])}"
    unfolding run(6) kids(2) rest image_Un [symmetric] by (rule arg_cong)
  moreover have "\<forall>c \<in> V. map_of degrees' c = Some (card (preds c - set (ordered @ [s])))"
    using run(3) kids(2) deg(2) n' by auto
  moreover have "parents_first preds (ordered @ [s])" "distinct (ordered @ [s])" "set (ordered @ [s]) \<subseteq> V"
    using inv s by (auto simp: kahn_inv_def intro: parents_first_snoc)
  ultimately show ?thesis using run(1,2,4,5) by (auto simp only: kahn_inv_def)
qed

lemma take_ready_finishes:
  assumes "kahn_inv V preds ranks degrees ready ordered" "finite V" "\<forall>c \<in> V. finite (preds c)"
    "\<And>p. distinct (kids p)" "\<And>p. set (kids p) = {c \<in> V. p \<in> preds c}" "card V - length ordered \<le> fuel"
  shows "\<exists>degrees' ordered'. take_ready fuel ranks kids degrees ready ordered = Inr (degrees', [], ordered') \<and>
    kahn_inv V preds ranks degrees' [] ordered'"
  using assms
proof (induction fuel arbitrary: degrees ready ordered)
  case 0
  have "card (set ordered) = length ordered" "set ordered \<subseteq> V" using 0(1) by (simp_all add: kahn_inv_def distinct_card)
  moreover from this have "card (set ordered) \<le> card V" using 0(2) by (intro card_mono)
  ultimately have "set ordered = V" using 0(2,6) by (intro card_subset_eq) auto
  then have "set ready = {}" using 0(1) by (auto simp: kahn_inv_def)
  with 0(1) show ?case by simp
next
  case (Suc fuel)
  show ?case
  proof (cases ready)
    case Nil
    with Suc.prems(1) show ?thesis by simp
  next
    case (Cons e rest)
    obtain k s where e: "e = (k, s)" by fastforce
    from kahn_step [where kids = kids, OF Suc.prems(1) [unfolded Cons e] Suc.prems(4) Suc.prems(5) Suc.prems(3)] obtain d r where
      run: "count_off ranks (kids s) degrees rest = Inr (d, r)" and inv: "kahn_inv V preds ranks d r (ordered @ [s])" by blast
    from Suc.IH [OF inv Suc.prems(2-5)] Suc.prems(6) show ?thesis by (simp add: Cons e run)
  qed
qed

section \<open>The whole order\<close>

lemma initial_ready_run:
  "sorted r \<Longrightarrow> distinct r \<Longrightarrow>
    sorted (fold (\<lambda>(s, n) ready. if n = 0 then btree_set_insert (stable_node_key ranks s) ready else ready) m r) \<and>
    distinct (fold (\<lambda>(s, n) ready. if n = 0 then btree_set_insert (stable_node_key ranks s) ready else ready) m r) \<and>
    set (fold (\<lambda>(s, n) ready. if n = 0 then btree_set_insert (stable_node_key ranks s) ready else ready) m r) =
      set r \<union> stable_node_key ranks ` {s. (s, 0::nat) \<in> set m}"
proof (induction m arbitrary: r)
  case (Cons e m)
  obtain s n where e: "e = (s, n)" by fastforce
  have "sorted (if n = 0 then btree_set_insert (stable_node_key ranks s) r else r)"
    "distinct (if n = 0 then btree_set_insert (stable_node_key ranks s) r else r)" using Cons.prems by auto
  from Cons.IH [OF this] show ?case by (auto simp: e)
qed simp

lemma initial_ready_set:
  assumes "btree_wf m"
  shows "sorted (initial_ready ranks m)" "distinct (initial_ready ranks m)"
    "set (initial_ready ranks m) = stable_node_key ranks ` {s. map_of m s = Some 0}"
  using initial_ready_run [of "[]" ranks m] assms by (auto simp: initial_ready_def btree_wf_def)

lemma sorted_children_kids: "set (sorted_children ranks (children st) p) = set (kids_of st p)"
    "distinct (sorted_children ranks (children st) p) \<longleftrightarrow> distinct (kids_of st p)"
  by (simp_all add: sorted_children_def kids_of_def split: option.split)

text \<open>The edges between snapshots of the map, from parent to child.\<close>

definition inner_edges :: "parent_map \<Rightarrow> string set \<Rightarrow> (string \<times> string) set" where
  "inner_edges all external = {(p, c). c \<in> fst ` set all \<and> p \<in> set (inner_parents all external c)}"

lemma inner_parents_inside:
  assumes "entries_ok all external all" "p \<in> set (inner_parents all external c)"
  shows "p \<in> fst ` set all"
proof -
  from assms(2) obtain ps where "map_of all c = Some ps" "p \<in> set ps" "p \<notin> external"
    by (cases "map_of all c") (auto simp: inner_parents_def)
  moreover from this have "(c, ps) \<in> set all" by (simp add: map_of_SomeD)
  ultimately have "map_of all p \<noteq> None" using assms(1) by (auto simp: entries_ok_def)
  then show ?thesis by (metis map_of_eq_None_iff)
qed

lemma inner_parents_distinct:
  assumes "entries_ok all external all"
  shows "distinct (inner_parents all external c)"
proof (cases "map_of all c")
  case (Some ps)
  then have "(c, ps) \<in> set all" by (simp add: map_of_SomeD)
  then have "distinct ps" using assms by (auto simp: entries_ok_def intro: parent_set_distinct)
  then show ?thesis by (simp add: inner_parents_def Some)
qed (simp add: inner_parents_def)

lemma kahn_start:
  assumes ok: "entries_ok all external all" and counted: "counted all external all st"
  shows "kahn_inv (fst ` set all) (\<lambda>c. set (inner_parents all external c)) ranks (indegree st) (initial_ready ranks (indegree st)) []"
proof -
  have wf: "btree_wf (indegree st)" using counted by (simp add: counted_def)
  have deg: "map_of (indegree st) = (\<lambda>c. if c \<in> fst ` set all then Some (length (inner_parents all external c)) else None)"
    using counted by (simp add: counted_def)
  have "{s. map_of (indegree st) s = Some 0} = {c \<in> fst ` set all. set (inner_parents all external c) = {}}" by (auto simp: deg)
  then show ?thesis
    using initial_ready_set [OF wf] wf by (simp add: kahn_inv_def deg parents_first_def distinct_card inner_parents_distinct [OF ok])
qed

lemma topological_run:
  assumes "btree_wf all" and ok: "entries_ok all external all"
  shows "\<exists>degrees ordered. topological_order_with_rank all external ranks =
      (if set ordered = fst ` set all then Inr ordered else Inl (CycleDetected (blocked_snapshot ranks degrees))) \<and>
    kahn_inv (fst ` set all) (\<lambda>c. set (inner_parents all external c)) ranks degrees [] ordered"
proof -
  have d: "distinct (map fst all)" using assms(1) by (simp add: btree_wf_def)
  have "counted all external [] \<lparr>indegree = [], children = Map.empty\<rparr>" by (simp add: counted_def kids_of_def)
  from count_all_run [OF d _ ok this] obtain st where
    st: "count_all all external all \<lparr>indegree = [], children = Map.empty\<rparr> = Inr st" "counted all external all st" by auto
  have V: "card (fst ` set all) = length all" using d by (metis distinct_card length_map list.set_map)
  have kids: "distinct (sorted_children ranks (children st) p)"
      "set (sorted_children ranks (children st) p) = {c \<in> fst ` set all. p \<in> set (inner_parents all external c)}" for p
    using st(2) by (simp_all add: sorted_children_kids counted_def)
  from take_ready_finishes [OF kahn_start [OF ok st(2)] _ _ kids, of "length all" ranks] V obtain degrees ordered where
    run: "take_ready (length all) ranks (sorted_children ranks (children st)) (indegree st) (initial_ready ranks (indegree st)) [] =
      Inr (degrees, [], ordered)" and
    inv: "kahn_inv (fst ` set all) (\<lambda>c. set (inner_parents all external c)) ranks degrees [] ordered" by auto
  have "distinct ordered" "set ordered \<subseteq> fst ` set all" using inv by (simp_all add: kahn_inv_def)
  then have "length ordered = length all \<longleftrightarrow> set ordered = fst ` set all"
    using V by (metis List.finite_set card_subset_eq distinct_card finite_imageI)
  then have "topological_order_with_rank all external ranks =
      (if set ordered = fst ` set all then Inr ordered else Inl (CycleDetected (blocked_snapshot ranks degrees)))"
    by (simp add: topological_order_with_rank_def st(1) run)
  with inv show ?thesis by blast
qed

lemma topological_needs:
  "topological_order_with_rank all external ranks = Inr ordered \<Longrightarrow> entries_ok all external all"
  by (auto simp: topological_order_with_rank_def res_bind_Inr dest: count_all_needs)

lemma topological_sound:
  assumes "btree_wf all" "topological_order_with_rank all external ranks = Inr ordered"
  shows "distinct ordered" "set ordered = fst ` set all" "parents_first (\<lambda>c. set (inner_parents all external c)) ordered"
  using topological_run [OF assms(1) topological_needs [OF assms(2)], of ranks] assms(2)
  by (auto simp: kahn_inv_def split: if_splits)

lemma topological_complete:
  assumes "btree_wf all" and ok: "entries_ok all external all" and acyc: "acyclic (inner_edges all external)"
  shows "\<exists>ordered. topological_order_with_rank all external ranks = Inr ordered"
proof -
  let ?V = "fst ` set all" and ?preds = "\<lambda>c. set (inner_parents all external c)"
  from topological_run [OF assms(1) ok, of ranks] obtain degrees ordered where
    run: "topological_order_with_rank all external ranks =
      (if set ordered = ?V then Inr ordered else Inl (CycleDetected (blocked_snapshot ranks degrees)))"
    and inv: "kahn_inv ?V ?preds ranks degrees [] ordered" by blast
  have "inner_edges all external \<subseteq> ?V \<times> ?V" using inner_parents_inside [OF ok] by (auto simp: inner_edges_def)
  then have "finite (inner_edges all external)" by (rule finite_subset) simp
  then have wf: "wf (inner_edges all external)" using acyc by (rule finite_acyclic_wf)
  have "c \<in> set ordered" if "c \<in> ?V" for c
    using wf that
  proof (induction c)
    case (less c)
    have "?preds c \<subseteq> set ordered" using less inner_parents_inside [OF ok] by (auto simp: inner_edges_def)
    with inv less.prems show ?case by (auto simp: kahn_inv_def)
  qed
  moreover have "set ordered \<subseteq> ?V" using inv by (simp add: kahn_inv_def)
  ultimately show ?thesis using run by auto
qed

lemma parents_first_acyclic:
  assumes "distinct ordered" "parents_first preds ordered" "\<And>p c. (p, c) \<in> E \<Longrightarrow> c \<in> set ordered \<and> p \<in> preds c"
  shows "acyclic E"
proof -
  define pos where "pos x = (LEAST i. ordered ! i = x)" for x
  have pos: "ordered ! i = x \<Longrightarrow> i < length ordered \<Longrightarrow> pos x = i" for i x
    unfolding pos_def using assms(1) by (intro Least_equality) (auto simp: nth_eq_iff_index_eq intro!: leI)
  have "pos p < pos c" if edge: "(p, c) \<in> E" for p c
  proof -
    obtain i where i: "i < length ordered" "ordered ! i = c" using assms(3) [OF edge] by (auto simp: in_set_conv_nth)
    have "p \<in> set (take i ordered)" using assms(2,3) edge i by (fastforce simp: parents_first_def)
    then obtain j where "j < i" "ordered ! j = p" by (auto simp: in_set_conv_nth)
    with i pos [of i c] pos [of j p] show ?thesis by simp
  qed
  then have "E \<subseteq> measure pos" by (auto simp: measure_def)
  then show ?thesis by (rule acyclic_subset [OF wf_acyclic [OF wf_measure]])
qed

lemma topological_acyclic:
  assumes "btree_wf all" "topological_order_with_rank all external ranks = Inr ordered"
  shows "acyclic (inner_edges all external)"
  using topological_sound [OF assms] by (intro parents_first_acyclic [of ordered "\<lambda>c. set (inner_parents all external c)"]) (auto simp: inner_edges_def)

end
