(* ===== verification/Dag_Walk_Laws.thy ===== *)
theory Dag_Walk_Laws
  imports Snapshot_Dag Topological_Laws
begin

text \<open>
  What a breadth-first walk over the history finds.  The abstract specification is the sequence of
  generations: the heads, their parents, the parents of those.  A walk that is not cut short finds
  every snapshot of every generation, with the number of the first generation that has it.
\<close>

section \<open>Generations\<close>

fun generation :: "(string \<Rightarrow> string list) \<Rightarrow> string set \<Rightarrow> nat \<Rightarrow> string set" where
  "generation E H 0 = H"
| "generation E H (Suc k) = (\<Union>s \<in> generation E H k. set (E s))"

definition ancestry :: "(string \<Rightarrow> string list) \<Rightarrow> string set \<Rightarrow> string set" where
  "ancestry E H = (\<Union>k. generation E H k)"

definition first_generation :: "(string \<Rightarrow> string list) \<Rightarrow> string set \<Rightarrow> string \<Rightarrow> nat \<Rightarrow> bool" where
  "first_generation E H s k \<longleftrightarrow> s \<in> generation E H k \<and> (\<forall>j < k. s \<notin> generation E H j)"

lemma ancestry_heads: "H \<subseteq> ancestry E H"
  unfolding ancestry_def by (metis UN_upper UNIV_I generation.simps(1))

lemma ancestry_step: "s \<in> ancestry E H \<Longrightarrow> p \<in> set (E s) \<Longrightarrow> p \<in> ancestry E H"
  unfolding ancestry_def by (metis (no_types, lifting) UN_iff UNIV_I generation.simps(2))

lemma ancestry_least:
  assumes "H \<subseteq> A" "\<And>s p. s \<in> A \<Longrightarrow> p \<in> set (E s) \<Longrightarrow> p \<in> A"
  shows "ancestry E H \<subseteq> A"
proof -
  have "generation E H k \<subseteq> A" for k using assms by (induction k) auto
  then show ?thesis by (auto simp: ancestry_def)
qed

lemma first_generation_unique: "first_generation E H s j \<Longrightarrow> first_generation E H s k \<Longrightarrow> j = k"
  by (metis first_generation_def linorder_neqE_nat)

section \<open>One step\<close>

text \<open>The state after a step that no limit touches.\<close>

lemma discovered_discover [simp]: "discovered (discover p d r st) = discovered st @ [p]"
  by (simp add: discover_def)

definition found :: "string \<Rightarrow> nat \<Rightarrow> string list \<Rightarrow> dag_state \<Rightarrow> dag_state" where
  "found s depth new = fold (\<lambda>p. discover p (depth + 1) (Some s)) new"

lemma found_Cons: "found s d (p # ps) st = found s d ps (discover p (d + 1) (Some s) st)"
  by (simp add: found_def)

lemma found_fields [simp]:
  "discovered (found s d new st) = discovered st @ new" "pending (found s d new st) = pending st @ new"
  "chosen (found s d new st) = chosen st" "truncated (found s d new st) = truncated st"
  "depth_of (found s d new st) = (\<lambda>x. if x \<in> set new then Some (d + 1) else depth_of st x)"
  by (induction new arbitrary: st) (auto simp: found_def discover_def fun_eq_iff)

definition step_fits :: "SnapshotDagLimits \<Rightarrow> (string \<Rightarrow> bool) \<Rightarrow> dag_state \<Rightarrow> nat \<Rightarrow> string list \<Rightarrow> bool" where
  "step_fits limits present st d ps \<longleftrightarrow> (ps = [] \<or> d < max_depth limits) \<and>
     (set ps \<subseteq> set (discovered st) \<or> card (set (discovered st) \<union> set ps) \<le> max_results limits) \<and>
     (\<forall>p \<in> set ps. p \<in> set (discovered st) \<or> present p)"

definition stepped :: "string \<Rightarrow> nat \<Rightarrow> string list \<Rightarrow> dag_state \<Rightarrow> dag_state" where
  "stepped s d ps st =
     (let st' = found s d (filter (\<lambda>p. p \<notin> set (discovered st)) ps) st in st'\<lparr>chosen := btree_insert s ps (chosen st)\<rparr>)"

lemma add_parents_fits:
  assumes "distinct (discovered st)" "distinct ps" "\<forall>p \<in> set ps. p \<in> set (discovered st) \<or> present p"
    "set ps \<subseteq> set (discovered st) \<or> card (set (discovered st) \<union> set ps) \<le> max_results limits"
  shows "add_parents limits present s d ps included st = Inr (included @ ps, found s d (filter (\<lambda>p. p \<notin> set (discovered st)) ps) st)"
  using assms
proof (induction ps arbitrary: included st)
  case (Cons p ps)
  show ?case
  proof (cases "p \<in> set (discovered st)")
    case True
    with Cons.prems have "set ps \<subseteq> set (discovered st) \<or> card (set (discovered st) \<union> set ps) \<le> max_results limits"
      by (auto simp: insert_absorb)
    with True Cons.IH [of st "included @ [p]"] Cons.prems show ?thesis by simp
  next
    case False
    have size: "card (set (discovered st) \<union> set (p # ps)) \<le> max_results limits" using False Cons.prems(4) by auto
    have "Suc (length (discovered st)) = card (insert p (set (discovered st)))"
      using False Cons.prems(1) by (simp add: distinct_card)
    also have "\<dots> \<le> card (set (discovered st) \<union> set (p # ps))" by (intro card_mono) auto
    finally have lt: "length (discovered st) < max_results limits" using size by simp
    let ?st = "discover p (d + 1) (Some s) st"
    have same: "filter (\<lambda>q. q \<notin> set (discovered ?st)) ps = filter (\<lambda>q. q \<notin> set (discovered st)) ps"
      using Cons.prems(2) by (intro filter_cong) auto
    have "add_parents limits present s d ps (included @ [p]) ?st =
        Inr ((included @ [p]) @ ps, found s d (filter (\<lambda>q. q \<notin> set (discovered ?st)) ps) ?st)"
      using Cons.prems False size by (intro Cons.IH) auto
    then show ?thesis using False lt Cons.prems(3) unfolding same by (simp add: found_Cons)
  qed
qed (simp add: found_def)

lemma add_parents_truncated: "add_parents limits present s d ps included st = Inr (included', st') \<Longrightarrow> truncated st \<Longrightarrow> truncated st'"
  by (induction ps arbitrary: included st)
    (auto simp: res_bind_Inr truncate_or_error_Inr discover_def split: if_split_asm)

lemma add_parents_needs:
  assumes "add_parents limits present s d ps included st = Inr (included', st')" "\<not> truncated st'"
    "distinct (discovered st)" "distinct ps"
  shows "set ps \<subseteq> set (discovered st) \<or> card (set (discovered st) \<union> set ps) \<le> max_results limits"
    "\<forall>p \<in> set ps. p \<in> set (discovered st) \<or> present p"
  using assms
proof (atomize(full), induction ps arbitrary: included st)
  case (Cons p ps)
  show ?case
  proof (cases "p \<in> set (discovered st)")
    case True
    with Cons.IH [of "included @ [p]" st] Cons.prems show ?thesis by (auto simp: insert_absorb)
  next
    case False
    let ?st = "discover p (d + 1) (Some s) st"
    have "length (discovered st) < max_results limits" "present p"
        "add_parents limits present s d ps (included @ [p]) ?st = Inr (included', st')"
      using Cons.prems(1,2) False add_parents_truncated
      by (auto simp: res_bind_Inr truncate_or_error_Inr split: if_split_asm)
    moreover from Cons.IH [OF this(3) Cons.prems(2)] Cons.prems(3,4) False have
      "set ps \<subseteq> insert p (set (discovered st)) \<or> card (insert p (set (discovered st)) \<union> set ps) \<le> max_results limits"
      and more: "\<forall>q \<in> set ps. q \<in> insert p (set (discovered st)) \<or> present q"
      by auto
    moreover have "card (insert p (set (discovered st))) = Suc (length (discovered st))"
      using False Cons.prems(3) by (simp add: distinct_card)
    moreover have "insert p (set (discovered st)) \<union> set ps = insert p (set (discovered st))"
      if "set ps \<subseteq> insert p (set (discovered st))" using that by blast
    ultimately have "card (set (discovered st) \<union> set (p # ps)) \<le> max_results limits" by (auto simp: Un_insert_right)
    then show ?thesis using \<open>present p\<close> more by auto
  qed
qed simp

lemma expand_fits:
  assumes "distinct (discovered st)" "distinct (filter (\<lambda>p. p \<notin> stop) ps)" "depth_of st s = Some d"
    "step_fits limits present st d (filter (\<lambda>p. p \<notin> stop) ps)"
  shows "expand limits stop present s ps st = Inr (stepped s d (filter (\<lambda>p. p \<notin> stop) ps) st)"
proof -
  have "limit_depth limits s d (filter (\<lambda>p. p \<notin> stop) ps) st = Inr (filter (\<lambda>p. p \<notin> stop) ps, st)"
    using assms(4) by (auto simp: limit_depth_def step_fits_def)
  moreover from assms have "add_parents limits present s d (filter (\<lambda>p. p \<notin> stop) ps) [] st =
      Inr ([] @ filter (\<lambda>p. p \<notin> stop) ps, found s d (filter (\<lambda>p. p \<notin> set (discovered st)) (filter (\<lambda>p. p \<notin> stop) ps)) st)"
    by (intro add_parents_fits) (auto simp: step_fits_def)
  ultimately show ?thesis by (simp add: expand_def assms(3) stepped_def)
qed

lemma expand_truncated: "expand limits stop present s ps st = Inr st' \<Longrightarrow> truncated st \<Longrightarrow> truncated st'"
  by (cases "depth_of st s")
    (auto simp: expand_def limit_depth_def truncate_or_error_Inr res_bind_Inr split: if_split_asm dest: add_parents_truncated)

lemma expand_needs:
  assumes run: "expand limits stop present s ps st = Inr st'" "\<not> truncated st'"
    and "distinct (discovered st)" "distinct (filter (\<lambda>p. p \<notin> stop) ps)"
  shows "\<exists>d. depth_of st s = Some d \<and> step_fits limits present st d (filter (\<lambda>p. p \<notin> stop) ps) \<and>
    st' = stepped s d (filter (\<lambda>p. p \<notin> stop) ps) st"
proof -
  let ?ps = "filter (\<lambda>p. p \<notin> stop) ps"
  from run(1) obtain d qs st1 included st2 where
    d: "depth_of st s = Some d" "limit_depth limits s d ?ps st = Inr (qs, st1)"
      "add_parents limits present s d qs [] st1 = Inr (included, st2)" "st' = st2\<lparr>chosen := btree_insert s included (chosen st2)\<rparr>"
    by (cases "depth_of st s") (auto simp: expand_def res_bind_Inr)
  have "\<not> truncated st1" using add_parents_truncated [OF d(3)] d(4) run(2) by auto
  then have same: "qs = ?ps" "st1 = st" and depth: "?ps = [] \<or> d < max_depth limits"
    using d(2) by (auto simp: limit_depth_def res_bind_Inr truncate_or_error_Inr split: if_split_asm)
  have "\<not> truncated st2" using d(4) run(2) by simp
  from add_parents_needs [OF d(3) [unfolded same] this assms(3,4)] depth have fits: "step_fits limits present st d ?ps"
    by (simp add: step_fits_def)
  from expand_fits [OF assms(3,4) d(1) fits] run(1) d(1) fits show ?thesis by auto
qed

section \<open>The invariant\<close>

text \<open>
  The snapshots found so far are those already expanded followed by those pending.  The depth is a
  generation of each; it never decreases along the queue and grows by at most one across it.
\<close>

definition bfs_inv :: "(string \<Rightarrow> string list) \<Rightarrow> string set \<Rightarrow> string list \<Rightarrow> dag_state \<Rightarrow> bool" where
  "bfs_inv E H past st \<longleftrightarrow>
     discovered st = past @ pending st \<and> distinct (discovered st) \<and> btree_wf (chosen st) \<and>
     map_of (chosen st) = (\<lambda>s. if s \<in> set past then Some (E s) else None) \<and>
     (\<forall>s \<in> set past. set (E s) \<subseteq> set (discovered st)) \<and> H \<subseteq> set (discovered st) \<and>
     dom (depth_of st) = set (discovered st)"

definition depth_inv :: "(string \<Rightarrow> string list) \<Rightarrow> string set \<Rightarrow> string list \<Rightarrow> dag_state \<Rightarrow> bool" where
  "depth_inv E H past st \<longleftrightarrow>
     (\<forall>s \<in> H. depth_of st s = Some 0) \<and> (\<forall>s d. depth_of st s = Some d \<longrightarrow> s \<in> generation E H d) \<and>
     (\<forall>s \<in> set past. \<forall>p \<in> set (E s). the (depth_of st p) \<le> Suc (the (depth_of st s))) \<and>
     sorted (map (the \<circ> depth_of st) (discovered st)) \<and>
     (\<forall>s \<in> set (discovered st). \<forall>q \<in> set (pending st). the (depth_of st s) \<le> Suc (the (depth_of st q))) \<and>
     (\<forall>i < length (discovered st). the (depth_of st (discovered st ! i)) \<le> i)"

lemma bfs_inv_distinct: "bfs_inv E H past st \<Longrightarrow> distinct (discovered st)"
  unfolding bfs_inv_def by blast

lemma stepped_fields [simp]:
  "discovered (stepped s d ps st) = discovered st @ filter (\<lambda>p. p \<notin> set (discovered st)) ps"
  "pending (stepped s d ps st) = pending st @ filter (\<lambda>p. p \<notin> set (discovered st)) ps"
  "chosen (stepped s d ps st) = btree_insert s ps (chosen st)" "truncated (stepped s d ps st) = truncated st"
  "depth_of (stepped s d ps st) = (\<lambda>x. if x \<in> set ps \<and> x \<notin> set (discovered st) then Some (d + 1) else depth_of st x)"
  by (auto simp: stepped_def Let_def fun_eq_iff)

lemma bfs_step:
  assumes inv: "bfs_inv E H past st" and queue: "pending st = s # rest" and "distinct (E s)"
  shows "bfs_inv E H (past @ [s]) (stepped s d (E s) (st\<lparr>pending := rest\<rparr>))"
proof -
  let ?st = "stepped s d (E s) (st\<lparr>pending := rest\<rparr>)"
  have disc: "discovered st = past @ s # rest" "distinct (discovered st)" and wf: "btree_wf (chosen st)"
    and chosen: "map_of (chosen st) = (\<lambda>s. if s \<in> set past then Some (E s) else None)"
    and closed: "\<forall>s \<in> set past. set (E s) \<subseteq> set (discovered st)" and H: "H \<subseteq> set (discovered st)"
    and dom: "dom (depth_of st) = set (discovered st)"
    using inv unfolding bfs_inv_def queue by blast+
  have all: "set (discovered ?st) = set (discovered st) \<union> set (E s)" by auto
  have "discovered ?st = (past @ [s]) @ pending ?st" using disc(1) by simp
  moreover have "distinct (discovered ?st)" using disc(2) assms(3) by auto
  moreover have "map_of (chosen ?st) = (\<lambda>x. if x \<in> set (past @ [s]) then Some (E x) else None)"
    by (auto simp: chosen wf fun_eq_iff)
  moreover have "\<forall>x \<in> set (past @ [s]). set (E x) \<subseteq> set (discovered ?st)" using closed unfolding all by auto
  moreover have "H \<subseteq> set (discovered ?st)" using H unfolding all by blast
  moreover have "dom (depth_of ?st) = set (discovered ?st)"
    unfolding all dom [symmetric] by (auto simp: dom [symmetric] dom_def)
  ultimately show ?thesis using wf by (simp add: bfs_inv_def)
qed

lemma depth_step:
  assumes inv: "bfs_inv E H past st" and depth: "depth_inv E H past st" and queue: "pending st = s # rest"
    and d: "depth_of st s = Some d"
  shows "depth_inv E H (past @ [s]) (stepped s d (E s) (st\<lparr>pending := rest\<rparr>))"
proof -
  let ?st = "stepped s d (E s) (st\<lparr>pending := rest\<rparr>)" and ?new = "filter (\<lambda>p. p \<notin> set (discovered st)) (E s)"
  have disc: "discovered st = past @ s # rest" "distinct (discovered st)" and dom: "dom (depth_of st) = set (discovered st)"
    and closed: "\<forall>s \<in> set past. set (E s) \<subseteq> set (discovered st)"
    using inv unfolding bfs_inv_def queue by blast+
  have old: "depth_of ?st x = depth_of st x" if "x \<in> set (discovered st)" for x using that by simp
  have new: "depth_of ?st x = Some (Suc d)" if "x \<in> set ?new" for x using that by simp
  have bound: "the (depth_of st x) \<le> Suc d" if "x \<in> set (discovered st)" for x
    using depth that queue d by (fastforce simp: depth_inv_def)
  have least: "d \<le> the (depth_of st q)" if "q \<in> set (s # rest)" for q
    using depth that d by (auto simp: depth_inv_def disc(1) sorted_append)
  have "x \<in> generation E H k" if "depth_of ?st x = Some k" for x k
  proof (cases "x \<in> set ?new")
    case True
    have "s \<in> generation E H d" using depth d by (simp add: depth_inv_def)
    with True that new show ?thesis by auto
  next
    case False
    with that depth show ?thesis by (auto simp: depth_inv_def split: if_split_asm)
  qed
  moreover have "the (depth_of ?st p) \<le> Suc (the (depth_of ?st x))" if "x \<in> set (past @ [s])" "p \<in> set (E x)" for x p
  proof (cases "x = s")
    case True
    then show ?thesis using that(2) bound d disc(1) by auto
  next
    case False
    with that(1) have x: "x \<in> set past" by simp
    with closed that(2) have "p \<in> set (discovered st)" by blast
    with x that(2) depth disc(1) show ?thesis by (auto simp: depth_inv_def)
  qed
  moreover have "sorted (map (the \<circ> depth_of ?st) (discovered ?st))"
  proof -
    have "map (the \<circ> depth_of ?st) (discovered st) = map (the \<circ> depth_of st) (discovered st)" using old by simp
    moreover have "map (the \<circ> depth_of ?st) ?new = map (\<lambda>_. Suc d) ?new" using new by simp
    moreover have "discovered ?st = discovered st @ ?new" by simp
    ultimately have eq: "map (the \<circ> depth_of ?st) (discovered ?st) = map (the \<circ> depth_of st) (discovered st) @ map (\<lambda>_. Suc d) ?new"
      by (metis map_append)
    have "sorted (map (\<lambda>_. Suc d) ?new)" by (simp add: map_replicate_const)
    then show ?thesis unfolding eq using depth bound by (auto simp: depth_inv_def sorted_append)
  qed
  moreover have "the (depth_of ?st x) \<le> Suc (the (depth_of ?st q))" if "x \<in> set (discovered ?st)" "q \<in> set (pending ?st)" for x q
  proof -
    have "the (depth_of ?st x) \<le> Suc d" using that(1) bound by auto
    moreover have "d \<le> the (depth_of ?st q)" using that(2) least disc(1) by auto
    ultimately show ?thesis by simp
  qed
  moreover have "the (depth_of ?st (discovered ?st ! i)) \<le> i" if "i < length (discovered ?st)" for i
  proof (cases "i < length (discovered st)")
    case True
    then have "discovered ?st ! i = discovered st ! i" "discovered st ! i \<in> set (discovered st)" by (simp_all add: nth_append)
    then show ?thesis using depth True old by (simp add: depth_inv_def)
  next
    case False
    then have "discovered ?st ! i \<in> set ?new" using that by (simp add: nth_append del: set_filter)
    then have "the (depth_of ?st (discovered ?st ! i)) = Suc d" using new by simp
    moreover have "d \<le> length past"
      using depth d unfolding depth_inv_def disc(1) by (metis add_Suc_right length_append length_Cons less_add_Suc1 nth_append_length option.sel)
    ultimately show ?thesis using False disc(1) by simp
  qed
  moreover have "\<forall>x \<in> H. depth_of ?st x = Some 0" using inv depth old by (auto simp: bfs_inv_def depth_inv_def)
  ultimately show ?thesis unfolding depth_inv_def by blast
qed

text \<open>
  During the walk: a snapshot of an early generation is found with a depth that is no larger, or
  something of an earlier generation is still pending.  So the depth of the next snapshot is exact.
\<close>

lemma generation_or_pending:
  assumes "bfs_inv E H past st" "depth_inv E H past st" "s \<in> generation E H k"
  shows "s \<in> set (discovered st) \<and> the (depth_of st s) \<le> k \<or> (\<exists>q \<in> set (pending st). the (depth_of st q) < k)"
  using assms(3)
proof (induction k arbitrary: s)
  case 0
  then show ?case using assms(1,2) by (auto simp: bfs_inv_def depth_inv_def)
next
  case (Suc k)
  then obtain c where c: "c \<in> generation E H k" "s \<in> set (E c)" by auto
  have disc: "discovered st = past @ pending st" using assms(1) by (simp add: bfs_inv_def)
  from Suc.IH [OF c(1)] consider "c \<in> set past" "the (depth_of st c) \<le> k" | "c \<in> set (pending st)" "the (depth_of st c) \<le> k"
    | "\<exists>q \<in> set (pending st). the (depth_of st q) < k" unfolding disc by auto
  then show ?case
  proof cases
    case 1
    have "set (E c) \<subseteq> set (discovered st)" using 1(1) assms(1) unfolding bfs_inv_def by blast
    then have "s \<in> set (discovered st)" using c(2) by blast
    moreover have "the (depth_of st s) \<le> Suc (the (depth_of st c))" using 1(1) c(2) assms(2) unfolding depth_inv_def by blast
    ultimately show ?thesis using 1(2) by simp
  qed (meson less_SucI less_Suc_eq_le)+
qed

lemma next_first_generation:
  assumes "bfs_inv E H past st" "depth_inv E H past st" "pending st = s # rest" "depth_of st s = Some d"
  shows "first_generation E H s d"
proof -
  have disc: "discovered st = past @ s # rest" using assms(1,3) by (simp add: bfs_inv_def)
  have least: "d \<le> the (depth_of st q)" if "q \<in> set (pending st)" for q
    using assms(2-4) that unfolding depth_inv_def disc by (auto simp: sorted_append)
  have "s \<notin> generation E H j" if "j < d" for j
    using generation_or_pending [OF assms(1,2), of s j] least assms(4) that by fastforce
  moreover have "s \<in> generation E H d" using assms(2,4) by (simp add: depth_inv_def)
  ultimately show ?thesis by (simp add: first_generation_def)
qed

section \<open>The whole walk\<close>

definition edges_of :: "(string \<Rightarrow> string list dag_result) \<Rightarrow> string set \<Rightarrow> string \<Rightarrow> string list" where
  "edges_of parents_of stop s = (case parents_of s of Inl _ \<Rightarrow> [] | Inr ps \<Rightarrow> filter (\<lambda>p. p \<notin> stop) ps)"

lemma walk_Nil: "pending st = [] \<Longrightarrow> walk f present stop limits st = Inr st"
  by (simp add: walk.simps)

lemma walk_Cons: "pending st = s # rest \<Longrightarrow> walk f present stop limits st =
    res_bind (f s) (\<lambda>ps. res_bind (expand limits stop present s ps (st\<lparr>pending := rest\<rparr>)) (walk f present stop limits))"
  by (subst walk.simps) simp

lemma walk_induct [case_names Nil Cons]:
  assumes "\<And>st. pending st = [] \<Longrightarrow> P st"
    "\<And>st s rest. pending st = s # rest \<Longrightarrow>
       (\<And>ps st'. expand limits stop present s ps (st\<lparr>pending := rest\<rparr>) = Inr st' \<Longrightarrow> P st') \<Longrightarrow> P st"
  shows "P st"
proof (induction st rule: measure_induct_rule [where f = "room limits"])
  case (less st)
  show ?case
  proof (cases "pending st")
    case (Cons s rest)
    then have "P st'" if "expand limits stop present s ps (st\<lparr>pending := rest\<rparr>) = Inr st'" for ps st'
      using expand_room [OF that] by (intro less) (simp add: room_def)
    with Cons show ?thesis by (rule assms(2))
  qed (rule assms(1))
qed

lemma walk_truncated: "walk f present stop limits st = Inr st' \<Longrightarrow> truncated st \<Longrightarrow> truncated st'"
proof (induction st rule: walk_induct [of _ limits stop present])
  case (Cons st s rest)
  then obtain ps st1 where run: "expand limits stop present s ps (st\<lparr>pending := rest\<rparr>) = Inr st1"
    "walk f present stop limits st1 = Inr st'" by (auto simp: walk_Cons res_bind_Inr)
  have "truncated st1" using expand_truncated [OF run(1)] Cons.prems(2) by simp
  then show ?case by (rule Cons.IH [OF run])
qed (simp add: walk_Nil)

text \<open>
  The contract of a source of parents: every list it returns is a valid parent set of its snapshot.
  The walk relies on nothing else.
\<close>

locale parent_source =
  fixes parents_of :: "string \<Rightarrow> string list dag_result"
  assumes valid: "parents_of s = Inr ps \<Longrightarrow> parent_set_ok (Some s) ps"
begin

lemma edges_of_Inr: "parents_of s = Inr ps \<Longrightarrow> edges_of parents_of stop s = filter (\<lambda>p. p \<notin> stop) ps"
  by (simp add: edges_of_def)

lemma edges_of_ok: "parent_set_ok (Some s) (edges_of parents_of stop s)"
proof (cases "parents_of s")
  case (Inr ps)
  have "length (filter (\<lambda>p. p \<notin> stop) ps) \<le> MAX_SNAPSHOT_PARENT_COUNT"
    using valid [OF Inr] by (intro order_trans [OF length_filter_le]) (simp add: parent_set_ok_def)
  with valid [OF Inr] show ?thesis by (auto simp: edges_of_def Inr parent_set_ok_def distinct_map inj_on_def)
qed (simp add: edges_of_def parent_set_ok_def)

lemma edges_of_distinct: "distinct (edges_of parents_of stop s)"
  by (rule parent_set_distinct [OF edges_of_ok])

lemma walk_sound:
  assumes "walk parents_of present stop limits st = Inr st'" "\<not> truncated st'"
    "bfs_inv (edges_of parents_of stop) H past st" "depth_inv (edges_of parents_of stop) H past st"
  shows "\<exists>past'. bfs_inv (edges_of parents_of stop) H past' st' \<and> depth_inv (edges_of parents_of stop) H past' st' \<and>
    pending st' = [] \<and> (\<forall>s \<in> set past' - set past. \<exists>ps. parents_of s = Inr ps)"
  using assms
proof (induction st arbitrary: past rule: walk_induct [of _ limits stop present])
  case (Cons st s rest)
  let ?E = "edges_of parents_of stop"
  from Cons.hyps Cons.prems(1) obtain ps st1 where
    ps: "parents_of s = Inr ps" and run: "expand limits stop present s ps (st\<lparr>pending := rest\<rparr>) = Inr st1"
      "walk parents_of present stop limits st1 = Inr st'" by (auto simp: walk_Cons res_bind_Inr)
  have "\<not> truncated st1" using walk_truncated [OF run(2)] Cons.prems(2) by blast
  moreover have "distinct (discovered (st\<lparr>pending := rest\<rparr>))" using bfs_inv_distinct [OF Cons.prems(3)] by simp
  ultimately obtain d where d: "depth_of st s = Some d" "st1 = stepped s d (?E s) (st\<lparr>pending := rest\<rparr>)"
    using expand_needs [OF run(1)] edges_of_distinct [of stop s] by (auto simp: edges_of_Inr [OF ps])
  from Cons.IH [OF run Cons.prems(2), of "past @ [s]"] Cons.prems(3,4) obtain past' where
    "bfs_inv ?E H past' st'" "depth_inv ?E H past' st'" "pending st' = []"
    "\<forall>s \<in> set past' - set (past @ [s]). \<exists>ps. parents_of s = Inr ps"
    using bfs_step [OF Cons.prems(3) Cons.hyps(1) edges_of_distinct] depth_step [OF Cons.prems(3,4) Cons.hyps(1) d(1)] d(2) by blast
  with ps show ?case by (intro exI [of _ past']) auto
qed (auto simp: walk_Nil)

text \<open>A walk that was not cut short met no limit.\<close>

lemma walk_limits:
  assumes "walk parents_of present stop limits st = Inr st'" "\<not> truncated st'"
    "bfs_inv (edges_of parents_of stop) H past st" "length (discovered st) \<le> max_results limits"
  shows "length (discovered st') \<le> max_results limits \<and> (\<forall>s d. depth_of st s = Some d \<longrightarrow> depth_of st' s = Some d) \<and>
    (\<forall>s \<in> set (discovered st') - set past. edges_of parents_of stop s \<noteq> [] \<longrightarrow>
       (\<exists>d. depth_of st' s = Some d \<and> d < max_depth limits))"
  using assms
proof (induction st arbitrary: past rule: walk_induct [of _ limits stop present])
  case (Nil st)
  then show ?case by (auto simp: walk_Nil bfs_inv_def)
next
  case (Cons st s rest)
  let ?E = "edges_of parents_of stop" and ?st = "st\<lparr>pending := rest\<rparr>"
  from Cons.hyps Cons.prems(1) obtain ps st1 where
    ps: "parents_of s = Inr ps" and run: "expand limits stop present s ps ?st = Inr st1"
      "walk parents_of present stop limits st1 = Inr st'" by (auto simp: walk_Cons res_bind_Inr)
  have "\<not> truncated st1" using walk_truncated [OF run(2)] Cons.prems(2) by blast
  moreover have "distinct (discovered ?st)" using bfs_inv_distinct [OF Cons.prems(3)] by simp
  ultimately obtain d where d: "depth_of st s = Some d" "st1 = stepped s d (?E s) ?st" "step_fits limits present ?st d (?E s)"
    using expand_needs [OF run(1)] edges_of_distinct [of stop s] by (auto simp: edges_of_Inr [OF ps])
  have inv: "bfs_inv ?E H (past @ [s]) st1"
    unfolding d(2) by (rule bfs_step [OF Cons.prems(3) Cons.hyps(1) edges_of_distinct])
  have all: "set (discovered st1) = set (discovered st) \<union> set (?E s)" unfolding d(2) by auto
  have "length (discovered st1) = card (set (discovered st1))" using bfs_inv_distinct [OF inv] by (simp add: distinct_card)
  also have "\<dots> \<le> max_results limits"
    using d(3) Cons.prems(4) bfs_inv_distinct [OF Cons.prems(3)] unfolding all
    by (auto simp: step_fits_def distinct_card Un_absorb2)
  finally have len: "length (discovered st1) \<le> max_results limits" .
  have dom: "dom (depth_of st) = set (discovered st)" using Cons.prems(3) by (simp add: bfs_inv_def)
  have keeps: "depth_of st1 x = Some k" if "depth_of st x = Some k" for x k using that dom d(2) by auto
  from Cons.IH [OF run Cons.prems(2) inv len] keeps d(1) d(3) show ?case by (fastforce simp: step_fits_def)
qed

lemma walk_complete:
  assumes inv: "bfs_inv (edges_of parents_of stop) H past st" "depth_inv (edges_of parents_of stop) H past st"
    and "\<not> truncated st" and inside: "set (discovered st) \<subseteq> A" "finite A" "card A \<le> max_results limits"
    and deep: "\<And>s d. first_generation (edges_of parents_of stop) H s d \<Longrightarrow> edges_of parents_of stop s \<noteq> [] \<Longrightarrow> d < max_depth limits"
    and A: "\<And>s. s \<in> A \<Longrightarrow> present s \<and> (\<exists>ps. parents_of s = Inr ps) \<and> set (edges_of parents_of stop s) \<subseteq> A"
  shows "\<exists>st'. walk parents_of present stop limits st = Inr st' \<and> \<not> truncated st'"
  using inv assms(3) inside(1)
proof (induction st arbitrary: past rule: walk_induct [of _ limits stop present])
  case (Cons st s rest)
  let ?E = "edges_of parents_of stop" and ?st = "st\<lparr>pending := rest\<rparr>"
  have disc: "discovered st = past @ s # rest" "distinct (discovered st)" "dom (depth_of st) = set (discovered st)"
    using Cons.prems(1) unfolding bfs_inv_def Cons.hyps by blast+
  have s: "s \<in> set (discovered st)" by (simp add: disc(1))
  then obtain d where d: "depth_of st s = Some d" unfolding disc(3) [symmetric] by blast
  from A [of s] s Cons.prems(4) obtain ps where ps: "parents_of s = Inr ps" and sub: "set (?E s) \<subseteq> A" by blast
  have "?E s = [] \<or> d < max_depth limits"
    using deep [OF next_first_generation [OF Cons.prems(1,2) Cons.hyps(1) d]] by blast
  moreover have "card (set (discovered st) \<union> set (?E s)) \<le> max_results limits"
    using sub Cons.prems(4) by (intro order_trans [OF card_mono inside(3)] inside(2)) auto
  moreover have "\<forall>p \<in> set (?E s). present p" using A sub by blast
  ultimately have "step_fits limits present ?st d (?E s)" by (simp add: step_fits_def)
  then have run: "expand limits stop present s ps ?st = Inr (stepped s d (?E s) ?st)"
    using expand_fits [of ?st stop ps s d limits present] disc(2) d edges_of_distinct [of stop s] by (simp add: edges_of_Inr [OF ps])
  from Cons.IH [OF run bfs_step [OF Cons.prems(1) Cons.hyps(1) edges_of_distinct] depth_step [OF Cons.prems(1,2) Cons.hyps(1) d]]
  show ?case using Cons.prems(3,4) sub run by (auto simp: walk_Cons [OF Cons.hyps(1)] ps)
qed (auto simp: walk_Nil)

end

text \<open>At the end of the walk the snapshots found are the ancestry and their depths are exact.\<close>

lemma generation_depth:
  assumes "bfs_inv E H past st" "depth_inv E H past st" "pending st = []" "s \<in> generation E H k"
  shows "s \<in> set past \<and> the (depth_of st s) \<le> k"
  using assms(4)
proof (induction k arbitrary: s)
  case 0
  then show ?case using assms(1-3) by (auto simp: bfs_inv_def depth_inv_def)
next
  case (Suc k)
  then obtain c where c: "c \<in> generation E H k" "s \<in> set (E c)" by auto
  from Suc.IH [OF c(1)] have "c \<in> set past" "the (depth_of st c) \<le> k" by auto
  moreover from this c(2) assms have "the (depth_of st s) \<le> Suc (the (depth_of st c))" "s \<in> set past"
    by (auto simp: bfs_inv_def depth_inv_def)
  ultimately show ?case by simp
qed

lemma bfs_done:
  assumes "bfs_inv E H past st" "depth_inv E H past st" "pending st = []"
  shows "map_of (chosen st) = (\<lambda>s. if s \<in> ancestry E H then Some (E s) else None)"
    "depth_of st s = Some d \<longleftrightarrow> first_generation E H s d"
    "set (discovered st) = ancestry E H" "set past = ancestry E H"
proof -
  have disc: "discovered st = past" "dom (depth_of st) = set (discovered st)" using assms(1,3) by (simp_all add: bfs_inv_def)
  have gen: "s \<in> generation E H k" if "depth_of st s = Some k" for s k using assms(2) that by (simp add: depth_inv_def)
  have "s \<in> ancestry E H" if "s \<in> set past" for s
  proof -
    from that disc obtain k where "depth_of st s = Some k" by (metis domD)
    then show ?thesis using gen by (auto simp: ancestry_def)
  qed
  moreover have "s \<in> set past" if "s \<in> ancestry E H" for s
    using that generation_depth [OF assms] by (auto simp: ancestry_def)
  ultimately show past: "set past = ancestry E H" by blast
  then show "set (discovered st) = ancestry E H" by (simp add: disc(1))
  show "map_of (chosen st) = (\<lambda>s. if s \<in> ancestry E H then Some (E s) else None)"
    using assms(1) unfolding bfs_inv_def past by blast
  have exact: "first_generation E H s k" if "depth_of st s = Some k" for k
    using gen that generation_depth [OF assms, of s] by (auto simp: first_generation_def) (metis linorder_not_less option.sel)
  show "depth_of st s = Some d \<longleftrightarrow> first_generation E H s d"
  proof
    assume *: "first_generation E H s d"
    then have "s \<in> set (discovered st)" using generation_depth [OF assms] by (auto simp: first_generation_def disc(1))
    then obtain k where "depth_of st s = Some k" using disc(2) by blast
    with exact first_generation_unique * show "depth_of st s = Some d" by blast
  qed (rule exact)
qed

section \<open>The heads\<close>

definition heads_inv :: "dag_state \<Rightarrow> bool" where
  "heads_inv st \<longleftrightarrow> pending st = discovered st \<and> distinct (discovered st) \<and> chosen st = [] \<and>
     depth_of st = (\<lambda>s. if s \<in> set (discovered st) then Some 0 else None)"

lemma heads_inv_start [simp]: "heads_inv empty_dag_state"
  by (simp add: heads_inv_def empty_dag_state_def)

lemma heads_inv_discover: "heads_inv st \<Longrightarrow> s \<notin> set (discovered st) \<Longrightarrow> heads_inv (discover s 0 None st)"
  by (auto simp: heads_inv_def discover_def fun_eq_iff)

lemma heads_inv_bfs:
  assumes "heads_inv st"
  shows "bfs_inv E (set (discovered st)) [] st" "depth_inv E (set (discovered st)) [] st"
proof -
  have "map (the \<circ> depth_of st) (discovered st) = map (\<lambda>_. 0) (discovered st)" using assms by (simp add: heads_inv_def)
  then have "sorted (map (the \<circ> depth_of st) (discovered st))" by (simp add: map_replicate_const)
  with assms show "bfs_inv E (set (discovered st)) [] st" "depth_inv E (set (discovered st)) [] st"
    by (auto simp: heads_inv_def bfs_inv_def depth_inv_def dom_def)
qed

lemma queue_heads_sound:
  "queue_heads limits stop heads st = Inr st' \<Longrightarrow> heads_inv st \<Longrightarrow>
    heads_inv st' \<and> (\<not> truncated st' \<longrightarrow> \<not> truncated st \<and> set (discovered st') = set (discovered st) \<union> (set heads - stop))"
proof (induction heads arbitrary: st)
  case (Cons h heads)
  show ?case
  proof (cases "h \<in> stop \<or> h \<in> set (discovered st)")
    case True
    with Cons.prems Cons.IH [of st] show ?thesis by auto
  next
    case False
    have cut: "heads_inv (st\<lparr>truncated := True\<rparr>)" using Cons.prems(2) by (simp add: heads_inv_def)
    from False Cons.prems(1) consider "queue_heads limits stop heads (st\<lparr>truncated := True\<rparr>) = Inr st'"
      | "queue_heads limits stop heads (discover h 0 None st) = Inr st'"
      by (auto simp: res_bind_Inr truncate_or_error_Inr split: if_split_asm)
    then show ?thesis
    proof cases
      case 1
      from Cons.IH [OF this cut] show ?thesis by simp
    next
      case 2
      from Cons.IH [OF this heads_inv_discover] Cons.prems(2) False show ?thesis by (auto simp: discover_def)
    qed
  qed
qed simp

lemma queue_heads_complete:
  "heads_inv st \<Longrightarrow> \<not> truncated st \<Longrightarrow> card (set (discovered st) \<union> (set heads - stop)) \<le> max_results limits \<Longrightarrow>
    \<exists>st'. queue_heads limits stop heads st = Inr st' \<and> \<not> truncated st'"
proof (induction heads arbitrary: st)
  case (Cons h heads)
  show ?case
  proof (cases "h \<in> stop \<or> h \<in> set (discovered st)")
    case True
    moreover from True have "set (discovered st) \<union> (set (h # heads) - stop) = set (discovered st) \<union> (set heads - stop)" by auto
    ultimately show ?thesis using Cons.IH [OF Cons.prems(1,2)] Cons.prems(3) by auto
  next
    case False
    have "Suc (length (discovered st)) = card (insert h (set (discovered st)))"
      using False Cons.prems(1) by (simp add: heads_inv_def distinct_card)
    also have "\<dots> \<le> card (set (discovered st) \<union> (set (h # heads) - stop))" using False by (intro card_mono) auto
    finally have "length (discovered st) < max_results limits" using Cons.prems(3) by simp
    moreover have "set (discovered (discover h 0 None st)) \<union> (set heads - stop) = set (discovered st) \<union> (set (h # heads) - stop)"
      using False by auto
    ultimately show ?thesis
      using Cons.IH [OF heads_inv_discover [OF Cons.prems(1), of h]] Cons.prems(2,3) False by (auto simp: discover_def)
  qed
qed simp

lemma queue_heads_results:
  "queue_heads limits stop heads st = Inr st' \<Longrightarrow> length (discovered st) \<le> max_results limits \<Longrightarrow>
    length (discovered st') \<le> max_results limits"
  by (induction heads arbitrary: st) (auto simp: res_bind_Inr truncate_or_error_Inr discover_def split: if_split_asm)

end
