(* ===== verification/Dag_Closure_Laws.thy ===== *)
theory Dag_Closure_Laws
  imports Dag_Walk_Laws
begin

text \<open>
  The ancestor closures against the generations: the walk over a parent map and the batched walk over
  a store are the same walk, and a closure that is not truncated is the ancestry of its heads.
\<close>

section \<open>Sources of parents\<close>

text \<open>The parents that the links of a store give, one snapshot at a time.\<close>

definition link_parents :: "(string \<Rightarrow> SnapshotParentLink option) \<Rightarrow> SnapshotParentMode \<Rightarrow> string \<Rightarrow> string list dag_result" where
  "link_parents L mode s = res_bind (require_parent_link s (L s) None) (\<lambda>link. selected_parents link mode)"

definition map_links :: "parent_map \<Rightarrow> string \<Rightarrow> SnapshotParentLink option" where
  "map_links parents s =
     map_option (\<lambda>ps. \<lparr>link_snapshot_id = s, parent_snapshot_ids = ps,
       primary_parent_snapshot_id = first_parent ps, parent_snapshot_id = first_parent ps\<rparr>) (map_of parents s)"

lemma parent_set_ok_first: "parent_set_ok c ps \<Longrightarrow> first_parent ps = Some p \<Longrightarrow> parent_set_ok c [p]"
  by (cases ps) (auto simp: parent_set_ok_def first_parent_def MAX_SNAPSHOT_PARENT_COUNT_def)

lemma parent_set_ok_Nil: "parent_set_ok c []"
  by (simp add: parent_set_ok_def)

lemma validate_link_ok: "validate_link s link = Inr () \<longleftrightarrow> parent_set_ok (Some s) (parent_snapshot_ids link) \<and>
    primary_parent_snapshot_id link = first_parent (parent_snapshot_ids link) \<and>
    parent_snapshot_id link = first_parent (parent_snapshot_ids link)"
  by (simp add: validate_link_def validate_snapshot_parent_set_ok)

definition mode_parents :: "SnapshotParentMode \<Rightarrow> string list \<Rightarrow> string list" where
  "mode_parents mode ps = (case mode of AllParents \<Rightarrow> ps | FirstParent \<Rightarrow> (case first_parent ps of None \<Rightarrow> [] | Some p \<Rightarrow> [p]))"

lemma mode_parents_ok: "parent_set_ok c ps \<Longrightarrow> parent_set_ok c (mode_parents mode ps)"
  by (auto simp: mode_parents_def parent_set_ok_Nil intro: parent_set_ok_first split: SnapshotParentMode.split option.split)

lemma require_parent_link_Inr: "require_parent_link s l r = Inr link \<longleftrightarrow> l = Some link \<and> link_snapshot_id link = s \<and> validate_link s link = Inr ()"
  by (cases l) (auto simp: require_parent_link_def res_bind_Inr split: option.splits)

lemma selected_parents_Inr: "selected_parents link mode = Inr ps \<longleftrightarrow>
    validate_link (link_snapshot_id link) link = Inr () \<and> ps = mode_parents mode (parent_snapshot_ids link)"
  by (auto simp: selected_parents_def res_bind_Inr mode_parents_def validate_link_ok split: SnapshotParentMode.splits option.splits)

lemma link_parents_Inr: "link_parents L mode s = Inr ps \<longleftrightarrow>
    (\<exists>link. L s = Some link \<and> link_snapshot_id link = s \<and> validate_link s link = Inr () \<and> ps = mode_parents mode (parent_snapshot_ids link))"
  by (auto simp: link_parents_def res_bind_Inr require_parent_link_Inr selected_parents_Inr)

lemma map_parents_Inr: "map_parents m mode s = Inr ps \<longleftrightarrow>
    (\<exists>qs. map_of m s = Some qs \<and> parent_set_ok (Some s) qs \<and> ps = mode_parents mode qs)"
  by (cases "map_of m s") (auto simp: map_parents_def res_bind_Inr mode_parents_def validate_snapshot_parent_set_ok)

lemma link_parents_requested: "link_parents L mode s = Inr ps \<longleftrightarrow>
    (\<exists>link. require_parent_link s (L s) requested = Inr link \<and> selected_parents link mode = Inr ps)"
  by (auto simp: link_parents_def res_bind_Inr require_parent_link_Inr)

interpretation link_source: parent_source "link_parents L mode" for L mode
  by unfold_locales (auto simp: link_parents_Inr validate_link_ok intro: mode_parents_ok)

interpretation map_source: parent_source "map_parents m mode" for m mode
  by unfold_locales (auto simp: map_parents_Inr intro: mode_parents_ok)

lemma link_parents_of_map: "link_parents (map_links m) mode s = Inr ps \<longleftrightarrow> map_parents m mode s = Inr ps"
  by (cases "map_of m s") (auto simp: link_parents_Inr map_parents_Inr map_links_def validate_link_ok)

section \<open>Batches\<close>

definition put_back :: "string list \<Rightarrow> dag_state \<Rightarrow> dag_state" where
  "put_back xs st = st\<lparr>pending := xs @ pending st\<rparr>"

lemma put_back_fields [simp]:
  "pending (put_back xs st) = xs @ pending st" "discovered (put_back xs st) = discovered st"
  "depth_of (put_back xs st) = depth_of st" "chosen (put_back xs st) = chosen st"
  "put_back xs st\<lparr>truncated := b\<rparr> = put_back xs (st\<lparr>truncated := b\<rparr>)"
  "put_back xs st\<lparr>chosen := m\<rparr> = put_back xs (st\<lparr>chosen := m\<rparr>)"
  "discover s d r (put_back xs st) = put_back xs (discover s d r st)"
  "(put_back (x # xs) st)\<lparr>pending := xs @ pending st\<rparr> = put_back xs st"
  by (simp_all add: put_back_def discover_def)

lemma add_parents_put_back:
  "add_parents limits present s d ps included (put_back xs st) =
    res_bind (add_parents limits present s d ps included st) (\<lambda>(included, st). Inr (included, put_back xs st))"
  by (induction ps arbitrary: included st) (auto simp: truncate_or_error_def split: SnapshotDagLimitMode.split)

lemma limit_depth_put_back:
  "limit_depth limits s d ps (put_back xs st) = res_bind (limit_depth limits s d ps st) (\<lambda>(ps, st). Inr (ps, put_back xs st))"
  by (auto simp: limit_depth_def truncate_or_error_def split: SnapshotDagLimitMode.split)

lemma expand_put_back:
  "expand limits stop present s ps (put_back xs st) = res_bind (expand limits stop present s ps st) (\<lambda>st. Inr (put_back xs st))"
proof (cases "depth_of st s")
  case (Some d)
  show ?thesis
  proof (cases "limit_depth limits s d (filter (\<lambda>p. p \<notin> stop) ps) st")
    case (Inr q)
    obtain qs st1 where q: "q = (qs, st1)" by fastforce
    show ?thesis
      by (cases "add_parents limits present s d qs [] st1")
        (auto simp: expand_def Some Inr q limit_depth_put_back add_parents_put_back)
  qed (simp add: expand_def Some limit_depth_put_back)
qed (simp add: expand_def)

lemma expand_batch_walk:
  "(\<exists>st'. expand_batch limits stop mode (map (\<lambda>s. (s, L s)) batch) st = Inr st' \<and>
      walk (link_parents L mode) (\<lambda>_. True) stop limits st' = Inr r) \<longleftrightarrow>
    walk (link_parents L mode) (\<lambda>_. True) stop limits (put_back batch st) = Inr r"
proof (induction batch arbitrary: st)
  case Nil
  then show ?case by (simp add: put_back_def)
next
  case (Cons s batch)
  have p: "pending (put_back (s # batch) st) = s # (batch @ pending st)" by simp
  have q: "put_back (s # batch) st\<lparr>pending := batch @ pending st\<rparr> = put_back batch st" by simp
  let ?W = "\<lambda>st. walk (link_parents L mode) (\<lambda>_. True) stop limits st = Inr r"
  have "?W (put_back (s # batch) st) \<longleftrightarrow>
      (\<exists>ps st1. link_parents L mode s = Inr ps \<and> expand limits stop (\<lambda>_. True) s ps st = Inr st1 \<and> ?W (put_back batch st1))"
    unfolding walk_Cons [OF p] q res_bind_Inr expand_put_back by blast
  also have "\<dots> \<longleftrightarrow> (\<exists>ps st1. link_parents L mode s = Inr ps \<and> expand limits stop (\<lambda>_. True) s ps st = Inr st1 \<and>
      (\<exists>st'. expand_batch limits stop mode (map (\<lambda>s. (s, L s)) batch) st1 = Inr st' \<and> ?W st'))"
    unfolding Cons.IH ..
  also have "\<dots> \<longleftrightarrow> (\<exists>st'. expand_batch limits stop mode (map (\<lambda>s. (s, L s)) (s # batch)) st = Inr st' \<and> ?W st')"
    unfolding list.map expand_batch.simps res_bind_Inr link_parents_requested [where requested = "requested_by st s"] by blast
  finally show ?case by blast
qed

text \<open>
  The contract of a batched lookup: an answer is the list of the single answers.  The provided method
  of the trait keeps it for every single lookup.
\<close>

locale batched_links =
  fixes links :: "string list \<Rightarrow> SnapshotParentLink option list dag_result" and L :: "string \<Rightarrow> SnapshotParentLink option"
  assumes batch_is_singles: "links ids = Inr ls \<Longrightarrow> ls = map L ids"
begin

lemma closure_loop_walk:
  assumes "store_parent_links store = links" "0 < batch_size limits"
    "closure_loop store stop mode limits st = Inr r"
  shows "walk (link_parents L mode) (\<lambda>_. True) stop limits st = Inr r"
  using assms
proof (induction store stop mode limits st rule: closure_loop.induct)
  case (1 store stop mode limits st)
  show ?case
  proof (cases "pending st = []")
    case True
    with 1(4) show ?thesis by (simp add: closure_loop.simps [of _ _ _ _ st] walk_Nil)
  next
    case False
    let ?b = "take (batch_size limits) (pending st)" and ?st = "st\<lparr>pending := drop (batch_size limits) (pending st)\<rparr>"
    from False 1(2-4) obtain ls st' where run: "links ?b = Inr ls" "length ls = length ?b"
      "expand_batch limits stop mode (zip ?b ls) ?st = Inr st'" "closure_loop store stop mode limits st' = Inr r"
      by (auto simp: closure_loop.simps [of _ _ _ _ st] Let_def res_bind_Inr split: if_split_asm)
    have "zip ?b ls = map (\<lambda>s. (s, L s)) ?b" unfolding batch_is_singles [OF run(1)] by (simp add: zip_map2 zip_same_conv_map)
    moreover have "walk (link_parents L mode) (\<lambda>_. True) stop limits st' = Inr r"
      using 1(1) [OF _ refl refl _ _ run(3) 1(2,3) run(4)] False run(1,2) 1(2,3) by auto
    moreover have "put_back ?b ?st = st" by (simp add: put_back_def)
    ultimately show ?thesis using expand_batch_walk [of limits stop mode L ?b ?st r] run(3) by auto
  qed
qed

end

locale total_links = batched_links +
  assumes batch_answers: "\<exists>ls. links ids = Inr ls"
begin

lemma links_map: "links ids = Inr (map L ids)"
  using batch_answers batch_is_singles by metis

lemma walk_closure_loop:
  assumes "store_parent_links store = links" "0 < batch_size limits"
    "walk (link_parents L mode) (\<lambda>_. True) stop limits st = Inr r"
  shows "closure_loop store stop mode limits st = Inr r"
  using assms
proof (induction store stop mode limits st rule: closure_loop.induct)
  case (1 store stop mode limits st)
  show ?case
  proof (cases "pending st = []")
    case True
    with 1(4) show ?thesis by (subst closure_loop.simps) (simp add: walk_Nil)
  next
    case False
    let ?b = "take (batch_size limits) (pending st)" and ?st = "st\<lparr>pending := drop (batch_size limits) (pending st)\<rparr>"
    have "put_back ?b ?st = st" by (simp add: put_back_def)
    with expand_batch_walk [of limits stop mode L ?b ?st r] 1(4) obtain st' where
      st': "expand_batch limits stop mode (map (\<lambda>s. (s, L s)) ?b) ?st = Inr st'"
        "walk (link_parents L mode) (\<lambda>_. True) stop limits st' = Inr r" by auto
    have zip: "zip ?b (map L ?b) = map (\<lambda>s. (s, L s)) ?b" by (simp add: zip_map2 zip_same_conv_map)
    have "closure_loop store stop mode limits st' = Inr r"
      using False 1(2,3) st' by (intro 1(1) [OF _ refl refl, of "map L ?b"]) (auto simp: links_map zip)
    then show ?thesis using False 1(2,3) st'(1) by (simp add: closure_loop.simps [of _ _ _ _ st] Let_def links_map zip)
  qed
qed

end

interpretation default_links: batched_links "snapshot_parent_links_default lookup" "\<lambda>s. case lookup s of Inl _ \<Rightarrow> None | Inr l \<Rightarrow> l" for lookup
proof
  show "snapshot_parent_links_default lookup ids = Inr ls \<Longrightarrow> ls = map (\<lambda>s. case lookup s of Inl _ \<Rightarrow> None | Inr l \<Rightarrow> l) ids" for ids ls
    by (induction ids arbitrary: ls) (auto simp: res_bind_Inr)
qed

interpretation total_default_links: total_links "snapshot_parent_links_default (\<lambda>s. Inr (L s))" L for L
proof
  show *: "snapshot_parent_links_default (\<lambda>s. Inr (L s)) ids = Inr ls \<Longrightarrow> ls = map L ids" for ids ls
    using default_links.batch_is_singles [of "\<lambda>s. Inr (L s)"] by simp
  show "\<exists>ls. snapshot_parent_links_default (\<lambda>s. Inr (L s)) ids = Inr ls" for ids
    by (induction ids) auto
qed

section \<open>The test for missing parents\<close>

text \<open>
  The parent-map closure tests a parent when it finds it, the store closure when its turn comes; a walk
  that succeeds passes both tests.
\<close>

lemma pending_discover [simp]: "pending (discover p d r st) = pending st @ [p]"
  by (simp add: discover_def)

lemma add_parents_pending: "add_parents limits present s d ps included st = Inr (included', st') \<Longrightarrow> set (pending st) \<subseteq> set (pending st')"
proof (induction ps arbitrary: included st)
  case (Cons p ps)
  then show ?case by (fastforce simp: res_bind_Inr truncate_or_error_Inr split: if_split_asm dest!: Cons.IH)
qed simp

lemma expand_pending: "expand limits stop present s ps st = Inr st' \<Longrightarrow> set (pending st) \<subseteq> set (pending st')"
  by (cases "depth_of st s") (auto simp: expand_def limit_depth_def res_bind_Inr truncate_or_error_Inr split: if_split_asm dest!: add_parents_pending)

lemma walk_pending_ok: "walk f present stop limits st = Inr r \<Longrightarrow> \<forall>s \<in> set (pending st). \<exists>ps. f s = Inr ps"
proof (induction st rule: walk_induct [of _ limits stop present])
  case (Cons st s rest)
  then obtain ps st1 where run: "f s = Inr ps" "expand limits stop present s ps (st\<lparr>pending := rest\<rparr>) = Inr st1"
    "walk f present stop limits st1 = Inr r" by (auto simp: walk_Cons res_bind_Inr)
  from Cons.IH [OF run(2,3)] expand_pending [OF run(2)] run(1) show ?case by (auto simp: Cons.hyps)
qed simp

lemma add_parents_present:
  assumes "\<forall>p. add_parents limits (\<lambda>_. True) s d ps included st = Inr (included', st') \<longrightarrow> p \<in> set (pending st') \<longrightarrow> present p"
  shows "add_parents limits present s d ps included st = Inr (included', st') \<longleftrightarrow>
    add_parents limits (\<lambda>_. True) s d ps included st = Inr (included', st')"
  using assms
proof (induction ps arbitrary: included st)
  case (Cons p ps)
  show ?case
  proof (cases "p \<in> set (discovered st) \<or> max_results limits \<le> length (discovered st)")
    case True
    with Cons show ?thesis by (auto simp: res_bind_Inr truncate_or_error_Inr)
  next
    case False
    let ?st = "discover p (d + 1) (Some s) st"
    have "present p" if "add_parents limits (\<lambda>_. True) s d ps (included @ [p]) ?st = Inr (included', st')"
      using add_parents_pending [OF that] Cons.prems False that by (auto simp: discover_def)
    moreover have "add_parents limits present s d ps (included @ [p]) ?st = Inr (included', st') \<longleftrightarrow>
        add_parents limits (\<lambda>_. True) s d ps (included @ [p]) ?st = Inr (included', st')"
      using Cons.prems False by (intro Cons.IH) simp
    ultimately show ?thesis using False by auto
  qed
qed simp

lemma expand_present:
  assumes "\<forall>p. expand limits stop (\<lambda>_. True) s ps st = Inr st' \<longrightarrow> p \<in> set (pending st') \<longrightarrow> present p"
  shows "expand limits stop present s ps st = Inr st' \<longleftrightarrow> expand limits stop (\<lambda>_. True) s ps st = Inr st'"
proof (cases "depth_of st s")
  case (Some d)
  have "add_parents limits present s d qs [] st1 = Inr (included, st2) \<longleftrightarrow>
      add_parents limits (\<lambda>_. True) s d qs [] st1 = Inr (included, st2)"
    if "limit_depth limits s d (filter (\<lambda>p. p \<notin> stop) ps) st = Inr (qs, st1)" "st' = st2\<lparr>chosen := btree_insert s included (chosen st2)\<rparr>"
    for qs st1 included st2
    using assms that by (intro add_parents_present) (auto simp: expand_def Some)
  then show ?thesis
    unfolding expand_def Some option.case res_bind_Inr split_paired_Ex prod.case sum.inject by blast
qed (simp add: expand_def)

lemma walk_present:
  assumes "\<And>s ps. f s = Inr ps \<Longrightarrow> present s"
  shows "walk f present stop limits st = Inr r \<longleftrightarrow> walk f (\<lambda>_. True) stop limits st = Inr r"
proof (induction st rule: walk_induct [of _ limits stop "\<lambda>_. True"])
  case (Cons st s rest)
  let ?st = "st\<lparr>pending := rest\<rparr>"
  have here: "expand limits stop present s ps ?st = Inr st1 \<longleftrightarrow> expand limits stop (\<lambda>_. True) s ps ?st = Inr st1"
    if "walk f (\<lambda>_. True) stop limits st1 = Inr r \<or> walk f present stop limits st1 = Inr r" for ps st1
    using walk_pending_ok assms that by (intro expand_present) blast
  have "walk f present stop limits st = Inr r \<longleftrightarrow>
      (\<exists>ps st1. f s = Inr ps \<and> expand limits stop present s ps ?st = Inr st1 \<and> walk f present stop limits st1 = Inr r)"
    unfolding walk_Cons [OF Cons.hyps(1)] res_bind_Inr by blast
  also have "\<dots> \<longleftrightarrow> (\<exists>ps st1. f s = Inr ps \<and> expand limits stop (\<lambda>_. True) s ps ?st = Inr st1 \<and> walk f (\<lambda>_. True) stop limits st1 = Inr r)"
    using here Cons.IH by blast
  also have "\<dots> \<longleftrightarrow> walk f (\<lambda>_. True) stop limits st = Inr r"
    unfolding walk_Cons [OF Cons.hyps(1)] res_bind_Inr by blast
  finally show ?case .
qed (simp add: walk_Nil)

lemma walk_source_cong:
  assumes "\<And>s ps. f s = Inr ps \<longleftrightarrow> g s = Inr ps"
  shows "walk f present stop limits st = Inr r \<longleftrightarrow> walk g present stop limits st = Inr r"
proof (induction st rule: walk_induct [of _ limits stop present])
  case (Cons st s rest)
  then show ?case unfolding walk_Cons [OF Cons.hyps(1)] res_bind_Inr assms by blast
qed (simp add: walk_Nil)

section \<open>Whole closures\<close>

lemma canonical_ids_Inr:
  "canonical_ids role k out ids = Inr ids' \<longleftrightarrow> (\<forall>i \<in> set ids. canonical_text i) \<and>
    ids' = fold (\<lambda>v out. if v \<in> set out then out else out @ [v]) ids out"
  by (induction ids arbitrary: k out) auto

lemma fold_keep_set: "set (fold (\<lambda>v out. if v \<in> set out then out else out @ [v]) ids out) = set out \<union> set ids"
  by (induction ids arbitrary: out) auto

lemma canonical_snapshot_ids_set: "canonical_snapshot_ids ids role = Inr ids' \<Longrightarrow> set ids' = set ids"
  by (auto simp: canonical_snapshot_ids_def canonical_ids_Inr fold_keep_set)

lemma canonical_snapshot_ids_run: "\<forall>i \<in> set ids. canonical_text i \<Longrightarrow> \<exists>ids'. canonical_snapshot_ids ids role = Inr ids'"
  by (auto simp: canonical_snapshot_ids_def canonical_ids_Inr)

lemma canonical_snapshot_ids_texts: "canonical_snapshot_ids ids role = Inr ids' \<Longrightarrow> \<forall>i \<in> set ids. canonical_text i"
  by (auto simp: canonical_snapshot_ids_def canonical_ids_Inr)

lemma validate_limits_Inr [simp]: "validate_limits limits = Inr limits' \<longleftrightarrow> limits' = limits \<and> 0 < max_results limits \<and> 0 < batch_size limits"
  by (auto simp: validate_limits_def)

lemma finish_traversal_empty: "finish_traversal empty_dag_state = Inr empty_traversal"
  by (simp add: finish_traversal_def empty_dag_state_def empty_traversal_def topological_order_with_rank_def initial_ready_def)

text \<open>Both closures are this one, over their source of parents.\<close>

definition closure_over ::
    "(string \<Rightarrow> string list dag_result) \<Rightarrow> string list \<Rightarrow> string set \<Rightarrow> SnapshotDagLimits \<Rightarrow> SnapshotDagTraversal \<Rightarrow> bool" where
  "closure_over f heads stop limits t \<longleftrightarrow> 0 < max_results limits \<and> 0 < batch_size limits \<and>
     (\<exists>heads' st r. canonical_snapshot_ids heads ''head'' = Inr heads' \<and>
       queue_heads limits stop heads' empty_dag_state = Inr st \<and>
       walk f (\<lambda>_. True) stop limits st = Inr r \<and> finish_traversal r = Inr t)"

lemma map_closure_over:
  "snapshot_ancestor_closure_from_parent_map parents heads stop mode limits = Inr t \<longleftrightarrow>
    closure_over (map_parents parents mode) heads stop limits t"
proof -
  have "walk (map_parents parents mode) (\<lambda>p. map_of parents p \<noteq> None) stop limits st = Inr r \<longleftrightarrow>
      walk (map_parents parents mode) (\<lambda>_. True) stop limits st = Inr r" for st r
    by (rule walk_present) (auto simp: map_parents_Inr)
  then show ?thesis
    unfolding snapshot_ancestor_closure_from_parent_map_def closure_over_def res_bind_Inr validate_limits_Inr by auto
qed

lemma store_closure_Inr:
  "snapshot_ancestor_closure store heads stop mode limits = Inr t \<longleftrightarrow> 0 < max_results limits \<and> 0 < batch_size limits \<and>
    (\<exists>heads' st r. canonical_snapshot_ids heads ''head'' = Inr heads' \<and> queue_heads limits stop heads' empty_dag_state = Inr st \<and>
      closure_loop store stop mode limits st = Inr r \<and> finish_traversal r = Inr t)"
proof -
  have "closure_loop store stop mode limits empty_dag_state = Inr empty_dag_state"
    by (subst closure_loop.simps) (simp add: empty_dag_state_def)
  then have empty: "Inr empty_traversal = Inr t \<longleftrightarrow> (\<exists>st r. queue_heads limits stop [] empty_dag_state = Inr st \<and>
      closure_loop store stop mode limits st = Inr r \<and> finish_traversal r = Inr t)"
    by (simp add: finish_traversal_empty)
  have "(if heads' = [] then Inr empty_traversal
      else res_bind (queue_heads limits stop heads' empty_dag_state) (\<lambda>st. res_bind (closure_loop store stop mode limits st) finish_traversal)) = Inr t \<longleftrightarrow>
      (\<exists>st r. queue_heads limits stop heads' empty_dag_state = Inr st \<and> closure_loop store stop mode limits st = Inr r \<and> finish_traversal r = Inr t)" for heads'
  proof (cases "heads' = []")
    case True
    show ?thesis unfolding True using empty by (simp only: refl if_True)
  qed (simp add: res_bind_Inr)
  then show ?thesis unfolding snapshot_ancestor_closure_def res_bind_Inr validate_limits_Inr by blast
qed

context batched_links
begin

lemma store_closure_over:
  assumes "store_parent_links store = links" "snapshot_ancestor_closure store heads stop mode limits = Inr t"
  shows "closure_over (link_parents L mode) heads stop limits t"
  using closure_loop_walk [OF assms(1)] assms(2) unfolding store_closure_Inr closure_over_def by blast

end

context total_links
begin

lemma closure_over_store:
  assumes "store_parent_links store = links" "closure_over (link_parents L mode) heads stop limits t"
  shows "snapshot_ancestor_closure store heads stop mode limits = Inr t"
  using walk_closure_loop [OF assms(1)] assms(2) unfolding store_closure_Inr closure_over_def by blast

end

lemma empty_dag_state_fields [simp]: "discovered empty_dag_state = []" "truncated empty_dag_state = False" "pending empty_dag_state = []"
  by (simp_all add: empty_dag_state_def)

text \<open>In error mode nothing is ever cut off.\<close>

lemma add_parents_error_mode:
  "limit_mode limits = LimitError \<Longrightarrow> add_parents limits present s d ps included st = Inr (included', st') \<Longrightarrow> truncated st' = truncated st"
  by (induction ps arbitrary: included st) (auto simp: res_bind_Inr truncate_or_error_Inr discover_def split: if_split_asm)

lemma expand_error_mode:
  "limit_mode limits = LimitError \<Longrightarrow> expand limits stop present s ps st = Inr st' \<Longrightarrow> truncated st' = truncated st"
  by (cases "depth_of st s") (auto simp: expand_def limit_depth_def res_bind_Inr truncate_or_error_Inr split: if_split_asm dest: add_parents_error_mode)

lemma walk_error_mode:
  "limit_mode limits = LimitError \<Longrightarrow> walk f present stop limits st = Inr r \<Longrightarrow> truncated r = truncated st"
proof (induction st rule: walk_induct [of _ limits stop present])
  case (Cons st s rest)
  then obtain ps st1 where "expand limits stop present s ps (st\<lparr>pending := rest\<rparr>) = Inr st1" "walk f present stop limits st1 = Inr r"
    by (auto simp: walk_Cons res_bind_Inr)
  with Cons show ?case by (auto dest: expand_error_mode)
qed (simp add: walk_Nil)

lemma queue_heads_error_mode:
  "limit_mode limits = LimitError \<Longrightarrow> queue_heads limits stop heads st = Inr st' \<Longrightarrow> truncated st' = truncated st"
  by (induction heads arbitrary: st) (auto simp: res_bind_Inr truncate_or_error_Inr discover_def split: if_split_asm)

lemma finish_traversal_Inr:
  "finish_traversal st = Inr t \<Longrightarrow> topological_order_with_rank (chosen st) {} (Some (rank_of st)) = Inr (topological_snapshot_ids t) \<and>
    traversal_parents t = chosen st \<and> depth_by_snapshot_id t = depth_of st \<and> traversal_truncated t = truncated st"
  by (auto simp: finish_traversal_def res_bind_Inr)

lemma closure_error_mode:
  "closure_over f heads stop limits t \<Longrightarrow> limit_mode limits = LimitError \<Longrightarrow> \<not> traversal_truncated t"
  using queue_heads_error_mode [of limits stop _ empty_dag_state] walk_error_mode [of limits f]
  by (auto simp: closure_over_def dest!: finish_traversal_Inr)

definition history_edges :: "(string \<Rightarrow> string list) \<Rightarrow> string set \<Rightarrow> (string \<times> string) set" where
  "history_edges E A = {(p, c). c \<in> A \<and> p \<in> set (E c)}"

lemma chosen_edges:
  assumes "map_of m = (\<lambda>s. if s \<in> A then Some (E s) else None)"
  shows "inner_parents m {} c = (if c \<in> A then E c else [])" "inner_edges m {} = history_edges E A" "fst ` set m = A"
proof -
  show "inner_parents m {} c = (if c \<in> A then E c else [])" for c by (simp add: inner_parents_def assms)
  show "fst ` set m = A" unfolding dom_map_of_conv_image_fst [symmetric] by (auto simp: assms split: if_split_asm)
  then show "inner_edges m {} = history_edges E A" by (auto simp: inner_edges_def history_edges_def inner_parents_def assms)
qed

definition exact_closure :: "(string \<Rightarrow> string list) \<Rightarrow> string set \<Rightarrow> SnapshotDagTraversal \<Rightarrow> bool" where
  "exact_closure E H t \<longleftrightarrow>
     btree_wf (traversal_parents t) \<and>
     map_of (traversal_parents t) = (\<lambda>s. if s \<in> ancestry E H then Some (E s) else None) \<and>
     (\<forall>s d. distance_from_head t s = Some d \<longleftrightarrow> first_generation E H s d) \<and>
     set (topological_snapshot_ids t) = ancestry E H \<and> distinct (topological_snapshot_ids t) \<and>
     parents_first (\<lambda>c. set (E c)) (topological_snapshot_ids t)"

context parent_source
begin

lemma closure_walk:
  assumes "closure_over parents_of heads stop limits t" "\<not> traversal_truncated t"
  shows "\<exists>past st. bfs_inv (edges_of parents_of stop) (set heads - stop) past st \<and>
    depth_inv (edges_of parents_of stop) (set heads - stop) past st \<and> pending st = [] \<and>
    (\<forall>s \<in> set past. \<exists>ps. parents_of s = Inr ps) \<and> finish_traversal st = Inr t"
proof -
  from assms(1) obtain heads' st r where run: "canonical_snapshot_ids heads ''head'' = Inr heads'"
      "queue_heads limits stop heads' empty_dag_state = Inr st" "walk parents_of (\<lambda>_. True) stop limits st = Inr r" "finish_traversal r = Inr t"
    by (auto simp: closure_over_def)
  have r: "\<not> truncated r" using finish_traversal_Inr [OF run(4)] assms(2) by simp
  then have "\<not> truncated st" using walk_truncated [OF run(3)] by blast
  then have st: "heads_inv st" "set (discovered st) = set heads - stop"
    using queue_heads_sound [OF run(2) heads_inv_start] canonical_snapshot_ids_set [OF run(1)] by simp_all
  from walk_sound [OF run(3) r heads_inv_bfs [OF st(1)]] obtain past where
    "bfs_inv (edges_of parents_of stop) (set heads - stop) past r" "depth_inv (edges_of parents_of stop) (set heads - stop) past r"
    "pending r = []" "\<forall>s \<in> set past. \<exists>ps. parents_of s = Inr ps" unfolding st(2) by auto
  with run(4) show ?thesis by blast
qed

lemma closure_exact:
  assumes "closure_over parents_of heads stop limits t" "\<not> traversal_truncated t"
  shows "exact_closure (edges_of parents_of stop) (set heads - stop) t"
proof -
  let ?E = "edges_of parents_of stop" and ?H = "set heads - stop"
  from closure_walk [OF assms] obtain past st where
    inv: "bfs_inv ?E ?H past st" "depth_inv ?E ?H past st" "pending st = []" and fin: "finish_traversal st = Inr t" by blast
  note last = bfs_done [OF inv] and t = finish_traversal_Inr [OF fin]
  have wf: "btree_wf (chosen st)" using inv(1) unfolding bfs_inv_def by blast
  note topo = topological_sound [OF wf t [THEN conjunct1]]
  have "parents_first (\<lambda>c. set (?E c)) (topological_snapshot_ids t)"
    using topo(2,3) unfolding parents_first_def chosen_edges(1,3) [OF last(1)] by (metis (full_types) nth_mem)
  then show ?thesis
    using last wf t topo chosen_edges(3) [OF last(1)] by (simp add: exact_closure_def distance_from_head_def)
qed

lemma closure_sources:
  assumes "closure_over parents_of heads stop limits t" "\<not> traversal_truncated t" "s \<in> ancestry (edges_of parents_of stop) (set heads - stop)"
  shows "\<exists>ps. parents_of s = Inr ps"
  using closure_walk [OF assms(1,2)] assms(3) bfs_done(4) by blast

lemma closure_acyclic:
  assumes "closure_over parents_of heads stop limits t" "\<not> traversal_truncated t"
  shows "acyclic (history_edges (edges_of parents_of stop) (ancestry (edges_of parents_of stop) (set heads - stop)))"
  using closure_exact [OF assms] unfolding exact_closure_def history_edges_def
  by (intro parents_first_acyclic [of "topological_snapshot_ids t" "\<lambda>c. set (edges_of parents_of stop c)"]) auto

lemma closure_complete:
  assumes "\<forall>h \<in> set heads. canonical_text h" "0 < max_results limits" "0 < batch_size limits"
    and fin: "finite (ancestry (edges_of parents_of stop) (set heads - stop))"
    and fits: "card (ancestry (edges_of parents_of stop) (set heads - stop)) \<le> max_results limits"
    and deep: "\<And>s d. first_generation (edges_of parents_of stop) (set heads - stop) s d \<Longrightarrow> edges_of parents_of stop s \<noteq> [] \<Longrightarrow>
      d < max_depth limits"
    and src: "\<And>s. s \<in> ancestry (edges_of parents_of stop) (set heads - stop) \<Longrightarrow> \<exists>ps. parents_of s = Inr ps"
    and acyc: "acyclic (history_edges (edges_of parents_of stop) (ancestry (edges_of parents_of stop) (set heads - stop)))"
  shows "\<exists>t. closure_over parents_of heads stop limits t \<and> \<not> traversal_truncated t"
proof -
  let ?E = "edges_of parents_of stop" and ?H = "set heads - stop"
  from canonical_snapshot_ids_run [OF assms(1)] obtain heads' where heads': "canonical_snapshot_ids heads ''head'' = Inr heads'" by blast
  note same = canonical_snapshot_ids_set [OF heads']
  have "card ?H \<le> max_results limits" using card_mono [OF fin ancestry_heads] fits by (rule order_trans)
  with queue_heads_complete [OF heads_inv_start, of heads' stop limits] same obtain st where
    q: "queue_heads limits stop heads' empty_dag_state = Inr st" "\<not> truncated st" by auto
  have st: "heads_inv st" "set (discovered st) = ?H" using queue_heads_sound [OF q(1) heads_inv_start] q(2) same by simp_all
  note start = heads_inv_bfs [OF st(1), of ?E, unfolded st(2)]
  have "\<exists>r. walk parents_of (\<lambda>_. True) stop limits st = Inr r \<and> \<not> truncated r"
  proof (rule walk_complete [OF start q(2) _ fin fits])
    show "set (discovered st) \<subseteq> ancestry ?E ?H" using st(2) ancestry_heads by simp
    show "d < max_depth limits" if "first_generation ?E ?H s d" "?E s \<noteq> []" for s d by (rule deep [OF that])
    show "True \<and> (\<exists>ps. parents_of s = Inr ps) \<and> set (?E s) \<subseteq> ancestry ?E ?H" if "s \<in> ancestry ?E ?H" for s
      using src [OF that] ancestry_step [OF that] by blast
  qed
  then obtain r where r: "walk parents_of (\<lambda>_. True) stop limits st = Inr r" "\<not> truncated r" by blast
  from walk_sound [OF r start] obtain past where
    inv: "bfs_inv ?E ?H past r" "depth_inv ?E ?H past r" "pending r = []" by blast
  note last = bfs_done [OF inv] and wf = inv(1) [unfolded bfs_inv_def, THEN conjunct2, THEN conjunct2, THEN conjunct1]
  have "entries_ok (chosen r) {} (chosen r)"
  proof -
    have "ps = ?E c \<and> c \<in> ancestry ?E ?H" if "(c, ps) \<in> set (chosen r)" for c ps
    proof -
      have "map_of (chosen r) c = Some ps" using that wf by (simp add: btree_wf_def)
      then show ?thesis unfolding last(1) by (simp split: if_split_asm)
    qed
    moreover have "map_of (chosen r) p \<noteq> None" if "c \<in> ancestry ?E ?H" "p \<in> set (?E c)" for c p
      using that ancestry_step last(1) by auto
    ultimately show ?thesis using edges_of_ok by (fastforce simp: entries_ok_def)
  qed
  from topological_complete [OF wf this] acyc obtain ordered where
    "topological_order_with_rank (chosen r) {} (Some (rank_of r)) = Inr ordered" unfolding chosen_edges(2) [OF last(1)] by blast
  then obtain t where "finish_traversal r = Inr t" "traversal_truncated t = truncated r" by (simp add: finish_traversal_def)
  with heads' q(1) r assms(2,3) show ?thesis unfolding closure_over_def by blast
qed

lemma closure_limits:
  assumes "closure_over parents_of heads stop limits t" "\<not> traversal_truncated t"
  shows "\<forall>h \<in> set heads. canonical_text h" "0 < max_results limits" "0 < batch_size limits"
    "finite (ancestry (edges_of parents_of stop) (set heads - stop))"
    "card (ancestry (edges_of parents_of stop) (set heads - stop)) \<le> max_results limits"
    "first_generation (edges_of parents_of stop) (set heads - stop) s d \<Longrightarrow> edges_of parents_of stop s \<noteq> [] \<Longrightarrow>
      d < max_depth limits"
proof -
  let ?E = "edges_of parents_of stop" and ?H = "set heads - stop"
  from assms(1) obtain heads' st r where run: "canonical_snapshot_ids heads ''head'' = Inr heads'"
      "queue_heads limits stop heads' empty_dag_state = Inr st" "walk parents_of (\<lambda>_. True) stop limits st = Inr r" "finish_traversal r = Inr t"
    and pos: "0 < max_results limits" "0 < batch_size limits"
    by (auto simp: closure_over_def)
  show "0 < max_results limits" "0 < batch_size limits" by (fact pos)+
  show "\<forall>h \<in> set heads. canonical_text h" by (rule canonical_snapshot_ids_texts [OF run(1)])
  have r: "\<not> truncated r" using finish_traversal_Inr [OF run(4)] assms(2) by simp
  then have "\<not> truncated st" using walk_truncated [OF run(3)] by blast
  then have st: "heads_inv st" "set (discovered st) = ?H"
    using queue_heads_sound [OF run(2) heads_inv_start] canonical_snapshot_ids_set [OF run(1)] by simp_all
  note start = heads_inv_bfs [OF st(1), of ?E, unfolded st(2)]
  from walk_sound [OF run(3) r start] obtain past where
    inv: "bfs_inv ?E ?H past r" "depth_inv ?E ?H past r" "pending r = []" by blast
  note last = bfs_done [OF inv]
  have "length (discovered st) \<le> max_results limits" by (rule queue_heads_results [OF run(2)]) simp
  note lim = walk_limits [OF run(3) r start(1) this]
  show "finite (ancestry ?E ?H)" unfolding last(3) [symmetric] by simp
  show "card (ancestry ?E ?H) \<le> max_results limits"
    using lim distinct_card [OF bfs_inv_distinct [OF inv(1)]] unfolding last(3) by simp
  show "d < max_depth limits" if "first_generation ?E ?H s d" "?E s \<noteq> []" for s d
  proof -
    have d: "depth_of r s = Some d" using that(1) last(2) by blast
    then have "s \<in> set (discovered r)" using inv(1) by (auto simp: bfs_inv_def)
    with lim d that(2) show ?thesis by auto
  qed
qed

end

end
