(* ===== verification/Dag_Query_Laws.thy ===== *)
theory Dag_Query_Laws
  imports Snapshot_Queries Dag_Closure_Laws
begin

text \<open>
  Merge bases and ancestor distances against the ancestry: the bases are the common ancestors that no
  other common ancestor descends from, the distance is the first generation that has the ancestor, and
  the cache of parent links changes no answer.
\<close>

section \<open>Merge bases\<close>

lemma ancestry_trans: "y \<in> ancestry E H \<Longrightarrow> x \<in> ancestry E {y} \<Longrightarrow> x \<in> ancestry E H"
  using ancestry_least [of "{y}" "ancestry E H" E] ancestry_step [of _ E H] by blast

lemma ancestry_last_step:
  assumes "x \<in> ancestry E {y}" "x \<noteq> y"
  shows "\<exists>z \<in> ancestry E {y}. x \<in> set (E z)"
proof -
  from assms(1) obtain k where k: "x \<in> generation E {y} k" by (auto simp: ancestry_def)
  with assms(2) obtain j where "k = Suc j" by (cases k) auto
  with k show ?thesis by (auto simp: ancestry_def)
qed

lemma common_children_run:
  assumes "\<forall>s \<in> set ss. map_of (traversal_parents left) s = Some (E s)"
  shows "common_children left right common ss acc = Inr (acc \<union> {p \<in> set common. \<exists>s \<in> set ss. p \<in> set (E s)})"
  using assms by (induction ss arbitrary: acc) auto

definition lowest_common :: "(string \<Rightarrow> string list) \<Rightarrow> string set \<Rightarrow> string set" where
  "lowest_common E C = {x \<in> C. \<forall>y \<in> C. y \<noteq> x \<longrightarrow> x \<notin> ancestry E {y}}"

lemma lowest_common_children:
  assumes "\<And>s. s \<notin> set (E s)" "\<And>y x. y \<in> C \<Longrightarrow> x \<in> ancestry E {y} \<Longrightarrow> x \<in> C"
  shows "lowest_common E C = {x \<in> C. \<not> (\<exists>s \<in> C. x \<in> set (E s))}"
proof -
  have "\<exists>s \<in> C. x \<in> set (E s)" if "y \<in> C" "y \<noteq> x" "x \<in> ancestry E {y}" for x y
    using ancestry_last_step [OF that(3)] that assms(2) by blast
  moreover have "x \<in> ancestry E {s} \<and> s \<noteq> x" if "x \<in> set (E s)" for x s
    using that assms(1) ancestry_step [of s E "{s}" x] ancestry_heads [of "{s}" E] by blast
  ultimately show ?thesis unfolding lowest_common_def by blast
qed

lemma exact_closure_keys: "exact_closure E H t \<Longrightarrow> set (map fst (traversal_parents t)) = ancestry E H"
  using chosen_edges(3) by (auto simp: exact_closure_def)

lemma exact_distance:
  assumes "exact_closure E H t" "first_generation E H s d"
  shows "distance_or_max t s = d"
proof -
  have "distance_from_head t s = Some d" using assms unfolding exact_closure_def by blast
  then show ?thesis by (simp add: distance_or_max_def)
qed

lemma merge_bases_exact:
  assumes left: "exact_closure E {l} left" and right: "exact_closure E {r} right"
    and self: "\<And>s. s \<notin> set (E s)" and run: "merge_bases_from_traversals left right = Inr bases"
  shows "set bases = lowest_common E (ancestry E {l} \<inter> ancestry E {r})" "distinct bases"
    "sorted (map (merge_base_sort_key left right) bases)"
proof -
  let ?C = "ancestry E {l} \<inter> ancestry E {r}" and ?common = "common_snapshots left right"
  have common: "set ?common = ?C" "distinct ?common"
    using exact_closure_keys [OF left] left right by (auto simp: common_snapshots_def exact_closure_def btree_wf_def)
  have "map_of (traversal_parents left) s = Some (E s)" if "s \<in> set ?common" for s
    using that left unfolding common(1) by (simp add: exact_closure_def)
  then have "common_children left right ?common ?common {} = Inr ({} \<union> {p \<in> ?C. \<exists>s \<in> ?C. p \<in> set (E s)})"
    using common_children_run [of ?common left E right ?common "{}"] common(1) by simp
  with run have bases: "bases = (if ?common = [] then [] else
      sort_key (merge_base_sort_key left right) (filter (\<lambda>s. s \<notin> {p \<in> ?C. \<exists>s \<in> ?C. p \<in> set (E s)}) ?common))"
    by (auto simp: merge_bases_from_traversals_def Let_def)
  then have "set bases = {x \<in> ?C. \<not> (\<exists>s \<in> ?C. x \<in> set (E s))}"
    using common(1) by (cases "?common = []") auto
  also have "\<dots> = lowest_common E ?C"
    using self ancestry_trans by (subst lowest_common_children) auto
  finally show "set bases = lowest_common E ?C" .
  show "distinct bases" "sorted (map (merge_base_sort_key left right) bases)" unfolding bases using common(2) by simp_all
qed

section \<open>Ancestor distance\<close>

lemma generation_frontier:
  assumes "bfs_inv E H past st" "depth_inv E H past st" "x \<in> generation E H k"
  shows "x \<in> set (discovered st) \<and> the (depth_of st x) \<le> k \<or> (\<exists>q \<in> set (pending st). the (depth_of st q) < k)"
  using assms(3)
proof (induction k arbitrary: x)
  case 0
  then show ?case using assms(1,2) by (auto simp: bfs_inv_def depth_inv_def)
next
  case (Suc k)
  have disc: "discovered st = past @ pending st" and closed: "\<forall>s \<in> set past. set (E s) \<subseteq> set (discovered st)"
    using assms(1) unfolding bfs_inv_def by blast+
  have step: "\<forall>s \<in> set past. \<forall>p \<in> set (E s). the (depth_of st p) \<le> Suc (the (depth_of st s))"
    using assms(2) unfolding depth_inv_def by blast
  from Suc.prems obtain c where c: "c \<in> generation E H k" "x \<in> set (E c)" by auto
  from Suc.IH [OF c(1)] consider "c \<in> set past" "the (depth_of st c) \<le> k" | "c \<in> set (pending st)" "the (depth_of st c) \<le> k"
    | q where "q \<in> set (pending st)" "the (depth_of st q) < k" using disc by auto
  then show ?case
  proof cases
    case 1
    with step c(2) have "the (depth_of st x) \<le> Suc k" by fastforce
    with closed c(2) 1(1) show ?thesis by blast
  next
    case 2
    then show ?thesis by (auto intro: bexI [of _ c])
  next
    case 3
    then show ?thesis by (auto intro: bexI [of _ q])
  qed
qed

lemma head_exact:
  assumes inv: "bfs_inv E H past st" "depth_inv E H past st" and queue: "pending st = s # rest" and d: "depth_of st s = Some d"
  shows "first_generation E H s d"
proof -
  have disc: "discovered st = past @ s # rest" using inv(1) unfolding bfs_inv_def queue by blast
  have "sorted (map (the \<circ> depth_of st) (discovered st))" using inv(2) unfolding depth_inv_def by blast
  then have least: "d \<le> the (depth_of st q)" if "q \<in> set (s # rest)" for q using that d by (auto simp: disc sorted_append)
  have "s \<notin> generation E H j" if "j < d" for j
  proof
    assume "s \<in> generation E H j"
    from generation_frontier [OF inv this] show False using least that d unfolding queue by fastforce
  qed
  moreover have "s \<in> generation E H d" using inv(2) d by (simp add: depth_inv_def)
  ultimately show ?thesis by (simp add: first_generation_def)
qed

text \<open>The search keeps no parent lists; they are added here to reuse the invariants of the walk.\<close>

lemma add_parents_chosen:
  "add_parents limits present s d ps included (st\<lparr>chosen := m\<rparr>) =
    res_bind (add_parents limits present s d ps included st) (\<lambda>(included, st). Inr (included, st\<lparr>chosen := m\<rparr>))"
proof (induction ps arbitrary: included st)
  case (Cons p ps)
  have "discover p (d + 1) (Some s) (st\<lparr>chosen := m\<rparr>) = discover p (d + 1) (Some s) st\<lparr>chosen := m\<rparr>" by (simp add: discover_def)
  moreover have "truncate_or_error limits e (st\<lparr>chosen := m\<rparr>) = res_bind (truncate_or_error limits e st) (\<lambda>st. Inr (st\<lparr>chosen := m\<rparr>))" for e
    by (simp add: truncate_or_error_def split: SnapshotDagLimitMode.split)
  ultimately show ?case using Cons.IH by (auto simp: truncate_or_error_def split: SnapshotDagLimitMode.split)
qed simp

lemma limit_depth_chosen:
  "limit_depth limits s d ps (st\<lparr>chosen := m\<rparr>) = res_bind (limit_depth limits s d ps st) (\<lambda>(ps, st). Inr (ps, st\<lparr>chosen := m\<rparr>))"
  by (auto simp: limit_depth_def truncate_or_error_def split: SnapshotDagLimitMode.split)

lemma expand_of_search:
  assumes "depth_of st s = Some d" "limit_depth limits s d ps st = Inr (qs, st1)" "add_parents limits (\<lambda>_. True) s d qs [] st1 = Inr (included, st2)"
  shows "expand limits {} (\<lambda>_. True) s ps (st\<lparr>chosen := m\<rparr>) = Inr (st2\<lparr>chosen := btree_insert s included m\<rparr>)"
  using assms by (simp add: expand_def limit_depth_chosen add_parents_chosen)

definition search_inv ::
    "(string \<Rightarrow> string list) \<Rightarrow> string set \<Rightarrow> string \<Rightarrow> string list \<Rightarrow> dag_state \<Rightarrow> bool" where
  "search_inv E H a batch st \<longleftrightarrow> \<not> truncated st \<and>
     (\<exists>m past. bfs_inv E H past (put_back batch (st\<lparr>chosen := m\<rparr>)) \<and> depth_inv E H past (put_back batch (st\<lparr>chosen := m\<rparr>)) \<and> a \<notin> set past)"

definition search_answer :: "(string \<Rightarrow> string list) \<Rightarrow> string set \<Rightarrow> string \<Rightarrow> nat option \<Rightarrow> bool" where
  "search_answer E H a r \<longleftrightarrow> (case r of None \<Rightarrow> a \<notin> ancestry E H | Some k \<Rightarrow> first_generation E H a k)"

lemma search_step:
  assumes mode: "limit_mode limits = LimitError" and inv: "search_inv (edges_of (link_parents L AllParents) {}) H a (s # batch) st"
    and link: "link_parents L AllParents s = Inr ps" and d: "depth_of st s = Some d" and other: "s \<noteq> a"
    and run: "limit_depth limits s d ps st = Inr (qs, st1)" "add_parents limits (\<lambda>_. True) s d qs [] st1 = Inr (included, st2)"
  shows "search_inv (edges_of (link_parents L AllParents) {}) H a batch st2"
proof -
  let ?E = "edges_of (link_parents L AllParents) {}"
  from inv obtain m past where nt: "\<not> truncated st"
    and bfs: "bfs_inv ?E H past (put_back (s # batch) (st\<lparr>chosen := m\<rparr>))"
    and dep: "depth_inv ?E H past (put_back (s # batch) (st\<lparr>chosen := m\<rparr>))" and a: "a \<notin> set past"
    by (auto simp: search_inv_def)
  let ?st = "put_back (s # batch) (st\<lparr>chosen := m\<rparr>)" and ?st2 = "st2\<lparr>chosen := btree_insert s included m\<rparr>"
  have queue: "pending ?st = s # (batch @ pending st)" by simp
  have pop: "?st\<lparr>pending := batch @ pending st\<rparr> = put_back batch (st\<lparr>chosen := m\<rparr>)" by (simp add: put_back_def)
  have ex: "expand limits {} (\<lambda>_. True) s ps (put_back batch (st\<lparr>chosen := m\<rparr>)) = Inr (put_back batch ?st2)"
    by (simp add: expand_put_back expand_of_search [OF d run])
  have nt2: "\<not> truncated ?st2" using expand_error_mode [OF mode expand_of_search [OF d run, of m]] nt by simp
  have Es: "?E s = ps" using link by (simp add: edges_of_def)
  have "distinct ps" using link_source.edges_of_distinct [of L AllParents "{}" s] by (simp add: Es)
  from expand_needs [OF ex] nt2 this bfs_inv_distinct [OF bfs] d have
    "put_back batch ?st2 = stepped s d (?E s) (?st\<lparr>pending := batch @ pending st\<rparr>)"
    by (auto simp: Es pop put_back_def)
  with bfs_step [OF bfs queue link_source.edges_of_distinct] depth_step [OF bfs dep queue] d
  have "bfs_inv ?E H (past @ [s]) (put_back batch ?st2)" "depth_inv ?E H (past @ [s]) (put_back batch ?st2)" by auto
  with nt2 a other show ?thesis unfolding search_inv_def by fastforce
qed

lemma search_batch_run:
  assumes "limit_mode limits = LimitError" "search_inv (edges_of (link_parents L AllParents) {}) H a batch st"
    "search_batch limits a (map (\<lambda>s. (s, L s)) batch) st = Inr step"
  shows "case step of Found k \<Rightarrow> search_answer (edges_of (link_parents L AllParents) {}) H a (Some k)
    | Searching st' \<Rightarrow> search_inv (edges_of (link_parents L AllParents) {}) H a [] st'"
  using assms(2,3)
proof (induction batch arbitrary: st)
  case (Cons s batch)
  let ?E = "edges_of (link_parents L AllParents) {}"
  from Cons.prems(2) obtain l ps d where
    ps: "link_parents L AllParents s = Inr ps" and d: "depth_of st s = Some d" and
    rest: "if s = a then step = Found d else \<exists>qs st1 included st2. limit_depth limits s d ps st = Inr (qs, st1) \<and>
      add_parents limits (\<lambda>_. True) s d qs [] st1 = Inr (included, st2) \<and> search_batch limits a (map (\<lambda>s. (s, L s)) batch) st2 = Inr step"
    unfolding list.map search_batch_Cons link_parents_requested [where requested = "requested_by st s"] by blast
  show ?case
  proof (cases "s = a")
    case True
    from Cons.prems(1) obtain m past where "bfs_inv ?E H past (put_back (s # batch) (st\<lparr>chosen := m\<rparr>))"
      "depth_inv ?E H past (put_back (s # batch) (st\<lparr>chosen := m\<rparr>))" by (auto simp: search_inv_def)
    from head_exact [OF this, of s "batch @ pending st" d] d rest True show ?thesis by (simp add: search_answer_def)
  next
    case False
    with rest obtain qs st1 included st2 where run: "limit_depth limits s d ps st = Inr (qs, st1)"
      "add_parents limits (\<lambda>_. True) s d qs [] st1 = Inr (included, st2)" "search_batch limits a (map (\<lambda>s. (s, L s)) batch) st2 = Inr step" by auto
    from Cons.IH [OF search_step [OF assms(1) Cons.prems(1) ps d False run(1,2)] run(3)] show ?thesis .
  qed
qed auto

section \<open>The cache\<close>

lemma distance_loop_Nil: "pending st = [] \<Longrightarrow> distance_loop store a limits cache st = (cache, Inr None)"
  by (subst distance_loop.simps) simp

lemma distance_loop_step:
  "pending st \<noteq> [] \<Longrightarrow> 0 < batch_size limits \<Longrightarrow> distance_loop store a limits cache st =
    (case cached_parent_links store (take (batch_size limits) (pending st)) cache of
       (cache, Inl e) \<Rightarrow> (cache, Inl e)
     | (cache, Inr links) \<Rightarrow>
         (case search_batch limits a (zip (take (batch_size limits) (pending st)) links)
             (st\<lparr>pending := drop (batch_size limits) (pending st)\<rparr>) of
            Inl e \<Rightarrow> (cache, Inl e)
          | Inr (Found depth) \<Rightarrow> (cache, Inr (Some depth))
          | Inr (Searching st) \<Rightarrow> distance_loop store a limits cache st))"
  by (subst distance_loop.simps) (simp add: Let_def)

definition link_cache_ok :: "(string \<Rightarrow> SnapshotParentLink option) \<Rightarrow> SnapshotAncestorDistanceCache \<Rightarrow> bool" where
  "link_cache_ok L cache \<longleftrightarrow> (\<forall>s l. cache s = Some l \<longrightarrow> l = L s)"

lemma link_cache_ok_empty [simp]: "link_cache_ok L Map.empty"
  by (simp add: link_cache_ok_def)

lemma cache_lookups_ok: "link_cache_ok L cache \<Longrightarrow> cache_lookups cache ids = Inr ls \<Longrightarrow> ls = map L ids"
  by (induction ids arbitrary: ls) (auto simp: res_bind_Inr link_cache_ok_def split: option.splits)

lemma cache_lookups_run: "link_cache_ok L cache \<Longrightarrow> \<forall>s \<in> set ids. cache s \<noteq> None \<Longrightarrow> cache_lookups cache ids = Inr (map L ids)"
  by (induction ids) (auto simp: link_cache_ok_def)

lemma cache_fill:
  "fold (\<lambda>(s, link) cache. cache(s \<mapsto> link)) (zip ids (map L ids)) cache = (\<lambda>s. if s \<in> set ids then Some (L s) else cache s)"
  by (induction ids arbitrary: cache) (auto simp: fun_eq_iff)

context batched_links
begin

lemma cached_links_ok:
  assumes "store_parent_links store = links" "link_cache_ok L cache" "cached_parent_links store ids cache = (cache', r)"
  shows "link_cache_ok L cache'" "r = Inr ls \<Longrightarrow> ls = map L ids"
proof -
  let ?missing = "filter (\<lambda>s. cache s = None) ids"
  have "link_cache_ok L cache' \<and> (r = cache_lookups cache' ids \<or> (\<exists>e. r = Inl e))"
  proof (cases "?missing = []")
    case True
    with assms(2,3) show ?thesis by (auto simp: cached_parent_links_def)
  next
    case False
    show ?thesis
    proof (cases "links ?missing")
      case (Inr ms)
      have ms: "ms = map L ?missing" by (rule batch_is_singles [OF Inr])
      have "link_cache_ok L (\<lambda>s. if s \<in> set ?missing then Some (L s) else cache s)" using assms(2) by (simp add: link_cache_ok_def)
      with False assms(1,3) Inr ms cache_fill [of ?missing L cache] show ?thesis by (auto simp: cached_parent_links_def Let_def)
    next
      case (Inl e)
      with False assms(1,3) have "cache' = cache" "r = Inl e" by (simp_all add: cached_parent_links_def Let_def)
      with assms(2) show ?thesis by blast
    qed
  qed
  then show "link_cache_ok L cache'" "r = Inr ls \<Longrightarrow> ls = map L ids" using cache_lookups_ok by auto
qed

lemma distance_loop_sound:
  assumes "store_parent_links store = links" "limit_mode limits = LimitError" "0 < batch_size limits" "link_cache_ok L cache"
    "search_inv (edges_of (link_parents L AllParents) {}) H a [] st"
    "distance_loop store a limits cache st = (cache', r)"
  shows "link_cache_ok L cache' \<and> (\<forall>answer. r = Inr answer \<longrightarrow> search_answer (edges_of (link_parents L AllParents) {}) H a answer)"
  using assms
proof (induction store a limits cache st arbitrary: cache' r rule: distance_loop.induct)
  case (1 store a limits cache st)
  let ?E = "edges_of (link_parents L AllParents) {}"
  show ?case
  proof (cases "pending st = []")
    case True
    from 1(6) obtain m past where "bfs_inv ?E H past (st\<lparr>chosen := m\<rparr>)" "depth_inv ?E H past (st\<lparr>chosen := m\<rparr>)" "a \<notin> set past"
      by (auto simp: search_inv_def put_back_def)
    with bfs_done(4) [of ?E H past "st\<lparr>chosen := m\<rparr>"] True have "a \<notin> ancestry ?E H" by auto
    with 1(5,7) show ?thesis unfolding distance_loop_Nil [OF True] by (auto simp: search_answer_def)
  next
    case False
    let ?b = "take (batch_size limits) (pending st)" and ?st = "st\<lparr>pending := drop (batch_size limits) (pending st)\<rparr>"
    obtain cache1 r1 where c1: "cached_parent_links store ?b cache = (cache1, r1)" by fastforce
    have ok: "link_cache_ok L cache1" by (rule cached_links_ok [OF 1(2,5) c1])
    have unf: "(cache', r) = (case r1 of Inl e \<Rightarrow> (cache1, Inl e) | Inr ls \<Rightarrow>
        (case search_batch limits a (zip ?b ls) ?st of Inl e \<Rightarrow> (cache1, Inl e) | Inr (Found k) \<Rightarrow> (cache1, Inr (Some k))
          | Inr (Searching st') \<Rightarrow> distance_loop store a limits cache1 st'))"
      using 1(7) unfolding distance_loop_step [OF False 1(4)] by (simp add: c1)
    show ?thesis
    proof (cases r1)
      case (Inl e)
      with unf ok show ?thesis by simp
    next
      case (Inr ls)
      have ls: "ls = map L ?b" by (rule cached_links_ok(2) [OF 1(2,5) c1 Inr])
      have zip: "zip ?b ls = map (\<lambda>s. (s, L s)) ?b" unfolding ls by (simp add: zip_map2 zip_same_conv_map)
      show ?thesis
      proof (cases "search_batch limits a (zip ?b ls) ?st")
        case (Inl e)
        with unf ok Inr show ?thesis by simp
      next
        case step: (Inr step)
        have "put_back ?b (?st\<lparr>chosen := m\<rparr>) = put_back [] (st\<lparr>chosen := m\<rparr>)" for m by (simp add: put_back_def)
        then have "search_inv ?E H a ?b ?st" using 1(6) by (simp add: search_inv_def)
        note post = search_batch_run [OF 1(3) this step [unfolded zip]]
        show ?thesis
        proof (cases step)
          case (Found k)
          with unf ok Inr step post show ?thesis by simp
        next
          case (Searching st')
          have "distance_loop store a limits cache1 st' = (cache', r)" using unf Inr step Searching by simp
          from 1(1) [OF _ refl refl c1 [symmetric] Inr _ _ 1(2-4) ok _ this] False 1(4) step Searching post show ?thesis by auto
        qed
      qed
    qed
  qed
qed

lemma distance_sound:
  assumes "store_parent_links store = links" "limit_mode limits = LimitError" "link_cache_ok L cache"
    "snapshot_ancestor_distance_with_cache store a d limits cache = (cache', r)"
  shows "link_cache_ok L cache'" "r = Inr answer \<Longrightarrow> search_answer (edges_of (link_parents L AllParents) {}) {d} a answer"
proof -
  let ?st = "discover d 0 None empty_dag_state" and ?E = "edges_of (link_parents L AllParents) {}"
  have heads: "heads_inv ?st" by (intro heads_inv_discover heads_inv_start) simp
  have same: "put_back [] (?st\<lparr>chosen := []\<rparr>) = ?st" by (simp add: put_back_def discover_def empty_dag_state_def)
  have "\<not> truncated ?st" by (simp add: discover_def)
  moreover have "bfs_inv ?E {d} [] (put_back [] (?st\<lparr>chosen := []\<rparr>))" "depth_inv ?E {d} [] (put_back [] (?st\<lparr>chosen := []\<rparr>))"
    unfolding same using heads_inv_bfs [OF heads, of ?E] by simp_all
  ultimately have start: "search_inv ?E {d} a [] ?st" unfolding search_inv_def by (metis empty_iff list.set(1))
  have "link_cache_ok L cache' \<and> (\<forall>answer. r = Inr answer \<longrightarrow> search_answer ?E {d} a answer)"
  proof (cases "res_bind (validate_limits limits) (\<lambda>_. canonical_snapshot_ids [d] ''descendant'')")
    case (Inl e)
    with assms(3,4) show ?thesis by (auto simp: snapshot_ancestor_distance_with_cache_def)
  next
    case (Inr ids)
    then have "0 < batch_size limits" by (auto simp: res_bind_Inr)
    from distance_loop_sound [OF assms(1,2) this assms(3) start] Inr assms(4) show ?thesis
      by (simp add: snapshot_ancestor_distance_with_cache_def)
  qed
  then show "link_cache_ok L cache'" "r = Inr answer \<Longrightarrow> search_answer ?E {d} a answer" by simp_all
qed

end

context total_links
begin

lemma cached_links_total:
  assumes "store_parent_links store = links" "link_cache_ok L cache"
  shows "\<exists>cache'. cached_parent_links store ids cache = (cache', Inr (map L ids)) \<and> link_cache_ok L cache'"
proof -
  let ?missing = "filter (\<lambda>s. cache s = None) ids" and ?full = "\<lambda>s. if s \<in> set (filter (\<lambda>s. cache s = None) ids) then Some (L s) else cache s"
  have full: "link_cache_ok L ?full" "\<forall>s \<in> set ids. ?full s \<noteq> None" using assms(2) by (auto simp: link_cache_ok_def)
  show ?thesis
  proof (cases "?missing = []")
    case True
    then have "\<forall>s \<in> set ids. cache s \<noteq> None" by (simp add: filter_empty_conv)
    with True assms(2) show ?thesis by (simp add: cached_parent_links_def cache_lookups_run)
  next
    case False
    then have "cached_parent_links store ids cache = (?full, cache_lookups ?full ids)"
      using assms(1) cache_fill [of ?missing L cache] by (simp add: cached_parent_links_def Let_def links_map)
    with cache_lookups_run [OF full] full(1) show ?thesis by auto
  qed
qed

lemma distance_loop_cache:
  assumes "store_parent_links store = links" "0 < batch_size limits" "link_cache_ok L cache" "link_cache_ok L cache2"
  shows "snd (distance_loop store a limits cache st) = snd (distance_loop store a limits cache2 st)"
  using assms
proof (induction store a limits cache st arbitrary: cache2 rule: distance_loop.induct)
  case (1 store a limits cache st)
  show ?case
  proof (cases "pending st = []")
    case True
    then show ?thesis by (simp add: distance_loop_Nil)
  next
    case False
    let ?b = "take (batch_size limits) (pending st)" and ?st = "st\<lparr>pending := drop (batch_size limits) (pending st)\<rparr>"
    from cached_links_total [OF 1(2,4)] obtain c1 where c1: "cached_parent_links store ?b cache = (c1, Inr (map L ?b))" "link_cache_ok L c1" by blast
    from cached_links_total [OF 1(2,5)] obtain c2 where c2: "cached_parent_links store ?b cache2 = (c2, Inr (map L ?b))" "link_cache_ok L c2" by blast
    have "snd (distance_loop store a limits c1 st') = snd (distance_loop store a limits c2 st')"
      if "search_batch limits a (zip ?b (map L ?b)) ?st = Inr (Searching st')" for st'
      using 1(1) [OF _ refl refl c1(1) [symmetric] refl that refl 1(2,3) c1(2) c2(2)] False 1(3) by simp
    then show ?thesis
      unfolding distance_loop_step [OF False 1(3)] by (auto simp: c1(1) c2(1) split: sum.split search_step.split)
  qed
qed

lemma distance_cache:
  assumes "store_parent_links store = links" "link_cache_ok L cache"
  shows "snd (snapshot_ancestor_distance_with_cache store a d limits cache) = snapshot_ancestor_distance store a d limits"
proof (cases "res_bind (validate_limits limits) (\<lambda>_. canonical_snapshot_ids [d] ''descendant'')")
  case (Inr ids)
  then have "0 < batch_size limits" by (auto simp: res_bind_Inr)
  from distance_loop_cache [OF assms(1) this assms(2) link_cache_ok_empty] Inr show ?thesis
    by (simp add: snapshot_ancestor_distance_def snapshot_ancestor_distance_with_cache_def)
qed (simp add: snapshot_ancestor_distance_def snapshot_ancestor_distance_with_cache_def)

end

end
