(* ===== verification/Snapshot_Descendants.thy ===== *)
theory Snapshot_Descendants
  imports Snapshot_Dag
begin

text \<open>
  The closure of descendants (\<open>snapshot_dag.rs\<close>, \<open>snapshot_descendant_closure\<close>): level by level, each
  level found by reading all pages of the store's parent links.
\<close>

section \<open>One level\<close>

text \<open>The bookkeeping of a newly found descendant, its link apart.\<close>

definition discover_descendant :: "string \<Rightarrow> nat \<Rightarrow> dag_state \<Rightarrow> dag_state" where
  "discover_descendant s depth st = st
     \<lparr>discovered := discovered st @ [s], depth_of := (depth_of st)(s \<mapsto> depth),
      rank_of := (rank_of st)(s \<mapsto> next_rank st), next_rank := next_rank st + 1\<rparr>"

type_synonym link_map = "(string, SnapshotParentLink) btree_map"

fun queue_roots ::
    "SnapshotDagLimits \<Rightarrow> (string \<times> SnapshotParentLink option) list \<Rightarrow> link_map \<Rightarrow> dag_state \<Rightarrow> (link_map \<times> dag_state) dag_result" where
  "queue_roots limits [] links st = Inr (links, st)"
| "queue_roots limits ((root, link) # rest) links st =
     res_bind (require_parent_link root link None) (\<lambda>link.
       if root \<in> set (discovered st) then queue_roots limits rest links st
       else if length (discovered st) \<ge> max_results limits
       then res_bind (truncate_or_error limits (MaxResultsExceeded root) st) (queue_roots limits rest links)
       else queue_roots limits rest (btree_insert root link links) (discover_descendant root 0 st))"

text \<open>One link of a page; among too many candidates the ones with the smallest identifiers stay.\<close>

definition scan_link ::
    "SnapshotParentMode \<Rightarrow> SnapshotDagLimits \<Rightarrow> nat \<Rightarrow> nat \<Rightarrow> string list \<Rightarrow> SnapshotParentLink \<Rightarrow> link_map \<Rightarrow> dag_state \<Rightarrow>
     (link_map \<times> dag_state) dag_result" where
  "scan_link mode limits depth available frontier link candidates st =
     (let child = link_snapshot_id link in
      res_bind (selected_parents link mode) (\<lambda>parents.
        if \<not> list_ex (\<lambda>p. p \<in> set frontier) parents then Inr (candidates, st)
        else case depth_of st child of
          Some child_depth \<Rightarrow>
            if child_depth \<le> depth then Inl (CycleDetected child) else Inr (candidates, st)
        | None \<Rightarrow>
            if depth \<ge> max_depth limits
            then res_bind (truncate_or_error limits (MaxDepthExceeded child) st) (\<lambda>st. Inr (candidates, st))
            else if map_of candidates child \<noteq> None then Inr (candidates, st)
            else if length candidates < available then Inr (btree_insert child link candidates, st)
            else if limit_mode limits = LimitError then Inl (MaxResultsExceeded child)
            else if candidates \<noteq> [] \<and> child < fst (last candidates)
            then Inr (btree_insert child link (butlast candidates), st\<lparr>truncated := True\<rparr>)
            else Inr (candidates, st\<lparr>truncated := True\<rparr>)))"

fun scan_links ::
    "SnapshotParentMode \<Rightarrow> SnapshotDagLimits \<Rightarrow> nat \<Rightarrow> nat \<Rightarrow> string list \<Rightarrow> SnapshotParentLink list \<Rightarrow> link_map \<Rightarrow> dag_state \<Rightarrow>
     (link_map \<times> dag_state) dag_result" where
  "scan_links mode limits depth available frontier [] candidates st = Inr (candidates, st)"
| "scan_links mode limits depth available frontier (link # links) candidates st =
     res_bind (scan_link mode limits depth available frontier link candidates st) (\<lambda>(candidates, st).
       scan_links mode limits depth available frontier links candidates st)"

text \<open>The cursor of a page is a machine word and has to grow, so the pages come to an end.\<close>

function scan_pages ::
    "snapshot_store \<Rightarrow> SnapshotParentMode \<Rightarrow> SnapshotDagLimits \<Rightarrow> nat \<Rightarrow> nat \<Rightarrow> string list \<Rightarrow> 64 word \<Rightarrow> link_map \<Rightarrow> dag_state \<Rightarrow>
     (link_map \<times> dag_state) dag_result" where
  "scan_pages store mode limits depth available frontier cursor candidates st =
     res_bind (store_parent_link_page store cursor (batch_size limits)) (\<lambda>page.
       if length (page_links page) > batch_size limits then Inl PageTooLong
       else res_bind (scan_links mode limits depth available frontier (page_links page) candidates st) (\<lambda>(candidates, st).
         case next_cursor page of
           None \<Rightarrow> Inr (candidates, st)
         | Some following \<Rightarrow>
             if following \<le> cursor then Inl (CursorStuck following)
             else scan_pages store mode limits depth available frontier following candidates st))"
  by pat_completeness auto
termination
proof (relation "measure (\<lambda>(_, _, _, _, _, _, cursor, _, _). 2 ^ 64 - unat cursor)")
  fix store mode limits depth available frontier candidates st candidates1 st1 and cursor following :: "64 word"
  assume "\<not> following \<le> cursor"
  then have "unat cursor < unat following" by (simp add: word_le_nat_alt)
  moreover have "unat cursor < 2 ^ 64" using unsigned_less [of cursor, where 'a = nat] by simp
  ultimately show "((store, mode, limits, depth, available, frontier, following, candidates1, st1),
      store, mode, limits, depth, available, frontier, cursor, candidates, st) \<in> measure (\<lambda>(_, _, _, _, _, _, cursor, _, _). 2 ^ 64 - unat cursor)"
    by (simp add: diff_less_mono2)
qed simp

declare scan_pages.simps [simp del]

lemma length_btree_insert: "length (btree_insert k v m) \<le> Suc (length m)"
  by (induction k v m rule: btree_insert.induct) auto

lemma scan_link_bound:
  assumes "scan_link mode limits depth available frontier link candidates st = Inr (candidates', st')" "length candidates \<le> available"
  shows "length candidates' \<le> available \<and> discovered st' = discovered st"
proof -
  have "length (btree_insert c l candidates) \<le> available" if "length candidates < available" for c l
    using length_btree_insert [of c l candidates] that by simp
  moreover have "length (btree_insert c l (butlast candidates)) \<le> available" if "candidates \<noteq> []" for c l
    using length_btree_insert [of c l "butlast candidates"] that assms(2) by (cases candidates) auto
  ultimately show ?thesis using assms
    by (auto simp: scan_link_def Let_def res_bind_Inr truncate_or_error_Inr split: if_split_asm option.splits)
qed

lemma scan_links_bound:
  "scan_links mode limits depth available frontier links candidates st = Inr (candidates', st') \<Longrightarrow> length candidates \<le> available \<Longrightarrow>
    length candidates' \<le> available \<and> discovered st' = discovered st"
  by (induction links arbitrary: candidates st) (auto simp: res_bind_Inr dest!: scan_link_bound)

lemma scan_pages_Inr:
  assumes "scan_pages store mode limits depth available frontier cursor candidates st = Inr r"
  obtains page candidates1 st1 where
    "store_parent_link_page store cursor (batch_size limits) = Inr page" "length (page_links page) \<le> batch_size limits"
    "scan_links mode limits depth available frontier (page_links page) candidates st = Inr (candidates1, st1)"
    "next_cursor page = None" "r = (candidates1, st1)"
  | page candidates1 st1 following where
    "store_parent_link_page store cursor (batch_size limits) = Inr page" "length (page_links page) \<le> batch_size limits"
    "scan_links mode limits depth available frontier (page_links page) candidates st = Inr (candidates1, st1)"
    "next_cursor page = Some following" "cursor < following"
    "scan_pages store mode limits depth available frontier following candidates1 st1 = Inr r"
proof -
  from assms obtain page candidates1 st1 where
    page: "store_parent_link_page store cursor (batch_size limits) = Inr page" "length (page_links page) \<le> batch_size limits"
      "scan_links mode limits depth available frontier (page_links page) candidates st = Inr (candidates1, st1)"
    and rest: "(case next_cursor page of None \<Rightarrow> Inr (candidates1, st1) | Some following \<Rightarrow>
        if following \<le> cursor then Inl (CursorStuck following)
        else scan_pages store mode limits depth available frontier following candidates1 st1) = Inr r"
    unfolding scan_pages.simps [of store mode limits depth available frontier cursor] res_bind_Inr
    by (auto simp: res_bind_Inr split: if_split_asm)
  show ?thesis
  proof (cases "next_cursor page")
    case None
    with rest have "r = (candidates1, st1)" by simp
    then show ?thesis by (rule that(1) [OF page None])
  next
    case (Some following)
    with page rest that(2) show ?thesis by (simp split: if_split_asm)
  qed
qed

lemma scan_pages_bound:
  "scan_pages store mode limits depth available frontier cursor candidates st = Inr (candidates', st') \<Longrightarrow> length candidates \<le> available \<Longrightarrow>
    length candidates' \<le> available \<and> discovered st' = discovered st"
proof (induction store mode limits depth available frontier cursor candidates st rule: scan_pages.induct)
  case (1 store mode limits depth available frontier cursor candidates st)
  from 1(2) show ?case
  proof (cases rule: scan_pages_Inr)
    case (1 page candidates1 st1)
    with scan_links_bound [OF 1(3)] \<open>length candidates \<le> available\<close> show ?thesis by simp
  next
    case (2 page candidates1 st1 following)
    with scan_links_bound [OF 2(3) 1(3)] 1(1) [OF 2(1) _ 2(3) refl 2(4) _ 2(6)] show ?thesis by auto
  qed
qed

section \<open>All levels\<close>

definition add_level :: "nat \<Rightarrow> link_map \<Rightarrow> dag_state \<Rightarrow> dag_state" where
  "add_level depth candidates = fold (\<lambda>(s, link). discover_descendant s depth) candidates"

definition add_links :: "link_map \<Rightarrow> link_map \<Rightarrow> link_map" where
  "add_links candidates = fold (\<lambda>(s, link). btree_insert s link) candidates"

lemma discovered_add_level: "discovered (add_level depth candidates st) = discovered st @ map fst candidates"
  by (induction candidates arbitrary: st) (auto simp: add_level_def discover_descendant_def)

function descend ::
    "snapshot_store \<Rightarrow> SnapshotParentMode \<Rightarrow> SnapshotDagLimits \<Rightarrow> nat \<Rightarrow> string list \<Rightarrow> link_map \<Rightarrow> dag_state \<Rightarrow>
     (link_map \<times> dag_state) dag_result" where
  "descend store mode limits depth frontier links st =
     (if frontier = [] then Inr (links, st)
      else
        res_bind (scan_pages store mode limits depth (max_results limits - length (discovered st)) frontier 0 [] st) (\<lambda>(candidates, st).
          if candidates = [] then Inr (links, st)
          else descend store mode limits (depth + 1) (map fst candidates) (add_links candidates links)
            (add_level (depth + 1) candidates st)))"
  by pat_completeness auto
termination
proof (relation "measure (\<lambda>(_, _, limits, _, _, _, st). max_results limits - length (discovered st))")
  fix store mode and limits :: SnapshotDagLimits and depth frontier links st p candidates st1
  assume *: "scan_pages store mode limits depth (max_results limits - length (discovered st)) frontier 0 [] st = Inr p"
    "(candidates, st1) = p" "candidates \<noteq> []"
  then have "length candidates \<le> max_results limits - length (discovered st)" "discovered st1 = discovered st"
    using scan_pages_bound [of store mode limits depth _ frontier 0 "[]" st candidates st1] by auto
  moreover have "0 < length candidates" using *(3) by simp
  ultimately have "max_results limits - (length (discovered st1) + length candidates) < max_results limits - length (discovered st)" by arith
  then show "((store, mode, limits, depth + 1, map fst candidates, add_links candidates links, add_level (depth + 1) candidates st1),
      store, mode, limits, depth, frontier, links, st) \<in> measure (\<lambda>(_, _, limits, _, _, _, st). max_results limits - length (discovered st))"
    by (simp add: discovered_add_level)
qed simp

declare descend.simps [simp del]

fun descendant_parents ::
    "SnapshotParentMode \<Rightarrow> dag_state \<Rightarrow> link_map \<Rightarrow> parent_map \<Rightarrow> parent_map dag_result" where
  "descendant_parents mode st [] parents = Inr parents"
| "descendant_parents mode st ((s, link) # links) parents =
     (case depth_of st s of
        None \<Rightarrow> Inl (LostDepth s)
      | Some depth \<Rightarrow>
          res_bind (if depth = 0 then Inr [] else selected_parents link mode) (\<lambda>ps.
            descendant_parents mode st links
              (btree_insert s (filter (\<lambda>p. p \<in> set (discovered st)) ps) parents)))"

definition snapshot_descendant_closure ::
    "snapshot_store \<Rightarrow> string list \<Rightarrow> SnapshotParentMode \<Rightarrow> SnapshotDagLimits \<Rightarrow> SnapshotDagTraversal dag_result" where
  "snapshot_descendant_closure store roots mode limits =
     res_bind (validate_limits limits) (\<lambda>limits.
     res_bind (canonical_snapshot_ids roots ''root'') (\<lambda>roots.
       if roots = [] then Inr empty_traversal
       else
         res_bind (store_parent_links store roots) (\<lambda>root_links.
           if length root_links \<noteq> length roots then Inl RootBatchLength
           else
             res_bind (queue_roots limits (zip roots root_links) [] empty_dag_state) (\<lambda>(links, st).
             res_bind (descend store mode limits 0 (map fst links) links st) (\<lambda>(links, st).
             res_bind (descendant_parents mode st links []) (\<lambda>parents.
               finish_traversal (st\<lparr>chosen := parents\<rparr>)))))))"

end
