(* ===== verification/Descendant_Laws.thy ===== *)
theory Descendant_Laws
  imports Snapshot_Descendants Dag_Closure_Laws
begin

text \<open>
  What the closure of descendants finds, against the generations of children, and the histories that it
  refuses although they have no cycle.
\<close>

section \<open>Pages\<close>

text \<open>The rows that following the cursor from a page on gives, when the store answers.\<close>

function page_rows :: "snapshot_store \<Rightarrow> nat \<Rightarrow> 64 word \<Rightarrow> SnapshotParentLink list dag_result" where
  "page_rows store limit cursor =
     res_bind (store_parent_link_page store cursor limit) (\<lambda>page.
       if length (page_links page) > limit then Inl PageTooLong
       else case next_cursor page of
         None \<Rightarrow> Inr (page_links page)
       | Some following \<Rightarrow>
           if following \<le> cursor then Inl (CursorStuck following)
           else res_bind (page_rows store limit following) (\<lambda>rows. Inr (page_links page @ rows)))"
  by pat_completeness auto
termination
proof (relation "measure (\<lambda>(_, _, cursor). 2 ^ 64 - unat cursor)")
  fix store limit and cursor following :: "64 word"
  assume "\<not> following \<le> cursor"
  then have "unat cursor < unat following" by (simp add: word_le_nat_alt)
  moreover have "unat cursor < 2 ^ 64" using unsigned_less [of cursor, where 'a = nat] by simp
  ultimately show "((store, limit, following), store, limit, cursor) \<in> measure (\<lambda>(_, _, cursor). 2 ^ 64 - unat cursor)"
    by (simp add: diff_less_mono2)
qed simp

declare page_rows.simps [simp del]

lemma scan_links_append:
  "scan_links mode limits depth available frontier (xs @ ys) candidates st =
    res_bind (scan_links mode limits depth available frontier xs candidates st) (\<lambda>(candidates, st).
      scan_links mode limits depth available frontier ys candidates st)"
proof (induction xs arbitrary: candidates st)
  case (Cons x xs)
  show ?case
    by (cases "scan_link mode limits depth available frontier x candidates st") (auto simp: Cons.IH)
qed simp

lemma scan_pages_rows:
  "scan_pages store mode limits depth available frontier cursor candidates st = Inr r \<Longrightarrow>
    \<exists>rows. page_rows store (batch_size limits) cursor = Inr rows \<and>
      scan_links mode limits depth available frontier rows candidates st = Inr r"
proof (induction store mode limits depth available frontier cursor candidates st rule: scan_pages.induct)
  case (1 store mode limits depth available frontier cursor candidates st)
  from 1(2) show ?case
  proof (cases rule: scan_pages_Inr)
    case (1 page candidates1 st1)
    then show ?thesis by (simp add: page_rows.simps [of store _ cursor])
  next
    case (2 page candidates1 st1 following)
    from 1(1) [OF 2(1) _ 2(3) refl 2(4) _ 2(6)] 2(2,5) obtain rows where
      "page_rows store (batch_size limits) following = Inr rows"
      "scan_links mode limits depth available frontier rows candidates1 st1 = Inr r" by (auto simp: not_le)
    with 2 show ?thesis by (simp add: page_rows.simps [of store _ cursor] scan_links_append)
  qed
qed

section \<open>One level\<close>

definition link_edges :: "SnapshotParentMode \<Rightarrow> SnapshotParentLink \<Rightarrow> string list" where
  "link_edges mode link = (case selected_parents link mode of Inl _ \<Rightarrow> [] | Inr ps \<Rightarrow> ps)"

definition children_of :: "SnapshotParentMode \<Rightarrow> SnapshotParentLink list \<Rightarrow> string \<Rightarrow> string list" where
  "children_of mode rows s = map link_snapshot_id (filter (\<lambda>link. s \<in> set (link_edges mode link)) rows)"

lemma children_level: "(\<Union>s \<in> F. set (children_of mode rows s)) = link_snapshot_id ` {link \<in> set rows. set (link_edges mode link) \<inter> F \<noteq> {}}"
  by (auto simp: children_of_def)

lemma scan_link_error_mode:
  assumes "limit_mode limits = LimitError" "scan_link mode limits depth available frontier link candidates st = Inr (candidates', st')"
    "btree_wf candidates" "\<forall>s d. depth_of st s = Some d \<longrightarrow> d \<le> depth"
  shows "st' = st" "btree_wf candidates'"
    "fst ` set candidates' = fst ` set candidates \<union> (if set (link_edges mode link) \<inter> set frontier \<noteq> {} then {link_snapshot_id link} else {})"
    "set (link_edges mode link) \<inter> set frontier \<noteq> {} \<Longrightarrow> depth_of st (link_snapshot_id link) = None"
proof -
  let ?c = "link_snapshot_id link"
  from assms(2) obtain ps where ps: "selected_parents link mode = Inr ps" by (auto simp: scan_link_def Let_def res_bind_Inr)
  have edges: "link_edges mode link = ps" by (simp add: link_edges_def ps)
  have known: "map_of candidates ?c \<noteq> None \<Longrightarrow> ?c \<in> fst ` set candidates" by (metis map_of_eq_None_iff)
  have "st' = st \<and> btree_wf candidates' \<and>
    fst ` set candidates' = fst ` set candidates \<union> (if set ps \<inter> set frontier \<noteq> {} then {?c} else {}) \<and>
    (set ps \<inter> set frontier \<noteq> {} \<longrightarrow> depth_of st ?c = None)"
  proof (cases "set ps \<inter> set frontier = {}")
    case True
    then have "\<not> list_ex (\<lambda>p. p \<in> set frontier) ps" by (auto simp: list_ex_iff)
    with True assms(2,3) show ?thesis by (auto simp: scan_link_def Let_def ps)
  next
    case False
    then have hit: "list_ex (\<lambda>p. p \<in> set frontier) ps" by (auto simp: list_ex_iff)
    with assms(2,4) ps have new: "depth_of st ?c = None"
      by (cases "depth_of st ?c") (auto simp: scan_link_def Let_def split: if_split_asm)
    show ?thesis
    proof (cases "map_of candidates ?c")
      case None
      with assms(1,2) hit new ps have "st' = st" "candidates' = btree_insert ?c link candidates"
        by (auto simp: scan_link_def Let_def res_bind_Inr truncate_or_error_Inr split: if_split_asm)
      with assms(3) False new show ?thesis by simp
    next
      case (Some l)
      then have "?c \<in> fst ` set candidates" using known by simp
      moreover from Some assms(1,2) hit new ps have "st' = st" "candidates' = candidates"
        by (auto simp: scan_link_def Let_def res_bind_Inr truncate_or_error_Inr split: if_split_asm)
      ultimately show ?thesis using assms(3) False new by (simp add: insert_absorb)
    qed
  qed
  then show "st' = st" "btree_wf candidates'"
    "fst ` set candidates' = fst ` set candidates \<union> (if set (link_edges mode link) \<inter> set frontier \<noteq> {} then {?c} else {})"
    "set (link_edges mode link) \<inter> set frontier \<noteq> {} \<Longrightarrow> depth_of st ?c = None" unfolding edges by auto
qed

lemma scan_links_error_mode:
  assumes "limit_mode limits = LimitError" "scan_links mode limits depth available frontier rows candidates st = Inr (candidates', st')"
    "btree_wf candidates" "\<forall>s d. depth_of st s = Some d \<longrightarrow> d \<le> depth"
  shows "st' = st \<and> btree_wf candidates' \<and>
    fst ` set candidates' = fst ` set candidates \<union> (\<Union>s \<in> set frontier. set (children_of mode rows s)) \<and>
    (\<forall>c \<in> (\<Union>s \<in> set frontier. set (children_of mode rows s)). depth_of st c = None)"
  using assms(2,3)
proof (induction rows arbitrary: candidates)
  case (Cons link rows)
  from Cons.prems(1) obtain candidates1 st1 where run: "scan_link mode limits depth available frontier link candidates st = Inr (candidates1, st1)"
    "scan_links mode limits depth available frontier rows candidates1 st1 = Inr (candidates', st')" by (auto simp: res_bind_Inr)
  note here = scan_link_error_mode [OF assms(1) run(1) Cons.prems(2) assms(4)]
  from Cons.IH [of candidates1] run(2) here(1,2) have rest: "st' = st" "btree_wf candidates'"
    "fst ` set candidates' = fst ` set candidates1 \<union> (\<Union>s \<in> set frontier. set (children_of mode rows s))"
    "\<forall>c \<in> (\<Union>s \<in> set frontier. set (children_of mode rows s)). depth_of st c = None" by auto
  show ?case
  proof (cases "set (link_edges mode link) \<inter> set frontier = {}")
    case True
    then have "(\<Union>s \<in> set frontier. set (children_of mode (link # rows) s)) = (\<Union>s \<in> set frontier. set (children_of mode rows s))"
      unfolding children_level by auto
    with rest here(3) True show ?thesis by simp
  next
    case False
    then have "(\<Union>s \<in> set frontier. set (children_of mode (link # rows) s)) =
        insert (link_snapshot_id link) (\<Union>s \<in> set frontier. set (children_of mode rows s))"
      unfolding children_level by auto
    with rest here(3,4) False show ?thesis by auto
  qed
qed (simp add: children_of_def)

section \<open>All levels\<close>

definition level_inv :: "(string \<Rightarrow> string list) \<Rightarrow> string set \<Rightarrow> nat \<Rightarrow> string list \<Rightarrow> link_map \<Rightarrow> dag_state \<Rightarrow> bool" where
  "level_inv K R k frontier links st \<longleftrightarrow> set frontier = generation K R k \<and>
     (\<forall>s j. depth_of st s = Some j \<longleftrightarrow> j \<le> k \<and> s \<in> generation K R j) \<and>
     set (discovered st) = dom (depth_of st) \<and> fst ` set links = dom (depth_of st) \<and> btree_wf links"

lemma add_level_fields:
  "discovered (add_level d cs st) = discovered st @ map fst cs"
  "depth_of (add_level d cs st) = (\<lambda>s. if s \<in> fst ` set cs then Some d else depth_of st s)"
  "truncated (add_level d cs st) = truncated st"
  by (induction cs arbitrary: st) (auto simp: add_level_def discover_descendant_def fun_eq_iff)

lemma add_links_fields: "btree_wf links \<Longrightarrow> btree_wf (add_links cs links) \<and> fst ` set (add_links cs links) = fst ` set links \<union> fst ` set cs"
proof (induction cs arbitrary: links)
  case (Cons e cs)
  obtain s l where e: "e = (s, l)" by fastforce
  have "add_links (e # cs) links = add_links cs (btree_insert s l links)" by (simp add: add_links_def e)
  with Cons.IH [of "btree_insert s l links"] Cons.prems show ?case by (simp add: e)
qed (simp add: add_links_def)

lemma generation_dead: "generation K R k = {} \<Longrightarrow> k \<le> j \<Longrightarrow> generation K R j = {}"
  by (induction j) (auto simp: le_Suc_eq)

lemma level_step:
  assumes inv: "level_inv K R k frontier links st" and cs: "fst ` set cs = generation K R (Suc k)"
    and new: "\<forall>c \<in> generation K R (Suc k). depth_of st c = None"
  shows "level_inv K R (Suc k) (map fst cs) (add_links cs links) (add_level (Suc k) cs st)"
proof -
  let ?st = "add_level (Suc k) cs st"
  have depth: "depth_of st s = Some j \<longleftrightarrow> j \<le> k \<and> s \<in> generation K R j" for s j using inv by (simp add: level_inv_def)
  have depth': "depth_of ?st = (\<lambda>s. if s \<in> generation K R (Suc k) then Some (Suc k) else depth_of st s)"
    by (simp only: add_level_fields cs)
  have "depth_of ?st s = Some j \<longleftrightarrow> j \<le> Suc k \<and> s \<in> generation K R j" for s j
  proof (cases "s \<in> generation K R (Suc k)")
    case True
    then have "\<not> (j \<le> k \<and> s \<in> generation K R j)" using new depth by (metis option.distinct(1))
    with True show ?thesis by (auto simp: depth' le_Suc_eq simp del: generation.simps)
  next
    case False
    with depth show ?thesis by (auto simp: depth' le_Suc_eq simp del: generation.simps)
  qed
  moreover have "dom (depth_of ?st) = dom (depth_of st) \<union> generation K R (Suc k)" by (auto simp: depth' simp del: generation.simps)
  moreover have "btree_wf (add_links cs links)" "fst ` set (add_links cs links) = fst ` set links \<union> fst ` set cs"
    using add_links_fields inv by (auto simp: level_inv_def)
  ultimately show ?thesis using inv cs by (simp add: level_inv_def add_level_fields(1) del: generation.simps)
qed

lemma descend_error_mode:
  assumes "limit_mode limits = LimitError" "page_rows store (batch_size limits) 0 = Inr rows"
    "descend store mode limits k frontier links st = Inr (links', st')"
    "level_inv (children_of mode rows) R k frontier links st"
  shows "\<exists>m frontier'. level_inv (children_of mode rows) R m frontier' links' st' \<and> truncated st' = truncated st \<and>
    (\<forall>j > m. generation (children_of mode rows) R j = {})"
  using assms
proof (induction store mode limits k frontier links st rule: descend.induct)
  case (1 store mode limits k frontier links st)
  let ?K = "children_of mode rows"
  show ?case
  proof (cases "frontier = []")
    case True
    with 1(4) have same: "links' = links" "st' = st" by (simp_all add: descend.simps [of store mode limits k "[]"])
    have "generation ?K R k = {}" using 1(5) True by (simp add: level_inv_def)
    then have "\<forall>j > k. generation ?K R j = {}" using generation_dead by fastforce
    with 1(5) same show ?thesis by blast
  next
    case False
    from 1(4) False obtain candidates st1 where
      run: "scan_pages store mode limits k (max_results limits - length (discovered st)) frontier 0 [] st = Inr (candidates, st1)"
      and rest: "if candidates = [] then links' = links \<and> st' = st1 else
        descend store mode limits (k + 1) (map fst candidates) (add_links candidates links) (add_level (k + 1) candidates st1) = Inr (links', st')"
      by (subst (asm) descend.simps) (auto simp: res_bind_Inr split: if_split_asm)
    from scan_pages_rows [OF run] 1(3) have scan: "scan_links mode limits k (max_results limits - length (discovered st)) frontier rows [] st = Inr (candidates, st1)"
      by auto
    have old: "\<forall>s d. depth_of st s = Some d \<longrightarrow> d \<le> k" using 1(5) by (simp add: level_inv_def)
    have F: "set frontier = generation ?K R k" using 1(5) by (simp add: level_inv_def)
    from scan_links_error_mode [OF 1(2) scan btree_wf_Nil old] have
      st1: "st1 = st" and cs: "fst ` set candidates = generation ?K R (Suc k)" and new: "\<forall>c \<in> generation ?K R (Suc k). depth_of st c = None"
      by (auto simp: F)
    show ?thesis
    proof (cases "candidates = []")
      case True
      with cs have "generation ?K R (Suc k) = {}" by simp
      then have "\<forall>j > k. generation ?K R j = {}" using generation_dead by (metis Suc_leI)
      with rest True 1(5) st1 show ?thesis by auto
    next
      case False
      have "level_inv ?K R (k + 1) (map fst candidates) (add_links candidates links) (add_level (k + 1) candidates st1)"
        using level_step [OF 1(5) cs new] by (simp add: st1)
      from 1(1) [OF \<open>frontier \<noteq> []\<close> run refl False 1(2,3) _ this] rest False show ?thesis by (simp add: add_level_fields st1)
    qed
  qed
qed

lemma descendant_parents_keys:
  "descendant_parents mode st links parents = Inr parents' \<Longrightarrow> btree_wf parents \<Longrightarrow>
    btree_wf parents' \<and> fst ` set parents' = fst ` set parents \<union> fst ` set links"
proof (induction links arbitrary: parents)
  case (Cons e links)
  obtain s l where e: "e = (s, l)" by fastforce
  from Cons.prems(1) obtain ps where
    "descendant_parents mode st links (btree_insert s (filter (\<lambda>p. p \<in> set (discovered st)) ps) parents) = Inr parents'"
    by (cases "depth_of st s") (auto simp: e res_bind_Inr)
  from Cons.IH [OF this] Cons.prems(2) show ?case by (simp add: e)
qed simp

definition root_inv :: "link_map \<Rightarrow> dag_state \<Rightarrow> bool" where
  "root_inv links st \<longleftrightarrow> btree_wf links \<and> fst ` set links = set (discovered st) \<and>
     depth_of st = (\<lambda>s. if s \<in> set (discovered st) then Some 0 else None)"

lemma root_inv_discover: "root_inv links st \<Longrightarrow> root_inv (btree_insert s l links) (discover_descendant s 0 st)"
  by (simp add: root_inv_def discover_descendant_def fun_eq_iff)

lemma queue_roots_error_mode:
  assumes "limit_mode limits = LimitError" "queue_roots limits roots links st = Inr (links', st')" "root_inv links st"
  shows "root_inv links' st' \<and> truncated st' = truncated st \<and> set (discovered st') = set (discovered st) \<union> fst ` set roots"
  using assms(2,3)
proof (induction roots arbitrary: links st)
  case (Cons e roots)
  obtain root link where e: "e = (root, link)" by fastforce
  show ?case
  proof (cases "root \<in> set (discovered st)")
    case True
    with Cons.prems Cons.IH [of links st] show ?thesis by (auto simp: e res_bind_Inr)
  next
    case False
    with Cons.prems(1) assms(1) obtain l where
      "queue_roots limits roots (btree_insert root l links) (discover_descendant root 0 st) = Inr (links', st')"
      by (auto simp: e res_bind_Inr truncate_or_error_Inr split: if_split_asm)
    from Cons.IH [OF this root_inv_discover [OF Cons.prems(2)]] show ?thesis by (simp add: e discover_descendant_def)
  qed
qed simp

lemma root_inv_level:
  assumes "root_inv links st" "set (discovered st) = R"
  shows "level_inv K R 0 (map fst links) links st"
proof -
  have "depth_of st s = Some j \<longleftrightarrow> j \<le> 0 \<and> s \<in> generation K R j" for s j using assms by (auto simp: root_inv_def)
  moreover have "dom (depth_of st) = set (discovered st)" using assms(1) by (auto simp: root_inv_def dom_def)
  ultimately show ?thesis using assms by (simp add: level_inv_def root_inv_def)
qed

lemma descendant_closure_levels:
  assumes "limit_mode limits = LimitError" "page_rows store (batch_size limits) 0 = Inr rows" "roots \<noteq> []"
    "snapshot_descendant_closure store roots mode limits = Inr t"
  shows "(\<forall>s k. distance_from_head t s = Some k \<longleftrightarrow> s \<in> generation (children_of mode rows) (set roots) k) \<and>
    set (topological_snapshot_ids t) = ancestry (children_of mode rows) (set roots) \<and>
    distinct (topological_snapshot_ids t) \<and> \<not> traversal_truncated t"
proof -
  let ?K = "children_of mode rows" and ?R = "set roots"
  from assms(4) obtain ids where ids: "canonical_snapshot_ids roots ''root'' = Inr ids" by (auto simp: snapshot_descendant_closure_def res_bind_Inr)
  note same = canonical_snapshot_ids_set [OF ids]
  with assms(3) have "ids \<noteq> []" by auto
  with assms(4) ids obtain root_links links st links' st' parents where
    run: "length root_links = length ids" "queue_roots limits (zip ids root_links) [] empty_dag_state = Inr (links, st)"
      "descend store mode limits 0 (map fst links) links st = Inr (links', st')" "descendant_parents mode st' links' [] = Inr parents"
      "finish_traversal (st'\<lparr>chosen := parents\<rparr>) = Inr t"
    by (auto simp: snapshot_descendant_closure_def res_bind_Inr split: if_split_asm)
  have keys: "fst ` set (zip ids root_links) = ?R" using run(1) same by (metis list.set_map map_fst_zip)
  have "root_inv [] empty_dag_state" by (simp add: root_inv_def empty_dag_state_def)
  from queue_roots_error_mode [OF assms(1) run(2) this] keys have start: "level_inv ?K ?R 0 (map fst links) links st" "\<not> truncated st"
    by (auto intro: root_inv_level)
  from descend_error_mode [OF assms(1,2) run(3) start(1)] obtain m frontier where
    inv: "level_inv ?K ?R m frontier links' st'" "\<not> truncated st'" and dead: "\<forall>j > m. generation ?K ?R j = {}" using start(2) by auto
  have depth: "depth_of st' s = Some k \<longleftrightarrow> s \<in> generation ?K ?R k" for s k
    using inv(1) dead unfolding level_inv_def by (metis empty_iff linorder_not_less)
  then have dom: "dom (depth_of st') = ancestry ?K ?R" by (auto simp: ancestry_def dom_def)
  note fin = finish_traversal_Inr [OF run(5)] and ps = descendant_parents_keys [OF run(4) btree_wf_Nil]
  from topological_sound [of parents "{}" _ "topological_snapshot_ids t"] fin ps have
    "distinct (topological_snapshot_ids t)" "set (topological_snapshot_ids t) = fst ` set links'" by auto
  moreover have "fst ` set links' = ancestry ?K ?R" using inv(1) dom by (simp add: level_inv_def)
  ultimately show ?thesis using fin depth inv(2) by (simp add: distance_from_head_def)
qed

end
