(* ===== verification/Snapshot_Properties.thy ===== *)
theory Snapshot_Properties
  imports Dag_Query_Laws Descendant_Laws
begin

text \<open>
  The properties of the history graph, each about the operations of \<open>snapshot_store.rs\<close> and
  \<open>snapshot_dag.rs\<close>, with an example history for their hypotheses.
\<close>

section \<open>An example history\<close>

text \<open>A root, two snapshots on it and their merge.\<close>

definition diamond :: parent_map where
  "diamond = [(''a'', []), (''b'', [''a'']), (''c'', [''a'']), (''d'', [''b'', ''c''])]"

definition diamond_store :: snapshot_store where
  "diamond_store =
     \<lparr>store_parent_link = (\<lambda>s. Inr (map_links diamond s)),
      store_parent_links = snapshot_parent_links_default (\<lambda>s. Inr (map_links diamond s)),
      store_parent_link_page = snapshot_parent_link_page_default\<rparr>"

definition small_limits :: SnapshotDagLimits where
  "small_limits = \<lparr>max_depth = 9, max_results = 9, batch_size = 2, limit_mode = LimitError\<rparr>"

lemma diamond_batches: "store_parent_links diamond_store ids = Inr (map (map_links diamond) ids)"
  by (simp add: diamond_store_def total_default_links.links_map)

lemma Inr_projr: "\<not> isl r \<Longrightarrow> r = Inr (projr r)"
  by (simp add: sum.collapse)

section \<open>Parent sets\<close>

text \<open>
  Normalising a parent set is typed by validity: what \<open>normalize_snapshot_parent_set\<close> returns has at
  most 1024 canonical parents, pairwise distinct up to case, none of them the snapshot itself, and both
  projections are the first parent, so the result passes \<open>validate_snapshot_parent_set\<close> and normalising
  it again returns it unchanged.
\<close>

theorem normalized_parents_are_valid:
  assumes "normalize_snapshot_parent_set child parents primary legacy = Inr (ps, p, l)"
  shows "parent_set_ok child ps \<and> validate_snapshot_parent_set child ps p l = Inr () \<and>
    normalize_snapshot_parent_set child (Some ps) p l = Inr (ps, p, l)"
proof -
  from assms have "validate_snapshot_parent_set child ps p l = Inr ()" "p = first_parent ps" "l = first_parent ps"
    by (auto simp: normalize_snapshot_parent_set_def compatibility_parent_projections_def Let_def res_bind_Inr split: if_split_asm)
  moreover from this have "parent_set_ok child ps" by (simp add: validate_snapshot_parent_set_ok)
  ultimately show ?thesis
    by (simp add: normalize_snapshot_parent_set_def compatibility_parent_projections_def)
qed

theorem normalized_parents_are_valid_witness:
  "parent_set_ok (Some ''c'') [''a''] \<and> validate_snapshot_parent_set (Some ''c'') [''a''] (Some ''a'') (Some ''a'') = Inr () \<and>
    normalize_snapshot_parent_set (Some ''c'') (Some [''a'']) (Some ''a'') (Some ''a'') = Inr ([''a''], Some ''a'', Some ''a'')"
proof -
  have "normalize_snapshot_parent_set (Some ''c'') None None (Some ''a'') = Inr ([''a''], Some ''a'', Some ''a'')" by code_simp
  from normalized_parents_are_valid [OF this] show ?thesis .
qed

section \<open>The order of a history\<close>

definition linear_extension :: "parent_map \<Rightarrow> string set \<Rightarrow> string list \<Rightarrow> bool" where
  "linear_extension all external ordered \<longleftrightarrow> distinct ordered \<and> set ordered = fst ` set all \<and>
     parents_first (\<lambda>c. set (inner_parents all external c)) ordered"

text \<open>
  C22. \<open>topological_snapshot_order\<close> decides whether a history can be ordered: when every parent set is
  valid, no parent outside the known external snapshots is missing, and no snapshot is its own ancestor,
  it returns an order that lists every snapshot once with all its parents before it; otherwise it returns
  an error.
\<close>

theorem topological_order_decides:
  assumes "btree_wf all"
  shows "if entries_ok all external all \<and> acyclic (inner_edges all external)
    then \<exists>ordered. topological_snapshot_order all external = Inr ordered \<and> linear_extension all external ordered
    else \<exists>e. topological_snapshot_order all external = Inl e"
  using topological_complete [OF assms, of external None] topological_sound [OF assms, of external None]
    topological_needs [of all external None] topological_acyclic [OF assms, of external None]
  unfolding topological_snapshot_order_def linear_extension_def
  by (cases "topological_order_with_rank all external None") auto

theorem topological_order_decides_witness:
  "\<exists>ordered. topological_snapshot_order diamond {} = Inr ordered \<and> linear_extension diamond {} ordered"
proof -
  have wf: "btree_wf diamond" by code_simp
  have run: "topological_order_with_rank diamond {} (Some (\<lambda>_. Some 0)) = Inr [''a'', ''b'', ''c'', ''d'']" by code_simp
  from topological_order_decides [OF wf, of "{}"] show ?thesis
    by (simp add: topological_needs [OF run] topological_acyclic [OF wf run])
qed

section \<open>Ancestor closures\<close>

text \<open>
  C9. A closure that is not truncated is the ancestry of its heads.  For a store whose batches answer like
  single lookups, \<open>snapshot_ancestor_closure\<close> returns exactly the snapshots that the heads outside the stop
  set reach through the selected parents outside the stop set; each is recorded with exactly those parents
  and with its shortest distance from a head, and the returned order lists each once, parents first.
\<close>

theorem closure_is_ancestry:
  assumes faithful: "\<And>ids links. store_parent_links store ids = Inr links \<Longrightarrow> links = map L ids"
    and run: "snapshot_ancestor_closure store heads stop mode limits = Inr t" and whole: "\<not> traversal_truncated t"
  shows "exact_closure (edges_of (link_parents L mode) stop) (set heads - stop) t"
proof -
  have "batched_links (store_parent_links store) L" by unfold_locales (rule faithful)
  from batched_links.store_closure_over [OF this refl run] whole show ?thesis by (rule link_source.closure_exact)
qed

theorem closure_is_ancestry_witness:
  "exact_closure (edges_of (link_parents (map_links diamond) AllParents) {''b''}) ({''d''} - {''b''})
    (projr (snapshot_ancestor_closure diamond_store [''d''] {''b''} AllParents small_limits))"
proof -
  have "\<not> isl (snapshot_ancestor_closure diamond_store [''d''] {''b''} AllParents small_limits)" by code_simp
  note run = Inr_projr [OF this]
  have "\<not> traversal_truncated (projr (snapshot_ancestor_closure diamond_store [''d''] {''b''} AllParents small_limits))" by code_simp
  from closure_is_ancestry [OF _ run this, of "map_links diamond"] show ?thesis by (simp add: diamond_batches)
qed

text \<open>
  C26. When a closure succeeds.  Over a store that answers every batch, \<open>snapshot_ancestor_closure\<close> returns
  an untruncated closure exactly when the heads are canonical, the result limit and the batch size are
  positive, the ancestry of the heads is finite and has at most \<open>max_results\<close> snapshots, every snapshot that
  still has parents to visit is less than \<open>max_depth\<close> away from the heads, every snapshot of the ancestry has
  a valid link, and no snapshot is its own ancestor.  The batch size makes no other difference.
\<close>

theorem closure_succeeds_within_limits:
  assumes answers: "\<And>ids. store_parent_links store ids = Inr (map L ids)"
  shows "(\<exists>t. snapshot_ancestor_closure store heads stop mode limits = Inr t \<and> \<not> traversal_truncated t) \<longleftrightarrow>
    (let E = edges_of (link_parents L mode) stop; H = set heads - stop in
       (\<forall>h \<in> set heads. canonical_text h) \<and> 0 < max_results limits \<and> 0 < batch_size limits \<and>
       finite (ancestry E H) \<and> card (ancestry E H) \<le> max_results limits \<and>
       (\<forall>s d. first_generation E H s d \<longrightarrow> E s \<noteq> [] \<longrightarrow> d < max_depth limits) \<and>
       (\<forall>s \<in> ancestry E H. \<exists>ps. link_parents L mode s = Inr ps) \<and> acyclic (history_edges E (ancestry E H)))"
    (is "?l \<longleftrightarrow> ?r")
proof
  have batched: "batched_links (store_parent_links store) L" by unfold_locales (simp add: answers)
  assume ?l
  then obtain t where t: "closure_over (link_parents L mode) heads stop limits t" "\<not> traversal_truncated t"
    using batched_links.store_closure_over [OF batched refl] by blast
  from link_source.closure_limits [OF t] link_source.closure_sources [OF t] link_source.closure_acyclic [OF t]
  show ?r unfolding Let_def by blast
next
  have complete: "total_links (store_parent_links store) L" by unfold_locales (simp_all add: answers)
  assume ?r
  then have "\<exists>t. closure_over (link_parents L mode) heads stop limits t \<and> \<not> traversal_truncated t"
    unfolding Let_def by (elim conjE) (rule link_source.closure_complete; blast)
  then show ?l using total_links.closure_over_store [OF complete refl] by blast
qed

theorem closure_succeeds_within_limits_witness:
  "(\<exists>t. snapshot_ancestor_closure diamond_store [''d''] {} AllParents \<lparr>max_depth = 2, max_results = 4, batch_size = 3, limit_mode = LimitTruncate\<rparr> =
     Inr t \<and> \<not> traversal_truncated t) \<and>
   (\<nexists>s d. first_generation (edges_of (link_parents (map_links diamond) AllParents) {}) {''d''} s d \<and>
     edges_of (link_parents (map_links diamond) AllParents) {} s \<noteq> [] \<and> 2 \<le> d)"
proof -
  let ?limits = "\<lparr>max_depth = 2, max_results = 4, batch_size = 3, limit_mode = LimitTruncate\<rparr>"
  let ?r = "snapshot_ancestor_closure diamond_store [''d''] {} AllParents ?limits"
  have "\<not> isl ?r" "\<not> traversal_truncated (projr ?r)" by code_simp+
  then have run: "\<exists>t. ?r = Inr t \<and> \<not> traversal_truncated t" using Inr_projr by blast
  with closure_succeeds_within_limits [of diamond_store "map_links diamond" "[''d'']" "{}" AllParents ?limits, OF diamond_batches]
  show ?thesis by (simp add: Let_def) (meson not_less)
qed

text \<open>
  C23. The batched walk over a store and the walk over a parent map agree: when the store holds the links of
  the map, \<open>snapshot_ancestor_closure\<close> returns a traversal exactly when
  \<open>snapshot_ancestor_closure_from_parent_map\<close> returns the same one, with the same parents, depths, order
  and truncation, for every batch size, stop set, parent mode and limit.
\<close>

theorem store_closure_equals_map_closure:
  assumes answers: "\<And>ids. store_parent_links store ids = Inr (map (map_links parents) ids)"
  shows "snapshot_ancestor_closure store heads stop mode limits = Inr t \<longleftrightarrow>
    snapshot_ancestor_closure_from_parent_map parents heads stop mode limits = Inr t"
proof -
  have total: "total_links (store_parent_links store) (map_links parents)" by unfold_locales (simp_all add: answers)
  then have batched: "batched_links (store_parent_links store) (map_links parents)" by (rule total_links.axioms)
  have "snapshot_ancestor_closure store heads stop mode limits = Inr t \<longleftrightarrow> closure_over (link_parents (map_links parents) mode) heads stop limits t"
    using total_links.closure_over_store [OF total refl] batched_links.store_closure_over [OF batched refl] by blast
  also have "\<dots> \<longleftrightarrow> closure_over (map_parents parents mode) heads stop limits t"
    unfolding closure_over_def walk_source_cong [OF link_parents_of_map] ..
  finally show ?thesis unfolding map_closure_over .
qed

theorem store_closure_equals_map_closure_witness:
  "snapshot_ancestor_closure_from_parent_map diamond [''d''] {} FirstParent small_limits =
    snapshot_ancestor_closure diamond_store [''d''] {} FirstParent small_limits"
proof -
  have "\<not> isl (snapshot_ancestor_closure diamond_store [''d''] {} FirstParent small_limits)" by code_simp
  note run = Inr_projr [OF this]
  from run store_closure_equals_map_closure [OF diamond_batches] show ?thesis by metis
qed

section \<open>Merge bases\<close>

text \<open>
  C10. In error mode the merge bases are the lowest common ancestors.  What \<open>snapshot_merge_bases\<close> returns
  are, each once, exactly the common ancestors of both snapshots that are not an ancestor of another common
  ancestor, ordered by the larger of their two distances; so criss-cross histories give all their bases.
\<close>

theorem merge_bases_are_lowest_common:
  assumes faithful: "\<And>ids links. store_parent_links store ids = Inr links \<Longrightarrow> links = map L ids"
    and mode: "limit_mode limits = LimitError" and run: "snapshot_merge_bases store l r limits = Inr bases"
  shows "let E = edges_of (link_parents L AllParents) {} in
    set bases = lowest_common E (ancestry E {l} \<inter> ancestry E {r}) \<and> distinct bases \<and>
    sorted_wrt (\<lambda>x y. \<forall>a b c d. first_generation E {l} x a \<and> first_generation E {r} x b \<and>
      first_generation E {l} y c \<and> first_generation E {r} y d \<longrightarrow> max a b \<le> max c d) bases"
proof -
  let ?E = "edges_of (link_parents L AllParents) {}"
  have batched: "batched_links (store_parent_links store) L" by unfold_locales (rule faithful)
  from run obtain left right where lr: "snapshot_ancestor_closure store [l] {} AllParents limits = Inr left"
      "snapshot_ancestor_closure store [r] {} AllParents limits = Inr right" "merge_bases_from_traversals left right = Inr bases"
    by (auto simp: snapshot_merge_bases_def res_bind_Inr)
  have exact: "exact_closure ?E {x} t" if "snapshot_ancestor_closure store [x] {} AllParents limits = Inr t" for x t
    using link_source.closure_exact [OF batched_links.store_closure_over [OF batched refl that]]
      closure_error_mode [OF batched_links.store_closure_over [OF batched refl that] mode] by simp
  have self: "s \<notin> set (?E s)" for s using parent_set_not_self [OF link_source.edges_of_ok] .
  note bases = merge_bases_exact [OF exact [OF lr(1)] exact [OF lr(2)] self lr(3)]
  have dist: "distance_or_max left x = a" if "first_generation ?E {l} x a" for x a
    by (rule exact_distance [OF exact [OF lr(1)] that])
  have dist': "distance_or_max right x = a" if "first_generation ?E {r} x a" for x a
    by (rule exact_distance [OF exact [OF lr(2)] that])
  from bases(3) have "sorted_wrt (\<lambda>x y. merge_base_sort_key left right x \<le> merge_base_sort_key left right y) bases"
    by (simp add: sorted_map)
  then have "sorted_wrt (\<lambda>x y. \<forall>a b c d. first_generation ?E {l} x a \<and> first_generation ?E {r} x b \<and>
      first_generation ?E {l} y c \<and> first_generation ?E {r} y d \<longrightarrow> max a b \<le> max c d) bases"
    by (rule sorted_wrt_mono_rel [rotated]) (auto simp: merge_base_sort_key_def less_eq_prod_def dist dist')
  with bases(1,2) show ?thesis by (simp add: Let_def)
qed

theorem merge_bases_are_lowest_common_witness:
  "let E = edges_of (link_parents (map_links diamond) AllParents) {} in
    set [''a''] = lowest_common E (ancestry E {''b''} \<inter> ancestry E {''c''}) \<and> distinct [''a''] \<and>
    sorted_wrt (\<lambda>x y. \<forall>a b c d. first_generation E {''b''} x a \<and> first_generation E {''c''} x b \<and>
      first_generation E {''b''} y c \<and> first_generation E {''c''} y d \<longrightarrow> max a b \<le> max c d) [''a'']"
proof -
  have run: "snapshot_merge_bases diamond_store ''b'' ''c'' small_limits = Inr [''a'']" by code_simp
  have mode: "limit_mode small_limits = LimitError" by (simp add: small_limits_def)
  show ?thesis by (rule merge_bases_are_lowest_common [OF _ mode run]) (simp add: diamond_batches)
qed

section \<open>Ancestor distances\<close>

text \<open>
  C25. In error mode the distance is the shortest one.  Whatever valid cache it starts with,
  \<open>snapshot_ancestor_distance_with_cache\<close> leaves a valid cache, an answer \<open>Some k\<close> means that \<open>k\<close> is the
  least number of parent steps from the descendant to the ancestor, and \<open>None\<close> that it is no ancestor.
\<close>

theorem ancestor_distance_is_shortest:
  assumes faithful: "\<And>ids links. store_parent_links store ids = Inr links \<Longrightarrow> links = map L ids"
    and "limit_mode limits = LimitError" "link_cache_ok L cache"
    and "snapshot_ancestor_distance_with_cache store a d limits cache = (cache', Inr answer)"
  shows "link_cache_ok L cache' \<and>
    (case answer of None \<Rightarrow> a \<notin> ancestry (edges_of (link_parents L AllParents) {}) {d}
     | Some k \<Rightarrow> first_generation (edges_of (link_parents L AllParents) {}) {d} a k)"
proof -
  have "batched_links (store_parent_links store) L" by unfold_locales (rule faithful)
  from batched_links.distance_sound [OF this refl assms(2-)] show ?thesis by (auto simp: search_answer_def)
qed

theorem ancestor_distance_is_shortest_witness:
  "first_generation (edges_of (link_parents (map_links diamond) AllParents) {}) {''d''} ''a'' 2"
proof -
  have "snd (snapshot_ancestor_distance_with_cache diamond_store ''a'' ''d'' small_limits Map.empty) = Inr (Some 2)" by code_simp
  then obtain cache' where run: "snapshot_ancestor_distance_with_cache diamond_store ''a'' ''d'' small_limits Map.empty = (cache', Inr (Some 2))"
    by (metis prod.collapse)
  have mode: "limit_mode small_limits = LimitError" by (simp add: small_limits_def)
  from ancestor_distance_is_shortest [OF _ mode link_cache_ok_empty run, of "map_links diamond"] show ?thesis by (simp add: diamond_batches)
qed

text \<open>
  The cache of parent links is transparent: for a store that answers, a search with any valid cache
  returns the answer of a search without one, errors included.
\<close>

theorem distance_cache_is_transparent:
  assumes answers: "\<And>ids. store_parent_links store ids = Inr (map L ids)" and "link_cache_ok L cache"
  shows "snd (snapshot_ancestor_distance_with_cache store a d limits cache) = snapshot_ancestor_distance store a d limits"
proof -
  have "total_links (store_parent_links store) L" by unfold_locales (simp_all add: answers)
  from total_links.distance_cache [OF this refl assms(2)] show ?thesis .
qed

theorem distance_cache_is_transparent_witness:
  "snd (snapshot_ancestor_distance_with_cache diamond_store ''a'' ''d'' small_limits [''b'' \<mapsto> map_links diamond ''b'']) = Inr (Some 2)"
proof -
  have "snapshot_ancestor_distance diamond_store ''a'' ''d'' small_limits = Inr (Some 2)" by code_simp
  moreover have "link_cache_ok (map_links diamond) [''b'' \<mapsto> map_links diamond ''b'']" by (simp add: link_cache_ok_def)
  ultimately show ?thesis using distance_cache_is_transparent [OF diamond_batches] by simp
qed

section \<open>Descendants\<close>

text \<open>A merge that also has the fork point as a parent.\<close>

definition shortcut :: parent_map where
  "shortcut = [(''a'', []), (''b'', [''a'']), (''m'', [''a'', ''b''])]"

definition shortcut_rows :: "SnapshotParentLink list" where
  "shortcut_rows = map (\<lambda>(s, ps). \<lparr>link_snapshot_id = s, parent_snapshot_ids = ps,
     primary_parent_snapshot_id = first_parent ps, parent_snapshot_id = first_parent ps\<rparr>) shortcut"

definition paged_store :: "SnapshotParentLink list \<Rightarrow> snapshot_store" where
  "paged_store rows =
     \<lparr>store_parent_link = (\<lambda>s. Inr (find (\<lambda>l. link_snapshot_id l = s) rows)),
      store_parent_links = snapshot_parent_links_default (\<lambda>s. Inr (find (\<lambda>l. link_snapshot_id l = s) rows)),
      store_parent_link_page = (\<lambda>cursor limit. Inr \<lparr>page_links = drop (unat cursor) rows, next_cursor = None\<rparr>)\<rparr>"

definition wide_limits :: SnapshotDagLimits where
  "wide_limits = \<lparr>max_depth = 9, max_results = 9, batch_size = 5, limit_mode = LimitError\<rparr>"

lemma paged_rows: "length rows \<le> 5 \<Longrightarrow> page_rows (paged_store rows) (batch_size wide_limits) 0 = Inr rows"
  by (subst page_rows.simps) (simp add: paged_store_def wide_limits_def)

text \<open>
  A closure of descendants is graded.  In error mode, when the pages of the store list the rows,
  \<open>snapshot_descendant_closure\<close> returns exactly the snapshots that descend from the roots, each once in the
  order, and records the distance \<open>k\<close> for a snapshot exactly when it can be reached from a root in \<open>k\<close>
  steps: it only succeeds where all paths to a snapshot have one length.
\<close>

theorem descendant_closure_is_graded:
  assumes "limit_mode limits = LimitError" "page_rows store (batch_size limits) 0 = Inr rows" "roots \<noteq> []"
    and "snapshot_descendant_closure store roots mode limits = Inr t"
  shows "(\<forall>s k. distance_from_head t s = Some k \<longleftrightarrow> s \<in> generation (children_of mode rows) (set roots) k) \<and>
    set (topological_snapshot_ids t) = ancestry (children_of mode rows) (set roots) \<and>
    distinct (topological_snapshot_ids t) \<and> \<not> traversal_truncated t"
  using descendant_closure_levels [OF assms] .

theorem descendant_closure_is_graded_witness:
  "set [''a'', ''b'', ''m''] = ancestry (children_of FirstParent shortcut_rows) {''a''}"
proof -
  let ?r = "snapshot_descendant_closure (paged_store shortcut_rows) [''a''] FirstParent wide_limits"
  have "\<not> isl ?r" by code_simp
  note run = Inr_projr [OF this]
  have rows: "page_rows (paged_store shortcut_rows) (batch_size wide_limits) 0 = Inr shortcut_rows"
    by (rule paged_rows) (simp add: shortcut_rows_def shortcut_def)
  have "topological_snapshot_ids (projr ?r) = [''a'', ''b'', ''m'']" by code_simp
  with descendant_closure_is_graded [OF _ rows _ run] show ?thesis by (simp add: wide_limits_def)
qed

text \<open>
  C37. In error mode (\<open>limit_mode\<close> is \<^term>\<open>LimitError\<close>, the default, where nothing is cut off silently), a snapshot that
  descends from the roots along paths of different lengths makes the closure of descendants fail.  The
  code reports a cycle then, also where there is none: in the example a merge has the root and a child of
  the root as parents.  In truncating mode the limits may cut the history before such a snapshot is met.
\<close>

theorem descendant_closure_refuses_shortcuts:
  assumes "limit_mode limits = LimitError" "page_rows store (batch_size limits) 0 = Inr rows" "roots \<noteq> []"
    and "s \<in> generation (children_of mode rows) (set roots) i" "s \<in> generation (children_of mode rows) (set roots) j" "i \<noteq> j"
  shows "\<exists>e. snapshot_descendant_closure store roots mode limits = Inl e"
proof (cases "snapshot_descendant_closure store roots mode limits")
  case (Inr t)
  from descendant_closure_levels [OF assms(1-3) Inr] have
    "distance_from_head t s = Some i" "distance_from_head t s = Some j" using assms(4,5) by blast+
  with assms(6) show ?thesis by simp
qed simp

theorem descendant_closure_refuses_shortcuts_witness:
  "(\<exists>e. snapshot_descendant_closure (paged_store shortcut_rows) [''a''] AllParents wide_limits = Inl e) \<and>
    snapshot_descendant_closure (paged_store shortcut_rows) [''a''] AllParents wide_limits = Inl (CycleDetected ''m'') \<and>
    acyclic (inner_edges shortcut {})"
proof -
  have rows: "page_rows (paged_store shortcut_rows) (batch_size wide_limits) 0 = Inr shortcut_rows"
    by (rule paged_rows) (simp add: shortcut_rows_def shortcut_def)
  have "''m'' \<in> generation (children_of AllParents shortcut_rows) (set [''a'']) 1" by code_simp
  moreover have "''m'' \<in> generation (children_of AllParents shortcut_rows) (set [''a'']) 2" by code_simp
  moreover have "limit_mode wide_limits = LimitError" by (simp add: wide_limits_def)
  moreover have "snapshot_descendant_closure (paged_store shortcut_rows) [''a''] AllParents wide_limits = Inl (CycleDetected ''m'')"
  proof -
    have "isl (snapshot_descendant_closure (paged_store shortcut_rows) [''a''] AllParents wide_limits)" by code_simp
    moreover have "projl (snapshot_descendant_closure (paged_store shortcut_rows) [''a''] AllParents wide_limits) = CycleDetected ''m''" by code_simp
    ultimately show ?thesis by (metis sum.collapse(1))
  qed
  moreover have "topological_order_with_rank shortcut {} (Some (\<lambda>_. Some 0)) = Inr [''a'', ''b'', ''m'']" "btree_wf shortcut" by code_simp+
  ultimately show ?thesis
    using descendant_closure_refuses_shortcuts [OF _ rows, of "[''a'']" "''m''" AllParents 1 2] topological_acyclic by simp
qed

end
