(* ===== verification/Snapshot_Rebase.thy ===== *)
theory Snapshot_Rebase
  imports Snapshot_Store
begin

text \<open>
  Replaying snapshots (\<open>snapshot_rebase.rs\<close>): the three-way rule for the files of a tree, and the replay of
  a line of snapshots on a target.
\<close>

section \<open>Trees\<close>

record SnapshotFileRow =
  row_path :: string
  row_blob_id :: string
  row_size_bytes :: int
  row_mode :: string
  row_sha256 :: string

type_synonym SnapshotFileMap = "(string, SnapshotFileRow) btree_map"

datatype SnapshotRebaseResolution = ResolveTarget | ResolveFeature | ResolveSameResult | ResolveConflict

definition resolution_str :: "SnapshotRebaseResolution \<Rightarrow> string" where
  "resolution_str r = (case r of ResolveTarget \<Rightarrow> ''target'' | ResolveFeature \<Rightarrow> ''feature''
     | ResolveSameResult \<Rightarrow> ''same_result'' | ResolveConflict \<Rightarrow> ''conflict'')"

datatype SnapshotRebaseApply = ApplyUnchanged | ApplyWrite | ApplyRemove | ApplyConflict

definition apply_str :: "SnapshotRebaseApply \<Rightarrow> string" where
  "apply_str a = (case a of ApplyUnchanged \<Rightarrow> ''unchanged'' | ApplyWrite \<Rightarrow> ''write''
     | ApplyRemove \<Rightarrow> ''remove'' | ApplyConflict \<Rightarrow> ''conflict'')"

record SnapshotRebasePath =
  rebase_path :: string
  feature_changed :: bool
  target_changed :: bool
  path_resolution :: SnapshotRebaseResolution
  path_apply :: SnapshotRebaseApply

record SnapshotTreeRebasePlan =
  feature_delta_count :: nat
  plan_paths :: "SnapshotRebasePath list"
  write_paths :: "string list"
  remove_paths :: "string list"
  conflict_paths :: "string list"
  merged_files :: "SnapshotFileMap option"

definition empty_plan :: SnapshotTreeRebasePlan where
  "empty_plan =
     \<lparr>feature_delta_count = 0, plan_paths = [], write_paths = [], remove_paths = [], conflict_paths = [], merged_files = None\<rparr>"

definition btree_remove :: "'k \<Rightarrow> ('k, 'v) btree_map \<Rightarrow> ('k, 'v) btree_map" where
  "btree_remove k m = filter (\<lambda>e. fst e \<noteq> k) m"

definition rebase_paths :: "SnapshotFileMap \<Rightarrow> SnapshotFileMap \<Rightarrow> SnapshotFileMap \<Rightarrow> string list" where
  "rebase_paths base feature target = fold btree_set_insert (map fst base @ map fst feature @ map fst target) []"

definition rebase_path_step ::
    "SnapshotFileMap \<Rightarrow> SnapshotFileMap \<Rightarrow> SnapshotFileMap \<Rightarrow> string \<Rightarrow>
     SnapshotTreeRebasePlan \<times> SnapshotFileMap \<Rightarrow> SnapshotTreeRebasePlan \<times> SnapshotFileMap" where
  "rebase_path_step base feature target path = (\<lambda>(plan, merged).
     let old = map_of base path; source = map_of feature path; destination = map_of target path;
         f_changed = (source \<noteq> old); t_changed = (destination \<noteq> old);
         plan' = plan\<lparr>feature_delta_count := feature_delta_count plan + (if f_changed then 1 else 0)\<rparr>;
         record_path = (\<lambda>resolution action plan. plan\<lparr>plan_paths := plan_paths plan @
           [\<lparr>rebase_path = path, feature_changed = f_changed, target_changed = t_changed,
             path_resolution = resolution, path_apply = action\<rparr>]\<rparr>)
     in if \<not> f_changed \<and> \<not> t_changed then (plan, merged)
        else if \<not> f_changed then (record_path ResolveTarget ApplyUnchanged plan', merged)
        else if \<not> t_changed then
          (case source of
             Some row \<Rightarrow> (record_path ResolveFeature ApplyWrite (plan'\<lparr>write_paths := write_paths plan' @ [path]\<rparr>),
                         btree_insert path row merged)
           | None \<Rightarrow> (record_path ResolveFeature ApplyRemove (plan'\<lparr>remove_paths := remove_paths plan' @ [path]\<rparr>),
                     btree_remove path merged))
        else if source = destination then (record_path ResolveSameResult ApplyUnchanged plan', merged)
        else (record_path ResolveConflict ApplyConflict (plan'\<lparr>conflict_paths := conflict_paths plan' @ [path]\<rparr>), merged))"

definition rebase_snapshot_files ::
    "SnapshotFileMap \<Rightarrow> SnapshotFileMap \<Rightarrow> SnapshotFileMap \<Rightarrow> SnapshotTreeRebasePlan" where
  "rebase_snapshot_files base feature target =
     (let (plan, merged) = fold (rebase_path_step base feature target) (rebase_paths base feature target) (empty_plan, target)
      in if conflict_paths plan = [] then plan\<lparr>merged_files := Some merged\<rparr> else plan)"

section \<open>Histories\<close>

record SnapshotWorkflowBinding =
  owner_task_id :: string
  owner_change_id :: string
  owner_line_name :: string

record 'm SnapshotHistoryBoundary =
  base_snapshot_id :: string
  boundary_snapshot_id :: string
  boundary_owner :: SnapshotWorkflowBinding
  base_files :: SnapshotFileMap
  boundary_files :: SnapshotFileMap
  boundary_metadata :: 'm

datatype SnapshotReplayParent = Existing string | Replayed nat

record 'm SnapshotHistoryRebaseStep =
  step_source :: "'m SnapshotHistoryBoundary"
  step_parent :: SnapshotReplayParent
  step_files :: SnapshotFileMap
  reuse_snapshot_id :: "string option"

datatype invalid_history =
    NoTargetOrBoundaries | InvalidIdentity | EarlierTask | HistoryGap | NotASuffix | TargetTreeDiffers

datatype SnapshotHistoryRebaseError =
    InvalidHistory invalid_history
  | HistoryConflict string string "string list"

fun validate_boundaries ::
    "string \<Rightarrow> SnapshotFileMap \<Rightarrow> string set \<Rightarrow> string set \<Rightarrow> string option \<Rightarrow> 'm SnapshotHistoryBoundary option \<Rightarrow>
     'm SnapshotHistoryBoundary list \<Rightarrow> SnapshotHistoryRebaseError + unit" where
  "validate_boundaries target_id target_files seen_snapshots seen_tasks previous_task previous [] = Inr ()"
| "validate_boundaries target_id target_files seen_snapshots seen_tasks previous_task previous (b # bs) =
     (let task = owner_task_id (boundary_owner b)
      in if trim (base_snapshot_id b) = [] \<or> trim (boundary_snapshot_id b) = [] \<or> base_snapshot_id b = boundary_snapshot_id b
           \<or> trim task = [] \<or> trim (owner_line_name (boundary_owner b)) = [] \<or> boundary_snapshot_id b \<in> seen_snapshots
         then Inl (InvalidHistory InvalidIdentity)
         else if previous_task \<noteq> Some task \<and> task \<in> seen_tasks then Inl (InvalidHistory EarlierTask)
         else if (case previous of None \<Rightarrow> False
                  | Some p \<Rightarrow> base_snapshot_id b \<noteq> boundary_snapshot_id p \<or> base_files b \<noteq> boundary_files p)
         then Inl (InvalidHistory HistoryGap)
         else if boundary_snapshot_id b = target_id then Inl (InvalidHistory NotASuffix)
         else if base_snapshot_id b = target_id \<and> base_files b \<noteq> target_files then Inl (InvalidHistory TargetTreeDiffers)
         else validate_boundaries target_id target_files (insert (boundary_snapshot_id b) seen_snapshots)
           (insert task seen_tasks) (Some task) (Some b) bs)"

fun replay_boundaries ::
    "nat \<Rightarrow> SnapshotReplayParent \<Rightarrow> SnapshotFileMap \<Rightarrow> 'm SnapshotHistoryBoundary list \<Rightarrow>
     SnapshotHistoryRebaseError + 'm SnapshotHistoryRebaseStep list" where
  "replay_boundaries index parent files [] = Inr []"
| "replay_boundaries index parent files (source # rest) =
     (let plan = rebase_snapshot_files (base_files source) (boundary_files source) files
      in case merged_files plan of
           None \<Rightarrow> Inl (HistoryConflict (owner_task_id (boundary_owner source)) (boundary_snapshot_id source) (conflict_paths plan))
         | Some replayed_files \<Rightarrow>
             (let reuse = (parent = Existing (base_snapshot_id source) \<and> replayed_files = boundary_files source)
              in res_bind
                   (replay_boundaries (index + 1)
                     (if reuse then Existing (boundary_snapshot_id source) else Replayed index) replayed_files rest)
                   (\<lambda>steps. Inr (\<lparr>step_source = source, step_parent = parent, step_files = replayed_files,
                     reuse_snapshot_id = (if reuse then Some (boundary_snapshot_id source) else None)\<rparr> # steps))))"

definition plan_snapshot_history_rebase ::
    "string \<Rightarrow> SnapshotFileMap \<Rightarrow> 'm SnapshotHistoryBoundary list \<Rightarrow>
     SnapshotHistoryRebaseError + 'm SnapshotHistoryRebaseStep list" where
  "plan_snapshot_history_rebase target_id target_files boundaries =
     (if trim target_id = [] \<or> boundaries = [] then Inl (InvalidHistory NoTargetOrBoundaries)
      else
        res_bind (validate_boundaries target_id target_files {base_snapshot_id (hd boundaries)} {} None None boundaries) (\<lambda>_.
          replay_boundaries 0 (Existing target_id) target_files boundaries))"

section \<open>The three-way rule\<close>

text \<open>The rule, path by path: a change of the feature wins, a conflict is two different changes.\<close>

definition three_way :: "('k \<rightharpoonup> 'v) \<Rightarrow> ('k \<rightharpoonup> 'v) \<Rightarrow> ('k \<rightharpoonup> 'v) \<Rightarrow> 'k \<rightharpoonup> 'v" where
  "three_way base feature target p = (if feature p = base p then target p else feature p)"

definition diverges :: "('k \<rightharpoonup> 'v) \<Rightarrow> ('k \<rightharpoonup> 'v) \<Rightarrow> ('k \<rightharpoonup> 'v) \<Rightarrow> 'k \<Rightarrow> bool" where
  "diverges base feature target p \<longleftrightarrow> feature p \<noteq> base p \<and> target p \<noteq> base p \<and> feature p \<noteq> target p"

lemma btree_wf_remove [simp]: "btree_wf m \<Longrightarrow> btree_wf (btree_remove k m)"
  by (induction m) (auto simp: btree_wf_def btree_remove_def image_iff)

lemma map_of_btree_remove [simp]: "map_of (btree_remove k m) = (map_of m)(k := None)"
  by (induction m) (auto simp: btree_remove_def fun_eq_iff)

lemma fold_btree_set_insert:
  "sorted ys \<Longrightarrow> distinct ys \<Longrightarrow> sorted (fold btree_set_insert xs ys) \<and> distinct (fold btree_set_insert xs ys) \<and>
    set (fold btree_set_insert xs ys) = set xs \<union> set ys"
  by (induction xs arbitrary: ys) auto

lemma rebase_paths_set:
  "sorted (rebase_paths base feature target)" "distinct (rebase_paths base feature target)"
  "set (rebase_paths base feature target) = dom (map_of base) \<union> dom (map_of feature) \<union> dom (map_of target)"
  using fold_btree_set_insert [of "[]" "map fst base @ map fst feature @ map fst target"]
  by (auto simp: rebase_paths_def dom_map_of_conv_image_fst)

text \<open>The effect of one path on the lists of the plan and on the merged tree.\<close>

definition writes_of :: "SnapshotFileMap \<Rightarrow> SnapshotFileMap \<Rightarrow> SnapshotFileMap \<Rightarrow> string \<Rightarrow> bool" where
  "writes_of base feature target p \<longleftrightarrow> map_of feature p \<noteq> map_of base p \<and> map_of target p = map_of base p \<and> map_of feature p \<noteq> None"

definition removes_of :: "SnapshotFileMap \<Rightarrow> SnapshotFileMap \<Rightarrow> SnapshotFileMap \<Rightarrow> string \<Rightarrow> bool" where
  "removes_of base feature target p \<longleftrightarrow> map_of feature p \<noteq> map_of base p \<and> map_of target p = map_of base p \<and> map_of feature p = None"

lemma rebase_fold:
  assumes "btree_wf merged"
  shows "\<exists>plan' merged'. fold (rebase_path_step base feature target) ps (plan, merged) = (plan', merged') \<and> btree_wf merged' \<and>
    (\<forall>p. map_of merged' p = (if p \<in> set ps \<and> (writes_of base feature target p \<or> removes_of base feature target p)
      then map_of feature p else map_of merged p)) \<and>
    conflict_paths plan' = conflict_paths plan @ filter (diverges (map_of base) (map_of feature) (map_of target)) ps \<and>
    write_paths plan' = write_paths plan @ filter (writes_of base feature target) ps \<and>
    remove_paths plan' = remove_paths plan @ filter (removes_of base feature target) ps \<and> merged_files plan' = merged_files plan"
  using assms
proof (induction ps arbitrary: plan merged)
  case (Cons p ps)
  obtain plan1 merged1 where step: "rebase_path_step base feature target p (plan, merged) = (plan1, merged1)" by fastforce
  have one: "btree_wf merged1 \<and>
    (\<forall>q. map_of merged1 q = (if q = p \<and> (writes_of base feature target p \<or> removes_of base feature target p) then map_of feature p else map_of merged q)) \<and>
    conflict_paths plan1 = conflict_paths plan @ filter (diverges (map_of base) (map_of feature) (map_of target)) [p] \<and>
    write_paths plan1 = write_paths plan @ filter (writes_of base feature target) [p] \<and>
    remove_paths plan1 = remove_paths plan @ filter (removes_of base feature target) [p] \<and> merged_files plan1 = merged_files plan"
    using step Cons.prems
    by (auto simp: rebase_path_step_def Let_def writes_of_def removes_of_def diverges_def split: if_split_asm option.splits)
  then have "btree_wf merged1" by simp
  from Cons.IH [OF this, of plan1] one step show ?case by (auto split: if_split_asm)
qed simp

end
