(* ===== verification/Rebase_Properties.thy ===== *)
theory Rebase_Properties
  imports Snapshot_Rebase
begin

text \<open>The three-way rule for trees and the replay of histories.\<close>

section \<open>Trees\<close>

lemma rebase_snapshot_files_run:
  assumes "btree_wf target"
  shows "\<exists>m. btree_wf m \<and>
    (\<forall>p. map_of m p = (if writes_of base feature target p \<or> removes_of base feature target p then map_of feature p else map_of target p)) \<and>
    conflict_paths (rebase_snapshot_files base feature target) =
      filter (diverges (map_of base) (map_of feature) (map_of target)) (rebase_paths base feature target) \<and>
    write_paths (rebase_snapshot_files base feature target) = filter (writes_of base feature target) (rebase_paths base feature target) \<and>
    remove_paths (rebase_snapshot_files base feature target) = filter (removes_of base feature target) (rebase_paths base feature target) \<and>
    merged_files (rebase_snapshot_files base feature target) =
      (if conflict_paths (rebase_snapshot_files base feature target) = [] then Some m else None)"
proof -
  from rebase_fold [OF assms, of base feature target "rebase_paths base feature target" empty_plan] obtain plan m where
    run: "fold (rebase_path_step base feature target) (rebase_paths base feature target) (empty_plan, target) = (plan, m)" and wf: "btree_wf m"
    and m: "\<And>p. map_of m p = (if p \<in> set (rebase_paths base feature target) \<and> (writes_of base feature target p \<or> removes_of base feature target p)
      then map_of feature p else map_of target p)"
    and lists: "conflict_paths plan = filter (diverges (map_of base) (map_of feature) (map_of target)) (rebase_paths base feature target)"
      "write_paths plan = filter (writes_of base feature target) (rebase_paths base feature target)"
      "remove_paths plan = filter (removes_of base feature target) (rebase_paths base feature target)" "merged_files plan = None"
    by (auto simp: empty_plan_def)
  have "p \<in> set (rebase_paths base feature target)" if "writes_of base feature target p \<or> removes_of base feature target p" for p
    using that unfolding rebase_paths_set(3) writes_of_def removes_of_def by (cases "map_of feature p"; cases "map_of base p") auto
  then have "\<forall>p. map_of m p = (if writes_of base feature target p \<or> removes_of base feature target p then map_of feature p else map_of target p)"
    using m by auto
  with wf lists show ?thesis unfolding rebase_snapshot_files_def run by (intro exI [of _ m]) simp
qed

lemma diverges_paths: "set (filter (diverges (map_of base) (map_of feature) (map_of target)) (rebase_paths base feature target)) =
    {p. diverges (map_of base) (map_of feature) (map_of target) p}"
proof -
  have "p \<in> set (rebase_paths base feature target)" if "diverges (map_of base) (map_of feature) (map_of target) p" for p
    using that unfolding rebase_paths_set(3) diverges_def by (cases "map_of feature p"; cases "map_of base p") auto
  then show ?thesis by auto
qed

lemma merged_files_Some:
  assumes "btree_wf target" "merged_files (rebase_snapshot_files base feature target) = Some m"
  shows "btree_wf m \<and> map_of m = three_way (map_of base) (map_of feature) (map_of target) \<and>
    (\<forall>p. \<not> diverges (map_of base) (map_of feature) (map_of target) p)"
proof -
  from rebase_snapshot_files_run [OF assms(1), of base feature] assms(2) have wf: "btree_wf m"
    and m: "\<And>p. map_of m p = (if writes_of base feature target p \<or> removes_of base feature target p then map_of feature p else map_of target p)"
    and "filter (diverges (map_of base) (map_of feature) (map_of target)) (rebase_paths base feature target) = []"
    by (auto split: if_split_asm)
  with diverges_paths [of base feature target] have none: "\<not> diverges (map_of base) (map_of feature) (map_of target) p" for p by auto
  have "map_of m p = three_way (map_of base) (map_of feature) (map_of target) p" for p
    using m [of p] none [of p] by (auto simp: three_way_def diverges_def writes_of_def removes_of_def split: if_split_asm)
  with wf none show ?thesis by auto
qed

lemma merged_files_None:
  assumes "btree_wf target" "merged_files (rebase_snapshot_files base feature target) = None"
  shows "\<exists>p. diverges (map_of base) (map_of feature) (map_of target) p"
proof -
  from rebase_snapshot_files_run [OF assms(1), of base feature] assms(2)
  have "filter (diverges (map_of base) (map_of feature) (map_of target)) (rebase_paths base feature target) \<noteq> []" by auto
  then have "set (filter (diverges (map_of base) (map_of feature) (map_of target)) (rebase_paths base feature target)) \<noteq> {}"
    by (simp only: set_empty not_False_eq_True)
  then show ?thesis unfolding diverges_paths by auto
qed

text \<open>
  C11. A tree rebase is the three-way rule.  The conflict paths of \<open>rebase_snapshot_files\<close> are exactly the
  paths that feature and target changed to different results, a merged tree is returned exactly when there
  is none, and then it holds the feature's file where the feature changed the base and the target's file
  elsewhere; the paths to write and to remove are exactly the differences between the merged tree and the
  target.
\<close>

theorem tree_rebase_is_three_way:
  assumes "btree_wf target"
  shows "set (conflict_paths (rebase_snapshot_files base feature target)) = {p. diverges (map_of base) (map_of feature) (map_of target) p} \<and>
    (case merged_files (rebase_snapshot_files base feature target) of
       None \<Rightarrow> \<exists>p. diverges (map_of base) (map_of feature) (map_of target) p
     | Some m \<Rightarrow> (\<forall>p. \<not> diverges (map_of base) (map_of feature) (map_of target) p) \<and> btree_wf m \<and>
         map_of m = three_way (map_of base) (map_of feature) (map_of target) \<and>
         set (write_paths (rebase_snapshot_files base feature target)) = {p. map_of m p \<noteq> map_of target p \<and> map_of m p \<noteq> None} \<and>
         set (remove_paths (rebase_snapshot_files base feature target)) = {p. map_of m p \<noteq> map_of target p \<and> map_of m p = None})"
proof (cases "merged_files (rebase_snapshot_files base feature target)")
  case None
  with rebase_snapshot_files_run [OF assms, of base feature] diverges_paths [of base feature target] merged_files_None [OF assms None]
  show ?thesis by auto
next
  case (Some m)
  let ?ps = "rebase_paths base feature target"
  from rebase_snapshot_files_run [OF assms, of base feature] have
    c: "conflict_paths (rebase_snapshot_files base feature target) = filter (diverges (map_of base) (map_of feature) (map_of target)) ?ps" and
    w: "write_paths (rebase_snapshot_files base feature target) = filter (writes_of base feature target) ?ps" and
    r: "remove_paths (rebase_snapshot_files base feature target) = filter (removes_of base feature target) ?ps" by auto
  note merged = merged_files_Some [OF assms Some]
  have "p \<in> set ?ps \<and> writes_of base feature target p \<longleftrightarrow> map_of m p \<noteq> map_of target p \<and> map_of m p \<noteq> None" for p
    using merged unfolding rebase_paths_set(3) by (auto simp: three_way_def writes_of_def diverges_def)
  moreover have "p \<in> set ?ps \<and> removes_of base feature target p \<longleftrightarrow> map_of m p \<noteq> map_of target p \<and> map_of m p = None" for p
    using merged unfolding rebase_paths_set(3) by (auto simp: three_way_def removes_of_def diverges_def)
  ultimately show ?thesis using Some merged c w r diverges_paths [of base feature target] by auto
qed

definition sample_row :: "string \<Rightarrow> string \<Rightarrow> SnapshotFileRow" where
  "sample_row path blob = \<lparr>row_path = path, row_blob_id = blob, row_size_bytes = 1, row_mode = ''100644'', row_sha256 = blob\<rparr>"

definition sample_base :: SnapshotFileMap where
  "sample_base = [(''f'', sample_row ''f'' ''1''), (''g'', sample_row ''g'' ''1'')]"

definition sample_feature :: SnapshotFileMap where
  "sample_feature = [(''f'', sample_row ''f'' ''2'')]"

definition sample_target :: SnapshotFileMap where
  "sample_target = [(''f'', sample_row ''f'' ''1''), (''g'', sample_row ''g'' ''1''), (''h'', sample_row ''h'' ''1'')]"

lemma sample_wf: "btree_wf sample_base" "btree_wf sample_feature" "btree_wf sample_target"
  by code_simp+

theorem tree_rebase_is_three_way_witness:
  "merged_files (rebase_snapshot_files sample_base sample_feature sample_target) =
      Some [(''f'', sample_row ''f'' ''2''), (''h'', sample_row ''h'' ''1'')] \<and>
    set (remove_paths (rebase_snapshot_files sample_base sample_feature sample_target)) = {''g''} \<and>
    map_of [(''f'', sample_row ''f'' ''2''), (''h'', sample_row ''h'' ''1'')] =
      three_way (map_of sample_base) (map_of sample_feature) (map_of sample_target)"
proof -
  have run: "merged_files (rebase_snapshot_files sample_base sample_feature sample_target) =
      Some [(''f'', sample_row ''f'' ''2''), (''h'', sample_row ''h'' ''1'')]"
    "set (remove_paths (rebase_snapshot_files sample_base sample_feature sample_target)) = {''g''}" by code_simp+
  from tree_rebase_is_three_way [OF sample_wf(3), of sample_base sample_feature] run show ?thesis by simp
qed

section \<open>Histories\<close>

text \<open>Consecutive boundaries: each starts with the tree that the one before it ends with.\<close>

fun consecutive :: "'m SnapshotHistoryBoundary list \<Rightarrow> bool" where
  "consecutive (a # b # bs) \<longleftrightarrow>
     base_snapshot_id b = boundary_snapshot_id a \<and> base_files b = boundary_files a \<and> consecutive (b # bs)"
| "consecutive _ \<longleftrightarrow> True"

lemma validate_consecutive:
  "validate_boundaries target_id target_files snapshots tasks task previous bs = Inr () \<Longrightarrow>
    consecutive ((case previous of None \<Rightarrow> [] | Some p \<Rightarrow> [p]) @ bs)"
proof (induction bs arbitrary: snapshots tasks task previous)
  case (Cons b bs)
  then have "consecutive (b # bs)" by (fastforce simp: Let_def split: if_split_asm)
  with Cons.prems show ?case by (cases previous) (auto simp: Let_def split: if_split_asm)
qed (simp split: option.split)

text \<open>A replay, step by step.\<close>

fun replayed_from :: "nat \<Rightarrow> SnapshotReplayParent \<Rightarrow> (string \<rightharpoonup> SnapshotFileRow) \<Rightarrow> 'm SnapshotHistoryRebaseStep list \<Rightarrow> bool" where
  "replayed_from index parent tree [] \<longleftrightarrow> True"
| "replayed_from index parent tree (s # ss) \<longleftrightarrow>
     step_parent s = parent \<and> btree_wf (step_files s) \<and>
     map_of (step_files s) = three_way (map_of (base_files (step_source s))) (map_of (boundary_files (step_source s))) tree \<and>
     reuse_snapshot_id s =
       (if parent = Existing (base_snapshot_id (step_source s)) \<and> step_files s = boundary_files (step_source s)
        then Some (boundary_snapshot_id (step_source s)) else None) \<and>
     replayed_from (index + 1) (case reuse_snapshot_id s of None \<Rightarrow> Replayed index | Some i \<Rightarrow> Existing i) (map_of (step_files s)) ss"

lemma replay_boundaries_run:
  "replay_boundaries index parent files bs = Inr steps \<Longrightarrow> btree_wf files \<Longrightarrow>
    map step_source steps = bs \<and> replayed_from index parent (map_of files) steps"
proof (induction bs arbitrary: index parent files steps)
  case (Cons b bs)
  from Cons.prems(1) obtain m where m: "merged_files (rebase_snapshot_files (base_files b) (boundary_files b) files) = Some m"
    by (cases "merged_files (rebase_snapshot_files (base_files b) (boundary_files b) files)") (auto simp: Let_def)
  define reuse where "reuse = (parent = Existing (base_snapshot_id b) \<and> m = boundary_files b)"
  from Cons.prems(1) m obtain rest where
    rest: "replay_boundaries (index + 1) (if reuse then Existing (boundary_snapshot_id b) else Replayed index) m bs = Inr rest"
    and steps: "steps = \<lparr>step_source = b, step_parent = parent, step_files = m,
      reuse_snapshot_id = (if reuse then Some (boundary_snapshot_id b) else None)\<rparr> # rest"
    by (auto simp: Let_def res_bind_Inr reuse_def)
  note merged = merged_files_Some [OF Cons.prems(2) m]
  from Cons.IH [OF rest] merged show ?case by (auto simp: steps reuse_def)
qed simp

lemma replayed_feature:
  "replayed_from index parent tree steps \<Longrightarrow> consecutive (map step_source steps) \<Longrightarrow> i < length steps \<Longrightarrow>
    tree p = map_of (base_files (step_source (steps ! 0))) p \<Longrightarrow>
    map_of (step_files (steps ! i)) p = map_of (boundary_files (step_source (steps ! i))) p"
proof (induction steps arbitrary: index parent tree i)
  case (Cons s ss)
  have here: "map_of (step_files s) p = map_of (boundary_files (step_source s)) p" using Cons.prems(1,4) by (simp add: three_way_def)
  show ?case
  proof (cases i)
    case 0
    with here show ?thesis by simp
  next
    case (Suc k)
    with Cons.prems(3) obtain s' ss' where ss: "ss = s' # ss'" by (cases ss) auto
    have "map_of (step_files s) p = map_of (base_files (step_source (ss ! 0))) p" using here Cons.prems(2) by (simp add: ss)
    then show ?thesis using Cons.prems(1-3) Suc by (auto simp: ss intro: Cons.IH [unfolded ss])
  qed
qed simp

lemma replayed_target:
  "replayed_from index parent tree steps \<Longrightarrow> i < length steps \<Longrightarrow>
    \<forall>j \<le> i. map_of (boundary_files (step_source (steps ! j))) p = map_of (base_files (step_source (steps ! j))) p \<Longrightarrow>
    map_of (step_files (steps ! i)) p = tree p"
proof (induction steps arbitrary: index parent tree i)
  case (Cons s ss)
  have "map_of (boundary_files (step_source s)) p = map_of (base_files (step_source s)) p" using Cons.prems(3) by fastforce
  then have here: "map_of (step_files s) p = tree p" using Cons.prems(1) by (simp add: three_way_def)
  show ?case
  proof (cases i)
    case 0
    with here show ?thesis by simp
  next
    case (Suc k)
    have "\<forall>j \<le> k. map_of (boundary_files (step_source (ss ! j))) p = map_of (base_files (step_source (ss ! j))) p"
      using Cons.prems(3) Suc by (metis Suc_le_mono nth_Cons_Suc)
    with Cons.prems(1,2) Suc here show ?thesis by (auto dest!: Cons.IH)
  qed
qed simp

text \<open>
  C24. A planned history replay carries every change over and drops none.  When
  \<open>plan_snapshot_history_rebase\<close> returns steps they replay the given boundaries in order, each on the tree
  of the one before it by the three-way rule, with parents chained from the target and a snapshot reused
  only where its parent and its tree are unchanged; a path that the target left as in the first base has in
  every step the file of the source snapshot, and a path that no boundary changed so far has the target's.
\<close>

theorem history_replay_is_faithful:
  assumes "btree_wf target_files" "plan_snapshot_history_rebase target_id target_files boundaries = Inr steps"
  shows "map step_source steps = boundaries \<and> replayed_from 0 (Existing target_id) (map_of target_files) steps \<and>
    (\<forall>i < length steps. \<forall>p.
      (map_of target_files p = map_of (base_files (boundaries ! 0)) p \<longrightarrow>
        map_of (step_files (steps ! i)) p = map_of (boundary_files (boundaries ! i)) p) \<and>
      ((\<forall>j \<le> i. map_of (boundary_files (boundaries ! j)) p = map_of (base_files (boundaries ! j)) p) \<longrightarrow>
        map_of (step_files (steps ! i)) p = map_of target_files p))"
proof -
  from assms(2) have v: "validate_boundaries target_id target_files {base_snapshot_id (hd boundaries)} {} None None boundaries = Inr ()"
    and r: "replay_boundaries 0 (Existing target_id) target_files boundaries = Inr steps"
    by (auto simp: plan_snapshot_history_rebase_def res_bind_Inr split: if_split_asm)
  from replay_boundaries_run [OF r assms(1)] have src: "map step_source steps = boundaries"
    and rep: "replayed_from 0 (Existing target_id) (map_of target_files) steps" by simp_all
  have con: "consecutive (map step_source steps)" using validate_consecutive [OF v] by (simp add: src)
  have nth: "boundaries ! j = step_source (steps ! j)" if "j < length steps" for j using that by (simp add: src [symmetric])
  have "map_of (step_files (steps ! i)) p = map_of (boundary_files (boundaries ! i)) p"
    if "i < length steps" "map_of target_files p = map_of (base_files (boundaries ! 0)) p" for i p
    using replayed_feature [OF rep con that(1), of p] that nth [of 0] nth [OF that(1)] by (cases steps) auto
  moreover have "map_of (step_files (steps ! i)) p = map_of target_files p"
    if "i < length steps" "\<forall>j \<le> i. map_of (boundary_files (boundaries ! j)) p = map_of (base_files (boundaries ! j)) p" for i p
    using replayed_target [OF rep that(1), of p] that nth by auto
  ultimately show ?thesis using src rep by blast
qed

definition sample_boundary :: "unit SnapshotHistoryBoundary" where
  "sample_boundary = \<lparr>base_snapshot_id = ''s0'', boundary_snapshot_id = ''s1'',
     boundary_owner = \<lparr>owner_task_id = ''t'', owner_change_id = ''c'', owner_line_name = ''l''\<rparr>,
     base_files = sample_base, boundary_files = sample_feature, boundary_metadata = ()\<rparr>"

lemma sample_ids: "trim ''s0'' = ''s0''" "trim ''s1'' = ''s1''" "trim ''t'' = ''t''" "trim ''l'' = ''l''"
  by (simp_all add: trim_keeps)

theorem history_replay_is_faithful_witness:
  "\<exists>steps. plan_snapshot_history_rebase ''s1x'' sample_target [sample_boundary] = Inr steps \<and>
    map step_source steps = [sample_boundary] \<and>
    map_of (step_files (steps ! 0)) ''h'' = map_of sample_target ''h'' \<and>
    map_of (step_files (steps ! 0)) ''f'' = map_of sample_feature ''f''"
proof -
  have m: "merged_files (rebase_snapshot_files sample_base sample_feature sample_target) =
      Some [(''f'', sample_row ''f'' ''2''), (''h'', sample_row ''h'' ''1'')]" by code_simp
  have "trim ''s1x'' = ''s1x''" by (simp add: trim_keeps)
  then obtain steps where run: "plan_snapshot_history_rebase ''s1x'' sample_target [sample_boundary] = Inr steps"
    by (auto simp: plan_snapshot_history_rebase_def sample_boundary_def sample_ids Let_def m res_bind_def)
  have "map_of sample_target ''f'' = map_of sample_base ''f''" "map_of sample_feature ''h'' = map_of sample_base ''h''" by code_simp+
  with history_replay_is_faithful [OF sample_wf(3) run] run show ?thesis
    by (auto simp: sample_boundary_def)
qed

text \<open>A tree is determined by its files.\<close>

lemma btree_ext:
  assumes "btree_wf a" "btree_wf b" "map_of a = map_of b"
  shows "a = b"
proof -
  have "set a = set b"
    using assms by (auto simp: btree_wf_def) (metis map_of_eq_Some_iff)+
  moreover have "inj_on fst (set a)" using assms(1) by (simp add: btree_wf_def distinct_map)
  ultimately show ?thesis using assms(1,2) by (intro map_sorted_distinct_set_unique [of fst]) (auto simp: btree_wf_def)
qed

lemma rebase_on_base:
  assumes "btree_wf base" "btree_wf feature"
  shows "merged_files (rebase_snapshot_files base feature base) = Some feature"
proof (cases "merged_files (rebase_snapshot_files base feature base)")
  case None
  from merged_files_None [OF assms(1) None] show ?thesis by (auto simp: diverges_def)
next
  case (Some m)
  from merged_files_Some [OF assms(1) Some] have "btree_wf m" "map_of m = map_of feature" by (auto simp: three_way_def fun_eq_iff)
  with assms(2) btree_ext show ?thesis unfolding Some by blast
qed

lemma replay_fast_forward:
  assumes "consecutive (b # bs)" "files = base_files b" "\<forall>x \<in> set (b # bs). btree_wf (base_files x) \<and> btree_wf (boundary_files x)"
  shows "\<exists>steps. replay_boundaries index (Existing (base_snapshot_id b)) files (b # bs) = Inr steps \<and>
    map reuse_snapshot_id steps = map (Some \<circ> boundary_snapshot_id) (b # bs) \<and> map step_files steps = map boundary_files (b # bs)"
  using assms
proof (induction bs arbitrary: b files index)
  case Nil
  then show ?case by (simp add: rebase_on_base)
next
  case (Cons c bs)
  have m: "merged_files (rebase_snapshot_files (base_files b) (boundary_files b) files) = Some (boundary_files b)"
    using Cons.prems(2,3) by (simp add: rebase_on_base)
  have "base_snapshot_id c = boundary_snapshot_id b" using Cons.prems(1) by simp
  with Cons.IH [of c "boundary_files b" "index + 1"] Cons.prems(1,3) obtain steps where
    "replay_boundaries (index + 1) (Existing (boundary_snapshot_id b)) (boundary_files b) (c # bs) = Inr steps"
    "map reuse_snapshot_id steps = map (Some \<circ> boundary_snapshot_id) (c # bs)" "map step_files steps = map boundary_files (c # bs)"
    by auto
  then show ?case by (simp add: m del: replay_boundaries.simps add: replay_boundaries.simps(2) [of index _ files b])
qed

text \<open>
  Replaying a history on its own base changes nothing.  When the target is the base of the first
  boundary and the history is valid, \<open>plan_snapshot_history_rebase\<close> never reports a conflict: every step
  reuses its source snapshot and has its tree.
\<close>

theorem replay_on_own_base_reuses:
  assumes "validate_boundaries target_id target_files {target_id} {} None None (b # bs) = Inr ()" "trim target_id \<noteq> []"
    and "base_snapshot_id b = target_id" "\<forall>x \<in> set (b # bs). btree_wf (base_files x) \<and> btree_wf (boundary_files x)"
  shows "\<exists>steps. plan_snapshot_history_rebase target_id target_files (b # bs) = Inr steps \<and>
    map reuse_snapshot_id steps = map (Some \<circ> boundary_snapshot_id) (b # bs) \<and> map step_files steps = map boundary_files (b # bs)"
proof -
  have "consecutive (b # bs)" using validate_consecutive [OF assms(1)] by simp
  moreover have "target_files = base_files b" using assms(1,3) by (auto simp: Let_def split: if_split_asm)
  ultimately show ?thesis
    using replay_fast_forward [of b bs target_files 0] assms by (simp add: plan_snapshot_history_rebase_def del: validate_boundaries.simps)
qed

theorem replay_on_own_base_reuses_witness:
  "\<exists>steps. plan_snapshot_history_rebase ''s0'' sample_base [sample_boundary] = Inr steps \<and>
    map reuse_snapshot_id steps = [Some ''s1''] \<and> map step_files steps = [sample_feature]"
proof -
  have "validate_boundaries ''s0'' sample_base {''s0''} {} None None [sample_boundary] = Inr ()"
    by (simp add: sample_boundary_def sample_ids)
  from replay_on_own_base_reuses [OF this] sample_ids sample_wf show ?thesis by (simp add: sample_boundary_def)
qed

end
