(* ===== verification/Snapshot_Merge.thy ===== *)
theory Snapshot_Merge
  imports Snapshot_Store
begin

text \<open>
  Merging texts line by line (\<open>snapshot_merge.rs\<close>).  The diff of two lists of lines is taken from a library
  and is a parameter; what the merge relies on is that its operations walk both lists from start to end.
\<close>

section \<open>Edits\<close>

datatype TextMergeOutcome = Merged bytes | Conflict | NonText

record TextEdit =
  edit_start :: nat
  edit_end :: nat
  replacement :: "bytes list"

datatype DiffOp =
    DiffEqual (old_index: nat) (new_index: nat) nat
  | DiffInsert (old_index: nat) (new_index: nat) nat
  | DiffDelete (old_index: nat) nat (new_index: nat)
  | DiffReplace (old_index: nat) nat (new_index: nat) nat

fun split_preserving_lines :: "bytes \<Rightarrow> bytes list" where
  "split_preserving_lines [] = []"
| "split_preserving_lines (b # text) =
     (if b = 10 then [b] # split_preserving_lines text
      else case split_preserving_lines text of [] \<Rightarrow> [[b]] | line # lines \<Rightarrow> (b # line) # lines)"

text \<open>Replacements of equal length are split into lines.\<close>

fun split_replacement :: "DiffOp \<Rightarrow> DiffOp list" where
  "split_replacement (DiffReplace old old_len new new_len) =
     (if old_len = new_len then map (\<lambda>k. DiffReplace (old + k) 1 (new + k) 1) [0..<old_len]
      else [DiffReplace old old_len new new_len])"
| "split_replacement op = [op]"

fun edit_of_op :: "bytes list \<Rightarrow> DiffOp \<Rightarrow> TextEdit option" where
  "edit_of_op side (DiffEqual old new len) = None"
| "edit_of_op side (DiffInsert old new new_len) =
     Some \<lparr>edit_start = old, edit_end = old, replacement = take new_len (drop new side)\<rparr>"
| "edit_of_op side (DiffDelete old old_len new) =
     Some \<lparr>edit_start = old, edit_end = old + old_len, replacement = []\<rparr>"
| "edit_of_op side (DiffReplace old old_len new new_len) =
     Some \<lparr>edit_start = old, edit_end = old + old_len, replacement = take new_len (drop new side)\<rparr>"

definition diff_edits ::
    "(bytes list \<Rightarrow> bytes list \<Rightarrow> DiffOp list) \<Rightarrow> bytes list \<Rightarrow> bytes list \<Rightarrow> TextEdit list" where
  "diff_edits capture_diff base side =
     List.map_filter (edit_of_op side) (concat (map split_replacement (capture_diff base side)))"

definition edits_overlap :: "TextEdit \<Rightarrow> TextEdit \<Rightarrow> bool" where
  "edits_overlap left right =
     (let left_insert = (edit_start left = edit_end left); right_insert = (edit_start right = edit_end right)
      in if left_insert \<and> right_insert then edit_start left = edit_start right
         else if left_insert then edit_start left \<ge> edit_start right \<and> edit_start left < edit_end right
         else if right_insert then edit_start right \<ge> edit_start left \<and> edit_start right < edit_end left
         else edit_start left < edit_end right \<and> edit_start right < edit_end left)"

text \<open>A source edit against the target edits: already there, in conflict, or new.\<close>

datatype edit_check = Duplicate | Overlapping | Fresh

fun check_edit :: "TextEdit list \<Rightarrow> TextEdit \<Rightarrow> edit_check" where
  "check_edit [] s = Fresh"
| "check_edit (t # ts) s = (if t = s then Duplicate else if edits_overlap t s then Overlapping else check_edit ts s)"

fun join_edits :: "TextEdit list \<Rightarrow> TextEdit list \<Rightarrow> TextEdit list option" where
  "join_edits target_edits [] = Some target_edits"
| "join_edits target_edits (s # source_edits) =
     (case check_edit target_edits s of
        Duplicate \<Rightarrow> join_edits target_edits source_edits
      | Overlapping \<Rightarrow> None
      | Fresh \<Rightarrow> join_edits (target_edits @ [s]) source_edits)"

definition edit_key :: "TextEdit \<Rightarrow> nat \<times> nat \<times> bytes list" where
  "edit_key e = (edit_start e, edit_end e, replacement e)"

definition splice_lines :: "TextEdit \<Rightarrow> bytes list \<Rightarrow> bytes list" where
  "splice_lines e lines = take (edit_start e) lines @ replacement e @ drop (edit_end e) lines"

definition apply_edits :: "TextEdit list \<Rightarrow> bytes list \<Rightarrow> bytes list" where
  "apply_edits edits lines = fold splice_lines (rev (sort_key edit_key edits)) lines"

definition merge_utf8_text_bytes ::
    "(bytes list \<Rightarrow> bytes list \<Rightarrow> DiffOp list) \<Rightarrow> bytes \<Rightarrow> bytes \<Rightarrow> bytes \<Rightarrow> TextMergeOutcome" where
  "merge_utf8_text_bytes capture_diff base target source =
     (if 0 \<in> set base \<or> 0 \<in> set target \<or> 0 \<in> set source then NonText
      else if \<not> (utf8_valid base \<and> utf8_valid target \<and> utf8_valid source) then NonText
      else if target = source then Merged target
      else if target = base then Merged source
      else if source = base then Merged target
      else
        let base_lines = split_preserving_lines base;
            target_edits = diff_edits capture_diff base_lines (split_preserving_lines target);
            source_edits = diff_edits capture_diff base_lines (split_preserving_lines source)
        in case join_edits target_edits source_edits of
             None \<Rightarrow> Conflict
           | Some edits \<Rightarrow> Merged (concat (apply_edits edits base_lines)))"

section \<open>The contract of the diff\<close>

text \<open>
  The operations start at the beginning of both lists, each begins where the one before it ended, they
  reach both ends, equal stretches are equal, and two changes never meet: a change next to another is one
  replacement.
\<close>

fun diff_walks :: "DiffOp list \<Rightarrow> nat \<Rightarrow> nat \<Rightarrow> bool \<Rightarrow> bytes list \<Rightarrow> bytes list \<Rightarrow> bool" where
  "diff_walks [] i j changed base side \<longleftrightarrow> i = length base \<and> j = length side"
| "diff_walks (DiffEqual old new n # ops) i j changed base side \<longleftrightarrow>
     old = i \<and> new = j \<and> 0 < n \<and> i + n \<le> length base \<and> j + n \<le> length side \<and>
     take n (drop i base) = take n (drop j side) \<and> diff_walks ops (i + n) (j + n) False base side"
| "diff_walks (DiffInsert old new n # ops) i j changed base side \<longleftrightarrow>
     \<not> changed \<and> old = i \<and> new = j \<and> 0 < n \<and> j + n \<le> length side \<and> diff_walks ops i (j + n) True base side"
| "diff_walks (DiffDelete old n new # ops) i j changed base side \<longleftrightarrow>
     \<not> changed \<and> old = i \<and> new = j \<and> 0 < n \<and> i + n \<le> length base \<and> diff_walks ops (i + n) j True base side"
| "diff_walks (DiffReplace old n new m # ops) i j changed base side \<longleftrightarrow>
     \<not> changed \<and> old = i \<and> new = j \<and> 0 < n \<and> 0 < m \<and> i + n \<le> length base \<and> j + m \<le> length side \<and>
     diff_walks ops (i + n) (j + m) True base side"

end
