(* ===== verification/Merge_Properties.thy ===== *)
theory Merge_Properties
  imports Snapshot_Merge
begin

text \<open>Text merges: edits rebuild their side, and the two sides of a merge are treated alike.\<close>

section \<open>Edits of one side\<close>

text \<open>The edits of a side lie one after the other.\<close>

definition edit_before :: "TextEdit \<Rightarrow> TextEdit \<Rightarrow> bool" where
  "edit_before a b \<longleftrightarrow> edit_start a < edit_start b \<and> edit_end a \<le> edit_start b"

lemma edit_before_disjoint: "edit_before a b \<Longrightarrow> \<not> edits_overlap a b"
  by (auto simp: edit_before_def edits_overlap_def Let_def)

lemma edits_overlap_sym: "edits_overlap a b \<longleftrightarrow> edits_overlap b a"
  by (auto simp: edits_overlap_def Let_def)

definition op_edits :: "bytes list \<Rightarrow> DiffOp list \<Rightarrow> TextEdit list" where
  "op_edits side ops = List.map_filter (edit_of_op side) (concat (map split_replacement ops))"

lemma op_edits_Nil [simp]: "op_edits side [] = []"
  by (simp add: op_edits_def map_filter_simps)

lemma map_filter_append: "List.map_filter f (xs @ ys) = List.map_filter f xs @ List.map_filter f ys"
  by (simp add: List.map_filter_def)

lemma op_edits_Cons: "op_edits side (op # ops) = List.map_filter (edit_of_op side) (split_replacement op) @ op_edits side ops"
  by (simp add: op_edits_def map_filter_append)

definition line_edit :: "bytes list \<Rightarrow> nat \<Rightarrow> nat \<Rightarrow> TextEdit" where
  "line_edit side i j = \<lparr>edit_start = i, edit_end = Suc i, replacement = take 1 (drop j side)\<rparr>"

lemma split_edits: "List.map_filter (edit_of_op side) (split_replacement (DiffReplace i n j n)) = map (\<lambda>k. line_edit side (i + k) (j + k)) [0..<n]"
  by (simp add: List.map_filter_def line_edit_def o_def)

lemma op_edits_order:
  "diff_walks ops i j changed base side \<Longrightarrow> sorted_wrt edit_before (op_edits side ops) \<and>
    (\<forall>e \<in> set (op_edits side ops). i \<le> edit_start e \<and> (changed \<longrightarrow> i < edit_start e) \<and> edit_start e \<le> edit_end e)"
proof (induction ops arbitrary: i j changed)
  case (Cons op ops)
  show ?case
  proof (cases op)
    case (DiffEqual old new n)
    with Cons show ?thesis by (fastforce simp: op_edits_Cons map_filter_simps)
  next
    case (DiffInsert old new n)
    with Cons.prems Cons.IH [of i "j + n" True] show ?thesis by (auto simp: op_edits_Cons map_filter_simps edit_before_def)
  next
    case (DiffDelete old n new)
    with Cons.prems Cons.IH [of "i + n" j True] have "sorted_wrt edit_before (op_edits side ops)"
      and later: "\<forall>e \<in> set (op_edits side ops). i + n < edit_start e \<and> edit_start e \<le> edit_end e" by auto
    moreover from later have "\<forall>e \<in> set (op_edits side ops). edit_before \<lparr>edit_start = i, edit_end = i + n, replacement = []\<rparr> e"
      by (auto simp: edit_before_def)
    ultimately show ?thesis using Cons.prems DiffDelete by (fastforce simp: op_edits_Cons map_filter_simps)
  next
    case (DiffReplace old n new m)
    with Cons.prems have here: "\<not> changed" "old = i" "new = j" "0 < n" and rest: "diff_walks ops (i + n) (j + m) True base side" by auto
    note IH = Cons.IH [OF rest]
    show ?thesis
    proof (cases "n = m")
      case False
      with IH here DiffReplace show ?thesis by (fastforce simp: op_edits_Cons map_filter_simps edit_before_def)
    next
      case True
      have "sorted_wrt edit_before (map (\<lambda>k. line_edit side (i + k) (j + k)) [0..<n])"
        by (simp add: sorted_wrt_map edit_before_def line_edit_def sorted_wrt_upt [THEN sorted_wrt_mono_rel [rotated]])
      moreover have "op_edits side (op # ops) = map (\<lambda>k. line_edit side (i + k) (j + k)) [0..<n] @ op_edits side ops"
        unfolding op_edits_Cons DiffReplace here True [symmetric] split_edits ..
      moreover have "edit_before (line_edit side (i + k) (j + k)) e" if "k < n" "e \<in> set (op_edits side ops)" for k e
        using IH that by (fastforce simp: edit_before_def line_edit_def)
      ultimately show ?thesis using IH here by (auto simp: sorted_wrt_append line_edit_def)
    qed
  qed
qed simp

text \<open>Applied from the last to the first, the edits of a side turn the base into that side.\<close>

lemma splice_lines_replace:
  "j + m \<le> length side \<Longrightarrow> i + n \<le> length base \<Longrightarrow>
    splice_lines \<lparr>edit_start = i, edit_end = i + n, replacement = take m (drop j side)\<rparr> (take (i + n) base @ drop (j + m) side) = take i base @ drop j side"
proof -
  assume *: "j + m \<le> length side" "i + n \<le> length base"
  have "take m (drop j side) @ drop (j + m) side = drop j side" by (metis append_take_drop_id drop_drop add.commute)
  with * show ?thesis by (simp add: splice_lines_def min_def)
qed

lemma splice_line_edits:
  "i + n \<le> length base \<Longrightarrow> j + n \<le> length side \<Longrightarrow>
    fold splice_lines (rev (map (\<lambda>k. line_edit side (i + k) (j + k)) [0..<n])) (take (i + n) base @ drop (j + n) side) = take i base @ drop j side"
proof (induction n)
  case (Suc n)
  have "splice_lines (line_edit side (i + n) (j + n)) (take (i + Suc n) base @ drop (j + Suc n) side) = take (i + n) base @ drop (j + n) side"
    using splice_lines_replace [of "j + n" 1 side "i + n" 1 base] Suc.prems by (simp add: line_edit_def)
  with Suc show ?case by simp
qed simp

lemma diff_walks_bound: "diff_walks ops i j changed base side \<Longrightarrow> i \<le> length base \<and> j \<le> length side"
  by (induction ops i j changed base side rule: diff_walks.induct) auto

lemma op_edits_rebuild:
  "diff_walks ops i j changed base side \<Longrightarrow> fold splice_lines (rev (op_edits side ops)) base = take i base @ drop j side"
proof (induction ops arbitrary: i j changed)
  case (Cons op ops)
  show ?case
  proof (cases op)
    case (DiffEqual old new n)
    with Cons have "fold splice_lines (rev (op_edits side (op # ops))) base = take (i + n) base @ drop (j + n) side"
      by (auto simp: op_edits_Cons map_filter_simps)
    also have "\<dots> = take i base @ take n (drop i base) @ drop (j + n) side" by (simp add: take_add)
    also have "take n (drop i base) = take n (drop j side)" using Cons.prems DiffEqual by simp
    also have "take n (drop j side) @ drop (j + n) side = drop j side" by (metis append_take_drop_id drop_drop add.commute)
    finally show ?thesis .
  next
    case (DiffInsert old new n)
    with Cons.prems Cons.IH [of i "j + n" True] splice_lines_replace [of j n side i 0 base] diff_walks_bound [OF Cons.prems] show ?thesis
      by (simp add: op_edits_Cons map_filter_simps)
  next
    case (DiffDelete old n new)
    with Cons.prems Cons.IH [of "i + n" j True] splice_lines_replace [of j 0 side i n base] diff_walks_bound [OF Cons.prems] show ?thesis
      by (simp add: op_edits_Cons map_filter_simps)
  next
    case (DiffReplace old n new m)
    with Cons.prems have here: "old = i" "new = j" "i + n \<le> length base" "j + m \<le> length side"
      and rest: "fold splice_lines (rev (op_edits side ops)) base = take (i + n) base @ drop (j + m) side"
      using Cons.IH [of "i + n" "j + m" True] by auto
    show ?thesis
    proof (cases "n = m")
      case True
      have "op_edits side (op # ops) = map (\<lambda>k. line_edit side (i + k) (j + k)) [0..<n] @ op_edits side ops"
        unfolding op_edits_Cons DiffReplace here(1,2) True [symmetric] split_edits ..
      then show ?thesis using rest here splice_line_edits [of i n base j side] True by simp
    next
      case False
      then show ?thesis using rest here splice_lines_replace [of j m side i n base] by (simp add: op_edits_Cons DiffReplace map_filter_simps)
    qed
  qed
qed simp

lemma concat_split_lines [simp]: "concat (split_preserving_lines bs) = bs"
proof (induction bs)
  case (Cons b bs)
  then show ?case by (cases "split_preserving_lines bs") auto
qed simp

section \<open>Joining the edits of two sides\<close>

definition separate :: "TextEdit set \<Rightarrow> bool" where
  "separate A \<longleftrightarrow> (\<forall>a \<in> A. \<forall>b \<in> A. a \<noteq> b \<longrightarrow> \<not> edits_overlap a b)"

lemma sorted_edits_separate: "sorted_wrt edit_before es \<Longrightarrow> separate (set es) \<and> distinct es"
proof (induction es)
  case (Cons e es)
  then have "\<not> edits_overlap e f \<and> \<not> edits_overlap f e \<and> e \<noteq> f" if "f \<in> set es" for f
    using that edit_before_disjoint edits_overlap_sym [of e f] by (fastforce simp: edit_before_def)
  with Cons show ?case by (auto simp: separate_def)
qed (simp add: separate_def)

lemma check_edit_separate:
  assumes "separate (set ts)"
  shows "check_edit ts s = (if s \<in> set ts then Duplicate else if \<exists>t \<in> set ts. edits_overlap t s then Overlapping else Fresh)"
  using assms by (induction ts) (auto simp: separate_def)

definition joinable :: "TextEdit set \<Rightarrow> TextEdit set \<Rightarrow> bool" where
  "joinable T S \<longleftrightarrow> (\<forall>t \<in> T. \<forall>s \<in> S. t \<noteq> s \<longrightarrow> \<not> edits_overlap t s)"

lemma joinable_sym: "joinable T S \<longleftrightarrow> joinable S T"
  using edits_overlap_sym unfolding joinable_def by metis

lemma join_edits_run:
  assumes "separate (set ts)" "separate (set ss)" "distinct ts"
  shows "if joinable (set ts) (set ss) then \<exists>us. join_edits ts ss = Some us \<and> distinct us \<and> set us = set ts \<union> set ss else join_edits ts ss = None"
  using assms
proof (induction ss arbitrary: ts)
  case (Cons s ss)
  have ss: "separate (set ss)" using Cons.prems(2) by (auto simp: separate_def)
  note check = check_edit_separate [OF Cons.prems(1), of s]
  consider "s \<in> set ts" | "s \<notin> set ts" "\<exists>t \<in> set ts. edits_overlap t s" | "s \<notin> set ts" "\<forall>t \<in> set ts. \<not> edits_overlap t s" by blast
  then show ?case
  proof cases
    case 1
    then have "joinable (set ts) (set (s # ss)) \<longleftrightarrow> joinable (set ts) (set ss)"
      using Cons.prems(1) by (auto simp: joinable_def separate_def)
    with Cons.IH [OF Cons.prems(1) ss Cons.prems(3)] check 1 show ?thesis by (auto simp: insert_absorb)
  next
    case 2
    then have "\<not> joinable (set ts) (set (s # ss))" by (auto simp: joinable_def)
    with check 2 show ?thesis by simp
  next
    case 3
    have sep: "separate (set (ts @ [s]))" using Cons.prems(1) 3 edits_overlap_sym unfolding separate_def by auto
    moreover have "joinable (set (ts @ [s])) (set ss) \<longleftrightarrow> joinable (set ts) (set (s # ss))"
      using 3 Cons.prems(2) by (auto simp: joinable_def separate_def)
    moreover have "check_edit ts s = Fresh" using check 3 by auto
    ultimately show ?thesis using Cons.IH [OF sep ss] Cons.prems(3) 3 by (auto split: if_split_asm)
  qed
qed (auto simp: joinable_def)

lemma edit_key_inj: "inj edit_key"
  by (rule injI) (simp add: edit_key_def)

lemma apply_edits_set:
  assumes "set us = set vs" "distinct us" "distinct vs"
  shows "apply_edits us lines = apply_edits vs lines"
proof -
  have inj: "inj_on edit_key A" for A using edit_key_inj by (rule inj_on_subset) simp
  have "sort_key edit_key us = sort_key edit_key vs"
    using assms by (intro map_sorted_distinct_set_unique [of edit_key]) (simp_all add: inj distinct_map)
  then show ?thesis by (simp add: apply_edits_def)
qed

lemma join_edits_apply_sym:
  assumes "separate (set ts)" "separate (set ss)" "distinct ts" "distinct ss"
  shows "map_option (\<lambda>us. apply_edits us lines) (join_edits ts ss) = map_option (\<lambda>us. apply_edits us lines) (join_edits ss ts)"
proof (cases "joinable (set ts) (set ss)")
  case True
  then obtain us vs where "join_edits ts ss = Some us" "distinct us" "set us = set ts \<union> set ss"
      "join_edits ss ts = Some vs" "distinct vs" "set vs = set ss \<union> set ts"
    using join_edits_run [OF assms(1,2,3)] join_edits_run [OF assms(2,1,4)] joinable_sym by auto
  then show ?thesis using apply_edits_set [of us vs lines] by (simp add: Un_commute)
next
  case False
  then show ?thesis using join_edits_run [OF assms(1,2,3)] join_edits_run [OF assms(2,1,4)] joinable_sym by auto
qed

lemma apply_edits_sorted:
  assumes "sorted_wrt edit_before es"
  shows "apply_edits es lines = fold splice_lines (rev es) lines"
proof -
  have "sorted (map edit_key es)"
    unfolding sorted_map using assms by (rule sorted_wrt_mono_rel [rotated]) (simp add: edit_before_def edit_key_def less_eq_prod_def)
  then have "sort_key edit_key es = es" by (simp add: sort_key_id_if_sorted)
  then show ?thesis by (simp add: apply_edits_def)
qed

definition is_text :: "bytes \<Rightarrow> bool" where
  "is_text bs \<longleftrightarrow> 0 \<notin> set bs \<and> utf8_valid bs"

text \<open>What remains of the merge of three texts that differ from each other.\<close>

lemma merge_text:
  assumes "is_text base" "is_text target" "is_text source"
  shows "merge_utf8_text_bytes diff base target source =
    (if target = source then Merged target else if target = base then Merged source else if source = base then Merged target
     else case join_edits (diff_edits diff (split_preserving_lines base) (split_preserving_lines target))
            (diff_edits diff (split_preserving_lines base) (split_preserving_lines source)) of
          None \<Rightarrow> Conflict | Some us \<Rightarrow> Merged (concat (apply_edits us (split_preserving_lines base))))"
  using assms by (simp add: merge_utf8_text_bytes_def is_text_def Let_def)

lemma merge_non_text:
  "merge_utf8_text_bytes diff base target source = NonText \<longleftrightarrow> \<not> (is_text base \<and> is_text target \<and> is_text source)"
  by (auto simp: merge_utf8_text_bytes_def is_text_def Let_def split: option.splits)

lemma absorbed_edits:
  assumes "diff_walks (diff (split_preserving_lines base) (split_preserving_lines target)) 0 0 False
      (split_preserving_lines base) (split_preserving_lines target)"
    and "sorted_wrt edit_before ss"
    and sub: "set ss \<subseteq> set (diff_edits diff (split_preserving_lines base) (split_preserving_lines target))"
  shows "\<exists>us. join_edits (diff_edits diff (split_preserving_lines base) (split_preserving_lines target)) ss = Some us \<and>
    concat (apply_edits us (split_preserving_lines base)) = target"
proof -
  let ?B = "split_preserving_lines base" and ?T = "split_preserving_lines target"
  let ?ts = "diff_edits diff ?B ?T"
  have op: "?ts = op_edits ?T (diff ?B ?T)" by (simp add: diff_edits_def op_edits_def)
  have ts: "sorted_wrt edit_before ?ts" using op_edits_order [OF assms(1)] by (simp add: op)
  note st = sorted_edits_separate [OF ts] and ss' = sorted_edits_separate [OF assms(2)]
  have "joinable (set ?ts) (set ss)" using sub st unfolding joinable_def separate_def by blast
  with join_edits_run [of ?ts ss] st ss' sub obtain us where us: "join_edits ?ts ss = Some us" "distinct us" "set us = set ?ts" by auto
  have "apply_edits us ?B = apply_edits ?ts ?B" using us st by (intro apply_edits_set) auto
  also have "\<dots> = ?T" unfolding apply_edits_sorted [OF ts] using op_edits_rebuild [OF assms(1)] by (simp add: op)
  finally show ?thesis using us(1) by simp
qed

text \<open>
  C36. What a text merge returns, when the diffs of both sides walk over the lines as they should.  The
  outcome is non-text exactly when one of the three inputs has a zero byte or is not valid UTF-8.  The two
  sides are treated alike: exchanging target and source does not change the outcome.  For texts: a target
  equal to the base gives the source; a target that differs from the base and has every edit of the source
  among its own edits is returned as it is; and the outcome is a conflict exactly when the three texts
  differ from each other and an edit of one side overlaps a different edit of the other.
\<close>

theorem text_merge_is_symmetric:
  assumes "diff_walks (diff (split_preserving_lines base) (split_preserving_lines target)) 0 0 False
      (split_preserving_lines base) (split_preserving_lines target)"
    and "diff_walks (diff (split_preserving_lines base) (split_preserving_lines source)) 0 0 False
      (split_preserving_lines base) (split_preserving_lines source)"
  shows "let outcome = merge_utf8_text_bytes diff base target source;
      target_edits = set (diff_edits diff (split_preserving_lines base) (split_preserving_lines target));
      source_edits = set (diff_edits diff (split_preserving_lines base) (split_preserving_lines source))
    in outcome = merge_utf8_text_bytes diff base source target \<and>
      (outcome = NonText \<longleftrightarrow> \<not> (is_text base \<and> is_text target \<and> is_text source)) \<and>
      (is_text base \<and> is_text target \<and> is_text source \<longrightarrow>
         (target = base \<longrightarrow> outcome = Merged source) \<and>
         (target \<noteq> base \<and> source_edits \<subseteq> target_edits \<longrightarrow> outcome = Merged target) \<and>
         (outcome = Conflict \<longleftrightarrow> target \<noteq> source \<and> target \<noteq> base \<and> source \<noteq> base \<and>
            (\<exists>t \<in> target_edits. \<exists>s \<in> source_edits. t \<noteq> s \<and> edits_overlap t s)))"
proof -
  let ?B = "split_preserving_lines base" and ?T = "split_preserving_lines target" and ?S = "split_preserving_lines source"
  let ?ts = "diff_edits diff ?B ?T" and ?ss = "diff_edits diff ?B ?S"
  have op: "diff_edits diff ?B X = op_edits X (diff ?B X)" for X by (simp add: diff_edits_def op_edits_def)
  have ts: "sorted_wrt edit_before ?ts" using op_edits_order [OF assms(1)] by (simp add: op)
  have ss: "sorted_wrt edit_before ?ss" using op_edits_order [OF assms(2)] by (simp add: op)
  note st = sorted_edits_separate [OF ts] and ss' = sorted_edits_separate [OF ss]
  have "(case join_edits ?ts ?ss of None \<Rightarrow> Conflict | Some us \<Rightarrow> Merged (concat (apply_edits us ?B))) =
      (case join_edits ?ss ?ts of None \<Rightarrow> Conflict | Some us \<Rightarrow> Merged (concat (apply_edits us ?B)))"
    using join_edits_apply_sym [of ?ts ?ss ?B] st ss' by (cases "join_edits ?ts ?ss"; cases "join_edits ?ss ?ts") auto
  then have sym: "merge_utf8_text_bytes diff base target source = merge_utf8_text_bytes diff base source target"
    by (auto simp: merge_utf8_text_bytes_def Let_def)
  have clash: "join_edits ?ts ?ss = None \<longleftrightarrow> (\<exists>t \<in> set ?ts. \<exists>s \<in> set ?ss. t \<noteq> s \<and> edits_overlap t s)"
    using join_edits_run [of ?ts ?ss] st ss' by (auto simp: joinable_def split: if_split_asm)
  have absorbed: "merge_utf8_text_bytes diff base target source = Merged target"
    if "is_text base" "is_text target" "is_text source" "target \<noteq> base" "set ?ss \<subseteq> set ?ts"
    using absorbed_edits [OF assms(1) ss that(5)] that(4) by (auto simp: merge_text [OF that(1-3)])
  show ?thesis
    unfolding Let_def merge_non_text
    using sym absorbed clash by (auto simp: merge_text split: option.splits)
qed

text \<open>Two lines, the first changed by one side and the second by the other.\<close>

definition sample_diff :: "bytes list \<Rightarrow> bytes list \<Rightarrow> DiffOp list" where
  "sample_diff base side =
     (if hd side = hd base then [DiffEqual 0 0 1, DiffReplace 1 1 1 1] else [DiffReplace 0 1 0 1, DiffEqual 1 1 1])"

theorem text_merge_is_symmetric_witness:
  "merge_utf8_text_bytes sample_diff [97, 10, 98, 10] [65, 10, 98, 10] [97, 10, 66, 10] = Merged [65, 10, 66, 10] \<and>
    merge_utf8_text_bytes sample_diff [97, 10, 98, 10] [97, 10, 66, 10] [65, 10, 98, 10] = Merged [65, 10, 66, 10] \<and>
    is_text [97, 10, 98, 10] \<and> is_text [65, 10, 98, 10] \<and> is_text [97, 10, 66, 10]"
proof -
  let ?b = "[97, 10, 98, 10] :: bytes" and ?t = "[65, 10, 98, 10] :: bytes" and ?s = "[97, 10, 66, 10] :: bytes"
  have lines: "split_preserving_lines ?b = [[97, 10], [98, 10]]"
    "split_preserving_lines ?t = [[65, 10], [98, 10]]" "split_preserving_lines ?s = [[97, 10], [66, 10]]"
    by simp_all
  have run: "merge_utf8_text_bytes sample_diff ?b ?t ?s = Merged [65, 10, 66, 10]" by code_simp
  have "diff_walks (sample_diff [[97, 10], [98, 10]] [[65, 10], [98, 10]]) 0 0 False [[97, 10], [98, 10]] [[65, 10], [98, 10]]"
    "diff_walks (sample_diff [[97, 10], [98, 10]] [[97, 10], [66, 10]]) 0 0 False [[97, 10], [98, 10]] [[97, 10], [66, 10]]"
    by (simp_all add: sample_diff_def)
  then have "merge_utf8_text_bytes sample_diff ?b ?t ?s = merge_utf8_text_bytes sample_diff ?b ?s ?t \<and>
      (merge_utf8_text_bytes sample_diff ?b ?t ?s = NonText \<longleftrightarrow> \<not> (is_text ?b \<and> is_text ?t \<and> is_text ?s))"
    using text_merge_is_symmetric [of sample_diff ?b ?t ?s] unfolding lines Let_def by blast
  with run show ?thesis by (metis TextMergeOutcome.distinct(3))
qed

end
