(* ===== verification/Admission_Wait.thy ===== *)
theory Admission_Wait
  imports Ait_Prelude
begin

text \<open>
  Waiting for the server to admit a finish (\<open>workflow_admission.rs\<close>): progress facts, and the tracker that
  measures how long no real progress was seen.  An instant and a duration are numbers of time units; the
  parser of timestamps and the reader of JSON values are parameters.
\<close>

section \<open>Progress\<close>

record UpgradeHealth =
  health_ready :: bool
  health_phase :: "string option"
  health_processed :: "nat option"
  health_total :: "nat option"
  health_last_progress_at :: "string option"

datatype health_error =
    RequiresReady | RequiresNullableText string | RequiresNullableCount string | MissingField string
  | InvalidLastProgressAt | LastProgressAtNotUtc

record 'v json_reader =
  json_index :: "'v \<Rightarrow> string \<Rightarrow> 'v"
  json_get :: "'v \<Rightarrow> string \<Rightarrow> 'v option"
  json_is_null :: "'v \<Rightarrow> bool"
  json_as_bool :: "'v \<Rightarrow> bool option"
  json_as_str :: "'v \<Rightarrow> string option"
  json_as_u64 :: "'v \<Rightarrow> nat option"

definition nullable_text :: "'v json_reader \<Rightarrow> 'v \<Rightarrow> string \<Rightarrow> health_error + string option" where
  "nullable_text js value field =
     (case json_get js value field of
        None \<Rightarrow> Inl (RequiresNullableText field)
      | Some v \<Rightarrow>
          if json_is_null js v then Inr None
          else case json_as_str js v of
                 Some text \<Rightarrow> if text \<noteq> [] then Inr (Some text) else Inl (RequiresNullableText field)
               | None \<Rightarrow> Inl (RequiresNullableText field))"

definition nullable_count :: "'v json_reader \<Rightarrow> 'v \<Rightarrow> string \<Rightarrow> health_error + nat option" where
  "nullable_count js value field =
     (case json_get js value field of
        None \<Rightarrow> Inl (MissingField field)
      | Some v \<Rightarrow>
          if json_is_null js v then Inr None
          else case json_as_u64 js v of
                 Some n \<Rightarrow> Inr (Some n)
               | None \<Rightarrow> Inl (RequiresNullableCount field))"

definition check_last_progress_at :: "(string \<Rightarrow> (int \<times> int) option) \<Rightarrow> string option \<Rightarrow> health_error + unit" where
  "check_last_progress_at parse_rfc3339 last_progress_at =
     (case last_progress_at of
        None \<Rightarrow> Inr ()
      | Some timestamp \<Rightarrow>
          (case parse_rfc3339 timestamp of
             None \<Rightarrow> Inl InvalidLastProgressAt
           | Some (offset, micros) \<Rightarrow> if offset \<noteq> 0 then Inl LastProgressAtNotUtc else Inr ()))"

definition from_value ::
    "'v json_reader \<Rightarrow> (string \<Rightarrow> (int \<times> int) option) \<Rightarrow> 'v \<Rightarrow> health_error + UpgradeHealth" where
  "from_value js parse_rfc3339 value =
     (case json_as_bool js (json_index js value ''ready'') of
        None \<Rightarrow> Inl RequiresReady
      | Some ready \<Rightarrow>
     (case nullable_text js value ''last_progress_at'' of Inl e \<Rightarrow> Inl e | Inr last_progress_at \<Rightarrow>
     (case check_last_progress_at parse_rfc3339 last_progress_at of Inl e \<Rightarrow> Inl e | Inr _ \<Rightarrow>
     (case nullable_text js value ''phase'' of Inl e \<Rightarrow> Inl e | Inr phase \<Rightarrow>
     (case nullable_count js value ''processed'' of Inl e \<Rightarrow> Inl e | Inr processed \<Rightarrow>
     (case nullable_count js value ''total'' of Inl e \<Rightarrow> Inl e | Inr total_count \<Rightarrow>
        Inr \<lparr>health_ready = ready, health_phase = phase, health_processed = processed,
             health_total = total_count, health_last_progress_at = last_progress_at\<rparr>))))))"

record UpgradeProgress =
  progress_phase :: string
  progress_processed :: nat
  progress_total :: "nat option"
  progress_sequence :: "nat option"

definition health_progress :: "(string \<Rightarrow> (int \<times> int) option) \<Rightarrow> UpgradeHealth \<Rightarrow> UpgradeProgress option" where
  "health_progress parse_rfc3339 health =
     Option.bind (health_phase health) (\<lambda>phase.
     Option.bind (health_processed health) (\<lambda>processed.
       Some \<lparr>progress_phase = phase, progress_processed = processed, progress_total = health_total health,
             progress_sequence =
               Option.bind (health_last_progress_at health) (\<lambda>text.
               Option.bind (parse_rfc3339 text) (\<lambda>(offset, micros).
                 if 0 \<le> micros then Some (nat micros) else None))\<rparr>))"

datatype FinishAdmissionObservation =
    ObsAdmitted | ObsUpgrading UpgradeProgress | ObsProgressUnavailable | ObsTransportDisconnected

record UpgradeWaitState =
  wait_progress :: UpgradeProgress
  wait_elapsed :: nat
  wait_idle_for :: nat
  wait_stalled :: bool

datatype FinishAdmissionWaitState =
    WaitAdmitted | WaitUpgrading UpgradeWaitState
  | WaitTransportDisconnected nat nat | WaitProgressUnavailable nat nat

section \<open>The tracker\<close>

record FinishAdmissionTracker =
  started_at :: nat
  last_observed_at :: nat
  last_progress_at :: nat
  stall_after :: nat
  processed_by_phase :: "string \<rightharpoonup> nat"
  tracked_sequence :: "nat option"

definition new_tracker :: "nat \<Rightarrow> nat \<Rightarrow> FinishAdmissionTracker" where
  "new_tracker now stall =
     \<lparr>started_at = now, last_observed_at = now, last_progress_at = now, stall_after = stall,
      processed_by_phase = Map.empty, tracked_sequence = None\<rparr>"

definition advance_count :: "UpgradeProgress \<Rightarrow> FinishAdmissionTracker \<Rightarrow> bool \<times> FinishAdmissionTracker" where
  "advance_count p t =
     (let raised = t\<lparr>processed_by_phase := (processed_by_phase t)(progress_phase p \<mapsto> progress_processed p)\<rparr>
      in case processed_by_phase t (progress_phase p) of
           Some high_water \<Rightarrow> if progress_processed p > high_water then (True, raised) else (False, t)
         | None \<Rightarrow> (True, raised))"

definition advance_sequence :: "UpgradeProgress \<Rightarrow> FinishAdmissionTracker \<Rightarrow> bool \<times> FinishAdmissionTracker" where
  "advance_sequence p t =
     (case (tracked_sequence t, progress_sequence p) of
        (Some before, Some after) \<Rightarrow> if after > before then (True, t\<lparr>tracked_sequence := Some after\<rparr>) else (False, t)
      | (None, Some sequence) \<Rightarrow> (False, t\<lparr>tracked_sequence := Some sequence\<rparr>)
      | (_, None) \<Rightarrow> (False, t))"

definition observe ::
    "nat \<Rightarrow> FinishAdmissionObservation \<Rightarrow> FinishAdmissionTracker \<Rightarrow> FinishAdmissionWaitState \<times> FinishAdmissionTracker" where
  "observe now observation t =
     (let now = max now (last_observed_at t);
          t = t\<lparr>last_observed_at := now\<rparr>;
          elapsed = now - started_at t
      in case observation of
           ObsAdmitted \<Rightarrow> (WaitAdmitted, t)
         | ObsTransportDisconnected \<Rightarrow> (WaitTransportDisconnected elapsed (now - last_progress_at t), t)
         | ObsProgressUnavailable \<Rightarrow> (WaitProgressUnavailable elapsed (now - last_progress_at t), t)
         | ObsUpgrading p \<Rightarrow>
             (let (advanced_count, t) = advance_count p t;
                  (advanced_sequence, t) = advance_sequence p t;
                  t = (if advanced_count \<or> advanced_sequence then t\<lparr>last_progress_at := now\<rparr> else t);
                  idle_for = now - last_progress_at t
              in (WaitUpgrading \<lparr>wait_progress = p, wait_elapsed = elapsed, wait_idle_for = idle_for,
                    wait_stalled = (idle_for \<ge> stall_after t)\<rparr>, t)))"

section \<open>What counts as progress\<close>

text \<open>
  The specification reads the observations themselves, newest first: work has advanced when a phase
  reports more than ever before, or a progress sequence exceeds all earlier ones.
\<close>

type_synonym observations = "(nat \<times> FinishAdmissionObservation) list"

definition upgrades :: "observations \<Rightarrow> UpgradeProgress set" where
  "upgrades h = {p. \<exists>t. (t, ObsUpgrading p) \<in> set h}"

definition advances :: "observations \<Rightarrow> UpgradeProgress \<Rightarrow> bool" where
  "advances h p \<longleftrightarrow>
     (\<forall>q \<in> upgrades h. progress_phase q = progress_phase p \<longrightarrow> progress_processed q < progress_processed p) \<or>
     (\<exists>s. progress_sequence p = Some s \<and> (\<exists>q \<in> upgrades h. progress_sequence q \<noteq> None) \<and>
       (\<forall>q \<in> upgrades h. \<forall>r. progress_sequence q = Some r \<longrightarrow> r < s))"

fun effective_time :: "nat \<Rightarrow> observations \<Rightarrow> nat" where
  "effective_time start [] = start"
| "effective_time start ((t, ob) # h) = max t (effective_time start h)"

fun idle_since :: "nat \<Rightarrow> observations \<Rightarrow> nat" where
  "idle_since start [] = start"
| "idle_since start ((t, ob) # h) =
     (case ob of
        ObsUpgrading p \<Rightarrow> if advances h p then effective_time start ((t, ob) # h) else idle_since start h
      | _ \<Rightarrow> idle_since start h)"

fun track :: "observations \<Rightarrow> FinishAdmissionTracker \<Rightarrow> FinishAdmissionTracker" where
  "track [] tr = tr"
| "track ((t, ob) # h) tr = snd (observe t ob (track h tr))"

section \<open>The tracker measures it\<close>

definition high_water :: "observations \<Rightarrow> string \<Rightarrow> nat option \<Rightarrow> bool" where
  "high_water h phase m \<longleftrightarrow>
     (case m of
        None \<Rightarrow> \<forall>q \<in> upgrades h. progress_phase q \<noteq> phase
      | Some n \<Rightarrow> (\<exists>q \<in> upgrades h. progress_phase q = phase \<and> progress_processed q = n) \<and>
          (\<forall>q \<in> upgrades h. progress_phase q = phase \<longrightarrow> progress_processed q \<le> n))"

definition high_sequence :: "observations \<Rightarrow> nat option \<Rightarrow> bool" where
  "high_sequence h m \<longleftrightarrow>
     (case m of
        None \<Rightarrow> \<forall>q \<in> upgrades h. progress_sequence q = None
      | Some n \<Rightarrow> (\<exists>q \<in> upgrades h. progress_sequence q = Some n) \<and>
          (\<forall>q \<in> upgrades h. \<forall>r. progress_sequence q = Some r \<longrightarrow> r \<le> n))"

definition tracks :: "nat \<Rightarrow> nat \<Rightarrow> observations \<Rightarrow> FinishAdmissionTracker \<Rightarrow> bool" where
  "tracks start stall h t \<longleftrightarrow> started_at t = start \<and> stall_after t = stall \<and>
     last_observed_at t = effective_time start h \<and> last_progress_at t = idle_since start h \<and>
     (\<forall>phase. high_water h phase (processed_by_phase t phase)) \<and> high_sequence h (tracked_sequence t)"

lemma upgrades_simps [simp]:
  "upgrades [] = {}"
  "upgrades ((t, ob) # h) = (case ob of ObsUpgrading p \<Rightarrow> insert p (upgrades h) | _ \<Rightarrow> upgrades h)"
  by (auto simp: upgrades_def split: FinishAdmissionObservation.split)

lemma advance_count_spec:
  assumes "\<forall>phase. high_water h phase (processed_by_phase t phase)" "advance_count p t = (b, t')"
  shows "b \<longleftrightarrow> (\<forall>q \<in> upgrades h. progress_phase q = progress_phase p \<longrightarrow> progress_processed q < progress_processed p)"
    "\<forall>phase. high_water ((x, ObsUpgrading p) # h) phase (processed_by_phase t' phase)"
    "started_at t' = started_at t \<and> last_observed_at t' = last_observed_at t \<and> last_progress_at t' = last_progress_at t \<and>
      stall_after t' = stall_after t \<and> tracked_sequence t' = tracked_sequence t"
proof -
  have old: "high_water h phase (processed_by_phase t phase)" for phase using assms(1) by blast
  note here = old [of "progress_phase p"]
  show "b \<longleftrightarrow> (\<forall>q \<in> upgrades h. progress_phase q = progress_phase p \<longrightarrow> progress_processed q < progress_processed p)"
    using here assms(2) by (fastforce simp: advance_count_def Let_def high_water_def split: option.splits if_split_asm)
  show "started_at t' = started_at t \<and> last_observed_at t' = last_observed_at t \<and> last_progress_at t' = last_progress_at t \<and>
      stall_after t' = stall_after t \<and> tracked_sequence t' = tracked_sequence t"
    using assms(2) by (auto simp: advance_count_def Let_def split: option.splits if_split_asm)
  show "\<forall>phase. high_water ((x, ObsUpgrading p) # h) phase (processed_by_phase t' phase)"
  proof
    fix phase
    show "high_water ((x, ObsUpgrading p) # h) phase (processed_by_phase t' phase)"
    proof (cases "phase = progress_phase p")
      case False
      then have "processed_by_phase t' phase = processed_by_phase t phase"
        using assms(2) by (auto simp: advance_count_def Let_def split: option.splits if_split_asm)
      with old [of phase] False show ?thesis by (auto simp: high_water_def split: option.splits)
    next
      case True
      with here assms(2) show ?thesis
        by (cases "processed_by_phase t (progress_phase p)")
          (force simp: advance_count_def Let_def high_water_def split: if_split_asm)+
    qed
  qed
qed

lemma advance_sequence_spec:
  assumes "high_sequence h (tracked_sequence t)" "advance_sequence p t = (b, t')"
  shows "b \<longleftrightarrow> (\<exists>s. progress_sequence p = Some s \<and> (\<exists>q \<in> upgrades h. progress_sequence q \<noteq> None) \<and>
      (\<forall>q \<in> upgrades h. \<forall>r. progress_sequence q = Some r \<longrightarrow> r < s))"
    "high_sequence ((x, ObsUpgrading p) # h) (tracked_sequence t')"
    "started_at t' = started_at t \<and> last_observed_at t' = last_observed_at t \<and> last_progress_at t' = last_progress_at t \<and>
      stall_after t' = stall_after t \<and> processed_by_phase t' = processed_by_phase t"
  using assms
  by (cases "tracked_sequence t"; cases "progress_sequence p";
      force simp: advance_sequence_def high_sequence_def split: if_split_asm)+

lemma tracks_start: "tracks start stall [] (new_tracker start stall)"
  by (simp add: tracks_def new_tracker_def high_water_def high_sequence_def)

lemma observe_upgrading:
  assumes inv: "tracks start stall h t"
  shows "tracks start stall ((x, ObsUpgrading p) # h) (snd (observe x (ObsUpgrading p) t))"
    "fst (observe x (ObsUpgrading p) t) = WaitUpgrading \<lparr>wait_progress = p,
       wait_elapsed = effective_time start ((x, ObsUpgrading p) # h) - start,
       wait_idle_for = effective_time start ((x, ObsUpgrading p) # h) - idle_since start ((x, ObsUpgrading p) # h),
       wait_stalled = (effective_time start ((x, ObsUpgrading p) # h) - idle_since start ((x, ObsUpgrading p) # h) \<ge> stall)\<rparr>"
proof -
  let ?now = "effective_time start ((x, ObsUpgrading p) # h)"
  define t0 where "t0 = t\<lparr>last_observed_at := ?now\<rparr>"
  obtain a t1 where c: "advance_count p t0 = (a, t1)" by fastforce
  obtain b t2 where q: "advance_sequence p t1 = (b, t2)" by fastforce
  have water: "\<forall>phase. high_water h phase (processed_by_phase t0 phase)" and seq: "high_sequence h (tracked_sequence t0)"
    using inv by (simp_all add: tracks_def t0_def)
  note count = advance_count_spec [OF water c]
  have "high_sequence h (tracked_sequence t1)" using seq count(3) by simp
  note sequence = advance_sequence_spec [OF this q]
  have adv: "a \<or> b \<longleftrightarrow> advances h p" using count(1) sequence(1) by (simp add: advances_def)
  define t3 where "t3 = (if a \<or> b then t2\<lparr>last_progress_at := ?now\<rparr> else t2)"
  have obs: "observe x (ObsUpgrading p) t = (WaitUpgrading \<lparr>wait_progress = p, wait_elapsed = ?now - start,
      wait_idle_for = ?now - last_progress_at t3, wait_stalled = (?now - last_progress_at t3 \<ge> stall_after t3)\<rparr>, t3)"
    using inv c q by (simp add: observe_def Let_def tracks_def t0_def t3_def split: prod.split)
  have same: "last_progress_at t3 = idle_since start ((x, ObsUpgrading p) # h)" "stall_after t3 = stall"
    using inv count(3) sequence(3) adv by (auto simp: t3_def t0_def tracks_def)
  then show "fst (observe x (ObsUpgrading p) t) = WaitUpgrading \<lparr>wait_progress = p, wait_elapsed = ?now - start,
       wait_idle_for = ?now - idle_since start ((x, ObsUpgrading p) # h),
       wait_stalled = (?now - idle_since start ((x, ObsUpgrading p) # h) \<ge> stall)\<rparr>"
    by (simp add: obs)
  have "started_at t3 = start" "last_observed_at t3 = ?now" "processed_by_phase t3 = processed_by_phase t1" "tracked_sequence t3 = tracked_sequence t2"
    using inv count(3) sequence(3) by (auto simp: t3_def t0_def tracks_def)
  then show "tracks start stall ((x, ObsUpgrading p) # h) (snd (observe x (ObsUpgrading p) t))"
    using same count(2) [of x] sequence(2) [of x] by (simp add: obs tracks_def)
qed

lemma observe_tracks:
  assumes "tracks start stall h t"
  shows "tracks start stall ((x, ob) # h) (snd (observe x ob t))"
proof (cases "\<exists>p. ob = ObsUpgrading p")
  case True
  with observe_upgrading(1) [OF assms] show ?thesis by blast
next
  case False
  then have "upgrades ((x, ob) # h) = upgrades h" by (cases ob) auto
  then have "high_water ((x, ob) # h) = high_water h" "high_sequence ((x, ob) # h) = high_sequence h"
    by (simp_all only: high_water_def high_sequence_def fun_eq_iff simp_thms)
  with False assms show ?thesis
    by (cases ob) (simp_all add: tracks_def observe_def Let_def max.commute)
qed

lemma track_tracks: "tracks start stall h (track h (new_tracker start stall))"
  by (induction h) (auto intro: tracks_start observe_tracks)

lemma nullable_text_not_empty: "nullable_text js value field = Inr (Some text) \<Longrightarrow> text \<noteq> []"
  by (auto simp: nullable_text_def split: option.splits if_split_asm)

text \<open>
  A report of the server gives progress only when it states its phase and its count, and a progress
  sequence only from a UTC timestamp; what it leaves out never becomes zero completed work.
\<close>

lemma accepted_health_progress:
  assumes "from_value js parse_rfc3339 value = Inr health"
  shows "health_progress parse_rfc3339 health = None \<longleftrightarrow> health_phase health = None \<or> health_processed health = None"
    "health_progress parse_rfc3339 health = Some p \<Longrightarrow>
       progress_phase p \<noteq> [] \<and> Some (progress_processed p) = health_processed health"
    "health_progress parse_rfc3339 health = Some p \<Longrightarrow> progress_sequence p = Some s \<Longrightarrow>
       \<exists>text. health_last_progress_at health = Some text \<and> parse_rfc3339 text = Some (0, int s)"
  using assms
  by (auto simp: from_value_def health_progress_def check_last_progress_at_def bind_eq_Some_conv bind_eq_None_conv
      dest: nullable_text_not_empty split: option.splits sum.splits if_split_asm prod.splits)

text \<open>
  C28. The tracker reports real inactivity.  After any sequence of observations, with a clock that may step
  back, \<open>observe\<close> answers an upgrade report with the time since the wait began and with the time since work
  last advanced, that is, since some phase reported more than ever before or a progress sequence passed all
  earlier ones; it reports a stall exactly when that idle time reaches the limit, so that repeated reports
  and heartbeats never hide one.
\<close>

theorem stall_reports_measure_progress:
  "fst (observe now (ObsUpgrading p) (track h (new_tracker start stall))) = WaitUpgrading \<lparr>wait_progress = p,
     wait_elapsed = effective_time start ((now, ObsUpgrading p) # h) - start,
     wait_idle_for = effective_time start ((now, ObsUpgrading p) # h) - idle_since start ((now, ObsUpgrading p) # h),
     wait_stalled = (stall \<le> effective_time start ((now, ObsUpgrading p) # h) - idle_since start ((now, ObsUpgrading p) # h))\<rparr>"
  using observe_upgrading(2) [OF track_tracks] .

end
