(* ===== verification/Admission_Loop.thy ===== *)
theory Admission_Loop
  imports Admission_Wait
begin

text \<open>
  The wait before a finish is sent (\<open>admitted\<close> of the package workflow in the command line): poll the health
  of the server, let the tracker judge the report, and go on or refuse.  The answers of the server and the
  clock readings are the input, oldest first; an empty input means that the loop still polls.
\<close>

section \<open>The loop\<close>

datatype PlanHttpClientError =
    HttpInvalid string | HttpRemote string | HttpRemoteResponse string string nat string
  | HttpTransport string | HttpClosed string

record upgrade_display =
  display_phase :: "string option"
  display_processed :: "nat option"
  display_total :: "nat option"
  display_last_progress_at :: "string option"

datatype refusal =
    TransportDisconnected PlanHttpClientError | AdmissionUnavailable PlanHttpClientError
  | UpgradeStalled upgrade_display | UpgradeProgressUnavailable upgrade_display

datatype admission = Proceed | Refuse refusal | Unreachable

type_synonym polls = "(nat \<times> (PlanHttpClientError + UpgradeHealth)) list"

definition STALL_AFTER :: nat where
  "STALL_AFTER = 30 * 1000000000"

definition health_display :: "UpgradeHealth \<Rightarrow> upgrade_display" where
  "health_display health = \<lparr>display_phase = health_phase health, display_processed = health_processed health,
     display_total = health_total health, display_last_progress_at = health_last_progress_at health\<rparr>"

definition refuse_error :: "PlanHttpClientError \<Rightarrow> refusal" where
  "refuse_error e = (case e of HttpTransport _ \<Rightarrow> TransportDisconnected e | HttpClosed _ \<Rightarrow> TransportDisconnected e
     | _ \<Rightarrow> AdmissionUnavailable e)"

definition health_observation :: "(string \<Rightarrow> (int \<times> int) option) \<Rightarrow> UpgradeHealth \<Rightarrow> FinishAdmissionObservation" where
  "health_observation parse_rfc3339 health =
     (if health_ready health then ObsAdmitted
      else case health_progress parse_rfc3339 health of Some p \<Rightarrow> ObsUpgrading p | None \<Rightarrow> ObsProgressUnavailable)"

fun admission_loop ::
    "(string \<Rightarrow> (int \<times> int) option) \<Rightarrow> FinishAdmissionTracker \<Rightarrow> upgrade_display option \<Rightarrow> polls
       \<Rightarrow> upgrade_display list \<times> admission option" where
  "admission_loop parse_rfc3339 tracker previous [] = ([], None)"
| "admission_loop parse_rfc3339 tracker previous ((now, Inl e) # polls) = ([], Some (Refuse (refuse_error e)))"
| "admission_loop parse_rfc3339 tracker previous ((now, Inr health) # polls) =
     (case observe now (health_observation parse_rfc3339 health) tracker of
        (WaitAdmitted, tracker) \<Rightarrow> ([], Some Proceed)
      | (WaitUpgrading progress, tracker) \<Rightarrow>
          (let display = health_display health;
               printed = (if previous \<noteq> Some display then [display] else [])
           in if wait_stalled progress then (printed, Some (Refuse (UpgradeStalled display)))
              else (let (lines, outcome) = admission_loop parse_rfc3339 tracker (Some display) polls
                    in (printed @ lines, outcome)))
      | (WaitProgressUnavailable _ _, tracker) \<Rightarrow> ([], Some (Refuse (UpgradeProgressUnavailable (health_display health))))
      | (WaitTransportDisconnected _ _, tracker) \<Rightarrow> ([], Some Unreachable))"

definition admitted ::
    "(string \<Rightarrow> (int \<times> int) option) \<Rightarrow> nat \<Rightarrow> polls \<Rightarrow> upgrade_display list \<times> admission option" where
  "admitted parse_rfc3339 start polls = admission_loop parse_rfc3339 (new_tracker start STALL_AFTER) None polls"

section \<open>What the answers say\<close>

text \<open>
  The specification reads only the answers: one that is not ready but reports progress keeps the client
  waiting, as long as work advanced less than the limit ago; any other answer decides.
\<close>

definition idle_time :: "nat \<Rightarrow> observations \<Rightarrow> nat" where
  "idle_time start h = effective_time start h - idle_since start h"

definition reports_progress :: "(string \<Rightarrow> (int \<times> int) option) \<Rightarrow> UpgradeHealth \<Rightarrow> UpgradeProgress \<Rightarrow> bool" where
  "reports_progress parse_rfc3339 health p \<longleftrightarrow> \<not> health_ready health \<and> health_progress parse_rfc3339 health = Some p"

fun observed :: "(string \<Rightarrow> (int \<times> int) option) \<Rightarrow> polls \<Rightarrow> observations \<Rightarrow> observations" where
  "observed parse_rfc3339 [] h = h"
| "observed parse_rfc3339 ((now, Inl e) # polls) h = observed parse_rfc3339 polls h"
| "observed parse_rfc3339 ((now, Inr health) # polls) h =
     observed parse_rfc3339 polls ((now, health_observation parse_rfc3339 health) # h)"

definition keeps_waiting ::
    "(string \<Rightarrow> (int \<times> int) option) \<Rightarrow> nat \<Rightarrow> observations \<Rightarrow> nat \<times> (PlanHttpClientError + UpgradeHealth) \<Rightarrow> bool" where
  "keeps_waiting parse_rfc3339 start h poll \<longleftrightarrow>
     (\<exists>health p. snd poll = Inr health \<and> reports_progress parse_rfc3339 health p \<and>
        idle_time start ((fst poll, ObsUpgrading p) # h) < STALL_AFTER)"

definition waits :: "(string \<Rightarrow> (int \<times> int) option) \<Rightarrow> nat \<Rightarrow> polls \<Rightarrow> bool" where
  "waits parse_rfc3339 start polls \<longleftrightarrow>
     (\<forall>i<length polls. keeps_waiting parse_rfc3339 start (observed parse_rfc3339 (take i polls) []) (polls ! i))"

section \<open>The loop follows them\<close>

text \<open>One answer, judged on the answers before it; the loop returns the first verdict.\<close>

definition verdict ::
    "(string \<Rightarrow> (int \<times> int) option) \<Rightarrow> nat \<Rightarrow> observations \<Rightarrow> nat \<Rightarrow> PlanHttpClientError + UpgradeHealth \<Rightarrow> admission option" where
  "verdict parse_rfc3339 start h now answer =
     (case answer of
        Inl e \<Rightarrow> Some (Refuse (refuse_error e))
      | Inr health \<Rightarrow>
          if health_ready health then Some Proceed
          else case health_progress parse_rfc3339 health of
                 None \<Rightarrow> Some (Refuse (UpgradeProgressUnavailable (health_display health)))
               | Some p \<Rightarrow>
                   if STALL_AFTER \<le> idle_time start ((now, ObsUpgrading p) # h)
                   then Some (Refuse (UpgradeStalled (health_display health)))
                   else None)"

fun first_verdict :: "(string \<Rightarrow> (int \<times> int) option) \<Rightarrow> nat \<Rightarrow> observations \<Rightarrow> polls \<Rightarrow> admission option" where
  "first_verdict parse_rfc3339 start h [] = None"
| "first_verdict parse_rfc3339 start h ((now, answer) # polls) =
     (case verdict parse_rfc3339 start h now answer of
        Some a \<Rightarrow> Some a
      | None \<Rightarrow> first_verdict parse_rfc3339 start (observed parse_rfc3339 [(now, answer)] h) polls)"

lemma observe_verdict:
  assumes "tracks start STALL_AFTER h t" "verdict parse_rfc3339 start h now (Inr health) = v"
  shows "case observe now (health_observation parse_rfc3339 health) t of
      (WaitAdmitted, _) \<Rightarrow> v = Some Proceed
    | (WaitUpgrading w, _) \<Rightarrow> v = (if wait_stalled w then Some (Refuse (UpgradeStalled (health_display health))) else None)
    | (WaitProgressUnavailable _ _, _) \<Rightarrow> v = Some (Refuse (UpgradeProgressUnavailable (health_display health)))
    | (WaitTransportDisconnected _ _, _) \<Rightarrow> False"
proof (cases "health_ready health")
  case True
  with assms(2) show ?thesis by (auto simp: verdict_def health_observation_def observe_def Let_def)
next
  case False
  show ?thesis
  proof (cases "health_progress parse_rfc3339 health")
    case None
    with False assms(2) show ?thesis by (auto simp: verdict_def health_observation_def observe_def Let_def)
  next
    case (Some p)
    with False have obs: "health_observation parse_rfc3339 health = ObsUpgrading p" by (simp add: health_observation_def)
    show ?thesis
      using observe_upgrading(2) [OF assms(1), of now p] False Some assms(2)
      by (auto simp: obs verdict_def idle_time_def split: prod.split)
  qed
qed

lemma admission_loop_first_verdict:
  assumes "tracks start STALL_AFTER h t"
  shows "snd (admission_loop parse_rfc3339 t previous polls) = first_verdict parse_rfc3339 start h polls"
  using assms
proof (induction polls arbitrary: h t previous)
  case (Cons poll polls)
  obtain now answer where poll: "poll = (now, answer)" by fastforce
  show ?case
  proof (cases answer)
    case (Inl e)
    then show ?thesis by (simp add: poll verdict_def)
  next
    case (Inr health)
    let ?ob = "health_observation parse_rfc3339 health"
    obtain w t' where o: "observe now ?ob t = (w, t')" by fastforce
    have next_t: "tracks start STALL_AFTER ((now, ?ob) # h) t'"
      using observe_tracks [OF Cons.prems, of now ?ob] o by simp
    show ?thesis
      using observe_verdict [OF Cons.prems refl, of parse_rfc3339 now health] Cons.IH [OF next_t] o
      by (cases w) (auto simp: poll Inr Let_def case_prod_beta)
  qed
qed simp

lemma admitted_first_verdict: "snd (admitted parse_rfc3339 start polls) = first_verdict parse_rfc3339 start [] polls"
  by (simp add: admitted_def admission_loop_first_verdict [OF tracks_start])

lemma verdict_None_iff: "verdict parse_rfc3339 start h now answer = None \<longleftrightarrow> keeps_waiting parse_rfc3339 start h (now, answer)"
  by (cases answer) (auto simp: verdict_def keeps_waiting_def reports_progress_def split: option.split)

lemma verdict_Proceed_iff: "verdict parse_rfc3339 start h now answer = Some Proceed \<longleftrightarrow> (\<exists>health. answer = Inr health \<and> health_ready health)"
  by (cases answer) (auto simp: verdict_def split: option.split)

lemma verdict_not_Unreachable: "verdict parse_rfc3339 start h now answer \<noteq> Some Unreachable"
  by (cases answer) (auto simp: verdict_def split: option.split)

lemma observed_append: "observed parse_rfc3339 (a @ b) h = observed parse_rfc3339 b (observed parse_rfc3339 a h)"
  by (induction a h rule: observed.induct) auto

lemma observed_Cons: "observed parse_rfc3339 (poll # a) h = observed parse_rfc3339 a (observed parse_rfc3339 [poll] h)"
  using observed_append [of parse_rfc3339 "[poll]" a h] by simp

lemma first_verdict_Cons:
  "first_verdict parse_rfc3339 start h (poll # polls) =
     (case verdict parse_rfc3339 start h (fst poll) (snd poll) of
        Some a \<Rightarrow> Some a
      | None \<Rightarrow> first_verdict parse_rfc3339 start (observed parse_rfc3339 [poll] h) polls)"
  by (cases poll; hypsubst; simp)

lemma first_verdict_None_iff:
  "first_verdict parse_rfc3339 start h polls = None \<longleftrightarrow>
     (\<forall>i<length polls. keeps_waiting parse_rfc3339 start (observed parse_rfc3339 (take i polls) h) (polls ! i))"
proof (induction polls arbitrary: h)
  case (Cons poll polls)
  have "first_verdict parse_rfc3339 start h (poll # polls) = None \<longleftrightarrow>
      keeps_waiting parse_rfc3339 start h poll \<and> first_verdict parse_rfc3339 start (observed parse_rfc3339 [poll] h) polls = None"
    using verdict_None_iff [of parse_rfc3339 start h "fst poll" "snd poll"]
    by (auto simp only: first_verdict_Cons prod.collapse split: option.split)
  then show ?case
    by (simp only: Cons.IH All_less_Suc2 length_Cons take_Suc_Cons nth_Cons_Suc nth_Cons_0 take_0 observed.simps(1)
        observed_Cons [of _ poll "take _ polls"])
qed simp

lemma first_verdict_append:
  "first_verdict parse_rfc3339 start h (a @ b) =
     (case first_verdict parse_rfc3339 start h a of
        Some v \<Rightarrow> Some v
      | None \<Rightarrow> first_verdict parse_rfc3339 start (observed parse_rfc3339 a h) b)"
proof (induction a arbitrary: h)
  case (Cons poll a)
  then show ?case
    by (simp only: append_Cons first_verdict_Cons observed_Cons [of _ poll a] split: option.split) simp
qed simp

lemma first_verdict_Some_iff:
  "first_verdict parse_rfc3339 start h polls = Some v \<longleftrightarrow>
     (\<exists>pre now answer post. polls = pre @ (now, answer) # post \<and> first_verdict parse_rfc3339 start h pre = None \<and>
        verdict parse_rfc3339 start (observed parse_rfc3339 pre h) now answer = Some v)" (is "?l \<longleftrightarrow> ?r")
proof
  assume ?r then show ?l by (auto simp: first_verdict_append)
next
  assume ?l then show ?r
  proof (induction polls arbitrary: h)
    case (Cons poll polls)
    obtain now answer where poll: "poll = (now, answer)" by fastforce
    show ?case
    proof (cases "verdict parse_rfc3339 start h now answer")
      case None
      with Cons.prems have "first_verdict parse_rfc3339 start (observed parse_rfc3339 [poll] h) polls = Some v" by (simp add: poll)
      from Cons.IH [OF this] obtain pre n a post where "polls = pre @ (n, a) # post"
        "first_verdict parse_rfc3339 start (observed parse_rfc3339 [poll] h) pre = None"
        "verdict parse_rfc3339 start (observed parse_rfc3339 pre (observed parse_rfc3339 [poll] h)) n a = Some v" by blast
      then show ?thesis using None observed_append [of parse_rfc3339 "[poll]" pre h]
        by (intro exI [of _ "poll # pre"] exI [of _ n] exI [of _ a] exI [of _ post]) (simp add: poll)
    next
      case (Some u)
      with Cons.prems show ?thesis
        by (intro exI [of _ "[]"] exI [of _ now] exI [of _ answer] exI [of _ polls]) (simp add: poll)
    qed
  qed simp
qed

text \<open>
  C27. A finish is sent only to a server that reported itself ready.  The wait ends with permission exactly
  when some answer is ready and every earlier one was an upgrade whose work advanced less than thirty
  seconds before; it is still polling exactly when all answers so far are such upgrades, so a failed
  request, a report without progress or thirty idle seconds always end it; and the branch that the code
  declares unreachable is.
\<close>

theorem finish_waits_for_admission:
  "(snd (admitted parse_rfc3339 start polls) = Some Proceed \<longleftrightarrow>
      (\<exists>pre now health post. polls = pre @ (now, Inr health) # post \<and> health_ready health \<and> waits parse_rfc3339 start pre)) \<and>
   (snd (admitted parse_rfc3339 start polls) = None \<longleftrightarrow> waits parse_rfc3339 start polls) \<and>
   snd (admitted parse_rfc3339 start polls) \<noteq> Some Unreachable"
  by (auto simp: admitted_first_verdict first_verdict_Some_iff waits_def first_verdict_None_iff [symmetric]
      verdict_Proceed_iff verdict_not_Unreachable)

end
