(* ===== verification/Row_Codec.thy ===== *)
theory Row_Codec
  imports Binary_Db Pack_Strings
begin

text \<open>
  What the rows of the stores above the Binary DB share: the cursor and the push functions of the
  content codecs (\<open>content_binary_db/schema/codec.rs\<close>), byte slices, and the contract
  \<open>row_codec\<close> between an encoder and a decoder of fixed-size rows, with the table of decoded
  rows that the stores keep in a record file.
\<close>

section \<open>Fields\<close>

type_synonym u16 = "16 word"

definition to_le_bytes16 :: "u16 \<Rightarrow> bytes" where
  "to_le_bytes16 n = [ucast n, ucast (drop_bit 8 n)]"

definition from_le_bytes16 :: "bytes \<Rightarrow> u16" where
  "from_le_bytes16 bs = (case bs of [a, b] \<Rightarrow> or (ucast a) (push_bit 8 (ucast b)) | _ \<Rightarrow> 0)"

lemma length_to_le_bytes16 [simp]: "length (to_le_bytes16 n) = 2"
  by (simp add: to_le_bytes16_def)

lemma from_to_le_bytes16 [simp]: "from_le_bytes16 (to_le_bytes16 n) = n"
proof (rule bit_word_eqI)
  fix i
  show "bit (from_le_bytes16 (to_le_bytes16 n)) i = bit n i"
    by (cases "i < 8") (auto simp: from_le_bytes16_def to_le_bytes16_def bit_simps dest: bit_imp_le_length)
qed

lemma to_from_le_bytes16: "length bs = 2 \<Longrightarrow> to_le_bytes16 (from_le_bytes16 bs) = bs"
proof -
  assume "length bs = 2"
  then obtain a b where bs: "bs = [a, b]" by (auto simp: length_Suc_conv eval_nat_numeral)
  have high: "\<not> bit (x :: u8) (8 + n)" for x n by (auto dest: bit_imp_le_length)
  show ?thesis
    unfolding bs to_le_bytes16_def from_le_bytes16_def by (auto intro!: bit_word_eqI simp: bit_simps high)
qed

definition slice_bytes :: "nat \<Rightarrow> nat \<Rightarrow> bytes \<Rightarrow> bytes" where
  "slice_bytes a b raw = take (b - a) (drop a raw)"

lemma length_slice_bytes: "b \<le> length raw \<Longrightarrow> length (slice_bytes a b raw) = b - a"
  by (simp add: slice_bytes_def)

lemma slice_bytes_glue: "a \<le> b \<Longrightarrow> b \<le> c \<Longrightarrow> slice_bytes a b raw @ slice_bytes b c raw = slice_bytes a c raw"
proof -
  assume "a \<le> b" "b \<le> c"
  then obtain m n where "b = a + m" "c = a + m + n" by (metis le_Suc_ex)
  then show ?thesis by (simp add: slice_bytes_def take_add add.assoc) (simp add: add.commute)
qed

lemma slice_bytes_all: "slice_bytes 0 (length raw) raw = raw"
  by (simp add: slice_bytes_def)

text \<open>\<open>checked_sub(1)\<close> on the fields that store an index plus one.\<close>

definition minus_one :: "u32 \<Rightarrow> u32 option" where
  "minus_one n = (if n = 0 then None else Some (n - 1))"

section \<open>The cursor\<close>

text \<open>A cursor is the rest of the bytes that it has not taken.\<close>

type_synonym 'a cursor_read = "bytes \<Rightarrow> ('a \<times> bytes) store_result"

definition cur_return :: "'a \<Rightarrow> 'a cursor_read" where
  "cur_return x = (\<lambda>raw. Inr (x, raw))"

definition cur_bind :: "'a cursor_read \<Rightarrow> ('a \<Rightarrow> 'b cursor_read) \<Rightarrow> 'b cursor_read" where
  "cur_bind m f = (\<lambda>raw. case m raw of Inl e \<Rightarrow> Inl e | Inr (x, rest) \<Rightarrow> f x rest)"

definition cur_lift :: "'a store_result \<Rightarrow> 'a cursor_read" where
  "cur_lift r = (\<lambda>raw. case r of Inl e \<Rightarrow> Inl e | Inr x \<Rightarrow> Inr (x, raw))"

definition cursor_take :: "nat \<Rightarrow> bytes cursor_read" where
  "cursor_take n raw = (if length raw < n then Inl DbOther else Inr (take n raw, drop n raw))"

definition take_u8 :: "u8 cursor_read" where
  "take_u8 = cur_bind (cursor_take 1) (\<lambda>bs. cur_return (hd bs))"

definition take_u16 :: "u16 cursor_read" where
  "take_u16 = cur_bind (cursor_take 2) (\<lambda>bs. cur_return (from_le_bytes16 bs))"

definition take_u32 :: "u32 cursor_read" where
  "take_u32 = cur_bind (cursor_take 4) (\<lambda>bs. cur_return (from_le_bytes bs))"

definition take_u64 :: "u64 cursor_read" where
  "take_u64 = cur_bind (cursor_take 8) (\<lambda>bs. cur_return (from_le_bytes64 bs))"

definition require_encoded_len :: "nat \<Rightarrow> bytes \<Rightarrow> bytes store_result" where
  "require_encoded_len expected out = (if length out \<noteq> expected then Inl DbOther else Inr out)"

definition require_raw_len :: "nat \<Rightarrow> bytes \<Rightarrow> unit store_result" where
  "require_raw_len expected raw = (if length raw \<noteq> expected then Inl DbOther else Inr ())"

definition decode_row :: "nat \<Rightarrow> 'r cursor_read \<Rightarrow> bytes \<Rightarrow> 'r store_result" where
  "decode_row row_size m raw = res_bind (require_raw_len row_size raw) (\<lambda>_. res_bind (m raw) (\<lambda>(r, _). Inr r))"

named_theorems cursor_ok \<open>successful runs of cursor operations\<close>

lemma cur_return_ok [cursor_ok]: "cur_return x raw = Inr (y, rest) \<longleftrightarrow> y = x \<and> rest = raw"
  by (auto simp: cur_return_def)

lemma cur_bind_ok [cursor_ok]:
  "cur_bind m f raw = Inr (y, rest) \<longleftrightarrow> (\<exists>x mid. m raw = Inr (x, mid) \<and> f x mid = Inr (y, rest))"
  by (auto simp: cur_bind_def split: sum.splits prod.splits)

lemma cur_lift_ok [cursor_ok]: "cur_lift r raw = Inr (y, rest) \<longleftrightarrow> r = Inr y \<and> rest = raw"
  by (auto simp: cur_lift_def split: sum.splits)

lemma cursor_take_ok [cursor_ok]: "cursor_take n raw = Inr (x, rest) \<longleftrightarrow> length x = n \<and> raw = x @ rest"
  by (auto simp: cursor_take_def)

lemma take_u8_ok [cursor_ok]: "take_u8 raw = Inr (x, rest) \<longleftrightarrow> raw = x # rest"
  by (auto simp: take_u8_def cursor_ok length_Suc_conv intro!: exI [of _ "[x]"])

lemma take_u16_ok [cursor_ok]: "take_u16 raw = Inr (x, rest) \<longleftrightarrow> raw = to_le_bytes16 x @ rest"
  by (auto simp: take_u16_def cursor_ok to_from_le_bytes16 intro!: exI [of _ "to_le_bytes16 x"])

lemma take_u32_ok [cursor_ok]: "take_u32 raw = Inr (x, rest) \<longleftrightarrow> raw = to_le_bytes x @ rest"
  by (auto simp: take_u32_def cursor_ok to_from_le_bytes intro!: exI [of _ "to_le_bytes x"])

lemma take_u64_ok [cursor_ok]: "take_u64 raw = Inr (x, rest) \<longleftrightarrow> raw = to_le_bytes64 x @ rest"
  by (auto simp: take_u64_def cursor_ok to_from_le_bytes64 intro!: exI [of _ "to_le_bytes64 x"])

lemma le_bytes_inject [simp]:
  "to_le_bytes16 a = to_le_bytes16 b \<longleftrightarrow> a = b" "to_le_bytes c = to_le_bytes d \<longleftrightarrow> c = d"
  "to_le_bytes64 x = to_le_bytes64 y \<longleftrightarrow> x = y"
  by (metis from_to_le_bytes16, metis from_to_le_bytes, metis from_to_le_bytes64)

lemma whole_field: "length x = length y \<Longrightarrow> x = y @ rest \<longleftrightarrow> y = x \<and> rest = []"
  by auto

lemma le_bytes_whole [simp]:
  "to_le_bytes c = to_le_bytes d @ rest \<longleftrightarrow> d = c \<and> rest = []"
  "to_le_bytes64 x = to_le_bytes64 y @ rest \<longleftrightarrow> y = x \<and> rest = []"
  by (simp_all add: whole_field)

lemma decode_row_ok: "decode_row row_size m raw = Inr r \<longleftrightarrow> length raw = row_size \<and> (\<exists>rest. m raw = Inr (r, rest))"
  by (auto simp: decode_row_def require_raw_len_def res_bind_def split: sum.splits)

lemma require_encoded_len_ok: "require_encoded_len n out = Inr bs \<longleftrightarrow> bs = out \<and> length out = n"
  by (auto simp: require_encoded_len_def)

section \<open>The contract of a row codec\<close>

definition rows_of :: "(bytes \<Rightarrow> 'r store_result) \<Rightarrow> bytes list \<Rightarrow> 'r list option" where
  "rows_of dec rs = those (map (\<lambda>b. case dec b of Inl _ \<Rightarrow> None | Inr r \<Rightarrow> Some r) rs)"

lemma those_Some_iff: "those xs = Some ys \<longleftrightarrow> xs = map Some ys"
  by (induction xs arbitrary: ys) (auto split: option.splits)

lemma rows_of_iff: "rows_of dec rs = Some xs \<longleftrightarrow> map dec rs = map Inr xs"
proof -
  have "(case dec b of Inl _ \<Rightarrow> None | Inr r \<Rightarrow> Some r) = Some x \<longleftrightarrow> dec b = Inr x" for b x
    by (cases "dec b") auto
  then have "map (\<lambda>b. case dec b of Inl _ \<Rightarrow> None | Inr r \<Rightarrow> Some r) rs = map Some xs \<longleftrightarrow> map dec rs = map Inr xs"
    by (induction rs arbitrary: xs) (auto simp: Cons_eq_map_conv)
  then show ?thesis by (simp add: rows_of_def those_Some_iff)
qed

lemma rows_of_length: "rows_of dec rs = Some xs \<Longrightarrow> length rs = length xs"
  by (metis length_map rows_of_iff)

lemma rows_of_nth: "rows_of dec rs = Some xs \<Longrightarrow> i < length xs \<Longrightarrow> dec (rs ! i) = Inr (xs ! i)"
  unfolding rows_of_iff by (metis length_map nth_map)

locale row_codec =
  fixes enc :: "'r \<Rightarrow> bytes store_result" and dec :: "bytes \<Rightarrow> 'r store_result" and row_size :: nat
  assumes dec_enc: "enc r = Inr bs \<Longrightarrow> dec bs = Inr r"
    and enc_dec: "dec bs = Inr r \<Longrightarrow> enc r = Inr bs"
    and enc_size: "enc r = Inr bs \<Longrightarrow> length bs = row_size"
begin

lemma codec_iff: "enc r = Inr bs \<longleftrightarrow> dec bs = Inr r"
  using dec_enc enc_dec by blast

lemma enc_inj: "enc r = Inr bs \<Longrightarrow> enc s = Inr bs \<Longrightarrow> r = s"
  by (simp add: codec_iff)

lemma dec_inj: "dec bs = Inr r \<Longrightarrow> dec cs = Inr r \<Longrightarrow> bs = cs"
  by (simp add: codec_iff [symmetric])

lemma dec_size: "dec bs = Inr r \<Longrightarrow> length bs = row_size"
  using codec_iff enc_size by blast

lemma rows_append: "rows_of dec rs = Some xs \<Longrightarrow> enc r = Inr bs \<Longrightarrow> rows_of dec (rs @ [bs]) = Some (xs @ [r])"
  by (simp add: rows_of_iff codec_iff)

lemma rows_update: "rows_of dec rs = Some xs \<Longrightarrow> enc r = Inr bs \<Longrightarrow> rows_of dec (rs[i := bs]) = Some (xs[i := r])"
  by (simp add: rows_of_iff codec_iff map_update)

lemma rows_inj: "rows_of dec rs = Some xs \<Longrightarrow> rows_of dec ss = Some xs \<Longrightarrow> rs = ss"
  by (rule nth_equalityI) (simp_all add: rows_of_length, metis dec_inj rows_of_nth)

end

end
