(* ===== verification/Content_Codec.thy ===== *)
theory Content_Codec
  imports Row_Codec Snapshot_Store
begin

text \<open>
  The rows of the content store (\<open>content_binary_db/schema\<close>): blobs, snapshots with their
  payloads, object packs and their members, tree packs and trees, each with its record file, its
  index, its encoder and its decoder.  The layout is the const parameter of the codecs.
\<close>

section \<open>Records (records.rs, payloads.rs)\<close>

record BinaryBlobRecord =
  blob_meta :: u8
  blob_hash_kind :: u8
  blob_reserved0 :: u16
  blob_size_bytes :: u64
  pack_member_index_plus1 :: u32
  blob_created_at_s :: u64
  pruned_at_s :: u64
  blob_sha256 :: bytes

record BinarySnapshotRecord =
  snapshot_meta :: u8
  history_flags :: u8
  snapshot_payload_len :: u16
  snapshot_payload_offset :: u64
  snapshot_hash48 :: u64
  parent_snapshot_index_plus1 :: u32
  root_tree_pack_index_plus1 :: u32
  root_entry_ordinal :: u32
  snapshot_line_index_plus1 :: u32
  manifest_hash :: bytes
  snapshot_file_count :: u32
  snapshot_total_bytes :: u64
  snapshot_created_at_s :: u64

record BinaryObjectPackRecord =
  object_pack_meta :: u8
  object_pack_format_kind :: u8
  object_pack_hash_hi16 :: u16
  object_pack_hash_lo32 :: u32
  first_member_index :: u32
  pack_member_count :: u32
  object_pack_total_bytes :: u64
  object_pack_created_at_s :: u64

record BinaryObjectPackMemberRecord =
  member_meta :: u8
  member_delta_chain_depth :: u8
  member_reserved0 :: u16
  member_pack_index :: u32
  member_blob_index :: u32
  base_blob_index_plus1 :: u32

record BinaryTreePackRecord =
  tree_pack_meta :: u8
  tree_pack_format_kind :: u8
  tree_pack_hash_hi16 :: u16
  tree_pack_hash_lo32 :: u32
  first_tree_index :: u32
  pack_tree_count :: u32
  tree_pack_total_bytes :: u64
  tree_pack_created_at_s :: u64

record BinaryTreeRecord =
  tree_meta :: u8
  tree_reserved0 :: u8
  pack_entry_ordinal :: u32
  tree_entry_count :: u32
  tree_hash80 :: bytes

record BinarySnapshotPayload =
  payload_line_name :: string
  payload_message :: "string option"
  additional_parent_snapshot_indices :: "u32 list"

datatype BinaryObjectPackFormatKind = ZstdChunkedV1 | ReservedPackFormat u8
datatype BinarySnapshotKind = LineSnapshot | StashSnapshot | ReservedSnapshot u8
datatype BinaryTreePackFormatKind = ZstdChunkedTreeV1 | ReservedTreePackFormat u8
datatype BinaryObjectPackMemberKind = FullMember | DeltaMember | ReservedMember u8
datatype BinaryObjectPackCompressionKind = NoCompression | ZstdCompression | ReservedCompression u8

definition meta_has :: "u8 \<Rightarrow> u8 \<Rightarrow> bool" where
  "meta_has meta bits \<longleftrightarrow> and meta bits \<noteq> 0"

definition META_TOMBSTONE :: u8 where "META_TOMBSTONE = 0x80"

definition blob_is_pruned :: "BinaryBlobRecord \<Rightarrow> bool" where
  "blob_is_pruned r \<longleftrightarrow> meta_has (blob_meta r) 0x02 \<or> pruned_at_s r \<noteq> 0"

definition blob_is_tombstone :: "BinaryBlobRecord \<Rightarrow> bool" where
  "blob_is_tombstone r \<longleftrightarrow> meta_has (blob_meta r) META_TOMBSTONE"

definition blob_pack_member_index :: "BinaryBlobRecord \<Rightarrow> u32 option" where
  "blob_pack_member_index r = minus_one (pack_member_index_plus1 r)"

definition snapshot_is_tombstone :: "BinarySnapshotRecord \<Rightarrow> bool" where
  "snapshot_is_tombstone r \<longleftrightarrow> meta_has (snapshot_meta r) META_TOMBSTONE"

definition snapshot_kind :: "BinarySnapshotRecord \<Rightarrow> BinarySnapshotKind" where
  "snapshot_kind r =
     (let k = and (snapshot_meta r) 0x03
      in if k = 0 then LineSnapshot else if k = 1 then StashSnapshot else ReservedSnapshot k)"

definition parent_snapshot_index :: "BinarySnapshotRecord \<Rightarrow> u32 option" where
  "parent_snapshot_index r = minus_one (parent_snapshot_index_plus1 r)"

definition has_additional_parents :: "BinarySnapshotRecord \<Rightarrow> bool" where
  "has_additional_parents r \<longleftrightarrow> meta_has (snapshot_meta r) 0x10"

definition is_remote_head_history_boundary :: "BinarySnapshotRecord \<Rightarrow> bool" where
  "is_remote_head_history_boundary r \<longleftrightarrow> meta_has (history_flags r) 0x01"

definition root_tree_pack_index :: "BinarySnapshotRecord \<Rightarrow> u32 option" where
  "root_tree_pack_index r = minus_one (root_tree_pack_index_plus1 r)"

definition snapshot_line_index :: "BinarySnapshotRecord \<Rightarrow> u32 option" where
  "snapshot_line_index r = minus_one (snapshot_line_index_plus1 r)"

definition has_message :: "BinarySnapshotRecord \<Rightarrow> bool" where
  "has_message r \<longleftrightarrow> meta_has (snapshot_meta r) 0x04"

definition has_line_name_payload :: "BinarySnapshotRecord \<Rightarrow> bool" where
  "has_line_name_payload r \<longleftrightarrow> meta_has (snapshot_meta r) 0x08"

definition has_root_locator :: "BinarySnapshotRecord \<Rightarrow> bool" where
  "has_root_locator r \<longleftrightarrow> meta_has (snapshot_meta r) 0x20"

definition object_pack_format_of :: "BinaryObjectPackRecord \<Rightarrow> BinaryObjectPackFormatKind" where
  "object_pack_format_of r =
     (if object_pack_format_kind r = 1 then ZstdChunkedV1 else ReservedPackFormat (object_pack_format_kind r))"

definition pack_hash48 :: "u16 \<Rightarrow> u32 \<Rightarrow> u64" where
  "pack_hash48 hi lo = or (push_bit 32 (ucast hi)) (ucast lo)"

definition member_kind :: "BinaryObjectPackMemberRecord \<Rightarrow> BinaryObjectPackMemberKind" where
  "member_kind r =
     (let k = and (member_meta r) 0x03
      in if k = 0 then FullMember else if k = 1 then DeltaMember else ReservedMember k)"

definition compression_kind :: "BinaryObjectPackMemberRecord \<Rightarrow> BinaryObjectPackCompressionKind" where
  "compression_kind r =
     (let k = and (drop_bit 2 (member_meta r)) 0x03
      in if k = 0 then NoCompression else if k = 2 then ZstdCompression else ReservedCompression k)"

definition tree_pack_format_of :: "BinaryTreePackRecord \<Rightarrow> BinaryTreePackFormatKind" where
  "tree_pack_format_of r =
     (if tree_pack_format_kind r = 1 then ZstdChunkedTreeV1 else ReservedTreePackFormat (tree_pack_format_kind r))"

section \<open>Blobs (codec.rs)\<close>

definition BINARY_DB_CONTENT_LAYOUT_ID :: u32 where "BINARY_DB_CONTENT_LAYOUT_ID = 1"

definition require_supported_content_layout :: "u32 \<Rightarrow> unit store_result" where
  "require_supported_content_layout layout =
     (if layout = BINARY_DB_CONTENT_LAYOUT_ID then Inr () else Inl LayoutMismatch)"

definition fixed_index :: "string \<Rightarrow> u32 \<Rightarrow> u32 \<Rightarrow> bool \<Rightarrow> BinaryIndexId" where
  "fixed_index name layout key_size plus_one =
     \<lparr>index_relative_path = [Normal name], index_layout_id = layout, fixed_key_size = Some key_size,
      stores_record_index_plus_one = plus_one\<rparr>"

definition record_file_id :: "string \<Rightarrow> u32 \<Rightarrow> u32 \<Rightarrow> BinaryFileId" where
  "record_file_id name layout rsize =
     \<lparr>file_relative_path = [Normal name], file_record_size = rsize, file_layout_id = layout\<rparr>"

definition blob_record_file :: "u32 \<Rightarrow> BinaryFileId" where
  "blob_record_file layout = record_file_id ''blob.bin'' layout 64"

definition blob_id_index :: "u32 \<Rightarrow> BinaryIndexId" where
  "blob_id_index layout = fixed_index ''blob_id.idx'' layout 10 True"

definition encode_blob_record :: "u32 \<Rightarrow> BinaryBlobRecord \<Rightarrow> bytes store_result" where
  "encode_blob_record layout r =
     res_bind (require_supported_content_layout layout) (\<lambda>_.
       require_encoded_len 64
         ([blob_meta r, blob_hash_kind r] @ to_le_bytes16 (blob_reserved0 r) @ to_le_bytes64 (blob_size_bytes r) @
          to_le_bytes (pack_member_index_plus1 r) @ to_le_bytes64 (blob_created_at_s r) @
          to_le_bytes64 (pruned_at_s r) @ blob_sha256 r))"

definition decode_blob_record :: "u32 \<Rightarrow> bytes \<Rightarrow> BinaryBlobRecord store_result" where
  "decode_blob_record layout raw =
     res_bind (require_supported_content_layout layout) (\<lambda>_.
       decode_row 64
         (cur_bind take_u8 (\<lambda>meta. cur_bind take_u8 (\<lambda>kind. cur_bind take_u16 (\<lambda>reserved0.
          cur_bind take_u64 (\<lambda>size_bytes. cur_bind take_u32 (\<lambda>member. cur_bind take_u64 (\<lambda>created_at_s.
          cur_bind take_u64 (\<lambda>pruned. cur_bind (cursor_take 32) (\<lambda>sha256.
            cur_return \<lparr>blob_meta = meta, blob_hash_kind = kind, blob_reserved0 = reserved0,
              blob_size_bytes = size_bytes, pack_member_index_plus1 = member, blob_created_at_s = created_at_s,
              pruned_at_s = pruned, blob_sha256 = sha256\<rparr>)))))))))
         raw)"

section \<open>Snapshots (codec.rs)\<close>

definition snapshot_record_file :: "u32 \<Rightarrow> BinaryFileId" where
  "snapshot_record_file layout = record_file_id ''snapshot.bin'' layout 88"

definition snapshot_id_index :: "u32 \<Rightarrow> BinaryIndexId" where
  "snapshot_id_index layout = fixed_index ''snapshot_id.idx'' layout 8 True"

definition snapshot_payload_file :: "u32 \<Rightarrow> BinaryPayloadFileId" where
  "snapshot_payload_file layout =
     \<lparr>payload_relative_path = [Normal ''snapshot_payload.bin''], payload_layout_id = layout\<rparr>"

definition validate_snapshot_record :: "BinarySnapshotRecord \<Rightarrow> unit store_result" where
  "validate_snapshot_record r =
     (if meta_has (snapshot_meta r) 0x40 then Inl DbOther
      else if and (history_flags r) (not 0x01) \<noteq> 0 then Inl DbOther
      else if drop_bit 48 (snapshot_hash48 r) \<noteq> 0 then Inl DbOther
      else if snapshot_payload_len r > 0 \<and> snapshot_payload_offset r < 4 then Inl DbOther
      else if has_additional_parents r \<and> parent_snapshot_index r = None then Inl DbOther
      else if has_additional_parents r \<and> snapshot_payload_len r < 9 then Inl DbOther
      else if is_remote_head_history_boundary r \<and> (parent_snapshot_index r \<noteq> None \<or> has_additional_parents r)
        then Inl DbOther
      else if has_root_locator r \<noteq> (root_tree_pack_index_plus1 r \<noteq> 0) then Inl DbOther
      else Inr ())"

definition encode_snapshot_record :: "u32 \<Rightarrow> BinarySnapshotRecord \<Rightarrow> bytes store_result" where
  "encode_snapshot_record layout r =
     res_bind (require_supported_content_layout layout) (\<lambda>_.
     res_bind (validate_snapshot_record r) (\<lambda>_.
       require_encoded_len 88
         ([snapshot_meta r, history_flags r] @ to_le_bytes16 (snapshot_payload_len r) @
          to_le_bytes64 (snapshot_payload_offset r) @ to_le_bytes64 (snapshot_hash48 r) @
          to_le_bytes (parent_snapshot_index_plus1 r) @ to_le_bytes (root_tree_pack_index_plus1 r) @
          to_le_bytes (root_entry_ordinal r) @ to_le_bytes (snapshot_line_index_plus1 r) @ manifest_hash r @
          to_le_bytes (snapshot_file_count r) @ to_le_bytes64 (snapshot_total_bytes r) @
          to_le_bytes64 (snapshot_created_at_s r))))"

definition decode_snapshot_record :: "u32 \<Rightarrow> bytes \<Rightarrow> BinarySnapshotRecord store_result" where
  "decode_snapshot_record layout raw =
     res_bind (require_supported_content_layout layout) (\<lambda>_.
     res_bind (decode_row 88
         (cur_bind take_u8 (\<lambda>meta. cur_bind take_u8 (\<lambda>flags. cur_bind take_u16 (\<lambda>len. cur_bind take_u64 (\<lambda>offset.
          cur_bind take_u64 (\<lambda>hash48. cur_bind take_u32 (\<lambda>parent. cur_bind take_u32 (\<lambda>root_pack.
          cur_bind take_u32 (\<lambda>root_ordinal. cur_bind take_u32 (\<lambda>line. cur_bind (cursor_take 32) (\<lambda>manifest.
          cur_bind take_u32 (\<lambda>file_count. cur_bind take_u64 (\<lambda>total_bytes. cur_bind take_u64 (\<lambda>created_at_s.
            cur_return \<lparr>snapshot_meta = meta, history_flags = flags, snapshot_payload_len = len,
              snapshot_payload_offset = offset, snapshot_hash48 = hash48, parent_snapshot_index_plus1 = parent,
              root_tree_pack_index_plus1 = root_pack, root_entry_ordinal = root_ordinal,
              snapshot_line_index_plus1 = line, manifest_hash = manifest, snapshot_file_count = file_count,
              snapshot_total_bytes = total_bytes, snapshot_created_at_s = created_at_s\<rparr>))))))))))))))
         raw) (\<lambda>r.
     res_bind (validate_snapshot_record r) (\<lambda>_. Inr r)))"

definition SNAPSHOT_PARENT_EXTENSION_VERSION :: u8 where "SNAPSHOT_PARENT_EXTENSION_VERSION = 1"

fun push_parents :: "u32 list \<Rightarrow> bytes store_result" where
  "push_parents [] = Inr []"
| "push_parents (i # is) =
     (if i = 0xFFFFFFFF then Inl DbOther
      else res_bind (push_parents is) (\<lambda>out. Inr (to_le_bytes (i + 1) @ out)))"

definition encode_snapshot_payload :: "u32 \<Rightarrow> BinarySnapshotPayload \<Rightarrow> bytes store_result" where
  "encode_snapshot_payload layout payload =
     res_bind (require_supported_content_layout layout) (\<lambda>_.
     let line_name = string_bytes (payload_line_name payload);
         message = string_bytes (case payload_message payload of None \<Rightarrow> [] | Some m \<Rightarrow> m);
         parents = additional_parent_snapshot_indices payload
     in if MAX_SNAPSHOT_PARENT_COUNT \<le> length parents then Inl DbOther
        else if 2 ^ 16 \<le> length message then Inl DbOther
        else
        res_bind (if parents = [] then Inr []
                  else if 2 ^ 16 \<le> length parents then Inl DbOther
                  else res_bind (push_parents parents) (\<lambda>out.
                    Inr ([SNAPSHOT_PARENT_EXTENSION_VERSION] @ to_le_bytes16 (of_nat (length parents)) @ out))) (\<lambda>extension.
        let out = extension @ to_le_bytes16 (of_nat (length message)) @ message @ line_name
        in if 2 ^ 16 - 1 < length out then Inl DbOther else Inr out))"

fun take_parents :: "nat \<Rightarrow> u32 list cursor_read" where
  "take_parents 0 = cur_return []"
| "take_parents (Suc n) =
     cur_bind take_u32 (\<lambda>v.
     cur_bind (cur_lift (if v = 0 then Inl DbOther else Inr (v - 1))) (\<lambda>i.
     cur_bind (take_parents n) (\<lambda>is. cur_return (i # is))))"

definition take_parent_extension :: "u32 list cursor_read" where
  "take_parent_extension =
     cur_bind take_u8 (\<lambda>version.
     cur_bind (cur_lift (if version \<noteq> SNAPSHOT_PARENT_EXTENSION_VERSION then Inl DbOther else Inr ())) (\<lambda>_.
     cur_bind take_u16 (\<lambda>n.
     let count = unat n in
     cur_bind (cur_lift (if count = 0 then Inl DbOther
                         else if MAX_SNAPSHOT_PARENT_COUNT \<le> count then Inl DbOther else Inr ())) (\<lambda>_ raw.
       if length raw < count * 4 + 2 then Inl DbOther else take_parents count raw))))"

definition utf8_text :: "bytes \<Rightarrow> string store_result" where
  "utf8_text bs = (if utf8_valid bs then Inr (bytes_string bs) else Inl DbOther)"

definition decode_snapshot_payload :: "u32 \<Rightarrow> bytes \<Rightarrow> bool \<Rightarrow> bool \<Rightarrow> BinarySnapshotPayload store_result" where
  "decode_snapshot_payload layout raw line_name_flag parents_flag =
     res_bind (require_supported_content_layout layout) (\<lambda>_.
     res_bind (cur_bind (if parents_flag then take_parent_extension else cur_return []) (\<lambda>parents.
               cur_bind take_u16 (\<lambda>message_len.
               cur_bind (cursor_take (unat message_len)) (\<lambda>message.
               cur_bind (\<lambda>rest. cursor_take (length rest) rest) (\<lambda>line_name.
                 cur_return (parents, message, line_name))))) raw) (\<lambda>((parents, message, line_name), _).
     if \<not> line_name_flag \<and> line_name \<noteq> [] then Inl DbOther
     else
     res_bind (utf8_text line_name) (\<lambda>name.
     res_bind (if message = [] then Inr None else res_bind (utf8_text message) (\<lambda>m. Inr (Some m))) (\<lambda>msg.
       Inr \<lparr>payload_line_name = name, payload_message = msg, additional_parent_snapshot_indices = parents\<rparr>))))"

section \<open>Packs and trees (codec.rs)\<close>

definition object_pack_record_file :: "u32 \<Rightarrow> BinaryFileId" where
  "object_pack_record_file layout = record_file_id ''object_pack.bin'' layout 32"

definition object_pack_id_index :: "u32 \<Rightarrow> BinaryIndexId" where
  "object_pack_id_index layout = fixed_index ''object_pack_id.idx'' layout 8 True"

definition encode_object_pack_record :: "u32 \<Rightarrow> BinaryObjectPackRecord \<Rightarrow> bytes store_result" where
  "encode_object_pack_record layout r =
     res_bind (require_supported_content_layout layout) (\<lambda>_.
       require_encoded_len 32
         ([object_pack_meta r, object_pack_format_kind r] @ to_le_bytes16 (object_pack_hash_hi16 r) @
          to_le_bytes (object_pack_hash_lo32 r) @ to_le_bytes (first_member_index r) @
          to_le_bytes (pack_member_count r) @ to_le_bytes64 (object_pack_total_bytes r) @
          to_le_bytes64 (object_pack_created_at_s r)))"

definition decode_object_pack_record :: "u32 \<Rightarrow> bytes \<Rightarrow> BinaryObjectPackRecord store_result" where
  "decode_object_pack_record layout raw =
     res_bind (require_supported_content_layout layout) (\<lambda>_.
       decode_row 32
         (cur_bind take_u8 (\<lambda>meta. cur_bind take_u8 (\<lambda>kind. cur_bind take_u16 (\<lambda>hi. cur_bind take_u32 (\<lambda>lo.
          cur_bind take_u32 (\<lambda>first. cur_bind take_u32 (\<lambda>count. cur_bind take_u64 (\<lambda>total_bytes.
          cur_bind take_u64 (\<lambda>created_at_s.
            cur_return \<lparr>object_pack_meta = meta, object_pack_format_kind = kind, object_pack_hash_hi16 = hi,
              object_pack_hash_lo32 = lo, first_member_index = first, pack_member_count = count,
              object_pack_total_bytes = total_bytes, object_pack_created_at_s = created_at_s\<rparr>)))))))))
         raw)"

definition object_pack_member_record_file :: "u32 \<Rightarrow> BinaryFileId" where
  "object_pack_member_record_file layout = record_file_id ''object_pack_member.bin'' layout 16"

definition encode_object_pack_member_record :: "u32 \<Rightarrow> BinaryObjectPackMemberRecord \<Rightarrow> bytes store_result" where
  "encode_object_pack_member_record layout r =
     res_bind (require_supported_content_layout layout) (\<lambda>_.
       require_encoded_len 16
         ([member_meta r, member_delta_chain_depth r] @ to_le_bytes16 (member_reserved0 r) @
          to_le_bytes (member_pack_index r) @ to_le_bytes (member_blob_index r) @
          to_le_bytes (base_blob_index_plus1 r)))"

definition decode_object_pack_member_record :: "u32 \<Rightarrow> bytes \<Rightarrow> BinaryObjectPackMemberRecord store_result" where
  "decode_object_pack_member_record layout raw =
     res_bind (require_supported_content_layout layout) (\<lambda>_.
       decode_row 16
         (cur_bind take_u8 (\<lambda>meta. cur_bind take_u8 (\<lambda>depth. cur_bind take_u16 (\<lambda>reserved0.
          cur_bind take_u32 (\<lambda>pack. cur_bind take_u32 (\<lambda>blob. cur_bind take_u32 (\<lambda>base.
            cur_return \<lparr>member_meta = meta, member_delta_chain_depth = depth, member_reserved0 = reserved0,
              member_pack_index = pack, member_blob_index = blob, base_blob_index_plus1 = base\<rparr>)))))))
         raw)"

definition tree_pack_record_file :: "u32 \<Rightarrow> BinaryFileId" where
  "tree_pack_record_file layout = record_file_id ''tree_pack.bin'' layout 32"

definition tree_pack_id_index :: "u32 \<Rightarrow> BinaryIndexId" where
  "tree_pack_id_index layout = fixed_index ''tree_pack_id.idx'' layout 8 True"

definition encode_tree_pack_record :: "u32 \<Rightarrow> BinaryTreePackRecord \<Rightarrow> bytes store_result" where
  "encode_tree_pack_record layout r =
     res_bind (require_supported_content_layout layout) (\<lambda>_.
       require_encoded_len 32
         ([tree_pack_meta r, tree_pack_format_kind r] @ to_le_bytes16 (tree_pack_hash_hi16 r) @
          to_le_bytes (tree_pack_hash_lo32 r) @ to_le_bytes (first_tree_index r) @
          to_le_bytes (pack_tree_count r) @ to_le_bytes64 (tree_pack_total_bytes r) @
          to_le_bytes64 (tree_pack_created_at_s r)))"

definition decode_tree_pack_record :: "u32 \<Rightarrow> bytes \<Rightarrow> BinaryTreePackRecord store_result" where
  "decode_tree_pack_record layout raw =
     res_bind (require_supported_content_layout layout) (\<lambda>_.
       decode_row 32
         (cur_bind take_u8 (\<lambda>meta. cur_bind take_u8 (\<lambda>kind. cur_bind take_u16 (\<lambda>hi. cur_bind take_u32 (\<lambda>lo.
          cur_bind take_u32 (\<lambda>first. cur_bind take_u32 (\<lambda>count. cur_bind take_u64 (\<lambda>total_bytes.
          cur_bind take_u64 (\<lambda>created_at_s.
            cur_return \<lparr>tree_pack_meta = meta, tree_pack_format_kind = kind, tree_pack_hash_hi16 = hi,
              tree_pack_hash_lo32 = lo, first_tree_index = first, pack_tree_count = count,
              tree_pack_total_bytes = total_bytes, tree_pack_created_at_s = created_at_s\<rparr>)))))))))
         raw)"

definition tree_record_file :: "u32 \<Rightarrow> BinaryFileId" where
  "tree_record_file layout = record_file_id ''tree.bin'' layout 20"

definition tree_id_index :: "u32 \<Rightarrow> BinaryIndexId" where
  "tree_id_index layout = fixed_index ''tree_id.idx'' layout 10 True"

definition encode_tree_record :: "u32 \<Rightarrow> BinaryTreeRecord \<Rightarrow> bytes store_result" where
  "encode_tree_record layout r =
     res_bind (require_supported_content_layout layout) (\<lambda>_.
       require_encoded_len 20
         ([tree_meta r, tree_reserved0 r] @ to_le_bytes (pack_entry_ordinal r) @ to_le_bytes (tree_entry_count r) @
          tree_hash80 r))"

definition decode_tree_record :: "u32 \<Rightarrow> bytes \<Rightarrow> BinaryTreeRecord store_result" where
  "decode_tree_record layout raw =
     res_bind (require_supported_content_layout layout) (\<lambda>_.
       decode_row 20
         (cur_bind take_u8 (\<lambda>meta. cur_bind take_u8 (\<lambda>reserved0. cur_bind take_u32 (\<lambda>ordinal.
          cur_bind take_u32 (\<lambda>count. cur_bind (cursor_take 10) (\<lambda>hash80.
            cur_return \<lparr>tree_meta = meta, tree_reserved0 = reserved0, pack_entry_ordinal = ordinal,
              tree_entry_count = count, tree_hash80 = hash80\<rparr>))))))
         raw)"

section \<open>The codecs meet their contract\<close>

lemma layout_required: "require_supported_content_layout layout = Inr u \<longleftrightarrow> layout = BINARY_DB_CONTENT_LAYOUT_ID"
  by (simp add: require_supported_content_layout_def)

lemmas row_ok = res_bind_Inr layout_required require_encoded_len_ok decode_row_ok cursor_ok

interpretation blob_row: row_codec "encode_blob_record layout" "decode_blob_record layout" 64
  by unfold_locales (auto simp: encode_blob_record_def decode_blob_record_def row_ok whole_field cong: conj_cong)

interpretation snapshot_row: row_codec "encode_snapshot_record layout" "decode_snapshot_record layout" 88
proof (unfold_locales, goal_cases)
  case (1 r bs)
  then show ?case
    by (cases r) (auto simp: encode_snapshot_record_def decode_snapshot_record_def row_ok cong: conj_cong)
qed (auto simp: encode_snapshot_record_def decode_snapshot_record_def row_ok)

interpretation object_pack_row: row_codec "encode_object_pack_record layout" "decode_object_pack_record layout" 32
  by unfold_locales (auto simp: encode_object_pack_record_def decode_object_pack_record_def row_ok)

interpretation object_pack_member_row:
  row_codec "encode_object_pack_member_record layout" "decode_object_pack_member_record layout" 16
  by unfold_locales (auto simp: encode_object_pack_member_record_def decode_object_pack_member_record_def row_ok)

interpretation tree_pack_row: row_codec "encode_tree_pack_record layout" "decode_tree_pack_record layout" 32
  by unfold_locales (auto simp: encode_tree_pack_record_def decode_tree_pack_record_def row_ok)

interpretation tree_row: row_codec "encode_tree_record layout" "decode_tree_record layout" 20
  by unfold_locales (auto simp: encode_tree_record_def decode_tree_record_def row_ok whole_field cong: conj_cong)

end
