(* ===== verification/Content_Ids.thy ===== *)
theory Content_Ids
  imports Content_Codec
begin

text \<open>
  The public identifiers of the content store (\<open>content_binary_db/mod.rs\<close>): a prefix and the
  hexadecimal text of a hash, printed, parsed back and turned into the key of an index.  The facts
  on the payload of a snapshot stand here too.
\<close>

section \<open>Printing\<close>

definition upper_hex_digit :: "nat \<Rightarrow> char" where
  "upper_hex_digit n = ''0123456789ABCDEF'' ! n"

fun upper_hex :: "nat \<Rightarrow> string" where
  "upper_hex n = (if n < 16 then [upper_hex_digit n] else upper_hex (n div 16) @ [upper_hex_digit (n mod 16)])"

declare upper_hex.simps [simp del]

definition format_hex :: "nat \<Rightarrow> nat \<Rightarrow> string" where
  "format_hex width n = (let s = upper_hex n in replicate (width - length s) (CHR ''0'') @ s)"

definition hex_lower :: "bytes \<Rightarrow> string" where
  "hex_lower bs = hex_string bs"

definition hex_upper :: "bytes \<Rightarrow> string" where
  "hex_upper bs = concat (map (\<lambda>b. format_hex 2 (unat b)) bs)"

definition blob_id_from_sha256 :: "bytes \<Rightarrow> string" where
  "blob_id_from_sha256 sha256 = ''BLB-'' @ hex_lower (take 10 sha256)"

definition tree_id_from_hash80 :: "bytes \<Rightarrow> string" where
  "tree_id_from_hash80 hash80 = ''TRE-'' @ hex_upper hash80"

definition object_pack_id_from_hash48 :: "u64 \<Rightarrow> string" where
  "object_pack_id_from_hash48 hash48 = ''PCK-'' @ format_hex 12 (unat hash48)"

definition tree_pack_id_from_hash48 :: "u64 \<Rightarrow> string" where
  "tree_pack_id_from_hash48 hash48 = ''TPK-'' @ format_hex 12 (unat hash48)"

definition snapshot_id_from_hash48 :: "u64 \<Rightarrow> string" where
  "snapshot_id_from_hash48 hash48 = ''SNP-'' @ format_hex 12 (unat hash48)"

section \<open>Parsing\<close>

datatype id_error = IdPrefix | IdLength | IdHex | IdSlicePanic

definition ascii_lower :: "char \<Rightarrow> char" where
  "ascii_lower c = (let n = of_char c :: nat in if 65 \<le> n \<and> n \<le> 90 then char_of (n + 32) else c)"

definition eq_ignore_ascii_case :: "string \<Rightarrow> string \<Rightarrow> bool" where
  "eq_ignore_ascii_case s t \<longleftrightarrow> map ascii_lower s = map ascii_lower t"

definition is_char_boundary :: "string \<Rightarrow> nat \<Rightarrow> bool" where
  "is_char_boundary s i \<longleftrightarrow>
     i = length s \<or> i < length s \<and> \<not> (0x80 \<le> (of_char (s ! i) :: nat) \<and> of_char (s ! i) \<le> (0xBF :: nat))"

definition hex_nibble :: "char \<Rightarrow> nat option" where
  "hex_nibble c = hex_value c"

fun hex_key_bytes :: "string \<Rightarrow> id_error + bytes" where
  "hex_key_bytes (c # d # rest) =
     (case (hex_nibble c, hex_nibble d) of
        (Some hi, Some lo) \<Rightarrow> res_bind (hex_key_bytes rest) (\<lambda>bs. Inr (of_nat (16 * hi + lo) # bs))
      | _ \<Rightarrow> Inl IdHex)"
| "hex_key_bytes rest = Inr []"

text \<open>Slicing the prefix off panics when the text has a multi-byte character across its end.\<close>

definition prefixed_hex_key :: "nat \<Rightarrow> string \<Rightarrow> string \<Rightarrow> id_error + bytes" where
  "prefixed_hex_key n raw_value prefix =
     (let value = trim raw_value in
      if length value < length prefix then Inl IdPrefix
      else if \<not> is_char_boundary value (length prefix) then Inl IdSlicePanic
      else if \<not> eq_ignore_ascii_case (take (length prefix) value) prefix then Inl IdPrefix
      else let hex = drop (length prefix) value in
        if length hex \<noteq> n * 2 then Inl IdLength else hex_key_bytes hex)"

definition fold_hash :: "u64 \<Rightarrow> bytes \<Rightarrow> u64" where
  "fold_hash = foldl (\<lambda>acc byte. or (push_bit 8 acc) (ucast byte))"

definition prefixed_hash48_from_id :: "string \<Rightarrow> string \<Rightarrow> id_error + u64" where
  "prefixed_hash48_from_id value prefix =
     res_bind (prefixed_hex_key 6 value prefix) (\<lambda>key. Inr (fold_hash 0 key))"

definition object_pack_hash48_from_id :: "string \<Rightarrow> id_error + u64" where
  "object_pack_hash48_from_id pack_id = prefixed_hash48_from_id pack_id ''PCK-''"

definition tree_pack_hash48_from_id :: "string \<Rightarrow> id_error + u64" where
  "tree_pack_hash48_from_id pack_id = prefixed_hash48_from_id pack_id ''TPK-''"

definition snapshot_hash48_from_id :: "string \<Rightarrow> id_error + u64" where
  "snapshot_hash48_from_id snapshot_id = prefixed_hash48_from_id snapshot_id ''SNP-''"

definition blob_id_index_key :: "string \<Rightarrow> id_error + bytes" where
  "blob_id_index_key blob_id = prefixed_hex_key 10 blob_id ''BLB-''"

definition tree_id_index_key :: "string \<Rightarrow> id_error + bytes" where
  "tree_id_index_key tree_id = prefixed_hex_key 10 tree_id ''TRE-''"

definition object_pack_id_index_key :: "string \<Rightarrow> id_error + bytes" where
  "object_pack_id_index_key pack_id = res_bind (object_pack_hash48_from_id pack_id) (\<lambda>h. Inr (to_le_bytes64 h))"

definition tree_pack_id_index_key :: "string \<Rightarrow> id_error + bytes" where
  "tree_pack_id_index_key pack_id = res_bind (tree_pack_hash48_from_id pack_id) (\<lambda>h. Inr (to_le_bytes64 h))"

definition snapshot_id_index_key :: "string \<Rightarrow> id_error + bytes" where
  "snapshot_id_index_key snapshot_id = res_bind (snapshot_hash48_from_id snapshot_id) (\<lambda>h. Inr (to_le_bytes64 h))"

section \<open>Printed identifiers parse back\<close>

fun hex_digits :: "nat \<Rightarrow> nat \<Rightarrow> string" where
  "hex_digits 0 n = []"
| "hex_digits (Suc k) n = hex_digits k (n div 16) @ [upper_hex_digit (n mod 16)]"

lemma length_hex_digits [simp]: "length (hex_digits k n) = k"
  by (induction k arbitrary: n) auto

lemma upper_hex_digit_cases:
  assumes "n < 16"
  shows "hex_nibble (upper_hex_digit n) = Some n" "32 < (of_char (upper_hex_digit n) :: nat)"
    "(of_char (upper_hex_digit n) :: nat) < 0x80"
proof -
  have "\<forall>n \<in> set [0..<16]. hex_nibble (upper_hex_digit n) = Some n \<and> 32 < (of_char (upper_hex_digit n) :: nat) \<and>
      (of_char (upper_hex_digit n) :: nat) < 0x80"
    by code_simp
  then show "hex_nibble (upper_hex_digit n) = Some n" "32 < (of_char (upper_hex_digit n) :: nat)"
    "(of_char (upper_hex_digit n) :: nat) < 0x80"
    using assms by simp_all
qed

lemma upper_hex_small: "n < 16 \<Longrightarrow> upper_hex n = [upper_hex_digit n]"
  by (simp add: upper_hex.simps)

lemma format_hex_zero: "0 < k \<Longrightarrow> format_hex k 0 = replicate k (CHR ''0'')"
proof -
  assume "0 < k"
  then obtain j where "k = Suc j" by (cases k) auto
  then show ?thesis by (simp add: format_hex_def upper_hex_small upper_hex_digit_def replicate_append_same)
qed

lemma format_hex_step: "0 < k \<Longrightarrow> format_hex (Suc k) n = format_hex k (n div 16) @ [upper_hex_digit (n mod 16)]"
proof (cases "n < 16")
  case True
  assume "0 < k"
  with True show ?thesis by (simp add: format_hex_zero) (simp add: format_hex_def upper_hex_small)
next
  case False
  then show ?thesis by (simp add: format_hex_def Let_def upper_hex.simps [of n])
qed

lemma format_hex_digits: "n < 16 ^ Suc k \<Longrightarrow> format_hex (Suc k) n = hex_digits (Suc k) n"
proof (induction k arbitrary: n)
  case 0
  then show ?case by (simp add: format_hex_def upper_hex_small)
next
  case (Suc k)
  then have "n div 16 < 16 ^ Suc k" by (simp add: less_mult_imp_div_less mult.commute)
  from Suc.IH [OF this] show ?case by (simp only: format_hex_step hex_digits.simps(2) zero_less_Suc)
qed

lemma hex_digits_two: "hex_digits (2 * Suc k) n =
    hex_digits (2 * k) (n div 256) @ [upper_hex_digit (n div 16 mod 16), upper_hex_digit (n mod 16)]"
  by (simp add: div_mult2_eq [symmetric])

lemma hex_key_bytes_append:
  "even (length s) \<Longrightarrow> hex_key_bytes s = Inr bs \<Longrightarrow> hex_key_bytes (s @ t) = res_bind (hex_key_bytes t) (\<lambda>cs. Inr (bs @ cs))"
proof (induction s arbitrary: bs rule: hex_key_bytes.induct)
  case (1 c d rest)
  then show ?case by (auto simp: res_bind_Inr split: option.splits) (cases "hex_key_bytes t"; simp)
qed (auto simp: res_bind_def split: sum.splits)

lemma hex_key_digits:
  "\<exists>bs. hex_key_bytes (hex_digits (2 * k) n) = Inr bs \<and> length bs = k \<and>
     (n < 256 ^ k \<longrightarrow> k \<le> 7 \<longrightarrow> unat (fold_hash 0 bs) = n)"
proof (induction k arbitrary: n)
  case 0
  then show ?case by (simp add: fold_hash_def)
next
  case (Suc k)
  from Suc.IH [of "n div 256"] obtain bs where bs: "hex_key_bytes (hex_digits (2 * k) (n div 256)) = Inr bs" "length bs = k"
    "n div 256 < 256 ^ k \<longrightarrow> k \<le> 7 \<longrightarrow> unat (fold_hash 0 bs) = n div 256" by blast
  let ?b = "of_nat (16 * (n div 16 mod 16) + n mod 16) :: u8"
  have key: "hex_key_bytes (hex_digits (2 * Suc k) n) = Inr (bs @ [?b])"
    unfolding hex_digits_two by (subst hex_key_bytes_append [OF _ bs(1)]) (simp_all add: upper_hex_digit_cases del: of_nat_add of_nat_mult)
  have byte: "16 * (n div 16 mod 16) + n mod 16 = n mod 256"
    using mod_mult2_eq [of n 16 16] by simp
  have "unat (fold_hash 0 (bs @ [?b])) = n" if n: "n < 256 ^ Suc k" "Suc k \<le> 7"
  proof -
    let ?a = "fold_hash 0 bs"
    have a: "unat ?a = n div 256" using bs(3) n by (simp add: less_mult_imp_div_less mult.commute)
    have "n < 256 ^ 7" using n power_increasing [of "Suc k" 7 "256 :: nat"] by simp
    then have lt: "n < 2 ^ 64" by simp
    have disj: "and (push_bit 8 ?a) (ucast ?b :: u64) = 0"
      by (rule bit_word_eqI) (auto simp: bit_simps dest: bit_imp_le_length)
    have "fold_hash 0 (bs @ [?b]) = push_bit 8 ?a + ucast ?b"
      using disj by (simp add: fold_hash_def disjunctive_add_eq_or)
    also have "\<dots> = of_nat (256 * unat ?a + n mod 256)"
      unfolding byte by (simp add: push_bit_eq_mult unsigned_of_nat take_bit_eq_mod ac_simps del: of_nat_mod)
    finally show ?thesis using a lt by (simp add: unat_of_nat take_bit_eq_mod)
  qed
  with key bs(2) show ?case by simp
qed

lemma hex_digits_chars: "c \<in> set (hex_digits k n) \<Longrightarrow> 32 < (of_char c :: nat) \<and> (of_char c :: nat) < 0x80"
  by (induction k arbitrary: n) (auto simp: upper_hex_digit_cases)

lemma drop_bit_48_iff: "drop_bit 48 (h :: u64) = 0 \<longleftrightarrow> unat h < 2 ^ 48"
proof -
  have "drop_bit 48 h = 0 \<longleftrightarrow> unat (drop_bit 48 h) = 0" by (simp add: unat_eq_0)
  also have "unat (drop_bit 48 h) = unat h div 2 ^ 48" by (simp add: drop_bit_eq_div unat_div_distrib)
  finally show ?thesis by (simp add: div_eq_0_iff)
qed

lemma prefixed_hash48_format:
  assumes "drop_bit 48 h = 0" and "length prefix = 4"
    and "\<forall>c \<in> set prefix. 32 < (of_char c :: nat) \<and> (of_char c :: nat) < 0x80"
  shows "prefixed_hash48_from_id (prefix @ format_hex 12 (unat h)) prefix = Inr h"
proof -
  let ?s = "hex_digits 12 (unat h)"
  have lt: "unat h < 256 ^ 6" using assms(1) by (simp add: drop_bit_48_iff)
  then have fmt: "format_hex 12 (unat h) = ?s" using format_hex_digits [of "unat h" 11] by simp
  have "\<forall>c \<in> set (prefix @ ?s). 32 < (of_char c :: nat) \<and> (of_char c :: nat) < 0x80"
    using assms(3) hex_digits_chars by auto
  then have t: "trim (prefix @ ?s) = prefix @ ?s" by (rule trim_keeps)
  have "?s ! 0 \<in> set ?s" by (rule nth_mem) simp
  then have b: "is_char_boundary (prefix @ ?s) 4"
    using hex_digits_chars [of "?s ! 0" 12 "unat h"] assms(2) by (simp add: is_char_boundary_def nth_append)
  from hex_key_digits [of 6 "unat h"] obtain bs where "hex_key_bytes ?s = Inr bs" "unat (fold_hash 0 bs) = unat h"
    using lt by auto
  then have "hex_key_bytes ?s = Inr bs" "fold_hash 0 bs = h" by (simp_all add: word_unat_eq_iff)
  with t b assms(2) show ?thesis
    by (simp add: prefixed_hash48_from_id_def prefixed_hex_key_def fmt eq_ignore_ascii_case_def)
qed

text \<open>Text that neither begins nor ends like white space is trimmed already.\<close>

lemma trim_fixed:
  assumes "s \<noteq> []" and "\<forall>w \<in> set utf8_whitespace. hd w \<noteq> hd s \<and> last w \<noteq> last s"
  shows "trim s = s"
proof -
  have ne: "\<forall>w \<in> set utf8_whitespace. w \<noteq> []" using whitespace_ends by blast
  have "strip_one utf8_whitespace (hd s # tl s) = hd s # tl s"
    by (rule strip_one_keeps) (use assms(2) ne in auto)
  moreover have "strip_one (map rev utf8_whitespace) (last s # tl (rev s)) = last s # tl (rev s)"
    by (rule strip_one_keeps) (use assms(2) ne in \<open>auto simp: hd_rev\<close>)
  moreover have "rev s = last s # tl (rev s)" using assms(1) by (metis hd_Cons_tl hd_rev rev_is_Nil_conv)
  ultimately show ?thesis using assms(1) by (simp add: trim_def Let_def funpow_fixpoint)
qed

section \<open>Payloads of snapshots\<close>

lemma push_parents_ok:
  "push_parents is = Inr out \<longleftrightarrow> (\<forall>i \<in> set is. i \<noteq> 0xFFFFFFFF) \<and> out = concat (map (\<lambda>i. to_le_bytes (i + 1)) is)"
  by (induction "is" arbitrary: out) (auto simp: res_bind_Inr)

lemma take_parents_run:
  "\<forall>i \<in> set is. i \<noteq> 0xFFFFFFFF \<Longrightarrow>
     take_parents (length is) (concat (map (\<lambda>i. to_le_bytes (i + 1)) is) @ rest) = Inr (is, rest)"
proof (induction "is")
  case (Cons i "is")
  have "i + 1 \<noteq> 0" using Cons.prems by (auto simp: eq_neg_iff_add_eq_0 [symmetric])
  with Cons show ?case by (auto simp: cursor_ok)
qed (simp add: cursor_ok)

lemma length_parent_bytes: "length (concat (map (\<lambda>i. to_le_bytes (i + 1)) is)) = 4 * length is"
  by (induction "is") auto

lemma take_parent_extension_run:
  assumes "push_parents is = Inr out" and "is \<noteq> []" "length is < MAX_SNAPSHOT_PARENT_COUNT" "2 \<le> length rest"
  shows "take_parent_extension ([SNAPSHOT_PARENT_EXTENSION_VERSION] @ to_le_bytes16 (of_nat (length is)) @ out @ rest) =
    Inr (is, rest)"
proof -
  have n: "unat (of_nat (length is) :: u16) = length is"
    using assms(3) by (simp add: unat_of_nat take_bit_eq_mod MAX_SNAPSHOT_PARENT_COUNT_def)
  have out: "out = concat (map (\<lambda>i. to_le_bytes (i + 1)) is)" "\<forall>i \<in> set is. i \<noteq> 0xFFFFFFFF"
    using assms(1) by (simp_all add: push_parents_ok)
  have run: "take_parents (length is) (out @ rest) = Inr (is, rest)"
    unfolding out(1) by (rule take_parents_run [OF out(2)])
  have "length out = 4 * length is" by (simp add: out(1) length_parent_bytes)
  then show ?thesis
    using assms run by (auto simp: take_parent_extension_def cursor_ok Let_def n)
qed

lemma utf8_text_bytes: "utf8_string s \<Longrightarrow> utf8_text (string_bytes s) = Inr s"
  by (simp add: utf8_text_def utf8_string_def)

end
