(* ===== verification/Content_Properties.thy ===== *)
theory Content_Properties
  imports Content_Ids
begin

text \<open>
  What the rows, payloads and identifiers of the content store guarantee: they read back as they were
  written, and which texts the parser of identifiers cannot take.
\<close>

text \<open>
  C29. Every row of the content store round-trips, in both directions: for blobs, snapshots, object packs,
  pack members, tree packs and trees, some bytes are the encoding of a record exactly when they decode to
  it, so that no two records share an encoding and no two byte strings decode to the same record.
\<close>

theorem content_rows_roundtrip:
  "(encode_blob_record layout b = Inr bs \<longleftrightarrow> decode_blob_record layout bs = Inr b) \<and>
   (encode_snapshot_record layout s = Inr bs \<longleftrightarrow> decode_snapshot_record layout bs = Inr s) \<and>
   (encode_object_pack_record layout p = Inr bs \<longleftrightarrow> decode_object_pack_record layout bs = Inr p) \<and>
   (encode_object_pack_member_record layout m = Inr bs \<longleftrightarrow> decode_object_pack_member_record layout bs = Inr m) \<and>
   (encode_tree_pack_record layout q = Inr bs \<longleftrightarrow> decode_tree_pack_record layout bs = Inr q) \<and>
   (encode_tree_record layout t = Inr bs \<longleftrightarrow> decode_tree_record layout bs = Inr t)"
  by (intro conjI blob_row.codec_iff snapshot_row.codec_iff object_pack_row.codec_iff
      object_pack_member_row.codec_iff tree_pack_row.codec_iff tree_row.codec_iff)

text \<open>
  C30. The payload of a snapshot round-trips: decoded with the flags that its content calls for, the encoding
  gives back the line name, the message and the additional parents, each in order; an empty message is read
  back as no message.
\<close>

theorem snapshot_payload_roundtrip:
  assumes "encode_snapshot_payload layout p = Inr bs"
    and "utf8_string (payload_line_name p)" and "\<forall>m. payload_message p = Some m \<longrightarrow> utf8_string m"
    and "payload_line_name p \<noteq> [] \<longrightarrow> line_flag"
  shows "decode_snapshot_payload layout bs line_flag (additional_parent_snapshot_indices p \<noteq> []) =
    Inr (p\<lparr>payload_message := (if payload_message p = Some [] then None else payload_message p)\<rparr>)"
proof -
  let ?ps = "additional_parent_snapshot_indices p"
  let ?msg = "case payload_message p of None \<Rightarrow> [] | Some m \<Rightarrow> m"
  let ?tail = "to_le_bytes16 (of_nat (length ?msg)) @ string_bytes ?msg @ string_bytes (payload_line_name p)"
  from assms(1) obtain ext where lay: "layout = BINARY_DB_CONTENT_LAYOUT_ID" and few: "length ?ps < MAX_SNAPSHOT_PARENT_COUNT"
    and msg: "length ?msg < 2 ^ 16" and bs: "bs = ext @ ?tail"
    and ext: "if ?ps = [] then ext = [] else (\<exists>out. push_parents ?ps = Inr out \<and>
        ext = [SNAPSHOT_PARENT_EXTENSION_VERSION] @ to_le_bytes16 (of_nat (length ?ps)) @ out)"
    by (auto simp: encode_snapshot_payload_def Let_def row_ok not_le split: if_split_asm)
  have parents: "(if ?ps \<noteq> [] then take_parent_extension else cur_return []) bs = Inr (?ps, ?tail)"
  proof (cases "?ps = []")
    case True
    with ext bs show ?thesis by (simp add: cur_return_def)
  next
    case False
    with ext obtain out where out: "push_parents ?ps = Inr out"
      "ext = [SNAPSHOT_PARENT_EXTENSION_VERSION] @ to_le_bytes16 (of_nat (length ?ps)) @ out" by auto
    have "2 \<le> length ?tail" by simp
    from take_parent_extension_run [OF out(1) False few this] False show ?thesis by (simp add: bs out(2))
  qed
  have n: "unat (of_nat (length ?msg) :: u16) = length ?msg" using msg by (simp add: unat_of_nat take_bit_eq_mod)
  have read: "cur_bind (if ?ps \<noteq> [] then take_parent_extension else cur_return []) (\<lambda>parents.
      cur_bind take_u16 (\<lambda>message_len. cur_bind (cursor_take (unat message_len)) (\<lambda>message.
      cur_bind (\<lambda>rest. cursor_take (length rest) rest) (\<lambda>line_name. cur_return (parents, message, line_name))))) bs =
      Inr ((?ps, string_bytes ?msg, string_bytes (payload_line_name p)), [])"
    using parents by (auto simp: cursor_ok n)
  have "utf8_string ?msg" using assms(3) by (auto simp: utf8_string_def string_bytes_def split: option.splits)
  then have texts: "utf8_text (string_bytes (payload_line_name p)) = Inr (payload_line_name p)"
    "utf8_text (string_bytes ?msg) = Inr ?msg" using assms(2) by (simp_all only: utf8_text_bytes)
  have "string_bytes (payload_line_name p) = [] \<longleftrightarrow> payload_line_name p = []" "string_bytes ?msg = [] \<longleftrightarrow> ?msg = []"
    by (simp_all add: string_bytes_def)
  with texts assms(4) show ?thesis
    unfolding decode_snapshot_payload_def read
    by (cases p) (auto simp: require_supported_content_layout_def lay split: option.splits)
qed

definition demo_snapshot_payload :: BinarySnapshotPayload where
  "demo_snapshot_payload = \<lparr>payload_line_name = ''main'', payload_message = Some ''first'',
     additional_parent_snapshot_indices = [3, 7]\<rparr>"

lemma demo_payload_encodes:
  "is_ok (encode_snapshot_payload 1 demo_snapshot_payload)" "utf8_string ''main''" "utf8_string ''first''"
  by (simp_all add: demo_snapshot_payload_def encode_snapshot_payload_def MAX_SNAPSHOT_PARENT_COUNT_def
      require_supported_content_layout_def BINARY_DB_CONTENT_LAYOUT_ID_def utf8_string_def string_bytes_def)

theorem snapshot_payload_roundtrip_witness:
  "\<exists>bs. encode_snapshot_payload 1 demo_snapshot_payload = Inr bs \<and>
     decode_snapshot_payload 1 bs True True = Inr demo_snapshot_payload"
proof -
  obtain bs where bs: "encode_snapshot_payload 1 demo_snapshot_payload = Inr bs"
    using demo_payload_encodes by (auto simp: is_ok_iff)
  with snapshot_payload_roundtrip [OF bs, of True] demo_payload_encodes show ?thesis
    by (auto simp: demo_snapshot_payload_def)
qed

text \<open>
  The identifiers of snapshots, object packs and tree packs name their hash: for a 48-bit hash the printed
  identifier parses back to it, so different hashes print differently, and its index key is the hash in
  little-endian order.
\<close>

theorem content_ids_roundtrip:
  assumes "drop_bit 48 h = 0"
  shows "snapshot_hash48_from_id (snapshot_id_from_hash48 h) = Inr h \<and>
    object_pack_hash48_from_id (object_pack_id_from_hash48 h) = Inr h \<and>
    tree_pack_hash48_from_id (tree_pack_id_from_hash48 h) = Inr h \<and>
    snapshot_id_index_key (snapshot_id_from_hash48 h) = Inr (to_le_bytes64 h)"
  using prefixed_hash48_format [OF assms, of "''SNP-''"] prefixed_hash48_format [OF assms, of "''PCK-''"]
    prefixed_hash48_format [OF assms, of "''TPK-''"]
  by (simp add: snapshot_hash48_from_id_def snapshot_id_from_hash48_def object_pack_hash48_from_id_def
      object_pack_id_from_hash48_def tree_pack_hash48_from_id_def tree_pack_id_from_hash48_def
      snapshot_id_index_key_def)

theorem content_ids_roundtrip_witness:
  "snapshot_id_from_hash48 0xABC = ''SNP-000000000ABC'' \<and> snapshot_hash48_from_id ''SNP-000000000ABC'' = Inr 0xABC"
proof -
  have id: "snapshot_id_from_hash48 0xABC = ''SNP-000000000ABC''" by code_simp
  have "drop_bit 48 (0xABC :: u64) = 0" by simp
  from content_ids_roundtrip [OF this] id show ?thesis by simp
qed

text \<open>
  C40. The parser of identifiers panics on some text: whenever a text, trimmed, is longer than the prefix and
  has the middle of a multi-byte character at the end of the prefix, the slice that cuts the prefix off is out
  of bounds of the characters, and the caller gets a panic instead of the error for malformed identifiers.
\<close>

theorem id_parser_panics:
  assumes "length prefix < length (trim s)"
    and "utf8_cont (of_nat (of_char (trim s ! length prefix)))"
  shows "prefixed_hex_key n s prefix = Inl IdSlicePanic"
proof -
  let ?c = "of_char (trim s ! length prefix) :: nat"
  have "?c < 256" by simp
  with assms(2) have "0x80 \<le> ?c \<and> ?c \<le> 0xBF"
    by (simp add: utf8_cont_def word_le_nat_alt unat_of_nat take_bit_eq_mod)
  with assms(1) show ?thesis by (simp add: prefixed_hex_key_def is_char_boundary_def)
qed

definition accented_id :: string where
  "accented_id = ''SNP'' @ map char_of [0xC3, 0xB6 :: nat]"

lemma accented_id_shape: "utf8_string accented_id" "trim accented_id = accented_id"
proof -
  show "utf8_string accented_id" by (simp add: utf8_string_def accented_id_def string_bytes_def utf8_cont_def)
  have "\<forall>w \<in> set utf8_whitespace. hd w \<noteq> CHR ''S'' \<and> last w \<noteq> char_of (0xB6 :: nat)" by code_simp
  then show "trim accented_id = accented_id" by (intro trim_fixed) (simp_all add: accented_id_def)
qed

theorem id_parser_panics_witness:
  "utf8_string accented_id \<and> prefixed_hex_key 6 accented_id ''SNP-'' = Inl IdSlicePanic"
  using id_parser_panics [of "''SNP-''" accented_id 6]
  by (simp add: accented_id_shape) (simp add: accented_id_def utf8_cont_def)

end
