(* ===== verification/Line_Codec.thy ===== *)
theory Line_Codec
  imports Content_Ids
begin

text \<open>
  The rows of the line store (\<open>line_binary_db/mod.rs\<close>): a line is a named reference to a
  snapshot, kept in a fixed record that points to its name in a payload file and is found through an
  index on the hash of the name.  Timestamps are parsed and printed by a third-party crate, so both
  directions are parameters (\<open>line_clock\<close>).
\<close>

section \<open>Records\<close>

definition BINARY_DB_LINE_LAYOUT_ID :: u32 where "BINARY_DB_LINE_LAYOUT_ID = 1"

record BinaryLineRecord =
  line_meta :: u8
  line_reserved0 :: u8
  line_name_len :: u16
  line_name_offset :: u64
  head_snapshot_index_plus1 :: u32
  line_created_at_s :: u64
  line_updated_at_s :: u64
  line_archived_at_s :: u64

definition META_ARCHIVED :: u8 where "META_ARCHIVED = 0x01"
definition META_LINE_TOMBSTONE :: u8 where "META_LINE_TOMBSTONE = 0x02"

definition line_is_archived :: "BinaryLineRecord \<Rightarrow> bool" where
  "line_is_archived r \<longleftrightarrow> meta_has (line_meta r) META_ARCHIVED"

definition line_is_tombstone :: "BinaryLineRecord \<Rightarrow> bool" where
  "line_is_tombstone r \<longleftrightarrow> meta_has (line_meta r) META_LINE_TOMBSTONE"

definition head_snapshot_index :: "BinaryLineRecord \<Rightarrow> u32 option" where
  "head_snapshot_index r = minus_one (head_snapshot_index_plus1 r)"

definition line_record_file :: "u32 \<Rightarrow> BinaryFileId" where
  "line_record_file layout = record_file_id ''line.bin'' layout 40"

definition line_payload_file :: "u32 \<Rightarrow> BinaryPayloadFileId" where
  "line_payload_file layout = \<lparr>payload_relative_path = [Normal ''line_name_payload.bin''], payload_layout_id = layout\<rparr>"

definition line_name_index :: "u32 \<Rightarrow> BinaryIndexId" where
  "line_name_index layout = fixed_index ''line_name.idx'' layout 8 False"

definition require_supported_line_layout :: "u32 \<Rightarrow> unit store_result" where
  "require_supported_line_layout layout = (if layout = BINARY_DB_LINE_LAYOUT_ID then Inr () else Inl DbOther)"

definition validate_line_record :: "BinaryLineRecord \<Rightarrow> unit store_result" where
  "validate_line_record r =
     (if and (line_meta r) (not (or META_ARCHIVED META_LINE_TOMBSTONE)) \<noteq> 0 then Inl DbOther
      else if line_reserved0 r \<noteq> 0 then Inl DbOther
      else if line_name_len r = 0 then Inl DbOther
      else if line_name_offset r < 4 then Inl DbOther
      else if line_is_archived r \<noteq> (line_archived_at_s r \<noteq> 0) then Inl DbOther
      else Inr ())"

definition encode_line_record :: "u32 \<Rightarrow> BinaryLineRecord \<Rightarrow> bytes store_result" where
  "encode_line_record layout r =
     res_bind (require_supported_line_layout layout) (\<lambda>_.
     res_bind (validate_line_record r) (\<lambda>_.
       require_encoded_len 40
         ([line_meta r] @ [line_reserved0 r] @ to_le_bytes16 (line_name_len r) @ to_le_bytes64 (line_name_offset r) @
          to_le_bytes (head_snapshot_index_plus1 r) @ to_le_bytes64 (line_created_at_s r) @
          to_le_bytes64 (line_updated_at_s r) @ to_le_bytes64 (line_archived_at_s r))))"

definition decode_line_record :: "u32 \<Rightarrow> bytes \<Rightarrow> BinaryLineRecord store_result" where
  "decode_line_record layout raw =
     res_bind (require_supported_line_layout layout) (\<lambda>_.
     res_bind (require_raw_len 40 raw) (\<lambda>_.
     let r = \<lparr>line_meta = raw ! 0, line_reserved0 = raw ! 1,
              line_name_len = from_le_bytes16 (slice_bytes 2 4 raw),
              line_name_offset = from_le_bytes64 (slice_bytes 4 12 raw),
              head_snapshot_index_plus1 = from_le_bytes (slice_bytes 12 16 raw),
              line_created_at_s = from_le_bytes64 (slice_bytes 16 24 raw),
              line_updated_at_s = from_le_bytes64 (slice_bytes 24 32 raw),
              line_archived_at_s = from_le_bytes64 (slice_bytes 32 40 raw)\<rparr>
     in res_bind (validate_line_record r) (\<lambda>_. Inr r)))"

definition require_supported_persisted_line_layout :: "u32 \<Rightarrow> unit store_result" where
  "require_supported_persisted_line_layout layout =
     (if layout = BINARY_DB_LINE_LAYOUT_ID then Inr () else Inl LayoutMismatch)"

definition line_record_file_for_layout :: "u32 \<Rightarrow> BinaryFileId store_result" where
  "line_record_file_for_layout layout =
     res_bind (require_supported_persisted_line_layout layout) (\<lambda>_. Inr (record_file_id ''line.bin'' layout 40))"

definition line_payload_file_for_layout :: "u32 \<Rightarrow> BinaryPayloadFileId store_result" where
  "line_payload_file_for_layout layout =
     res_bind (require_supported_persisted_line_layout layout) (\<lambda>_.
       Inr \<lparr>payload_relative_path = [Normal ''line_name_payload.bin''], payload_layout_id = layout\<rparr>)"

definition line_index_for_layout :: "u32 \<Rightarrow> BinaryIndexId store_result" where
  "line_index_for_layout layout =
     res_bind (require_supported_persisted_line_layout layout) (\<lambda>_. Inr (fixed_index ''line_name.idx'' layout 8 False))"

text \<open>A supported layout without a codec is declared unreachable; it stays an error here.\<close>

definition decode_line_record_for_layout :: "u32 \<Rightarrow> bytes \<Rightarrow> BinaryLineRecord store_result" where
  "decode_line_record_for_layout layout raw =
     (if layout = BINARY_DB_LINE_LAYOUT_ID then decode_line_record BINARY_DB_LINE_LAYOUT_ID raw
      else res_bind (require_supported_persisted_line_layout layout) (\<lambda>_. Inl DbOther))"

definition line_name_hash64 :: "bytes \<Rightarrow> u64" where
  "line_name_hash64 bs = foldl (\<lambda>hash byte. xor hash (ucast byte) * 0x00000100000001b3) 0xcbf29ce484222325 bs"

section \<open>Text and time\<close>

datatype line_error =
    LineDb BinaryDbErrorKind | LineId id_error | LineNameEmpty | LineNameTooLong | LineNamesEqual
  | LineAlreadyExists string | UnknownLine string | UnknownSnapshot string | SnapshotIndexOverflow
  | HeadTombstoned u32 | CasMismatch "string option" "string option"
  | ActiveWithArchivedAt | ArchivedWithoutArchivedAt | UnsupportedLineStatus string
  | TimestampEmpty | InvalidTimestamp | TimestampBeforeEpoch | TimestampOutOfRange

record line_clock =
  parse_rfc3339_seconds :: "string \<Rightarrow> int option"
  format_rfc3339_seconds :: "nat \<Rightarrow> string option"

definition ascii_digit :: "char \<Rightarrow> bool" where
  "ascii_digit c \<longleftrightarrow> 48 \<le> (of_char c :: nat) \<and> (of_char c :: nat) \<le> 57"

definition decimal_value :: "string \<Rightarrow> nat" where
  "decimal_value s = foldl (\<lambda>n c. 10 * n + (of_char c - 48)) 0 s"

text \<open>\<open>str::parse\<close> to an unsigned integer takes a leading plus sign and refuses overflow.\<close>

definition parse_unsigned :: "nat \<Rightarrow> string \<Rightarrow> nat option" where
  "parse_unsigned width s =
     (let digits = (if s \<noteq> [] \<and> hd s = CHR ''+'' then tl s else s)
      in if digits = [] \<or> \<not> list_all ascii_digit digits then None
         else if decimal_value digits < 2 ^ width then Some (decimal_value digits) else None)"

definition normalize_line_name :: "string \<Rightarrow> line_error + string" where
  "normalize_line_name line_name = (let name = trim line_name in if name = [] then Inl LineNameEmpty else Inr name)"

definition parse_epoch_seconds :: "line_clock \<Rightarrow> string option \<Rightarrow> line_error + u64" where
  "parse_epoch_seconds clock text =
     (case text of
        None \<Rightarrow> Inr 0
      | Some t \<Rightarrow>
          let v = trim t in
          if v = [] then Inr 0
          else case parse_unsigned 64 v of
                 Some seconds \<Rightarrow> Inr (of_nat seconds)
               | None \<Rightarrow>
                   (case parse_rfc3339_seconds clock v of
                      None \<Rightarrow> Inl InvalidTimestamp
                    | Some timestamp \<Rightarrow> if 0 \<le> timestamp then Inr (of_int timestamp) else Inl TimestampBeforeEpoch))"

definition parse_required_epoch_seconds :: "line_clock \<Rightarrow> string \<Rightarrow> line_error + u64" where
  "parse_required_epoch_seconds clock text =
     res_bind (parse_epoch_seconds clock (Some text)) (\<lambda>parsed. if parsed = 0 then Inl TimestampEmpty else Inr parsed)"

definition format_epoch_seconds :: "line_clock \<Rightarrow> u64 \<Rightarrow> line_error + string option" where
  "format_epoch_seconds clock v =
     (if v = 0 then Inr None
      else if 2 ^ 63 \<le> unat v then Inl TimestampOutOfRange
      else case format_rfc3339_seconds clock (unat v) of
             None \<Rightarrow> Inl TimestampOutOfRange | Some text \<Rightarrow> Inr (Some text))"

definition status_fields :: "line_clock \<Rightarrow> string \<Rightarrow> string option \<Rightarrow> line_error + (u8 \<times> u64)" where
  "status_fields clock status archived_at =
     (let s = trim status in
      if s = [] \<or> s = ''active'' then
        res_bind (parse_epoch_seconds clock archived_at) (\<lambda>at. if at \<noteq> 0 then Inl ActiveWithArchivedAt else Inr (0, 0))
      else if s = ''archived'' then
        res_bind (parse_epoch_seconds clock archived_at) (\<lambda>at.
          if at = 0 then Inl ArchivedWithoutArchivedAt else Inr (META_ARCHIVED, at))
      else Inl (UnsupportedLineStatus s))"

definition line_identity_from_index :: "u32 \<Rightarrow> string" where
  "line_identity_from_index i = ''LNE-'' @ format_hex 8 (min (unat i + 1) (2 ^ 32 - 1))"

section \<open>The codec meets its contract\<close>

lemma line_layout_required: "require_supported_line_layout layout = Inr u \<longleftrightarrow> layout = BINARY_DB_LINE_LAYOUT_ID"
  by (simp add: require_supported_line_layout_def)

lemma slices_40:
  assumes "length raw = 40"
  shows "[raw ! 0] @ [raw ! 1] @ slice_bytes 2 4 raw @ slice_bytes 4 12 raw @ slice_bytes 12 16 raw @
    slice_bytes 16 24 raw @ slice_bytes 24 32 raw @ slice_bytes 32 40 raw = raw"
proof -
  have "[raw ! 0] = slice_bytes 0 1 raw" "[raw ! 1] = slice_bytes 1 2 raw"
    using assms by (cases raw; cases "tl raw"; simp add: slice_bytes_def)+
  moreover have "slice_bytes 0 40 raw = raw" using slice_bytes_all [of raw] assms by simp
  ultimately show ?thesis by (simp add: slice_bytes_glue)
qed

interpretation line_row: row_codec "encode_line_record layout" "decode_line_record layout" 40
proof (unfold_locales, goal_cases)
  case (1 r bs)
  then show ?case
    by (cases r) (auto simp: encode_line_record_def decode_line_record_def res_bind_Inr line_layout_required
        require_encoded_len_ok require_raw_len_def slice_bytes_def Let_def)
next
  case (2 bs r)
  then have raw: "length bs = 40" by (auto simp: decode_line_record_def res_bind_Inr require_raw_len_def split: if_splits)
  have len: "length (slice_bytes 2 4 bs) = 2" "length (slice_bytes 4 12 bs) = 8" "length (slice_bytes 12 16 bs) = 4"
    "length (slice_bytes 16 24 bs) = 8" "length (slice_bytes 24 32 bs) = 8" "length (slice_bytes 32 40 bs) = 8"
    using raw by (simp_all add: slice_bytes_def)
  from 2 slices_40 [OF raw] show ?case
    by (auto simp: decode_line_record_def encode_line_record_def res_bind_Inr require_encoded_len_ok raw len
        to_from_le_bytes to_from_le_bytes16 to_from_le_bytes64 Let_def)
next
  case (3 r bs)
  then show ?case by (auto simp: encode_line_record_def res_bind_Inr require_encoded_len_ok)
qed

lemma encode_line_valid: "encode_line_record layout r = Inr bs \<Longrightarrow> validate_line_record r = Inr ()"
  by (auto simp: encode_line_record_def res_bind_Inr)

end
