(* ===== verification/Line_Store.thy ===== *)
theory Line_Store
  imports Line_Codec Txn_Steps
begin

text \<open>
  The operations of the line store (\<open>line_binary_db/mod.rs\<close>, \<open>line_store.rs\<close>): lines are
  listed, found, created, archived, renamed, deleted and moved to another head.  Every change runs in a
  write transaction under the content lock; leaving an operation without a commit drops the transaction,
  which rolls its writes back.
\<close>

section \<open>Reading through a transaction\<close>

text \<open>The trait \<open>LineReadAccess\<close> with its two implementations, for write and for read transactions.\<close>

record 's line_access =
  access_read_record :: "BinaryFileId \<Rightarrow> u32 \<Rightarrow> ('s, BinaryDbErrorKind, bytes) io"
  access_read_payload :: "BinaryPayloadFileId \<Rightarrow> nat \<Rightarrow> u32 \<Rightarrow> ('s, BinaryDbErrorKind, bytes) io"
  access_lookup_index :: "BinaryIndexId \<Rightarrow> bytes \<Rightarrow> ('s, BinaryDbErrorKind, u32 list) io"

definition write_access :: "LocalBinaryDbFs \<Rightarrow> (BinaryDbWriteTxn \<times> io_world) line_access" where
  "write_access db = \<lparr>access_read_record = (\<lambda>f i. io_over (read_record db f i)),
     access_read_payload = (\<lambda>f off len. io_over (read_payload db f off len)),
     access_lookup_index = txn_lookup_index db\<rparr>"

definition read_access :: "LocalBinaryDbFs \<Rightarrow> (BinaryDbReadTxn \<times> io_world) line_access" where
  "read_access db = \<lparr>access_read_record = read_txn_read_record db,
     access_read_payload = read_txn_read_payload db, access_lookup_index = read_txn_lookup_index db\<rparr>"

definition read_line_name_for_layout :: "'s line_access \<Rightarrow> BinaryLineRecord \<Rightarrow> u32 \<Rightarrow> ('s, BinaryDbErrorKind, string) io" where
  "read_line_name_for_layout acc r layout =
     io_bind (io_lift (line_payload_file_for_layout layout)) (\<lambda>file.
     io_bind (access_read_payload acc file (unat (line_name_offset r)) (ucast (line_name_len r))) (\<lambda>bytes.
       io_lift (utf8_text bytes)))"

fun scan_lines ::
    "'s line_access \<Rightarrow> string \<Rightarrow> u32 \<Rightarrow> u32 list \<Rightarrow> ('s, BinaryDbErrorKind, (u32 \<times> BinaryLineRecord) option) io" where
  "scan_lines acc line_name layout [] = io_return None"
| "scan_lines acc line_name layout (line_index # rest) =
     io_bind (io_lift (line_record_file_for_layout layout)) (\<lambda>file.
     io_bind (access_read_record acc file line_index) (\<lambda>raw.
     io_bind (io_lift (decode_line_record_for_layout layout raw)) (\<lambda>r.
     if line_is_tombstone r then scan_lines acc line_name layout rest
     else
     io_bind (read_line_name_for_layout acc r layout) (\<lambda>stored_name.
       if stored_name = line_name then io_return (Some (line_index, r))
       else scan_lines acc line_name layout rest))))"

definition find_line_for_layout ::
    "'s line_access \<Rightarrow> string \<Rightarrow> u32 \<Rightarrow> ('s, BinaryDbErrorKind, (u32 \<times> BinaryLineRecord) option) io" where
  "find_line_for_layout acc name layout =
     (let line_name = trim name in
      if line_name = [] then io_return None
      else
      io_bind (io_lift (line_index_for_layout layout)) (\<lambda>index.
      io_bind (access_lookup_index acc index (to_le_bytes64 (line_name_hash64 (string_bytes line_name)))) (\<lambda>candidates.
        scan_lines acc line_name layout candidates)))"

definition find_line :: "'s line_access \<Rightarrow> string \<Rightarrow> ('s, BinaryDbErrorKind, (u32 \<times> BinaryLineRecord) option) io" where
  "find_line acc name = find_line_for_layout acc name BINARY_DB_LINE_LAYOUT_ID"

definition snapshot_id_at :: "'s line_access \<Rightarrow> u32 \<Rightarrow> ('s, line_error, string) io" where
  "snapshot_id_at acc i =
     io_bind (io_map_err LineDb (access_read_record acc (snapshot_record_file 1) i)) (\<lambda>raw.
     io_bind (io_map_err LineDb (io_lift (decode_snapshot_record 1 raw))) (\<lambda>r.
       if snapshot_is_tombstone r then io_fail (HeadTombstoned i)
       else io_return (snapshot_id_from_hash48 (snapshot_hash48 r))))"

fun scan_snapshots :: "'s line_access \<Rightarrow> string \<Rightarrow> u32 list \<Rightarrow> ('s, line_error, u32) io" where
  "scan_snapshots acc snapshot_id [] = io_fail (UnknownSnapshot snapshot_id)"
| "scan_snapshots acc snapshot_id (i # rest) =
     io_bind (snapshot_id_at acc i) (\<lambda>found.
       if eq_ignore_ascii_case found snapshot_id
       then (if i = 0xFFFFFFFF then io_fail SnapshotIndexOverflow else io_return (i + 1))
       else scan_snapshots acc snapshot_id rest)"

definition resolve_snapshot_index_plus1 :: "'s line_access \<Rightarrow> string option \<Rightarrow> ('s, line_error, u32) io" where
  "resolve_snapshot_index_plus1 acc snapshot_id =
     (case snapshot_id of
        None \<Rightarrow> io_return 0
      | Some text \<Rightarrow>
          let id = trim text in
          if id = [] then io_return 0
          else
          io_bind (io_lift (case snapshot_id_index_key id of Inl e \<Rightarrow> Inl (LineId e) | Inr key \<Rightarrow> Inr key)) (\<lambda>key.
          io_bind (io_map_err LineDb (access_lookup_index acc (snapshot_id_index 1) key)) (\<lambda>candidates.
            scan_snapshots acc id candidates)))"

section \<open>Views\<close>

record LineRecord =
  view_line_id :: string
  view_line_name :: string
  view_status :: string
  view_archived_at :: "string option"
  view_created_at :: "string option"
  view_updated_at :: "string option"
  view_head_snapshot_id :: "string option"

definition line_status :: "BinaryLineRecord \<Rightarrow> string" where
  "line_status r = (if line_is_tombstone r then ''deleted'' else if line_is_archived r then ''archived'' else ''active'')"

definition head_snapshot_id_of :: "'s line_access \<Rightarrow> BinaryLineRecord \<Rightarrow> ('s, line_error, string option) io" where
  "head_snapshot_id_of acc r =
     (case head_snapshot_index r of
        None \<Rightarrow> io_return None
      | Some i \<Rightarrow> io_bind (snapshot_id_at acc i) (\<lambda>id. io_return (Some id)))"

definition line_record_view_for_layout ::
    "line_clock \<Rightarrow> 's line_access \<Rightarrow> u32 \<Rightarrow> BinaryLineRecord \<Rightarrow> u32 \<Rightarrow> ('s, line_error, LineRecord) io" where
  "line_record_view_for_layout clock acc line_index r layout =
     io_bind (io_map_err LineDb (read_line_name_for_layout acc r layout)) (\<lambda>name.
     io_bind (io_lift (format_epoch_seconds clock (line_archived_at_s r))) (\<lambda>archived_at.
     io_bind (io_lift (format_epoch_seconds clock (line_created_at_s r))) (\<lambda>created_at.
     io_bind (io_lift (format_epoch_seconds clock (line_updated_at_s r))) (\<lambda>updated_at.
     io_bind (head_snapshot_id_of acc r) (\<lambda>head.
       io_return \<lparr>view_line_id = line_identity_from_index line_index, view_line_name = name,
         view_status = line_status r, view_archived_at = archived_at, view_created_at = created_at,
         view_updated_at = updated_at, view_head_snapshot_id = head\<rparr>)))))"

definition line_record_view ::
    "line_clock \<Rightarrow> 's line_access \<Rightarrow> u32 \<Rightarrow> BinaryLineRecord \<Rightarrow> ('s, line_error, LineRecord) io" where
  "line_record_view clock acc line_index r = line_record_view_for_layout clock acc line_index r BINARY_DB_LINE_LAYOUT_ID"

section \<open>Reading\<close>

type_synonym 'a line_read = "(BinaryDbReadTxn \<times> io_world, line_error, 'a) io"

definition persisted_line_layout :: "LocalBinaryDbFs \<Rightarrow> u32 option read_txn_io" where
  "persisted_line_layout db = (\<lambda>s.
     case read_txn_layout_id db (line_record_file BINARY_DB_LINE_LAYOUT_ID) s of
       (Inl MissingData, s') \<Rightarrow> (Inr None, s')
     | (Inl e, s') \<Rightarrow> (Inl e, s')
     | (Inr layout, s') \<Rightarrow> (res_bind (require_supported_persisted_line_layout layout) (\<lambda>_. Inr (Some layout)), s'))"

fun read_line_rows ::
    "LocalBinaryDbFs \<Rightarrow> BinaryFileId \<Rightarrow> u32 \<Rightarrow> nat list \<Rightarrow> (u32 \<times> BinaryLineRecord) list read_txn_io" where
  "read_line_rows db file layout [] = io_return []"
| "read_line_rows db file layout (i # is) =
     io_bind (read_txn_read_record db file (of_nat i)) (\<lambda>raw.
     io_bind (io_lift (decode_line_record_for_layout layout raw)) (\<lambda>r.
     io_bind (read_line_rows db file layout is) (\<lambda>rows.
       io_return (if line_is_tombstone r then rows else (of_nat i, r) # rows))))"

fun list_line_rows ::
    "line_clock \<Rightarrow> LocalBinaryDbFs \<Rightarrow> BinaryFileId \<Rightarrow> u32 \<Rightarrow> nat list \<Rightarrow> LineRecord list line_read" where
  "list_line_rows clock db file layout [] = io_return []"
| "list_line_rows clock db file layout (i # is) =
     io_bind (io_map_err LineDb (read_txn_read_record db file (of_nat i))) (\<lambda>raw.
     io_bind (io_map_err LineDb (io_lift (decode_line_record_for_layout layout raw))) (\<lambda>r.
     if line_is_tombstone r then list_line_rows clock db file layout is
     else
     io_bind (line_record_view_for_layout clock (read_access db) (of_nat i) r layout) (\<lambda>view.
     io_bind (list_line_rows clock db file layout is) (\<lambda>views.
       io_return (view # views)))))"

definition list_lines_with_read :: "line_clock \<Rightarrow> LocalBinaryDbFs \<Rightarrow> LineRecord list line_read" where
  "list_lines_with_read clock db =
     io_bind (io_map_err LineDb (persisted_line_layout db)) (\<lambda>persisted. case persisted of
       None \<Rightarrow> io_return []
     | Some layout \<Rightarrow>
         io_bind (io_map_err LineDb (io_lift (line_record_file_for_layout layout))) (\<lambda>file.
         io_bind (io_map_err LineDb (read_txn_record_count db file)) (\<lambda>count.
           list_line_rows clock db file layout [0..<unat count])))"

definition line_count_with_read :: "LocalBinaryDbFs \<Rightarrow> nat line_read" where
  "line_count_with_read db =
     io_bind (io_map_err LineDb (persisted_line_layout db)) (\<lambda>persisted. case persisted of
       None \<Rightarrow> io_return 0
     | Some layout \<Rightarrow>
         io_bind (io_map_err LineDb (io_lift (line_record_file_for_layout layout))) (\<lambda>file.
         io_bind (io_map_err LineDb (read_txn_record_count db file)) (\<lambda>count.
         io_bind (io_map_err LineDb (read_line_rows db file layout [0..<unat count])) (\<lambda>rows.
           io_return (length rows)))))"

definition find_line_with_persisted_layout ::
    "LocalBinaryDbFs \<Rightarrow> string \<Rightarrow> (u32 \<times> BinaryLineRecord) option read_txn_io" where
  "find_line_with_persisted_layout db line_name =
     io_bind (persisted_line_layout db) (\<lambda>persisted. case persisted of
       None \<Rightarrow> io_return None
     | Some layout \<Rightarrow> find_line_for_layout (read_access db) line_name layout)"

definition line_index_by_name_with_read :: "LocalBinaryDbFs \<Rightarrow> string \<Rightarrow> u32 option line_read" where
  "line_index_by_name_with_read db line_name =
     io_bind (io_map_err LineDb (find_line_with_persisted_layout db line_name)) (\<lambda>found.
       io_return (map_option fst found))"

definition line_by_name_with_read :: "line_clock \<Rightarrow> LocalBinaryDbFs \<Rightarrow> string \<Rightarrow> LineRecord option line_read" where
  "line_by_name_with_read clock db line_name =
     io_bind (io_map_err LineDb (persisted_line_layout db)) (\<lambda>persisted. case persisted of
       None \<Rightarrow> io_return None
     | Some layout \<Rightarrow>
         io_bind (io_map_err LineDb (find_line_for_layout (read_access db) line_name layout)) (\<lambda>found. case found of
           None \<Rightarrow> io_return None
         | Some (line_index, r) \<Rightarrow>
             io_bind (line_record_view_for_layout clock (read_access db) line_index r layout) (\<lambda>view.
               io_return (Some view))))"

text \<open>The name of a line stays readable after the line was deleted.\<close>

definition binary_line_name_at :: "LocalBinaryDbFs \<Rightarrow> u32 \<Rightarrow> string read_txn_io" where
  "binary_line_name_at db line_index =
     io_bind (persisted_line_layout db) (\<lambda>persisted. case persisted of
       None \<Rightarrow> io_fail MissingData
     | Some layout \<Rightarrow>
         io_bind (io_lift (line_record_file_for_layout layout)) (\<lambda>file.
         io_bind (read_txn_read_record db file line_index) (\<lambda>raw.
         io_bind (io_lift (decode_line_record_for_layout layout raw)) (\<lambda>r.
           read_line_name_for_layout (read_access db) r layout))))"

section \<open>Writing\<close>

type_synonym 'a line_io = "(BinaryDbWriteTxn \<times> io_world, line_error, 'a) io"

definition append_line_in_txn ::
    "LocalBinaryDbFs \<Rightarrow> u32 \<Rightarrow> string \<Rightarrow> u8 \<Rightarrow> u64 \<Rightarrow> u64 \<Rightarrow> u64 \<Rightarrow> u32 \<Rightarrow> (u32 \<times> BinaryLineRecord) line_io" where
  "append_line_in_txn db layout line_name meta created_at_s updated_at_s archived_at_s head_plus1 =
     (let line_name_bytes = string_bytes line_name in
      if 2 ^ 16 \<le> length line_name_bytes then io_fail LineNameTooLong
      else
      io_bind (io_map_err LineDb (txn_append_payload db (line_payload_file layout) line_name_bytes)) (\<lambda>range.
      let r = \<lparr>line_meta = meta, line_reserved0 = 0, line_name_len = of_nat (length line_name_bytes),
               line_name_offset = of_nat (payload_offset range), head_snapshot_index_plus1 = head_plus1,
               line_created_at_s = created_at_s, line_updated_at_s = updated_at_s,
               line_archived_at_s = archived_at_s\<rparr>
      in
      io_bind (io_map_err LineDb (io_lift (encode_line_record layout r))) (\<lambda>bytes.
      io_bind (io_map_err LineDb (txn_append_record db (line_record_file layout) bytes)) (\<lambda>line_index.
      io_bind (io_map_err LineDb (txn_append_index_candidate db (line_name_index layout)
                 (to_le_bytes64 (line_name_hash64 line_name_bytes)) line_index)) (\<lambda>_.
        io_return (line_index, r))))))"

definition mutate_line :: "LocalBinaryDbFs \<Rightarrow> u32 \<Rightarrow> u32 \<Rightarrow> BinaryLineRecord \<Rightarrow> unit line_io" where
  "mutate_line db layout line_index r =
     io_bind (io_map_err LineDb (io_lift (encode_line_record layout r))) (\<lambda>bytes.
       io_map_err LineDb (txn_overwrite_record db (line_record_file layout) line_index bytes))"

definition require_line :: "LocalBinaryDbFs \<Rightarrow> string \<Rightarrow> (u32 \<times> BinaryLineRecord) line_io" where
  "require_line db line_name =
     io_bind (io_map_err LineDb (find_line (write_access db) line_name)) (\<lambda>found. case found of
       None \<Rightarrow> io_fail (UnknownLine line_name) | Some line \<Rightarrow> io_return line)"

definition refuse_line :: "LocalBinaryDbFs \<Rightarrow> string \<Rightarrow> unit line_io" where
  "refuse_line db line_name =
     io_bind (io_map_err LineDb (find_line (write_access db) line_name)) (\<lambda>found.
       if found \<noteq> None then io_fail (LineAlreadyExists line_name) else io_return ())"

definition view_and_commit :: "line_clock \<Rightarrow> LocalBinaryDbFs \<Rightarrow> u32 \<Rightarrow> BinaryLineRecord \<Rightarrow> LineRecord line_io" where
  "view_and_commit clock db line_index r =
     io_bind (line_record_view clock (write_access db) line_index r) (\<lambda>view.
     io_bind (io_map_err LineDb (commit db)) (\<lambda>_. io_return view))"

definition create_line_body ::
    "line_clock \<Rightarrow> LocalBinaryDbFs \<Rightarrow> u32 \<Rightarrow> string \<Rightarrow> string option \<Rightarrow> u64 \<Rightarrow> LineRecord line_io" where
  "create_line_body clock db layout line_name head created_at_s =
     io_bind (refuse_line db line_name) (\<lambda>_.
     io_bind (resolve_snapshot_index_plus1 (write_access db) head) (\<lambda>head_plus1.
     io_bind (append_line_in_txn db layout line_name 0 created_at_s created_at_s 0 head_plus1) (\<lambda>(line_index, r).
       view_and_commit clock db line_index r)))"

definition bootstrap_line_body ::
    "line_clock \<Rightarrow> LocalBinaryDbFs \<Rightarrow> u32 \<Rightarrow> string \<Rightarrow> string \<Rightarrow> string option \<Rightarrow> string option \<Rightarrow> string option \<Rightarrow>
     string option \<Rightarrow> u32 line_io" where
  "bootstrap_line_body clock db layout line_name status created_at updated_at archived_at head =
     io_bind (refuse_line db line_name) (\<lambda>_.
     io_bind (io_lift (status_fields clock status archived_at)) (\<lambda>(meta, archived_at_s).
     io_bind (io_lift (parse_epoch_seconds clock created_at)) (\<lambda>created_at_s.
     io_bind (io_lift (parse_epoch_seconds clock updated_at)) (\<lambda>updated_at_s.
     io_bind (resolve_snapshot_index_plus1 (write_access db) head) (\<lambda>head_plus1.
     io_bind (append_line_in_txn db layout line_name meta created_at_s updated_at_s archived_at_s head_plus1) (\<lambda>(line_index, r).
     io_bind (io_map_err LineDb (commit db)) (\<lambda>_. io_return line_index)))))))"

definition archive_line_body :: "line_clock \<Rightarrow> LocalBinaryDbFs \<Rightarrow> u32 \<Rightarrow> string \<Rightarrow> u64 \<Rightarrow> LineRecord line_io" where
  "archive_line_body clock db layout line_name at =
     io_bind (require_line db line_name) (\<lambda>(line_index, r).
     if line_is_archived r then line_record_view clock (write_access db) line_index r
     else
     let r' = r\<lparr>line_meta := or (line_meta r) META_ARCHIVED, line_archived_at_s := at, line_updated_at_s := at\<rparr> in
     io_bind (mutate_line db layout line_index r') (\<lambda>_. view_and_commit clock db line_index r'))"

definition rename_line_body ::
    "line_clock \<Rightarrow> LocalBinaryDbFs \<Rightarrow> u32 \<Rightarrow> string \<Rightarrow> string \<Rightarrow> u64 \<Rightarrow> LineRecord line_io" where
  "rename_line_body clock db layout old_line_name new_line_name at =
     io_bind (refuse_line db new_line_name) (\<lambda>_.
     io_bind (require_line db old_line_name) (\<lambda>(line_index, r).
     let new_name_bytes = string_bytes new_line_name;
         new_key = to_le_bytes64 (line_name_hash64 new_name_bytes)
     in
     if 2 ^ 16 \<le> length new_name_bytes then io_fail LineNameTooLong
     else
     io_bind (io_map_err LineDb (txn_append_payload db (line_payload_file layout) new_name_bytes)) (\<lambda>range.
     let r' = r\<lparr>line_name_len := of_nat (length new_name_bytes), line_name_offset := of_nat (payload_offset range),
                line_updated_at_s := at\<rparr>
     in
     io_bind (mutate_line db layout line_index r') (\<lambda>_.
     io_bind (io_map_err LineDb (txn_lookup_index db (line_name_index layout) new_key)) (\<lambda>candidates.
     io_bind (if line_index \<in> set candidates then io_return ()
              else io_map_err LineDb (txn_append_index_candidate db (line_name_index layout) new_key line_index)) (\<lambda>_.
       view_and_commit clock db line_index r'))))))"

definition delete_line_body :: "line_clock \<Rightarrow> LocalBinaryDbFs \<Rightarrow> u32 \<Rightarrow> string \<Rightarrow> u64 \<Rightarrow> LineRecord line_io" where
  "delete_line_body clock db layout line_name at =
     io_bind (require_line db line_name) (\<lambda>(line_index, r).
     let r' = r\<lparr>line_meta := or (line_meta r) (or META_LINE_TOMBSTONE META_ARCHIVED), line_archived_at_s := at,
                line_updated_at_s := at\<rparr> in
     io_bind (mutate_line db layout line_index r') (\<lambda>_. view_and_commit clock db line_index r'))"

definition set_line_head_body ::
    "line_clock \<Rightarrow> LocalBinaryDbFs \<Rightarrow> u32 \<Rightarrow> string \<Rightarrow> string option \<Rightarrow> u64 \<Rightarrow> LineRecord line_io" where
  "set_line_head_body clock db layout line_name head at =
     io_bind (require_line db line_name) (\<lambda>(line_index, r).
     io_bind (resolve_snapshot_index_plus1 (write_access db) head) (\<lambda>head_plus1.
     let r' = r\<lparr>head_snapshot_index_plus1 := head_plus1, line_updated_at_s := at\<rparr> in
     io_bind (mutate_line db layout line_index r') (\<lambda>_. view_and_commit clock db line_index r')))"

definition compare_and_swap_body ::
    "line_clock \<Rightarrow> LocalBinaryDbFs \<Rightarrow> u32 \<Rightarrow> string \<Rightarrow> string option \<Rightarrow> string option \<Rightarrow> u64 \<Rightarrow> LineRecord line_io" where
  "compare_and_swap_body clock db layout line_name expected head at =
     io_bind (require_line db line_name) (\<lambda>(line_index, r).
     io_bind (line_record_view clock (write_access db) line_index r) (\<lambda>current.
     if view_head_snapshot_id current \<noteq> expected
     then io_bind (io_map_err LineDb (abort db)) (\<lambda>_. io_fail (CasMismatch expected (view_head_snapshot_id current)))
     else
     io_bind (resolve_snapshot_index_plus1 (write_access db) head) (\<lambda>head_plus1.
     let r' = r\<lparr>head_snapshot_index_plus1 := head_plus1, line_updated_at_s := at\<rparr> in
     io_bind (mutate_line db layout line_index r') (\<lambda>_. view_and_commit clock db line_index r'))))"

definition set_line_updated_at_body :: "LocalBinaryDbFs \<Rightarrow> u32 \<Rightarrow> string \<Rightarrow> u64 \<Rightarrow> unit line_io" where
  "set_line_updated_at_body db layout line_name at =
     io_bind (require_line db line_name) (\<lambda>(line_index, r).
     io_bind (mutate_line db layout line_index (r\<lparr>line_updated_at_s := at\<rparr>)) (\<lambda>_.
     io_bind (io_map_err LineDb (commit db)) (\<lambda>_. io_return ())))"

section \<open>The store\<close>

text \<open>
  A change begins a transaction, runs its body and drops the transaction.  The owner of the lock, the
  text of the lock file and the transaction id are inputs; without a result the lock is waited for.
\<close>

record line_session =
  session_owner :: nat
  session_metadata :: "path \<Rightarrow> bytes"
  session_txid :: nat
  session_clock :: line_clock

type_synonym 'a line_result = "((line_error + 'a) \<times> io_world) option"

definition in_write_txn :: "LocalBinaryDbFs \<Rightarrow> line_session \<Rightarrow> 'a line_io \<Rightarrow> io_world \<Rightarrow> 'a line_result" where
  "in_write_txn db se body w =
     map_option (\<lambda>(r, w1). case r of
         Inl e \<Rightarrow> (Inl (LineDb e), w1)
       | Inr t \<Rightarrow> (case body (t, w1) of (q, (t', w2)) \<Rightarrow> (q, drop_txn db t' w2)))
       (begin_with_fsync_policy db (session_owner se) (session_metadata se) (session_txid se) ContentWrite StoreFsync w)"

definition line_change ::
    "LocalBinaryDbFs \<Rightarrow> line_session \<Rightarrow> u32 \<Rightarrow> (line_error + 'a) \<Rightarrow> ('a \<Rightarrow> 'b line_io) \<Rightarrow> io_world \<Rightarrow> 'b line_result" where
  "line_change db se layout checked body w =
     (case require_supported_line_layout layout of
        Inl e \<Rightarrow> Some (Inl (LineDb e), w)
      | Inr _ \<Rightarrow> (case checked of Inl e \<Rightarrow> Some (Inl e, w) | Inr x \<Rightarrow> in_write_txn db se (body x) w))"

definition checked_name_time :: "line_session \<Rightarrow> string \<Rightarrow> string \<Rightarrow> line_error + (string \<times> u64)" where
  "checked_name_time se line_name at =
     res_bind (normalize_line_name line_name) (\<lambda>name.
     res_bind (parse_required_epoch_seconds (session_clock se) at) (\<lambda>at_s. Inr (name, at_s)))"

definition create_line :: "LocalBinaryDbFs \<Rightarrow> line_session \<Rightarrow> u32 \<Rightarrow> string \<Rightarrow> string option \<Rightarrow> string \<Rightarrow> io_world \<Rightarrow> LineRecord line_result" where
  "create_line db se layout line_name head created_at =
     line_change db se layout (checked_name_time se line_name created_at) (\<lambda>(name, at).
       create_line_body (session_clock se) db layout name head at)"

definition append_line_for_bootstrap ::
    "LocalBinaryDbFs \<Rightarrow> line_session \<Rightarrow> u32 \<Rightarrow> string \<Rightarrow> string \<Rightarrow> string option \<Rightarrow> string option \<Rightarrow> string option \<Rightarrow>
     string option \<Rightarrow> io_world \<Rightarrow> u32 line_result" where
  "append_line_for_bootstrap db se layout line_name status created_at updated_at archived_at head =
     line_change db se layout (normalize_line_name line_name) (\<lambda>name.
       bootstrap_line_body (session_clock se) db layout name status created_at updated_at archived_at head)"

definition archive_line :: "LocalBinaryDbFs \<Rightarrow> line_session \<Rightarrow> u32 \<Rightarrow> string \<Rightarrow> string \<Rightarrow> io_world \<Rightarrow> LineRecord line_result" where
  "archive_line db se layout line_name archived_at =
     line_change db se layout (checked_name_time se line_name archived_at) (\<lambda>(name, at).
       archive_line_body (session_clock se) db layout name at)"

definition rename_line :: "LocalBinaryDbFs \<Rightarrow> line_session \<Rightarrow> u32 \<Rightarrow> string \<Rightarrow> string \<Rightarrow> string \<Rightarrow> io_world \<Rightarrow> LineRecord line_result" where
  "rename_line db se layout old_line_name new_line_name updated_at =
     line_change db se layout
       (res_bind (normalize_line_name old_line_name) (\<lambda>old_name.
        res_bind (normalize_line_name new_line_name) (\<lambda>new_name.
        if old_name = new_name then Inl LineNamesEqual
        else res_bind (parse_required_epoch_seconds (session_clock se) updated_at) (\<lambda>at. Inr (old_name, new_name, at)))))
       (\<lambda>(old_name, new_name, at). rename_line_body (session_clock se) db layout old_name new_name at)"

definition delete_line :: "LocalBinaryDbFs \<Rightarrow> line_session \<Rightarrow> u32 \<Rightarrow> string \<Rightarrow> string \<Rightarrow> io_world \<Rightarrow> LineRecord line_result" where
  "delete_line db se layout line_name deleted_at =
     line_change db se layout (checked_name_time se line_name deleted_at) (\<lambda>(name, at).
       delete_line_body (session_clock se) db layout name at)"

definition set_line_head ::
    "LocalBinaryDbFs \<Rightarrow> line_session \<Rightarrow> u32 \<Rightarrow> string \<Rightarrow> string option \<Rightarrow> string \<Rightarrow> io_world \<Rightarrow> LineRecord line_result" where
  "set_line_head db se layout line_name head updated_at =
     line_change db se layout (checked_name_time se line_name updated_at) (\<lambda>(name, at).
       set_line_head_body (session_clock se) db layout name head at)"

definition compare_and_swap_line_head ::
    "LocalBinaryDbFs \<Rightarrow> line_session \<Rightarrow> u32 \<Rightarrow> string \<Rightarrow> string option \<Rightarrow> string option \<Rightarrow> string \<Rightarrow> io_world \<Rightarrow> LineRecord line_result" where
  "compare_and_swap_line_head db se layout line_name expected head updated_at =
     line_change db se layout (checked_name_time se line_name updated_at) (\<lambda>(name, at).
       compare_and_swap_body (session_clock se) db layout name expected head at)"

definition set_line_updated_at :: "LocalBinaryDbFs \<Rightarrow> line_session \<Rightarrow> u32 \<Rightarrow> string \<Rightarrow> string option \<Rightarrow> io_world \<Rightarrow> unit line_result" where
  "set_line_updated_at db se layout line_name updated_at =
     line_change db se layout
       (res_bind (normalize_line_name line_name) (\<lambda>name.
        res_bind (parse_epoch_seconds (session_clock se) updated_at) (\<lambda>at. Inr (name, at))))
       (\<lambda>(name, at). set_line_updated_at_body db layout name at)"

definition touch_line_updated_at :: "LocalBinaryDbFs \<Rightarrow> line_session \<Rightarrow> u32 \<Rightarrow> string \<Rightarrow> string \<Rightarrow> io_world \<Rightarrow> unit line_result" where
  "touch_line_updated_at db se layout line_name updated_at w =
     (case parse_required_epoch_seconds (session_clock se) updated_at of
        Inl e \<Rightarrow> Some (Inl e, w)
      | Inr _ \<Rightarrow> set_line_updated_at db se layout line_name (Some updated_at) w)"

text \<open>A read acquires the read locks of the content family, runs, and lets them go.\<close>

definition in_read_txn ::
    "LocalBinaryDbFs \<Rightarrow> line_session \<Rightarrow> nat \<Rightarrow> wait_env \<Rightarrow> 'a line_read \<Rightarrow> io_world \<Rightarrow> 'a line_result" where
  "in_read_txn db se deadline env body w =
     map_option (\<lambda>(t, env', w1). case body (t, w1) of
         (q, (t', w2)) \<Rightarrow> (q, case read_lock t' of Inl _ \<Rightarrow> w2 | Inr l \<Rightarrow> drop_read_lock l w2))
       (new_read_txn db (session_owner se) deadline ReadContent env w)"

definition list_lines :: "LocalBinaryDbFs \<Rightarrow> line_session \<Rightarrow> nat \<Rightarrow> wait_env \<Rightarrow> io_world \<Rightarrow> LineRecord list line_result" where
  "list_lines db se deadline env = in_read_txn db se deadline env (list_lines_with_read (session_clock se) db)"

definition line_count :: "LocalBinaryDbFs \<Rightarrow> line_session \<Rightarrow> nat \<Rightarrow> wait_env \<Rightarrow> io_world \<Rightarrow> nat line_result" where
  "line_count db se deadline env = in_read_txn db se deadline env (line_count_with_read db)"

definition line_by_name :: "LocalBinaryDbFs \<Rightarrow> line_session \<Rightarrow> nat \<Rightarrow> wait_env \<Rightarrow> string \<Rightarrow> io_world \<Rightarrow> LineRecord option line_result" where
  "line_by_name db se deadline env line_name =
     in_read_txn db se deadline env (line_by_name_with_read (session_clock se) db line_name)"

definition line_updated_at :: "LocalBinaryDbFs \<Rightarrow> line_session \<Rightarrow> nat \<Rightarrow> wait_env \<Rightarrow> string \<Rightarrow> io_world \<Rightarrow> string option line_result" where
  "line_updated_at db se deadline env line_name w =
     map_option (\<lambda>(r, w'). (res_bind r (\<lambda>line. Inr (Option.bind line view_updated_at)), w'))
       (line_by_name db se deadline env line_name w)"

end
