(* ===== verification/Line_Frames.thy ===== *)
theory Line_Frames
  imports Line_Store
begin

text \<open>
  What the proofs about stores above the Binary DB share: a value read from one file does not see writes
  to another, a write of a transaction is a write of the adapter in an equivalent world, and the index
  cache of a write transaction stays coherent.
\<close>

section \<open>Frames\<close>

lemma path_value_cases:
  assumes "steady db"
  shows "(\<exists>e. \<forall>w. path_value db rel w = Inl e) \<or> (\<forall>w. path_value db rel w = Inr (path_join (authority_root db) rel))"
proof (cases "path_value db rel undefined")
  case (Inl e)
  then show ?thesis using path_value_const [OF assms, of rel _ undefined] by metis
next
  case (Inr p)
  then show ?thesis using path_value_const [OF assms, of rel _ undefined] path_value_ok [OF Inr] by metis
qed

lemma stored_records_frame:
  assumes "steady db" and "files w' (record_path db f) = files w (record_path db f)"
  shows "stored_records db f w' = stored_records db f w"
  using path_value_cases [OF assms(1), of "file_relative_path f"] assms(2)
  by (auto simp: stored_records_def count_value_def valid_value_def file_or_empty_def record_path_def cong: if_cong option.case_cong sum.case_cong)

lemma read_value_frame:
  assumes "steady db" and "files w' (record_path db f) = files w (record_path db f)"
  shows "read_value db f i w' = read_value db f i w"
  using path_value_cases [OF assms(1), of "file_relative_path f"] assms(2)
  by (auto simp: read_value_def count_value_def valid_value_def record_path_def cong: if_cong option.case_cong sum.case_cong)

definition payload_path :: "LocalBinaryDbFs \<Rightarrow> BinaryPayloadFileId \<Rightarrow> path" where
  "payload_path db f = path_join (authority_root db) (payload_relative_path f)"

definition index_path :: "LocalBinaryDbFs \<Rightarrow> BinaryIndexId \<Rightarrow> path" where
  "index_path db idx = path_join (authority_root db) (index_relative_path idx)"

lemma payload_value_frame:
  assumes "steady db" and "files w' (payload_path db f) = files w (payload_path db f)"
  shows "payload_value db f off len w' = payload_value db f off len w"
  using path_value_cases [OF assms(1), of "payload_relative_path f"] assms(2)
  by (auto simp: payload_value_def layout_value_def file_or_empty_def payload_path_def cong: if_cong option.case_cong sum.case_cong)

lemma index_file_value_frame:
  assumes "steady db" and "files w' (index_path db idx) = files w (index_path db idx)"
  shows "index_file_value db idx w' = index_file_value db idx w"
  using path_value_cases [OF assms(1), of "index_relative_path idx"] assms(2)
  by (auto simp: index_file_value_def index_path_def cong: if_cong option.case_cong sum.case_cong)

lemma lookup_value_frame:
  assumes "steady db" and "files w' (index_path db idx) = files w (index_path db idx)"
  shows "lookup_value db idx key w' = lookup_value db idx key w"
  using index_file_value_frame [OF assms] by (simp add: lookup_value_file)

section \<open>Writes of a transaction\<close>

text \<open>The parts of a transaction that its writes keep.\<close>

definition same_txn :: "BinaryDbWriteTxn \<Rightarrow> BinaryDbWriteTxn \<Rightarrow> bool" where
  "same_txn t t' \<longleftrightarrow> write_context t' = write_context t \<and> commit_outcome t' = commit_outcome t \<and>
     finished t' = finished t \<and> fsync_policy t' = fsync_policy t"

lemma same_txn_refl [simp]: "same_txn t t"
  by (simp add: same_txn_def)

lemma same_txn_trans: "same_txn t u \<Longrightarrow> same_txn u v \<Longrightarrow> same_txn t v"
  by (simp add: same_txn_def)

lemma same_txn_cache [simp]: "same_txn t (t\<lparr>index_cache := c\<rparr>)"
  by (simp add: same_txn_def)

text \<open>Reading changes nothing but the index cache.\<close>

definition cache_only :: "BinaryDbWriteTxn \<Rightarrow> BinaryDbWriteTxn \<Rightarrow> bool" where
  "cache_only t t' \<longleftrightarrow> (\<exists>c. t' = t\<lparr>index_cache := c\<rparr>)"

lemma cache_only_refl [simp]: "cache_only t t"
  by (auto simp: cache_only_def intro: exI [of _ "index_cache t"])

lemma cache_only_trans: "cache_only t u \<Longrightarrow> cache_only u v \<Longrightarrow> cache_only t v"
  by (auto simp: cache_only_def)

lemma cache_only_same: "cache_only t t' \<Longrightarrow> same_txn t t'"
  by (auto simp: cache_only_def)

lemma cache_only_logs:
  assumes "cache_only t t'"
  shows "rollback_files t' = rollback_files t" "rollback_records t' = rollback_records t" "finished t' = finished t"
    "commit_outcome t' = commit_outcome t" "write_context t' = write_context t" "txn_lock t' = txn_lock t"
    "touched_files t' = touched_files t" "touched_directories t' = touched_directories t"
  using assms by (auto simp: cache_only_def)

lemma track_absolute_file_same:
  "same_txn t (track_absolute_file p t)" "index_cache (track_absolute_file p t) = index_cache t"
  by (auto simp: track_absolute_file_def same_txn_def Let_def split: option.split)

lemma push_rollback_same:
  "same_txn t (push_rollback_file p n t)" "index_cache (push_rollback_file p n t) = index_cache t"
  by (auto simp: push_rollback_file_def same_txn_def)

lemma track_for_write_quiet:
  assumes "track_relative_path_for_write db rel (t, w) = (r, (t', w'))"
  shows "quiet w w' \<and> same_txn t t' \<and> index_cache t' = index_cache t \<and> (calm w \<longrightarrow> calm w')"
proof (cases "store_path_for (authority_root db) rel")
  case (Inl e)
  with assms show ?thesis by (auto simp: track_relative_path_for_write_def)
next
  case (Inr p)
  obtain q v where q: "db_metadata_len p w = (q, v)" by fastforce
  note rd = db_metadata_len_reads [of p]
  have "calm w \<longrightarrow> calm v" using rd q by (auto simp: reads_def)
  with Inr assms q readsD_quiet [OF rd q] show ?thesis
    by (cases q; cases "p \<in> set (map rollback_path (rollback_files t))")
      (auto simp: track_relative_path_for_write_def track_absolute_file_for_write_def track_absolute_file_same
        intro: same_txn_trans [OF push_rollback_same(1) track_absolute_file_same(1)]
        simp: push_rollback_same)
qed

lemma tracked_write_ok:
  assumes "io_bind check_open (\<lambda>_. io_bind (track_relative_path_for_write db rel) (\<lambda>_. with_context m)) (t, w) = (Inr x, (t', w'))"
  shows "\<exists>v. quiet w v \<and> m (write_context t) v = (Inr x, w') \<and> same_txn t t' \<and> index_cache t' = index_cache t \<and>
    \<not> finished t \<and> active (write_context t)"
proof -
  from assms obtain t1 w1 where op: "ensure_write_open t = Inr ()"
    and tr: "track_relative_path_for_write db rel (t, w) = (Inr (), (t1, w1))" and m: "with_context m (t1, w1) = (Inr x, (t', w'))"
    by (auto simp: io_bind_ok check_open_run)
  note k = track_for_write_quiet [OF tr]
  have "\<not> finished t" "active (write_context t)"
    using op by (auto simp: ensure_write_open_def ensure_active_def split: if_splits)
  with m k show ?thesis by (auto simp: with_context_run same_txn_def intro!: exI [of _ w1])
qed

lemma txn_append_payload_ok:
  assumes "txn_append_payload db f bs (t, w) = (Inr x, (t', w'))"
  shows "\<exists>v. quiet w v \<and> append_payload db f bs (write_context t) v = (Inr x, w') \<and> same_txn t t' \<and> index_cache t' = index_cache t"
  using tracked_write_ok [OF assms [unfolded txn_append_payload_def]] by blast

lemma txn_append_record_ok:
  assumes "txn_append_record db f rec (t, w) = (Inr x, (t', w'))"
  shows "\<exists>v. quiet w v \<and> append_record db f rec (write_context t) v = (Inr x, w') \<and> same_txn t t' \<and> index_cache t' = index_cache t"
  using tracked_write_ok [OF assms [unfolded txn_append_record_def]] by blast

lemma txn_append_index_ok:
  assumes "txn_append_index_candidate db idx k i (t, w) = (Inr u, (t', w'))"
  shows "\<exists>v. quiet w v \<and> append_index_candidate db idx k i (write_context t) v = (Inr (), w') \<and> same_txn t t' \<and>
    index_cache t' = forget_cached_index idx k i (index_cache t)"
proof -
  from assms obtain t1 where "io_bind check_open (\<lambda>_. io_bind (track_relative_path_for_write db (index_relative_path idx)) (\<lambda>_.
      with_context (append_index_candidate db idx k i))) (t, w) = (Inr (), (t1, w'))"
    and "t' = t1\<lparr>index_cache := forget_cached_index idx k i (index_cache t1)\<rparr>"
    by (auto simp: txn_append_index_candidate_def io_bind_ok)
  with tracked_write_ok [OF this(1)] show ?thesis by (auto simp: same_txn_def)
qed

lemma remember_record_quiet:
  assumes "steady db" and "remember_record db f i (t, w) = (r, (t', w'))"
  shows "quiet w w' \<and> same_txn t t' \<and> index_cache t' = index_cache t"
proof (cases "\<exists>e \<in> set (rollback_records t). rollback_file e = f \<and> rollback_index e = i")
  case True
  with assms show ?thesis by (auto simp: remember_record_def)
next
  case False
  obtain q v where q: "read_record db f i w = (q, v)" by fastforce
  note qv = readsD_quiet [OF read_record_reads [OF assms(1)] q]
  show ?thesis
  proof (cases q)
    case (Inl e)
    with assms(2) False q qv show ?thesis by (auto simp: remember_record_def)
  next
    case (Inr old)
    from Inr assms(2) False q have "w' = v"
      "t' = t\<lparr>rollback_records := rollback_records t @ [\<lparr>rollback_file = f, rollback_index = i, rollback_bytes = old\<rparr>]\<rparr>"
      by (auto simp: remember_record_def)
    with qv show ?thesis by (simp add: same_txn_def)
  qed
qed

lemma txn_overwrite_record_ok:
  assumes "steady db" and "txn_overwrite_record db f i rec (t, w) = (Inr u, (t', w'))"
  shows "\<exists>v. quiet w v \<and> overwrite_record db f i rec (write_context t) v = (Inr (), w') \<and> same_txn t t' \<and>
    index_cache t' = index_cache t"
proof -
  from assms(2) obtain t1 w1 t2 w2 where tr: "track_relative_path_for_write db (file_relative_path f) (t, w) = (Inr (), (t1, w1))"
    and re: "remember_record db f i (t1, w1) = (Inr (), (t2, w2))"
    and m: "with_context (overwrite_record db f i rec) (t2, w2) = (Inr u, (t', w'))"
    by (auto simp: txn_overwrite_record_def io_bind_ok check_open_run)
  note a = track_for_write_quiet [OF tr] and b = remember_record_quiet [OF assms(1) re]
  with m quiet_trans [of w w1 w2] show ?thesis by (auto simp: with_context_run same_txn_def intro!: exI [of _ w2])
qed

section \<open>The index cache\<close>

text \<open>
  The cache of a write transaction holds only index files; it is coherent with the store, and it is known
  which index files it may hold.
\<close>

definition index_coherent :: "LocalBinaryDbFs \<Rightarrow> BinaryIndexId set \<Rightarrow> BinaryDbReadCache \<Rightarrow> io_world \<Rightarrow> bool" where
  "index_coherent db S c w \<longleftrightarrow> cache_coherent db c w \<and> record_files c = Map.empty \<and>
     (\<forall>idx. idx \<notin> S \<longrightarrow> index_files c idx = None \<and> parsed_index_candidates c idx = None)"

lemma index_coherent_empty: "index_coherent db S empty_read_cache w"
  by (simp add: index_coherent_def empty_cache_coherent) (simp add: empty_read_cache_def)

lemma index_coherent_quiet: "steady db \<Longrightarrow> quiet w w' \<Longrightarrow> index_coherent db S c w' = index_coherent db S c w"
  by (simp add: index_coherent_def coherent_quiet)

lemma index_coherent_frame:
  assumes "steady db" and "index_coherent db S c w" and "\<forall>idx \<in> S. files w' (index_path db idx) = files w (index_path db idx)"
  shows "index_coherent db S c w'"
  using assms(2) index_file_value_frame [OF assms(1)] assms(3)
  unfolding index_coherent_def cache_coherent_def by (metis option.distinct(1))

lemma cache_index_file_adds:
  assumes "cache_index_file db idx (c, w) = (r, (c', w'))"
  shows "record_files c' = record_files c \<and> parsed_index_candidates c' = parsed_index_candidates c \<and>
    (\<forall>j. j \<noteq> idx \<longrightarrow> index_files c' j = index_files c j)"
proof -
  obtain q v where "read_index_file_bytes db idx w = (q, v)" by fastforce
  with assms show ?thesis
    by (cases q; cases "index_files c idx") (auto simp: cache_index_file_def io_bind_apply)
qed

lemma cached_lookup_adds:
  assumes "lookup_index_in_read_txn db idx key (c, w) = (r, (c', w'))"
  shows "record_files c' = record_files c \<and>
    (\<forall>j. j \<noteq> idx \<longrightarrow> index_files c' j = index_files c j \<and> parsed_index_candidates c' j = parsed_index_candidates c j)"
proof -
  obtain q d v where q: "cache_index_file db idx (c, w) = (q, (d, v))" by (metis prod.exhaust)
  obtain p e u where p: "cache_parsed_index db idx (c, w) = (p, (e, u))" by (metis prod.exhaust)
  have parsed: "record_files e = record_files c \<and>
    (\<forall>j. j \<noteq> idx \<longrightarrow> index_files e j = index_files c j \<and> parsed_index_candidates e j = parsed_index_candidates c j)"
    using p q cache_index_file_adds [OF q]
    by (cases q; cases "parsed_index_candidates c idx";
        cases "index_candidate_map_from_file_bytes idx (case index_files d idx of None \<Rightarrow> None | Some b \<Rightarrow> b)")
      (auto simp: cache_parsed_index_def io_bind_apply)
  with assms p show ?thesis
    by (cases "path_value db (index_relative_path idx) w"; cases p)
      (auto simp: lookup_index_in_read_txn_def file_path_for_index_def io_bind_apply io_over_apply file_path_for_run
        split: if_splits)
qed

lemma txn_lookup_ok:
  assumes "steady db" and "index_coherent db S (index_cache t) w" and "idx \<in> S"
    and "txn_lookup_index db idx key (t, w) = (r, (t', w'))"
  shows "quiet w w' \<and> cache_only t t' \<and> index_coherent db S (index_cache t') w' \<and>
    (\<forall>xs. r = Inr xs \<longrightarrow> lookup_value db idx key w = Inr xs)"
proof -
  obtain x c v where x: "lookup_index_in_read_txn db idx key (index_cache t, w) = (x, (c, v))" by (metis prod.exhaust)
  then have e: "r = x" "t' = t\<lparr>index_cache := c\<rparr>" "w' = v" using assms(4) by (simp_all add: txn_lookup_index_def)
  have coh: "cache_coherent db (index_cache t) w" using assms(2) by (simp add: index_coherent_def)
  from cached_lookup_value [OF assms(1) coh x] cached_lookup_adds [OF x] assms(2,3) e show ?thesis
    unfolding index_coherent_def cache_only_def by auto
qed

end
