(* ===== verification/Line_Readers.thy ===== *)
theory Line_Readers
  imports Line_Frames
begin

text \<open>
  The table of lines that a store holds, and what reading it through a transaction returns.  The trait of
  the source through which the store reads is the locale \<open>line_reader\<close>; write transactions and read
  transactions are its two interpretations.
\<close>

section \<open>The table of lines\<close>

abbreviation line_layout :: u32 where "line_layout \<equiv> BINARY_DB_LINE_LAYOUT_ID"

definition name_value :: "LocalBinaryDbFs \<Rightarrow> BinaryLineRecord \<Rightarrow> io_world \<Rightarrow> string store_result" where
  "name_value db r w =
     res_bind (payload_value db (line_payload_file line_layout) (unat (line_name_offset r)) (ucast (line_name_len r)) w)
       utf8_text"

definition line_table :: "LocalBinaryDbFs \<Rightarrow> io_world \<Rightarrow> (string \<times> BinaryLineRecord) list option" where
  "line_table db w =
     Option.bind (stored_records db (line_record_file line_layout) w) (\<lambda>rs.
     Option.bind (rows_of (decode_line_record line_layout) rs) (\<lambda>rows.
       those (map (\<lambda>r. case name_value db r w of Inl _ \<Rightarrow> None | Inr n \<Rightarrow> Some (n, r)) rows)))"

definition live_line :: "(string \<times> BinaryLineRecord) list \<Rightarrow> string \<Rightarrow> nat \<Rightarrow> bool" where
  "live_line ls name i \<longleftrightarrow> i < length ls \<and> fst (ls ! i) = name \<and> \<not> line_is_tombstone (snd (ls ! i))"

definition name_key :: "string \<Rightarrow> bytes" where
  "name_key name = to_le_bytes64 (line_name_hash64 (string_bytes name))"

definition line_lookup :: "LocalBinaryDbFs \<Rightarrow> string \<Rightarrow> io_world \<Rightarrow> u32 list store_result" where
  "line_lookup db name w = lookup_value db (line_name_index line_layout) (name_key name) w"

text \<open>The candidates of a name are lines of the table, and the live line of that name is among them.\<close>

definition listed :: "(string \<times> BinaryLineRecord) list \<Rightarrow> string \<Rightarrow> u32 list \<Rightarrow> bool" where
  "listed ls name xs \<longleftrightarrow> (\<forall>x \<in> set xs. unat x < length ls) \<and> (\<forall>i. live_line ls name i \<longrightarrow> of_nat i \<in> set xs)"

text \<open>The invariant of the store: names are normalised, live lines are indexed, and live names are unique.\<close>

definition line_store_ok :: "LocalBinaryDbFs \<Rightarrow> io_world \<Rightarrow> (string \<times> BinaryLineRecord) list \<Rightarrow> bool" where
  "line_store_ok db w ls \<longleftrightarrow> line_table db w = Some ls \<and>
     (\<forall>(n, r) \<in> set ls. n \<noteq> [] \<and> trim n = n) \<and>
     (\<forall>name. \<exists>xs. line_lookup db name w = Inr xs \<and> listed ls name xs) \<and>
     (\<forall>name i j. live_line ls name i \<longrightarrow> live_line ls name j \<longrightarrow> i = j)"

lemma line_table_iff:
  "line_table db w = Some ls \<longleftrightarrow>
     (\<exists>rs. stored_records db (line_record_file line_layout) w = Some rs \<and>
        rows_of (decode_line_record line_layout) rs = Some (map snd ls)) \<and>
     (\<forall>(n, r) \<in> set ls. name_value db r w = Inr n)"
proof -
  have one: "(case name_value db r w of Inl _ \<Rightarrow> None | Inr n \<Rightarrow> Some (n, r)) = Some l \<longleftrightarrow>
      r = snd l \<and> name_value db (snd l) w = Inr (fst l)" for r l
    by (cases "name_value db r w"; cases l) auto
  have "map (\<lambda>r. case name_value db r w of Inl _ \<Rightarrow> None | Inr n \<Rightarrow> Some (n, r)) rows = map Some ls \<longleftrightarrow>
      rows = map snd ls \<and> (\<forall>l \<in> set ls. name_value db (snd l) w = Inr (fst l))" for rows
    by (induction rows arbitrary: ls) (auto simp: Cons_eq_map_conv map_eq_Cons_conv one)
  then show ?thesis
    by (fastforce simp: line_table_def bind_eq_Some_conv those_Some_iff)
qed

lemma line_table_bound: "line_table db w = Some ls \<Longrightarrow> length ls < 2 ^ 32"
  using stored_records_length by (fastforce simp: line_table_iff dest: rows_of_length)

lemma line_table_rows:
  assumes "line_table db w = Some ls"
  obtains rs where "stored_records db (line_record_file line_layout) w = Some rs"
    "rows_of (decode_line_record line_layout) rs = Some (map snd ls)" "length rs = length ls"
    "\<forall>(n, r) \<in> set ls. name_value db r w = Inr n"
  using assms rows_of_length by (fastforce simp: line_table_iff)

lemma line_table_row:
  assumes "line_table db w = Some ls"
    and "\<forall>rs. stored_records db (line_record_file line_layout) w = Some rs \<longrightarrow> unat i < length rs \<and> raw = rs ! unat i"
    and "decode_line_record line_layout raw = Inr r"
  shows "unat i < length ls \<and> snd (ls ! unat i) = r \<and> name_value db r w = Inr (fst (ls ! unat i))"
proof -
  from assms(1) obtain rs where rs: "stored_records db (line_record_file line_layout) w = Some rs"
    "rows_of (decode_line_record line_layout) rs = Some (map snd ls)" and names: "\<forall>(n, r) \<in> set ls. name_value db r w = Inr n"
    by (auto simp: line_table_iff)
  have len: "length rs = length ls" using rows_of_length [OF rs(2)] by simp
  have i: "unat i < length ls" "raw = rs ! unat i" using assms(2) rs(1) len by auto
  then have "decode_line_record line_layout raw = Inr (snd (ls ! unat i))"
    using rows_of_nth [OF rs(2), of "unat i"] by simp
  with assms(3) have "snd (ls ! unat i) = r" by simp
  moreover have "ls ! unat i \<in> set ls" using i(1) by simp
  with names have "name_value db (snd (ls ! unat i)) w = Inr (fst (ls ! unat i))" by (auto simp: case_prod_beta)
  ultimately show ?thesis using i(1) by simp
qed

lemma line_files_of_layout:
  "line_record_file_for_layout line_layout = Inr (line_record_file line_layout)"
  "line_payload_file_for_layout line_layout = Inr (line_payload_file line_layout)"
  "line_index_for_layout line_layout = Inr (line_name_index line_layout)"
  by (simp_all add: line_record_file_for_layout_def line_payload_file_for_layout_def line_index_for_layout_def
      require_supported_persisted_line_layout_def line_record_file_def line_payload_file_def line_name_index_def)

lemma line_values_frame:
  assumes "steady db" and "files w' (payload_path db (line_payload_file line_layout)) = files w (payload_path db (line_payload_file line_layout))"
  shows "name_value db r w' = name_value db r w"
  unfolding name_value_def using payload_value_frame [OF assms] by simp

lemma line_table_same:
  assumes "steady db" and "files w' = files w"
  shows "line_table db w' = line_table db w"
  unfolding line_table_def
  using stored_records_frame [OF assms(1), of w' "line_record_file line_layout" w] line_values_frame [OF assms(1), of w' w] assms(2)
  by simp

lemma line_store_ok_same:
  assumes "steady db" and "files w' = files w"
  shows "line_store_ok db w' ls = line_store_ok db w ls"
  unfolding line_store_ok_def line_lookup_def
  using line_table_same [OF assms] lookup_value_frame [OF assms(1), of w' "line_name_index line_layout" w] assms(2) by simp

definition found_line :: "(string \<times> BinaryLineRecord) list \<Rightarrow> string \<Rightarrow> (u32 \<times> BinaryLineRecord) option \<Rightarrow> bool" where
  "found_line ls name res \<longleftrightarrow>
     (case res of
        None \<Rightarrow> \<forall>i. \<not> live_line ls name i
      | Some (i, r) \<Rightarrow> live_line ls name (unat i) \<and> r = snd (ls ! unat i))"

text \<open>The record at an index of a file, without the bound on the number of records that a count checks.\<close>

definition row_value :: "LocalBinaryDbFs \<Rightarrow> BinaryFileId \<Rightarrow> u32 \<Rightarrow> io_world \<Rightarrow> bytes store_result" where
  "row_value db f i w = res_bind (record_file_value db f w) (record_from_file_bytes f i)"

text \<open>What the snapshot table says of a head.\<close>

definition head_names :: "LocalBinaryDbFs \<Rightarrow> io_world \<Rightarrow> u32 \<Rightarrow> string \<Rightarrow> bool" where
  "head_names db w i sid \<longleftrightarrow>
     (\<exists>raw r. row_value db (snapshot_record_file 1) i w = Inr raw \<and> decode_snapshot_record 1 raw = Inr r \<and>
        \<not> snapshot_is_tombstone r \<and> sid = snapshot_id_from_hash48 (snapshot_hash48 r))"

definition resolved_head :: "LocalBinaryDbFs \<Rightarrow> io_world \<Rightarrow> string option \<Rightarrow> u32 \<Rightarrow> bool" where
  "resolved_head db w text plus1 \<longleftrightarrow>
     (case text of
        None \<Rightarrow> plus1 = 0
      | Some t \<Rightarrow> if trim t = [] then plus1 = 0
          else plus1 \<noteq> 0 \<and> (\<exists>sid. head_names db w (plus1 - 1) sid \<and> eq_ignore_ascii_case sid (trim t)))"

definition shown_head :: "LocalBinaryDbFs \<Rightarrow> io_world \<Rightarrow> BinaryLineRecord \<Rightarrow> string option \<Rightarrow> bool" where
  "shown_head db w r sid \<longleftrightarrow>
     (case head_snapshot_index r of
        None \<Rightarrow> sid = None | Some i \<Rightarrow> (\<exists>s. sid = Some s \<and> head_names db w i s))"

definition shows_line :: "line_clock \<Rightarrow> LocalBinaryDbFs \<Rightarrow> io_world \<Rightarrow> u32 \<Rightarrow> BinaryLineRecord \<Rightarrow> LineRecord \<Rightarrow> bool" where
  "shows_line clock db w i r view \<longleftrightarrow> name_value db r w = Inr (view_line_name view) \<and>
     view_line_id view = line_identity_from_index i \<and> view_status view = line_status r \<and>
     format_epoch_seconds clock (line_archived_at_s r) = Inr (view_archived_at view) \<and>
     format_epoch_seconds clock (line_created_at_s r) = Inr (view_created_at view) \<and>
     format_epoch_seconds clock (line_updated_at_s r) = Inr (view_updated_at view) \<and>
     shown_head db w r (view_head_snapshot_id view)"

lemma read_value_nth:
  assumes "stored_records db f w = Some rs" and "read_value db f i w = Inr x"
  shows "unat i < length rs \<and> x = rs ! unat i"
  using assms(2) by (simp add: read_value_stored [OF assms(1)] split: if_splits)

lemma row_value_nth:
  assumes "row_value db f i w = Inr x"
  shows "\<forall>rs. stored_records db f w = Some rs \<longrightarrow> unat i < length rs \<and> x = rs ! unat i"
proof (intro allI impI)
  fix rs
  assume rs: "stored_records db f w = Some rs"
  from assms obtain b where b: "record_file_value db f w = Inr b" "record_from_file_bytes f i b = Inr x"
    by (auto simp: row_value_def res_bind_Inr)
  with record_from_file_value [OF b(1)] stored_records_length [OF rs] have "read_value db f i w = Inr x" by metis
  with read_value_nth [OF rs] show "unat i < length rs \<and> x = rs ! unat i" by blast
qed

lemma read_value_row:
  assumes "read_value db f i w = Inr x"
  shows "row_value db f i w = Inr x"
proof -
  from assms obtain p n where p: "path_value db (file_relative_path f) w = Inr p" and n: "count_value db f w = Inr n"
    by (auto simp: read_value_def res_bind_Inr)
  have "\<exists>b. record_file_value db f w = Inr b"
    using n p by (auto simp: record_file_value_def count_value_def res_bind_Inr split: option.splits)
  then obtain b where b: "record_file_value db f w = Inr b" by blast
  with record_from_file_value [OF b n] assms show ?thesis by (simp add: row_value_def)
qed

lemma row_value_same: "steady db \<Longrightarrow> files v = files w \<Longrightarrow> row_value db f i v = row_value db f i w"
  using path_value_cases [of db "file_relative_path f"]
  by (auto simp: row_value_def record_file_value_def valid_value_def cong: option.case_cong)

lemma row_value_kept: "steady db \<Longrightarrow> files v = files w \<Longrightarrow> row_value db f i w = Inr x \<Longrightarrow> row_value db f i v = Inr x"
  using row_value_same by metis

lemma head_names_same: "steady db \<Longrightarrow> files w' = files w \<Longrightarrow> head_names db w' i sid = head_names db w i sid"
  unfolding head_names_def using row_value_same by metis

lemma io_bind_lift_Inr: "io_bind (io_lift (Inr x)) f = f x"
  by (rule ext) (simp add: io_bind_def)

section \<open>Operations that only read\<close>

text \<open>
  An operation that only reads keeps the files, and what it returns holds of every world with these files.
\<close>

definition reads_only ::
    "('s \<Rightarrow> io_world) \<Rightarrow> ('s \<Rightarrow> bool) \<Rightarrow> ('s \<Rightarrow> 's \<Rightarrow> bool) \<Rightarrow> ('s, 'e, 'a) io \<Rightarrow> (io_world \<Rightarrow> 'a \<Rightarrow> bool) \<Rightarrow> bool" where
  "reads_only world valid kept m P \<longleftrightarrow>
     (\<forall>s r s'. valid s \<longrightarrow> m s = (r, s') \<longrightarrow>
        valid s' \<and> kept s s' \<and> quiet (world s) (world s') \<and>
        (\<forall>x w. r = Inr x \<longrightarrow> files w = files (world s) \<longrightarrow> P w x))"

lemma reads_onlyI:
  assumes "\<And>s r s'. valid s \<Longrightarrow> m s = (r, s') \<Longrightarrow>
      valid s' \<and> kept s s' \<and> quiet (world s) (world s') \<and> (\<forall>x. r = Inr x \<longrightarrow> P (world s) x)"
    and "\<And>v w x. files w = files v \<Longrightarrow> P v x \<Longrightarrow> P w x"
  shows "reads_only world valid kept m P"
  unfolding reads_only_def using assms by blast

lemma reads_only_run:
  assumes "reads_only world valid kept m P" and "valid s" and "m s = (r, s')"
  shows "valid s'" "kept s s'" "quiet (world s) (world s')"
  using assms by (auto simp: reads_only_def)

lemma reads_only_ok:
  assumes "reads_only world valid kept m P" and "valid s" and "m s = (Inr x, s')" and "files w = files (world s)"
  shows "P w x"
  using assms by (auto simp: reads_only_def)

lemma reads_only_weaken:
  assumes "reads_only world valid kept m P" and "\<And>w x. P w x \<Longrightarrow> Q w x"
  shows "reads_only world valid kept m Q"
  unfolding reads_only_def
proof (intro allI impI)
  fix s r s'
  assume "valid s" "m s = (r, s')"
  with assms(1) have "valid s' \<and> kept s s' \<and> quiet (world s) (world s') \<and>
      (\<forall>x w. r = Inr x \<longrightarrow> files w = files (world s) \<longrightarrow> P w x)"
    unfolding reads_only_def by blast
  with assms(2) show "valid s' \<and> kept s s' \<and> quiet (world s) (world s') \<and>
      (\<forall>x w. r = Inr x \<longrightarrow> files w = files (world s) \<longrightarrow> Q w x)" by blast
qed

lemma reads_only_map_err:
  assumes "reads_only world valid kept m P"
  shows "reads_only world valid kept (io_map_err g m) P"
  unfolding reads_only_def
proof (intro allI impI)
  fix s r s'
  assume v: "valid s" and run: "io_map_err g m s = (r, s')"
  obtain q u where q: "m s = (q, u)" by fastforce
  with run have "s' = u" "\<And>x. r = Inr x \<Longrightarrow> q = Inr x" by (auto simp: io_map_err_def split: sum.splits)
  with reads_only_run [OF assms v q] reads_only_ok [OF assms v] q
  show "valid s' \<and> kept s s' \<and> quiet (world s) (world s') \<and>
      (\<forall>x w. r = Inr x \<longrightarrow> files w = files (world s) \<longrightarrow> P w x)" by simp
qed

locale read_state =
  fixes world :: "'s \<Rightarrow> io_world" and valid :: "'s \<Rightarrow> bool" and kept :: "'s \<Rightarrow> 's \<Rightarrow> bool"
  assumes kept_refl: "kept s s" and kept_trans: "kept s u \<Longrightarrow> kept u v \<Longrightarrow> kept s v"
begin

lemma lift_reads: "reads_only world valid kept (io_lift r) (\<lambda>w x. r = Inr x)"
  by (auto simp: reads_only_def kept_refl)

lemma return_reads: "reads_only world valid kept (io_return y) (\<lambda>w x. x = y)"
  by (auto simp: reads_only_def kept_refl)

lemma fail_reads: "reads_only world valid kept (io_fail e) (\<lambda>w x. False)"
  by (auto simp: reads_only_def kept_refl)

lemma bind_reads_when:
  assumes m: "reads_only world valid kept m P" and f: "\<And>x w. P w x \<Longrightarrow> reads_only world valid kept (f x) (Q x)"
  shows "reads_only world valid kept (io_bind m f) (\<lambda>w y. \<exists>x. P w x \<and> Q x w y)"
  unfolding reads_only_def
proof (intro allI impI)
  fix s r s'
  assume v: "valid s" and run: "io_bind m f s = (r, s')"
  obtain q u where q: "m s = (q, u)" by fastforce
  note a = reads_only_run [OF m v q]
  show "valid s' \<and> kept s s' \<and> quiet (world s) (world s') \<and>
    (\<forall>y w. r = Inr y \<longrightarrow> files w = files (world s) \<longrightarrow> (\<exists>x. P w x \<and> Q x w y))"
  proof (cases q)
    case (Inl e)
    with run q a show ?thesis by (auto simp: io_bind_def)
  next
    case (Inr x)
    with run q have fx: "f x u = (r, s')" by (simp add: io_bind_def)
    have P: "P w x" if "files w = files (world s)" for w using reads_only_ok [OF m v, of x u w] q Inr that by simp
    note g = f [OF P [OF refl]]
    note b = reads_only_run [OF g a(1) fx]
    have same: "files (world u) = files (world s)" using a(3) by (simp add: quiet_def)
    have "P w x \<and> Q x w y" if "r = Inr y" "files w = files (world s)" for y w
      using P [OF that(2)] reads_only_ok [OF g a(1), of y s' w] fx that same by simp
    with a b kept_trans quiet_trans show ?thesis by blast
  qed
qed

lemma bind_reads:
  assumes "reads_only world valid kept m P" and "\<And>x. reads_only world valid kept (f x) (Q x)"
  shows "reads_only world valid kept (io_bind m f) (\<lambda>w y. \<exists>x. P w x \<and> Q x w y)"
  by (rule bind_reads_when [OF assms])

lemma if_reads:
  "reads_only world valid kept m P \<Longrightarrow> reads_only world valid kept n Q \<Longrightarrow>
     reads_only world valid kept (if b then m else n) (\<lambda>w x. if b then P w x else Q w x)"
  by (cases b) simp_all

lemma case_reads:
  "reads_only world valid kept m P \<Longrightarrow> (\<And>x. reads_only world valid kept (f x) (Q x)) \<Longrightarrow>
     reads_only world valid kept (case opt of None \<Rightarrow> m | Some x \<Rightarrow> f x) (\<lambda>w y. case opt of None \<Rightarrow> P w y | Some x \<Rightarrow> Q x w y)"
  by (cases opt) simp_all

end

section \<open>The reader of the line store\<close>

locale line_reader = read_state +
  fixes db :: LocalBinaryDbFs and acc :: "'a line_access" and indexes :: "BinaryIndexId set"
  assumes record_law: "reads_only world valid kept (access_read_record acc f i)
      (\<lambda>w x. row_value db f i w = Inr x)"
    and payload_law: "reads_only world valid kept (access_read_payload acc g off len)
      (\<lambda>w x. payload_value db g off len w = Inr x)"
    and index_law: "idx \<in> indexes \<Longrightarrow> reads_only world valid kept (access_lookup_index acc idx key)
      (\<lambda>w xs. lookup_value db idx key w = Inr xs)"
begin

lemma name_reads:
  "reads_only world valid kept (read_line_name_for_layout acc r line_layout) (\<lambda>w n. name_value db r w = Inr n)"
  unfolding read_line_name_for_layout_def
  by (rule reads_only_weaken [OF bind_reads [OF lift_reads bind_reads [OF payload_law lift_reads]]])
    (auto simp: name_value_def line_files_of_layout res_bind_Inr)

lemma scan_reads:
  "reads_only world valid kept (scan_lines acc name line_layout cands) (\<lambda>w res. \<forall>ls. line_table db w = Some ls \<longrightarrow>
     (case res of
        None \<Rightarrow> \<forall>i \<in> set cands. \<not> live_line ls name (unat i)
      | Some (i, r) \<Rightarrow> live_line ls name (unat i) \<and> r = snd (ls ! unat i)))"
proof (induction cands)
  case Nil
  show ?case
    unfolding scan_lines.simps(1) by (rule reads_only_weaken [OF return_reads]) simp
next
  case (Cons i cands)
  let ?post = "\<lambda>cs w res. \<forall>ls. line_table db w = Some ls \<longrightarrow>
     (case res of None \<Rightarrow> \<forall>i \<in> set cs. \<not> live_line ls name (unat i)
      | Some (i, r) \<Rightarrow> live_line ls name (unat i) \<and> r = snd (ls ! unat i))"
  show ?case
    unfolding scan_lines.simps(2)
  proof (rule reads_only_weaken [OF bind_reads [OF lift_reads bind_reads [OF record_law bind_reads [OF lift_reads
          if_reads [OF Cons.IH bind_reads [OF name_reads if_reads [OF return_reads Cons.IH]]]]]]],
      intro allI impI, elim exE conjE)
    fix w res ls rf raw r
    assume ls: "line_table db w = Some ls" and rf: "line_record_file_for_layout line_layout = Inr rf"
      and raw: "row_value db rf i w = Inr raw"
      and r: "decode_line_record_for_layout line_layout raw = Inr r"
      and rest: "if line_is_tombstone r then ?post cands w res
        else \<exists>n. name_value db r w = Inr n \<and> (if n = name then res = Some (i, r) else ?post cands w res)"
    have "rf = line_record_file line_layout"
      using rf by (simp add: line_files_of_layout)
    with line_table_row [OF ls, of i raw r] row_value_nth [OF raw] r have
      "unat i < length ls \<and> snd (ls ! unat i) = r \<and> name_value db r w = Inr (fst (ls ! unat i))"
      by (simp add: decode_line_record_for_layout_def)
    with rest ls show "case res of None \<Rightarrow> \<forall>j \<in> set (i # cands). \<not> live_line ls name (unat j)
        | Some (j, r) \<Rightarrow> live_line ls name (unat j) \<and> r = snd (ls ! unat j)"
      by (auto simp: live_line_def split: if_split_asm option.splits)
  qed
qed

lemma find_reads:
  assumes "line_name_index line_layout \<in> indexes"
  shows "reads_only world valid kept (find_line acc name)
    (\<lambda>w res. \<forall>ls. line_store_ok db w ls \<longrightarrow> found_line ls (trim name) res)"
proof (cases "trim name = []")
  case True
  show ?thesis
    unfolding find_line_def find_line_for_layout_def Let_def if_P [OF True]
  proof (rule reads_only_weaken [OF return_reads], intro allI impI)
    fix w and res :: "(u32 \<times> BinaryLineRecord) option" and ls
    assume "res = None" and ok: "line_store_ok db w ls"
    have "fst (ls ! i) \<noteq> []" if "i < length ls" for i
      using ok nth_mem [OF that] unfolding line_store_ok_def by (cases "ls ! i") fastforce
    with \<open>res = None\<close> True show "found_line ls (trim name) res" by (auto simp: found_line_def live_line_def)
  qed
next
  case False
  show ?thesis
    unfolding find_line_def find_line_for_layout_def Let_def if_not_P [OF False] line_files_of_layout io_bind_lift_Inr
  proof (rule reads_only_weaken [OF bind_reads [OF index_law [OF assms] scan_reads]], intro allI impI, elim exE conjE)
    fix w and res :: "(u32 \<times> BinaryLineRecord) option" and ls cands
    assume ok: "line_store_ok db w ls" and look: "lookup_value db (line_name_index line_layout)
        (to_le_bytes64 (line_name_hash64 (string_bytes (trim name)))) w = Inr cands"
      and scan: "\<forall>ls. line_table db w = Some ls \<longrightarrow>
        (case res of None \<Rightarrow> \<forall>i \<in> set cands. \<not> live_line ls (trim name) (unat i)
         | Some (i, r) \<Rightarrow> live_line ls (trim name) (unat i) \<and> r = snd (ls ! unat i))"
    have table: "line_table db w = Some ls" using ok by (simp add: line_store_ok_def)
    have "\<not> live_line ls (trim name) i" if "\<forall>i \<in> set cands. \<not> live_line ls (trim name) (unat i)" for i
    proof
      assume live: "live_line ls (trim name) i"
      with ok look have "of_nat i \<in> set cands"
        unfolding line_store_ok_def line_lookup_def name_key_def listed_def by fastforce
      moreover have "i < 2 ^ 32" using line_table_bound [OF table] live by (simp add: live_line_def)
      then have "unat (of_nat i :: u32) = i" by (simp add: unat_of_nat)
      ultimately show False using that live by fastforce
    qed
    with scan table show "found_line ls (trim name) res" by (auto simp: found_line_def split: option.splits)
  qed
qed

lemma snapshot_id_reads: "reads_only world valid kept (snapshot_id_at acc i) (\<lambda>w sid. head_names db w i sid)"
  unfolding snapshot_id_at_def
  by (rule reads_only_weaken [OF bind_reads [OF reads_only_map_err [OF record_law]
        bind_reads [OF reads_only_map_err [OF lift_reads] if_reads [OF fail_reads return_reads]]]])
    (auto simp: head_names_def split: if_splits)

lemma scan_snapshots_reads:
  "reads_only world valid kept (scan_snapshots acc sid cands)
     (\<lambda>w plus1. plus1 \<noteq> 0 \<and> (\<exists>found. head_names db w (plus1 - 1) found \<and> eq_ignore_ascii_case found sid))"
proof (induction cands)
  case Nil
  show ?case unfolding scan_snapshots.simps(1) by (rule reads_only_weaken [OF fail_reads]) simp
next
  case (Cons i cands)
  have "i + 1 \<noteq> 0" if "i \<noteq> 0xFFFFFFFF" for i :: u32
  proof
    assume "i + 1 = 0"
    then have "i = - 1" by (simp add: eq_neg_iff_add_eq_0)
    with that show False by simp
  qed
  then show ?case
    unfolding scan_snapshots.simps(2)
    by (intro reads_only_weaken [OF bind_reads [OF snapshot_id_reads if_reads [OF if_reads [OF fail_reads return_reads] Cons.IH]]])
      (auto split: if_splits)
qed

lemma resolve_reads:
  assumes "snapshot_id_index 1 \<in> indexes"
  shows "reads_only world valid kept (resolve_snapshot_index_plus1 acc head) (\<lambda>w plus1. resolved_head db w head plus1)"
proof (cases "head = None \<or> trim (the head) = []")
  case True
  then have "resolve_snapshot_index_plus1 acc head = io_return 0"
    by (auto simp: resolve_snapshot_index_plus1_def Let_def split: option.split)
  with True show ?thesis
    by (auto simp: resolved_head_def split: option.split intro: reads_only_weaken [OF return_reads])
next
  case False
  then obtain t where t: "head = Some t" "trim t \<noteq> []" by auto
  show ?thesis
    unfolding resolve_snapshot_index_plus1_def t(1) option.case Let_def if_not_P [OF t(2)]
    by (rule reads_only_weaken [OF bind_reads [OF lift_reads
          bind_reads [OF reads_only_map_err [OF index_law [OF assms]] scan_snapshots_reads]]])
      (use t in \<open>auto simp: resolved_head_def\<close>)
qed

lemma head_reads: "reads_only world valid kept (head_snapshot_id_of acc r) (\<lambda>w sid. shown_head db w r sid)"
proof (cases "head_snapshot_index r")
  case None
  then have "head_snapshot_id_of acc r = io_return None" by (simp add: head_snapshot_id_of_def)
  with None show ?thesis by (simp add: shown_head_def return_reads)
next
  case (Some i)
  show ?thesis
    unfolding head_snapshot_id_of_def Some option.case
    by (rule reads_only_weaken [OF bind_reads [OF snapshot_id_reads return_reads]]) (use Some in \<open>auto simp: shown_head_def\<close>)
qed

lemma view_reads:
  "reads_only world valid kept (line_record_view clock acc i r) (\<lambda>w view. shows_line clock db w i r view)"
  unfolding line_record_view_def line_record_view_for_layout_def
  by (rule reads_only_weaken [OF bind_reads [OF reads_only_map_err [OF name_reads] bind_reads [OF lift_reads
        bind_reads [OF lift_reads bind_reads [OF lift_reads bind_reads [OF head_reads return_reads]]]]]])
    (auto simp: shows_line_def)

end

section \<open>The two readers\<close>

definition same_write_txn :: "BinaryDbWriteTxn \<times> io_world \<Rightarrow> BinaryDbWriteTxn \<times> io_world \<Rightarrow> bool" where
  "same_write_txn s s' \<longleftrightarrow> cache_only (fst s) (fst s')"

definition same_read_txn :: "BinaryDbReadTxn \<times> io_world \<Rightarrow> BinaryDbReadTxn \<times> io_world \<Rightarrow> bool" where
  "same_read_txn s s' \<longleftrightarrow> read_lock (fst s') = read_lock (fst s)"

definition line_indexes :: "BinaryIndexId set" where
  "line_indexes = {line_name_index line_layout, snapshot_id_index 1}"

definition write_valid :: "LocalBinaryDbFs \<Rightarrow> BinaryDbWriteTxn \<times> io_world \<Rightarrow> bool" where
  "write_valid db s \<longleftrightarrow> steady db \<and> index_coherent db line_indexes (index_cache (fst s)) (snd s)"

definition read_valid :: "LocalBinaryDbFs \<Rightarrow> BinaryDbReadTxn \<times> io_world \<Rightarrow> bool" where
  "read_valid db s \<longleftrightarrow> steady db \<and> is_ok (read_lock (fst s)) \<and> cache_coherent db (read_cache (fst s)) (snd s)"

lemma quiet_files: "quiet w w' \<Longrightarrow> files w' = files w"
  by (simp add: quiet_def)

lemma stored_records_same: "steady db \<Longrightarrow> files v = files w \<Longrightarrow> stored_records db f v = stored_records db f w"
  using stored_records_frame [of db v f w] by simp

lemma read_value_kept: "steady db \<Longrightarrow> files v = files w \<Longrightarrow> read_value db f i w = Inr x \<Longrightarrow> row_value db f i v = Inr x"
  using row_value_kept read_value_row by blast

lemma payload_value_same: "steady db \<Longrightarrow> files v = files w \<Longrightarrow> payload_value db f off len v = payload_value db f off len w"
  using payload_value_frame [of db v f w] by simp

lemma payload_value_kept:
  "steady db \<Longrightarrow> files v = files w \<Longrightarrow> payload_value db f off len w = Inr x \<Longrightarrow> payload_value db f off len v = Inr x"
  using payload_value_same by metis

lemma lookup_value_same: "steady db \<Longrightarrow> files v = files w \<Longrightarrow> lookup_value db idx key v = lookup_value db idx key w"
  using lookup_value_frame [of db v idx w] by simp

lemma lookup_value_kept:
  "steady db \<Longrightarrow> files v = files w \<Longrightarrow> lookup_value db idx key w = Inr x \<Longrightarrow> lookup_value db idx key v = Inr x"
  using lookup_value_same by metis

text \<open>A direct read, through either kind of transaction.\<close>

lemma over_reads:
  assumes "\<And>s. valid s \<Longrightarrow> steady db" and "\<And>t w w'. valid (t, w) \<Longrightarrow> quiet w w' \<Longrightarrow> valid (t, w')"
    and "\<And>t w w'. kept (t, w) (t, w')" and "steady db \<Longrightarrow> reads m v"
    and "\<And>w w' x. steady db \<Longrightarrow> files w' = files w \<Longrightarrow> v w = Inr x \<Longrightarrow> P w' x"
  shows "reads_only snd valid kept (io_over m) P"
  unfolding reads_only_def
proof (intro allI impI)
  fix s r s'
  assume v: "valid s" and run: "io_over m s = (r, s')"
  obtain t w q w' where s: "s = (t, w)" and q: "m w = (q, w')" by (metis prod.exhaust)
  with run have e: "r = q" "s' = (t, w')" by (simp_all add: io_over_apply)
  have st: "steady db" by (rule assms(1) [OF v])
  note qt = readsD_quiet [OF assms(4) [OF st] q]
  have "valid s'" using assms(2) [of t w w'] v s e qt by simp
  moreover have "P u x" if "r = Inr x" "files u = files w" for u x
    using assms(5) [OF st that(2)] readsD_ok [OF assms(4) [OF st]] q that(1) e by blast
  ultimately show "valid s' \<and> kept s s' \<and> quiet (snd s) (snd s') \<and> (\<forall>x u. r = Inr x \<longrightarrow> files u = files (snd s) \<longrightarrow> P u x)"
    using s e assms(3) qt by simp
qed

interpretation plain_reader: line_reader snd "\<lambda>s. steady db" same_write_txn db "write_access db" "{}"
proof (unfold_locales, goal_cases)
  case (3 f i)
  show ?case
    unfolding write_access_def line_access.simps
    by (rule over_reads [OF _ _ _ read_record_reads [of db f i] read_value_kept]) (simp_all add: same_write_txn_def)
next
  case (4 g off len)
  show ?case
    unfolding write_access_def line_access.simps
    by (rule over_reads [OF _ _ _ read_payload_reads [of db g off len] payload_value_kept]) (simp_all add: same_write_txn_def)
qed (auto simp: same_write_txn_def intro: cache_only_trans)

interpretation write_reader: line_reader snd "write_valid db" same_write_txn db "write_access db" line_indexes
proof (unfold_locales, goal_cases)
  case (1 f i)
  show ?case
    unfolding write_access_def line_access.simps
    by (rule over_reads [OF _ _ _ read_record_reads [of db f i] read_value_kept])
      (simp_all add: same_write_txn_def write_valid_def index_coherent_quiet)
next
  case (2 g off len)
  show ?case
    unfolding write_access_def line_access.simps
    by (rule over_reads [OF _ _ _ read_payload_reads [of db g off len] payload_value_kept])
      (simp_all add: same_write_txn_def write_valid_def index_coherent_quiet)
next
  case (3 idx key)
  show ?case
    unfolding write_access_def line_access.simps reads_only_def
  proof (intro allI impI)
    fix s r s'
    assume v: "write_valid db s" and run: "txn_lookup_index db idx key s = (r, s')"
    obtain t w t' w' where s: "s = (t, w)" "s' = (t', w')" by (metis prod.exhaust)
    have st: "steady db" and coh: "index_coherent db line_indexes (index_cache t) w" and run: "txn_lookup_index db idx key (t, w) = (r, (t', w'))"
      using v run s by (simp_all add: write_valid_def)
    from txn_lookup_ok [OF st coh 3 run] lookup_value_kept [OF st]
    show "write_valid db s' \<and> same_write_txn s s' \<and> quiet (snd s) (snd s') \<and>
       (\<forall>x w. r = Inr x \<longrightarrow> files w = files (snd s) \<longrightarrow> lookup_value db idx key w = Inr x)"
      unfolding s write_valid_def same_write_txn_def fst_conv snd_conv using st by blast
  qed
qed

lemma cached_record_ok:
  assumes "steady db" and "cache_coherent db c w" and "read_record_in_read_txn db f i (c, w) = (r, (c', w'))"
  shows "quiet w w' \<and> cache_coherent db c' w' \<and> (\<forall>x. r = Inr x \<longrightarrow> row_value db f i w = Inr x)"
proof (cases "path_value db (file_relative_path f) w")
  case (Inl e)
  with assms show ?thesis
    by (auto simp: read_record_in_read_txn_def file_path_for_binary_record_def file_path_for_run io_bind_apply io_over_apply)
next
  case (Inr p)
  obtain q d v where q: "cache_record_file db f (c, w) = (q, (d, v))" by (metis prod.exhaust)
  note l = cache_record_file_run [OF assms(1,2) q]
  have run: "w' = v" "c' = d" "r = (case q of Inl e \<Rightarrow> Inl e
      | Inr _ \<Rightarrow> record_from_file_bytes f i (case record_files d f of None \<Rightarrow> None | Some b \<Rightarrow> b))"
    using assms(3) Inr q by (cases q;
      simp add: read_record_in_read_txn_def file_path_for_binary_record_def file_path_for_run io_bind_apply io_over_apply)+
  have "row_value db f i w = Inr x" if "r = Inr x" for x
  proof -
    from that run l obtain b where b: "record_files d f = Some b" "record_file_value db f w = Inr b" by (cases q) auto
    with run that show ?thesis by (auto simp: row_value_def split: sum.splits)
  qed
  with l run show ?thesis by blast
qed

text \<open>An operation on the cache of a read transaction.\<close>

lemma cache_reads:
  assumes run: "\<And>c w r c' w'. steady db \<Longrightarrow> cache_coherent db c w \<Longrightarrow> m (c, w) = (r, (c', w')) \<Longrightarrow>
      quiet w w' \<and> cache_coherent db c' w' \<and> (\<forall>x. r = Inr x \<longrightarrow> P w x)"
    and same: "\<And>v w x. steady db \<Longrightarrow> files v = files w \<Longrightarrow> P w x \<Longrightarrow> P v x"
  shows "reads_only snd (read_valid db) same_read_txn (io_bind read_guard (\<lambda>_. on_cache m)) P"
  unfolding reads_only_def
proof (intro allI impI)
  fix s r s'
  assume v: "read_valid db s" and go: "io_bind read_guard (\<lambda>_. on_cache m) s = (r, s')"
  obtain t w q c w' where s: "s = (t, w)" and q: "m (read_cache t, w) = (q, (c, w'))" by (metis prod.exhaust)
  have st: "steady db" "cache_coherent db (read_cache t) w" "is_ok (read_lock t)" using v s by (simp_all add: read_valid_def)
  show "read_valid db s' \<and> same_read_txn s s' \<and> quiet (snd s) (snd s') \<and>
      (\<forall>x u. r = Inr x \<longrightarrow> files u = files (snd s) \<longrightarrow> P u x)"
    using run [OF st(1,2) q] same [OF st(1)] st go s q
    by (cases "read_lock t") (auto simp: read_guard_def on_cache_def io_bind_apply read_valid_def same_read_txn_def res_bind_def)
qed

lemma guarded_reads:
  assumes "steady db \<Longrightarrow> reads m v" and "\<And>w w' x. steady db \<Longrightarrow> files w' = files w \<Longrightarrow> v w = Inr x \<Longrightarrow> P w' x"
  shows "reads_only snd (read_valid db) same_read_txn (io_bind read_guard (\<lambda>_. io_over m)) P"
  unfolding reads_only_def
proof (intro allI impI)
  fix s r s'
  assume v: "read_valid db s" and go: "io_bind read_guard (\<lambda>_. io_over m) s = (r, s')"
  have over: "reads_only snd (read_valid db) same_read_txn (io_over m) P"
    by (rule over_reads [OF _ _ _ assms]) (auto simp: read_valid_def same_read_txn_def coherent_quiet)
  show "read_valid db s' \<and> same_read_txn s s' \<and> quiet (snd s) (snd s') \<and>
      (\<forall>x u. r = Inr x \<longrightarrow> files u = files (snd s) \<longrightarrow> P u x)"
  proof (cases "read_lock (fst s)")
    case (Inl e)
    with go have "r = Inl e" "s' = s" by (cases s; simp add: read_guard_def io_bind_apply)+
    with v show ?thesis by (simp add: same_read_txn_def)
  next
    case (Inr l)
    with go have "io_over m s = (r, s')" by (cases s) (simp add: read_guard_def io_bind_apply)
    with over v show ?thesis unfolding reads_only_def by blast
  qed
qed

interpretation read_reader: line_reader snd "read_valid db" same_read_txn db "read_access db" UNIV
proof (unfold_locales, goal_cases)
  case (3 f i)
  show ?case
    unfolding read_access_def line_access.simps read_txn_read_record_def
    by (rule cache_reads [OF cached_record_ok row_value_kept])
next
  case (4 g off len)
  show ?case
    unfolding read_access_def line_access.simps read_txn_read_payload_def
    by (rule guarded_reads [OF read_payload_reads payload_value_kept])
next
  case (5 idx key)
  show ?case
    unfolding read_access_def line_access.simps read_txn_lookup_index_def
    by (rule cache_reads [OF cached_lookup_value lookup_value_kept])
qed (auto simp: same_read_txn_def)

end
