(* ===== verification/Line_Laws.thy ===== *)
theory Line_Laws
  imports Line_Readers
begin

text \<open>
  What the writes of the line store do to its table of lines: an appended line extends the table, an
  overwritten record replaces one row, and the invariant of the store is kept.
\<close>

section \<open>Trimmed names\<close>

definition starts_clean :: "string list \<Rightarrow> string \<Rightarrow> bool" where
  "starts_clean ws s \<longleftrightarrow> (\<forall>w \<in> set ws. take (length w) s \<noteq> w)"

lemma starts_clean_strip: "starts_clean ws s \<Longrightarrow> strip_one ws s = s"
  unfolding starts_clean_def strip_one_def using find_None_iff [of "\<lambda>w. take (length w) s = w" ws] by simp

lemma starts_clean_funpow: "starts_clean ws s \<Longrightarrow> (strip_one ws ^^ n) s = s"
  by (rule funpow_fixpoint) (rule starts_clean_strip)

lemma strip_one_cases:
  assumes "[] \<notin> set ws"
  shows "starts_clean ws s \<or> length (strip_one ws s) < length s \<and> (\<exists>k. strip_one ws s = drop k s)"
proof (cases "find (\<lambda>w. take (length w) s = w) ws")
  case None
  then show ?thesis by (auto simp: starts_clean_def find_None_iff)
next
  case (Some w)
  then have w: "w \<in> set ws" "take (length w) s = w" by (auto simp: find_Some_iff)
  with assms have "w \<noteq> []" "s \<noteq> []" by auto
  with Some w(2) show ?thesis by (auto simp: strip_one_def)
qed

lemma strip_all:
  assumes "[] \<notin> set ws" and "length s \<le> n"
  shows "starts_clean ws ((strip_one ws ^^ n) s) \<and> (\<exists>k. (strip_one ws ^^ n) s = drop k s)"
  using assms(2)
proof (induction n arbitrary: s)
  case 0
  with assms(1) show ?case by (auto simp: starts_clean_def)
next
  case (Suc n)
  consider "starts_clean ws s" | k where "length (strip_one ws s) < length s" "strip_one ws s = drop k s"
    using strip_one_cases [OF assms(1)] by blast
  then show ?case
  proof cases
    case 1
    then show ?thesis using starts_clean_funpow [OF 1] by (metis drop0)
  next
    case 2
    with Suc.IH [of "strip_one ws s"] Suc.prems show ?thesis unfolding funpow_Suc_right by (auto simp: drop_drop)
  qed
qed

lemma starts_clean_take: "starts_clean ws t \<Longrightarrow> starts_clean ws (take k t)"
  unfolding starts_clean_def by (metis length_take min.absorb_iff1 min.cobounded1 take_take)

lemma trim_trim [simp]: "trim (trim s) = trim s"
proof -
  let ?ws = utf8_whitespace
  have ne: "[] \<notin> set ?ws" "[] \<notin> set (map rev ?ws)" using whitespace_ends by auto
  let ?t = "(strip_one ?ws ^^ length s) s"
  have t: "starts_clean ?ws ?t" using strip_all [OF ne(1), of s "length s"] by simp
  let ?u = "(strip_one (map rev ?ws) ^^ length ?t) (rev ?t)"
  have u: "starts_clean (map rev ?ws) ?u" and "\<exists>k. ?u = drop k (rev ?t)"
    using strip_all [OF ne(2), of "rev ?t" "length ?t"] by simp_all
  then obtain k where "rev ?u = take (length ?t - k) ?t" by (auto simp: rev_drop)
  then have r: "starts_clean ?ws (rev ?u)" using starts_clean_take [OF t] by simp
  have "trim s = rev ?u" by (simp add: trim_def Let_def)
  moreover have "trim (rev ?u) = rev ?u"
    using starts_clean_funpow [OF r] starts_clean_funpow [OF u] by (simp add: trim_def Let_def)
  ultimately show ?thesis by simp
qed

section \<open>Paths\<close>

lemma line_paths_distinct:
  "record_path db (line_record_file line_layout) \<noteq> payload_path db (line_payload_file line_layout)"
  "record_path db (line_record_file line_layout) \<noteq> index_path db (line_name_index line_layout)"
  "payload_path db (line_payload_file line_layout) \<noteq> index_path db (line_name_index line_layout)"
  "record_path db (line_record_file line_layout) \<noteq> index_path db (snapshot_id_index 1)"
  "payload_path db (line_payload_file line_layout) \<noteq> index_path db (snapshot_id_index 1)"
  "index_path db (line_name_index line_layout) \<noteq> index_path db (snapshot_id_index 1)"
  by (auto simp: record_path_def payload_path_def index_path_def path_join_def line_record_file_def line_payload_file_def
      line_name_index_def snapshot_id_index_def record_file_id_def fixed_index_def path_has_root_def path_starts_with_prefix_def)

lemma line_index_paths: "idx \<in> line_indexes \<Longrightarrow> index_path db idx \<noteq> record_path db (line_record_file line_layout) \<and>
    index_path db idx \<noteq> payload_path db (line_payload_file line_layout)"
  using line_paths_distinct [of db] by (auto simp: line_indexes_def)

lemma name_key_fits: "key_fits (line_name_index layout) (name_key n)"
  by (simp add: key_fits_def name_key_def line_name_index_def fixed_index_def)

section \<open>Writes\<close>

text \<open>The payload file has room for one more name.\<close>

definition line_payload_room :: "LocalBinaryDbFs \<Rightarrow> io_world \<Rightarrow> bool" where
  "line_payload_room db w \<longleftrightarrow>
     length (file_or_empty w (payload_path db (line_payload_file line_layout))) + 4 + 2 ^ 16 \<le> 2 ^ 64"

lemma line_payload_room_same: "files w' = files w \<Longrightarrow> line_payload_room db w' = line_payload_room db w"
  by (simp add: line_payload_room_def file_or_empty_def)

text \<open>The writes to the records and to the index leave the names alone.\<close>

lemma line_writes_touch:
  assumes st: "steady db"
  shows "txn_append_record db (line_record_file line_layout) bytes (t, w) = (Inr i, (t', w')) \<Longrightarrow>
      touches (record_path db (line_record_file line_layout)) w w'"
    and "mutate_line db line_layout j r (t, w) = (Inr u, (t', w')) \<Longrightarrow>
      touches (record_path db (line_record_file line_layout)) w w'"
    and "txn_append_index_candidate db (line_name_index line_layout) k j (t, w) = (Inr u', (t', w')) \<Longrightarrow>
      touches (index_path db (line_name_index line_layout)) w w'"
proof -
  assume "txn_append_record db (line_record_file line_layout) bytes (t, w) = (Inr i, (t', w'))"
  from txn_append_record_ok [OF this] obtain v where "quiet w v" and "append_record db (line_record_file line_layout) bytes (write_context t) v = (Inr i, w')"
    by blast
  with append_record_ok [OF st this(2)] show "touches (record_path db (line_record_file line_layout)) w w'"
    by (auto simp: record_path_def dest!: path_value_ok intro: quiet_touches_trans)
next
  assume "mutate_line db line_layout j r (t, w) = (Inr u, (t', w'))"
  then obtain bs where "txn_overwrite_record db (line_record_file line_layout) j bs (t, w) = (Inr (), (t', w'))"
    by (auto simp: mutate_line_def io_ok)
  from txn_overwrite_record_ok [OF st this] obtain v where q: "quiet w v"
    and ow: "overwrite_record db (line_record_file line_layout) j bs (write_context t) v = (Inr (), w')" by blast
  from overwrite_record_ok [OF st ow] q show "touches (record_path db (line_record_file line_layout)) w w'"
    by (metis path_value_ok quiet_touches_trans record_path_def)
next
  assume "txn_append_index_candidate db (line_name_index line_layout) k j (t, w) = (Inr u', (t', w'))"
  from txn_append_index_ok [OF this] obtain v where "quiet w v"
    and "append_index_candidate db (line_name_index line_layout) k j (write_context t) v = (Inr (), w')" by blast
  with append_index_candidate_ok [OF this(2)] show "touches (index_path db (line_name_index line_layout)) w w'"
    by (auto simp: index_path_def dest!: path_value_ok intro: quiet_touches_trans)
qed

text \<open>An appended payload is readable, and neither the table nor the index sees it.\<close>

lemma payload_write:
  assumes st: "steady db" and ok: "line_store_ok db w ls" and valid: "write_valid db (t, w)"
    and run: "txn_append_payload db (line_payload_file line_layout) bs (t, w) = (Inr rng, (t', w'))"
    and room: "line_payload_room db w" and short: "length bs < 2 ^ 16"
  shows "line_store_ok db w' ls" "write_valid db (t', w')" "same_txn t t'"
    "payload_value db (line_payload_file line_layout) (payload_offset rng) (payload_len rng) w' = Inr bs"
    "payload_len rng = of_nat (length bs)" "payload_offset rng < 2 ^ 64"
proof -
  let ?f = "line_payload_file line_layout"
  from txn_append_payload_ok [OF run] obtain v where v: "quiet w v" "append_payload db ?f bs (write_context t) v = (Inr rng, w')"
    and t: "same_txn t t'" "index_cache t' = index_cache t" by blast
  from append_payload_ok [OF v(2)] have app: "touches (payload_path db ?f) v w'" "payload_len rng = of_nat (length bs)"
    and grown: "file_or_empty w' (payload_path db ?f) = with_header (payload_layout_id ?f) (file_or_empty v (payload_path db ?f)) @ bs"
    and off: "payload_offset rng \<le> length (file_or_empty w' (payload_path db ?f))"
    by (auto simp: payload_path_def file_or_empty_def dest: path_value_ok)
  have "length (with_header (payload_layout_id ?f) (file_or_empty v (payload_path db ?f))) \<le> length (file_or_empty w (payload_path db ?f)) + 4"
    using v(1) by (simp add: with_header_def file_or_empty_quiet)
  then have fits: "length (file_or_empty w' (payload_path db ?f)) < 2 ^ 64"
    using grown room short by (simp add: line_payload_room_def)
  have other: "files w' p = files w p" if "p \<noteq> payload_path db ?f" for p
    using app(1) v(1) that by (simp add: touches_def quiet_def)
  have stable: "name_value db r w' = Inr n" if "name_value db r w = Inr n" for r n
  proof -
    have "name_value db r v = Inr n" using that line_values_frame [OF st, of v w r] v(1) by (simp add: quiet_def)
    then show ?thesis using payload_stable_value [OF st v(2)] by (auto simp: name_value_def res_bind_Inr)
  qed
  show "line_store_ok db w' ls"
    using ok stable stored_records_frame [OF st other, of "line_record_file line_layout"]
      lookup_value_frame [OF st other, of "line_name_index line_layout"] line_paths_distinct [of db]
    unfolding line_store_ok_def line_table_iff line_lookup_def by (auto simp: case_prod_beta)
  show "write_valid db (t', w')"
    using valid index_coherent_frame [OF st, of line_indexes "index_cache t" w w'] other line_index_paths t(2)
    by (auto simp: write_valid_def)
  show "same_txn t t'" by (rule t(1))
  show "payload_value db ?f (payload_offset rng) (payload_len rng) w' = Inr bs"
    by (rule payload_roundtrip_value [OF st v(2)]) (use fits in \<open>simp add: payload_path_def\<close>)
  show "payload_len rng = of_nat (length bs)" by (rule app(2))
  show "payload_offset rng < 2 ^ 64" using off fits by simp
qed

lemma named_record:
  assumes "payload_value db (line_payload_file line_layout) off len w = Inr (string_bytes name)"
    and "len = of_nat (length (string_bytes name))" and "off < 2 ^ 64" and "length (string_bytes name) < 2 ^ 16"
    and "utf8_string name"
    and "line_name_len r = of_nat (length (string_bytes name))" and "line_name_offset r = of_nat off"
  shows "name_value db r w = Inr name"
proof -
  have "ucast (line_name_len r) = len"
    using assms(2,4,6) by (simp add: word_unat_eq_iff unsigned_ucast_eq unat_of_nat take_bit_nat_eq_self)
  moreover have "unat (line_name_offset r) = off" using assms(3,7) by (simp add: unat_of_nat)
  ultimately show ?thesis using assms(1,5) by (simp add: name_value_def utf8_text_bytes)
qed

lemma record_append_write:
  assumes st: "steady db" and table: "line_table db w = Some ls" and valid: "write_valid db (t, w)"
    and enc: "encode_line_record line_layout r = Inr bytes" and bound: "Suc (length ls) < 2 ^ 32"
    and name: "name_value db r w = Inr n"
    and run: "txn_append_record db (line_record_file line_layout) bytes (t, w) = (Inr i, (t', w'))"
  shows "i = of_nat (length ls)" "line_table db w' = Some (ls @ [(n, r)])" "write_valid db (t', w')" "same_txn t t'"
    "touches (record_path db (line_record_file line_layout)) w w'"
proof -
  let ?f = "line_record_file line_layout"
  from table obtain rs where rs: "stored_records db ?f w = Some rs" "rows_of (decode_line_record line_layout) rs = Some (map snd ls)"
    "length rs = length ls" "\<forall>(n, r) \<in> set ls. name_value db r w = Inr n" by (rule line_table_rows)
  from txn_append_record_ok [OF run] obtain v where v: "quiet w v" "append_record db ?f bytes (write_context t) v = (Inr i, w')"
    and t: "same_txn t t'" "index_cache t' = index_cache t" by blast
  have "ready db ?f (write_context t)"
    using v(2) st by (auto simp: ready_def append_record_def io_ok line_record_file_def record_file_id_def)
  moreover have "stored_records db ?f v = Some rs" using rs(1) stored_records_same [OF st quiet_files [OF v(1)]] by simp
  ultimately have app: "i = of_nat (length rs)" "stored_records db ?f w' = Some (rs @ [bytes])" "touches (record_path db ?f) v w'"
    using append_record_view [OF _ _ _ v(2)] bound rs(3) by auto
  show i: "i = of_nat (length ls)" using app(1) rs(3) by simp
  show tch: "touches (record_path db ?f) w w'" by (rule quiet_touches_trans [OF v(1) app(3)])
  have keep: "files w' p = files w p" if "p \<noteq> record_path db ?f" for p using tch that by (simp add: touches_def)
  have "name_value db q w' = name_value db q w" for q
    using line_values_frame [OF st, of w' w q] keep line_paths_distinct(1) [of db] by metis
  then show "line_table db w' = Some (ls @ [(n, r)])"
    using app(2) line_row.rows_append [OF rs(2) enc] rs(4) name by (auto simp: line_table_iff)
  show "write_valid db (t', w')"
    using valid index_coherent_frame [OF st, of line_indexes "index_cache t" w w'] keep line_index_paths t(2)
    by (auto simp: write_valid_def)
  show "same_txn t t'" by (rule t(1))
qed

lemma record_update_write:
  assumes st: "steady db" and table: "line_table db w = Some ls" and valid: "write_valid db (t, w)"
    and name: "name_value db r w = Inr n" and run: "mutate_line db line_layout i r (t, w) = (Inr u, (t', w'))"
  shows "unat i < length ls" "line_table db w' = Some (ls[unat i := (n, r)])" "write_valid db (t', w')" "same_txn t t'"
    "touches (record_path db (line_record_file line_layout)) w w'" "validate_line_record r = Inr ()"
proof -
  let ?f = "line_record_file line_layout"
  from run obtain bytes where enc: "encode_line_record line_layout r = Inr bytes"
    and run': "txn_overwrite_record db ?f i bytes (t, w) = (Inr (), (t', w'))"
    by (auto simp: mutate_line_def io_ok)
  from table obtain rs where rs: "stored_records db ?f w = Some rs" "rows_of (decode_line_record line_layout) rs = Some (map snd ls)"
    "length rs = length ls" "\<forall>(n, r) \<in> set ls. name_value db r w = Inr n" by (rule line_table_rows)
  from txn_overwrite_record_ok [OF st run'] obtain v where v: "quiet w v"
    "overwrite_record db ?f i bytes (write_context t) v = (Inr (), w')"
    and t: "same_txn t t'" "index_cache t' = index_cache t" by blast
  have "stored_records db ?f v = Some rs" using rs(1) stored_records_same [OF st quiet_files [OF v(1)]] by simp
  from overwrite_record_view [OF st this v(2)] have app: "unat i < length rs" "stored_records db ?f w' = Some (rs[unat i := bytes])"
    "touches (record_path db ?f) v w'" by auto
  show "unat i < length ls" using app(1) rs(3) by simp
  show tch: "touches (record_path db ?f) w w'" by (rule quiet_touches_trans [OF v(1) app(3)])
  have keep: "files w' p = files w p" if "p \<noteq> record_path db ?f" for p using tch that by (simp add: touches_def)
  have "name_value db q w' = name_value db q w" for q
    using line_values_frame [OF st, of w' w q] keep line_paths_distinct(1) [of db] by metis
  then show "line_table db w' = Some (ls[unat i := (n, r)])"
    using app(2) line_row.rows_update [OF rs(2) enc, of "unat i"] rs(4) name
    by (auto simp: line_table_iff map_update dest!: set_update_subset_insert [THEN subsetD])
  show "write_valid db (t', w')"
    using valid index_coherent_frame [OF st, of line_indexes "index_cache t" w w'] keep line_index_paths t(2)
    by (auto simp: write_valid_def)
  show "same_txn t t'" by (rule t(1))
  show "validate_line_record r = Inr ()" by (rule encode_line_valid [OF enc])
qed

lemma mutate_line_valid:
  assumes valid: "write_valid db (t, w)" and run: "mutate_line db line_layout i r (t, w) = (Inr u, (t', w'))"
  shows "write_valid db (t', w')" "same_txn t t'"
proof -
  have st: "steady db" using valid by (simp add: write_valid_def)
  from run obtain bs where "txn_overwrite_record db (line_record_file line_layout) i bs (t, w) = (Inr (), (t', w'))"
    by (auto simp: mutate_line_def io_ok)
  from txn_overwrite_record_ok [OF st this] have t: "same_txn t t'" "index_cache t' = index_cache t" by blast+
  have "files w' p = files w p" if "p \<noteq> record_path db (line_record_file line_layout)" for p
    using line_writes_touch(2) [OF st run] that by (simp add: touches_def)
  then show "write_valid db (t', w')"
    using valid index_coherent_frame [OF st, of line_indexes "index_cache t" w w'] line_index_paths t(2)
    by (auto simp: write_valid_def)
  show "same_txn t t'" by (rule t(1))
qed

lemma index_append_write:
  assumes st: "steady db" and run: "txn_append_index_candidate db (line_name_index line_layout) (name_key n) i (t, w) = (Inr u, (t', w'))"
    and look: "\<forall>m. is_ok (line_lookup db m w)"
  shows "line_table db w' = line_table db w" "same_txn t t'"
    "line_lookup db m w' = map_sum (\<lambda>e. e) (\<lambda>xs. xs @ (if name_key n = name_key m then [i] else [])) (line_lookup db m w)"
proof -
  let ?x = "line_name_index line_layout"
  from txn_append_index_ok [OF run] obtain v where v: "quiet w v"
    "append_index_candidate db ?x (name_key n) i (write_context t) v = (Inr (), w')"
    and t: "same_txn t t'" by blast
  from append_index_candidate_ok [OF v(2)] have tch: "touches (index_path db ?x) v w'"
    by (auto simp: index_path_def dest: path_value_ok)
  have keep: "files w' p = files w p" if "p \<noteq> index_path db ?x" for p using tch v(1) that by (simp add: touches_def quiet_def)
  have "name_value db q w' = name_value db q w" for q
    using line_values_frame [OF st, of w' w q] keep line_paths_distinct(3) [of db] by metis
  moreover have "stored_records db (line_record_file line_layout) w' = stored_records db (line_record_file line_layout) w"
    using stored_records_frame [OF st] keep line_paths_distinct(2) [of db] by metis
  ultimately show "line_table db w' = line_table db w" by (simp add: line_table_def)
  show "same_txn t t'" by (rule t)
  from look obtain xs where xs: "line_lookup db m w = Inr xs" by (metis is_ok_iff)
  then have "lookup_value db ?x (name_key m) v = Inr xs"
    using lookup_value_same [OF st quiet_files [OF v(1)]] by (simp add: line_lookup_def)
  from lookup_after_append [OF st v(2) name_key_fits this] xs
  show "line_lookup db m w' = map_sum (\<lambda>e. e) (\<lambda>xs. xs @ (if name_key n = name_key m then [i] else [])) (line_lookup db m w)"
    by (simp add: line_lookup_def)
qed

text \<open>A line listed under a name, unless it already was.\<close>

lemma list_candidate_write:
  assumes st: "steady db" and look: "\<forall>m. is_ok (line_lookup db m w)" and cands: "line_lookup db n w = Inr cands"
    and run: "(if i \<in> set cands then io_return ()
        else io_map_err LineDb (txn_append_index_candidate db (line_name_index line_layout) (name_key n) i)) (t, w) = (Inr u, (t', w'))"
  shows "touches (index_path db (line_name_index line_layout)) w w'" "same_txn t t'" "line_table db w' = line_table db w"
    "\<exists>xs ys. line_lookup db k w = Inr xs \<and> line_lookup db k w' = Inr (xs @ ys) \<and> set ys \<subseteq> {i}"
    "\<exists>xs. line_lookup db n w' = Inr xs \<and> i \<in> set xs"
proof -
  obtain xs where xs: "line_lookup db k w = Inr xs" using look by (metis is_ok_iff)
  have "touches (index_path db (line_name_index line_layout)) w w' \<and> same_txn t t' \<and> line_table db w' = line_table db w \<and>
    (\<exists>ys. line_lookup db k w' = Inr (xs @ ys) \<and> set ys \<subseteq> {i}) \<and> (\<exists>xs. line_lookup db n w' = Inr xs \<and> i \<in> set xs)"
  proof (cases "i \<in> set cands")
    case True
    with run cands xs show ?thesis by (simp add: touches_def)
  next
    case False
    with run have "txn_append_index_candidate db (line_name_index line_layout) (name_key n) i (t, w) = (Inr u, (t', w'))"
      by (simp add: io_map_err_ok)
    with index_append_write [OF st this look] line_writes_touch(3) [OF st this] cands xs show ?thesis by auto
  qed
  with xs show "touches (index_path db (line_name_index line_layout)) w w'" "same_txn t t'" "line_table db w' = line_table db w"
    "\<exists>xs ys. line_lookup db k w = Inr xs \<and> line_lookup db k w' = Inr (xs @ ys) \<and> set ys \<subseteq> {i}"
    "\<exists>xs. line_lookup db n w' = Inr xs \<and> i \<in> set xs" by blast+
qed

section \<open>The live lines\<close>

text \<open>What a line is, without the place of its name in the payload file.\<close>

record line_entry =
  entry_head :: "u32 option"
  entry_created_at :: u64
  entry_updated_at :: u64
  entry_archived_at :: u64

definition line_entry_of :: "BinaryLineRecord \<Rightarrow> line_entry" where
  "line_entry_of r = \<lparr>entry_head = head_snapshot_index r, entry_created_at = line_created_at_s r,
     entry_updated_at = line_updated_at_s r, entry_archived_at = line_archived_at_s r\<rparr>"

definition live_lines :: "(string \<times> BinaryLineRecord) list \<Rightarrow> string \<rightharpoonup> line_entry" where
  "live_lines ls = map_of (map (\<lambda>(n, r). (n, line_entry_of r)) (filter (\<lambda>(n, r). \<not> line_is_tombstone r) ls))"

definition unique_live :: "(string \<times> BinaryLineRecord) list \<Rightarrow> bool" where
  "unique_live ls \<longleftrightarrow> (\<forall>name i j. live_line ls name i \<longrightarrow> live_line ls name j \<longrightarrow> i = j)"

lemma option_eqI: "(\<And>e. x = Some e \<longleftrightarrow> y = Some e) \<Longrightarrow> x = y"
  by (cases x; cases y) auto

lemma live_lines_Some:
  assumes "unique_live ls"
  shows "live_lines ls name = Some e \<longleftrightarrow> (\<exists>i. live_line ls name i \<and> e = line_entry_of (snd (ls ! i)))"
proof
  assume "live_lines ls name = Some e"
  then have "(name, e) \<in> set (map (\<lambda>(n, r). (n, line_entry_of r)) (filter (\<lambda>(n, r). \<not> line_is_tombstone r) ls))"
    unfolding live_lines_def by (rule map_of_SomeD)
  then show "\<exists>i. live_line ls name i \<and> e = line_entry_of (snd (ls ! i))"
    by (force simp: live_line_def in_set_conv_nth)
next
  assume "\<exists>i. live_line ls name i \<and> e = line_entry_of (snd (ls ! i))"
  then obtain i where i: "live_line ls name i" "e = line_entry_of (snd (ls ! i))" by blast
  then have "(name, snd (ls ! i)) \<in> set ls" "\<not> line_is_tombstone (snd (ls ! i))"
    using nth_mem [of i ls] by (auto simp: live_line_def simp del: nth_mem)
  then have "(name, e) \<in> set (map (\<lambda>(n, r). (n, line_entry_of r)) (filter (\<lambda>(n, r). \<not> line_is_tombstone r) ls))"
    using i(2) by force
  then obtain d where d: "live_lines ls name = Some d" unfolding live_lines_def by (metis weak_map_of_SomeI)
  then have "(name, d) \<in> set (map (\<lambda>(n, r). (n, line_entry_of r)) (filter (\<lambda>(n, r). \<not> line_is_tombstone r) ls))"
    unfolding live_lines_def by (rule map_of_SomeD)
  then obtain j where "live_line ls name j" "d = line_entry_of (snd (ls ! j))"
    by (force simp: live_line_def in_set_conv_nth)
  with i assms d show "live_lines ls name = Some e" by (auto simp: unique_live_def)
qed

lemma live_lines_None: "unique_live ls \<Longrightarrow> live_lines ls name = None \<longleftrightarrow> (\<forall>i. \<not> live_line ls name i)"
  using live_lines_Some [of ls name] by (metis option.exhaust option.distinct(1))

lemma live_line_append:
  "live_line (ls @ [(n, r)]) m j \<longleftrightarrow> live_line ls m j \<or> j = length ls \<and> m = n \<and> \<not> line_is_tombstone r"
  by (auto simp: live_line_def nth_append)

lemma live_line_update:
  "i < length ls \<Longrightarrow> live_line (ls[i := (n, r)]) m j \<longleftrightarrow>
     (if j = i then m = n \<and> \<not> line_is_tombstone r else live_line ls m j)"
  by (auto simp: live_line_def)

lemma live_lines_append:
  assumes "unique_live ls" and "\<forall>i. \<not> live_line ls n i"
  shows "unique_live (ls @ [(n, r)])"
    "live_lines (ls @ [(n, r)]) = (if line_is_tombstone r then live_lines ls else (live_lines ls)(n \<mapsto> line_entry_of r))"
proof -
  show u: "unique_live (ls @ [(n, r)])"
    using assms by (auto simp: unique_live_def live_line_append)
  show "live_lines (ls @ [(n, r)]) = (if line_is_tombstone r then live_lines ls else (live_lines ls)(n \<mapsto> line_entry_of r))"
  proof (rule ext, rule option_eqI)
    fix k e
    have "live_line ls k j \<Longrightarrow> (ls @ [(n, r)]) ! j = ls ! j" for j by (simp add: live_line_def nth_append)
    then have "live_lines (ls @ [(n, r)]) k = Some e \<longleftrightarrow>
        live_lines ls k = Some e \<or> k = n \<and> \<not> line_is_tombstone r \<and> e = line_entry_of r"
      unfolding live_lines_Some [OF u] live_lines_Some [OF assms(1)] live_line_append by (metis nth_append_length snd_conv)
    moreover have "live_lines ls n = None" using assms by (simp add: live_lines_None)
    ultimately show "live_lines (ls @ [(n, r)]) k = Some e \<longleftrightarrow>
        (if line_is_tombstone r then live_lines ls else (live_lines ls)(n \<mapsto> line_entry_of r)) k = Some e"
      by (cases "k = n") auto
  qed
qed

lemma live_lines_update:
  assumes u: "unique_live ls" and old: "live_line ls m i" and new: "n = m \<or> (\<forall>j. \<not> live_line ls n j)"
  shows "unique_live (ls[i := (n, r)])"
    "live_lines (ls[i := (n, r)]) =
       (if line_is_tombstone r then (live_lines ls)(m := None) else (live_lines ls)(m := None, n \<mapsto> line_entry_of r))"
proof -
  have i: "i < length ls" using old by (simp add: live_line_def)
  have others: "j = i" if "live_line ls m j" for j using u old that by (auto simp: unique_live_def)
  show v: "unique_live (ls[i := (n, r)])"
    unfolding unique_live_def live_line_update [OF i] using u others new by (auto simp: unique_live_def split: if_splits)
  show "live_lines (ls[i := (n, r)]) =
       (if line_is_tombstone r then (live_lines ls)(m := None) else (live_lines ls)(m := None, n \<mapsto> line_entry_of r))"
  proof (rule ext, rule option_eqI)
    fix k e
    have "live_lines (ls[i := (n, r)]) k = Some e \<longleftrightarrow> k = n \<and> \<not> line_is_tombstone r \<and> e = line_entry_of r \<or>
        (\<exists>j. j \<noteq> i \<and> live_line ls k j \<and> e = line_entry_of (snd (ls ! j)))"
      unfolding live_lines_Some [OF v] live_line_update [OF i] using i by (metis nth_list_update snd_conv)
    also have "(\<exists>j. j \<noteq> i \<and> live_line ls k j \<and> e = line_entry_of (snd (ls ! j))) \<longleftrightarrow> k \<noteq> m \<and> live_lines ls k = Some e"
      unfolding live_lines_Some [OF u] using others old by (metis live_line_def)
    also have "live_lines ls n = None \<or> n = m" using new by (auto simp: live_lines_None [OF u])
    then have "(k = n \<and> \<not> line_is_tombstone r \<and> e = line_entry_of r \<or> k \<noteq> m \<and> live_lines ls k = Some e) \<longleftrightarrow>
      (if line_is_tombstone r then (live_lines ls)(m := None) else (live_lines ls)(m := None, n \<mapsto> line_entry_of r)) k = Some e"
      by (cases "k = n"; cases "k = m") auto
    finally show "live_lines (ls[i := (n, r)]) k = Some e \<longleftrightarrow>
      (if line_is_tombstone r then (live_lines ls)(m := None) else (live_lines ls)(m := None, n \<mapsto> line_entry_of r)) k = Some e" .
  qed
qed

section \<open>The operations inside a transaction\<close>

lemma store_ok_unique: "line_store_ok db w ls \<Longrightarrow> unique_live ls"
  by (simp add: line_store_ok_def unique_live_def)

lemma store_ok_table: "line_store_ok db w ls \<Longrightarrow> line_table db w = Some ls"
  by (simp add: line_store_ok_def)

lemma store_ok_lookup: "line_store_ok db w ls \<Longrightarrow> \<forall>m. is_ok (line_lookup db m w)"
  unfolding line_store_ok_def by (metis is_ok_iff)

lemma appended_line_ok:
  assumes ok: "line_store_ok db w ls" and fresh: "\<forall>i. \<not> live_line ls n i" and n: "n \<noteq> []" "trim n = n"
    and table: "line_table db w' = Some (ls @ [(n, r)])"
    and look: "\<And>m. line_lookup db m w' =
      map_sum (\<lambda>e. e) (\<lambda>xs. xs @ (if name_key n = name_key m then [of_nat (length ls)] else [])) (line_lookup db m w)"
  shows "line_store_ok db w' (ls @ [(n, r)])"
  unfolding line_store_ok_def
proof (intro conjI allI)
  show "line_table db w' = Some (ls @ [(n, r)])" by (rule table)
  show "\<forall>(n, r) \<in> set (ls @ [(n, r)]). n \<noteq> [] \<and> trim n = n" using ok n by (auto simp: line_store_ok_def)
  have "unat (of_nat (length ls) :: u32) = length ls"
    using line_table_bound [OF table] by (simp add: unat_of_nat)
  then show "\<exists>xs. line_lookup db m w' = Inr xs \<and> listed (ls @ [(n, r)]) m xs" for m
  proof -
    from ok obtain xs where "line_lookup db m w = Inr xs" "listed ls m xs" unfolding line_store_ok_def by metis
    with look [of m] \<open>unat (of_nat (length ls) :: u32) = length ls\<close> show ?thesis
      by (auto simp: live_line_append listed_def less_Suc_eq)
  qed
  show "live_line (ls @ [(n, r)]) m i \<longrightarrow> live_line (ls @ [(n, r)]) m j \<longrightarrow> i = j" for m i j
    using live_lines_append(1) [OF store_ok_unique [OF ok] fresh, of r] by (simp add: unique_live_def)
qed

lemma updated_line_ok:
  assumes ok: "line_store_ok db w ls" and old: "live_line ls m i" and new: "n = m \<or> (\<forall>j. \<not> live_line ls n j)"
    and n: "n \<noteq> []" "trim n = n" and table: "line_table db w' = Some (ls[i := (n, r)])"
    and look: "\<And>k. \<exists>xs ys. line_lookup db k w = Inr xs \<and> line_lookup db k w' = Inr (xs @ ys) \<and> set ys \<subseteq> {of_nat i}"
    and here: "n = m \<or> (\<exists>xs. line_lookup db n w' = Inr xs \<and> of_nat i \<in> set xs)"
  shows "line_store_ok db w' (ls[i := (n, r)])"
  unfolding line_store_ok_def
proof (intro conjI allI)
  have i: "i < length ls" using old by (simp add: live_line_def)
  show "line_table db w' = Some (ls[i := (n, r)])" by (rule table)
  show "\<forall>(n, r) \<in> set (ls[i := (n, r)]). n \<noteq> [] \<and> trim n = n"
    using ok n by (auto simp: line_store_ok_def dest!: set_update_subset_insert [THEN subsetD])
  have "unat (of_nat i :: u32) = i"
    using i line_table_bound [OF store_ok_table [OF ok]] by (simp add: unat_of_nat)
  then show "\<exists>xs. line_lookup db k w' = Inr xs \<and> listed (ls[i := (n, r)]) k xs" for k
  proof -
    from ok obtain xs where xs: "line_lookup db k w = Inr xs" "listed ls k xs" unfolding line_store_ok_def by metis
    with look [of k] obtain ys where "line_lookup db k w' = Inr (xs @ ys)" "set ys \<subseteq> {of_nat i}" by auto
    with xs here old i \<open>unat (of_nat i :: u32) = i\<close> show ?thesis
      unfolding listed_def live_line_update [OF i] by (auto split: if_splits)
  qed
  show "live_line (ls[i := (n, r)]) k a \<longrightarrow> live_line (ls[i := (n, r)]) k b \<longrightarrow> a = b" for k a b
    using live_lines_update(1) [OF store_ok_unique [OF ok] old new, of r] by (simp add: unique_live_def)
qed

lemma append_line_same:
  assumes "append_line_in_txn db layout name meta c u a h (t, w) = (Inr x, (t', w'))"
  shows "same_txn t t'"
proof -
  from assms obtain bs rng t1 w1 bytes i t2 w2 key where
    "txn_append_payload db (line_payload_file layout) bs (t, w) = (Inr rng, (t1, w1))"
    "txn_append_record db (line_record_file layout) bytes (t1, w1) = (Inr i, (t2, w2))"
    "txn_append_index_candidate db (line_name_index layout) key i (t2, w2) = (Inr (), (t', w'))"
    by (auto simp: append_line_in_txn_def io_ok Let_def)
  from txn_append_payload_ok [OF this(1)] txn_append_record_ok [OF this(2)] txn_append_index_ok [OF this(3)]
  show ?thesis using same_txn_trans by blast
qed

lemma append_line_ok:
  assumes st: "steady db" and ok: "line_store_ok db w ls" and valid: "write_valid db (t, w)"
    and n: "name \<noteq> []" "trim name = name" "utf8_string name" and fresh: "\<forall>i. \<not> live_line ls name i"
    and bound: "Suc (length ls) < 2 ^ 32" and room: "line_payload_room db w"
    and run: "append_line_in_txn db line_layout name meta c u a h (t, w) = (Inr (i, r), (t', w'))"
  shows "line_store_ok db w' (ls @ [(name, r)])" "i = of_nat (length ls)" "line_meta r = meta"
    "line_entry_of r = \<lparr>entry_head = minus_one h, entry_created_at = c, entry_updated_at = u, entry_archived_at = a\<rparr>"
proof -
  let ?bs = "string_bytes name"
  from run obtain rng t1 w1 bytes t2 w2 where short: "length ?bs < 2 ^ 16"
    and pay: "txn_append_payload db (line_payload_file line_layout) ?bs (t, w) = (Inr rng, (t1, w1))"
    and r: "r = \<lparr>line_meta = meta, line_reserved0 = 0, line_name_len = of_nat (length ?bs),
               line_name_offset = of_nat (payload_offset rng), head_snapshot_index_plus1 = h,
               line_created_at_s = c, line_updated_at_s = u, line_archived_at_s = a\<rparr>"
    and enc: "encode_line_record line_layout r = Inr bytes"
    and rec: "txn_append_record db (line_record_file line_layout) bytes (t1, w1) = (Inr i, (t2, w2))"
    and idx: "txn_append_index_candidate db (line_name_index line_layout) (name_key name) i (t2, w2) = (Inr (), (t', w'))"
    by (auto simp: append_line_in_txn_def io_ok Let_def name_key_def not_le)
  note p = payload_write [OF st ok valid pay room short]
  have named: "name_value db r w1 = Inr name"
    by (rule named_record [OF p(4,5,6) short n(3)]) (simp_all add: r)
  note q = record_append_write [OF st store_ok_table [OF p(1)] p(2) enc bound named rec]
  have look: "line_lookup db m w2 = line_lookup db m w1" for m
    unfolding line_lookup_def using lookup_value_frame [OF st] q(5) line_paths_distinct(2) [of db] by (metis touches_def)
  have "\<forall>m. is_ok (line_lookup db m w2)" using store_ok_lookup [OF p(1)] look by simp
  note x = index_append_write [OF st idx this]
  show "line_store_ok db w' (ls @ [(name, r)])"
    by (rule appended_line_ok [OF p(1) fresh n(1,2)]) (use x(1,3) q(1,2) look in simp_all)
  show "i = of_nat (length ls)" by (rule q(1))
  show "line_meta r = meta"
    "line_entry_of r = \<lparr>entry_head = minus_one h, entry_created_at = c, entry_updated_at = u, entry_archived_at = a\<rparr>"
    by (simp_all add: r line_entry_of_def head_snapshot_index_def)
qed

end
