(* ===== verification/Line_Session.thy ===== *)
theory Line_Session
  imports Line_Laws
begin

text \<open>
  A change of the line store as a whole: taking and giving back the locks keeps every file, a commit
  publishes the files that the body wrote, and leaving a transaction in which nothing was written leaves
  every file alone.
\<close>

section \<open>Locks keep the files\<close>

lemma set_cell_files [simp]: "files (set_cell p c w) = files w"
  by (simp add: set_cell_def)

lemma drop_guard_files: "files (drop_guard g w) = files w"
proof -
  obtain q v where q: "release_guard g w = (q, v)" by fastforce
  from io_keepsD [OF release_guard_files q] q show ?thesis
    by (cases q) (simp_all add: drop_guard_def forget_holder_def same_files_def Let_def)
qed

lemma drop_guards_files: "files (drop_guards gs w) = files w"
  unfolding drop_guards_def by (induction gs arbitrary: w) (simp_all add: drop_guard_files)

lemma release_quietly_files: "release_quietly g w = (g', w') \<Longrightarrow> files w' = files w"
  using io_keepsD [OF release_guard_files, of g w]
  by (cases "release_guard g w"; cases "fst (release_guard g w)") (auto simp: release_quietly_def same_files_def)

lemma clear_contents_files: "files (snd (clear_contents_and_flush g w)) = files w"
  using io_keepsD [OF replace_contents_files, of g "[]" w]
  by (cases "replace_contents_and_flush g [] w") (simp add: clear_contents_and_flush_def same_files_def)

lemma clear_and_release_files: "clear_and_release_quietly gs w = (gs', w') \<Longrightarrow> files w' = files w"
proof (induction gs arbitrary: w gs' w')
  case (Cons g gs)
  obtain g1 v where g: "release_quietly g (snd (clear_contents_and_flush g w)) = (g1, v)" by fastforce
  obtain gs1 u where gs: "clear_and_release_quietly gs v = (gs1, u)" by fastforce
  from Cons.prems g gs Cons.IH [OF gs] release_quietly_files [OF g] clear_contents_files [of g w] show ?case by simp
qed simp

lemma abandon_guards_files: "files (abandon_guards gs w) = files w"
  using clear_and_release_files [of gs w]
  by (cases "clear_and_release_quietly gs w") (simp add: abandon_guards_def drop_guards_files)

lemma acquire_process_lock_files:
  assumes "acquire_process_lock owner p mode wait w = Some (r, w')"
  shows "files w' = files w"
proof -
  obtain q v where q: "io_bind (create_parent_dirs p) (\<lambda>_. os_query (\<lambda>w. (Inr (), w))) w = (q, v)" by fastforce
  have "io_keeps quiet (io_bind (create_parent_dirs p) (\<lambda>_. os_query (\<lambda>w. (Inr (), w))))"
    by (intro io_keeps_quiet_rules create_parent_dirs_quiet) simp
  from io_keepsD [OF this q] have v: "files v = files w" by (simp add: quiet_def)
  obtain f u where f: "take_fault v = (f, u)" by fastforce
  have u: "files u = files w" using take_fault_quiet [OF f] v by (simp add: quiet_def)
  show ?thesis
    using assms q f u v
    by (cases q; cases f) (auto simp: acquire_process_lock_def Let_def split: if_splits FileIoLockWait.splits)
qed

lemma lock_turn_next_files:
  assumes "lock_turn owner md root scope nb (NextLock (p # ps) gs) w = Some (t, w')"
  shows "files w' = files w"
proof -
  let ?wait = "if nb then Nonblocking else Blocking"
  from assms obtain q v where q: "acquire_process_lock owner p Exclusive ?wait w = Some (q, v)" by (auto split: option.splits)
  note a = acquire_process_lock_files [OF q]
  show ?thesis
  proof (cases "\<exists>g. q = Inr (Some g)")
    case False
    with assms q a show ?thesis by (auto simp: drop_guards_files abandon_guards_files split: sum.splits option.splits)
  next
    case True
    then obtain g where g: "q = Inr (Some g)" by blast
    obtain x u where x: "replace_contents_and_flush g (md p) v = (x, u)" by fastforce
    have u: "files u = files w" using io_keepsD [OF replace_contents_files x] a by (simp add: same_files_def)
    obtain gs1 u1 where c: "clear_and_release_quietly gs u = (gs1, u1)" by fastforce
    obtain g1 u2 where d: "release_quietly g u1 = (g1, u2)" by fastforce
    from assms q g x c d clear_and_release_files [OF c] release_quietly_files [OF d] u show ?thesis
      by (cases x) (auto simp: drop_guards_files drop_guard_files)
  qed
qed

lemma lock_turn_files:
  assumes "lock_turn owner md root scope nb s w = Some (t, w')"
  shows "files w' = files w"
proof (cases s)
  case OpenLockRoot
  obtain x v where x: "store_io (create_parent_dirs (path_join (lock_root root) [Normal ''.lock-root''])) w = (x, v)"
    by fastforce
  have "files v = files w"
    using readsD_quiet [OF store_io_reads [OF create_parent_dirs_reads] x] by (simp add: quiet_def)
  with assms OpenLockRoot x show ?thesis by (cases x) auto
next
  case (NextLock ps gs)
  with assms lock_turn_next_files show ?thesis by (cases ps) auto
qed

lemma lock_run_files: "lock_run owner md root scope nb s w = Some (r, w') \<Longrightarrow> files w' = files w"
proof (induction owner md root scope nb s w rule: lock_run.induct)
  case (1 owner md root scope nb s w)
  then obtain t v where t: "lock_turn owner md root scope nb s w = Some (t, v)"
    by (cases "lock_turn owner md root scope nb s w") (auto simp: lock_run.simps)
  with 1 lock_turn_files [OF t] show ?case
    by (cases t) (auto simp: lock_run.simps [of owner _ _ _ _ s])
qed

lemma begin_files:
  assumes "begin_with_fsync_policy db owner md txid scope policy w = Some (r, w')"
  shows "files w' = files w \<and> (\<forall>t. r = Inr t \<longrightarrow> (\<exists>l. t = new_txn l txid scope policy))"
proof -
  from assms obtain q where q: "acquire_command_lock db owner md scope w = Some (q, w')"
    and r: "r = res_bind q (\<lambda>lock. Inr (new_txn lock txid scope policy))"
    by (auto simp: begin_with_fsync_policy_def)
  have "ensure_admitted db w = (fst (ensure_admitted db w), w)" by (simp add: ensure_admitted_def)
  with q have "files w' = files w"
    by (auto simp: acquire_command_lock_def acquire_lock_set_def open_and_lock_def split: sum.splits option.splits if_splits prod.splits
        dest!: lock_run_files)
  with r show ?thesis by (auto simp: res_bind_Inr)
qed

lemma release_lock_set_files: "release_lock_set (l, w) = (r, (l', w')) \<Longrightarrow> files w' = files w"
  by (auto simp: release_lock_set_def split: if_splits prod.splits sum.splits dest!: release_each_files)

lemma drop_lock_set_files: "files (drop_lock_set l w) = files w"
proof -
  obtain q l' v where q: "release_lock_set (l, w) = (q, (l', v))" by (metis prod.exhaust)
  with release_lock_set_files [OF q] show ?thesis by (simp add: drop_lock_set_def drop_guards_files)
qed

section \<open>Ending a transaction\<close>

lemma commit_run:
  assumes "commit_outcome t = None" and "commit db (t, w) = (Inr out, (t', w'))"
  shows "files w' = files w \<and> finished t'"
proof -
  from assms obtain x t1 w1 where sy: "sync_touched_dependencies db (t, w) = (Inr x, (t1, w1))"
    and fin: "finish_committed db (t1, w1) = (Inr out, (t', w'))"
    by (auto simp: commit_def io_ok)
  from sync_touched_run [OF sy] finish_committed_run [OF fin] show ?thesis by simp
qed

lemma drop_finished: "finished t \<Longrightarrow> files (drop_txn db t w) = files w"
  by (simp add: drop_txn_def drop_lock_set_files)

lemma rollback_nothing:
  assumes "rollback_files t = []" and "rollback_records t = []"
  shows "rollback_uncommitted_files db (t, w) = (Inr (), (t, w))"
  using assms by (simp add: rollback_uncommitted_files_def)

lemma drop_unwritten:
  assumes "rollback_files t = []" and "rollback_records t = []"
  shows "files (drop_txn db t w) = files w"
proof -
  obtain q t1 v where q: "txn_release_lock (t, w) = (q, (t1, v))" by (metis prod.exhaust)
  with release_lock_files [OF q] rollback_nothing [OF assms, of db w] show ?thesis
    by (simp add: drop_txn_def drop_lock_set_files)
qed

lemma abort_unwritten:
  assumes "rollback_files t = []" and "rollback_records t = []" and "\<not> finished t" and "abort db (t, w) = (r, (t', w'))"
  shows "files w' = files w \<and> rollback_files t' = [] \<and> rollback_records t' = []"
proof -
  let ?t = "t\<lparr>touched_files := [], touched_directories := [], write_context := finish_context (write_context t)\<rparr>"
  obtain q t1 v where q: "txn_release_lock (?t, w) = (q, (t1, v))" by (metis prod.exhaust)
  from release_lock_files [OF q] assms q rollback_nothing [OF assms(1,2), of db w] show ?thesis
    by (cases q) (auto simp: abort_def)
qed

end
