(* ===== verification/Line_Ops.thy ===== *)
theory Line_Ops
  imports Line_Session
begin

text \<open>
  The operations of the line store implement changes of a map from names to lines: the specification is
  a step relation on that map, and every change that succeeds is one of its steps.
\<close>

section \<open>The specification\<close>

datatype line_request =
    CreateLine string "string option" string
  | BootstrapLine string string "string option" "string option" "string option" "string option"
  | ArchiveLine string string
  | RenameLine string string string
  | DeleteLine string string
  | SetLineHead string "string option" string
  | SwapLineHead string "string option" "string option" string
  | SetLineUpdatedAt string "string option"

type_synonym line_map = "string \<rightharpoonup> line_entry"

text \<open>
  Heads are given by snapshot ids, which the snapshot table resolves (\<open>resolves\<close>) and prints
  (\<open>shows\<close>).
\<close>

inductive line_step ::
    "line_clock \<Rightarrow> (string option \<Rightarrow> u32 option \<Rightarrow> bool) \<Rightarrow> (u32 option \<Rightarrow> string option \<Rightarrow> bool) \<Rightarrow>
     line_request \<Rightarrow> line_map \<Rightarrow> line_map \<Rightarrow> bool"
  for clock resolves shown where
  create: "\<lbrakk>parse_required_epoch_seconds clock at = Inr s; resolves head h; m (trim name) = None\<rbrakk> \<Longrightarrow>
     line_step clock resolves shown (CreateLine name head at) m
       (m(trim name \<mapsto> \<lparr>entry_head = h, entry_created_at = s, entry_updated_at = s, entry_archived_at = 0\<rparr>))"
| bootstrap: "\<lbrakk>status_fields clock status archived_at = Inr (meta, a); parse_epoch_seconds clock created_at = Inr c;
       parse_epoch_seconds clock updated_at = Inr u; resolves head h; m (trim name) = None\<rbrakk> \<Longrightarrow>
     line_step clock resolves shown (BootstrapLine name status created_at updated_at archived_at head) m
       (m(trim name \<mapsto> \<lparr>entry_head = h, entry_created_at = c, entry_updated_at = u, entry_archived_at = a\<rparr>))"
| archive: "\<lbrakk>parse_required_epoch_seconds clock at = Inr s; m (trim name) = Some e; entry_archived_at e = 0\<rbrakk> \<Longrightarrow>
     line_step clock resolves shown (ArchiveLine name at) m (m(trim name \<mapsto> e\<lparr>entry_archived_at := s, entry_updated_at := s\<rparr>))"
| archive_again: "\<lbrakk>m (trim name) = Some e; entry_archived_at e \<noteq> 0\<rbrakk> \<Longrightarrow>
     line_step clock resolves shown (ArchiveLine name at) m m"
| rename: "\<lbrakk>parse_required_epoch_seconds clock at = Inr s; m (trim old) = Some e; m (trim new) = None\<rbrakk> \<Longrightarrow>
     line_step clock resolves shown (RenameLine old new at) m (m(trim old := None, trim new \<mapsto> e\<lparr>entry_updated_at := s\<rparr>))"
| delete: "m (trim name) = Some e \<Longrightarrow> line_step clock resolves shown (DeleteLine name at) m (m(trim name := None))"
| set_head: "\<lbrakk>parse_required_epoch_seconds clock at = Inr s; m (trim name) = Some e; resolves head h\<rbrakk> \<Longrightarrow>
     line_step clock resolves shown (SetLineHead name head at) m (m(trim name \<mapsto> e\<lparr>entry_head := h, entry_updated_at := s\<rparr>))"
| swap_head: "\<lbrakk>parse_required_epoch_seconds clock at = Inr s; m (trim name) = Some e; shown (entry_head e) expected; resolves head h\<rbrakk> \<Longrightarrow>
     line_step clock resolves shown (SwapLineHead name expected head at) m (m(trim name \<mapsto> e\<lparr>entry_head := h, entry_updated_at := s\<rparr>))"
| updated: "\<lbrakk>parse_epoch_seconds clock at = Inr s; m (trim name) = Some e\<rbrakk> \<Longrightarrow>
     line_step clock resolves shown (SetLineUpdatedAt name at) m (m(trim name \<mapsto> e\<lparr>entry_updated_at := s\<rparr>))"

definition head_resolves :: "LocalBinaryDbFs \<Rightarrow> io_world \<Rightarrow> string option \<Rightarrow> u32 option \<Rightarrow> bool" where
  "head_resolves db w head h \<longleftrightarrow> (\<exists>plus1. resolved_head db w head plus1 \<and> h = minus_one plus1)"

definition head_shown :: "LocalBinaryDbFs \<Rightarrow> io_world \<Rightarrow> u32 option \<Rightarrow> string option \<Rightarrow> bool" where
  "head_shown db w h sid \<longleftrightarrow> (case h of None \<Rightarrow> sid = None | Some i \<Rightarrow> (\<exists>s. sid = Some s \<and> head_names db w i s))"

text \<open>The request names a public operation, and its view is dropped.\<close>

definition drop_view :: "'a line_result \<Rightarrow> unit line_result" where
  "drop_view res = map_option (\<lambda>(r, w). (map_sum (\<lambda>e. e) (\<lambda>_. ()) r, w)) res"

fun run_line_request :: "LocalBinaryDbFs \<Rightarrow> line_session \<Rightarrow> line_request \<Rightarrow> io_world \<Rightarrow> unit line_result" where
  "run_line_request db se (CreateLine name head at) w = drop_view (create_line db se line_layout name head at w)"
| "run_line_request db se (BootstrapLine name status created_at updated_at archived_at head) w =
     drop_view (append_line_for_bootstrap db se line_layout name status created_at updated_at archived_at head w)"
| "run_line_request db se (ArchiveLine name at) w = drop_view (archive_line db se line_layout name at w)"
| "run_line_request db se (RenameLine old new at) w = drop_view (rename_line db se line_layout old new at w)"
| "run_line_request db se (DeleteLine name at) w = drop_view (delete_line db se line_layout name at w)"
| "run_line_request db se (SetLineHead name head at) w = drop_view (set_line_head db se line_layout name head at w)"
| "run_line_request db se (SwapLineHead name expected head at) w =
     drop_view (compare_and_swap_line_head db se line_layout name expected head at w)"
| "run_line_request db se (SetLineUpdatedAt name at) w = drop_view (set_line_updated_at db se line_layout name at w)"

fun request_name :: "line_request \<Rightarrow> string" where
  "request_name (CreateLine name head at) = name"
| "request_name (BootstrapLine name status created_at updated_at archived_at head) = name"
| "request_name (ArchiveLine name at) = name"
| "request_name (RenameLine old new at) = new"
| "request_name (DeleteLine name at) = name"
| "request_name (SetLineHead name head at) = name"
| "request_name (SwapLineHead name expected head at) = name"
| "request_name (SetLineUpdatedAt name at) = name"

section \<open>Reads inside a change\<close>

text \<open>A transaction that has read but not written.\<close>

definition read_so_far :: "LocalBinaryDbFs \<Rightarrow> (string \<times> BinaryLineRecord) list \<Rightarrow> BinaryDbWriteTxn \<times> io_world \<Rightarrow> BinaryDbWriteTxn \<times> io_world \<Rightarrow> bool" where
  "read_so_far db ls s s' \<longleftrightarrow> write_valid db s' \<and> line_store_ok db (snd s') ls \<and> files (snd s') = files (snd s) \<and> cache_only (fst s) (fst s')"

lemma read_so_far_start: "write_valid db s \<Longrightarrow> line_store_ok db (snd s) ls \<Longrightarrow> read_so_far db ls s s"
  by (simp add: read_so_far_def)

lemma write_valid_steady: "write_valid db s \<Longrightarrow> steady db"
  by (simp add: write_valid_def)

lemma reads_so_far:
  assumes "read_so_far db ls s u" and m: "reads_only snd (write_valid db) same_write_txn m P" and "m u = (r, v)"
  shows "read_so_far db ls s v" and "r = Inr x \<Longrightarrow> P (snd u) x" and "r = Inr x \<Longrightarrow> P (snd s) x"
proof -
  have u: "write_valid db u" "files (snd u) = files (snd s)" using assms(1) by (auto simp: read_so_far_def)
  note run = reads_only_run [OF m u(1) assms(3)]
  show "read_so_far db ls s v"
    using assms(1) run line_store_ok_same [OF write_valid_steady [OF u(1)], of "snd v" "snd u" ls] cache_only_trans
    by (auto simp: read_so_far_def same_write_txn_def quiet_def)
  show "r = Inr x \<Longrightarrow> P (snd u) x" "r = Inr x \<Longrightarrow> P (snd s) x" using reads_only_ok [OF m u(1)] assms(3) u(2) by auto
qed

lemma indexes_known: "line_name_index line_layout \<in> line_indexes" "snapshot_id_index 1 \<in> line_indexes"
  by (simp_all add: line_indexes_def)

lemma require_line_reads:
  "reads_only snd (write_valid db) same_write_txn (require_line db name)
     (\<lambda>w (i, r). \<forall>ls. line_store_ok db w ls \<longrightarrow> live_line ls (trim name) (unat i) \<and> r = snd (ls ! unat i))"
  unfolding require_line_def
  by (rule reads_only_weaken [OF write_reader.bind_reads [OF reads_only_map_err [OF write_reader.find_reads [OF indexes_known(1)]]
        write_reader.case_reads [OF write_reader.fail_reads write_reader.return_reads]]])
    (auto simp: found_line_def split: option.splits)

lemma refuse_line_reads:
  "reads_only snd (write_valid db) same_write_txn (refuse_line db name)
     (\<lambda>w _. \<forall>ls. line_store_ok db w ls \<longrightarrow> (\<forall>i. \<not> live_line ls (trim name) i))"
  unfolding refuse_line_def
  by (rule reads_only_weaken [OF write_reader.bind_reads [OF reads_only_map_err [OF write_reader.find_reads [OF indexes_known(1)]]
        write_reader.if_reads [OF write_reader.fail_reads write_reader.return_reads]]])
    (auto simp: found_line_def split: option.splits if_splits)

lemmas resolve_in_txn = write_reader.resolve_reads [OF indexes_known(2)]

section \<open>Ending a change\<close>

lemma finish_change:
  assumes "steady db" and "commit_outcome t = None" and "view_and_commit clock db i r (t, w) = (Inr view, (t', w'))"
  shows "files w' = files w \<and> finished t' \<and> shows_line clock db w i r view"
proof -
  from assms(3) obtain s out where v: "line_record_view clock (write_access db) i r (t, w) = (Inr view, s)"
    and c: "commit db s = (Inr out, (t', w'))" by (auto simp: view_and_commit_def io_ok)
  note run = reads_only_run [OF plain_reader.view_reads _ v] and ok = reads_only_ok [OF plain_reader.view_reads _ v, of w]
  obtain t1 w1 where s: "s = (t1, w1)" by fastforce
  have "commit_outcome t1 = None" using run(2) assms(1,2) s cache_only_logs(4) by (fastforce simp: same_write_txn_def)
  from commit_run [OF this, of db w1 out t' w'] c s run ok assms(1) show ?thesis by (simp add: quiet_def)
qed

text \<open>A record with the same name written over a live line, and committed.\<close>

definition same_name :: "BinaryLineRecord \<Rightarrow> BinaryLineRecord \<Rightarrow> bool" where
  "same_name r r' \<longleftrightarrow> line_name_len r' = line_name_len r \<and> line_name_offset r' = line_name_offset r"

lemma mutate_ok:
  assumes valid: "write_valid db (t, w)" and ok: "line_store_ok db w ls" and live: "live_line ls n (unat i)"
    and same: "same_name (snd (ls ! unat i)) r" and run: "mutate_line db line_layout i r (t, w) = (Inr u, (t', w'))"
  shows "line_store_ok db w' (ls[unat i := (n, r)])" "same_txn t t'" "validate_line_record r = Inr ()"
proof -
  note st = write_valid_steady [OF valid]
  have row: "unat i < length ls" "ls ! unat i \<in> set ls" "fst (ls ! unat i) = n" using live by (auto simp: live_line_def)
  have "name_value db (snd (ls ! unat i)) w = Inr n"
    using store_ok_table [OF ok] row by (fastforce simp: line_table_iff)
  then have named: "name_value db r w = Inr n" using same by (simp add: name_value_def same_name_def)
  note up = record_update_write [OF st store_ok_table [OF ok] valid named run]
  have n: "n \<noteq> []" "trim n = n" using ok row by (auto simp: line_store_ok_def case_prod_beta)
  have look: "line_lookup db k w' = line_lookup db k w" for k
    unfolding line_lookup_def using lookup_value_frame [OF st] up(5) line_paths_distinct(2) [of db] by (metis touches_def)
  have "\<exists>xs ys. line_lookup db k w = Inr xs \<and> line_lookup db k w' = Inr (xs @ ys) \<and> set ys \<subseteq> {of_nat (unat i)}" for k
    using store_ok_lookup [OF ok] look [of k] by (metis append_Nil2 empty_set empty_subsetI is_ok_iff)
  then show "line_store_ok db w' (ls[unat i := (n, r)])"
    using updated_line_ok [OF ok live _ n up(2)] by blast
  show "same_txn t t'" "validate_line_record r = Inr ()" by (rule up(4), rule up(6))
qed

lemma mutate_and_finish:
  assumes valid: "write_valid db (t, w)" and ok: "line_store_ok db w ls" and live: "live_line ls n (unat i)"
    and same: "same_name (snd (ls ! unat i)) r" and out: "commit_outcome t = None"
    and run: "io_bind (mutate_line db line_layout i r) (\<lambda>_. view_and_commit clock db i r) (t, w) = (Inr view, (t', w'))"
  shows "finished t' \<and> (\<exists>ls'. line_store_ok db w' ls' \<and>
    live_lines ls' = (if line_is_tombstone r then (live_lines ls)(n := None) else (live_lines ls)(n \<mapsto> line_entry_of r)))"
proof -
  from run obtain t1 w1 where m: "mutate_line db line_layout i r (t, w) = (Inr (), (t1, w1))"
    and c: "view_and_commit clock db i r (t1, w1) = (Inr view, (t', w'))" by (auto simp: io_ok)
  note st = write_valid_steady [OF valid] and mu = mutate_ok [OF valid ok live same m]
  have "commit_outcome t1 = None" using mu(2) out by (simp add: same_txn_def)
  note fin = finish_change [OF st this c]
  have "line_store_ok db w' (ls[unat i := (n, r)])" using mu(1) line_store_ok_same [OF st, of w' w1] fin by simp
  moreover have "live_lines (ls[unat i := (n, r)]) =
      (if line_is_tombstone r then (live_lines ls)(n := None) else (live_lines ls)(n \<mapsto> line_entry_of r))"
    using live_lines_update(2) [OF store_ok_unique [OF ok] live, of n r] by simp
  ultimately show ?thesis using fin by blast
qed

section \<open>The bodies\<close>

definition changed ::
    "LocalBinaryDbFs \<Rightarrow> line_clock \<Rightarrow> line_request \<Rightarrow> (string \<times> BinaryLineRecord) list \<Rightarrow>
     BinaryDbWriteTxn \<times> io_world \<Rightarrow> BinaryDbWriteTxn \<times> io_world \<Rightarrow> bool" where
  "changed db clock q ls s s' \<longleftrightarrow>
     (finished (fst s') \<or> cache_only (fst s) (fst s') \<and> files (snd s') = files (snd s)) \<and>
     (\<exists>ls'. line_store_ok db (snd s') ls' \<and>
        line_step clock (head_resolves db (snd s)) (head_shown db (snd s)) q (live_lines ls) (live_lines ls'))"

lemma live_entry: "line_store_ok db w ls \<Longrightarrow> live_line ls n i \<Longrightarrow> live_lines ls n = Some (line_entry_of (snd (ls ! i)))"
  using live_lines_Some [OF store_ok_unique] by blast

lemma row_valid:
  assumes "line_store_ok db w ls" and "live_line ls n i"
  shows "validate_line_record (snd (ls ! i)) = Inr ()" "\<not> line_is_tombstone (snd (ls ! i))"
proof -
  from store_ok_table [OF assms(1)] obtain rs where rs: "rows_of (decode_line_record line_layout) rs = Some (map snd ls)"
    by (rule line_table_rows)
  have "i < length ls" using assms(2) by (simp add: live_line_def)
  with rows_of_nth [OF rs, of i] have "decode_line_record line_layout (rs ! i) = Inr (snd (ls ! i))" by simp
  then show "validate_line_record (snd (ls ! i)) = Inr ()" using line_row.enc_dec encode_line_valid by blast
  show "\<not> line_is_tombstone (snd (ls ! i))" using assms(2) by (simp add: live_line_def)
qed

lemma archived_iff: "validate_line_record r = Inr () \<Longrightarrow> line_is_archived r \<longleftrightarrow> line_archived_at_s r \<noteq> 0"
  by (auto simp: validate_line_record_def split: if_splits)

lemma meta_bits [simp]:
  "line_is_tombstone (r\<lparr>line_meta := or (line_meta r) META_ARCHIVED\<rparr>) \<longleftrightarrow> line_is_tombstone r"
  "line_is_tombstone (r\<lparr>line_meta := or (line_meta r) (or META_LINE_TOMBSTONE META_ARCHIVED)\<rparr>)"
  "line_is_tombstone (r\<lparr>head_snapshot_index_plus1 := h\<rparr>) \<longleftrightarrow> line_is_tombstone r"
  "line_is_tombstone (r\<lparr>line_updated_at_s := b\<rparr>) \<longleftrightarrow> line_is_tombstone r"
  "line_is_tombstone (r\<lparr>line_archived_at_s := b\<rparr>) \<longleftrightarrow> line_is_tombstone r"
  "line_is_tombstone (r\<lparr>line_name_len := l\<rparr>) \<longleftrightarrow> line_is_tombstone r"
  "line_is_tombstone (r\<lparr>line_name_offset := off\<rparr>) \<longleftrightarrow> line_is_tombstone r"
  by (simp_all add: line_is_tombstone_def meta_has_def META_ARCHIVED_def META_LINE_TOMBSTONE_def bit.conj_disj_distrib2
      or_eq_0_iff)

lemma append_refines:
  assumes chain: "read_so_far db ls (t, w) (t1, w1)" and ok: "line_store_ok db w ls" and fresh: "\<forall>i. \<not> live_line ls n i"
    and n: "n \<noteq> []" "trim n = n" "utf8_string n" and bound: "Suc (length ls) < 2 ^ 32" and room: "line_payload_room db w"
    and meta: "\<not> meta_has meta META_LINE_TOMBSTONE" and same: "files w' = files w2"
    and app: "append_line_in_txn db line_layout n meta c u a h (t1, w1) = (Inr (i, r), (t2, w2))"
  shows "line_store_ok db w' (ls @ [(n, r)])"
    "live_lines (ls @ [(n, r)]) = (live_lines ls)(n \<mapsto>
      \<lparr>entry_head = minus_one h, entry_created_at = c, entry_updated_at = u, entry_archived_at = a\<rparr>)"
proof -
  have s1: "line_store_ok db w1 ls" "write_valid db (t1, w1)" "files w1 = files w" using chain by (auto simp: read_so_far_def)
  have st: "steady db" by (rule write_valid_steady [OF s1(2)])
  have "line_payload_room db w1" using room line_payload_room_same [OF s1(3)] by simp
  note d = append_line_ok [OF st s1(1,2) n fresh bound this app]
  show "line_store_ok db w' (ls @ [(n, r)])" using d(1) line_store_ok_same [OF st same] by simp
  have "\<not> line_is_tombstone r" using d(3) meta by (simp add: line_is_tombstone_def)
  with live_lines_append(2) [OF store_ok_unique [OF ok] fresh, of r] d(4)
  show "live_lines (ls @ [(n, r)]) = (live_lines ls)(n \<mapsto>
      \<lparr>entry_head = minus_one h, entry_created_at = c, entry_updated_at = u, entry_archived_at = a\<rparr>)" by simp
qed

lemma create_changes:
  assumes valid: "write_valid db (t, w)" and ok: "line_store_ok db w ls" and out: "commit_outcome t = None"
    and n: "trim name \<noteq> []" "utf8_string (trim name)" and bound: "Suc (length ls) < 2 ^ 32"
    and room: "line_payload_room db w" and at: "parse_required_epoch_seconds clock at = Inr s"
    and run: "create_line_body clock db line_layout (trim name) head s (t, w) = (Inr view, (t', w'))"
  shows "changed db clock (CreateLine name head at) ls (t, w) (t', w')"
proof -
  from run obtain t1 w1 h t2 w2 i r t3 w3 where
    refuse: "refuse_line db (trim name) (t, w) = (Inr (), (t1, w1))"
    and head: "resolve_snapshot_index_plus1 (write_access db) head (t1, w1) = (Inr h, (t2, w2))"
    and app: "append_line_in_txn db line_layout (trim name) 0 s s 0 h (t2, w2) = (Inr (i, r), (t3, w3))"
    and fin: "view_and_commit clock db i r (t3, w3) = (Inr view, (t', w'))"
    by (auto simp: create_line_body_def io_ok)
  have start: "read_so_far db ls (t, w) (t, w)" using valid ok by (simp add: read_so_far_start)
  note a = reads_so_far [OF start refuse_line_reads refuse]
  note b = reads_so_far [OF a(1) resolve_in_txn head]
  have fresh: "\<forall>i. \<not> live_line ls (trim name) i" using a(3) ok by simp
  have "cache_only t t2" using b(1) by (simp add: read_so_far_def)
  then have "commit_outcome t3 = None"
    using append_line_same [OF app] out cache_only_logs(4) [of t t2] by (simp add: same_txn_def)
  note c = finish_change [OF write_valid_steady [OF valid] this fin]
  have meta: "\<not> meta_has 0 META_LINE_TOMBSTONE" by (simp add: meta_has_def)
  note d = append_refines [OF b(1) ok fresh n(1) trim_trim n(2) bound room meta conjunct1 [OF c] app]
  have "head_resolves db w head (minus_one h)" using b(3) by (auto simp: head_resolves_def)
  moreover have "live_lines ls (trim name) = None" using live_lines_None [OF store_ok_unique [OF ok]] fresh by simp
  ultimately show ?thesis unfolding changed_def using c d line_step.create [OF at] by (metis fst_conv snd_conv)
qed

lemma status_not_tombstone: "status_fields clock status archived_at = Inr (meta, a) \<Longrightarrow> \<not> meta_has meta META_LINE_TOMBSTONE"
  by (auto simp: status_fields_def Let_def res_bind_Inr meta_has_def META_ARCHIVED_def META_LINE_TOMBSTONE_def split: if_splits)

lemma bootstrap_changes:
  assumes valid: "write_valid db (t, w)" and ok: "line_store_ok db w ls" and out: "commit_outcome t = None"
    and n: "trim name \<noteq> []" "utf8_string (trim name)" and bound: "Suc (length ls) < 2 ^ 32"
    and room: "line_payload_room db w"
    and run: "bootstrap_line_body clock db line_layout (trim name) status created updated archived head (t, w) = (Inr k, (t', w'))"
  shows "changed db clock (BootstrapLine name status created updated archived head) ls (t, w) (t', w')"
proof -
  from run obtain t1 w1 meta a c u h t2 w2 i r t3 w3 out' where
    refuse: "refuse_line db (trim name) (t, w) = (Inr (), (t1, w1))"
    and fields: "status_fields clock status archived = Inr (meta, a)" "parse_epoch_seconds clock created = Inr c"
      "parse_epoch_seconds clock updated = Inr u"
    and head: "resolve_snapshot_index_plus1 (write_access db) head (t1, w1) = (Inr h, (t2, w2))"
    and app: "append_line_in_txn db line_layout (trim name) meta c u a h (t2, w2) = (Inr (i, r), (t3, w3))"
    and fin: "commit db (t3, w3) = (Inr out', (t', w'))"
    by (auto simp: bootstrap_line_body_def io_ok)
  have start: "read_so_far db ls (t, w) (t, w)" using valid ok by (simp add: read_so_far_start)
  note a = reads_so_far [OF start refuse_line_reads refuse]
  note b = reads_so_far [OF a(1) resolve_in_txn head]
  have fresh: "\<forall>i. \<not> live_line ls (trim name) i" using a(3) ok by simp
  have "cache_only t t2" using b(1) by (simp add: read_so_far_def)
  then have "commit_outcome t3 = None"
    using append_line_same [OF app] out cache_only_logs(4) [of t t2] by (simp add: same_txn_def)
  note e = commit_run [OF this fin]
  note d = append_refines [OF b(1) ok fresh n(1) trim_trim n(2) bound room status_not_tombstone [OF fields(1)] conjunct1 [OF e] app]
  have "head_resolves db w head (minus_one h)" using b(3) by (auto simp: head_resolves_def)
  moreover have "live_lines ls (trim name) = None" using live_lines_None [OF store_ok_unique [OF ok]] fresh by simp
  ultimately show ?thesis unfolding changed_def using e d line_step.bootstrap [OF fields] by (metis fst_conv snd_conv)
qed

lemma update_changes:
  assumes chain: "read_so_far db ls (t, w) (t1, w1)" and out: "commit_outcome t = None"
    and live: "live_line ls n (unat i)" and same: "same_name (snd (ls ! unat i)) r"
    and run: "io_bind (mutate_line db line_layout i r) (\<lambda>_. view_and_commit clock db i r) (t1, w1) = (Inr view, (t', w'))"
    and step: "line_step clock (head_resolves db w) (head_shown db w) q (live_lines ls)
      (if line_is_tombstone r then (live_lines ls)(n := None) else (live_lines ls)(n \<mapsto> line_entry_of r))"
  shows "changed db clock q ls (t, w) (t', w')"
proof -
  have c: "write_valid db (t1, w1)" "line_store_ok db w1 ls" "cache_only t t1" using chain by (auto simp: read_so_far_def)
  have "commit_outcome t1 = None" using cache_only_logs(4) [OF c(3)] out by simp
  from mutate_and_finish [OF c(1,2) live same this run] obtain ls' where "finished t'" "line_store_ok db w' ls'"
    "live_lines ls' = (if line_is_tombstone r then (live_lines ls)(n := None) else (live_lines ls)(n \<mapsto> line_entry_of r))" by blast
  with step show ?thesis unfolding changed_def by (auto intro!: exI [of _ ls'])
qed

lemma require_changes:
  assumes "write_valid db (t, w)" and "line_store_ok db w ls" and "trim n = n"
    and "require_line db n (t, w) = (Inr (i, r), (t1, w1))"
  shows "read_so_far db ls (t, w) (t1, w1)" "live_line ls n (unat i)" "r = snd (ls ! unat i)"
    "live_lines ls n = Some (line_entry_of r)" "\<not> line_is_tombstone r" "validate_line_record r = Inr ()"
proof -
  have start: "read_so_far db ls (t, w) (t, w)" using assms by (simp add: read_so_far_start)
  note a = reads_so_far [OF start require_line_reads assms(4)]
  show "read_so_far db ls (t, w) (t1, w1)" by (rule a(1))
  show l: "live_line ls n (unat i)" and r: "r = snd (ls ! unat i)" using a(3) assms(2,3) by auto
  show "live_lines ls n = Some (line_entry_of r)" "\<not> line_is_tombstone r" "validate_line_record r = Inr ()"
    using live_entry [OF assms(2) l] row_valid [OF assms(2) l] r by simp_all
qed

lemma archive_changes:
  assumes valid: "write_valid db (t, w)" and ok: "line_store_ok db w ls" and out: "commit_outcome t = None"
    and n: "trim (trim name) = trim name" and at: "parse_required_epoch_seconds clock at = Inr s"
    and run: "archive_line_body clock db line_layout (trim name) s (t, w) = (Inr view, (t', w'))"
  shows "changed db clock (ArchiveLine name at) ls (t, w) (t', w')"
proof -
  from run obtain i r t1 w1 where req: "require_line db (trim name) (t, w) = (Inr (i, r), (t1, w1))"
    and rest: "(if line_is_archived r then line_record_view clock (write_access db) i r
       else let r' = r\<lparr>line_meta := or (line_meta r) META_ARCHIVED, line_archived_at_s := s, line_updated_at_s := s\<rparr>
         in io_bind (mutate_line db line_layout i r') (\<lambda>_. view_and_commit clock db i r')) (t1, w1) = (Inr view, (t', w'))"
    by (auto simp: archive_line_body_def io_ok simp del: if_split)
  note q = require_changes [OF valid ok n req]
  show ?thesis
  proof (cases "line_is_archived r")
    case True
    then have "line_record_view clock (write_access db) i r (t1, w1) = (Inr view, (t', w'))" using rest by simp
    from reads_so_far(1) [OF q(1) write_reader.view_reads this]
    have "cache_only t t'" "files w' = files w" "line_store_ok db w' ls" by (auto simp: read_so_far_def)
    moreover have "entry_archived_at (line_entry_of r) \<noteq> 0"
      using archived_iff [OF q(6)] True by (simp add: line_entry_of_def)
    then have "line_step clock (head_resolves db w) (head_shown db w) (ArchiveLine name at) (live_lines ls) (live_lines ls)"
      using line_step.archive_again q(4) by metis
    ultimately show ?thesis unfolding changed_def by auto
  next
    case False
    let ?r = "r\<lparr>line_meta := or (line_meta r) META_ARCHIVED, line_archived_at_s := s, line_updated_at_s := s\<rparr>"
    have run': "io_bind (mutate_line db line_layout i ?r) (\<lambda>_. view_and_commit clock db i ?r) (t1, w1) = (Inr view, (t', w'))"
      using rest False by (simp add: Let_def)
    have "entry_archived_at (line_entry_of r) = 0" using archived_iff [OF q(6)] False by (simp add: line_entry_of_def)
    moreover have "line_entry_of ?r = (line_entry_of r)\<lparr>entry_archived_at := s, entry_updated_at := s\<rparr>"
      by (simp add: line_entry_of_def head_snapshot_index_def)
    ultimately have "line_step clock (head_resolves db w) (head_shown db w) (ArchiveLine name at) (live_lines ls)
        (if line_is_tombstone ?r then (live_lines ls)(trim name := None) else (live_lines ls)(trim name \<mapsto> line_entry_of ?r))"
      using line_step.archive [where clock = clock and m = "live_lines ls", OF at q(4)] q(5) by simp
    from update_changes [OF q(1) out q(2) _ run' this] show ?thesis by (simp add: same_name_def q(3))
  qed
qed

lemma delete_changes:
  assumes valid: "write_valid db (t, w)" and ok: "line_store_ok db w ls" and out: "commit_outcome t = None"
    and n: "trim (trim name) = trim name"
    and run: "delete_line_body clock db line_layout (trim name) s (t, w) = (Inr view, (t', w'))"
  shows "changed db clock (DeleteLine name at) ls (t, w) (t', w')"
proof -
  let ?r = "\<lambda>r. r\<lparr>line_meta := or (line_meta r) (or META_LINE_TOMBSTONE META_ARCHIVED), line_archived_at_s := s, line_updated_at_s := s\<rparr>"
  from run obtain i r t1 w1 where req: "require_line db (trim name) (t, w) = (Inr (i, r), (t1, w1))"
    and run': "io_bind (mutate_line db line_layout i (?r r)) (\<lambda>_. view_and_commit clock db i (?r r)) (t1, w1) = (Inr view, (t', w'))"
    by (auto simp: delete_line_body_def io_ok Let_def)
  note q = require_changes [OF valid ok n req]
  have "line_step clock (head_resolves db w) (head_shown db w) (DeleteLine name at) (live_lines ls)
      (if line_is_tombstone (?r r) then (live_lines ls)(trim name := None) else (live_lines ls)(trim name \<mapsto> line_entry_of (?r r)))"
    using line_step.delete [where clock = clock and m = "live_lines ls", OF q(4)] by simp
  from update_changes [OF q(1) out q(2) _ run' this] show ?thesis by (simp add: same_name_def q(3))
qed

lemma set_head_changes:
  assumes valid: "write_valid db (t, w)" and ok: "line_store_ok db w ls" and out: "commit_outcome t = None"
    and n: "trim (trim name) = trim name" and at: "parse_required_epoch_seconds clock at = Inr s"
    and run: "set_line_head_body clock db line_layout (trim name) head s (t, w) = (Inr view, (t', w'))"
  shows "changed db clock (SetLineHead name head at) ls (t, w) (t', w')"
proof -
  let ?r = "\<lambda>r h. r\<lparr>head_snapshot_index_plus1 := h, line_updated_at_s := s\<rparr>"
  from run obtain i r t1 w1 h t2 w2 where req: "require_line db (trim name) (t, w) = (Inr (i, r), (t1, w1))"
    and head: "resolve_snapshot_index_plus1 (write_access db) head (t1, w1) = (Inr h, (t2, w2))"
    and run': "io_bind (mutate_line db line_layout i (?r r h)) (\<lambda>_. view_and_commit clock db i (?r r h)) (t2, w2) = (Inr view, (t', w'))"
    by (auto simp: set_line_head_body_def io_ok Let_def)
  note q = require_changes [OF valid ok n req]
  note b = reads_so_far [OF q(1) resolve_in_txn head]
  have "head_resolves db w head (minus_one h)" using b(3) by (auto simp: head_resolves_def)
  moreover have "line_entry_of (?r r h) = (line_entry_of r)\<lparr>entry_head := minus_one h, entry_updated_at := s\<rparr>"
    by (simp add: line_entry_of_def head_snapshot_index_def)
  ultimately have "line_step clock (head_resolves db w) (head_shown db w) (SetLineHead name head at) (live_lines ls)
      (if line_is_tombstone (?r r h) then (live_lines ls)(trim name := None) else (live_lines ls)(trim name \<mapsto> line_entry_of (?r r h)))"
    using line_step.set_head [where clock = clock and m = "live_lines ls", OF at q(4)] q(5) by simp
  from update_changes [OF b(1) out q(2) _ run' this] show ?thesis by (simp add: same_name_def q(3))
qed

lemma swap_head_changes:
  assumes valid: "write_valid db (t, w)" and ok: "line_store_ok db w ls" and out: "commit_outcome t = None"
    and n: "trim (trim name) = trim name" and at: "parse_required_epoch_seconds clock at = Inr s"
    and run: "compare_and_swap_body clock db line_layout (trim name) expected head s (t, w) = (Inr view, (t', w'))"
  shows "changed db clock (SwapLineHead name expected head at) ls (t, w) (t', w')"
proof -
  let ?r = "\<lambda>r h. r\<lparr>head_snapshot_index_plus1 := h, line_updated_at_s := s\<rparr>"
  from run obtain i r t1 w1 cur t2 w2 h t3 w3 where req: "require_line db (trim name) (t, w) = (Inr (i, r), (t1, w1))"
    and view: "line_record_view clock (write_access db) i r (t1, w1) = (Inr cur, (t2, w2))"
    and exp: "view_head_snapshot_id cur = expected"
    and head: "resolve_snapshot_index_plus1 (write_access db) head (t2, w2) = (Inr h, (t3, w3))"
    and run': "io_bind (mutate_line db line_layout i (?r r h)) (\<lambda>_. view_and_commit clock db i (?r r h)) (t3, w3) = (Inr view, (t', w'))"
    by (auto simp: compare_and_swap_body_def io_ok Let_def split: if_split_asm)
  note q = require_changes [OF valid ok n req]
  note v = reads_so_far [OF q(1) write_reader.view_reads view]
  note b = reads_so_far [OF v(1) resolve_in_txn head]
  have "head_resolves db w head (minus_one h)" using b(3) by (auto simp: head_resolves_def)
  moreover have "head_shown db w (entry_head (line_entry_of r)) expected"
    using v(3) exp by (auto simp: shows_line_def shown_head_def head_shown_def line_entry_of_def)
  moreover have "line_entry_of (?r r h) = (line_entry_of r)\<lparr>entry_head := minus_one h, entry_updated_at := s\<rparr>"
    by (simp add: line_entry_of_def head_snapshot_index_def)
  ultimately have "line_step clock (head_resolves db w) (head_shown db w) (SwapLineHead name expected head at) (live_lines ls)
      (if line_is_tombstone (?r r h) then (live_lines ls)(trim name := None) else (live_lines ls)(trim name \<mapsto> line_entry_of (?r r h)))"
    using line_step.swap_head [where clock = clock and m = "live_lines ls", OF at q(4)] q(5) by simp
  from update_changes [OF b(1) out q(2) _ run' this] show ?thesis by (simp add: same_name_def q(3))
qed

lemma updated_changes:
  assumes valid: "write_valid db (t, w)" and ok: "line_store_ok db w ls" and out: "commit_outcome t = None"
    and n: "trim (trim name) = trim name" and at: "parse_epoch_seconds clock at = Inr s"
    and run: "set_line_updated_at_body db line_layout (trim name) s (t, w) = (Inr u, (t', w'))"
  shows "changed db clock (SetLineUpdatedAt name at) ls (t, w) (t', w')"
proof -
  let ?r = "\<lambda>r. r\<lparr>line_updated_at_s := s\<rparr>"
  from run obtain i r t1 w1 t2 w2 o' where req: "require_line db (trim name) (t, w) = (Inr (i, r), (t1, w1))"
    and mut: "mutate_line db line_layout i (?r r) (t1, w1) = (Inr (), (t2, w2))"
    and com: "commit db (t2, w2) = (Inr o', (t', w'))"
    by (auto simp: set_line_updated_at_body_def io_ok)
  note q = require_changes [OF valid ok n req]
  have c: "write_valid db (t1, w1)" "line_store_ok db w1 ls" "cache_only t t1" using q(1) by (auto simp: read_so_far_def)
  have "same_name (snd (ls ! unat i)) (?r r)" by (simp add: same_name_def q(3))
  note mu = mutate_ok [OF c(1,2) q(2) this mut]
  have "commit_outcome t2 = None" using mu(2) cache_only_logs(4) [OF c(3)] out by (simp add: same_txn_def)
  note fin = commit_run [OF this com]
  have "line_store_ok db w' (ls[unat i := (trim name, ?r r)])"
    using mu(1) line_store_ok_same [OF write_valid_steady [OF valid], of w' w2] fin by simp
  moreover have "live_lines (ls[unat i := (trim name, ?r r)]) = (live_lines ls)(trim name \<mapsto> (line_entry_of r)\<lparr>entry_updated_at := s\<rparr>)"
    using live_lines_update(2) [OF store_ok_unique [OF ok] q(2), of "trim name" "?r r"] q(5)
    by (simp add: line_entry_of_def head_snapshot_index_def)
  moreover have "line_step clock (head_resolves db w) (head_shown db w) (SetLineUpdatedAt name at) (live_lines ls)
      ((live_lines ls)(trim name \<mapsto> (line_entry_of r)\<lparr>entry_updated_at := s\<rparr>))"
    using line_step.updated [where clock = clock and m = "live_lines ls", OF at q(4)] .
  ultimately show ?thesis unfolding changed_def using fin
    by (auto intro!: exI [of _ "ls[unat i := (trim name, ?r r)]"])
qed

text \<open>Renaming writes the new name, points the record to it, and lists it in the index.\<close>

lemma rename_writes:
  fixes db n rng s r
  defines "bs \<equiv> string_bytes n"
  defines "r' \<equiv> r\<lparr>line_name_len := of_nat (length bs), line_name_offset := of_nat (payload_offset rng), line_updated_at_s := s\<rparr>"
  assumes valid: "write_valid db (t, w)" and ok: "line_store_ok db w ls" and live: "live_line ls old (unat i)"
    and fresh: "\<forall>i. \<not> live_line ls n i" and n: "n \<noteq> []" "trim n = n" "utf8_string n" and short: "length bs < 2 ^ 16"
    and room: "line_payload_room db w"
    and pay: "txn_append_payload db (line_payload_file line_layout) bs (t, w) = (Inr rng, (t1, w1))"
    and mut: "mutate_line db line_layout i r' (t1, w1) = (Inr (), (t2, w2))"
    and look: "txn_lookup_index db (line_name_index line_layout) (name_key n) (t2, w2) = (Inr cands, (t3, w3))"
    and idx: "(if i \<in> set cands then io_return ()
        else io_map_err LineDb (txn_append_index_candidate db (line_name_index line_layout) (name_key n) i)) (t3, w3) = (Inr u, (t4, w4))"
  shows "same_txn t t4" "line_store_ok db w4 (ls[unat i := (n, r')])"
proof -
  note st = write_valid_steady [OF valid]
  note p = payload_write [OF st ok valid pay room short] and m = mutate_line_valid [OF _ mut]
  have l: "quiet w2 w3" "cache_only t2 t3" "lookup_value db (line_name_index line_layout) (name_key n) w2 = Inr cands"
    using txn_lookup_ok [OF st _ indexes_known(1) look] m(1) [OF p(2)] by (auto simp: write_valid_def)
  have "files w3 (index_path db (line_name_index line_layout)) = files w1 (index_path db (line_name_index line_layout))"
    using line_writes_touch(2) [OF st mut] l(1) line_paths_distinct(2) [of db, symmetric] by (simp add: quiet_def touches_def)
  then have look3: "line_lookup db k w3 = line_lookup db k w1" for k
    unfolding line_lookup_def by (rule lookup_value_frame [OF st])
  have cands: "line_lookup db n w3 = Inr cands"
    unfolding line_lookup_def using l(3) lookup_value_same [OF st quiet_files [OF l(1)]] by simp
  have "\<forall>m. is_ok (line_lookup db m w3)" using store_ok_lookup [OF p(1)] look3 by simp
  note x = list_candidate_write [OF st this cands idx]
  show "same_txn t t4" using p(3) m(2) [OF p(2)] cache_only_same [OF l(2)] x(2) same_txn_trans by blast
  have named: "name_value db r' w1 = Inr n"
    by (rule named_record [OF p(4) [unfolded bs_def] p(5) [unfolded bs_def] p(6) short [unfolded bs_def] n(3)])
      (simp_all add: r'_def bs_def)
  note up = record_update_write [OF st store_ok_table [OF p(1)] p(2) named mut]
  have table: "line_table db w4 = Some (ls[unat i := (n, r')])"
    using x(3) up(2) line_table_same [OF st quiet_files [OF l(1)]] by simp
  show "line_store_ok db w4 (ls[unat i := (n, r')])"
    by (rule updated_line_ok [OF p(1) live _ n(1,2) table]) (use fresh x(4,5) look3 in simp_all)
qed

lemma rename_changes:
  assumes valid: "write_valid db (t, w)" and ok: "line_store_ok db w ls" and out: "commit_outcome t = None"
    and n: "trim (trim old) = trim old" "trim new \<noteq> []" "trim (trim new) = trim new" "utf8_string (trim new)"
    and room: "line_payload_room db w" and at: "parse_required_epoch_seconds clock at = Inr s"
    and run: "rename_line_body clock db line_layout (trim old) (trim new) s (t, w) = (Inr view, (t', w'))"
  shows "changed db clock (RenameLine old new at) ls (t, w) (t', w')"
proof -
  let ?bs = "string_bytes (trim new)" and ?x = "line_name_index line_layout"
  let ?r = "\<lambda>r rng. r\<lparr>line_name_len := of_nat (length ?bs), line_name_offset := of_nat (payload_offset rng), line_updated_at_s := s\<rparr>"
  from run obtain t1 w1 i r t2 w2 rng t3 w3 t4 w4 cands t5 w5 t6 w6 where
    refuse: "refuse_line db (trim new) (t, w) = (Inr (), (t1, w1))"
    and req: "require_line db (trim old) (t1, w1) = (Inr (i, r), (t2, w2))"
    and short: "length ?bs < 2 ^ 16"
    and pay: "txn_append_payload db (line_payload_file line_layout) ?bs (t2, w2) = (Inr rng, (t3, w3))"
    and mut: "mutate_line db line_layout i (?r r rng) (t3, w3) = (Inr (), (t4, w4))"
    and look: "txn_lookup_index db ?x (name_key (trim new)) (t4, w4) = (Inr cands, (t5, w5))"
    and idx: "(if i \<in> set cands then io_return ()
        else io_map_err LineDb (txn_append_index_candidate db ?x (name_key (trim new)) i)) (t5, w5) = (Inr (), (t6, w6))"
    and fin: "view_and_commit clock db i (?r r rng) (t6, w6) = (Inr view, (t', w'))"
    unfolding rename_line_body_def name_key_def
    by (auto simp: io_ok Let_def not_le split del: if_split)
  note st = write_valid_steady [OF valid]
  have start: "read_so_far db ls (t, w) (t, w)" using valid ok by (simp add: read_so_far_start)
  note a = reads_so_far [OF start refuse_line_reads refuse]
  note b = reads_so_far [OF a(1) require_line_reads req]
  have s2: "write_valid db (t2, w2)" "line_store_ok db w2 ls" "cache_only t t2" using b(1) by (auto simp: read_so_far_def)
  have fresh: "\<forall>i. \<not> live_line ls (trim new) i" using a(3) ok n(3) by simp
  have live: "live_line ls (trim old) (unat i)" "r = snd (ls ! unat i)" using b(3) ok n(1) by auto
  have "line_payload_room db w2" using room b(1) line_payload_room_same [of w2 w db] by (simp add: read_so_far_def)
  note x = rename_writes [OF s2(1,2) live(1) fresh n(2-4) short this pay mut look idx]
  have "commit_outcome t6 = None" using out cache_only_logs(4) [OF s2(3)] x(1) by (simp add: same_txn_def)
  note c = finish_change [OF st this fin]
  let ?ls = "ls[unat i := (trim new, ?r r rng)]"
  have "line_store_ok db w' ?ls" using x(2) line_store_ok_same [OF st, of w' w6] c by simp
  moreover have "live_lines ?ls = (live_lines ls)(trim old := None, trim new \<mapsto> (line_entry_of r)\<lparr>entry_updated_at := s\<rparr>)"
    using live_lines_update(2) [OF store_ok_unique [OF ok] live(1), of "trim new" "?r r rng"] fresh row_valid(2) [OF ok live(1)] live(2)
    by (simp add: line_entry_of_def head_snapshot_index_def)
  moreover have "line_step clock (head_resolves db w) (head_shown db w) (RenameLine old new at) (live_lines ls)
      ((live_lines ls)(trim old := None, trim new \<mapsto> (line_entry_of r)\<lparr>entry_updated_at := s\<rparr>))"
    by (rule line_step.rename [OF at])
      (use live_entry [OF ok live(1)] live(2) live_lines_None [OF store_ok_unique [OF ok]] fresh in simp_all)
  ultimately show ?thesis unfolding changed_def using c by (auto intro!: exI [of _ ?ls])
qed

section \<open>Whole changes\<close>

lemma heads_same:
  assumes "steady db" and "files w' = files w"
  shows "head_resolves db w' = head_resolves db w" "head_shown db w' = head_shown db w"
  using head_names_same [OF assms]
  by (auto simp: head_resolves_def head_shown_def resolved_head_def fun_eq_iff split: option.split)

lemma in_write_txn_run:
  assumes "in_write_txn db se body w = Some (r, w')"
  obtains (refused) e where "r = Inl (LineDb e)" "files w' = files w"
  | (ran) t w1 t2 w2 where "t = new_txn (txn_lock t) (session_txid se) ContentWrite StoreFsync" "files w1 = files w"
      "body (t, w1) = (r, (t2, w2))" "w' = drop_txn db t2 w2"
proof -
  from assms obtain q w1 where q: "begin_with_fsync_policy db (session_owner se) (session_metadata se) (session_txid se) ContentWrite StoreFsync w = Some (q, w1)"
    and rest: "(r, w') = (case q of Inl e \<Rightarrow> (Inl (LineDb e), w1)
       | Inr t \<Rightarrow> (case body (t, w1) of (x, (t', w2)) \<Rightarrow> (x, drop_txn db t' w2)))"
    by (auto simp: in_write_txn_def)
  note b = begin_files [OF q]
  show thesis
  proof (cases q)
    case (Inl e)
    with rest b refused show ?thesis by simp
  next
    case (Inr t)
    with b obtain l where t: "t = new_txn l (session_txid se) ContentWrite StoreFsync" by blast
    obtain x t2 w2 where x: "body (t, w1) = (x, (t2, w2))" by (metis prod.exhaust)
    from rest Inr x have "r = x" "w' = drop_txn db t2 w2" by simp_all
    with ran [of t w1 t2 w2] x b t show ?thesis by (simp add: new_txn_def)
  qed
qed

lemma new_txn_fields [simp]:
  "commit_outcome (new_txn l x sc p) = None" "index_cache (new_txn l x sc p) = empty_read_cache"
  "rollback_files (new_txn l x sc p) = []" "rollback_records (new_txn l x sc p) = []" "\<not> finished (new_txn l x sc p)"
  by (simp_all add: new_txn_def)

text \<open>A body that refines a request makes the whole change refine it.\<close>

lemma change_refines:
  assumes st: "steady db" and ok: "line_store_ok db w ls" and run: "in_write_txn db se body w = Some (Inr x, w')"
    and body: "\<And>t w1 t2 w2. \<lbrakk>write_valid db (t, w1); line_store_ok db w1 ls; commit_outcome t = None; files w1 = files w;
        body (t, w1) = (Inr x, (t2, w2))\<rbrakk> \<Longrightarrow> changed db clock q ls (t, w1) (t2, w2)"
  shows "\<exists>ls'. line_store_ok db w' ls' \<and> line_step clock (head_resolves db w) (head_shown db w) q (live_lines ls) (live_lines ls')"
  using run
proof (cases rule: in_write_txn_run)
  case (ran t w1 t2 w2)
  have t: "commit_outcome t = None" "index_cache t = empty_read_cache" "rollback_files t = []" "rollback_records t = []"
    using ran(1) new_txn_fields by metis+
  have "write_valid db (t, w1)" using st t(2) by (simp add: write_valid_def index_coherent_empty)
  moreover have "line_store_ok db w1 ls" using ok line_store_ok_same [OF st ran(2)] by simp
  ultimately have ch: "changed db clock q ls (t, w1) (t2, w2)" by (rule body) (use t ran in simp_all)
  have "files w' = files w2"
  proof (cases "finished t2")
    case True
    then show ?thesis using ran(4) drop_finished by simp
  next
    case False
    with ch have "cache_only t t2" by (simp add: changed_def)
    with t ran(4) drop_unwritten cache_only_logs [of t t2] show ?thesis by simp
  qed
  with ch line_store_ok_same [OF st this] heads_same [OF st ran(2)] show ?thesis by (simp add: changed_def)
qed simp_all

end
