(* ===== verification/Line_Live.thy ===== *)
theory Line_Live
  imports Line_Readers
begin

text \<open>
  Reading the line store when no operation of the file system fails: the lookups of a transaction answer,
  and a line is found or known to be missing.
\<close>

section \<open>The cached index answers\<close>

lemma fixed_map_total:
  "length rest mod (ks + 4) = 0 \<Longrightarrow> \<exists>m'. fixed_index_map ks False rest m = Inr m'"
proof (induction ks False rest m rule: fixed_index_map.induct)
  case (1 ks rest m)
  show ?case
  proof (cases "rest = []")
    case True
    then show ?thesis by (simp add: fixed_index_map.simps)
  next
    case False
    then have len: "ks + 4 \<le> length rest" using 1(2) by (metis gr_zeroI length_0_conv less_numeral_extra(3) mod_less not_le)
    then have "length (take 4 (drop ks rest)) = 4" by simp
    then obtain x where x: "read_u32_le (take 4 (drop ks rest)) = Inr x" by (simp add: read_u32_le_def)
    have "length (drop (ks + 4) rest) mod (ks + 4) = 0" using len 1(2) by (simp add: mod_if)
    with 1(1) [OF False] x False show ?thesis by (simp add: fixed_index_map.simps [of ks False rest] decode_stored_index_def)
  qed
qed

lemma line_index_map_total:
  assumes "lookup_value db (line_name_index line_layout) key w = Inr xs"
  shows "\<exists>b m. index_file_value db (line_name_index line_layout) w = Inr b \<and>
    index_candidate_map_from_file_bytes (line_name_index line_layout) b = Inr m"
proof -
  let ?x = "line_name_index line_layout"
  from assms obtain b where b: "index_file_value db ?x w = Inr b" "index_candidates_from_file_bytes ?x key b = Inr xs"
    by (auto simp: lookup_value_file res_bind_Inr)
  have "\<exists>m. index_candidate_map_from_file_bytes ?x b = Inr m"
  proof (cases b)
    case (Some d)
    with b show ?thesis using index_file_value_length [of db ?x w d] fixed_map_total [of "drop 4 d" 8 Map.empty]
      by (auto simp: index_candidate_map_from_file_bytes_def index_candidates_from_file_bytes_def line_name_index_def
          fixed_index_def BIN_FILE_HEADER_BYTES_def Let_def split: if_splits)
  qed (simp add: index_candidate_map_from_file_bytes_def)
  with b(1) show ?thesis by blast
qed

lemma cache_index_file_live:
  assumes "steady db" and "cache_coherent db c w" and "calm w" and "index_file_value db idx w = Inr b"
  shows "\<exists>c' w'. cache_index_file db idx (c, w) = (Inr (), (c', w')) \<and> index_files c' idx = Some b \<and> calm w'"
proof (cases "index_files c idx")
  case None
  obtain w' where "read_index_file_bytes db idx w = (Inr b, w')" "calm w'"
    using reads_calm [OF index_file_reads [OF assms(1)] assms(3), of idx] assms(4) by metis
  with None show ?thesis by (simp add: cache_index_file_def io_bind_apply io_over_apply)
next
  case (Some d)
  with assms show ?thesis by (auto simp: cache_index_file_def cache_coherent_def)
qed

lemma cached_lookup_live:
  assumes "steady db" and "cache_coherent db c w" and "calm w" and "key_fits idx key"
    and b: "index_file_value db idx w = Inr b" "index_candidate_map_from_file_bytes idx b = Inr m"
    and xs: "lookup_value db idx key w = Inr xs"
  shows "\<exists>s'. lookup_index_in_read_txn db idx key (c, w) = (Inr xs, s') \<and> calm (snd s')"
proof -
  obtain p where p: "path_value db (index_relative_path idx) w = Inr p" using b(1) by (auto simp: index_file_value_def res_bind_Inr)
  have fits: "\<not> (case fixed_key_size idx of Some ks \<Rightarrow> length key \<noteq> unat ks | None \<Rightarrow> False)"
    using assms(4) by (auto simp: key_fits_def split: option.splits)
  have cands: "candidates_of m key = xs"
    using map_lookup_agree [OF b(2) assms(4)] index_file_value_length [of db idx w] b(1) xs by (auto simp: lookup_value_file)
  have "\<exists>c' w'. cache_parsed_index db idx (c, w) = (Inr (), (c', w')) \<and> parsed_index_candidates c' idx = Some m \<and> calm w'"
  proof (cases "parsed_index_candidates c idx")
    case None
    obtain c' w' where "cache_index_file db idx (c, w) = (Inr (), (c', w'))" "index_files c' idx = Some b" "calm w'"
      using cache_index_file_live [OF assms(1-3) b(1)] by blast
    with None b(2) show ?thesis by (simp add: cache_parsed_index_def io_bind_apply)
  next
    case (Some n)
    with assms(2) b have "n = m" unfolding cache_coherent_def by fastforce
    with Some assms(3) show ?thesis by (simp add: cache_parsed_index_def)
  qed
  then obtain c' w' where "cache_parsed_index db idx (c, w) = (Inr (), (c', w'))" "parsed_index_candidates c' idx = Some m" "calm w'"
    by blast
  with p fits cands show ?thesis
    by (simp add: lookup_index_in_read_txn_def file_path_for_index_def io_bind_apply io_over_apply file_path_for_run del: if_split)
qed

section \<open>Readers that answer\<close>

definition succeeds :: "('s \<Rightarrow> io_world) \<Rightarrow> ('s, 'e, 'a) io \<Rightarrow> 's \<Rightarrow> bool" where
  "succeeds world m s \<longleftrightarrow> (\<exists>x s'. m s = (Inr x, s') \<and> calm (world s'))"

lemma succeeds_bind:
  assumes "reads_only world valid kept m P" and "valid s" and "succeeds world m s"
    and "\<And>x s'. \<lbrakk>P (world s) x; valid s'; calm (world s'); files (world s') = files (world s)\<rbrakk> \<Longrightarrow> succeeds world (f x) s'"
  shows "succeeds world (io_bind m f) s"
proof -
  obtain x s' where x: "m s = (Inr x, s')" "calm (world s')" using assms(3) by (auto simp: succeeds_def)
  note run = reads_only_run [OF assms(1,2) x(1)]
  have same: "files (world s') = files (world s)" using run(3) by (simp add: quiet_def)
  have "succeeds world (f x) s'" using assms(4) reads_only_ok [OF assms(1,2) x(1) refl] run(1) x(2) same by blast
  with x(1) show ?thesis by (simp add: succeeds_def io_bind_apply)
qed

lemma succeeds_lift: "calm (world s) \<Longrightarrow> r = Inr x \<Longrightarrow> succeeds world (io_lift r) s"
  by (simp add: succeeds_def)

lemma succeeds_return: "calm (world s) \<Longrightarrow> succeeds world (io_return x) s"
  by (simp add: succeeds_def)

lemma succeeds_map_err: "succeeds world m s \<Longrightarrow> succeeds world (io_map_err g m) s"
  by (auto simp: succeeds_def io_map_err_ok)

lemma map_err_lift: "io_map_err g (io_lift (Inr x)) = io_lift (Inr x)"
  by (rule ext) (simp add: io_map_err_def)

text \<open>The head of a line is a snapshot of the table, and the times of a line can be printed.\<close>

definition readable_head :: "LocalBinaryDbFs \<Rightarrow> io_world \<Rightarrow> u32 \<Rightarrow> bool" where
  "readable_head db w i \<longleftrightarrow> (\<exists>rs r. stored_records db (snapshot_record_file 1) w = Some rs \<and> unat i < length rs \<and>
     decode_snapshot_record 1 (rs ! unat i) = Inr r \<and> \<not> snapshot_is_tombstone r)"

definition printable_line :: "line_clock \<Rightarrow> BinaryLineRecord \<Rightarrow> bool" where
  "printable_line clock r \<longleftrightarrow> is_ok (format_epoch_seconds clock (line_archived_at_s r)) \<and>
     is_ok (format_epoch_seconds clock (line_created_at_s r)) \<and> is_ok (format_epoch_seconds clock (line_updated_at_s r))"

locale answering_reader = line_reader +
  assumes record_answers: "\<lbrakk>valid s; calm (world s); stored_records db f (world s) = Some rs; unat i < length rs\<rbrakk> \<Longrightarrow>
      succeeds world (access_read_record acc f i) s"
    and payload_answers: "\<lbrakk>valid s; calm (world s); payload_value db g off len (world s) = Inr x\<rbrakk> \<Longrightarrow>
      succeeds world (access_read_payload acc g off len) s"
    and index_answers: "\<lbrakk>valid s; calm (world s); lookup_value db (line_name_index line_layout) key (world s) = Inr xs;
      key_fits (line_name_index line_layout) key\<rbrakk> \<Longrightarrow>
      succeeds world (access_lookup_index acc (line_name_index line_layout) key) s"
    and keeps_table: "valid s \<Longrightarrow> files w = files (world s) \<Longrightarrow> line_table db w = line_table db (world s)"
begin

lemma name_answers:
  assumes "valid s" and "calm (world s)" and "name_value db r (world s) = Inr n"
  shows "succeeds world (read_line_name_for_layout acc r line_layout) s"
proof -
  from assms(3) obtain bs where bs: "payload_value db (line_payload_file line_layout) (unat (line_name_offset r)) (ucast (line_name_len r)) (world s) = Inr bs"
    "utf8_text bs = Inr n" by (auto simp: name_value_def res_bind_Inr)
  show ?thesis
    unfolding read_line_name_for_layout_def line_files_of_layout io_bind_lift_Inr
    by (rule succeeds_bind [where world = world, OF payload_law assms(1) payload_answers [OF assms(1,2) bs(1)]])
      (use bs in \<open>auto intro: succeeds_lift\<close>)
qed

lemma scan_answers:
  "\<lbrakk>valid s; calm (world s); line_table db (world s) = Some ls; \<forall>i \<in> set cands. unat i < length ls\<rbrakk> \<Longrightarrow>
     succeeds world (scan_lines acc name line_layout cands) s"
proof (induction cands arbitrary: s)
  case Nil
  then show ?case by (simp add: succeeds_def)
next
  case (Cons i cands)
  have i: "unat i < length ls" using Cons.prems(4) by simp
  from Cons.prems(3) obtain rs where rs: "stored_records db (line_record_file line_layout) (world s) = Some rs"
    "rows_of (decode_line_record line_layout) rs = Some (map snd ls)" "\<forall>(n, r) \<in> set ls. name_value db r (world s) = Inr n"
    by (auto simp: line_table_iff)
  have len: "length rs = length ls" using rows_of_length [OF rs(2)] by simp
  have row: "decode_line_record_for_layout line_layout (rs ! unat i) = Inr (snd (ls ! unat i))"
    using rows_of_nth [OF rs(2), of "unat i"] i by (simp add: decode_line_record_for_layout_def)
  have rest: "succeeds world (scan_lines acc name line_layout cands) u"
    if "valid u" "calm (world u)" "files (world u) = files (world s)" for u
    using Cons.IH [OF that(1,2)] Cons.prems keeps_table [OF Cons.prems(1) that(3)] by simp
  have named: "name_value db (snd (ls ! unat i)) (world u) = Inr (fst (ls ! unat i))" if "files (world u) = files (world s)" for u
  proof -
    have "line_table db (world u) = Some ls" using keeps_table [OF Cons.prems(1) that] Cons.prems(3) by simp
    moreover have "ls ! unat i \<in> set ls" using i by simp
    ultimately show ?thesis by (fastforce simp: line_table_iff)
  qed
  show ?case
    unfolding scan_lines.simps line_files_of_layout io_bind_lift_Inr
  proof (rule succeeds_bind [where world = world, OF record_law Cons.prems(1) record_answers [OF Cons.prems(1,2) rs(1)]])
    show "unat i < length rs" using i len by simp
  next
    fix raw u
    assume raw: "row_value db (line_record_file line_layout) i (world s) = Inr raw"
      and u: "valid u" "calm (world u)" "files (world u) = files (world s)"
    have "decode_line_record_for_layout line_layout raw = Inr (snd (ls ! unat i))" using row_value_nth [OF raw] rs(1) row by simp
    moreover have "succeeds world (if line_is_tombstone (snd (ls ! unat i)) then scan_lines acc name line_layout cands
        else io_bind (read_line_name_for_layout acc (snd (ls ! unat i)) line_layout) (\<lambda>stored_name.
          if stored_name = name then io_return (Some (i, snd (ls ! unat i))) else scan_lines acc name line_layout cands)) u"
    proof (cases "line_is_tombstone (snd (ls ! unat i))")
      case False
      have "succeeds world (io_bind (read_line_name_for_layout acc (snd (ls ! unat i)) line_layout) (\<lambda>stored_name.
          if stored_name = name then io_return (Some (i, snd (ls ! unat i))) else scan_lines acc name line_layout cands)) u"
        by (rule succeeds_bind [where world = world, OF name_reads u(1) name_answers [OF u(1,2) named [OF u(3)]]])
          (use u rest in \<open>auto intro: succeeds_return\<close>)
      with False show ?thesis by simp
    qed (use u rest in simp)
    ultimately show "succeeds world (io_bind (io_lift (decode_line_record_for_layout line_layout raw)) (\<lambda>r.
        if line_is_tombstone r then scan_lines acc name line_layout cands
        else io_bind (read_line_name_for_layout acc r line_layout) (\<lambda>stored_name.
          if stored_name = name then io_return (Some (i, r)) else scan_lines acc name line_layout cands))) u"
      by (simp add: io_bind_lift_Inr)
  qed
qed

lemma find_answers:
  assumes "valid s" and "calm (world s)" and ok: "line_store_ok db (world s) ls" and known: "line_name_index line_layout \<in> indexes"
  shows "succeeds world (find_line acc name) s"
proof (cases "trim name = []")
  case True
  then show ?thesis using assms(2) by (simp add: find_line_def find_line_for_layout_def succeeds_def)
next
  case False
  from ok obtain xs where xs: "line_lookup db (trim name) (world s) = Inr xs" "listed ls (trim name) xs"
    unfolding line_store_ok_def by metis
  have table: "line_table db (world s) = Some ls" using ok by (simp add: line_store_ok_def)
  have look: "lookup_value db (line_name_index line_layout) (to_le_bytes64 (line_name_hash64 (string_bytes (trim name)))) (world s) = Inr xs"
    using xs(1) by (simp add: line_lookup_def name_key_def)
  have fits: "key_fits (line_name_index line_layout) (to_le_bytes64 (line_name_hash64 (string_bytes (trim name))))"
    by (simp add: key_fits_def line_name_index_def fixed_index_def)
  show ?thesis
    unfolding find_line_def find_line_for_layout_def Let_def if_not_P [OF False] line_files_of_layout io_bind_lift_Inr
  proof (rule succeeds_bind [where world = world, OF index_law [OF known] assms(1) index_answers [OF assms(1,2) look fits]])
    fix cands u
    assume "lookup_value db (line_name_index line_layout) (to_le_bytes64 (line_name_hash64 (string_bytes (trim name)))) (world s) = Inr cands"
      and u: "valid u" "calm (world u)" "files (world u) = files (world s)"
    with look xs(2) keeps_table [OF assms(1) u(3)] table
    show "succeeds world (scan_lines acc (trim name) line_layout cands) u"
      by (intro scan_answers [of _ ls]) (simp_all add: listed_def)
  qed
qed

lemma snapshot_id_answers:
  assumes "valid s" and "calm (world s)" and "readable_head db (world s) i"
  shows "succeeds world (snapshot_id_at acc i) s"
proof -
  from assms(3) obtain rs r where rs: "stored_records db (snapshot_record_file 1) (world s) = Some rs" "unat i < length rs"
    "decode_snapshot_record 1 (rs ! unat i) = Inr r" "\<not> snapshot_is_tombstone r"
    by (auto simp: readable_head_def)
  show ?thesis
    unfolding snapshot_id_at_def
    by (rule succeeds_bind [where world = world, OF reads_only_map_err [OF record_law] assms(1)
          succeeds_map_err [OF record_answers [OF assms(1,2) rs(1,2)]]])
      (use rs in \<open>auto simp: map_err_lift io_bind_lift_Inr succeeds_def dest!: row_value_nth\<close>)
qed

lemma view_answers:
  assumes "valid s" and "calm (world s)" and "name_value db r (world s) = Inr n" and "printable_line clock r"
    and "\<And>i w. head_snapshot_index r = Some i \<Longrightarrow> files w = files (world s) \<Longrightarrow> readable_head db w i"
  shows "succeeds world (line_record_view clock acc i r) s"
proof -
  from assms(4) obtain a c u where times: "format_epoch_seconds clock (line_archived_at_s r) = Inr a"
    "format_epoch_seconds clock (line_created_at_s r) = Inr c" "format_epoch_seconds clock (line_updated_at_s r) = Inr u"
    by (auto simp: printable_line_def is_ok_iff)
  have head: "succeeds world (head_snapshot_id_of acc r) u" if "valid u" "calm (world u)" "files (world u) = files (world s)" for u
  proof (cases "head_snapshot_index r")
    case None
    with that show ?thesis by (simp add: head_snapshot_id_of_def succeeds_def)
  next
    case (Some i)
    show ?thesis
      unfolding head_snapshot_id_of_def Some option.case
      by (rule succeeds_bind [where world = world, OF snapshot_id_reads that(1) snapshot_id_answers [OF that(1,2) assms(5) [OF Some that(3)]]])
        (simp add: succeeds_def)
  qed
  show ?thesis
    unfolding line_record_view_def line_record_view_for_layout_def times io_bind_lift_Inr
  proof (rule succeeds_bind [where world = world, OF reads_only_map_err [OF name_reads] assms(1)
        succeeds_map_err [OF name_answers [OF assms(1-3)]]])
    fix n u
    assume u: "valid u" "calm (world u)" "files (world u) = files (world s)"
    show "succeeds world (io_bind (head_snapshot_id_of acc r) (\<lambda>head. io_return
        \<lparr>view_line_id = line_identity_from_index i, view_line_name = n, view_status = line_status r,
         view_archived_at = a, view_created_at = c, view_updated_at = u', view_head_snapshot_id = head\<rparr>)) u" for u'
      by (rule succeeds_bind [where world = world, OF head_reads u(1) head [OF u]]) (simp add: succeeds_def)
  qed
qed

end

lemma over_succeeds:
  assumes "reads m v" and "calm w" and "v w = Inr x"
  shows "succeeds snd (io_over m) (t, w)"
  using reads_calm [OF assms(1,2)] assms(3) by (metis (no_types, lifting) io_over_apply case_prod_conv snd_conv succeeds_def)

interpretation answering_write: answering_reader snd "write_valid db" same_write_txn db "write_access db" line_indexes
proof (unfold_locales, goal_cases)
  case (1 s f rs i)
  obtain t w where s: "s = (t, w)" by fastforce
  have st: "steady db" using 1(1) by (simp add: write_valid_def)
  have "read_value db f i w = Inr (rs ! unat i)" using read_value_stored [of db f w rs i] 1 s by simp
  from over_succeeds [OF read_record_reads [OF st] _ this] 1(2) s show ?case by (simp add: write_access_def)
next
  case (2 s g off len x)
  obtain t w where s: "s = (t, w)" by fastforce
  have st: "steady db" using 2(1) by (simp add: write_valid_def)
  from over_succeeds [OF read_payload_reads [OF st]] 2 s show ?case by (simp add: write_access_def)
next
  case (3 s key xs)
  obtain t w where s: "s = (t, w)" by fastforce
  have v: "steady db" "cache_coherent db (index_cache t) w" using 3(1) s by (simp_all add: write_valid_def index_coherent_def)
  from line_index_map_total [of db key w xs] 3 s obtain b m where "index_file_value db (line_name_index line_layout) w = Inr b"
    "index_candidate_map_from_file_bytes (line_name_index line_layout) b = Inr m" by auto
  from cached_lookup_live [OF v _ 3(4) this, of xs] 3 s show ?case
    by (auto simp: write_access_def txn_lookup_index_def succeeds_def)
next
  case (4 s w)
  then show ?case using line_table_same [of db w "snd s"] by (simp add: write_valid_def)
qed

lemma guarded_succeeds:
  assumes "read_lock t = Inr l"
  shows "succeeds snd m (t, w) \<Longrightarrow> succeeds snd (io_bind read_guard (\<lambda>_. m)) (t, w)"
  using assms by (simp add: succeeds_def read_guard_def io_bind_apply)

interpretation answering_read: answering_reader snd "read_valid db" same_read_txn db "read_access db" UNIV
proof (unfold_locales, goal_cases)
  case (1 s f rs i)
  obtain t w where s: "s = (t, w)" by fastforce
  obtain l where l: "read_lock t = Inr l" using 1(1) s by (auto simp: read_valid_def is_ok_iff)
  have v: "steady db" "cache_coherent db (read_cache t) w" using 1(1) s by (simp_all add: read_valid_def)
  have "read_value db f i w = Inr (rs ! unat i)" using read_value_stored [of db f w rs i] 1 s by simp
  with cached_read_value [OF v _ stored_records_count, of f rs i] 1 s
  have "succeeds snd (on_cache (read_record_in_read_txn db f i)) (t, w)" by (auto simp: succeeds_def on_cache_def)
  from guarded_succeeds [OF l this] s show ?case by (simp add: read_access_def read_txn_read_record_def)
next
  case (2 s g off len x)
  obtain t w where s: "s = (t, w)" by fastforce
  obtain l where l: "read_lock t = Inr l" using 2(1) s by (auto simp: read_valid_def is_ok_iff)
  have st: "steady db" using 2(1) by (simp add: read_valid_def)
  have "succeeds snd (io_over (read_payload db g off len)) (t, w)"
    using over_succeeds [OF read_payload_reads [OF st]] 2 s by simp
  from guarded_succeeds [OF l this] s show ?case by (simp add: read_access_def read_txn_read_payload_def)
next
  case (3 s key xs)
  obtain t w where s: "s = (t, w)" by fastforce
  obtain l where l: "read_lock t = Inr l" using 3(1) s by (auto simp: read_valid_def is_ok_iff)
  have v: "steady db" "cache_coherent db (read_cache t) w" using 3(1) s by (simp_all add: read_valid_def)
  from line_index_map_total [of db key w xs] 3 s obtain b m where "index_file_value db (line_name_index line_layout) w = Inr b"
    "index_candidate_map_from_file_bytes (line_name_index line_layout) b = Inr m" by auto
  from cached_lookup_live [OF v _ 3(4) this, of xs] 3 s
  have "succeeds snd (on_cache (lookup_index_in_read_txn db (line_name_index line_layout) key)) (t, w)"
    by (auto simp: succeeds_def on_cache_def)
  from guarded_succeeds [OF l this] s show ?case by (simp add: read_access_def read_txn_lookup_index_def)
next
  case (4 s w)
  then show ?case using line_table_same [of db w "snd s"] by (simp add: read_valid_def)
qed

end
