(* ===== verification/Line_Queries.thy ===== *)
theory Line_Queries
  imports Line_Live
begin

text \<open>
  Listing the lines through a read transaction: the persisted layout is read first, then every row; deleted
  lines are left out.  What a listing shows, and when it answers.
\<close>

section \<open>What a listing shows\<close>

lemma store_io_not_missing: "store_io m w = (Inl e, w') \<Longrightarrow> e \<noteq> MissingData"
  by (auto simp: store_io_err elim: file_io_error_to_binary.elims)

lemma read_layout_not_missing: "read_layout_id p w = (Inl e, w') \<Longrightarrow> e \<noteq> MissingData"
  by (auto simp: read_layout_id_def io_bind_err read_u32_le_def dest: store_io_not_missing split: if_splits)

lemma layout_missing:
  assumes "layout_id db f w = (Inl MissingData, w')" and "stored_records db f w = Some rs"
  shows "rs = []"
proof -
  note p = stored_records_path [OF assms(2)]
  obtain q v where q: "db_metadata_len (record_path db f) w = (q, v)" by fastforce
  have "q = Inr None"
    using assms(1) p q store_io_not_missing [of "metadata_len (record_path db f)" w] read_layout_not_missing
    by (cases q) (auto simp: layout_id_def file_path_for_binary_record_def file_path_for_run io_bind_apply db_metadata_len_def
        split: option.splits if_splits)
  then have "files w (record_path db f) = None" using readsD_ok [OF db_metadata_len_reads] q by fastforce
  from stored_records_missing [OF p this] assms(2) show ?thesis by simp
qed

lemma layout_id_reads:
  assumes "steady db"
  shows "reads (layout_id db f) (\<lambda>w. res_bind (path_value db (file_relative_path f) w) (\<lambda>p.
      case files w p of None \<Rightarrow> Inl MissingData
      | Some b \<Rightarrow> if length b < 4 then Inl Corruption else Inr (from_le_bytes (take 4 b))))"
  unfolding layout_id_def file_path_for_binary_record_def BIN_FILE_HEADER_BYTES_def
  by (rule reads_weaken, rule reads_bind, rule file_path_reads [OF assms(1)], rule reads_bind, rule db_metadata_len_reads,
      rule reads_case_option, rule reads_if, rule reads_fail, rule read_layout_id_reads, rule reads_fail)
    (auto split: option.splits intro!: arg_cong [where f = "res_bind _"])

lemma layout_in_txn:
  assumes v: "read_valid db (t, w)" and run: "read_txn_layout_id db f (t, w) = (r, (t', w'))"
  shows "read_valid db (t', w') \<and> read_lock t' = read_lock t \<and> quiet w w' \<and>
    (r = Inl MissingData \<longrightarrow> stored_records db f w \<noteq> None \<longrightarrow> stored_records db f w = Some [])"
proof -
  obtain l where l: "read_lock t = Inr l" using v by (auto simp: read_valid_def is_ok_iff)
  obtain q v' where q: "layout_id db f w = (q, v')" by fastforce
  have st: "steady db" "cache_coherent db (read_cache t) w" using v by (simp_all add: read_valid_def)
  note qt = readsD_quiet [OF layout_id_reads [OF st(1)] q]
  have coh: "cache_coherent db (read_cache t\<lparr>layout_ids := x\<rparr>) v'" "cache_coherent db (read_cache t) v'" for x
    using st coherent_quiet [OF st(1) qt] by (simp_all add: cache_coherent_def)
  show ?thesis
    using run l q qt st coh v layout_missing [of db f w v']
    by (cases q; cases "layout_ids (read_cache t) f")
      (auto simp: read_txn_layout_id_def read_guard_def on_cache_def io_bind_apply io_over_apply read_valid_def)
qed

lemma persisted_layout_reads:
  "reads_only snd (read_valid db) same_read_txn (persisted_line_layout db)
     (\<lambda>w p. case p of None \<Rightarrow> \<forall>ls. line_table db w = Some ls \<longrightarrow> ls = [] | Some l \<Rightarrow> l = line_layout)"
proof (cases "steady db")
  case False
  then show ?thesis by (auto simp: reads_only_def read_valid_def)
next
  case True
  show ?thesis
  proof (rule reads_onlyI)
    fix s r s'
    assume v: "read_valid db s" and run: "persisted_line_layout db s = (r, s')"
    obtain t w q t' w' where s: "s = (t, w)" and q: "read_txn_layout_id db (line_record_file line_layout) (t, w) = (q, (t', w'))"
      by (metis prod.exhaust)
    note l = layout_in_txn [OF v [unfolded s] q]
    have e: "s' = (t', w')" using run s q by (auto simp: persisted_line_layout_def split: sum.splits BinaryDbErrorKind.splits)
    have "ls = []" if "r = Inr None" "line_table db w = Some ls" for ls
    proof -
      have "q = Inl MissingData" using run s q that(1)
        by (auto simp: persisted_line_layout_def res_bind_Inr split: sum.splits BinaryDbErrorKind.splits)
      with l that(2) show ?thesis by (auto simp: line_table_iff dest: rows_of_length)
    qed
    moreover have "l = line_layout" if "r = Inr (Some l)" for l
      using run s q that by (auto simp: persisted_line_layout_def res_bind_Inr require_supported_persisted_line_layout_def
          split: sum.splits BinaryDbErrorKind.splits if_splits)
    ultimately show "read_valid db s' \<and> same_read_txn s s' \<and> quiet (snd s) (snd s') \<and>
        (\<forall>p. r = Inr p \<longrightarrow> (case p of None \<Rightarrow> \<forall>ls. line_table db (snd s) = Some ls \<longrightarrow> ls = [] | Some l \<Rightarrow> l = line_layout))"
      using l e s by (auto simp: same_read_txn_def split: option.splits)
  next
    fix v w :: io_world and p :: "u32 option"
    assume "files w = files v" "case p of None \<Rightarrow> \<forall>ls. line_table db v = Some ls \<longrightarrow> ls = [] | Some l \<Rightarrow> l = line_layout"
    with line_table_same [OF True, of w v]
    show "case p of None \<Rightarrow> \<forall>ls. line_table db w = Some ls \<longrightarrow> ls = [] | Some l \<Rightarrow> l = line_layout" by (cases p) simp_all
  qed
qed

lemma record_in_read_txn:
  "reads_only snd (read_valid db) same_read_txn (read_txn_read_record db f i)
     (\<lambda>w x. row_value db f i w = Inr x)"
  using read_reader.record_law [of db f i] by (simp add: read_access_def)

lemma count_in_read_txn:
  "reads_only snd (read_valid db) same_read_txn (read_txn_record_count db f)
     (\<lambda>w n. \<forall>rs. stored_records db f w = Some rs \<longrightarrow> unat n = length rs)"
  unfolding read_txn_record_count_def
proof (rule guarded_reads [OF record_count_reads])
  fix w w' :: io_world and n :: u32
  assume "steady db" "files w' = files w" "count_value db f w = Inr n"
  with stored_records_same [OF this(1,2), of f] stored_records_length [of db f w]
  show "\<forall>rs. stored_records db f w' = Some rs \<longrightarrow> unat n = length rs" by (auto simp: unat_of_nat)
qed

lemma line_table_count:
  assumes "\<forall>rs. stored_records db (line_record_file line_layout) w = Some rs \<longrightarrow> unat (n :: u32) = length rs"
    and "line_table db w = Some ls"
  shows "unat n = length ls"
  using assms(2) by (rule line_table_rows) (use assms(1) in simp)

definition live_rows :: "(string \<times> BinaryLineRecord) list \<Rightarrow> nat list" where
  "live_rows ls = filter (\<lambda>i. \<not> line_is_tombstone (snd (ls ! i))) [0..<length ls]"

lemma list_rows_reads:
  "\<forall>i \<in> set is. i < 2 ^ 32 \<Longrightarrow>
   reads_only snd (read_valid db) same_read_txn (list_line_rows clock db (line_record_file line_layout) line_layout is)
     (\<lambda>w views. \<forall>ls. line_table db w = Some ls \<longrightarrow>
        list_all2 (\<lambda>i v. shows_line clock db w (of_nat i) (snd (ls ! i)) v)
          (filter (\<lambda>i. \<not> line_is_tombstone (snd (ls ! i))) is) views)"
proof (induction "is")
  case Nil
  show ?case
    unfolding list_line_rows.simps by (rule reads_only_weaken [OF read_reader.return_reads]) simp
next
  case (Cons i "is")
  then have i: "unat (of_nat i :: u32) = i" by (simp add: unat_of_nat)
  have IH: "reads_only snd (read_valid db) same_read_txn (list_line_rows clock db (line_record_file line_layout) line_layout is)
     (\<lambda>w views. \<forall>ls. line_table db w = Some ls \<longrightarrow>
        list_all2 (\<lambda>i v. shows_line clock db w (of_nat i) (snd (ls ! i)) v)
          (filter (\<lambda>i. \<not> line_is_tombstone (snd (ls ! i))) is) views)" using Cons by simp
  show ?case
    unfolding list_line_rows.simps line_record_view_def [symmetric]
  proof (rule reads_only_weaken [OF read_reader.bind_reads [OF reads_only_map_err [OF record_in_read_txn]
        read_reader.bind_reads [OF reads_only_map_err [OF read_reader.lift_reads]
        read_reader.if_reads [OF IH read_reader.bind_reads [OF read_reader.view_reads
        read_reader.bind_reads [OF IH read_reader.return_reads]]]]]], intro allI impI, elim exE conjE)
    fix w views ls raw r
    assume ls: "line_table db w = Some ls" and r: "decode_line_record_for_layout line_layout raw = Inr r"
      and raw: "row_value db (line_record_file line_layout) (of_nat i) w = Inr raw"
    have "snd (ls ! i) = r" using line_table_row [OF ls row_value_nth [OF raw]] r i by (simp add: decode_line_record_for_layout_def)
    moreover assume "if line_is_tombstone r then \<forall>ls. line_table db w = Some ls \<longrightarrow>
        list_all2 (\<lambda>i v. shows_line clock db w (of_nat i) (snd (ls ! i)) v)
          (filter (\<lambda>i. \<not> line_is_tombstone (snd (ls ! i))) is) views
      else \<exists>view. shows_line clock db w (of_nat i) r view \<and> (\<exists>rest. (\<forall>ls. line_table db w = Some ls \<longrightarrow>
        list_all2 (\<lambda>i v. shows_line clock db w (of_nat i) (snd (ls ! i)) v)
          (filter (\<lambda>i. \<not> line_is_tombstone (snd (ls ! i))) is) rest) \<and> views = view # rest)"
    ultimately show "list_all2 (\<lambda>i v. shows_line clock db w (of_nat i) (snd (ls ! i)) v)
        (filter (\<lambda>i. \<not> line_is_tombstone (snd (ls ! i))) (i # is)) views"
      using ls by (auto split: if_splits)
  qed
qed

lemma list_lines_sound:
  assumes "read_valid db (t, w)" and "line_table db w = Some ls"
    and "list_lines_with_read clock db (t, w) = (Inr views, s')"
  shows "list_all2 (\<lambda>i v. shows_line clock db w (of_nat i) (snd (ls ! i)) v) (live_rows ls) views"
proof -
  let ?post = "\<lambda>w views. \<forall>ls. line_table db w = Some ls \<longrightarrow>
    list_all2 (\<lambda>i v. shows_line clock db w (of_nat i) (snd (ls ! i)) v) (live_rows ls) views"
  have bound: "\<forall>i \<in> set [0..<unat (n :: u32)]. i < 2 ^ 32" for n
    using unsigned_less [of n, where 'a = nat] by auto
  have "reads_only snd (read_valid db) same_read_txn (list_lines_with_read clock db) ?post"
    unfolding list_lines_with_read_def
  proof (rule reads_only_weaken [OF read_reader.bind_reads_when [OF reads_only_map_err [OF persisted_layout_reads]]])
    fix persisted :: "u32 option" and w
    assume p: "case persisted of None \<Rightarrow> \<forall>ls. line_table db w = Some ls \<longrightarrow> ls = [] | Some l \<Rightarrow> l = line_layout"
    show "reads_only snd (read_valid db) same_read_txn (case persisted of None \<Rightarrow> io_return []
        | Some layout \<Rightarrow> io_bind (io_map_err LineDb (io_lift (line_record_file_for_layout layout))) (\<lambda>file.
            io_bind (io_map_err LineDb (read_txn_record_count db file)) (\<lambda>count.
              list_line_rows clock db file layout [0..<unat count])))
        (\<lambda>w views. if persisted = None then views = [] else ?post w views)"
    proof (cases persisted)
      case None
      then show ?thesis by (simp add: read_reader.return_reads)
    next
      case (Some l)
      with p have l: "persisted = Some line_layout" by simp
      show ?thesis
        unfolding l option.case line_files_of_layout map_err_lift io_bind_lift_Inr
        by (rule reads_only_weaken [OF read_reader.bind_reads [OF reads_only_map_err [OF count_in_read_txn] list_rows_reads [OF bound]]])
          (auto simp: live_rows_def dest: line_table_count)
    qed
  qed (auto split: if_splits simp: live_rows_def)
  from reads_only_ok [OF this assms(1,3)] assms(2) show ?thesis by simp
qed

section \<open>When a listing answers\<close>

definition fresh_read_txn :: "BinaryDbReadLockSet \<Rightarrow> BinaryDbReadTxn" where
  "fresh_read_txn l = \<lparr>read_lock = Inr l, read_cache = empty_read_cache\<rparr>"

lemma fresh_read_valid: "steady db \<Longrightarrow> read_valid db (fresh_read_txn l, w)"
  by (simp add: read_valid_def fresh_read_txn_def empty_cache_coherent)

lemma layout_answers:
  assumes "steady db" and "calm w" and rs: "stored_records db f w = Some rs"
  shows "\<exists>w'. layout_id db f w = ((if files w (record_path db f) = None then Inl MissingData else Inr (file_layout_id f)), w') \<and> calm w'"
proof -
  note p = stored_records_path [OF rs]
  have v: "reads (layout_id db f) (\<lambda>w. res_bind (path_value db (file_relative_path f) w) (\<lambda>p.
      case files w p of None \<Rightarrow> Inl MissingData
      | Some b \<Rightarrow> if length b < 4 then Inl Corruption else Inr (from_le_bytes (take 4 b))))" (is "reads _ ?v")
    by (rule layout_id_reads [OF assms(1)])
  have "?v w = (if files w (record_path db f) = None then Inl MissingData else Inr (file_layout_id f))"
    using stored_records_file(1) [OF rs] p by (cases "files w (record_path db f)") (auto simp: valid_value_ok)
  moreover obtain w' where "layout_id db f w = (?v w, w')" "calm w'" by (rule reads_calm [OF v assms(2)])
  ultimately show ?thesis by simp
qed

lemma persisted_answers:
  assumes "steady db" and "calm w" and "line_table db w = Some ls"
  shows "succeeds snd (persisted_line_layout db) (fresh_read_txn l, w)"
proof -
  from assms(3) obtain rs where rs: "stored_records db (line_record_file line_layout) w = Some rs" by (rule line_table_rows)
  obtain w' where "layout_id db (line_record_file line_layout) w =
      ((if files w (record_path db (line_record_file line_layout)) = None then Inl MissingData else Inr line_layout), w')" "calm w'"
    using layout_answers [OF assms(1,2) rs] by (auto simp: line_record_file_def record_file_id_def)
  then show ?thesis
    by (auto simp: succeeds_def persisted_line_layout_def read_txn_layout_id_def fresh_read_txn_def read_guard_def empty_read_cache_def
        io_bind_apply io_over_apply on_cache_def require_supported_persisted_line_layout_def split: if_splits)
qed

definition showable :: "line_clock \<Rightarrow> LocalBinaryDbFs \<Rightarrow> io_world \<Rightarrow> BinaryLineRecord \<Rightarrow> bool" where
  "showable clock db w r \<longleftrightarrow> printable_line clock r \<and> (\<forall>i. head_snapshot_index r = Some i \<longrightarrow> readable_head db w i)"

lemma showable_same: "steady db \<Longrightarrow> files w' = files w \<Longrightarrow> showable clock db w' r = showable clock db w r"
  using stored_records_same [of db w' w "snapshot_record_file 1"] by (simp add: showable_def readable_head_def)

lemma list_rows_answers:
  "\<lbrakk>read_valid db s; calm (snd s); line_table db (snd s) = Some ls; \<forall>i \<in> set is. i < length ls;
    \<forall>i \<in> set is. \<not> line_is_tombstone (snd (ls ! i)) \<longrightarrow> showable clock db (snd s) (snd (ls ! i))\<rbrakk> \<Longrightarrow>
     succeeds snd (list_line_rows clock db (line_record_file line_layout) line_layout is) s"
proof (induction "is" arbitrary: s)
  case Nil
  then show ?case by (simp add: succeeds_def)
next
  case (Cons i "is")
  let ?f = "line_record_file line_layout" and ?r = "snd (ls ! i)"
  let ?rest = "list_line_rows clock db ?f line_layout is"
  have st: "steady db" using Cons.prems(1) by (simp add: read_valid_def)
  from Cons.prems(3) obtain rs where rs: "stored_records db ?f (snd s) = Some rs"
    "rows_of (decode_line_record line_layout) rs = Some (map snd ls)" "length rs = length ls" by (rule line_table_rows)
  have i: "i < length ls" using Cons.prems(4) by simp
  then have idx: "unat (of_nat i :: u32) = i" using line_table_bound [OF Cons.prems(3)] by (simp add: unat_of_nat)
  have row: "decode_line_record_for_layout line_layout (rs ! i) = Inr ?r"
    using rows_of_nth [OF rs(2), of i] i by (simp add: decode_line_record_for_layout_def)
  have rest: "succeeds snd ?rest u" if u: "read_valid db u" "calm (snd u)" "files (snd u) = files (snd s)" for u
    using Cons.IH [OF u(1,2)] Cons.prems line_table_same [OF st u(3)] showable_same [OF st u(3)] by simp
  have view: "succeeds snd (io_bind (line_record_view_for_layout clock (read_access db) (of_nat i) ?r line_layout) (\<lambda>v.
      io_bind ?rest (\<lambda>vs. io_return (v # vs)))) u"
    if u: "read_valid db u" "calm (snd u)" "files (snd u) = files (snd s)" and live: "\<not> line_is_tombstone ?r" for u
  proof -
    have show_u: "showable clock db w ?r" if "files w = files (snd u)" for w
      using Cons.prems(5) live showable_same [OF st, of w "snd s"] that u(3) by simp
    have "line_table db (snd u) = Some ls" using line_table_same [OF st u(3)] Cons.prems(3) by simp
    then have "name_value db ?r (snd u) = Inr (fst (ls ! i))" using nth_mem [OF i] by (fastforce simp: line_table_iff)
    from answering_read.view_answers [OF u(1,2) this] show_u
    have v: "succeeds snd (line_record_view clock (read_access db) (of_nat i) ?r) u" by (simp add: showable_def)
    show ?thesis
      unfolding line_record_view_def [symmetric]
    proof (rule succeeds_bind [OF read_reader.view_reads u(1) v])
      fix v x
      assume x: "read_valid db x" "calm (snd x)" "files (snd x) = files (snd u)"
      show "succeeds snd (io_bind ?rest (\<lambda>vs. io_return (v # vs))) x"
        using rest [of x] x u(3) by (auto simp: succeeds_def io_bind_apply)
    qed
  qed
  show ?case
    unfolding list_line_rows.simps
  proof (rule succeeds_bind [OF reads_only_map_err [OF record_in_read_txn] Cons.prems(1)])
    show "succeeds snd (io_map_err LineDb (read_txn_read_record db ?f (of_nat i))) s"
      using answering_read.record_answers [OF Cons.prems(1,2) rs(1), of "of_nat i"] idx i rs(3)
      by (simp add: read_access_def succeeds_map_err)
  next
    fix raw u
    assume raw: "row_value db ?f (of_nat i) (snd s) = Inr raw"
      and u: "read_valid db u" "calm (snd u)" "files (snd u) = files (snd s)"
    have "decode_line_record_for_layout line_layout raw = Inr ?r" using row_value_nth [OF raw] rs(1) row idx by simp
    then show "succeeds snd (io_bind (io_map_err LineDb (io_lift (decode_line_record_for_layout line_layout raw))) (\<lambda>r.
        if line_is_tombstone r then ?rest
        else io_bind (line_record_view_for_layout clock (read_access db) (of_nat i) r line_layout) (\<lambda>v.
          io_bind ?rest (\<lambda>vs. io_return (v # vs))))) u"
      using rest [OF u] view [OF u] by (simp add: map_err_lift io_bind_lift_Inr)
  qed
qed

lemma list_lines_answer:
  assumes st: "steady db" and "calm w" and table: "line_table db w = Some ls"
    and "\<forall>(n, r) \<in> set ls. \<not> line_is_tombstone r \<longrightarrow> showable clock db w r"
  shows "succeeds snd (list_lines_with_read clock db) (fresh_read_txn l, w)"
  unfolding list_lines_with_read_def
proof (rule succeeds_bind [OF reads_only_map_err [OF persisted_layout_reads] fresh_read_valid [OF st]
      succeeds_map_err [OF persisted_answers [OF st assms(2) table]]])
  fix persisted :: "u32 option" and u
  assume p: "case persisted of None \<Rightarrow> \<forall>ls. line_table db (snd (fresh_read_txn l, w)) = Some ls \<longrightarrow> ls = [] | Some l \<Rightarrow> l = line_layout"
    and u: "read_valid db u" "calm (snd u)" "files (snd u) = files (snd (fresh_read_txn l, w))"
  show "succeeds snd (case persisted of None \<Rightarrow> io_return []
      | Some layout \<Rightarrow> io_bind (io_map_err LineDb (io_lift (line_record_file_for_layout layout))) (\<lambda>file.
          io_bind (io_map_err LineDb (read_txn_record_count db file)) (\<lambda>count.
            list_line_rows clock db file layout [0..<unat count]))) u"
  proof (cases persisted)
    case None
    with u show ?thesis by (simp add: succeeds_def)
  next
    case (Some k)
    with p have k: "persisted = Some line_layout" by simp
    have tu: "line_table db (snd u) = Some ls" using line_table_same [OF st, of "snd u" w] u(3) table by simp
    then obtain rs where rs: "stored_records db (line_record_file line_layout) (snd u) = Some rs" by (rule line_table_rows)
    show ?thesis
      unfolding k option.case line_files_of_layout map_err_lift io_bind_lift_Inr
    proof (rule succeeds_bind [OF reads_only_map_err [OF count_in_read_txn] u(1)])
      obtain t x where s: "u = (t, x)" by fastforce
      obtain k where k: "read_lock t = Inr k" using u(1) s by (auto simp: read_valid_def is_ok_iff)
      have "succeeds snd (io_over (record_count db (line_record_file line_layout))) u"
        using over_succeeds [OF record_count_reads [OF st]] stored_records_count [OF rs] u(2) s by simp
      from guarded_succeeds [OF k this [unfolded s]] s
      show "succeeds snd (io_map_err LineDb (read_txn_record_count db (line_record_file line_layout))) u"
        by (simp add: read_txn_record_count_def succeeds_map_err)
    next
      fix n v
      assume n: "\<forall>rs. stored_records db (line_record_file line_layout) (snd u) = Some rs \<longrightarrow> unat (n :: u32) = length rs"
        and v: "read_valid db v" "calm (snd v)" "files (snd v) = files (snd u)"
      have len: "unat n = length ls" by (rule line_table_count [OF n tu])
      have same: "files (snd v) = files w" using v(3) u(3) by simp
      have "\<forall>i \<in> set [0..<length ls]. \<not> line_is_tombstone (snd (ls ! i)) \<longrightarrow> showable clock db (snd v) (snd (ls ! i))"
        using assms(4) showable_same [OF st same] by (fastforce simp: case_prod_beta)
      then show "succeeds snd (list_line_rows clock db (line_record_file line_layout) line_layout [0..<unat n]) v"
        using list_rows_answers [OF v(1,2), of ls "[0..<length ls]"] line_table_same [OF st v(3)] tu len by simp
    qed
  qed
qed

end
