(* ===== verification/Line_Properties.thy ===== *)
theory Line_Properties
  imports Line_Ops Line_Queries Store_Properties "HOL-Library.Code_Target_Nat"
begin

text \<open>
  The properties of the line store: its changes refine steps on a map from names to lines, a refused
  change writes nothing, a lookup by name finds the live line, and a listing shows the live lines.
\<close>

section \<open>Changes\<close>

lemma drop_view_ok: "drop_view res = Some (Inr (), w') \<longleftrightarrow> (\<exists>x. res = Some (Inr x, w'))"
  by (cases res; cases "fst (the res)") (auto simp: drop_view_def)

lemma drop_view_err: "drop_view res = Some (Inl e, w') \<longleftrightarrow> res = Some (Inl e, w')"
  by (cases res; cases "fst (the res)") (auto simp: drop_view_def)

lemma line_change_ok:
  "line_change db se line_layout checked body w = Some (Inr x, w') \<longleftrightarrow>
     (\<exists>a. checked = Inr a \<and> in_write_txn db se (body a) w = Some (Inr x, w'))"
  by (auto simp: line_change_def require_supported_line_layout_def split: sum.splits)

lemma normalize_ok: "normalize_line_name name = Inr n \<longleftrightarrow> n = trim name \<and> trim name \<noteq> []"
  by (auto simp: normalize_line_name_def Let_def)

lemma checked_ok:
  "checked_name_time se name at = Inr x \<longleftrightarrow>
     (\<exists>s. x = (trim name, s) \<and> trim name \<noteq> [] \<and> parse_required_epoch_seconds (session_clock se) at = Inr s)"
  by (auto simp: checked_name_time_def res_bind_Inr normalize_ok)

lemmas line_operation_defs = create_line_def append_line_for_bootstrap_def archive_line_def rename_line_def delete_line_def set_line_head_def
  compare_and_swap_line_head_def set_line_updated_at_def

lemma requests_refine:
  assumes "steady db" and "line_store_ok db w ls" and "Suc (length ls) < 2 ^ 32" and "line_payload_room db w"
    and "utf8_string (trim (request_name q))" and "run_line_request db se q w = Some (Inr (), w')"
  shows "\<exists>ls'. line_store_ok db w' ls' \<and>
    line_step (session_clock se) (head_resolves db w) (head_shown db w) q (live_lines ls) (live_lines ls')"
proof -
  have room: "line_payload_room db w1" if "files w1 = files w" for w1
    using assms(4) line_payload_room_same [OF that] by simp
  note go = change_refines [OF assms(1,2)]
  show ?thesis
  proof (cases q)
    case (CreateLine name head at)
    with assms(6) obtain s x where at: "parse_required_epoch_seconds (session_clock se) at = Inr s" "trim name \<noteq> []"
      and run: "in_write_txn db se (create_line_body (session_clock se) db line_layout (trim name) head s) w = Some (Inr x, w')"
      by (auto simp: drop_view_ok create_line_def line_change_ok checked_ok)
    from assms(5) CreateLine have "utf8_string (trim name)" by simp
    with go [OF run] create_changes [OF _ _ _ at(2) _ assms(3) room at(1)] CreateLine show ?thesis by metis
  next
    case (BootstrapLine name status created updated archived head)
    with assms(6) obtain x where n: "trim name \<noteq> []"
      and run: "in_write_txn db se (bootstrap_line_body (session_clock se) db line_layout (trim name) status created updated archived head) w = Some (Inr x, w')"
      by (auto simp: drop_view_ok append_line_for_bootstrap_def line_change_ok normalize_ok)
    from assms(5) BootstrapLine have "utf8_string (trim name)" by simp
    with go [OF run] bootstrap_changes [OF _ _ _ n _ assms(3) room] BootstrapLine show ?thesis by metis
  next
    case (ArchiveLine name at)
    with assms(6) obtain s x where at: "parse_required_epoch_seconds (session_clock se) at = Inr s"
      and run: "in_write_txn db se (archive_line_body (session_clock se) db line_layout (trim name) s) w = Some (Inr x, w')"
      by (auto simp: drop_view_ok archive_line_def line_change_ok checked_ok)
    with go [OF run] archive_changes [OF _ _ _ _ at] ArchiveLine show ?thesis by (metis trim_trim)
  next
    case (RenameLine old new at)
    with assms(6) obtain s x where at: "parse_required_epoch_seconds (session_clock se) at = Inr s" "trim new \<noteq> []"
      and run: "in_write_txn db se (rename_line_body (session_clock se) db line_layout (trim old) (trim new) s) w = Some (Inr x, w')"
      by (auto simp: drop_view_ok rename_line_def line_change_ok res_bind_Inr normalize_ok split: if_splits)
    from assms(5) RenameLine have "utf8_string (trim new)" by simp
    with go [OF run] rename_changes [OF _ _ _ _ at(2) _ _ room at(1)] RenameLine show ?thesis by (metis trim_trim)
  next
    case (DeleteLine name at)
    with assms(6) obtain s x where
      run: "in_write_txn db se (delete_line_body (session_clock se) db line_layout (trim name) s) w = Some (Inr x, w')"
      by (auto simp: drop_view_ok delete_line_def line_change_ok checked_ok)
    with go [OF run] delete_changes DeleteLine show ?thesis by (metis trim_trim)
  next
    case (SetLineHead name head at)
    with assms(6) obtain s x where at: "parse_required_epoch_seconds (session_clock se) at = Inr s"
      and run: "in_write_txn db se (set_line_head_body (session_clock se) db line_layout (trim name) head s) w = Some (Inr x, w')"
      by (auto simp: drop_view_ok set_line_head_def line_change_ok checked_ok)
    with go [OF run] set_head_changes [OF _ _ _ _ at] SetLineHead show ?thesis by (metis trim_trim)
  next
    case (SwapLineHead name expected head at)
    with assms(6) obtain s x where at: "parse_required_epoch_seconds (session_clock se) at = Inr s"
      and run: "in_write_txn db se (compare_and_swap_body (session_clock se) db line_layout (trim name) expected head s) w = Some (Inr x, w')"
      by (auto simp: drop_view_ok compare_and_swap_line_head_def line_change_ok checked_ok)
    with go [OF run] swap_head_changes [OF _ _ _ _ at] SwapLineHead show ?thesis by (metis trim_trim)
  next
    case (SetLineUpdatedAt name at)
    with assms(6) obtain s x where at: "parse_epoch_seconds (session_clock se) at = Inr s"
      and run: "in_write_txn db se (set_line_updated_at_body db line_layout (trim name) s) w = Some (Inr x, w')"
      by (auto simp: drop_view_ok set_line_updated_at_def line_change_ok res_bind_Inr normalize_ok)
    with go [OF run] updated_changes [OF _ _ _ _ at] SetLineUpdatedAt show ?thesis by (metis trim_trim)
  qed
qed

text \<open>
  C6. The line store refines its specification.  Whatever public operation succeeds, on a store whose
  table is readable, whose live names are unique and indexed, and which has room for one more line, it
  leaves such a store again, and the map from live names to lines changed by exactly one step of the
  specification: creating needs an unused name, renaming a used and an unused one, deleting frees the
  name, moving the head by compare and swap needs the expected head, and nothing else changes.
\<close>

theorem line_changes_refine:
  assumes "steady db" and "line_store_ok db w ls" and "Suc (length ls) < 2 ^ 32" and "line_payload_room db w"
    and "utf8_string (trim (request_name q))" and "run_line_request db se q w = Some (Inr (), w')"
  shows "\<exists>ls'. line_store_ok db w' ls' \<and>
    line_step (session_clock se) (head_resolves db w) (head_shown db w) q (live_lines ls) (live_lines ls')"
  by (rule requests_refine [OF assms])

section \<open>Refusals\<close>

text \<open>
  The errors that say why a change was refused.  The others come from the Binary DB, or from showing the
  line after it was written.
\<close>

fun line_refusal :: "line_error \<Rightarrow> bool" where
  "line_refusal (LineDb e) = False"
| "line_refusal (HeadTombstoned i) = False"
| "line_refusal TimestampOutOfRange = False"
| "line_refusal _ = True"

definition nothing_logged :: "BinaryDbWriteTxn \<Rightarrow> bool" where
  "nothing_logged t \<longleftrightarrow> rollback_files t = [] \<and> rollback_records t = []"

definition refuses_cleanly :: "LocalBinaryDbFs \<Rightarrow> 'a line_io \<Rightarrow> bool" where
  "refuses_cleanly db m \<longleftrightarrow>
     (\<forall>t w e t' w'. write_valid db (t, w) \<longrightarrow> nothing_logged t \<longrightarrow> \<not> finished t \<longrightarrow> m (t, w) = (Inl e, (t', w')) \<longrightarrow>
        line_refusal e \<longrightarrow> files w' = files w \<and> nothing_logged t')"

definition never_refuses :: "('s, line_error, 'a) io \<Rightarrow> bool" where
  "never_refuses m \<longleftrightarrow> (\<forall>s e s'. m s = (Inl e, s') \<longrightarrow> \<not> line_refusal e)"

lemma never_refuses_bind: "never_refuses m \<Longrightarrow> (\<And>x. never_refuses (f x)) \<Longrightarrow> never_refuses (io_bind m f)"
  unfolding never_refuses_def io_bind_err by blast

lemma never_refuses_basic:
  "never_refuses (io_return x)" "never_refuses (io_map_err LineDb d)"
  "never_refuses m \<Longrightarrow> never_refuses n \<Longrightarrow> never_refuses (if b then m else n)"
  "never_refuses (io_lift (format_epoch_seconds clock v))" "never_refuses (io_fail (HeadTombstoned i))"
  by (auto simp: never_refuses_def io_map_err_err io_bind_err format_epoch_seconds_def split: if_splits option.splits)

lemmas never_refuses_rules = never_refuses_basic never_refuses_bind

lemma view_never_refuses: "never_refuses (line_record_view clock acc i r)" "never_refuses (view_and_commit clock db i r)"
proof -
  have "never_refuses (head_snapshot_id_of acc r)" for acc
    unfolding head_snapshot_id_of_def snapshot_id_at_def
    by (cases "head_snapshot_index r") (auto intro!: never_refuses_rules)
  then have v: "never_refuses (line_record_view clock acc i r)" for acc
    unfolding line_record_view_def line_record_view_for_layout_def by (auto intro!: never_refuses_rules)
  show "never_refuses (line_record_view clock acc i r)" by (rule v)
  show "never_refuses (view_and_commit clock db i r)"
    unfolding view_and_commit_def by (intro never_refuses_rules v)
qed

lemma writes_never_refuse: "never_refuses (mutate_line db layout i r)"
  unfolding mutate_line_def by (intro never_refuses_rules)

lemma never_refuses_clean: "never_refuses m \<Longrightarrow> refuses_cleanly db m"
  unfolding never_refuses_def refuses_cleanly_def by blast

lemma then_never_refuses:
  assumes "refuses_cleanly db m" and "\<And>x. never_refuses (f x)"
  shows "refuses_cleanly db (io_bind m f)"
  using assms unfolding never_refuses_def refuses_cleanly_def io_bind_err by blast

lemma fail_clean: "refuses_cleanly db (io_fail e)"
  by (auto simp: refuses_cleanly_def)

lemma lift_clean: "refuses_cleanly db (io_lift r)"
  by (auto simp: refuses_cleanly_def)

lemma read_clean:
  assumes m: "reads_only snd (write_valid db) same_write_txn m P" and f: "\<And>x. refuses_cleanly db (f x)"
  shows "refuses_cleanly db (io_bind m f)"
  unfolding refuses_cleanly_def
proof (intro allI impI)
  fix t w e t' w'
  assume v: "write_valid db (t, w)" "nothing_logged t" "\<not> finished t"
    and run: "io_bind m f (t, w) = (Inl e, (t', w'))" and e: "line_refusal e"
  obtain r t1 w1 where r: "m (t, w) = (r, (t1, w1))" by (metis prod.exhaust)
  note a = reads_only_run [OF m v(1) r]
  have l: "cache_only t t1" "files w1 = files w" using a by (simp_all add: same_write_txn_def quiet_def)
  have t1: "nothing_logged t1" "\<not> finished t1" using v cache_only_logs [OF l(1)] by (simp_all add: nothing_logged_def)
  show "files w' = files w \<and> nothing_logged t'"
  proof (cases r)
    case (Inl d)
    with run r have "t' = t1" "w' = w1" by (auto simp: io_bind_apply)
    with l t1 show ?thesis by simp
  next
    case (Inr x)
    with run r have "f x (t1, w1) = (Inl e, (t', w'))" by (simp add: io_bind_apply)
    with f [of x] a(1) t1 e l(2) show ?thesis unfolding refuses_cleanly_def by metis
  qed
qed

lemma append_line_clean: "refuses_cleanly db (append_line_in_txn db layout name meta c u a h)"
  unfolding append_line_in_txn_def Let_def
  by (auto intro!: fail_clean never_refuses_clean never_refuses_rules)

lemma if_clean: "refuses_cleanly db m \<Longrightarrow> refuses_cleanly db n \<Longrightarrow> refuses_cleanly db (if b then m else n)"
  by simp

lemma mismatch_clean: "refuses_cleanly db (io_bind (io_map_err LineDb (abort db)) (\<lambda>_. io_fail e))"
  unfolding refuses_cleanly_def
proof (intro allI impI)
  fix t w d t' w'
  assume v: "nothing_logged t" "\<not> finished t" and run: "io_bind (io_map_err LineDb (abort db)) (\<lambda>_. io_fail e) (t, w) = (Inl d, (t', w'))"
  then obtain r where "abort db (t, w) = (r, (t', w'))"
    by (auto simp: io_bind_err io_map_err_err io_map_err_ok)
  with abort_unwritten [of t db w r t' w'] v show "files w' = files w \<and> nothing_logged t'" by (simp add: nothing_logged_def)
qed

lemmas clean_rules = read_clean [OF require_line_reads] read_clean [OF refuse_line_reads] read_clean [OF resolve_in_txn]
  read_clean [OF write_reader.view_reads]
  read_clean [OF write_reader.lift_reads] if_clean fail_clean append_line_clean mismatch_clean
  never_refuses_clean [OF view_never_refuses(1)] never_refuses_clean [OF view_never_refuses(2)]

lemma commit_change_clean:
  "refuses_cleanly db (io_bind (mutate_line db layout i r) (\<lambda>_. view_and_commit clock db i r))"
  by (intro never_refuses_clean never_refuses_rules writes_never_refuse view_never_refuses)

lemma rename_clean: "refuses_cleanly db (rename_line_body clock db layout old new s)"
  unfolding rename_line_body_def Let_def
  by (intro read_clean [OF refuse_line_reads] read_clean [OF require_line_reads])
    (auto intro!: fail_clean never_refuses_clean never_refuses_rules writes_never_refuse view_never_refuses split: prod.split)

lemma bootstrap_clean:
  "refuses_cleanly db (bootstrap_line_body clock db layout name status created updated archived head)"
  unfolding bootstrap_line_body_def
  by (intro read_clean [OF refuse_line_reads] read_clean [OF write_reader.lift_reads] read_clean [OF resolve_in_txn])
    (auto intro!: read_clean [OF write_reader.lift_reads] read_clean [OF resolve_in_txn] then_never_refuses [OF append_line_clean]
      never_refuses_rules split: prod.split)

lemma bodies_clean:
  "refuses_cleanly db (create_line_body clock db layout name head s)"
  "refuses_cleanly db (archive_line_body clock db layout name s)"
  "refuses_cleanly db (delete_line_body clock db layout name s)"
  "refuses_cleanly db (set_line_head_body clock db layout name head s)"
  "refuses_cleanly db (compare_and_swap_body clock db layout name expected head s)"
  "refuses_cleanly db (set_line_updated_at_body db layout name s)"
  unfolding create_line_body_def archive_line_body_def delete_line_body_def set_line_head_body_def
    compare_and_swap_body_def set_line_updated_at_body_def Let_def
  by (auto intro!: clean_rules commit_change_clean then_never_refuses [OF append_line_clean] view_never_refuses
      intro: never_refuses_clean never_refuses_rules writes_never_refuse split: prod.split)

lemma refused_change:
  assumes "line_change db se line_layout checked body w = Some (Inl e, w')" and "steady db" and "line_refusal e"
    and "\<And>x. refuses_cleanly db (body x)"
  shows "files w' = files w"
proof (cases checked)
  case (Inl d)
  with assms(1) show ?thesis by (simp add: line_change_def require_supported_line_layout_def)
next
  case (Inr x)
  with assms(1) have "in_write_txn db se (body x) w = Some (Inl e, w')"
    by (simp add: line_change_def require_supported_line_layout_def)
  then show ?thesis
  proof (cases rule: in_write_txn_run)
    case (ran t w1 t2 w2)
    have t: "write_valid db (t, w1)" "nothing_logged t" "\<not> finished t"
      using ran(1) new_txn_fields assms(2) index_coherent_empty by (metis nothing_logged_def write_valid_def fst_conv snd_conv)+
    with assms(4) [of x] ran(3) assms(3) have "files w2 = files w1" "nothing_logged t2" unfolding refuses_cleanly_def by metis+
    with ran(2,4) drop_unwritten show ?thesis by (simp add: nothing_logged_def)
  qed simp
qed

text \<open>
  C12. A refused change leaves the store as it was: when an operation answers that a name is empty,
  unknown, already in use or too long, that a snapshot is unknown, that the head is not the expected one,
  or that a time or a status is not accepted, then every file holds what it held before, whatever failed on the way.
\<close>

theorem refused_line_change_writes_nothing:
  assumes "steady db" and "run_line_request db se q w = Some (Inl e, w')" and "line_refusal e"
  shows "files w' = files w"
  using assms(2)
  by (cases q) (simp_all add: drop_view_err line_operation_defs,
      (erule refused_change [OF _ assms(1,3)], simp add: bodies_clean rename_clean bootstrap_clean split: prod.split)+)

section \<open>Lookups and listings\<close>

lemma found_line_unique:
  assumes "unique_live ls" and "found_line ls n x" and "found_line ls n y"
  shows "x = y"
proof (cases x)
  case None
  with assms show ?thesis by (auto simp: found_line_def split: option.splits)
next
  case (Some a)
  then obtain i r where x: "x = Some (i, r)" "live_line ls n (unat i)" "r = snd (ls ! unat i)"
    using assms(2) by (cases a) (auto simp: found_line_def)
  with assms(3) obtain j where y: "y = Some (j, snd (ls ! unat j))" "live_line ls n (unat j)"
    by (cases y) (auto simp: found_line_def)
  have "unat i = unat j" using assms(1) x(2) y(2) by (auto simp: unique_live_def)
  then have "i = j" by (simp add: word_unat_eq_iff)
  with x y show ?thesis by simp
qed

text \<open>
  C13. Looking a line up by its name is exact, inside a change and in a read transaction: a lookup that
  returns a line returns the live line of that name with its row, and a lookup that returns none means
  that no live line has the name; deleted lines, lines that were renamed away and other names with the
  same hash are skipped.  When no operation of the file system fails, both lookups answer, and the same.
\<close>

theorem find_line_exact:
  assumes "line_store_ok db w ls" and "write_valid db (t, w)" and "read_valid db (r, w)"
  shows "(\<forall>res s. find_line (write_access db) name (t, w) = (Inr res, s) \<longrightarrow> found_line ls (trim name) res) \<and>
    (\<forall>res s. find_line (read_access db) name (r, w) = (Inr res, s) \<longrightarrow> found_line ls (trim name) res) \<and>
    (calm w \<longrightarrow> (\<exists>res s s'. find_line (write_access db) name (t, w) = (Inr res, s) \<and>
       find_line (read_access db) name (r, w) = (Inr res, s')))"
proof -
  have a: "found_line ls (trim name) res" if "find_line (write_access db) name (t, w) = (Inr res, s)" for res s
    using reads_only_ok [OF write_reader.find_reads [OF indexes_known(1)] assms(2) that, of w] assms(1) by simp
  have b: "found_line ls (trim name) res" if "find_line (read_access db) name (r, w) = (Inr res, s)" for res s
    using reads_only_ok [OF read_reader.find_reads [OF UNIV_I] assms(3) that, of w] assms(1) by simp
  have "\<exists>res s s'. find_line (write_access db) name (t, w) = (Inr res, s) \<and> find_line (read_access db) name (r, w) = (Inr res, s')"
    if "calm w"
  proof -
    have "succeeds snd (find_line (write_access db) name) (t, w)" "succeeds snd (find_line (read_access db) name) (r, w)"
      using answering_write.find_answers [OF assms(2) _ _ indexes_known(1), of ls name]
        answering_read.find_answers [OF assms(3) _ _ UNIV_I, of ls name] assms(1) that by simp_all
    with a b found_line_unique [OF store_ok_unique [OF assms(1)]] show ?thesis unfolding succeeds_def by metis
  qed
  with a b show ?thesis by blast
qed

text \<open>
  C14. Listing is sound and complete: a listing that succeeds in a read transaction shows the lines that
  are not deleted, all of them and nothing else, in the order in which they were created, each with its
  stored name, status, times and head.  It succeeds in a fresh transaction when no operation of the file
  system fails, the times can be printed and the heads are snapshots of the table.
\<close>

theorem list_lines_exact:
  assumes "line_table db w = Some ls" and "steady db"
  shows "(\<forall>t views s. read_valid db (t, w) \<and> list_lines_with_read clock db (t, w) = (Inr views, s) \<longrightarrow>
      list_all2 (\<lambda>i v. shows_line clock db w (of_nat i) (snd (ls ! i)) v) (live_rows ls) views) \<and>
    (calm w \<and> (\<forall>(n, r) \<in> set ls. \<not> line_is_tombstone r \<longrightarrow> showable clock db w r) \<longrightarrow>
      (\<exists>views s. list_lines_with_read clock db (fresh_read_txn l, w) = (Inr views, s)))"
proof (intro conjI allI impI; elim conjE)
  fix t views s
  assume "read_valid db (t, w)" and "list_lines_with_read clock db (t, w) = (Inr views, s)"
  then show "list_all2 (\<lambda>i v. shows_line clock db w (of_nat i) (snd (ls ! i)) v) (live_rows ls) views"
    by (rule list_lines_sound [OF _ assms(1)])
next
  assume "calm w" and "\<forall>(n, r) \<in> set ls. \<not> line_is_tombstone r \<longrightarrow> showable clock db w r"
  then have "succeeds snd (list_lines_with_read clock db) (fresh_read_txn l, w)"
    by (rule list_lines_answer [OF assms(2) _ assms(1)])
  then show "\<exists>views s. list_lines_with_read clock db (fresh_read_txn l, w) = (Inr views, s)"
    by (auto simp: succeeds_def)
qed

section \<open>A store with one line\<close>

text \<open>A detached store, which takes no locks, and a clock that prints every time alike.\<close>

definition demo_lines :: LocalBinaryDbFs where
  "demo_lines = demo_db\<lparr>detached_generation_without_locks := True\<rparr>"

definition demo_clock :: line_clock where
  "demo_clock = \<lparr>parse_rfc3339_seconds = (\<lambda>_. None), format_rfc3339_seconds = (\<lambda>_. Some ''1970-01-01T00:00:01Z'')\<rparr>"

definition demo_session :: line_session where
  "demo_session = \<lparr>session_owner = 1, session_metadata = (\<lambda>_. []), session_txid = 1, session_clock = demo_clock\<rparr>"

definition demo_create :: line_request where
  "demo_create = CreateLine '' a '' None ''1''"

definition demo_created :: "unit line_result" where
  "demo_created = run_line_request demo_lines demo_session demo_create empty_world"

lemma demo_lines_steady: "steady demo_lines"
  using demo_steady by (simp add: steady_def demo_lines_def)

lemma demo_line_files:
  "files empty_world p = None" "path_value demo_lines (file_relative_path (line_record_file line_layout)) empty_world =
     Inr (record_path demo_lines (line_record_file line_layout))"
  "path_value demo_lines (index_relative_path (line_name_index line_layout)) empty_world =
     Inr (index_path demo_lines (line_name_index line_layout))"
  by (simp add: empty_world_def) code_simp+

lemma demo_empty_store: "line_store_ok demo_lines empty_world []"
proof -
  have "stored_records demo_lines (line_record_file line_layout) empty_world = Some []"
    by (rule stored_records_missing [OF demo_line_files(2,1)])
  moreover have "line_lookup demo_lines n empty_world = Inr []" for n
    by (simp add: line_lookup_def lookup_value_def demo_line_files)
  ultimately show ?thesis
    by (auto simp: line_store_ok_def line_table_def rows_of_def listed_def live_line_def)
qed

lemma demo_created_ok: "\<exists>w. demo_created = Some (Inr (), w) \<and> calm w"
proof -
  have "map_option (\<lambda>(r, w). (is_ok r, faults w)) demo_created = Some (True, [])" by code_simp
  then obtain r w where "demo_created = Some (r, w)" "is_ok r" "faults w = []" by auto
  then show ?thesis by (cases r) (auto simp: calm_def is_ok_iff)
qed

lemma demo_create_ready:
  "Suc (length []) < 2 ^ 32" "line_payload_room demo_lines empty_world" "utf8_string (trim (request_name demo_create))"
  by (simp, simp add: line_payload_room_def file_or_empty_def demo_line_files, code_simp)

inductive_cases line_step_create: "line_step clock resolves shown (CreateLine name head at) m m'"

lemma demo_line_store:
  assumes "demo_created = Some (Inr (), w)"
  obtains ls i where "line_store_ok demo_lines w ls" "\<forall>n j. live_line ls n j \<longleftrightarrow> n = ''a'' \<and> j = i"
    "line_entry_of (snd (ls ! i)) = \<lparr>entry_head = None, entry_created_at = 1, entry_updated_at = 1, entry_archived_at = 0\<rparr>"
proof -
  let ?e = "\<lparr>entry_head = None, entry_created_at = 1, entry_updated_at = 1, entry_archived_at = 0\<rparr> :: line_entry"
  obtain ls where ls: "line_store_ok demo_lines w ls" and step: "line_step demo_clock (head_resolves demo_lines empty_world)
      (head_shown demo_lines empty_world) (CreateLine '' a '' None ''1'') (live_lines []) (live_lines ls)"
    using requests_refine [OF demo_lines_steady demo_empty_store demo_create_ready assms [unfolded demo_created_def]]
    by (auto simp: demo_create_def demo_session_def)
  have "parse_required_epoch_seconds demo_clock ''1'' = Inr 1" "trim '' a '' = ''a''" by code_simp+
  with step have live: "live_lines ls = [''a'' \<mapsto> ?e]"
    by (auto elim!: line_step_create simp: live_lines_def head_resolves_def resolved_head_def minus_one_def)
  note u = store_ok_unique [OF ls]
  have "live_lines ls ''a'' = Some ?e" using live by simp
  then obtain i where i: "live_line ls ''a'' i" "line_entry_of (snd (ls ! i)) = ?e"
    unfolding live_lines_Some [OF u] by metis
  have "n = ''a''" if "live_line ls n j" for n j
  proof (rule ccontr)
    assume "n \<noteq> ''a''"
    with live have "live_lines ls n = None" by simp
    with that live_lines_None [OF u] show False by blast
  qed
  with i(1) u have "live_line ls n j \<longleftrightarrow> n = ''a'' \<and> j = i" for n j unfolding unique_live_def by blast
  with ls i(2) that show ?thesis by blast
qed

theorem line_changes_refine_witness:
  "\<exists>w ls. run_line_request demo_lines demo_session demo_create empty_world = Some (Inr (), w) \<and> line_store_ok demo_lines w ls \<and>
     line_step demo_clock (head_resolves demo_lines empty_world) (head_shown demo_lines empty_world) demo_create
       (live_lines []) (live_lines ls)"
proof -
  obtain w where run: "run_line_request demo_lines demo_session demo_create empty_world = Some (Inr (), w)"
    using demo_created_ok by (auto simp: demo_created_def)
  from line_changes_refine [OF demo_lines_steady demo_empty_store demo_create_ready run] run show ?thesis
    by (auto simp: demo_session_def)
qed

theorem refused_line_change_writes_nothing_witness:
  "\<exists>w. run_line_request demo_lines demo_session (ArchiveLine ''a'' ''1'') empty_world = Some (Inl (UnknownLine ''a''), w) \<and>
     files w = files empty_world"
proof -
  have "map_option fst (run_line_request demo_lines demo_session (ArchiveLine ''a'' ''1'') empty_world) =
      Some (Inl (UnknownLine ''a''))" by code_simp
  then obtain w where "run_line_request demo_lines demo_session (ArchiveLine ''a'' ''1'') empty_world =
      Some (Inl (UnknownLine ''a''), w)" by auto
  with refused_line_change_writes_nothing [OF demo_lines_steady this] show ?thesis by auto
qed

theorem find_line_exact_witness:
  "\<exists>w t r i row s s'. demo_created = Some (Inr (), w) \<and>
     find_line (write_access demo_lines) ''a'' (t, w) = (Inr (Some (i, row)), s) \<and>
     find_line (read_access demo_lines) ''a'' (r, w) = (Inr (Some (i, row)), s') \<and> line_created_at_s row = 1"
proof -
  obtain w where w: "demo_created = Some (Inr (), w)" "calm w" using demo_created_ok by blast
  obtain ls i where ls: "line_store_ok demo_lines w ls" "\<forall>n j. live_line ls n j \<longleftrightarrow> n = ''a'' \<and> j = i"
    "line_entry_of (snd (ls ! i)) = \<lparr>entry_head = None, entry_created_at = 1, entry_updated_at = 1, entry_archived_at = 0\<rparr>"
    by (rule demo_line_store [OF w(1)])
  define t where "t = new_txn (detached_command_lock ContentWrite) 1 ContentWrite StoreFsync"
  have t: "write_valid demo_lines (t, w)"
    by (simp add: write_valid_def demo_lines_steady t_def new_txn_def index_coherent_empty)
  have r: "read_valid demo_lines (fresh_read_txn detached_read_lock, w)" by (rule fresh_read_valid [OF demo_lines_steady])
  have name: "trim ''a'' = ''a''" by code_simp
  from find_line_exact [OF ls(1) t r, of "''a''"] w(2) name obtain res s s' where
    found: "find_line (write_access demo_lines) ''a'' (t, w) = (Inr res, s)" "found_line ls ''a'' res"
    "find_line (read_access demo_lines) ''a'' (fresh_read_txn detached_read_lock, w) = (Inr res, s')" by auto
  from found(2) ls(2) have "\<exists>k. res = Some (k, snd (ls ! i))"
    by (cases res) (auto simp: found_line_def)
  then obtain k where "res = Some (k, snd (ls ! i))" by blast
  moreover have "line_created_at_s (snd (ls ! i)) = 1" using ls(3) by (simp add: line_entry_of_def)
  ultimately show ?thesis using found w by blast
qed

theorem list_lines_exact_witness:
  "\<exists>w views s. demo_created = Some (Inr (), w) \<and>
     list_lines_with_read demo_clock demo_lines (fresh_read_txn detached_read_lock, w) = (Inr views, s) \<and>
     map view_line_name views = [''a'']"
proof -
  obtain w where w: "demo_created = Some (Inr (), w)" "calm w" using demo_created_ok by blast
  obtain ls i where ls: "line_store_ok demo_lines w ls" "\<forall>n j. live_line ls n j \<longleftrightarrow> n = ''a'' \<and> j = i"
    "line_entry_of (snd (ls ! i)) = \<lparr>entry_head = None, entry_created_at = 1, entry_updated_at = 1, entry_archived_at = 0\<rparr>"
    by (rule demo_line_store [OF w(1)])
  have i: "i < length ls" "fst (ls ! i) = ''a''" "\<not> line_is_tombstone (snd (ls ! i))" using ls(2) by (auto simp: live_line_def)
  have only: "j = i" if "j < length ls" "\<not> line_is_tombstone (snd (ls ! j))" for j
    using ls(2) that unfolding live_line_def by blast
  have "live_rows ls = filter (\<lambda>j. j = i) [0..<length ls]"
    unfolding live_rows_def using only i(3) by (intro filter_cong) auto
  also have "[0..<length ls] = [0..<i] @ i # [Suc i..<length ls]" 
    using i(1) upt_add_eq_append [of 0 i "length ls - i"] by (simp add: upt_conv_Cons)
  finally have rows: "live_rows ls = [i]" by (simp add: filter_empty_conv)
  have "showable demo_clock demo_lines w (snd (ls ! i))"
    using ls(3) by (simp add: showable_def printable_line_def line_entry_of_def format_epoch_seconds_def demo_clock_def is_ok_iff)
  then have "\<forall>(n, r) \<in> set ls. \<not> line_is_tombstone r \<longrightarrow> showable demo_clock demo_lines w r"
    using only by (auto simp: in_set_conv_nth)
  with list_lines_exact [OF store_ok_table [OF ls(1)] demo_lines_steady, of demo_clock detached_read_lock] w(2)
    fresh_read_valid [OF demo_lines_steady, of detached_read_lock w]
  obtain views s where l: "list_lines_with_read demo_clock demo_lines (fresh_read_txn detached_read_lock, w) = (Inr views, s)"
    "list_all2 (\<lambda>i v. shows_line demo_clock demo_lines w (of_nat i) (snd (ls ! i)) v) (live_rows ls) views" by blast
  have "name_value demo_lines (snd (ls ! i)) w = Inr ''a''"
    using store_ok_table [OF ls(1)] nth_mem [OF i(1)] i(2) by (fastforce simp: line_table_iff)
  with l(2) have "map view_line_name views = [''a'']" by (auto simp: rows list_all2_Cons1 shows_line_def)
  with l(1) w(1) show ?thesis by (intro exI conjI)
qed

end
