(* ===== verification/Spec2Isabelle.thy ===== *)
theory Spec2Isabelle
  imports Store_Properties Lock_Properties Txn_Properties Delta_Properties Pack_Properties Reader_Properties
    Snapshot_Properties Rebase_Properties Merge_Properties Admission_Loop
    Content_Properties Line_Properties
begin

text \<open>
  A verification development of the storage core of \<open>ait-native\<close>, a version-control and
  workflow tool written in Rust.  Everything the tool knows about a repository is kept by the
  crate \<open>ait-core/rust/crates/ait-core\<close> in the Binary DB: append-only files of fixed-size
  records, payload files and index files, written by transactions under per-family lock files.
  The contents of files are kept beside it in packs: immutable containers of compressed chunks with
  a binary index, in which a blob is stored in full or as a delta against an earlier version.
  Blobs, packs, trees, snapshots and lines (the named branches of a repository) are rows of such files.
  Above both lies the history: snapshots with ordered lists of parents, which the tool walks, orders,
  merges and replays; what is finished is sent to a server once it admits it.

  \<^bold>\<open>Parts and theories.\<close>

  \<^item> \<open>Ait_Prelude\<close>, \<open>Store_Path\<close>: byte strings, little-endian
    integers, the result and state monad of the model, and relative paths (\<open>binary_db/paths.rs\<close>).
  \<^item> \<open>File_Io\<close>, \<open>Io_Reads\<close>: the file adapter (\<open>file_io/mod.rs\<close>).
    The world holds the current and the durable contents of every file, the lock table and a queue
    of injected failures, one per system call, so that a write may be torn at any byte.
  \<^item> \<open>Binary_Db\<close>, \<open>Binary_Db_Index\<close>, \<open>Binary_Db_Fs\<close>: identities,
    authorisation, the index file format and the filesystem adapter (\<open>binary_db/errors.rs\<close>,
    \<open>file_ids.rs\<close>, \<open>identities.rs\<close>, \<open>schema_registry.rs\<close>,
    \<open>filesystem_db.rs\<close>, \<open>contracts.rs\<close>).
  \<^item> \<open>Record_Store\<close>, \<open>Record_Batch\<close>, \<open>Store_Laws\<close>,
    \<open>Store_Properties\<close>: a record file as the list of its records; the adapter's operations
    refine list operations, payload ranges and index candidates read back, and the read caches of a
    transaction agree with direct reads.
  \<^item> \<open>Lock_Sets\<close>, \<open>Lock_Laws\<close>, \<open>Lock_Protocol\<close>,
    \<open>Lock_Properties\<close>: the lock sets (\<open>locks.rs\<close>).  One pass of an acquisition loop is a
    function, a call repeats it, and interleaved processes take the same passes in any order under
    any failures; with exclusion, progress and bounded waiting.
  \<^item> \<open>Write_Txn\<close>, \<open>Txn_Undo\<close>, \<open>Txn_Steps\<close>,
    \<open>Txn_Durability\<close>, \<open>Txn_Properties\<close>: write and read transactions
    (\<open>write_txn.rs\<close>, \<open>read_txn.rs\<close>, \<open>fsync_policy.rs\<close>), with
    atomicity of abort, durability of commit and ordering of the commit marker.
  \<^item> \<open>Pack_Delta\<close>, \<open>Delta_Encoder\<close>: the copy and insert instructions of
    the delta format (\<open>pack_substrate/util.rs\<close>, \<open>object.rs\<close>) and the encoder with its
    comparison budget and rolling hash on 64-bit words (\<open>delta_encoder.rs\<close>).
  \<^item> \<open>Chunk_Layout\<close>, \<open>Pack_Members\<close>, \<open>Delta_Properties\<close>: the
    grouping of members into chunks (\<open>chunk_layout.rs\<close>) and the choice between full copies and
    deltas (\<open>object.rs\<close>).
  \<^item> \<open>Pack_Strings\<close>, \<open>Pack_Index\<close>, \<open>Pack_Index_Codec\<close>: the
    binary index and trailer of a container (\<open>zstd/frame_index.rs\<close>) and its round trips.
  \<^item> \<open>Pack_Archive\<close>, \<open>Pack_Archive_Laws\<close>, \<open>Pack_Entry_Laws\<close>,
    \<open>Pack_Safety\<close>, \<open>Pack_Properties\<close>: the container writer and readers
    (\<open>zstd/compression_helpers.rs\<close>, \<open>zstd/validation.rs\<close>, \<open>zstd/object_pack.rs\<close>),
    the typed writer, and what a pack keeps and what its readers guarantee.
  \<^item> \<open>Pack_Reader\<close>, \<open>Reader_Properties\<close>: archives that stay open with a
    cache of chunks, and the validation of a remote pack before it is reused (\<open>pack_substrate.rs\<close>).
  \<^item> \<open>Snapshot_Store\<close>, \<open>Topological_Order\<close>, \<open>Snapshot_Dag\<close>,
    \<open>Snapshot_Queries\<close>, \<open>Snapshot_Descendants\<close>: parent sets (\<open>snapshot_store.rs\<close>) and the
    graph algorithms on histories (\<open>snapshot_dag.rs\<close>): orders, closures, distances, merge bases.
  \<^item> \<open>Topological_Laws\<close>, \<open>Dag_Walk_Laws\<close>, \<open>Dag_Closure_Laws\<close>,
    \<open>Dag_Query_Laws\<close>, \<open>Descendant_Laws\<close>, \<open>Snapshot_Properties\<close>: the abstract
    specification of a walk is the sequence of generations of a set of heads; the closures return the
    generations with the first one that has a snapshot as its depth, and orders, distances and merge
    bases are what the graph says.
  \<^item> \<open>Snapshot_Rebase\<close>, \<open>Rebase_Properties\<close>: the three-way rule for trees and
    the replay of a line of snapshots on a target (\<open>snapshot_rebase.rs\<close>).
  \<^item> \<open>Snapshot_Merge\<close>, \<open>Merge_Properties\<close>: the merge of texts by line
    edits (\<open>snapshot_merge.rs\<close>).
  \<^item> \<open>Row_Codec\<close>, \<open>Content_Codec\<close>, \<open>Content_Ids\<close>,
    \<open>Content_Properties\<close>: the fixed rows of the content store with their cursor, the snapshot
    payload (\<open>content_binary_db/schema\<close>) and the identifiers and index keys
    (\<open>content_binary_db/mod.rs\<close>).
  \<^item> \<open>Line_Codec\<close>, \<open>Line_Store\<close>: the rows of the line store and all its operations,
    over the transactions (\<open>line_binary_db/mod.rs\<close>, \<open>line_store.rs\<close>).
  \<^item> \<open>Line_Frames\<close>, \<open>Line_Readers\<close>, \<open>Line_Live\<close>, \<open>Line_Laws\<close>,
    \<open>Line_Session\<close>, \<open>Line_Queries\<close>, \<open>Line_Ops\<close>, \<open>Line_Properties\<close>: a line
    store is a table of rows, of which the live ones form a map from names to lines (\<open>live_lines\<close>);
    its invariant \<open>line_store_ok\<close> says that the table is readable, live names are unique and every
    live line is among the index candidates of its name.  The specification is the step relation
    \<open>line_step\<close> on that map; changes refine it, refusals leave the files alone, and lookups and
    listings show the live lines.
  \<^item> \<open>Admission_Wait\<close>, \<open>Admission_Loop\<close>: the reports of an upgrading server and the
    tracker of its progress (\<open>workflow_admission.rs\<close>), and the loop that waits for admission before a
    finish is sent (\<open>admitted\<close> in the command line's \<open>package_flow/apply.rs\<close>); the
    specification reads only the answers of the server.

  \<^bold>\<open>Interfaces.\<close>  The locale \<open>fixed_record_store\<close> states what a client of a record
  file relies on and is interpreted on the adapter; the locale \<open>ordered_requests\<close> states why a
  fixed order of lock names excludes deadlock and is interpreted on the lock files that the passes of
  the acquisition ask for, and \<open>releasable_set\<close> states what release and drop owe a lock set and is
  interpreted on the sets of commands and of readers; the locale \<open>field_codec\<close> states what an encoder and a decoder of a field owe each other, gives
  both round trips for sequences of fields, and is interpreted on every field of the pack index.  The
  locale \<open>parent_source\<close> states what a walk over a history relies on and is interpreted on the links
  of a store and on a parent map; \<open>batched_links\<close> and its extension \<open>total_links\<close> state that
  a batch of lookups answers like single ones and are interpreted on the provided method of the trait.
  The locale \<open>row_codec\<close> states that encoder and decoder of a row are inverse and is interpreted on
  the six rows of the content store and on the row of a line.  The locale \<open>read_state\<close> is what a
  reading operation may assume of its transaction, \<open>line_reader\<close> extends it to the trait through which
  the line store reads, and \<open>answering_reader\<close> adds that reads answer when no system call fails; the
  two readers are interpreted on write and on read transactions.

  \<^bold>\<open>Parameters.\<close>  The compressor, the digest, the parser and the printer of timestamps and access to JSON values are third-party
  code and arguments of the definitions; the only facts used of them are that decompression with the
  recorded length inverts compression and that a digest has 32 bytes (\<open>pack_env_ok\<close>).  The diff
  of two lists of lines is a parameter whose operations have to walk over both lists
  (\<open>diff_walks\<close>), and a snapshot store is a record of the methods that the walks call.  The
  durable directory of a Binary DB, the clock, the other processes and the answers of the server are
  inputs as well, and so are the owner, the lock-file text and the transaction id of a change to a line.

  \<^bold>\<open>Loops.\<close>  All definitions are total.  Loops over data recurse on it; the delta search
  ends because the position grows, the resolution of delta chains because the depth is bounded, and
  a reader waiting for a lock because the clock readings pass its deadline.  A walk over a history ends
  because the snapshots it may still find and those it has queued never grow in number (\<open>room\<close>),
  the pages of links because the cursor is a growing 64-bit word; the order of a history takes one
  round per snapshot, which the loop never exceeds (\<open>take_ready_finishes\<close>).

  \<^bold>\<open>Not modelled.\<close>  Error messages (their kinds are kept), the JSON views and summaries of
  packs, tree packs, file-system failures while a pack is written and its publication under a
  temporary name, the record queries of a snapshot store, the read surface of the content store, the plan and workflow stores, garbage collection,
  remote synchronisation, the agent runtime, the server, the command line and the bindings.
\<close>

end
